(* ===== verification/Prelude.thy ===== *)
theory Prelude
  imports Main "HOL-Library.Word" "HOL-Library.Signed_Division"
begin

text \<open>
  What every component of the compiler model shares: the machine types of the C sources
  (i386, little endian), pointers, arrays obtained from \<open>sysMalloc\<close> and \<open>sysRealloc\<close>,
  \<open>memcpy\<close> and \<open>memmove\<close> on them, the doubling loops that grow a table, and the lemma
  collections the component theories use.

  An allocated array is the list of its cells. The cells a fresh or a grown allocation
  contains before they are written are given by a function \<open>fresh\<close> from the cell number,
  which no theorem restricts: it stands for whatever the memory held.
\<close>

unbundle bit_operations_syntax

named_theorems table_simps "what the table operations do to the live part of a table"
named_theorems wf_intros "operations keep the well-formedness of tables and contexts"
named_theorems frame_simps "fields that an operation leaves alone"

type_synonym u8 = "8 word"
type_synonym u16 = "16 word"
type_synonym u32 = "32 word"

text \<open>A pointer is its address; \<open>NULL\<close> is \<open>0\<close>.\<close>

type_synonym ptr = int

abbreviation (input) NULL :: ptr where "NULL \<equiv> 0"

text \<open>\<open>INT_MAX\<close> of \<^verbatim>\<open>limits.h\<close> on i386.\<close>

abbreviation (input) INT_MAX :: int where "INT_MAX \<equiv> 2147483647"

subsection \<open>Allocated arrays\<close>

definition realloc :: "(nat \<Rightarrow> 'a) \<Rightarrow> 'a list \<Rightarrow> nat \<Rightarrow> 'a list" where
  "realloc fresh xs n = take n xs @ map fresh [length xs..<n]"

definition overwrite :: "nat \<Rightarrow> 'a list \<Rightarrow> 'a list \<Rightarrow> 'a list" where
  \<comment> \<open>\<open>memcpy\<close> of \<open>ys\<close> to cell \<open>off\<close> of \<open>xs\<close>\<close>
  "overwrite off ys xs = take off xs @ ys @ drop (off + length ys) xs"

lemma length_realloc [simp]: "length (realloc fresh xs n) = n"
  by (simp add: realloc_def)

lemma take_realloc [simp]: "k \<le> length xs \<Longrightarrow> k \<le> n \<Longrightarrow> take k (realloc fresh xs n) = take k xs"
  by (simp add: realloc_def min_def)

lemma nth_realloc [simp]: "i < length xs \<Longrightarrow> i < n \<Longrightarrow> realloc fresh xs n ! i = xs ! i"
  by (simp add: realloc_def nth_append)

lemma length_overwrite [simp]:
  "off + length ys \<le> length xs \<Longrightarrow> length (overwrite off ys xs) = length xs"
  by (simp add: overwrite_def)

lemma overwrite_Nil [simp]: "overwrite off [] xs = xs"
  by (simp add: overwrite_def)

lemma take_overwrite_before [simp]:
  "k \<le> off \<Longrightarrow> off \<le> length xs \<Longrightarrow> take k (overwrite off ys xs) = take k xs"
  by (simp add: overwrite_def min_def)

lemma take_overwrite_end [simp]:
  "off + length ys \<le> length xs \<Longrightarrow> n = off + length ys \<Longrightarrow>
   take n (overwrite off ys xs) = take off xs @ ys"
  by (simp add: overwrite_def)

lemma nth_overwrite_before [simp]:
  "i < off \<Longrightarrow> off + length ys \<le> length xs \<Longrightarrow> overwrite off ys xs ! i = xs ! i"
  by (simp add: overwrite_def nth_append)

lemma nth_overwrite_in:
  "off + length ys \<le> length xs \<Longrightarrow> k < length ys \<Longrightarrow> overwrite off ys xs ! (off + k) = ys ! k"
  by (simp add: overwrite_def nth_append)

lemma nth_overwrite_after:
  "off + length ys \<le> i \<Longrightarrow> off + length ys \<le> length xs \<Longrightarrow> overwrite off ys xs ! i = xs ! i"
  by (auto simp: overwrite_def nth_append)

text \<open>The memory a 32 bit value occupies: four bytes, the least significant first.\<close>

definition le32 :: "u32 \<Rightarrow> u8 list" where
  "le32 v = [ucast v, ucast (drop_bit 8 v), ucast (drop_bit 16 v), ucast (drop_bit 24 v)]"

definition get32 :: "u8 list \<Rightarrow> nat \<Rightarrow> u32" where
  \<comment> \<open>the \<open>int32_t\<close> at byte \<open>off\<close>\<close>
  "get32 xs off =
     ucast (xs ! off) OR push_bit 8 (ucast (xs ! (off + 1)))
     OR push_bit 16 (ucast (xs ! (off + 2))) OR push_bit 24 (ucast (xs ! (off + 3)))"

definition put32 :: "nat \<Rightarrow> u32 \<Rightarrow> u8 list \<Rightarrow> u8 list" where
  \<comment> \<open>\<open>memcpy(p + off, &v, 4)\<close>\<close>
  "put32 off v xs = overwrite off (le32 v) xs"

lemma length_le32 [simp]: "length (le32 v) = 4"
  by (simp add: le32_def)

lemma length_put32 [simp]: "off + 4 \<le> length xs \<Longrightarrow> length (put32 off v xs) = length xs"
  by (simp add: put32_def)

lemma nth_put32_other:
  "off + 4 \<le> length xs \<Longrightarrow> i < off \<or> off + 4 \<le> i \<Longrightarrow> put32 off v xs ! i = xs ! i"
  by (auto simp: put32_def nth_overwrite_after)

lemma le32_join:
  fixes v :: u32
  shows "(ucast (ucast v :: u8) :: u32) OR push_bit 8 (ucast (ucast (drop_bit 8 v) :: u8))
     OR push_bit 16 (ucast (ucast (drop_bit 16 v) :: u8))
     OR push_bit 24 (ucast (ucast (drop_bit 24 v) :: u8)) = v"
  by (rule bit_word_eqI)
    (auto simp: bit_or_iff bit_push_bit_iff bit_ucast_iff bit_drop_bit_eq not_le dest: less_le_trans)

lemma get32_put32 [simp]:
  assumes "off + 4 \<le> length xs"
  shows "get32 (put32 off v xs) off = v"
proof -
  have "put32 off v xs ! (off + k) = le32 v ! k" if "k < 4" for k
    using nth_overwrite_in [of off "le32 v" xs k] assms that by (simp add: put32_def)
  from this [of 0] this [of 1] this [of 2] this [of 3] show ?thesis
    by (simp add: get32_def le32_def le32_join)
qed

subsection \<open>Growing by doubling\<close>

text \<open>
  The loop \<open>do size <<= 1; while (need > size)\<close> that follows a test \<open>need > size\<close>, as a
  loop that tests first. A size of \<open>0\<close> would never grow in C either; every table starts
  with a positive size.
\<close>

function grow :: "nat \<Rightarrow> nat \<Rightarrow> nat" where
  "grow sz need = (if sz = 0 \<or> need \<le> sz then sz else grow (2 * sz) need)"
  by pat_completeness auto
termination
  by (relation "measure (\<lambda>(sz, need). need - sz)") auto

declare grow.simps [simp del]

lemma grow_ge: "0 < sz \<Longrightarrow> need \<le> grow sz need"
  by (induction sz need rule: grow.induct) (subst grow.simps, auto)

lemma grow_mono: "sz \<le> grow sz need"
  by (induction sz need rule: grow.induct) (subst grow.simps, auto)

lemma grow_pos: "0 < sz \<Longrightarrow> 0 < grow sz need"
  using grow_mono [of sz need] by linarith

lemma grow_bound: "0 < sz \<Longrightarrow> grow sz need \<le> max sz (2 * need)"
  by (induction sz need rule: grow.induct) (subst grow.simps, auto)

lemma grow_id [simp]: "need \<le> sz \<Longrightarrow> grow sz need = sz"
  by (subst grow.simps) simp

subsection \<open>Lists\<close>

lemma take_update_last: "n < length xs \<Longrightarrow> take (Suc n) (xs[n := x]) = take n xs @ [x]"
  by (simp add: take_Suc_conv_app_nth)

lemma take_insert_cells:
  assumes "i \<le> n" "n \<le> length xs"
  shows "take (n + length ys) (take i xs @ ys @ drop i xs) = take i (take n xs) @ ys @ drop i (take n xs)"
proof -
  from assms have a: "length (take i xs) = i" "take i (take n xs) = take i xs"
    by (simp_all add: min_def)
  from assms have "n + length ys - i = length ys + (n - i)"
    by simp
  with a assms show ?thesis
    by (simp add: drop_take del: length_take)
qed

text \<open>Lists sorted by a key stay sorted under what the passes do to them.\<close>

lemma sorted_map_cell: "sorted (map f (xs @ ys)) \<Longrightarrow> x \<in> set xs \<Longrightarrow> y \<in> set ys \<Longrightarrow> f x \<le> f y"
  by (auto simp: sorted_append)

end
