(* ===== verification/CStack.thy ===== *)
theory CStack
  imports Prelude
begin

text \<open>
  The growable stack of \<^verbatim>\<open>stack.c\<close>. The passes that walk over code with inlined methods
  keep the enclosing method blocks on it: they push at \<open>opc_inlined_enter\<close> and pop at
  \<open>opc_inlined_exit\<close>. An element is a \<open>long\<close>, into which the passes cast pointers.

  The interface the passes rely on, last in first out, is the locale \<open>lifo\<close>; the stack of
  \<^verbatim>\<open>stack.c\<close> is interpreted as one at the end of the theory.
\<close>

record cstack =
  contents :: "int list"
  depth :: nat
  capacity :: nat
  fresh_long :: "nat \<Rightarrow> int" \<comment> \<open>what allocated memory holds before it is written\<close>

abbreviation (input) INVALID_ELEM :: int where "INVALID_ELEM \<equiv> -1"
abbreviation (input) INITIAL_STACK_SIZE :: nat where "INITIAL_STACK_SIZE \<equiv> 2"

definition newStack :: "(nat \<Rightarrow> int) \<Rightarrow> cstack" where
  "newStack fresh =
     \<lparr>contents = map fresh [0..<INITIAL_STACK_SIZE], depth = 0, capacity = INITIAL_STACK_SIZE,
      fresh_long = fresh\<rparr>"

definition clearStack :: "cstack \<Rightarrow> cstack" where
  "clearStack s = s\<lparr>depth := 0\<rparr>"

definition pushToStack :: "cstack \<Rightarrow> int \<Rightarrow> cstack" where
  "pushToStack s elem =
     (let s = (if capacity s \<le> depth s
               then s\<lparr>capacity := 2 * capacity s,
                      contents := realloc (fresh_long s) (contents s) (2 * capacity s)\<rparr>
               else s)
      in s\<lparr>contents := (contents s)[depth s := elem], depth := depth s + 1\<rparr>)"

definition popFromStack :: "cstack \<Rightarrow> int \<times> cstack" where
  "popFromStack s =
     (if depth s = 0 then (INVALID_ELEM, s)
      else (contents s ! (depth s - 1), s\<lparr>depth := depth s - 1\<rparr>))"

definition stackDepth :: "cstack \<Rightarrow> nat" where
  "stackDepth s = depth s"

definition stackElem :: "cstack \<Rightarrow> int \<Rightarrow> int" where
  "stackElem s i =
     (if i < 0 \<or> int (depth s) \<le> i then INVALID_ELEM else contents s ! nat i)"

subsection \<open>The stack as a list\<close>

definition stack_ok :: "cstack \<Rightarrow> bool" where
  \<comment> \<open>the block has the size the header says, it is never empty, and the depth is inside it\<close>
  "stack_ok s \<longleftrightarrow> length (contents s) = capacity s \<and> 0 < capacity s \<and> depth s \<le> capacity s"

definition stack_list :: "cstack \<Rightarrow> int list" where
  \<comment> \<open>the elements, the top first\<close>
  "stack_list s = rev (take (depth s) (contents s))"

lemma newStack_ok [wf_intros]: "stack_ok (newStack fresh)"
  by (simp add: stack_ok_def newStack_def)

lemma newStack_list [table_simps]: "stack_list (newStack fresh) = []"
  by (simp add: stack_list_def newStack_def)

lemma clearStack_ok [wf_intros]: "stack_ok s \<Longrightarrow> stack_ok (clearStack s)"
  by (simp add: stack_ok_def clearStack_def)

lemma clearStack_list [table_simps]: "stack_list (clearStack s) = []"
  by (simp add: stack_list_def clearStack_def)

lemma pushToStack_ok [wf_intros]: "stack_ok s \<Longrightarrow> stack_ok (pushToStack s e)"
  by (auto simp: stack_ok_def pushToStack_def Let_def)

lemma pushToStack_list [table_simps]:
  "stack_ok s \<Longrightarrow> stack_list (pushToStack s e) = e # stack_list s"
  by (auto simp: stack_ok_def stack_list_def pushToStack_def Let_def take_Suc_conv_app_nth)

lemma popFromStack_ok [wf_intros]: "stack_ok s \<Longrightarrow> stack_ok (snd (popFromStack s))"
  by (auto simp: stack_ok_def popFromStack_def)

lemma popFromStack_list:
  assumes "stack_ok s"
  shows "popFromStack s =
    (case stack_list s of [] \<Rightarrow> (INVALID_ELEM, s) | e # _ \<Rightarrow> (e, s\<lparr>depth := depth s - 1\<rparr>))"
    and "stack_list (snd (popFromStack s)) = tl (stack_list s)"
proof -
  show "popFromStack s =
    (case stack_list s of [] \<Rightarrow> (INVALID_ELEM, s) | e # _ \<Rightarrow> (e, s\<lparr>depth := depth s - 1\<rparr>))"
    using assms
    by (cases "depth s")
      (auto simp: popFromStack_def stack_list_def stack_ok_def take_Suc_conv_app_nth
        split: list.splits)
  show "stack_list (snd (popFromStack s)) = tl (stack_list s)"
    using assms
    by (cases "depth s")
      (auto simp: popFromStack_def stack_list_def stack_ok_def take_Suc_conv_app_nth)
qed

lemma stackElem_list:
  "stack_ok s \<Longrightarrow> 0 \<le> i \<Longrightarrow> i < int (depth s) \<Longrightarrow> stackElem s i = rev (stack_list s) ! nat i"
  by (simp add: stackElem_def stack_list_def stack_ok_def)

lemma length_stack_list [simp]: "stack_ok s \<Longrightarrow> length (stack_list s) = stackDepth s"
  by (simp add: stack_list_def stack_ok_def stackDepth_def)

subsection \<open>The interface: last in, first out\<close>

locale lifo =
  fixes push :: "'s \<Rightarrow> 'e \<Rightarrow> 's"
    and pop :: "'s \<Rightarrow> 'e \<times> 's"
    and elems :: "'s \<Rightarrow> 'e list"
    and ok :: "'s \<Rightarrow> bool"
  assumes push_ok: "ok s \<Longrightarrow> ok (push s e)"
    and push_elems: "ok s \<Longrightarrow> elems (push s e) = e # elems s"
    and pop_ok: "ok s \<Longrightarrow> ok (snd (pop s))"
    and pop_fst: "ok s \<Longrightarrow> elems s = e # es \<Longrightarrow> fst (pop s) = e"
    and pop_snd: "ok s \<Longrightarrow> elems (snd (pop s)) = tl (elems s)"
begin

lemma pop_push:
  assumes "ok s"
  shows "fst (pop (push s e)) = e" and "elems (snd (pop (push s e))) = elems s"
    and "ok (snd (pop (push s e)))"
  using assms by (auto simp: push_ok push_elems pop_ok pop_snd intro: pop_fst)

lemma foldl_push:
  "ok s \<Longrightarrow> ok (foldl push s es) \<and> elems (foldl push s es) = rev es @ elems s"
  by (induction es arbitrary: s) (simp_all add: push_ok push_elems)

text \<open>
  A walk over properly nested brackets: \<open>Some e\<close> opens a level and pushes \<open>e\<close>, \<open>None\<close>
  closes the innermost one. A walk that is balanced gives back the stack it started with.
\<close>

primrec walk :: "'e option list \<Rightarrow> 's \<Rightarrow> 's" where
  "walk [] s = s"
| "walk (x # xs) s = walk xs (case x of Some e \<Rightarrow> push s e | None \<Rightarrow> snd (pop s))"

inductive balanced :: "'e option list \<Rightarrow> bool" where
  empty: "balanced []"
| wrap: "balanced xs \<Longrightarrow> balanced ys \<Longrightarrow> balanced (Some e # xs @ None # ys)"

lemma walk_append: "walk (xs @ ys) s = walk ys (walk xs s)"
  by (induction xs arbitrary: s) simp_all

lemma walk_balanced:
  "balanced xs \<Longrightarrow> ok s \<Longrightarrow> ok (walk xs s) \<and> elems (walk xs s) = elems s"
proof (induction arbitrary: s rule: balanced.induct)
  case empty
  then show ?case by simp
next
  case (wrap xs ys e)
  from wrap.prems have s1: "ok (push s e)" "elems (push s e) = e # elems s"
    by (simp_all add: push_ok push_elems)
  with wrap.IH(1) have s2: "ok (walk xs (push s e))" "elems (walk xs (push s e)) = e # elems s"
    by simp_all
  then have "ok (snd (pop (walk xs (push s e))))" "elems (snd (pop (walk xs (push s e)))) = elems s"
    by (simp_all add: pop_ok pop_snd)
  with wrap.IH(2) show ?case
    by (simp add: walk_append)
qed

end

interpretation mbstack: lifo pushToStack popFromStack stack_list stack_ok
proof unfold_locales
  show "fst (popFromStack s) = e" if "stack_ok s" "stack_list s = e # es" for s e es
    using that by (simp add: popFromStack_list(1))
qed (simp_all add: wf_intros table_simps popFromStack_list(2))

subsection \<open>Properties\<close>

text \<open>The stack keeps every element through the growth of its block: after any sequence of
pushes it holds the pushed elements in reverse order above the old ones, the following pops
give them back last in first out, and popping an empty stack gives \<open>INVALID_ELEM\<close> and leaves
the stack as it is.\<close>
theorem stack_last_in_first_out:
  assumes "stack_ok s"
  shows "stack_ok (foldl pushToStack s es) \<and>
    stack_list (foldl pushToStack s es) = rev es @ stack_list s \<and>
    fst (popFromStack (foldl pushToStack s (es @ [e]))) = e \<and>
    stack_list (snd (popFromStack (foldl pushToStack s (es @ [e])))) = rev es @ stack_list s \<and>
    popFromStack (clearStack s) = (INVALID_ELEM, clearStack s)"
proof -
  note f = mbstack.foldl_push [OF assms, of es]
  then show ?thesis
    using mbstack.pop_push [of "foldl pushToStack s es" e]
    by (simp add: popFromStack_def clearStack_def)
qed

theorem stack_last_in_first_out_witness:
  "fst (popFromStack (foldl pushToStack (newStack (\<lambda>_. 77)) ([1, 2, 3] @ [4]))) = 4 \<and>
   stack_list (foldl pushToStack (newStack (\<lambda>_. 77)) [1, 2, 3, 4, 5]) = [5, 4, 3, 2, 1]"
  using stack_last_in_first_out [OF newStack_ok [of "\<lambda>_. 77"], of "[1, 2, 3]" 4]
    stack_last_in_first_out [OF newStack_ok [of "\<lambda>_. 77"], of "[1, 2, 3, 4, 5]" 4]
  by (simp add: newStack_list)

end
