(* ===== verification/Opcodes.thy ===== *)
theory Opcodes
  imports Prelude
begin

text \<open>
  The opcode numbers: the bytecode instructions of \<^verbatim>\<open>opcodes.h\<close> (with the VM's quick forms)
  and the internal opcodes of \<^verbatim>\<open>opcodes_internal.h\<close> that the compiler's passes work on, as
  abbreviations of numerals; and the table of instruction lengths of \<^verbatim>\<open>opcodes.c\<close>.
\<close>

subsection \<open>Bytecode instructions (\<^verbatim>\<open>opcodes.h\<close>)\<close>

abbreviation (input) opc_nop :: nat where "opc_nop \<equiv> 0"
abbreviation (input) opc_aconst_null :: nat where "opc_aconst_null \<equiv> 1"
abbreviation (input) opc_iconst_m1 :: nat where "opc_iconst_m1 \<equiv> 2"
abbreviation (input) opc_iconst_0 :: nat where "opc_iconst_0 \<equiv> 3"
abbreviation (input) opc_iconst_1 :: nat where "opc_iconst_1 \<equiv> 4"
abbreviation (input) opc_iconst_2 :: nat where "opc_iconst_2 \<equiv> 5"
abbreviation (input) opc_iconst_3 :: nat where "opc_iconst_3 \<equiv> 6"
abbreviation (input) opc_iconst_4 :: nat where "opc_iconst_4 \<equiv> 7"
abbreviation (input) opc_iconst_5 :: nat where "opc_iconst_5 \<equiv> 8"
abbreviation (input) opc_lconst_0 :: nat where "opc_lconst_0 \<equiv> 9"
abbreviation (input) opc_lconst_1 :: nat where "opc_lconst_1 \<equiv> 10"
abbreviation (input) opc_fconst_0 :: nat where "opc_fconst_0 \<equiv> 11"
abbreviation (input) opc_fconst_1 :: nat where "opc_fconst_1 \<equiv> 12"
abbreviation (input) opc_fconst_2 :: nat where "opc_fconst_2 \<equiv> 13"
abbreviation (input) opc_dconst_0 :: nat where "opc_dconst_0 \<equiv> 14"
abbreviation (input) opc_dconst_1 :: nat where "opc_dconst_1 \<equiv> 15"
abbreviation (input) opc_bipush :: nat where "opc_bipush \<equiv> 16"
abbreviation (input) opc_sipush :: nat where "opc_sipush \<equiv> 17"
abbreviation (input) opc_ldc :: nat where "opc_ldc \<equiv> 18"
abbreviation (input) opc_ldc_w :: nat where "opc_ldc_w \<equiv> 19"
abbreviation (input) opc_ldc2_w :: nat where "opc_ldc2_w \<equiv> 20"
abbreviation (input) opc_iload :: nat where "opc_iload \<equiv> 21"
abbreviation (input) opc_lload :: nat where "opc_lload \<equiv> 22"
abbreviation (input) opc_fload :: nat where "opc_fload \<equiv> 23"
abbreviation (input) opc_dload :: nat where "opc_dload \<equiv> 24"
abbreviation (input) opc_aload :: nat where "opc_aload \<equiv> 25"
abbreviation (input) opc_iload_0 :: nat where "opc_iload_0 \<equiv> 26"
abbreviation (input) opc_iload_1 :: nat where "opc_iload_1 \<equiv> 27"
abbreviation (input) opc_iload_2 :: nat where "opc_iload_2 \<equiv> 28"
abbreviation (input) opc_iload_3 :: nat where "opc_iload_3 \<equiv> 29"
abbreviation (input) opc_lload_0 :: nat where "opc_lload_0 \<equiv> 30"
abbreviation (input) opc_lload_1 :: nat where "opc_lload_1 \<equiv> 31"
abbreviation (input) opc_lload_2 :: nat where "opc_lload_2 \<equiv> 32"
abbreviation (input) opc_lload_3 :: nat where "opc_lload_3 \<equiv> 33"
abbreviation (input) opc_fload_0 :: nat where "opc_fload_0 \<equiv> 34"
abbreviation (input) opc_fload_1 :: nat where "opc_fload_1 \<equiv> 35"
abbreviation (input) opc_fload_2 :: nat where "opc_fload_2 \<equiv> 36"
abbreviation (input) opc_fload_3 :: nat where "opc_fload_3 \<equiv> 37"
abbreviation (input) opc_dload_0 :: nat where "opc_dload_0 \<equiv> 38"
abbreviation (input) opc_dload_1 :: nat where "opc_dload_1 \<equiv> 39"
abbreviation (input) opc_dload_2 :: nat where "opc_dload_2 \<equiv> 40"
abbreviation (input) opc_dload_3 :: nat where "opc_dload_3 \<equiv> 41"
abbreviation (input) opc_aload_0 :: nat where "opc_aload_0 \<equiv> 42"
abbreviation (input) opc_aload_1 :: nat where "opc_aload_1 \<equiv> 43"
abbreviation (input) opc_aload_2 :: nat where "opc_aload_2 \<equiv> 44"
abbreviation (input) opc_aload_3 :: nat where "opc_aload_3 \<equiv> 45"
abbreviation (input) opc_iaload :: nat where "opc_iaload \<equiv> 46"
abbreviation (input) opc_laload :: nat where "opc_laload \<equiv> 47"
abbreviation (input) opc_faload :: nat where "opc_faload \<equiv> 48"
abbreviation (input) opc_daload :: nat where "opc_daload \<equiv> 49"
abbreviation (input) opc_aaload :: nat where "opc_aaload \<equiv> 50"
abbreviation (input) opc_baload :: nat where "opc_baload \<equiv> 51"
abbreviation (input) opc_caload :: nat where "opc_caload \<equiv> 52"
abbreviation (input) opc_saload :: nat where "opc_saload \<equiv> 53"
abbreviation (input) opc_istore :: nat where "opc_istore \<equiv> 54"
abbreviation (input) opc_lstore :: nat where "opc_lstore \<equiv> 55"
abbreviation (input) opc_fstore :: nat where "opc_fstore \<equiv> 56"
abbreviation (input) opc_dstore :: nat where "opc_dstore \<equiv> 57"
abbreviation (input) opc_astore :: nat where "opc_astore \<equiv> 58"
abbreviation (input) opc_istore_0 :: nat where "opc_istore_0 \<equiv> 59"
abbreviation (input) opc_istore_1 :: nat where "opc_istore_1 \<equiv> 60"
abbreviation (input) opc_istore_2 :: nat where "opc_istore_2 \<equiv> 61"
abbreviation (input) opc_istore_3 :: nat where "opc_istore_3 \<equiv> 62"
abbreviation (input) opc_lstore_0 :: nat where "opc_lstore_0 \<equiv> 63"
abbreviation (input) opc_lstore_1 :: nat where "opc_lstore_1 \<equiv> 64"
abbreviation (input) opc_lstore_2 :: nat where "opc_lstore_2 \<equiv> 65"
abbreviation (input) opc_lstore_3 :: nat where "opc_lstore_3 \<equiv> 66"
abbreviation (input) opc_fstore_0 :: nat where "opc_fstore_0 \<equiv> 67"
abbreviation (input) opc_fstore_1 :: nat where "opc_fstore_1 \<equiv> 68"
abbreviation (input) opc_fstore_2 :: nat where "opc_fstore_2 \<equiv> 69"
abbreviation (input) opc_fstore_3 :: nat where "opc_fstore_3 \<equiv> 70"
abbreviation (input) opc_dstore_0 :: nat where "opc_dstore_0 \<equiv> 71"
abbreviation (input) opc_dstore_1 :: nat where "opc_dstore_1 \<equiv> 72"
abbreviation (input) opc_dstore_2 :: nat where "opc_dstore_2 \<equiv> 73"
abbreviation (input) opc_dstore_3 :: nat where "opc_dstore_3 \<equiv> 74"
abbreviation (input) opc_astore_0 :: nat where "opc_astore_0 \<equiv> 75"
abbreviation (input) opc_astore_1 :: nat where "opc_astore_1 \<equiv> 76"
abbreviation (input) opc_astore_2 :: nat where "opc_astore_2 \<equiv> 77"
abbreviation (input) opc_astore_3 :: nat where "opc_astore_3 \<equiv> 78"
abbreviation (input) opc_iastore :: nat where "opc_iastore \<equiv> 79"
abbreviation (input) opc_lastore :: nat where "opc_lastore \<equiv> 80"
abbreviation (input) opc_fastore :: nat where "opc_fastore \<equiv> 81"
abbreviation (input) opc_dastore :: nat where "opc_dastore \<equiv> 82"
abbreviation (input) opc_aastore :: nat where "opc_aastore \<equiv> 83"
abbreviation (input) opc_bastore :: nat where "opc_bastore \<equiv> 84"
abbreviation (input) opc_castore :: nat where "opc_castore \<equiv> 85"
abbreviation (input) opc_sastore :: nat where "opc_sastore \<equiv> 86"
abbreviation (input) opc_pop :: nat where "opc_pop \<equiv> 87"
abbreviation (input) opc_pop2 :: nat where "opc_pop2 \<equiv> 88"
abbreviation (input) opc_dup :: nat where "opc_dup \<equiv> 89"
abbreviation (input) opc_dup_x1 :: nat where "opc_dup_x1 \<equiv> 90"
abbreviation (input) opc_dup_x2 :: nat where "opc_dup_x2 \<equiv> 91"
abbreviation (input) opc_dup2 :: nat where "opc_dup2 \<equiv> 92"
abbreviation (input) opc_dup2_x1 :: nat where "opc_dup2_x1 \<equiv> 93"
abbreviation (input) opc_dup2_x2 :: nat where "opc_dup2_x2 \<equiv> 94"
abbreviation (input) opc_swap :: nat where "opc_swap \<equiv> 95"
abbreviation (input) opc_iadd :: nat where "opc_iadd \<equiv> 96"
abbreviation (input) opc_ladd :: nat where "opc_ladd \<equiv> 97"
abbreviation (input) opc_fadd :: nat where "opc_fadd \<equiv> 98"
abbreviation (input) opc_dadd :: nat where "opc_dadd \<equiv> 99"
abbreviation (input) opc_isub :: nat where "opc_isub \<equiv> 100"
abbreviation (input) opc_lsub :: nat where "opc_lsub \<equiv> 101"
abbreviation (input) opc_fsub :: nat where "opc_fsub \<equiv> 102"
abbreviation (input) opc_dsub :: nat where "opc_dsub \<equiv> 103"
abbreviation (input) opc_imul :: nat where "opc_imul \<equiv> 104"
abbreviation (input) opc_lmul :: nat where "opc_lmul \<equiv> 105"
abbreviation (input) opc_fmul :: nat where "opc_fmul \<equiv> 106"
abbreviation (input) opc_dmul :: nat where "opc_dmul \<equiv> 107"
abbreviation (input) opc_idiv :: nat where "opc_idiv \<equiv> 108"
abbreviation (input) opc_ldiv :: nat where "opc_ldiv \<equiv> 109"
abbreviation (input) opc_fdiv :: nat where "opc_fdiv \<equiv> 110"
abbreviation (input) opc_ddiv :: nat where "opc_ddiv \<equiv> 111"
abbreviation (input) opc_irem :: nat where "opc_irem \<equiv> 112"
abbreviation (input) opc_lrem :: nat where "opc_lrem \<equiv> 113"
abbreviation (input) opc_frem :: nat where "opc_frem \<equiv> 114"
abbreviation (input) opc_drem :: nat where "opc_drem \<equiv> 115"
abbreviation (input) opc_ineg :: nat where "opc_ineg \<equiv> 116"
abbreviation (input) opc_lneg :: nat where "opc_lneg \<equiv> 117"
abbreviation (input) opc_fneg :: nat where "opc_fneg \<equiv> 118"
abbreviation (input) opc_dneg :: nat where "opc_dneg \<equiv> 119"
abbreviation (input) opc_ishl :: nat where "opc_ishl \<equiv> 120"
abbreviation (input) opc_lshl :: nat where "opc_lshl \<equiv> 121"
abbreviation (input) opc_ishr :: nat where "opc_ishr \<equiv> 122"
abbreviation (input) opc_lshr :: nat where "opc_lshr \<equiv> 123"
abbreviation (input) opc_iushr :: nat where "opc_iushr \<equiv> 124"
abbreviation (input) opc_lushr :: nat where "opc_lushr \<equiv> 125"
abbreviation (input) opc_iand :: nat where "opc_iand \<equiv> 126"
abbreviation (input) opc_land :: nat where "opc_land \<equiv> 127"
abbreviation (input) opc_ior :: nat where "opc_ior \<equiv> 128"
abbreviation (input) opc_lor :: nat where "opc_lor \<equiv> 129"
abbreviation (input) opc_ixor :: nat where "opc_ixor \<equiv> 130"
abbreviation (input) opc_lxor :: nat where "opc_lxor \<equiv> 131"
abbreviation (input) opc_iinc :: nat where "opc_iinc \<equiv> 132"
abbreviation (input) opc_i2l :: nat where "opc_i2l \<equiv> 133"
abbreviation (input) opc_i2f :: nat where "opc_i2f \<equiv> 134"
abbreviation (input) opc_i2d :: nat where "opc_i2d \<equiv> 135"
abbreviation (input) opc_l2i :: nat where "opc_l2i \<equiv> 136"
abbreviation (input) opc_l2f :: nat where "opc_l2f \<equiv> 137"
abbreviation (input) opc_l2d :: nat where "opc_l2d \<equiv> 138"
abbreviation (input) opc_f2i :: nat where "opc_f2i \<equiv> 139"
abbreviation (input) opc_f2l :: nat where "opc_f2l \<equiv> 140"
abbreviation (input) opc_f2d :: nat where "opc_f2d \<equiv> 141"
abbreviation (input) opc_d2i :: nat where "opc_d2i \<equiv> 142"
abbreviation (input) opc_d2l :: nat where "opc_d2l \<equiv> 143"
abbreviation (input) opc_d2f :: nat where "opc_d2f \<equiv> 144"
abbreviation (input) opc_i2b :: nat where "opc_i2b \<equiv> 145"
abbreviation (input) opc_i2c :: nat where "opc_i2c \<equiv> 146"
abbreviation (input) opc_i2s :: nat where "opc_i2s \<equiv> 147"
abbreviation (input) opc_lcmp :: nat where "opc_lcmp \<equiv> 148"
abbreviation (input) opc_fcmpl :: nat where "opc_fcmpl \<equiv> 149"
abbreviation (input) opc_fcmpg :: nat where "opc_fcmpg \<equiv> 150"
abbreviation (input) opc_dcmpl :: nat where "opc_dcmpl \<equiv> 151"
abbreviation (input) opc_dcmpg :: nat where "opc_dcmpg \<equiv> 152"
abbreviation (input) opc_ifeq :: nat where "opc_ifeq \<equiv> 153"
abbreviation (input) opc_ifne :: nat where "opc_ifne \<equiv> 154"
abbreviation (input) opc_iflt :: nat where "opc_iflt \<equiv> 155"
abbreviation (input) opc_ifge :: nat where "opc_ifge \<equiv> 156"
abbreviation (input) opc_ifgt :: nat where "opc_ifgt \<equiv> 157"
abbreviation (input) opc_ifle :: nat where "opc_ifle \<equiv> 158"
abbreviation (input) opc_if_icmpeq :: nat where "opc_if_icmpeq \<equiv> 159"
abbreviation (input) opc_if_icmpne :: nat where "opc_if_icmpne \<equiv> 160"
abbreviation (input) opc_if_icmplt :: nat where "opc_if_icmplt \<equiv> 161"
abbreviation (input) opc_if_icmpge :: nat where "opc_if_icmpge \<equiv> 162"
abbreviation (input) opc_if_icmpgt :: nat where "opc_if_icmpgt \<equiv> 163"
abbreviation (input) opc_if_icmple :: nat where "opc_if_icmple \<equiv> 164"
abbreviation (input) opc_if_acmpeq :: nat where "opc_if_acmpeq \<equiv> 165"
abbreviation (input) opc_if_acmpne :: nat where "opc_if_acmpne \<equiv> 166"
abbreviation (input) opc_goto :: nat where "opc_goto \<equiv> 167"
abbreviation (input) opc_jsr :: nat where "opc_jsr \<equiv> 168"
abbreviation (input) opc_ret :: nat where "opc_ret \<equiv> 169"
abbreviation (input) opc_tableswitch :: nat where "opc_tableswitch \<equiv> 170"
abbreviation (input) opc_lookupswitch :: nat where "opc_lookupswitch \<equiv> 171"
abbreviation (input) opc_ireturn :: nat where "opc_ireturn \<equiv> 172"
abbreviation (input) opc_lreturn :: nat where "opc_lreturn \<equiv> 173"
abbreviation (input) opc_freturn :: nat where "opc_freturn \<equiv> 174"
abbreviation (input) opc_dreturn :: nat where "opc_dreturn \<equiv> 175"
abbreviation (input) opc_areturn :: nat where "opc_areturn \<equiv> 176"
abbreviation (input) opc_return :: nat where "opc_return \<equiv> 177"
abbreviation (input) opc_getstatic :: nat where "opc_getstatic \<equiv> 178"
abbreviation (input) opc_putstatic :: nat where "opc_putstatic \<equiv> 179"
abbreviation (input) opc_getfield :: nat where "opc_getfield \<equiv> 180"
abbreviation (input) opc_putfield :: nat where "opc_putfield \<equiv> 181"
abbreviation (input) opc_invokevirtual :: nat where "opc_invokevirtual \<equiv> 182"
abbreviation (input) opc_invokespecial :: nat where "opc_invokespecial \<equiv> 183"
abbreviation (input) opc_invokestatic :: nat where "opc_invokestatic \<equiv> 184"
abbreviation (input) opc_invokeinterface :: nat where "opc_invokeinterface \<equiv> 185"
abbreviation (input) opc_xxxunusedxxx :: nat where "opc_xxxunusedxxx \<equiv> 186"
abbreviation (input) opc_new :: nat where "opc_new \<equiv> 187"
abbreviation (input) opc_newarray :: nat where "opc_newarray \<equiv> 188"
abbreviation (input) opc_anewarray :: nat where "opc_anewarray \<equiv> 189"
abbreviation (input) opc_arraylength :: nat where "opc_arraylength \<equiv> 190"
abbreviation (input) opc_athrow :: nat where "opc_athrow \<equiv> 191"
abbreviation (input) opc_checkcast :: nat where "opc_checkcast \<equiv> 192"
abbreviation (input) opc_instanceof :: nat where "opc_instanceof \<equiv> 193"
abbreviation (input) opc_monitorenter :: nat where "opc_monitorenter \<equiv> 194"
abbreviation (input) opc_monitorexit :: nat where "opc_monitorexit \<equiv> 195"
abbreviation (input) opc_wide :: nat where "opc_wide \<equiv> 196"
abbreviation (input) opc_multianewarray :: nat where "opc_multianewarray \<equiv> 197"
abbreviation (input) opc_ifnull :: nat where "opc_ifnull \<equiv> 198"
abbreviation (input) opc_ifnonnull :: nat where "opc_ifnonnull \<equiv> 199"
abbreviation (input) opc_goto_w :: nat where "opc_goto_w \<equiv> 200"
abbreviation (input) opc_jsr_w :: nat where "opc_jsr_w \<equiv> 201"
abbreviation (input) opc_breakpoint :: nat where "opc_breakpoint \<equiv> 202"
abbreviation (input) opc_ldc_quick :: nat where "opc_ldc_quick \<equiv> 203"
abbreviation (input) opc_ldc_w_quick :: nat where "opc_ldc_w_quick \<equiv> 204"
abbreviation (input) opc_ldc2_w_quick :: nat where "opc_ldc2_w_quick \<equiv> 205"
abbreviation (input) opc_getfield_quick :: nat where "opc_getfield_quick \<equiv> 206"
abbreviation (input) opc_putfield_quick :: nat where "opc_putfield_quick \<equiv> 207"
abbreviation (input) opc_getfield2_quick :: nat where "opc_getfield2_quick \<equiv> 208"
abbreviation (input) opc_putfield2_quick :: nat where "opc_putfield2_quick \<equiv> 209"
abbreviation (input) opc_getstatic_quick :: nat where "opc_getstatic_quick \<equiv> 210"
abbreviation (input) opc_putstatic_quick :: nat where "opc_putstatic_quick \<equiv> 211"
abbreviation (input) opc_getstatic2_quick :: nat where "opc_getstatic2_quick \<equiv> 212"
abbreviation (input) opc_putstatic2_quick :: nat where "opc_putstatic2_quick \<equiv> 213"
abbreviation (input) opc_invokevirtual_quick :: nat where "opc_invokevirtual_quick \<equiv> 214"
abbreviation (input) opc_invokenonvirtual_quick :: nat where "opc_invokenonvirtual_quick \<equiv> 215"
abbreviation (input) opc_invokesuper_quick :: nat where "opc_invokesuper_quick \<equiv> 216"
abbreviation (input) opc_invokestatic_quick :: nat where "opc_invokestatic_quick \<equiv> 217"
abbreviation (input) opc_invokeinterface_quick :: nat where "opc_invokeinterface_quick \<equiv> 218"
abbreviation (input) opc_invokevirtualobject_quick :: nat where "opc_invokevirtualobject_quick \<equiv> 219"
abbreviation (input) opc_invokeignored_quick :: nat where "opc_invokeignored_quick \<equiv> 220"
abbreviation (input) opc_new_quick :: nat where "opc_new_quick \<equiv> 221"
abbreviation (input) opc_anewarray_quick :: nat where "opc_anewarray_quick \<equiv> 222"
abbreviation (input) opc_multianewarray_quick :: nat where "opc_multianewarray_quick \<equiv> 223"
abbreviation (input) opc_checkcast_quick :: nat where "opc_checkcast_quick \<equiv> 224"
abbreviation (input) opc_instanceof_quick :: nat where "opc_instanceof_quick \<equiv> 225"
abbreviation (input) opc_invokevirtual_quick_w :: nat where "opc_invokevirtual_quick_w \<equiv> 226"
abbreviation (input) opc_getfield_quick_w :: nat where "opc_getfield_quick_w \<equiv> 227"
abbreviation (input) opc_putfield_quick_w :: nat where "opc_putfield_quick_w \<equiv> 228"
abbreviation (input) opc_nonnull_quick :: nat where "opc_nonnull_quick \<equiv> 229"

subsection \<open>Internal opcodes (\<^verbatim>\<open>opcodes_internal.h\<close>)\<close>

abbreviation (input) opc_methodhead :: nat where "opc_methodhead \<equiv> 230"
abbreviation (input) opc_start :: nat where "opc_start \<equiv> 231"
abbreviation (input) opc_end :: nat where "opc_end \<equiv> 232"
abbreviation (input) opc_epilogue :: nat where "opc_epilogue \<equiv> 233"
abbreviation (input) opc_exc_handler :: nat where "opc_exc_handler \<equiv> 234"
abbreviation (input) opc_methodtail :: nat where "opc_methodtail \<equiv> 235"
abbreviation (input) opc_sync_obj_enter :: nat where "opc_sync_obj_enter \<equiv> 236"
abbreviation (input) opc_sync_obj_exit :: nat where "opc_sync_obj_exit \<equiv> 237"
abbreviation (input) opc_sync_static_enter :: nat where "opc_sync_static_enter \<equiv> 238"
abbreviation (input) opc_sync_static_exit :: nat where "opc_sync_static_exit \<equiv> 239"
abbreviation (input) opc_inv_head :: nat where "opc_inv_head \<equiv> 240"
abbreviation (input) opc_invoke_core :: nat where "opc_invoke_core \<equiv> 241"
abbreviation (input) opc_invoke_core_compiled :: nat where "opc_invoke_core_compiled \<equiv> 242"
abbreviation (input) opc_inv_metavm :: nat where "opc_inv_metavm \<equiv> 243"
abbreviation (input) opc_inv_vir_obj :: nat where "opc_inv_vir_obj \<equiv> 244"
abbreviation (input) opc_inv_vir_varspace :: nat where "opc_inv_vir_varspace \<equiv> 245"
abbreviation (input) opc_invokevirtual_obj :: nat where "opc_invokevirtual_obj \<equiv> 246"
abbreviation (input) opc_inv_spe_obj :: nat where "opc_inv_spe_obj \<equiv> 247"
abbreviation (input) opc_inv_spe_varspace :: nat where "opc_inv_spe_varspace \<equiv> 248"
abbreviation (input) opc_inv_stq_obj :: nat where "opc_inv_stq_obj \<equiv> 249"
abbreviation (input) opc_inv_stq_varspace :: nat where "opc_inv_stq_varspace \<equiv> 250"
abbreviation (input) opc_invokeignored_static :: nat where "opc_invokeignored_static \<equiv> 251"
abbreviation (input) opc_invokeignored_static_quick :: nat where "opc_invokeignored_static_quick \<equiv> 252"
abbreviation (input) opc_exc_check :: nat where "opc_exc_check \<equiv> 253"
abbreviation (input) opc_impdep1 :: nat where "opc_impdep1 \<equiv> 254"
abbreviation (input) opc_impdep2 :: nat where "opc_impdep2 \<equiv> 255"
abbreviation (input) opc_fill_cache :: nat where "opc_fill_cache \<equiv> 256"
abbreviation (input) opc_flush_cache :: nat where "opc_flush_cache \<equiv> 257"
abbreviation (input) opc_array_check :: nat where "opc_array_check \<equiv> 258"
abbreviation (input) opc_throw_illegalaccess :: nat where "opc_throw_illegalaccess \<equiv> 259"
abbreviation (input) opc_throw_instantiation :: nat where "opc_throw_instantiation \<equiv> 260"
abbreviation (input) opc_throw_noclassdef :: nat where "opc_throw_noclassdef \<equiv> 261"
abbreviation (input) opc_throw_nofield :: nat where "opc_throw_nofield \<equiv> 262"
abbreviation (input) opc_throw_nomethod :: nat where "opc_throw_nomethod \<equiv> 263"
abbreviation (input) opc_strict_enter :: nat where "opc_strict_enter \<equiv> 264"
abbreviation (input) opc_strict_exit :: nat where "opc_strict_exit \<equiv> 265"
abbreviation (input) opc_fld4 :: nat where "opc_fld4 \<equiv> 266"
abbreviation (input) opc_fld :: nat where "opc_fld \<equiv> 267"
abbreviation (input) opc_fst :: nat where "opc_fst \<equiv> 268"
abbreviation (input) opc_dld8 :: nat where "opc_dld8 \<equiv> 269"
abbreviation (input) opc_dld :: nat where "opc_dld \<equiv> 270"
abbreviation (input) opc_dst :: nat where "opc_dst \<equiv> 271"
abbreviation (input) opc_fppc_save :: nat where "opc_fppc_save \<equiv> 272"
abbreviation (input) opc_fppc_restore :: nat where "opc_fppc_restore \<equiv> 273"
abbreviation (input) opc_fppc_single :: nat where "opc_fppc_single \<equiv> 274"
abbreviation (input) opc_fppc_double :: nat where "opc_fppc_double \<equiv> 275"
abbreviation (input) opc_fppc_extended :: nat where "opc_fppc_extended \<equiv> 276"
abbreviation (input) opc_strict_fprep :: nat where "opc_strict_fprep \<equiv> 277"
abbreviation (input) opc_strict_fscdown :: nat where "opc_strict_fscdown \<equiv> 278"
abbreviation (input) opc_strict_fscup :: nat where "opc_strict_fscup \<equiv> 279"
abbreviation (input) opc_strict_fsettle :: nat where "opc_strict_fsettle \<equiv> 280"
abbreviation (input) opc_strict_dprep :: nat where "opc_strict_dprep \<equiv> 281"
abbreviation (input) opc_strict_dscdown :: nat where "opc_strict_dscdown \<equiv> 282"
abbreviation (input) opc_strict_dscup :: nat where "opc_strict_dscup \<equiv> 283"
abbreviation (input) opc_strict_dsettle :: nat where "opc_strict_dsettle \<equiv> 284"
abbreviation (input) opc_getstatic2 :: nat where "opc_getstatic2 \<equiv> 285"
abbreviation (input) opc_putstatic2 :: nat where "opc_putstatic2 \<equiv> 286"
abbreviation (input) opc_getfield2 :: nat where "opc_getfield2 \<equiv> 287"
abbreviation (input) opc_putfield2 :: nat where "opc_putfield2 \<equiv> 288"
abbreviation (input) opc_iastore1 :: nat where "opc_iastore1 \<equiv> 289"
abbreviation (input) opc_lastore1 :: nat where "opc_lastore1 \<equiv> 290"
abbreviation (input) opc_stateto0 :: nat where "opc_stateto0 \<equiv> 291"
abbreviation (input) opc_stateto1 :: nat where "opc_stateto1 \<equiv> 292"
abbreviation (input) opc_stateto2 :: nat where "opc_stateto2 \<equiv> 293"
abbreviation (input) opc_stateto3 :: nat where "opc_stateto3 \<equiv> 294"
abbreviation (input) opc_stateto4 :: nat where "opc_stateto4 \<equiv> 295"
abbreviation (input) opc_goto_st0 :: nat where "opc_goto_st0 \<equiv> 296"
abbreviation (input) opc_goto_st1 :: nat where "opc_goto_st1 \<equiv> 297"
abbreviation (input) opc_goto_st2 :: nat where "opc_goto_st2 \<equiv> 298"
abbreviation (input) opc_goto_st3 :: nat where "opc_goto_st3 \<equiv> 299"
abbreviation (input) opc_goto_st4 :: nat where "opc_goto_st4 \<equiv> 300"
abbreviation (input) opc_fload_fld :: nat where "opc_fload_fld \<equiv> 301"
abbreviation (input) opc_dload_dld :: nat where "opc_dload_dld \<equiv> 302"
abbreviation (input) opc_faload_fld :: nat where "opc_faload_fld \<equiv> 303"
abbreviation (input) opc_daload_dld :: nat where "opc_daload_dld \<equiv> 304"
abbreviation (input) opc_fst_fstore :: nat where "opc_fst_fstore \<equiv> 305"
abbreviation (input) opc_dst_dstore :: nat where "opc_dst_dstore \<equiv> 306"
abbreviation (input) opc_fst_fastore :: nat where "opc_fst_fastore \<equiv> 307"
abbreviation (input) opc_dst_dastore :: nat where "opc_dst_dastore \<equiv> 308"
abbreviation (input) opc_istld :: nat where "opc_istld \<equiv> 309"
abbreviation (input) opc_lstld :: nat where "opc_lstld \<equiv> 310"
abbreviation (input) opc_invoke_recursive :: nat where "opc_invoke_recursive \<equiv> 311"
abbreviation (input) opc_invoke_recursive_1 :: nat where "opc_invoke_recursive_1 \<equiv> 312"
abbreviation (input) opc_invoke_recursive_2 :: nat where "opc_invoke_recursive_2 \<equiv> 313"
abbreviation (input) opc_invoke_recursive_3 :: nat where "opc_invoke_recursive_3 \<equiv> 314"
abbreviation (input) opc_inlined_enter :: nat where "opc_inlined_enter \<equiv> 315"
abbreviation (input) opc_inlined_exit :: nat where "opc_inlined_exit \<equiv> 316"
abbreviation (input) opc_init_class :: nat where "opc_init_class \<equiv> 317"
abbreviation (input) opc_metavm_init :: nat where "opc_metavm_init \<equiv> 318"
abbreviation (input) opc_sqrt :: nat where "opc_sqrt \<equiv> 319"
abbreviation (input) opc_sin :: nat where "opc_sin \<equiv> 320"
abbreviation (input) opc_cos :: nat where "opc_cos \<equiv> 321"
abbreviation (input) opc_tan :: nat where "opc_tan \<equiv> 322"
abbreviation (input) opc_atan2 :: nat where "opc_atan2 \<equiv> 323"
abbreviation (input) opc_atan :: nat where "opc_atan \<equiv> 324"
abbreviation (input) opc_log :: nat where "opc_log \<equiv> 325"
abbreviation (input) opc_floor :: nat where "opc_floor \<equiv> 326"
abbreviation (input) opc_ceil :: nat where "opc_ceil \<equiv> 327"
abbreviation (input) opc_abs_int :: nat where "opc_abs_int \<equiv> 328"
abbreviation (input) opc_abs_long :: nat where "opc_abs_long \<equiv> 329"
abbreviation (input) opc_abs_float :: nat where "opc_abs_float \<equiv> 330"
abbreviation (input) opc_abs_double :: nat where "opc_abs_double \<equiv> 331"
abbreviation (input) opc_exp :: nat where "opc_exp \<equiv> 332"
abbreviation (input) opc_asin :: nat where "opc_asin \<equiv> 333"
abbreviation (input) opc_acos :: nat where "opc_acos \<equiv> 334"
abbreviation (input) opc_java_io_bufferedinputstream_ensureopen :: nat where "opc_java_io_bufferedinputstream_ensureopen \<equiv> 335"
abbreviation (input) NOPCODES :: nat where "NOPCODES \<equiv> 336"

subsection \<open>Instruction lengths (\<^verbatim>\<open>opcodes.c\<close>)\<close>

definition opcode_length :: "nat list" where
  "opcode_length = [
    1, 1, 1, 1, 1, 1, 1, 1, 1, 1, 1, 1, 1, 1, 1, 1, 2, 3, 2, 3, 3, 2, 2, 2, 2,
    2, 1, 1, 1, 1, 1, 1, 1, 1, 1, 1, 1, 1, 1, 1, 1, 1, 1, 1, 1, 1, 1, 1, 1, 1,
    1, 1, 1, 1, 2, 2, 2, 2, 2, 1, 1, 1, 1, 1, 1, 1, 1, 1, 1, 1, 1, 1, 1, 1, 1,
    1, 1, 1, 1, 1, 1, 1, 1, 1, 1, 1, 1, 1, 1, 1, 1, 1, 1, 1, 1, 1, 1, 1, 1, 1,
    1, 1, 1, 1, 1, 1, 1, 1, 1, 1, 1, 1, 1, 1, 1, 1, 1, 1, 1, 1, 1, 1, 1, 1, 1,
    1, 1, 1, 1, 1, 1, 1, 3, 1, 1, 1, 1, 1, 1, 1, 1, 1, 1, 1, 1, 1, 1, 1, 1, 1,
    1, 1, 1, 3, 3, 3, 3, 3, 3, 3, 3, 3, 3, 3, 3, 3, 3, 3, 3, 2, 99, 99, 1, 1, 1,
    1, 1, 1, 3, 3, 3, 3, 3, 3, 3, 5, 0, 3, 2, 3, 1, 1, 3, 3, 1, 1, 0, 4, 3, 3,
    5, 5, 1, 2, 3, 3, 3, 3, 3, 3, 3, 3, 3, 3, 3, 3, 3, 3, 5, 3, 3, 3, 3, 4, 3,
    3, 3, 3, 3, 1]"

lemma length_opcode_length [simp]: "length opcode_length = 230"
  by (simp add: opcode_length_def)

end
