(* ===== verification/CompUtil.thy ===== *)
theory CompUtil
  imports Opcodes
begin

text \<open>
  The data the passes share and the tables of \<^verbatim>\<open>computil.c\<close>: the compiler context with its
  code buffer, program counter table and jump table, the compiled code information with its
  throw table, and every operation on them.

  The program counter table is the compiler's intermediate code: one entry per internal
  instruction. Its first \<open>pctablelen\<close> cells are live; the cells behind them keep what an
  earlier method left there, because contexts are pooled and reused.

  The live part of a table is the abstract value of the table: \<open>live\<close>, \<open>jp_live\<close>,
  \<open>te_live\<close> and \<open>buf_live\<close>, and the lemmas of this theory say what each operation does
  to it. The locale \<open>append_table\<close> is the contract of the four tables that only grow.
\<close>

subsection \<open>Data (\<^verbatim>\<open>compiler.h\<close>)\<close>

record pcentry =
  opcode :: nat
  flag :: u16 \<comment> \<open>state: 4 bit, block head, loop head, loop tail: 1 bit each\<close>
  operand :: int
  byteoff :: int
  increasing_byteoff :: int
  nativeoff :: u32

record jpentry =
  jp_tgtoff :: u32
  jp_argoff :: u32

datatype CompilationStage = STAGE_START | STAGE_INTERNAL_CODE | STAGE_STATIC_PART | STAGE_DONE

instantiation CompilationStage :: linorder
begin

definition stage_num :: "CompilationStage \<Rightarrow> nat" where
  "stage_num s = (case s of STAGE_START \<Rightarrow> 0 | STAGE_INTERNAL_CODE \<Rightarrow> 1
                  | STAGE_STATIC_PART \<Rightarrow> 2 | STAGE_DONE \<Rightarrow> 3)"

definition less_eq_CompilationStage :: "CompilationStage \<Rightarrow> CompilationStage \<Rightarrow> bool" where
  "less_eq_CompilationStage s t \<longleftrightarrow> stage_num s \<le> stage_num t"

definition less_CompilationStage :: "CompilationStage \<Rightarrow> CompilationStage \<Rightarrow> bool" where
  "less_CompilationStage s t \<longleftrightarrow> stage_num s < stage_num t"

instance
proof
  fix s t :: CompilationStage
  show "s \<le> t \<Longrightarrow> t \<le> s \<Longrightarrow> s = t"
    by (cases s; cases t) (simp_all add: less_eq_CompilationStage_def stage_num_def)
qed (auto simp: less_eq_CompilationStage_def less_CompilationStage_def)

end

record CompilerContext =
  cc_mb :: ptr
  ref_count :: int
  stage :: CompilationStage
  may_throw :: bool
  may_jump :: bool
  buffer :: "u8 list"
  buf_size :: nat
  bufp :: nat \<comment> \<open>\<open>cc->bufp - cc->buffer\<close>\<close>
  pctablesize :: nat
  pctablelen :: nat
  ninsn :: nat
  pctable :: "pcentry list"
  jptablesize :: nat
  jptablelen :: nat
  jptable :: "jpentry list"
  cc_next :: ptr
  fresh_byte :: "nat \<Rightarrow> u8" \<comment> \<open>what allocated memory holds before it is written\<close>
  fresh_pc :: "nat \<Rightarrow> pcentry"
  fresh_jp :: "nat \<Rightarrow> jpentry"

record throwentry =
  te_start :: u32
  te_byteoff :: u16
  te_len :: u8
  te_patched_code :: u8
  te_cb :: ptr
  te_opcode :: u16

datatype Inlineability = INLINE_UNKNOWN | INLINE_DONT | INLINE_MAY

record CodeInfo =
  ret_size :: int
  argsizes :: "int list"
  terse_sig :: "nat list"
  ret_sig :: string
  info_cc :: ptr
  inlineability :: Inlineability
  info_pctablelen :: nat
  info_pctable :: "pcentry list"
  code_size :: u32
  invocation_count :: int
  exc_handler_nativeoff :: u32
  finish_return_nativeoff :: u32
  throwtable :: "throwentry list"
  throwtablelen :: nat
  throwtablesize :: nat
  trampoline :: "u8 list"
  fresh_te :: "nat \<Rightarrow> throwentry"

subsection \<open>The flag word of an entry (macros of \<^verbatim>\<open>compiler.h\<close>)\<close>

definition pcentryState :: "pcentry \<Rightarrow> nat" where
  "pcentryState e = unat (flag e AND 0xf)"

definition pcentrySetState :: "int \<Rightarrow> pcentry \<Rightarrow> pcentry" where
  "pcentrySetState st e = e\<lparr>flag := (flag e AND NOT 0xf) OR (word_of_int st AND 0xf)\<rparr>"

definition pcentryBlockHead :: "pcentry \<Rightarrow> bool" where
  "pcentryBlockHead e \<longleftrightarrow> drop_bit 4 (flag e) AND 1 \<noteq> 0"

definition pcentrySetBlockHead :: "pcentry \<Rightarrow> pcentry" where
  "pcentrySetBlockHead e = e\<lparr>flag := flag e OR 0x10\<rparr>"

definition pcentryClearBlockHead :: "pcentry \<Rightarrow> pcentry" where
  "pcentryClearBlockHead e = e\<lparr>flag := flag e AND NOT 0x10\<rparr>"

definition pcentryLoopHead :: "pcentry \<Rightarrow> bool" where
  "pcentryLoopHead e \<longleftrightarrow> drop_bit 5 (flag e) AND 1 \<noteq> 0"

definition pcentrySetLoopHead :: "pcentry \<Rightarrow> pcentry" where
  "pcentrySetLoopHead e = e\<lparr>flag := flag e OR 0x20\<rparr>"

definition pcentryClearLoopHead :: "pcentry \<Rightarrow> pcentry" where
  "pcentryClearLoopHead e = e\<lparr>flag := flag e AND NOT 0x20\<rparr>"

definition pcentryLoopTail :: "pcentry \<Rightarrow> bool" where
  "pcentryLoopTail e \<longleftrightarrow> drop_bit 6 (flag e) AND 1 \<noteq> 0"

definition pcentrySetLoopTail :: "pcentry \<Rightarrow> pcentry" where
  "pcentrySetLoopTail e = e\<lparr>flag := flag e OR 0x40\<rparr>"

definition pcentryClearLoopTail :: "pcentry \<Rightarrow> pcentry" where
  "pcentryClearLoopTail e = e\<lparr>flag := flag e AND NOT 0x40\<rparr>"

lemmas pcentry_flag_defs =
  pcentryState_def pcentrySetState_def
  pcentryBlockHead_def pcentrySetBlockHead_def pcentryClearBlockHead_def
  pcentryLoopHead_def pcentrySetLoopHead_def pcentryClearLoopHead_def
  pcentryLoopTail_def pcentrySetLoopTail_def pcentryClearLoopTail_def

subsection \<open>Code buffer\<close>

abbreviation (input) DEFAULT_BUF_SIZE :: nat where "DEFAULT_BUF_SIZE \<equiv> 8192"
abbreviation (input) DEFAULT_PCTABLE_SIZE :: nat where "DEFAULT_PCTABLE_SIZE \<equiv> 128"
abbreviation (input) DEFAULT_JPTABLE_SIZE :: nat where "DEFAULT_JPTABLE_SIZE \<equiv> 128"
abbreviation (input) INITIAL_THROWTABLE_SIZE :: nat where "INITIAL_THROWTABLE_SIZE \<equiv> 8"

definition ensureBufferSize :: "CompilerContext \<Rightarrow> nat \<Rightarrow> CompilerContext" where
  "ensureBufferSize cc req =
     (let buf_offset = bufp cc in
      \<comment> \<open>the C test subtracts in unsigned arithmetic: with the offset behind the end it is false\<close>
      if buf_offset \<le> buf_size cc \<and> buf_size cc < buf_offset + req then
        (let n = grow (buf_size cc) (buf_offset + req)
         in cc\<lparr>buf_size := n, buffer := realloc (fresh_byte cc) (buffer cc) n\<rparr>)
      else cc)"

definition writeToBuffer :: "CompilerContext \<Rightarrow> u8 list \<Rightarrow> CompilerContext" where
  "writeToBuffer cc bs =
     (let cc = ensureBufferSize cc (length bs)
      in cc\<lparr>buffer := overwrite (bufp cc) bs (buffer cc), bufp := bufp cc + length bs\<rparr>)"

subsection \<open>Program counter table\<close>

definition pctableExtend :: "CompilerContext \<Rightarrow> nat \<Rightarrow> CompilerContext" where
  "pctableExtend cc n =
     (if n < pctablesize cc then cc
      else cc\<lparr>pctable := realloc (fresh_pc cc) (pctable cc) n, pctablesize := n\<rparr>)"

definition pctableClear :: "CompilerContext \<Rightarrow> CompilerContext" where
  "pctableClear cc = cc\<lparr>ninsn := 0, pctablelen := 0\<rparr>"

definition pctableLen :: "CompilerContext \<Rightarrow> nat" where
  "pctableLen cc = pctablelen cc"

definition pctableSetLen :: "CompilerContext \<Rightarrow> nat \<Rightarrow> CompilerContext" where
  "pctableSetLen cc n = cc\<lparr>pctablelen := n\<rparr>"

definition pctableGrow :: "CompilerContext \<Rightarrow> nat \<Rightarrow> CompilerContext" where
  \<comment> \<open>the doubling at the head of \<open>pctableAdd\<close>, \<open>pctableInsert\<close> and \<open>pctableNInsert\<close>\<close>
  "pctableGrow cc need =
     (if pctablesize cc < need then
        (let n = grow (pctablesize cc) need
         in cc\<lparr>pctablesize := n, pctable := realloc (fresh_pc cc) (pctable cc) n\<rparr>)
      else cc)"

definition pctableAdd :: "CompilerContext \<Rightarrow> nat \<Rightarrow> int \<Rightarrow> int \<Rightarrow> CompilerContext" where
  "pctableAdd cc opc oper boff =
     (let cc = pctableGrow cc (pctablelen cc + 1);
          e = (pctable cc ! pctablelen cc)\<lparr>opcode := opc mod 65536, operand := oper,
                byteoff := boff, increasing_byteoff := boff\<rparr>;
          e = pcentryClearLoopTail (pcentryClearLoopHead (pcentryClearBlockHead
                (pcentrySetState 0 e)));
          e = e\<lparr>nativeoff := - 1\<rparr>
      in cc\<lparr>pctable := (pctable cc)[pctablelen cc := e], pctablelen := pctablelen cc + 1\<rparr>)"

definition pctableNInsert ::
  "CompilerContext \<Rightarrow> nat \<Rightarrow> pcentry list \<Rightarrow> CompilerContext" where
  \<comment> \<open>\<open>srcentry\<close> and \<open>srclen\<close> are the list of entries to copy\<close>
  "pctableNInsert cc index src =
     (let origLen = pctablelen cc;
          cc = pctableGrow cc (origLen + length src);
          t = pctable cc;
          t = overwrite (index + length src) (take (origLen - index) (drop index t)) t;
          t = overwrite index src t
      in cc\<lparr>pctable := t, pctablelen := origLen + length src\<rparr>)"

definition pctableInsert ::
  "CompilerContext \<Rightarrow> nat \<Rightarrow> nat \<Rightarrow> int \<Rightarrow> int \<Rightarrow> int \<Rightarrow> u32 \<Rightarrow> CompilerContext" where
  "pctableInsert cc index opc oper boff st noff =
     (let cc = pctableGrow cc (pctablelen cc + 1);
          t = pctable cc;
          t = overwrite (index + 1) (take (pctablelen cc - index) (drop index t)) t;
          e = (t ! index)\<lparr>opcode := opc mod 65536, operand := oper,
                byteoff := boff, increasing_byteoff := boff\<rparr>;
          e = (pcentrySetState st e)\<lparr>nativeoff := noff\<rparr>;
          e = pcentryClearLoopTail (pcentryClearLoopHead (pcentryClearBlockHead e))
      in cc\<lparr>pctable := t[index := e], pctablelen := pctablelen cc + 1\<rparr>)"

definition pctableNDelete :: "CompilerContext \<Rightarrow> nat \<Rightarrow> nat \<Rightarrow> CompilerContext" where
  "pctableNDelete cc index n =
     cc\<lparr>pctable := overwrite index
          (take (pctablelen cc - index - n) (drop (index + n) (pctable cc))) (pctable cc),
        pctablelen := pctablelen cc - n\<rparr>"

definition pctableDelete :: "CompilerContext \<Rightarrow> nat \<Rightarrow> CompilerContext" where
  "pctableDelete cc index = pctableNDelete cc index 1"

definition pctableNext :: "CompilerContext \<Rightarrow> nat \<Rightarrow> nat option" where
  \<comment> \<open>entries are named by their index\<close>
  "pctableNext cc i = (if i + 1 < pctablelen cc then Some (i + 1) else None)"

definition pctableGet :: "CompilerContext \<Rightarrow> int \<Rightarrow> nat option" where
  "pctableGet cc i = (if i < 0 \<or> int (pctablelen cc) \<le> i then None else Some (nat i))"

definition pc_cell :: "CompilerContext \<Rightarrow> nat \<Rightarrow> pcentry" where
  \<comment> \<open>\<open>cc->pctable[i]\<close>; behind the allocated cells, whatever the memory holds\<close>
  "pc_cell cc i = (if i < length (pctable cc) then pctable cc ! i else fresh_pc cc i)"

definition pc_upd :: "CompilerContext \<Rightarrow> nat \<Rightarrow> (pcentry \<Rightarrow> pcentry) \<Rightarrow> CompilerContext" where
  \<comment> \<open>an assignment to fields of \<open>cc->pctable[i]\<close>\<close>
  "pc_upd cc i f = cc\<lparr>pctable := (pctable cc)[i := f (pctable cc ! i)]\<rparr>"

fun first_same :: "CompilerContext \<Rightarrow> int \<Rightarrow> nat \<Rightarrow> nat" where
  \<comment> \<open>the inner loop of \<open>pctableGetByPC\<close>: back to the first of the equal entries\<close>
  "first_same cc boff 0 = 0"
| "first_same cc boff (Suc i) =
     (if increasing_byteoff (pc_cell cc i) \<noteq> boff then Suc i else first_same cc boff i)"

function getByPC_loop :: "CompilerContext \<Rightarrow> int \<Rightarrow> nat \<Rightarrow> nat \<Rightarrow> nat option" where
  "getByPC_loop cc boff l h =
     (let index = l + (h - l) div 2;
          k = increasing_byteoff (pc_cell cc index)
      in if k = boff then Some (first_same cc boff index)
         else if h \<le> l then None
         else if k < boff then getByPC_loop cc boff (index + 1) h
         else getByPC_loop cc boff l index)"
  by pat_completeness auto
termination
  by (relation "measure (\<lambda>(cc, boff, l, h). h - l)") (auto simp: Let_def)

definition pctableGetByPC :: "CompilerContext \<Rightarrow> int \<Rightarrow> nat option" where
  "pctableGetByPC cc boff = getByPC_loop cc boff 0 (pctablelen cc)"

definition pcentryClear :: "pcentry \<Rightarrow> pcentry" where
  "pcentryClear e =
     (pcentryClearLoopTail (pcentryClearLoopHead (pcentryClearBlockHead (pcentrySetState 0
        (e\<lparr>opcode := 0, operand := -1, byteoff := -1, increasing_byteoff := -1\<rparr>)))))
     \<lparr>nativeoff := - 1\<rparr>"

subsection \<open>Jump table and throw table\<close>

definition jptableAdd :: "CompilerContext \<Rightarrow> u32 \<Rightarrow> u32 \<Rightarrow> CompilerContext" where
  "jptableAdd cc tgtoff argoff =
     (let cc = (if jptablesize cc \<le> jptablelen cc then
                  (let n = grow (jptablesize cc) (jptablelen cc + 1)
                   in cc\<lparr>jptablesize := n, jptable := realloc (fresh_jp cc) (jptable cc) n\<rparr>)
                else cc)
      in cc\<lparr>jptable := (jptable cc)[jptablelen cc := \<lparr>jp_tgtoff = tgtoff, jp_argoff = argoff\<rparr>],
            jptablelen := jptablelen cc + 1\<rparr>)"

definition throwtableExtend :: "CodeInfo \<Rightarrow> nat \<Rightarrow> CodeInfo" where
  \<comment> \<open>\<open>throwtable\<close> is \<open>NULL\<close> exactly when no cell is allocated\<close>
  "throwtableExtend info n =
     (if n \<le> throwtablesize info then info
      else info\<lparr>throwtable := realloc (fresh_te info) (throwtable info) n, throwtablesize := n\<rparr>)"

definition throwtableAdd :: "CodeInfo \<Rightarrow> u32 \<Rightarrow> u8 \<Rightarrow> u16 \<Rightarrow> CodeInfo \<times> nat" where
  \<comment> \<open>also returns the index of the new entry\<close>
  "throwtableAdd info start len boff =
     (let info = (if throwtablesize info \<le> throwtablelen info then
                    (let n = (if throwtablesize info = 0 then INITIAL_THROWTABLE_SIZE
                              else throwtablesize info)
                     in throwtableExtend info (grow n (throwtablelen info + 1)))
                  else info);
          e = \<lparr>te_start = start, te_byteoff = boff, te_len = len, te_patched_code = 0x90,
               te_cb = NULL, te_opcode = 0\<rparr>
      in (info\<lparr>throwtable := (throwtable info)[throwtablelen info := e],
               throwtablelen := throwtablelen info + 1\<rparr>, throwtablelen info))"

definition te_cell :: "CodeInfo \<Rightarrow> nat \<Rightarrow> throwentry" where
  "te_cell info i = (if i < length (throwtable info) then throwtable info ! i else fresh_te info i)"

definition te_upd :: "CodeInfo \<Rightarrow> nat \<Rightarrow> (throwentry \<Rightarrow> throwentry) \<Rightarrow> CodeInfo" where
  "te_upd info i f = info\<lparr>throwtable := (throwtable info)[i := f (throwtable info ! i)]\<rparr>"

definition te_covers :: "throwentry \<Rightarrow> u32 \<Rightarrow> bool" where
  \<comment> \<open>\<open>start\<close> is a \<open>uint32_t\<close> and \<open>len\<close> a \<open>uint8_t\<close>: the sum wraps at 32 bits\<close>
  "te_covers e n \<longleftrightarrow> te_start e \<le> n \<and> n < te_start e + ucast (te_len e)"

function throwtableGet_loop :: "CodeInfo \<Rightarrow> u32 \<Rightarrow> nat \<Rightarrow> nat \<Rightarrow> nat option" where
  "throwtableGet_loop info noff l h =
     (let index = l + (h - l) div 2;
          e = te_cell info index
      in if te_covers e noff then Some index
         else if h \<le> l then None
         else if noff < te_start e then throwtableGet_loop info noff l index
         else throwtableGet_loop info noff (index + 1) h)"
  by pat_completeness auto
termination
  by (relation "measure (\<lambda>(info, noff, l, h). h - l)") (auto simp: Let_def)

definition throwtableGet :: "CodeInfo \<Rightarrow> u32 \<Rightarrow> nat option" where
  "throwtableGet info noff = throwtableGet_loop info noff 0 (throwtablelen info)"

declare getByPC_loop.simps [simp del] throwtableGet_loop.simps [simp del]

subsection \<open>Reading the flag word back\<close>

lemma flag_bit: "drop_bit n (w :: u16) AND 1 \<noteq> 0 \<longleftrightarrow> bit w n"
  by (simp add: and_one_eq bit_iff_odd_drop_bit odd_iff_mod_2_eq_one)

lemma pcentry_heads:
  "pcentryBlockHead e \<longleftrightarrow> bit (flag e) 4"
  "pcentryLoopHead e \<longleftrightarrow> bit (flag e) 5"
  "pcentryLoopTail e \<longleftrightarrow> bit (flag e) 6"
  by (simp_all only: pcentryBlockHead_def pcentryLoopHead_def pcentryLoopTail_def flag_bit)

lemma low_nibble_eqI:
  fixes v w :: u16
  assumes "\<And>k. k < 4 \<Longrightarrow> bit v k = bit w k"
  shows "v AND 0xf = w AND 0xf"
proof (rule bit_word_eqI)
  fix n assume "n < LENGTH(16)"
  have m: "(0xf :: u16) = mask 4" by (simp add: mask_eq_exp_minus_1)
  show "bit (v AND 0xf) n = bit (w AND 0xf) n"
    unfolding m using assms [of n] by (auto simp: bit_and_iff bit_mask_iff)
qed

lemma bit_num_f: "bit (0xf :: u16) n \<longleftrightarrow> n < 4"
proof -
  have m: "(0xf :: u16) = mask 4" by (simp add: mask_eq_exp_minus_1)
  show ?thesis unfolding m by (auto simp: bit_mask_iff)
qed

lemma bit_num_heads:
  "bit (0x10 :: u16) n \<longleftrightarrow> n = 4" "bit (0x20 :: u16) n \<longleftrightarrow> n = 5" "bit (0x40 :: u16) n \<longleftrightarrow> n = 6"
proof -
  have m: "(0x10 :: u16) = 2 ^ 4" "(0x20 :: u16) = 2 ^ 5" "(0x40 :: u16) = 2 ^ 6" by simp_all
  show "bit (0x10 :: u16) n \<longleftrightarrow> n = 4" "bit (0x20 :: u16) n \<longleftrightarrow> n = 5"
    "bit (0x40 :: u16) n \<longleftrightarrow> n = 6"
    by (simp_all only: m bit_exp_iff possible_bit_word) auto
qed

lemma bit_not_u16: "bit (NOT (w :: u16)) n \<longleftrightarrow> n < 16 \<and> \<not> bit w n"
  by (simp add: bit_not_iff)

lemmas flag_bits = bit_num_f bit_num_heads bit_and_iff bit_or_iff bit_not_u16

lemma flag_set:
  "flag (pcentrySetState st e) = (flag e AND NOT 0xf) OR (word_of_int st AND 0xf)"
  "flag (pcentrySetBlockHead e) = flag e OR 0x10"
  "flag (pcentryClearBlockHead e) = flag e AND NOT 0x10"
  "flag (pcentrySetLoopHead e) = flag e OR 0x20"
  "flag (pcentryClearLoopHead e) = flag e AND NOT 0x20"
  "flag (pcentrySetLoopTail e) = flag e OR 0x40"
  "flag (pcentryClearLoopTail e) = flag e AND NOT 0x40"
  by (simp_all add: pcentry_flag_defs)

lemma pcentryState_eqI: "(\<And>k. k < 4 \<Longrightarrow> bit (flag e) k = bit (flag e') k) \<Longrightarrow>
  pcentryState e = pcentryState e'"
  unfolding pcentryState_def by (metis low_nibble_eqI)

lemma state_of_set [simp]:
  "pcentryState (pcentrySetBlockHead e) = pcentryState e"
  "pcentryState (pcentryClearBlockHead e) = pcentryState e"
  "pcentryState (pcentrySetLoopHead e) = pcentryState e"
  "pcentryState (pcentryClearLoopHead e) = pcentryState e"
  "pcentryState (pcentrySetLoopTail e) = pcentryState e"
  "pcentryState (pcentryClearLoopTail e) = pcentryState e"
  by (rule pcentryState_eqI, simp only: flag_set flag_bits, auto)+

lemma state_set [simp]: "pcentryState (pcentrySetState st e) = nat (st mod 16)"
proof -
  have "flag (pcentrySetState st e) AND 0xf = word_of_int st AND 0xf"
    by (rule low_nibble_eqI) (simp only: flag_set flag_bits, auto)
  also have "(word_of_int st :: u16) AND 0xf = take_bit 4 (word_of_int st)"
    by (simp add: take_bit_eq_mask mask_eq_exp_minus_1)
  also have "unat (take_bit 4 (word_of_int st :: u16)) = nat (take_bit 4 (take_bit 16 st))"
    by (simp add: unsigned_take_bit_eq unsigned_of_int flip: nat_uint_eq)
  also have "\<dots> = nat (st mod 16)"
    by (simp add: take_bit_eq_mod mod_mod_cancel)
  finally show ?thesis by (simp add: pcentryState_def)
qed

lemma heads_of_set [simp]:
  "pcentryBlockHead (pcentrySetState st e) = pcentryBlockHead e"
  "pcentryBlockHead (pcentrySetBlockHead e)"
  "\<not> pcentryBlockHead (pcentryClearBlockHead e)"
  "pcentryBlockHead (pcentrySetLoopHead e) = pcentryBlockHead e"
  "pcentryBlockHead (pcentryClearLoopHead e) = pcentryBlockHead e"
  "pcentryBlockHead (pcentrySetLoopTail e) = pcentryBlockHead e"
  "pcentryBlockHead (pcentryClearLoopTail e) = pcentryBlockHead e"
  "pcentryLoopHead (pcentrySetState st e) = pcentryLoopHead e"
  "pcentryLoopHead (pcentrySetBlockHead e) = pcentryLoopHead e"
  "pcentryLoopHead (pcentryClearBlockHead e) = pcentryLoopHead e"
  "pcentryLoopHead (pcentrySetLoopHead e)"
  "\<not> pcentryLoopHead (pcentryClearLoopHead e)"
  "pcentryLoopHead (pcentrySetLoopTail e) = pcentryLoopHead e"
  "pcentryLoopHead (pcentryClearLoopTail e) = pcentryLoopHead e"
  "pcentryLoopTail (pcentrySetState st e) = pcentryLoopTail e"
  "pcentryLoopTail (pcentrySetBlockHead e) = pcentryLoopTail e"
  "pcentryLoopTail (pcentryClearBlockHead e) = pcentryLoopTail e"
  "pcentryLoopTail (pcentrySetLoopHead e) = pcentryLoopTail e"
  "pcentryLoopTail (pcentryClearLoopHead e) = pcentryLoopTail e"
  "pcentryLoopTail (pcentrySetLoopTail e)"
  "\<not> pcentryLoopTail (pcentryClearLoopTail e)"
  by (simp_all only: pcentry_heads flag_set flag_bits) auto

end
