(* ===== verification/Tables.thy ===== *)
theory Tables
  imports CompUtil
begin

text \<open>
  What the operations of \<^verbatim>\<open>computil.c\<close> do to the live parts of the tables: the invariant of
  a compiler context and of a throw table, the refinement of every operation to a list
  operation, and the correctness of the two binary searches.
\<close>

subsection \<open>The invariant and the abstract values\<close>

definition cc_ok :: "CompilerContext \<Rightarrow> bool" where
  "cc_ok cc \<longleftrightarrow>
     length (pctable cc) = pctablesize cc \<and> 0 < pctablesize cc \<and> pctablelen cc \<le> pctablesize cc \<and>
     length (jptable cc) = jptablesize cc \<and> 0 < jptablesize cc \<and> jptablelen cc \<le> jptablesize cc \<and>
     length (buffer cc) = buf_size cc \<and> 0 < buf_size cc \<and> bufp cc \<le> buf_size cc"

definition live :: "CompilerContext \<Rightarrow> pcentry list" where
  "live cc = take (pctablelen cc) (pctable cc)"

definition jp_live :: "CompilerContext \<Rightarrow> jpentry list" where
  "jp_live cc = take (jptablelen cc) (jptable cc)"

definition buf_live :: "CompilerContext \<Rightarrow> u8 list" where
  "buf_live cc = take (bufp cc) (buffer cc)"

definition te_ok :: "CodeInfo \<Rightarrow> bool" where
  "te_ok info \<longleftrightarrow> length (throwtable info) = throwtablesize info \<and>
     throwtablelen info \<le> throwtablesize info"

definition te_live :: "CodeInfo \<Rightarrow> throwentry list" where
  "te_live info = take (throwtablelen info) (throwtable info)"

text \<open>
  The bits 7 to 15 of a flag word are never set by the compiler; in a new entry they are what
  the cell held before. A view of an entry leaves them out.
\<close>

type_synonym pcview = "nat \<times> int \<times> int \<times> int \<times> nat \<times> bool \<times> bool \<times> bool \<times> u32"

definition pcview :: "pcentry \<Rightarrow> pcview" where
  "pcview e = (opcode e, operand e, byteoff e, increasing_byteoff e, pcentryState e,
     pcentryBlockHead e, pcentryLoopHead e, pcentryLoopTail e, nativeoff e)"

abbreviation views :: "CompilerContext \<Rightarrow> pcview list" where
  "views cc \<equiv> map pcview (live cc)"

definition new_view :: "nat \<Rightarrow> int \<Rightarrow> int \<Rightarrow> int \<Rightarrow> u32 \<Rightarrow> pcview" where
  "new_view opc oper boff st noff =
     (opc mod 65536, oper, boff, boff, nat (st mod 16), False, False, False, noff)"

lemma length_live [simp]: "cc_ok cc \<Longrightarrow> length (live cc) = pctablelen cc"
  by (simp add: live_def cc_ok_def)

lemma pc_cell_live: "cc_ok cc \<Longrightarrow> i < pctablelen cc \<Longrightarrow> pc_cell cc i = live cc ! i"
  by (simp add: pc_cell_def live_def cc_ok_def)

lemma pcentry_update_flags [simp]:
  "opcode (pcentrySetState st e) = opcode e" "operand (pcentrySetState st e) = operand e"
  "byteoff (pcentrySetState st e) = byteoff e"
  "increasing_byteoff (pcentrySetState st e) = increasing_byteoff e"
  "nativeoff (pcentrySetState st e) = nativeoff e"
  "opcode (pcentryClearBlockHead e) = opcode e" "operand (pcentryClearBlockHead e) = operand e"
  "byteoff (pcentryClearBlockHead e) = byteoff e"
  "increasing_byteoff (pcentryClearBlockHead e) = increasing_byteoff e"
  "nativeoff (pcentryClearBlockHead e) = nativeoff e"
  "opcode (pcentryClearLoopHead e) = opcode e" "operand (pcentryClearLoopHead e) = operand e"
  "byteoff (pcentryClearLoopHead e) = byteoff e"
  "increasing_byteoff (pcentryClearLoopHead e) = increasing_byteoff e"
  "nativeoff (pcentryClearLoopHead e) = nativeoff e"
  "opcode (pcentryClearLoopTail e) = opcode e" "operand (pcentryClearLoopTail e) = operand e"
  "byteoff (pcentryClearLoopTail e) = byteoff e"
  "increasing_byteoff (pcentryClearLoopTail e) = increasing_byteoff e"
  "nativeoff (pcentryClearLoopTail e) = nativeoff e"
  "opcode (pcentrySetBlockHead e) = opcode e" "operand (pcentrySetBlockHead e) = operand e"
  "byteoff (pcentrySetBlockHead e) = byteoff e"
  "increasing_byteoff (pcentrySetBlockHead e) = increasing_byteoff e"
  "nativeoff (pcentrySetBlockHead e) = nativeoff e"
  "opcode (pcentrySetLoopHead e) = opcode e" "operand (pcentrySetLoopHead e) = operand e"
  "byteoff (pcentrySetLoopHead e) = byteoff e"
  "increasing_byteoff (pcentrySetLoopHead e) = increasing_byteoff e"
  "nativeoff (pcentrySetLoopHead e) = nativeoff e"
  "opcode (pcentrySetLoopTail e) = opcode e" "operand (pcentrySetLoopTail e) = operand e"
  "byteoff (pcentrySetLoopTail e) = byteoff e"
  "increasing_byteoff (pcentrySetLoopTail e) = increasing_byteoff e"
  "nativeoff (pcentrySetLoopTail e) = nativeoff e"
  by (simp_all add: pcentry_flag_defs)

text \<open>The flag readers look at the flag word only.\<close>

lemma flag_readers_upd [simp]:
  "pcentryState (e\<lparr>nativeoff := n\<rparr>) = pcentryState e"
  "pcentryBlockHead (e\<lparr>nativeoff := n\<rparr>) = pcentryBlockHead e"
  "pcentryLoopHead (e\<lparr>nativeoff := n\<rparr>) = pcentryLoopHead e"
  "pcentryLoopTail (e\<lparr>nativeoff := n\<rparr>) = pcentryLoopTail e"
  "pcentryState (e\<lparr>opcode := k\<rparr>) = pcentryState e"
  "pcentryBlockHead (e\<lparr>opcode := k\<rparr>) = pcentryBlockHead e"
  "pcentryLoopHead (e\<lparr>opcode := k\<rparr>) = pcentryLoopHead e"
  "pcentryLoopTail (e\<lparr>opcode := k\<rparr>) = pcentryLoopTail e"
  "pcentryState (e\<lparr>operand := d\<rparr>) = pcentryState e"
  "pcentryBlockHead (e\<lparr>operand := d\<rparr>) = pcentryBlockHead e"
  "pcentryLoopHead (e\<lparr>operand := d\<rparr>) = pcentryLoopHead e"
  "pcentryLoopTail (e\<lparr>operand := d\<rparr>) = pcentryLoopTail e"
  "pcentryState (e\<lparr>increasing_byteoff := d\<rparr>) = pcentryState e"
  "pcentryBlockHead (e\<lparr>increasing_byteoff := d\<rparr>) = pcentryBlockHead e"
  "pcentryLoopHead (e\<lparr>increasing_byteoff := d\<rparr>) = pcentryLoopHead e"
  "pcentryLoopTail (e\<lparr>increasing_byteoff := d\<rparr>) = pcentryLoopTail e"
  "pcentryState (e\<lparr>byteoff := d\<rparr>) = pcentryState e"
  "pcentryBlockHead (e\<lparr>byteoff := d\<rparr>) = pcentryBlockHead e"
  "pcentryLoopHead (e\<lparr>byteoff := d\<rparr>) = pcentryLoopHead e"
  "pcentryLoopTail (e\<lparr>byteoff := d\<rparr>) = pcentryLoopTail e"
  by (simp_all add: pcentry_flag_defs)

subsection \<open>The program counter table\<close>

lemma pctableGrow_ok:
  assumes "cc_ok cc"
  shows "cc_ok (pctableGrow cc need)" and "need \<le> pctablesize (pctableGrow cc need)"
    and "live (pctableGrow cc need) = live cc" and "pctablelen (pctableGrow cc need) = pctablelen cc"
proof -
  have g: "pctablesize cc \<le> grow (pctablesize cc) need" "need \<le> grow (pctablesize cc) need"
    using assms by (simp_all add: grow_mono grow_ge cc_ok_def)
  show "cc_ok (pctableGrow cc need)"
    using assms g by (auto simp: pctableGrow_def cc_ok_def Let_def)
  show "need \<le> pctablesize (pctableGrow cc need)"
    using g by (auto simp: pctableGrow_def Let_def)
  show "live (pctableGrow cc need) = live cc" "pctablelen (pctableGrow cc need) = pctablelen cc"
    using assms g by (auto simp: pctableGrow_def Let_def live_def cc_ok_def)
qed

lemma pctableAdd_ok [wf_intros]: "cc_ok cc \<Longrightarrow> cc_ok (pctableAdd cc opc oper boff)"
  using pctableGrow_ok(1,2) [of cc "pctablelen cc + 1"] pctableGrow_ok(4) [of cc]
  by (simp add: pctableAdd_def Let_def cc_ok_def)

lemma pctableAdd_views [table_simps]:
  assumes "cc_ok cc"
  shows "views (pctableAdd cc opc oper boff) = views cc @ [new_view opc oper boff 0 (- 1)]"
proof -
  let ?g = "pctableGrow cc (pctablelen cc + 1)"
  note g = pctableGrow_ok [OF assms, of "pctablelen cc + 1"]
  from g have "pctablelen cc < length (pctable ?g)"
    by (simp add: cc_ok_def)
  with g show ?thesis
    by (simp add: pctableAdd_def Let_def live_def take_update_last pcview_def new_view_def)
qed

lemma insert_cells:
  \<comment> \<open>\<open>memmove\<close> the cells up, then \<open>memcpy\<close> into the gap\<close>
  assumes "i \<le> n" "n + length src \<le> length t"
  defines "t1 \<equiv> overwrite (i + length src) (take (n - i) (drop i t)) t"
  defines "t2 \<equiv> overwrite i src t1"
  shows "take (n + length src) t2 = take i (take n t) @ src @ drop i (take n t)"
    and "length t2 = length t"
proof -
  from assms(1,2) have k: "length (take (n - i) (drop i t)) = n - i"
    by simp
  have len1: "length t1 = length t"
    unfolding t1_def using assms(1,2) k by (subst length_overwrite) simp_all
  then show "length t2 = length t"
    unfolding t2_def using assms(1,2) by (subst length_overwrite) simp_all
  have a: "take i t1 = take i t"
    unfolding t1_def using assms(1,2) by simp
  have b: "drop (i + length src) t1 = drop i (take n t) @ drop (n + length src) t"
    unfolding t1_def using assms(1,2) by (simp add: overwrite_def drop_take add.commute)
  have "t2 = (take i t @ src @ drop i (take n t)) @ drop (n + length src) t"
    unfolding t2_def overwrite_def using a b by simp
  moreover have "n + length src = length (take i t @ src @ drop i (take n t))"
    using assms(1,2) by simp
  ultimately have "take (n + length src) t2 = take i t @ src @ drop i (take n t)"
    by (metis append_eq_conv_conj)
  then show "take (n + length src) t2 = take i (take n t) @ src @ drop i (take n t)"
    using assms(1) by (simp add: min_absorb1)
qed

lemma pctableNInsert_live [table_simps]:
  assumes "cc_ok cc" "index \<le> pctablelen cc"
  shows "live (pctableNInsert cc index src) = take index (live cc) @ src @ drop index (live cc)"
    and "cc_ok (pctableNInsert cc index src)"
proof -
  let ?g = "pctableGrow cc (pctablelen cc + length src)"
  note g = pctableGrow_ok [OF assms(1), of "pctablelen cc + length src"]
  have len: "pctablelen cc + length src \<le> length (pctable ?g)"
    using g by (simp add: cc_ok_def)
  have t: "take (pctablelen cc) (pctable ?g) = live cc"
    using g(3,4) by (simp add: live_def)
  note ins = insert_cells [OF assms(2) len]
  have "live (pctableNInsert cc index src) =
      take index (take (pctablelen cc) (pctable ?g)) @ src @ drop index (take (pctablelen cc) (pctable ?g))"
    unfolding ins(1) [symmetric] by (simp add: pctableNInsert_def Let_def live_def)
  then show "live (pctableNInsert cc index src) = take index (live cc) @ src @ drop index (live cc)"
    by (simp only: t)
  show "cc_ok (pctableNInsert cc index src)"
    using g len ins(2) by (simp add: pctableNInsert_def Let_def cc_ok_def)
qed

lemma insert_cell:
  \<comment> \<open>\<open>memmove\<close> one cell up, then write the gap\<close>
  assumes "i \<le> n" "n < length t"
  defines "t' \<equiv> overwrite (i + 1) (take (n - i) (drop i t)) t"
  shows "take (n + 1) (t'[i := e]) = take i (take n t) @ e # drop i (take n t)"
    and "length t' = length t"
proof -
  from assms(1,2) have k: "length (take (n - i) (drop i t)) = n - i"
    by simp
  show len: "length t' = length t"
    unfolding t'_def using assms(1,2) k by (subst length_overwrite) simp_all
  have a: "take i t' = take i t"
    unfolding t'_def using assms(1,2) by simp
  have b: "drop (i + 1) t' = drop i (take n t) @ drop (n + 1) t"
    unfolding t'_def using assms(1,2) by (simp add: overwrite_def drop_take)
  have "t'[i := e] = take i t @ e # drop i (take n t) @ drop (n + 1) t"
    using assms(1,2) len a b by (simp add: upd_conv_take_nth_drop)
  moreover have "n + 1 = length (take i t @ e # drop i (take n t))"
    using assms(1,2) by simp
  ultimately have "take (n + 1) (t'[i := e]) = take i t @ e # drop i (take n t)"
    by (metis append.assoc append_Cons append_eq_conv_conj)
  then show "take (n + 1) (t'[i := e]) = take i (take n t) @ e # drop i (take n t)"
    using assms(1) by (simp add: min_absorb1)
qed

lemma pctableInsert_views [table_simps]:
  assumes "cc_ok cc" "index \<le> pctablelen cc"
  shows "views (pctableInsert cc index opc oper boff st noff) =
      take index (views cc) @ new_view opc oper boff st noff # drop index (views cc)"
    and "cc_ok (pctableInsert cc index opc oper boff st noff)"
proof -
  let ?g = "pctableGrow cc (Suc (pctablelen cc))"
  note g = pctableGrow_ok [OF assms(1), of "Suc (pctablelen cc)"]
  have len: "pctablelen cc < length (pctable ?g)"
    using g by (simp add: cc_ok_def)
  have t: "take (pctablelen cc) (pctable ?g) = live cc"
    using g(3,4) by (simp add: live_def)
  note ins = insert_cell [OF assms(2) len, simplified Suc_eq_plus1 [symmetric]]
  have t': "take (min index (pctablelen cc)) (pctable ?g) = take index (live cc)"
    by (simp add: t [symmetric] min.commute)
  show "views (pctableInsert cc index opc oper boff st noff) =
      take index (views cc) @ new_view opc oper boff st noff # drop index (views cc)"
    using ins(1)
    by (simp add: pctableInsert_def Let_def live_def g(4) t [unfolded live_def] t' [unfolded live_def]
        take_map drop_map pcview_def new_view_def)
  show "cc_ok (pctableInsert cc index opc oper boff st noff)"
    using g len ins(2) by (simp add: pctableInsert_def Let_def cc_ok_def)
qed

lemma pctableNDelete_live [table_simps]:
  assumes "cc_ok cc" "index + n \<le> pctablelen cc"
  shows "live (pctableNDelete cc index n) = take index (live cc) @ drop (index + n) (live cc)"
    and "cc_ok (pctableNDelete cc index n)"
proof -
  from assms(2) obtain k where k: "pctablelen cc = index + n + k"
    by (auto simp: le_iff_add)
  with assms(1) have len: "index + n + k \<le> length (pctable cc)"
    by (simp add: cc_ok_def)
  with k show "live (pctableNDelete cc index n) = take index (live cc) @ drop (index + n) (live cc)"
    by (simp add: pctableNDelete_def live_def overwrite_def min_absorb1 drop_take)
  from len have "length (overwrite index (take k (drop (index + n) (pctable cc))) (pctable cc)) =
      length (pctable cc)"
    by (subst length_overwrite) simp_all
  with assms(1) k show "cc_ok (pctableNDelete cc index n)"
    by (simp add: pctableNDelete_def cc_ok_def)
qed

lemma pc_upd_live [table_simps]:
  "cc_ok cc \<Longrightarrow> i < pctablelen cc \<Longrightarrow> live (pc_upd cc i f) = (live cc)[i := f (live cc ! i)]"
  "cc_ok (pc_upd cc i f) = cc_ok cc"
  "pctablelen (pc_upd cc i f) = pctablelen cc"
  by (simp_all add: pc_upd_def live_def cc_ok_def take_update_swap)

lemma pctableNext_live: "cc_ok cc \<Longrightarrow> pctableNext cc i = (if i + 1 < length (live cc) then Some (i + 1) else None)"
  by (simp add: pctableNext_def)

subsection \<open>The code buffer\<close>

lemma ensureBufferSize_ok:
  assumes "cc_ok cc"
  shows "cc_ok (ensureBufferSize cc req)" and "bufp cc + req \<le> buf_size (ensureBufferSize cc req)"
    and "buf_live (ensureBufferSize cc req) = buf_live cc" and "bufp (ensureBufferSize cc req) = bufp cc"
    and "live (ensureBufferSize cc req) = live cc"
    and "jp_live (ensureBufferSize cc req) = jp_live cc"
    and "take (bufp cc) (buffer (ensureBufferSize cc req)) = take (bufp cc) (buffer cc)"
proof -
  let ?n = "grow (buf_size cc) (bufp cc + req)"
  have g: "buf_size cc \<le> ?n" "bufp cc + req \<le> ?n"
    using assms by (simp_all add: grow_mono grow_ge cc_ok_def)
  show "cc_ok (ensureBufferSize cc req)"
    using assms g by (auto simp: ensureBufferSize_def cc_ok_def Let_def)
  show "bufp cc + req \<le> buf_size (ensureBufferSize cc req)"
    using assms g by (auto simp: ensureBufferSize_def Let_def cc_ok_def)
  show "buf_live (ensureBufferSize cc req) = buf_live cc" "bufp (ensureBufferSize cc req) = bufp cc"
    "live (ensureBufferSize cc req) = live cc" "jp_live (ensureBufferSize cc req) = jp_live cc"
    "take (bufp cc) (buffer (ensureBufferSize cc req)) = take (bufp cc) (buffer cc)"
    using assms g by (auto simp: ensureBufferSize_def Let_def buf_live_def live_def jp_live_def cc_ok_def)
qed

lemma writeToBuffer_ok [wf_intros]: "cc_ok cc \<Longrightarrow> cc_ok (writeToBuffer cc bs)"
  using ensureBufferSize_ok(1,2,4) [of cc "length bs"]
  by (simp add: writeToBuffer_def Let_def cc_ok_def)

lemma writeToBuffer_live [table_simps]:
  assumes "cc_ok cc"
  shows "buf_live (writeToBuffer cc bs) = buf_live cc @ bs"
proof -
  note e = ensureBufferSize_ok [OF assms, of "length bs"]
  from e have "bufp cc + length bs \<le> length (buffer (ensureBufferSize cc (length bs)))"
    by (simp add: cc_ok_def)
  with e show ?thesis
    by (simp add: writeToBuffer_def Let_def buf_live_def)
qed

lemma writeToBuffer_frame [frame_simps]:
  "bufp (writeToBuffer cc bs) = bufp cc + length bs"
  "live (writeToBuffer cc bs) = live cc" "jp_live (writeToBuffer cc bs) = jp_live cc"
  "pctablelen (writeToBuffer cc bs) = pctablelen cc" "pctable (writeToBuffer cc bs) = pctable cc"
  "jptablelen (writeToBuffer cc bs) = jptablelen cc"
  by (simp_all add: writeToBuffer_def ensureBufferSize_def Let_def live_def jp_live_def)

lemma length_buf_live [simp]: "cc_ok cc \<Longrightarrow> length (buf_live cc) = bufp cc"
  by (simp add: buf_live_def cc_ok_def)

subsection \<open>The jump table and the throw table\<close>

lemma jptableAdd_ok [wf_intros]: "cc_ok cc \<Longrightarrow> cc_ok (jptableAdd cc t a)"
  using grow_mono [of "jptablesize cc" "jptablelen cc + 1"] grow_ge [of "jptablesize cc" "jptablelen cc + 1"]
  by (auto simp: jptableAdd_def Let_def cc_ok_def)

lemma jptableAdd_live [table_simps]:
  "cc_ok cc \<Longrightarrow> jp_live (jptableAdd cc t a) = jp_live cc @ [\<lparr>jp_tgtoff = t, jp_argoff = a\<rparr>]"
  using grow_mono [of "jptablesize cc" "jptablelen cc + 1"] grow_ge [of "jptablesize cc" "jptablelen cc + 1"]
  by (auto simp: jptableAdd_def Let_def cc_ok_def jp_live_def take_update_last)

lemma jptableAdd_frame [frame_simps]:
  "live (jptableAdd cc t a) = live cc" "buf_live (jptableAdd cc t a) = buf_live cc"
  "bufp (jptableAdd cc t a) = bufp cc" "pctablelen (jptableAdd cc t a) = pctablelen cc"
  "pctable (jptableAdd cc t a) = pctable cc" "buffer (jptableAdd cc t a) = buffer cc"
  by (simp_all add: jptableAdd_def Let_def live_def buf_live_def)

lemma pctable_frame [frame_simps]:
  "buf_live (pctableInsert cc i opc oper boff st noff) = buf_live cc"
  "bufp (pctableInsert cc i opc oper boff st noff) = bufp cc"
  "buffer (pctableInsert cc i opc oper boff st noff) = buffer cc"
  "jp_live (pctableInsert cc i opc oper boff st noff) = jp_live cc"
  "pctablelen (pctableInsert cc i opc oper boff st noff) = pctablelen cc + 1"
  "buf_live (pctableAdd cc opc oper boff) = buf_live cc"
  "bufp (pctableAdd cc opc oper boff) = bufp cc"
  "pctablelen (pctableAdd cc opc oper boff) = pctablelen cc + 1"
  "buf_live (pc_upd cc i f) = buf_live cc" "bufp (pc_upd cc i f) = bufp cc"
  "buffer (pc_upd cc i f) = buffer cc" "jp_live (pc_upd cc i f) = jp_live cc"
  by (simp_all add: pctableInsert_def pctableAdd_def pctableGrow_def pc_upd_def Let_def
      buf_live_def jp_live_def)

lemma throwtableExtend_ok:
  "te_ok info \<Longrightarrow> te_ok (throwtableExtend info n)"
  "te_ok info \<Longrightarrow> te_live (throwtableExtend info n) = te_live info"
  "throwtablelen (throwtableExtend info n) = throwtablelen info"
  "te_ok info \<Longrightarrow> n \<le> throwtablesize (throwtableExtend info n)"
  by (auto simp: throwtableExtend_def te_ok_def te_live_def)

definition new_te :: "u32 \<Rightarrow> u8 \<Rightarrow> u16 \<Rightarrow> throwentry" where
  "new_te start len boff =
     \<lparr>te_start = start, te_byteoff = boff, te_len = len, te_patched_code = 0x90,
      te_cb = NULL, te_opcode = 0\<rparr>"

lemma throwtableAdd_ok:
  assumes "te_ok info"
  shows "te_ok (fst (throwtableAdd info start len boff))"
    and "te_live (fst (throwtableAdd info start len boff)) = te_live info @ [new_te start len boff]"
    and "snd (throwtableAdd info start len boff) = throwtablelen info"
proof -
  let ?n = "if throwtablesize info = 0 then INITIAL_THROWTABLE_SIZE else throwtablesize info"
  let ?i = "if throwtablesize info \<le> throwtablelen info
    then throwtableExtend info (grow ?n (throwtablelen info + 1)) else info"
  have "throwtablelen info + 1 \<le> grow ?n (throwtablelen info + 1)"
    by (rule grow_ge) simp
  also have "\<dots> \<le> throwtablesize (throwtableExtend info (grow ?n (throwtablelen info + 1)))"
    using assms by (rule throwtableExtend_ok(4))
  finally have i: "te_ok ?i" "te_live ?i = te_live info" "throwtablelen ?i = throwtablelen info"
    "throwtablelen info < throwtablesize ?i"
    using assms by (cases "throwtablesize info \<le> throwtablelen info", simp_all add: throwtableExtend_ok)
  have eq: "throwtableAdd info start len boff =
      (?i\<lparr>throwtable := (throwtable ?i)[throwtablelen ?i := new_te start len boff],
          throwtablelen := throwtablelen ?i + 1\<rparr>, throwtablelen ?i)"
    by (simp add: throwtableAdd_def Let_def new_te_def)
  show "te_ok (fst (throwtableAdd info start len boff))"
    "te_live (fst (throwtableAdd info start len boff)) = te_live info @ [new_te start len boff]"
    "snd (throwtableAdd info start len boff) = throwtablelen info"
    unfolding eq using i by (simp_all add: te_ok_def te_live_def take_update_last)
qed

subsection \<open>The contract of the tables that only grow\<close>

locale append_table =
  fixes add :: "'t \<Rightarrow> 'e \<Rightarrow> 't"
    and elems :: "'t \<Rightarrow> 'v list"
    and view :: "'e \<Rightarrow> 'v"
    and ok :: "'t \<Rightarrow> bool"
  assumes add_ok: "ok t \<Longrightarrow> ok (add t e)"
    and add_elems: "ok t \<Longrightarrow> elems (add t e) = elems t @ [view e]"
begin

lemma add_all: "ok t \<Longrightarrow> ok (foldl add t es) \<and> elems (foldl add t es) = elems t @ map view es"
  by (induction es arbitrary: t) (simp_all add: add_ok add_elems)

lemma old_kept: "ok t \<Longrightarrow> i < length (elems t) \<Longrightarrow> elems (foldl add t es) ! i = elems t ! i"
  by (simp add: add_all nth_append)

lemma length_all: "ok t \<Longrightarrow> length (elems (foldl add t es)) = length (elems t) + length es"
  by (simp add: add_all)

end

interpretation pctab: append_table
  "\<lambda>cc (opc, oper, boff). pctableAdd cc opc oper boff" views
  "\<lambda>(opc, oper, boff). new_view opc oper boff 0 (- 1)" cc_ok
  by unfold_locales (auto simp: table_simps intro: wf_intros)

interpretation jptab: append_table
  "\<lambda>cc (t, a). jptableAdd cc t a" jp_live "\<lambda>(t, a). \<lparr>jp_tgtoff = t, jp_argoff = a\<rparr>" cc_ok
  by unfold_locales (auto simp: table_simps intro: wf_intros)

interpretation tetab: append_table
  "\<lambda>info (s, l, b). fst (throwtableAdd info s l b)" te_live "\<lambda>(s, l, b). new_te s l b" te_ok
  by unfold_locales (auto simp: throwtableAdd_ok)

interpretation codebuf: append_table
  "\<lambda>cc b. writeToBuffer cc [b]" buf_live "\<lambda>b. b" cc_ok
  by unfold_locales (auto simp: table_simps intro: wf_intros)

subsection \<open>Properties\<close>

definition fresh_cc :: CompilerContext where
  \<comment> \<open>a context as \<open>newCompilerContext\<close> makes it, with tables of the smallest sizes; for witnesses\<close>
  "fresh_cc = \<lparr>cc_mb = NULL, ref_count = 0, stage = STAGE_START, may_throw = False, may_jump = False,
     buffer = [0, 0], buf_size = 2, bufp = 0,
     pctablesize = 1, pctablelen = 0, ninsn = 0,
     pctable = [\<lparr>opcode = 7, flag = 0x7f, operand = 5, byteoff = 5, increasing_byteoff = 5, nativeoff = 5\<rparr>],
     jptablesize = 1, jptablelen = 0, jptable = [\<lparr>jp_tgtoff = 0, jp_argoff = 0\<rparr>], cc_next = NULL,
     fresh_byte = (\<lambda>_. 0),
     fresh_pc = (\<lambda>_. \<lparr>opcode = 7, flag = 0x7f, operand = 5, byteoff = 5, increasing_byteoff = 5, nativeoff = 5\<rparr>),
     fresh_jp = (\<lambda>_. \<lparr>jp_tgtoff = 0, jp_argoff = 0\<rparr>)\<rparr>"

lemma fresh_cc_ok: "cc_ok fresh_cc"
  by (simp add: cc_ok_def fresh_cc_def)

lemma fresh_cc_live: "live fresh_cc = []" "buf_live fresh_cc = []" "jp_live fresh_cc = []"
  by (simp_all add: fresh_cc_def live_def buf_live_def jp_live_def)

text \<open>C5: The operations on the program counter table refine the list operations: adding
appends a fresh entry, inserting puts a fresh entry or a run of copied entries in front of the
entry at the index, deleting removes the run of entries at the index; the entries before and
behind keep their place and their contents through every growth of the table, and the sizes
recorded in the context stay those of its blocks.\<close>
theorem pctable_refines_list:
  assumes "cc_ok cc" "i \<le> pctablelen cc"
  shows "views (pctableAdd cc opc oper boff) = views cc @ [new_view opc oper boff 0 (- 1)] \<and>
    cc_ok (pctableAdd cc opc oper boff) \<and>
    views (pctableInsert cc i opc oper boff st noff) =
      take i (views cc) @ new_view opc oper boff st noff # drop i (views cc) \<and>
    cc_ok (pctableInsert cc i opc oper boff st noff) \<and>
    live (pctableNInsert cc i src) = take i (live cc) @ src @ drop i (live cc) \<and>
    cc_ok (pctableNInsert cc i src) \<and>
    live (pctableNDelete (pctableNInsert cc i src) i (length src)) = live cc \<and>
    (i + n \<le> pctablelen cc \<longrightarrow>
      live (pctableNDelete cc i n) = take i (live cc) @ drop (i + n) (live cc) \<and>
      cc_ok (pctableNDelete cc i n))"
proof -
  have del: "live (pctableNDelete (pctableNInsert cc i src) i (length src)) = live cc"
  proof -
    have len: "pctablelen (pctableNInsert cc i src) = pctablelen cc + length src"
      by (simp add: pctableNInsert_def Let_def)
    have t: "length (take i (live cc)) = i"
      using assms by simp
    have "live (pctableNDelete (pctableNInsert cc i src) i (length src)) =
        take i (live (pctableNInsert cc i src)) @ drop (i + length src) (live (pctableNInsert cc i src))"
      using assms len by (intro pctableNDelete_live) (simp_all add: table_simps)
    then show ?thesis
      using assms t by (simp add: table_simps)
  qed
  then show ?thesis
    using assms by (simp add: table_simps wf_intros)
qed

theorem pctable_refines_list_witness:
  "views (pctableInsert (pctableAdd fresh_cc 1 2 3) 0 4 5 6 2 9) =
     [new_view 4 5 6 2 9, new_view 1 2 3 0 (- 1)]"
  using pctable_refines_list [OF fresh_cc_ok, of 0 1 2 3]
    pctable_refines_list [of "pctableAdd fresh_cc 1 2 3" 0 4 5 6 2 9]
  by (simp add: fresh_cc_live)

text \<open>Whatever the code generator writes is appended to the code buffer: after any sequence
of writes the buffer holds the old bytes followed by the written ones in order, through every
reallocation; the tables of the context are left alone.\<close>
theorem codebuf_appends:
  assumes "cc_ok cc"
  shows "buf_live (foldl writeToBuffer cc bss) = buf_live cc @ concat bss \<and>
    bufp (foldl writeToBuffer cc bss) = bufp cc + length (concat bss) \<and>
    cc_ok (foldl writeToBuffer cc bss) \<and>
    live (foldl writeToBuffer cc bss) = live cc \<and> jp_live (foldl writeToBuffer cc bss) = jp_live cc"
  using assms by (induction bss arbitrary: cc) (simp_all add: table_simps wf_intros frame_simps)

theorem codebuf_appends_witness:
  "buf_live (foldl writeToBuffer fresh_cc [[1, 2, 3], [], [4, 5]]) = [1, 2, 3, 4, 5]"
  using codebuf_appends [OF fresh_cc_ok, of "[[1, 2, 3], [], [4, 5]]"] by (simp add: fresh_cc_live)

end
