(* ===== verification/Search.thy ===== *)
theory Search
  imports Tables
begin

text \<open>
  The two binary searches of \<^verbatim>\<open>computil.c\<close>. Both halve an interval of cells, test the middle
  cell for a hit \<^emph>\<open>before\<close> they test the interval for emptiness, and so may read the cell
  behind the interval. The locale \<open>probe_search\<close> states the shape of the loop over an
  abstract probe; it is interpreted on \<open>getByPC_loop\<close> and on \<open>throwtableGet_loop\<close>.
\<close>

subsection \<open>The loop over an abstract probe\<close>

locale probe_search =
  fixes probe :: "nat \<Rightarrow> int" \<comment> \<open>\<open>0\<close>: hit, positive: look to the right, negative: to the left\<close>
    and result :: "nat \<Rightarrow> 'r"
    and search :: "nat \<Rightarrow> nat \<Rightarrow> 'r option"
  assumes search_eq: "search l h =
      (let i = l + (h - l) div 2
       in if probe i = 0 then Some (result i)
          else if h \<le> l then None
          else if 0 < probe i then search (i + 1) h
          else search l i)"
begin

lemma search_hit:
  assumes "l \<le> k" "k < h" "probe k = 0"
    and mono: "\<And>i j. l \<le> i \<Longrightarrow> i < j \<Longrightarrow> j < h \<Longrightarrow> (probe i < 0 \<longrightarrow> probe j < 0) \<and> (0 < probe j \<longrightarrow> 0 < probe i)"
  shows "\<exists>j. search l h = Some (result j) \<and> l \<le> j \<and> j < h \<and> probe j = 0"
  using assms
proof (induction "h - l" arbitrary: l h rule: less_induct)
  case less
  define i where "i = l + (h - l) div 2"
  have i: "l \<le> i" "i < h" using less.prems(1,2) by (simp_all add: i_def) 
  have eq: "search l h = (if probe i = 0 then Some (result i) else if h \<le> l then None
      else if 0 < probe i then search (i + 1) h else search l i)"
    by (subst search_eq) (simp add: i_def Let_def)
  consider "probe i = 0" | "0 < probe i" | "probe i < 0" by linarith
  then show ?case
  proof cases
    case 1
    with eq i show ?thesis by auto
  next
    case 2
    with less.prems(3) less.prems(4) [of k i] less.prems(1) i have "k \<noteq> i" "\<not> k < i"
      by auto
    then have "i < k" by simp
    have "\<exists>j. search (i + 1) h = Some (result j) \<and> i + 1 \<le> j \<and> j < h \<and> probe j = 0"
    proof (rule less.hyps)
      show "(probe m < 0 \<longrightarrow> probe n < 0) \<and> (0 < probe n \<longrightarrow> 0 < probe m)"
        if "i + 1 \<le> m" "m < n" "n < h" for m n
        using less.prems(4) [of m n] that i by simp
    qed (use less.prems(2,3) i \<open>i < k\<close> in simp_all)
    with 2 eq i show ?thesis by auto
  next
    case 3
    with less.prems(3) less.prems(4) [of i k] less.prems(2) i have "k \<noteq> i" "\<not> i < k"
      by auto
    then have "k < i" by simp
    have "\<exists>j. search l i = Some (result j) \<and> l \<le> j \<and> j < i \<and> probe j = 0"
    proof (rule less.hyps)
      show "(probe m < 0 \<longrightarrow> probe n < 0) \<and> (0 < probe n \<longrightarrow> 0 < probe m)"
        if "l \<le> m" "m < n" "n < i" for m n
        using less.prems(4) [of m n] that i by simp
    qed (use less.prems(1,3) i \<open>k < i\<close> in simp_all)
    with 3 eq i show ?thesis by auto
  qed
qed

lemma search_miss:
  assumes "l \<le> h" "\<And>i. l \<le> i \<Longrightarrow> i \<le> h \<Longrightarrow> probe i \<noteq> 0"
  shows "search l h = None"
  using assms
proof (induction "h - l" arbitrary: l h rule: less_induct)
  case less
  define i where "i = l + (h - l) div 2"
  have i: "l \<le> i" "i \<le> h" "l < h \<longrightarrow> i < h" using less.prems(1) by (auto simp: i_def)
  have eq: "search l h = (if probe i = 0 then Some (result i) else if h \<le> l then None
      else if 0 < probe i then search (i + 1) h else search l i)"
    by (subst search_eq) (simp add: i_def Let_def)
  show ?case
  proof (cases "h \<le> l")
    case True
    with eq i less.prems(2) show ?thesis by simp
  next
    case False
    with i less.hyps [of h "i + 1"] less.hyps [of i l] less.prems
    have "search (i + 1) h = None" "search l i = None" by simp_all
    with eq i less.prems(2) show ?thesis by simp
  qed
qed

text \<open>
  When every cell of the interval sends the search to the right, it ends on the cell behind
  the interval and reports that cell if it happens to hold what is looked for.
\<close>

lemma search_end:
  assumes "l \<le> h" "\<And>i. l \<le> i \<Longrightarrow> i < h \<Longrightarrow> 0 < probe i" "probe h = 0"
  shows "search l h = Some (result h)"
  using assms
proof (induction "h - l" arbitrary: l rule: less_induct)
  case less
  define i where "i = l + (h - l) div 2"
  have i: "l \<le> i" "l < h \<longrightarrow> i < h" using less.prems(1) by (auto simp: i_def)
  have eq: "search l h = (if probe i = 0 then Some (result i) else if h \<le> l then None
      else if 0 < probe i then search (i + 1) h else search l i)"
    by (subst search_eq) (simp add: i_def Let_def)
  show ?case
  proof (cases "l < h")
    case True
    with i less.hyps [of "i + 1"] less.prems have "search (i + 1) h = Some (result h)"
      by simp
    with eq True i less.prems(2) [of i] show ?thesis by simp
  next
    case False
    with eq less.prems(1,3) show ?thesis by (simp add: i_def)
  qed
qed

end

subsection \<open>\<open>pctableGetByPC\<close>\<close>

interpretation pcsearch: probe_search
  "\<lambda>i. boff - increasing_byteoff (pc_cell cc i)" "first_same cc boff" "getByPC_loop cc boff" for cc boff
  by unfold_locales (subst getByPC_loop.simps, simp add: Let_def)

lemma first_same_spec:
  "first_same cc boff n \<le> n \<and>
   (\<forall>j. first_same cc boff n \<le> j \<and> j < n \<longrightarrow> increasing_byteoff (pc_cell cc j) = boff) \<and>
   (0 < first_same cc boff n \<longrightarrow>
      increasing_byteoff (pc_cell cc (first_same cc boff n - 1)) \<noteq> boff)"
  by (induction n) (auto simp: less_Suc_eq)

definition table_sorted :: "CompilerContext \<Rightarrow> bool" where
  \<comment> \<open>what the binary search needs\<close>
  "table_sorted cc \<longleftrightarrow> sorted (map increasing_byteoff (live cc))"

lemma table_sortedD:
  "table_sorted cc \<Longrightarrow> cc_ok cc \<Longrightarrow> i \<le> j \<Longrightarrow> j < pctablelen cc \<Longrightarrow>
   increasing_byteoff (pc_cell cc i) \<le> increasing_byteoff (pc_cell cc j)"
  unfolding table_sorted_def
  using sorted_nth_mono [of "map increasing_byteoff (live cc)" i j]
  by (simp add: pc_cell_live)

lemma getByPC_finds:
  assumes "cc_ok cc" "table_sorted cc" "k < pctablelen cc"
    and "increasing_byteoff (live cc ! k) = boff"
  obtains i where "pctableGetByPC cc boff = Some i" "i \<le> k"
    "increasing_byteoff (live cc ! i) = boff" "\<forall>j < i. increasing_byteoff (live cc ! j) < boff"
proof -
  have mono: "(boff - increasing_byteoff (pc_cell cc i) < 0 \<longrightarrow> boff - increasing_byteoff (pc_cell cc j) < 0) \<and>
      (0 < boff - increasing_byteoff (pc_cell cc j) \<longrightarrow> 0 < boff - increasing_byteoff (pc_cell cc i))"
    if "0 \<le> i" "i < j" "j < pctablelen cc" for i j
    using table_sortedD [OF assms(2,1), of i j] that by linarith
  have "boff - increasing_byteoff (pc_cell cc k) = 0"
    using assms by (simp add: pc_cell_live)
  from pcsearch.search_hit [OF _ assms(3) this mono, of 0] obtain j where
    j: "pctableGetByPC cc boff = Some (first_same cc boff j)" "j < pctablelen cc"
      "increasing_byteoff (pc_cell cc j) = boff"
    by (auto simp: pctableGetByPC_def)
  let ?i = "first_same cc boff j"
  note fs = first_same_spec [of cc boff j]
  have hit: "increasing_byteoff (pc_cell cc ?i) = boff"
    using fs j(3) by (cases "?i = j") auto
  have il: "?i < pctablelen cc" using fs j(2) by linarith
  have below: "increasing_byteoff (pc_cell cc m) < boff" if "m < ?i" for m
  proof -
    have "increasing_byteoff (pc_cell cc m) \<le> increasing_byteoff (pc_cell cc (?i - 1))"
      using that il by (intro table_sortedD [OF assms(2,1)]) auto
    moreover have "increasing_byteoff (pc_cell cc (?i - 1)) \<le> boff"
      using table_sortedD [OF assms(2,1), of "?i - 1" ?i] il hit by simp
    ultimately show ?thesis using fs that by force
  qed
  have "?i \<le> k"
    using below [of k] assms(3,4) by (force simp: pc_cell_live [OF assms(1)] not_le)
  moreover have "increasing_byteoff (live cc ! ?i) = boff"
    using hit pc_cell_live [OF assms(1) il] by simp
  moreover have "\<forall>m < ?i. increasing_byteoff (live cc ! m) < boff"
    using below il by (simp flip: pc_cell_live [OF assms(1)])
  ultimately show ?thesis
    using that [OF j(1)] by blast
qed

lemma getByPC_misses:
  assumes "cc_ok cc" "boff \<notin> increasing_byteoff ` set (live cc)"
    and "increasing_byteoff (pc_cell cc (pctablelen cc)) \<noteq> boff"
  shows "pctableGetByPC cc boff = None"
  unfolding pctableGetByPC_def
proof (rule pcsearch.search_miss)
  fix i assume "i \<le> pctablelen cc"
  then show "boff - increasing_byteoff (pc_cell cc i) \<noteq> 0"
    using assms nth_mem [of i "live cc"]
    by (cases "i = pctablelen cc") (force simp: pc_cell_live [OF assms(1)])+
qed simp

lemma getByPC_dead_cell:
  assumes "cc_ok cc" "\<forall>e \<in> set (live cc). increasing_byteoff e < boff"
    and "increasing_byteoff (pc_cell cc (pctablelen cc)) = boff"
  shows "pctableGetByPC cc boff = Some (pctablelen cc)"
proof -
  have lt: "increasing_byteoff (pc_cell cc i) < boff" if "i < pctablelen cc" for i
    using assms(2) nth_mem [of i "live cc"] that by (simp add: pc_cell_live [OF assms(1)] assms(1))
  then have "getByPC_loop cc boff 0 (pctablelen cc) = Some (first_same cc boff (pctablelen cc))"
    using assms(3) by (intro pcsearch.search_end) auto
  moreover have "first_same cc boff (pctablelen cc) = pctablelen cc"
    using first_same_spec [of cc boff "pctablelen cc"] lt
    by (metis le_neq_implies_less less_irrefl order_refl)
  ultimately show ?thesis by (simp add: pctableGetByPC_def)
qed

subsection \<open>\<open>throwtableGet\<close>\<close>

definition te_probe :: "CodeInfo \<Rightarrow> u32 \<Rightarrow> nat \<Rightarrow> int" where
  "te_probe info noff i =
     (if te_covers (te_cell info i) noff then 0
      else if noff < te_start (te_cell info i) then -1 else 1)"

interpretation tesearch: probe_search "te_probe info noff" "\<lambda>i. i" "throwtableGet_loop info noff"
  for info noff
  by unfold_locales (subst throwtableGet_loop.simps, auto simp: Let_def te_probe_def)

definition te_end :: "throwentry \<Rightarrow> nat" where
  \<comment> \<open>the first native offset behind the code of an entry\<close>
  "te_end e = unat (te_start e) + unat (te_len e)"

definition te_ordered :: "CodeInfo \<Rightarrow> bool" where
  \<comment> \<open>the code ranges of the live entries follow each other and stay below \<open>2 ^ 32\<close>\<close>
  "te_ordered info \<longleftrightarrow>
     (\<forall>j < throwtablelen info. te_end (te_live info ! j) < 2 ^ 32 \<and>
        (\<forall>i < j. te_end (te_live info ! i) \<le> unat (te_start (te_live info ! j))))"

lemma length_te_live [simp]: "te_ok info \<Longrightarrow> length (te_live info) = throwtablelen info"
  by (simp add: te_live_def te_ok_def)

lemma te_cell_live: "te_ok info \<Longrightarrow> i < throwtablelen info \<Longrightarrow> te_cell info i = te_live info ! i"
  by (simp add: te_cell_def te_live_def te_ok_def)

lemma te_covers_iff:
  assumes "te_end e < 2 ^ 32"
  shows "te_covers e n \<longleftrightarrow> unat (te_start e) \<le> unat n \<and> unat n < te_end e"
proof -
  have "unat (te_len e) < 2 ^ 32"
    using unsigned_less [of "te_len e", where ?'a = nat] by simp
  then have "take_bit 32 (unat (te_len e)) = unat (te_len e)"
    by (rule take_bit_nat_eq_self)
  then have "unat (te_start e + ucast (te_len e)) = te_end e"
    using assms by (simp add: te_end_def unat_word_ariths unsigned_ucast_eq)
  then show ?thesis by (simp add: te_covers_def word_le_nat_alt word_less_nat_alt)
qed

lemma throwtableGet_finds:
  assumes "te_ok info" "te_ordered info" "k < throwtablelen info"
    and "te_covers (te_live info ! k) noff"
  shows "throwtableGet info noff = Some k"
proof -
  let ?e = "\<lambda>i. te_live info ! i"
  have lim: "te_end (?e i) < 2 ^ 32" if "i < throwtablelen info" for i
    using assms(2) that by (simp add: te_ordered_def)
  have ord: "te_end (?e i) \<le> unat (te_start (?e j))" if "i < j" "j < throwtablelen info" for i j
    using assms(2) that by (simp add: te_ordered_def)
  have pr: "te_probe info noff i =
      (if unat (te_start (?e i)) \<le> unat noff \<and> unat noff < te_end (?e i) then 0
       else if unat noff < unat (te_start (?e i)) then -1 else 1)" if "i < throwtablelen info" for i
    using that by (simp add: te_probe_def te_cell_live [OF assms(1)] te_covers_iff [OF lim] word_less_nat_alt)
  have st: "unat (te_start (?e i)) \<le> te_end (?e i)" for i by (simp add: te_end_def)
  have mono: "(te_probe info noff i < 0 \<longrightarrow> te_probe info noff j < 0) \<and>
      (0 < te_probe info noff j \<longrightarrow> 0 < te_probe info noff i)"
    if "0 \<le> i" "i < j" "j < throwtablelen info" for i j
    using that ord [of i j] st [of i] st [of j] by (auto simp: pr)
  have "te_probe info noff k = 0"
    using assms by (simp add: te_probe_def te_cell_live)
  from tesearch.search_hit [OF _ assms(3) this mono, of 0] obtain j where
    j: "throwtableGet info noff = Some j" "j < throwtablelen info" "te_probe info noff j = 0"
    by (auto simp: throwtableGet_def)
  have "\<not> j < k" "\<not> k < j"
    using ord [of j k] ord [of k j] j(2,3) assms(3,4) pr [of j] te_covers_iff [OF lim [OF assms(3)]]
    by (auto split: if_splits)
  with j(1) show ?thesis by simp
qed

lemma throwtableGet_misses:
  assumes "te_ok info" "\<forall>e \<in> set (te_live info). \<not> te_covers e noff"
    and "\<not> te_covers (te_cell info (throwtablelen info)) noff"
  shows "throwtableGet info noff = None"
  unfolding throwtableGet_def
proof (rule tesearch.search_miss)
  fix i assume "i \<le> throwtablelen info"
  moreover have "\<not> te_covers (te_cell info i) noff" if "i < throwtablelen info"
    using assms(1,2) nth_mem [of i "te_live info"] that
    by (metis length_te_live te_cell_live)
  ultimately show "te_probe info noff i \<noteq> 0"
    using assms(3) by (cases "i = throwtablelen info") (auto simp: te_probe_def)
qed simp

subsection \<open>Properties\<close>

text \<open>C4: On a table sorted by \<open>increasing_byteoff\<close>, the search for a byte offset that occurs
gives the first of the entries with that offset: where a branch to the offset has to go.\<close>
theorem pctableGetByPC_first:
  assumes "cc_ok cc" "table_sorted cc"
    and "k < pctablelen cc" "increasing_byteoff (live cc ! k) = boff"
  shows "\<exists>i. pctableGetByPC cc boff = Some i \<and> i \<le> k \<and> increasing_byteoff (live cc ! i) = boff \<and>
    (\<forall>j < i. increasing_byteoff (live cc ! j) < boff)"
  using getByPC_finds [OF assms] by metis

definition sample_entry :: "nat \<Rightarrow> int \<Rightarrow> pcentry" where
  "sample_entry opc boff = \<lparr>opcode = opc, flag = 0, operand = 0, byteoff = boff,
     increasing_byteoff = boff, nativeoff = - 1\<rparr>"

definition sample_cc :: CompilerContext where
  \<comment> \<open>three live entries and a dead one; for witnesses\<close>
  "sample_cc = fresh_cc\<lparr>pctablesize := 4, pctablelen := 3,
     pctable := [sample_entry 3 0, sample_entry 96 1, sample_entry 172 1, sample_entry 177 7]\<rparr>"

lemma sample_cc_ok:
  "cc_ok sample_cc" "pctablelen sample_cc = 3"
  "live sample_cc = [sample_entry 3 0, sample_entry 96 1, sample_entry 172 1]"
  "pc_cell sample_cc 3 = sample_entry 177 7" "table_sorted sample_cc"
  by (simp_all add: sample_cc_def fresh_cc_def cc_ok_def live_def pc_cell_def table_sorted_def sample_entry_def)

theorem pctableGetByPC_first_witness:
  "\<exists>i. pctableGetByPC sample_cc 1 = Some i \<and> i \<le> 2 \<and> increasing_byteoff (live sample_cc ! i) = 1 \<and>
    (\<forall>j < i. increasing_byteoff (live sample_cc ! j) < 1)"
  by (rule pctableGetByPC_first) (simp_all add: sample_cc_ok, simp add: sample_entry_def)

text \<open>When the offset looked for is behind every live entry, the search tests the cell behind
the live ones before it gives up: if that cell, which an earlier method may have left, holds
the offset, the search returns a pointer to it instead of \<open>NULL\<close>.\<close>
theorem pctableGetByPC_dead_entry:
  assumes "cc_ok cc" "\<forall>e \<in> set (live cc). increasing_byteoff e < boff"
    and "increasing_byteoff (pc_cell cc (pctablelen cc)) = boff"
  shows "pctableGetByPC cc boff = Some (pctablelen cc) \<and> pctableGet cc (int (pctablelen cc)) = None"
  using getByPC_dead_cell [OF assms] by (simp add: pctableGet_def)

theorem pctableGetByPC_dead_entry_witness:
  "pctableGetByPC sample_cc 7 = Some 3 \<and> pctableGet sample_cc 3 = None"
  using pctableGetByPC_dead_entry [OF sample_cc_ok(1), of 7]
  by (simp add: sample_cc_ok) (simp add: sample_entry_def)

text \<open>On a throw table whose code ranges follow each other, the search for a native offset
inside the range of an entry gives that entry and no other.\<close>
theorem throwtableGet_unique:
  assumes "te_ok info" "te_ordered info" "k < throwtablelen info"
    and "te_covers (te_live info ! k) noff"
  shows "throwtableGet info noff = Some k"
  by (rule throwtableGet_finds [OF assms])

definition sample_info :: CodeInfo where
  \<comment> \<open>two entries and a dead one; for witnesses\<close>
  "sample_info = \<lparr>ret_size = 0, argsizes = [], terse_sig = [], ret_sig = [], info_cc = NULL,
     inlineability = INLINE_UNKNOWN, info_pctablelen = 0, info_pctable = [], code_size = 0,
     invocation_count = 0, exc_handler_nativeoff = 0, finish_return_nativeoff = 0,
     throwtable = [new_te 4 3 0, new_te 7 6 2, new_te 0 0 0], throwtablelen = 2,
     throwtablesize = 3, trampoline = [], fresh_te = (\<lambda>_. new_te 0 0 0)\<rparr>"

theorem throwtableGet_unique_witness: "throwtableGet sample_info 9 = Some 1"
proof (rule throwtableGet_unique)
  have two: "(\<forall>j < (2::nat). P j) \<longleftrightarrow> P 0 \<and> P 1" for P
    by (auto simp: less_2_cases_iff)
  show "te_ordered sample_info"
    by (simp add: te_ordered_def sample_info_def te_live_def two)
      (simp add: te_end_def new_te_def)
qed (simp_all add: sample_info_def te_ok_def te_live_def te_covers_def new_te_def)

end
