(* ===== verification/VM.thy ===== *)
theory VM
  imports CompUtil
begin

text \<open>
  The parts of the virtual machine the compiler reads and writes, and what it relies on
  outside its sources. Method blocks, fields, classes with their constant pools, and
  exception tables are structures of Sun's headers; the records hold the members the sources
  use. A pointer to one of them is an address, and the state \<open>vm\<close> maps addresses to
  structures, so that two pointers may be equal and a change is seen through both.

  The record \<open>env\<close> collects what is not under \<^verbatim>\<open>src/\<close>: the VM's functions for resolving
  constant pool entries and for access control, the addresses of its invokers and of a few
  classes, and the tables \<^verbatim>\<open>constants.c\<close>, which the build generates from the assembled
  \<^verbatim>\<open>code.c\<close>. Every definition that uses them takes the record as an argument.
\<close>

subsection \<open>Structures of the virtual machine\<close>

record catchframe =
  cf_start_pc :: int
  cf_end_pc :: int
  cf_handler_pc :: int
  cf_compiled :: u32 \<comment> \<open>\<open>compiled_CatchFrame\<close>\<close>
  cf_catchType :: nat
  cf_state :: nat \<comment> \<open>the member \<open>state\<close> of \<open>CatchFrame_w_state\<close>\<close>

record methodblock =
  mb_clazz :: ptr \<comment> \<open>\<open>fieldclass(&mb->fb)\<close>\<close>
  mb_name :: string
  mb_signature :: string
  mb_access :: u16
  mb_offset :: u32 \<comment> \<open>\<open>fb.u.offset\<close>, the slot in the method table\<close>
  mb_has_code :: bool \<comment> \<open>\<open>code\<close> is not \<open>NULL\<close>\<close>
  mb_code :: "int \<Rightarrow> u8" \<comment> \<open>the memory around \<open>mb->code\<close>, by offset\<close>
  mb_code_length :: int
  exception_table :: "catchframe list"
  args_size :: nat
  nlocals :: nat
  maxstack :: nat
  invoker :: ptr
  CompiledCodeInfo :: ptr
  CompiledCode :: ptr
  compiled_bytes :: "u8 list" \<comment> \<open>the memory \<open>CompiledCode\<close> points to\<close>

record fieldblock =
  fb_clazz :: ptr
  fb_name :: string
  fb_signature :: string
  fb_access :: u16
  fb_offset :: u32
  fb_static_addr :: u32 \<comment> \<open>\<open>normal_static_address\<close> and \<open>twoword_static_address\<close>\<close>

record cp_item = \<comment> \<open>\<open>cp_item_type\<close> is a union; each member is a reading of the same word\<close>
  cp_i :: u32
  cp_mb :: ptr
  cp_fb :: ptr
  cp_clazz :: ptr

record classblock =
  cb_name :: string
  cb_access :: u16
  cb_superclass :: ptr
  cb_loader :: ptr
  cb_protection_domain :: ptr
  cb_initialized :: bool
  constant_pool :: "nat \<Rightarrow> cp_item"
  cp_resolved :: "nat \<Rightarrow> bool" \<comment> \<open>\<open>CONSTANT_POOL_TYPE_TABLE_IS_RESOLVED\<close>\<close>
  cp_tag :: "nat \<Rightarrow> nat" \<comment> \<open>\<open>CONSTANT_POOL_TYPE_TABLE_GET_TYPE\<close>\<close>
  cp_class_name :: "nat \<Rightarrow> string" \<comment> \<open>\<open>GetClassConstantClassName\<close>\<close>

record vm =
  methods :: "ptr \<Rightarrow> methodblock"
  classes :: "ptr \<Rightarrow> classblock"
  fieldblocks :: "ptr \<Rightarrow> fieldblock"
  infos :: "ptr \<Rightarrow> CodeInfo"
  contexts :: "ptr \<Rightarrow> CompilerContext"
  cc_pool :: ptr
  exc_class :: ptr \<comment> \<open>class of the pending exception, \<open>NULL\<close> when there is none\<close>
  next_addr :: ptr \<comment> \<open>the next address \<open>sysMalloc\<close> and \<open>sysCalloc\<close> return\<close>
  options :: u32
  opt_inlining_maxlen :: int
  opt_inlining_depth :: int
  is_fpupc_double :: bool
  compiledcode_min :: ptr
  compiledcode_max :: ptr
  db :: "(string \<times> u8 list) list" \<comment> \<open>the pairs in the database of compiled code\<close>
  db_page :: "u8 list" \<comment> \<open>the file with the compiled code\<close>
  db_pos :: nat \<comment> \<open>the file offset of its descriptor\<close>

subsection \<open>What the sources rely on\<close>

record env =
  resolve :: "vm \<Rightarrow> ptr \<Rightarrow> nat \<Rightarrow> nat set \<Rightarrow> vm \<times> bool"
    \<comment> \<open>\<open>ResolveClassConstantFromClass2\<close>: class, index, admitted tags\<close>
  verify_field_access :: "vm \<Rightarrow> ptr \<Rightarrow> ptr \<Rightarrow> u16 \<Rightarrow> bool"
  verify_class_access :: "vm \<Rightarrow> ptr \<Rightarrow> ptr \<Rightarrow> bool"
  ct_offset :: "nat \<Rightarrow> nat \<Rightarrow> u32" \<comment> \<open>\<open>code_table[opcode][state].offset\<close>\<close>
  ct_code :: "nat \<Rightarrow> nat \<Rightarrow> u8 list" \<comment> \<open>the native code there, \<open>length\<close> bytes\<close>
  ct_flag :: "nat \<Rightarrow> nat \<Rightarrow> u8" \<comment> \<open>the byte in front of it\<close>
  ct_last_state :: "nat \<Rightarrow> nat \<Rightarrow> nat"
  constant_table :: "nat \<Rightarrow> nat \<Rightarrow> nat list"
  bytepc_table :: "nat \<Rightarrow> nat \<Rightarrow> nat list"
  jumpexc_table :: "nat \<Rightarrow> nat \<Rightarrow> nat list"
  func_table :: "nat \<Rightarrow> nat \<Rightarrow> (nat \<times> ptr) list"
  assembledCode :: u32
  sym_compileAndInvokeMethod :: ptr
  sym_invokeJITCompiledMethod :: ptr
  sym_invokeJavaMethod :: ptr
  sym_invokeSynchronizedJavaMethod :: ptr
  sym_invokeAbstractMethod :: ptr
  sym_invokeNativeMethod :: ptr
  sym_invokeSynchronizedNativeMethod :: ptr
  sym_invokeJNINativeMethod :: ptr
  sym_invokeJNISynchronizedNativeMethod :: ptr
  sym_invokeLazyNativeMethod :: ptr
  sym_invokeJNI_min :: ptr
  sym_invokeJNI_max :: ptr
  classJavaLangObject :: ptr
  classJavaLangNoClassDefFoundError :: ptr
  classJavaLangNoSuchFieldError :: ptr
  classJavaLangNoSuchMethodError :: ptr
  fresh_context :: CompilerContext \<comment> \<open>what a context allocated by \<open>sysMalloc\<close> holds\<close>
  fresh_throw :: "nat \<Rightarrow> throwentry" \<comment> \<open>what the block of a throw table holds\<close>
  fresh_long_mem :: "nat \<Rightarrow> int" \<comment> \<open>what the block of a new stack holds\<close>
  code_addr :: "ptr \<Rightarrow> ptr" \<comment> \<open>where the VM has put the bytecode of a method: \<open>mb->code\<close>\<close>
  dbm_store :: "(string \<times> u8 list) list \<Rightarrow> string \<Rightarrow> u8 list \<Rightarrow> (string \<times> u8 list) list"
    \<comment> \<open>\<open>gdbm_store\<close> with \<open>GDBM_REPLACE\<close>\<close>
  dbm_fetch :: "(string \<times> u8 list) list \<Rightarrow> string \<Rightarrow> u8 list option" \<comment> \<open>\<open>gdbm_fetch\<close>\<close>

text \<open>The process ends through \<open>JVM_Exit\<close>, or the code never returns: the value of such a computation.\<close>

datatype fatal =
    InvalidSignature string
  | SignatureOverrun \<comment> \<open>a read behind the terminating NUL: undefined in C, the end in the model\<close>
  | TooManyArguments
  | LossyQuickOpcode nat
  | MethodNotInitialized ptr
  | SymbolNotResolved
  | EndlessLoop \<comment> \<open>a loop of the C code that never ends\<close>
  | OutOfFuel \<comment> \<open>the bound on the rounds of a loop did not suffice\<close>
  | ExitFailure \<comment> \<open>\<open>JVM_Exit(1)\<close> behind a message on the standard error output\<close>
  | NullDeref \<comment> \<open>an access through a null pointer, which a check in a debug build would report\<close>

definition bindE :: "'e + 'a \<Rightarrow> ('a \<Rightarrow> 'e + 'b) \<Rightarrow> 'e + 'b" where
  "bindE r f = (case r of Inl e \<Rightarrow> Inl e | Inr a \<Rightarrow> f a)"

lemma bindE_simps [simp]: "bindE (Inl e) f = Inl e" "bindE (Inr a) f = f a"
  by (simp_all add: bindE_def)

lemma bindE_Inr: "bindE r f = Inr b \<longleftrightarrow> (\<exists>a. r = Inr a \<and> f a = Inr b)"
  by (cases r) simp_all

subsection \<open>Access flags, constant pool tags, options\<close>

text \<open>The numbers of the bits of an access word (JVM specification; 14 is the VM's own).\<close>

abbreviation (input) ACC_PRIVATE :: nat where "ACC_PRIVATE \<equiv> 1"
abbreviation (input) ACC_STATIC :: nat where "ACC_STATIC \<equiv> 3"
abbreviation (input) ACC_FINAL :: nat where "ACC_FINAL \<equiv> 4"
abbreviation (input) ACC_SYNCHRONIZED :: nat where "ACC_SYNCHRONIZED \<equiv> 5"
abbreviation (input) ACC_NATIVE :: nat where "ACC_NATIVE \<equiv> 8"
abbreviation (input) ACC_INTERFACE :: nat where "ACC_INTERFACE \<equiv> 9"
abbreviation (input) ACC_ABSTRACT :: nat where "ACC_ABSTRACT \<equiv> 10"
abbreviation (input) ACC_STRICT :: nat where "ACC_STRICT \<equiv> 11"
abbreviation (input) ACC_MACHINE_COMPILED :: nat where "ACC_MACHINE_COMPILED \<equiv> 14"

definition acc :: "u16 \<Rightarrow> nat \<Rightarrow> bool" where
  \<comment> \<open>\<open>access & ACC_XXX\<close>\<close>
  "acc a n \<longleftrightarrow> bit a n"

abbreviation (input) CONSTANT_Integer :: nat where "CONSTANT_Integer \<equiv> 3"
abbreviation (input) CONSTANT_Float :: nat where "CONSTANT_Float \<equiv> 4"
abbreviation (input) CONSTANT_Long :: nat where "CONSTANT_Long \<equiv> 5"
abbreviation (input) CONSTANT_Double :: nat where "CONSTANT_Double \<equiv> 6"
abbreviation (input) CONSTANT_Class :: nat where "CONSTANT_Class \<equiv> 7"
abbreviation (input) CONSTANT_String :: nat where "CONSTANT_String \<equiv> 8"
abbreviation (input) CONSTANT_Fieldref :: nat where "CONSTANT_Fieldref \<equiv> 9"
abbreviation (input) CONSTANT_Methodref :: nat where "CONSTANT_Methodref \<equiv> 10"
abbreviation (input) CONSTANT_InterfaceMethodref :: nat where "CONSTANT_InterfaceMethodref \<equiv> 11"

datatype opt_bit =
    OPT_QUIET | OPT_IGNDISABLE | OPT_OUTCODE | OPT_CODESIZE | OPT_CMPLATLOAD
  | OPT_DONTCMPLVMCLZ | OPT_CMPLCLINIT | OPT_IGNSTRICTFP | OPT_FRCSTRICTFP | OPT_FPSINGLE
  | OPT_FPEXTENDED | OPT_SCHED_FIFO | OPT_SCHED_RR | OPT_CODEDB | OPT_IGNLOCK

fun opt_num :: "opt_bit \<Rightarrow> nat" where
  "opt_num OPT_QUIET = 0" | "opt_num OPT_IGNDISABLE = 1" | "opt_num OPT_OUTCODE = 2"
| "opt_num OPT_CODESIZE = 3" | "opt_num OPT_CMPLATLOAD = 4" | "opt_num OPT_DONTCMPLVMCLZ = 5"
| "opt_num OPT_CMPLCLINIT = 6" | "opt_num OPT_IGNSTRICTFP = 7" | "opt_num OPT_FRCSTRICTFP = 8"
| "opt_num OPT_FPSINGLE = 9" | "opt_num OPT_FPEXTENDED = 10" | "opt_num OPT_SCHED_FIFO = 11"
| "opt_num OPT_SCHED_RR = 12" | "opt_num OPT_CODEDB = 13" | "opt_num OPT_IGNLOCK = 14"

definition OPT_SET :: "opt_bit \<Rightarrow> vm \<Rightarrow> vm" where
  "OPT_SET n v = v\<lparr>options := options v OR push_bit (opt_num n) 1\<rparr>"

definition OPT_RESET :: "opt_bit \<Rightarrow> vm \<Rightarrow> u32 \<times> vm" where
  \<comment> \<open>the macro is an expression without an assignment: it computes a word and changes nothing\<close>
  "OPT_RESET n v = (options v AND NOT (push_bit (opt_num n) 1), v)"

definition OPT_SETQ :: "opt_bit \<Rightarrow> vm \<Rightarrow> bool" where
  "OPT_SETQ n v \<longleftrightarrow> options v AND push_bit (opt_num n) 1 \<noteq> 0"

subsection \<open>Reading the bytecode (macros of \<^verbatim>\<open>compiler.h\<close>)\<close>

definition byte_at :: "(int \<Rightarrow> u8) \<Rightarrow> int \<Rightarrow> nat" where
  "byte_at code p = unat (code p)"

definition GET_UINT16 :: "(int \<Rightarrow> u8) \<Rightarrow> int \<Rightarrow> int" where
  "GET_UINT16 code p = uint (code p) * 256 + uint (code (p + 1))"

definition GET_INT16 :: "(int \<Rightarrow> u8) \<Rightarrow> int \<Rightarrow> int" where
  "GET_INT16 code p = sint (code p) * 256 + uint (code (p + 1))"

definition GET_INT32 :: "(int \<Rightarrow> u8) \<Rightarrow> int \<Rightarrow> int" where
  "GET_INT32 code p =
     sint (push_bit 24 (ucast (code p)) OR push_bit 16 (ucast (code (p + 1)))
           OR push_bit 8 (ucast (code (p + 2))) OR ucast (code (p + 3)) :: u32)"

definition ntohl_at :: "(int \<Rightarrow> u8) \<Rightarrow> int \<Rightarrow> int" where
  \<comment> \<open>\<open>(int32_t)ntohl\<close> of the word at byte \<open>p\<close>: the word is stored big endian\<close>
  "ntohl_at code p = GET_INT32 code p"

definition ALIGNUP32 :: "int \<Rightarrow> int" where
  \<comment> \<open>offsets from \<open>mb->code\<close>, which the VM allocates at a multiple of four\<close>
  "ALIGNUP32 n = (n + 3) div 4 * 4"

abbreviation mb_cp :: "vm \<Rightarrow> ptr \<Rightarrow> nat \<Rightarrow> cp_item" where
  \<comment> \<open>\<open>cbConstantPool(fieldclass(&mb->fb))[index]\<close>\<close>
  "mb_cp v mb \<equiv> constant_pool (classes v (mb_clazz (methods v mb)))"

abbreviation mb_upd :: "ptr \<Rightarrow> (methodblock \<Rightarrow> methodblock) \<Rightarrow> vm \<Rightarrow> vm" where
  "mb_upd mb f v \<equiv> v\<lparr>methods := (methods v)(mb := f (methods v mb))\<rparr>"

abbreviation info_upd :: "ptr \<Rightarrow> (CodeInfo \<Rightarrow> CodeInfo) \<Rightarrow> vm \<Rightarrow> vm" where
  "info_upd p f v \<equiv> v\<lparr>infos := (infos v)(p := f (infos v p))\<rparr>"

abbreviation cc_upd :: "ptr \<Rightarrow> (CompilerContext \<Rightarrow> CompilerContext) \<Rightarrow> vm \<Rightarrow> vm" where
  "cc_upd p f v \<equiv> v\<lparr>contexts := (contexts v)(p := f (contexts v p))\<rparr>"

lemma OPT_RESET_idle: "snd (OPT_RESET n v) = v"
  by (simp add: OPT_RESET_def)

end
