(* ===== verification/CodeInfoCtx.thy ===== *)
theory CodeInfoCtx
  imports VM Tables
begin

text \<open>
  The life cycle of compiled code information and of compiler contexts (\<^verbatim>\<open>computil.c\<close>):
  \<open>prepareCompiledCodeInfo\<close> with its parser of method descriptors, and the pool from which
  \<open>getCompilerContext\<close> takes contexts and to which \<open>releaseCompilerContext\<close> gives them back.

  The monitors that the functions enter and leave are not modelled: the model is of one
  thread. \<open>sysMalloc\<close> and \<open>sysCalloc\<close> return the address \<open>next_addr\<close>, never used before, and
  do not fail. \<open>sysFree\<close> has no effect on the state.
\<close>

subsection \<open>Invokers\<close>

definition access2invoker :: "env \<Rightarrow> u16 \<Rightarrow> ptr" where
  "access2invoker E access =
     (if acc access ACC_ABSTRACT then sym_invokeAbstractMethod E
      else if acc access ACC_NATIVE then sym_invokeLazyNativeMethod E
      else if acc access ACC_SYNCHRONIZED then sym_invokeSynchronizedJavaMethod E
      else sym_invokeJavaMethod E)"

subsection \<open>The descriptor of a method\<close>

abbreviation (input) TERSE_SIG_OBJECT :: nat where "TERSE_SIG_OBJECT \<equiv> 1"
abbreviation (input) TERSE_SIG_LONG :: nat where "TERSE_SIG_LONG \<equiv> 2"
abbreviation (input) TERSE_SIG_DOUBLE :: nat where "TERSE_SIG_DOUBLE \<equiv> 3"
abbreviation (input) TERSE_SIG_BOOLEAN :: nat where "TERSE_SIG_BOOLEAN \<equiv> 4"
abbreviation (input) TERSE_SIG_BYTE :: nat where "TERSE_SIG_BYTE \<equiv> 5"
abbreviation (input) TERSE_SIG_SHORT :: nat where "TERSE_SIG_SHORT \<equiv> 6"
abbreviation (input) TERSE_SIG_CHAR :: nat where "TERSE_SIG_CHAR \<equiv> 7"
abbreviation (input) TERSE_SIG_INT :: nat where "TERSE_SIG_INT \<equiv> 8"
abbreviation (input) TERSE_SIG_FLOAT :: nat where "TERSE_SIG_FLOAT \<equiv> 9"
abbreviation (input) TERSE_SIG_VOID :: nat where "TERSE_SIG_VOID \<equiv> 10"
abbreviation (input) TERSE_SIG_ENDFUNC :: nat where "TERSE_SIG_ENDFUNC \<equiv> 11"

abbreviation (input) AS_BUF_SIZE :: nat where "AS_BUF_SIZE \<equiv> 256"

fun skip_class :: "string \<Rightarrow> string option" where
  \<comment> \<open>\<open>while (*(sig++) != ';')\<close>; \<open>None\<close>: it runs over the end of the string\<close>
  "skip_class [] = None"
| "skip_class (c # sig) = (if c = CHR '';'' then Some sig else skip_class sig)"

fun skip_dims :: "string \<Rightarrow> string" where
  \<comment> \<open>\<open>while (*sig == '[') sig++\<close>\<close>
  "skip_dims (c # sig) = (if c = CHR ''['' then skip_dims sig else c # sig)"
| "skip_dims [] = []"

definition skip_array :: "string \<Rightarrow> string option" where
  "skip_array sig =
     (case skip_dims sig of
        [] \<Rightarrow> None
      | c # rest \<Rightarrow> if c = CHR ''L'' then skip_class rest else Some rest)"

record sigstate =
  ss_sizes :: "int list" \<comment> \<open>\<open>sizes[0..i-1]\<close>\<close>
  ss_terse :: "nat list" \<comment> \<open>\<open>terse_sig[0..j-1]\<close>\<close>
  ss_ret_sig :: string \<comment> \<open>the place in the signature \<open>info->ret_sig\<close> points to\<close>

definition simple_char :: "char \<Rightarrow> (int \<times> nat) option" where
  \<comment> \<open>the cases of the switch that consume one character\<close>
  "simple_char c =
     (if c = CHR '')'' then Some (0, TERSE_SIG_ENDFUNC)
      else if c = CHR ''V'' then Some (0, TERSE_SIG_VOID)
      else if c = CHR ''Z'' then Some (1, TERSE_SIG_BOOLEAN)
      else if c = CHR ''B'' then Some (1, TERSE_SIG_BYTE)
      else if c = CHR ''S'' then Some (1, TERSE_SIG_SHORT)
      else if c = CHR ''C'' then Some (1, TERSE_SIG_CHAR)
      else if c = CHR ''I'' then Some (1, TERSE_SIG_INT)
      else if c = CHR ''F'' then Some (1, TERSE_SIG_FLOAT)
      else if c = CHR ''D'' then Some (2, TERSE_SIG_DOUBLE)
      else if c = CHR ''J'' then Some (2, TERSE_SIG_LONG)
      else None)"

definition sig_step :: "string \<Rightarrow> char \<Rightarrow> string \<Rightarrow> sigstate \<Rightarrow> fatal + (string \<times> sigstate)" where
  \<comment> \<open>one round of \<open>while (*sig)\<close>: \<open>c\<close> is \<open>*sig\<close>, \<open>rest\<close> what follows it\<close>
  "sig_step whole c rest s =
     (let adv = (\<lambda>sz t next. Inr (next, s\<lparr>ss_sizes := ss_sizes s @ [sz], ss_terse := ss_terse s @ [t]\<rparr>)) in
      case simple_char c of
        Some (sz, t) \<Rightarrow>
          (if c = CHR '')'' then
             Inr (rest, s\<lparr>ss_sizes := ss_sizes s @ [sz], ss_terse := ss_terse s @ [t], ss_ret_sig := rest\<rparr>)
           else adv sz t rest)
      | None \<Rightarrow>
          if c = CHR ''L'' then
            (case skip_class (c # rest) of None \<Rightarrow> Inl SignatureOverrun
             | Some next \<Rightarrow> adv 1 TERSE_SIG_OBJECT next)
          else if c = CHR ''['' then
            (case skip_array rest of None \<Rightarrow> Inl SignatureOverrun
             | Some next \<Rightarrow> adv 1 TERSE_SIG_OBJECT next)
          else Inl (InvalidSignature whole))"

lemma skip_class_shorter: "skip_class sig = Some next \<Longrightarrow> length next < length sig"
  by (induction sig) (auto split: if_splits)

lemma skip_dims_shorter: "length (skip_dims sig) \<le> length sig"
  by (induction sig) auto

lemma skip_array_shorter: "skip_array sig = Some next \<Longrightarrow> length next < length sig"
  using skip_dims_shorter [of sig]
  by (force simp: skip_array_def split: list.splits if_splits dest: skip_class_shorter)

lemma sig_step_shorter: "sig_step whole c rest s = Inr (next, s') \<Longrightarrow> length next \<le> length rest"
  by (auto simp: sig_step_def Let_def split: option.splits if_splits
      dest: skip_class_shorter skip_array_shorter)

function sig_loop :: "string \<Rightarrow> string \<Rightarrow> sigstate \<Rightarrow> fatal + sigstate" where
  "sig_loop whole [] s = Inr s"
| "sig_loop whole (c # rest) s =
     (case sig_step whole c rest s of
        Inl e \<Rightarrow> Inl e
      | Inr (next, s') \<Rightarrow>
          if AS_BUF_SIZE \<le> length (ss_sizes s') then Inl TooManyArguments
          else sig_loop whole next s')"
  by pat_completeness auto
termination
  by (relation "measure (\<lambda>(whole, sig, s). length sig)") (auto dest: sig_step_shorter)

definition parse_signature :: "methodblock \<Rightarrow> fatal + sigstate" where
  \<comment> \<open>the block with \<open>sizes\<close> and \<open>terse_sig\<close>; the signature starts with an opening parenthesis\<close>
  "parse_signature method =
     sig_loop (mb_signature method) (tl (mb_signature method))
       \<lparr>ss_sizes = (if acc (mb_access method) ACC_STATIC then [] else [1]), ss_terse = [], ss_ret_sig = []\<rparr>"

subsection \<open>\<open>prepareCompiledCodeInfo\<close>\<close>

definition new_trampoline :: "(nat \<Rightarrow> u8) \<Rightarrow> u8 list" where
  "new_trampoline fresh =
     (let t = map fresh [0..<43];
          t = overwrite 0 [0x52, 0x51, 0x68, 0x00] t;
          t = t[7 := 0x68, 12 := 0x68, 17 := 0x68, 22 := 0xe8, 27 := 0x83];
          t = overwrite 28 [0xc4, 0x0c, 0x85, 0xc0] t;
          t = overwrite 32 [0x58, 0x59, 0x5a, 0x0f] t;
          t = t[36 := 0x85]
      in overwrite 41 [0xff, 0xe0] t)"

definition zero_info :: CodeInfo where
  \<comment> \<open>what \<open>sysCalloc\<close> returns\<close>
  "zero_info =
     \<lparr>ret_size = 0, argsizes = [], terse_sig = [], ret_sig = [], info_cc = NULL,
      inlineability = INLINE_UNKNOWN, info_pctablelen = 0, info_pctable = [], code_size = 0,
      invocation_count = 0, exc_handler_nativeoff = 0, finish_return_nativeoff = 0,
      throwtable = [], throwtablelen = 0, throwtablesize = 0, trampoline = [],
      fresh_te = (\<lambda>_. \<lparr>te_start = 0, te_byteoff = 0, te_len = 0, te_patched_code = 0,
                   te_cb = NULL, te_opcode = 0\<rparr>)\<rparr>"

definition fill_info :: "env \<Rightarrow> sigstate \<Rightarrow> CodeInfo \<Rightarrow> fatal + CodeInfo" where
  \<comment> \<open>the assignments to \<open>info\<close> behind the parser\<close>
  "fill_info E s info =
     (if ss_sizes s = [] then Inl SignatureOverrun \<comment> \<open>\<open>sizes[-1]\<close>\<close>
      else Inr (info\<lparr>argsizes := ss_sizes s, terse_sig := ss_terse s, ret_sig := ss_ret_sig s,
             ret_size := last (ss_sizes s), throwtablelen := 0, throwtablesize := 0,
             throwtable := [], fresh_te := fresh_throw E,
             trampoline := new_trampoline (fresh_byte (fresh_context E))\<rparr>))"

definition prepareCompiledCodeInfo :: "env \<Rightarrow> ptr \<Rightarrow> vm \<Rightarrow> fatal + (ptr \<times> vm)" where
  "prepareCompiledCodeInfo E method v =
     (let mb = methods v method in
      if mb_clazz mb = NULL then Inr (NULL, v)
      else if CompiledCodeInfo mb \<noteq> NULL then Inr (CompiledCodeInfo mb, v)
      else
        (let info = next_addr v;
             v = v\<lparr>next_addr := next_addr v + 1, infos := (infos v)(info := zero_info)\<rparr>;
             v = mb_upd method (CompiledCodeInfo_update (\<lambda>_. info)) v in
         bindE (parse_signature mb) (\<lambda>s.
         bindE (fill_info E s (infos v info)) (\<lambda>i.
           Inr (info, v\<lparr>infos := (infos v)(info := i)\<rparr>)))))"

subsection \<open>Compiler contexts\<close>

definition resetCompilerContext :: "ptr \<Rightarrow> ptr \<Rightarrow> vm \<Rightarrow> vm" where
  "resetCompilerContext cc mb v =
     (let v = cc_upd cc (\<lambda>c. pctableClear (c\<lparr>cc_mb := mb, ref_count := 0, stage := STAGE_START,
                may_throw := False, may_jump := False, bufp := 0\<rparr>)
                \<lparr>jptablelen := 0, cc_next := NULL\<rparr>) v;
          info = CompiledCodeInfo (methods v mb)
      in if info \<noteq> NULL then info_upd info (info_cc_update (\<lambda>_. cc)) v else v)"

definition newCompilerContext :: "env \<Rightarrow> ptr \<Rightarrow> vm \<Rightarrow> ptr \<times> vm" where
  "newCompilerContext E mb v =
     (let cc = next_addr v;
          f = fresh_context E;
          c = f\<lparr>buffer := map (fresh_byte f) [0..<DEFAULT_BUF_SIZE], buf_size := DEFAULT_BUF_SIZE,
                pctablesize := DEFAULT_PCTABLE_SIZE,
                pctable := map (fresh_pc f) [0..<DEFAULT_PCTABLE_SIZE],
                jptablesize := DEFAULT_JPTABLE_SIZE,
                jptable := map (fresh_jp f) [0..<DEFAULT_JPTABLE_SIZE]\<rparr>;
          v = v\<lparr>next_addr := next_addr v + 1, contexts := (contexts v)(cc := c)\<rparr>
      in (cc, resetCompilerContext cc mb v))"

definition getCompilerContext :: "env \<Rightarrow> ptr \<Rightarrow> vm \<Rightarrow> fatal + (ptr \<times> vm)" where
  "getCompilerContext E mb v =
     bindE (if CompiledCodeInfo (methods v mb) = NULL then prepareCompiledCodeInfo E mb v
            else Inr (CompiledCodeInfo (methods v mb), v)) (\<lambda>(info, v).
     (let cc = info_cc (infos v info);
          (cc, v) =
            (if cc = NULL then
               (if cc_pool v \<noteq> NULL then
                  (let cc = cc_pool v;
                       v = v\<lparr>cc_pool := cc_next (contexts v cc)\<rparr>
                   in (cc, resetCompilerContext cc mb v))
                else newCompilerContext E mb v)
             else (cc, v))
      in if info = NULL then Inl (MethodNotInitialized mb) \<comment> \<open>\<open>info->monitor\<close>\<close>
         else Inr (cc, cc_upd cc (ref_count_update (\<lambda>n. n + 1)) v)))"

definition releaseCompilerContext :: "ptr \<Rightarrow> vm \<Rightarrow> vm" where
  "releaseCompilerContext cc v =
     (let v = cc_upd cc (ref_count_update (\<lambda>n. n - 1)) v in
      if ref_count (contexts v cc) \<le> 0 then
        (let info = CompiledCodeInfo (methods v (cc_mb (contexts v cc)));
             v = (if info \<noteq> NULL then info_upd info (info_cc_update (\<lambda>_. NULL)) v else v);
             v = cc_upd cc (cc_next_update (\<lambda>_. cc_pool v)) v
         in v\<lparr>cc_pool := cc\<rparr>)
      else v)"

subsection \<open>Descriptors as the JVM specification has them\<close>

datatype jtype =
    TBoolean | TByte | TShort | TChar | TInt | TFloat | TDouble | TLong
  | TClass string | TArray jtype

primrec desc :: "jtype \<Rightarrow> string" where
  "desc TBoolean = ''Z''" | "desc TByte = ''B''" | "desc TShort = ''S''" | "desc TChar = ''C''"
| "desc TInt = ''I''" | "desc TFloat = ''F''" | "desc TDouble = ''D''" | "desc TLong = ''J''"
| "desc (TClass n) = ''L'' @ n @ '';''" | "desc (TArray t) = ''['' @ desc t"

primrec wf_jtype :: "jtype \<Rightarrow> bool" where
  "wf_jtype TBoolean = True" | "wf_jtype TByte = True" | "wf_jtype TShort = True"
| "wf_jtype TChar = True" | "wf_jtype TInt = True" | "wf_jtype TFloat = True"
| "wf_jtype TDouble = True" | "wf_jtype TLong = True"
| "wf_jtype (TClass n) = (CHR '';'' \<notin> set n)" | "wf_jtype (TArray t) = wf_jtype t"

primrec words :: "jtype \<Rightarrow> int" where
  \<comment> \<open>the stack words a value occupies\<close>
  "words TBoolean = 1" | "words TByte = 1" | "words TShort = 1" | "words TChar = 1"
| "words TInt = 1" | "words TFloat = 1" | "words TDouble = 2" | "words TLong = 2"
| "words (TClass n) = 1" | "words (TArray t) = 1"

primrec terse :: "jtype \<Rightarrow> nat" where
  "terse TBoolean = TERSE_SIG_BOOLEAN" | "terse TByte = TERSE_SIG_BYTE"
| "terse TShort = TERSE_SIG_SHORT" | "terse TChar = TERSE_SIG_CHAR" | "terse TInt = TERSE_SIG_INT"
| "terse TFloat = TERSE_SIG_FLOAT" | "terse TDouble = TERSE_SIG_DOUBLE"
| "terse TLong = TERSE_SIG_LONG" | "terse (TClass n) = TERSE_SIG_OBJECT"
| "terse (TArray t) = TERSE_SIG_OBJECT"

definition ret_desc :: "jtype option \<Rightarrow> string" where
  "ret_desc r = (case r of None \<Rightarrow> ''V'' | Some t \<Rightarrow> desc t)"

definition ret_words :: "jtype option \<Rightarrow> int" where
  "ret_words r = (case r of None \<Rightarrow> 0 | Some t \<Rightarrow> words t)"

definition ret_terse :: "jtype option \<Rightarrow> nat" where
  "ret_terse r = (case r of None \<Rightarrow> TERSE_SIG_VOID | Some t \<Rightarrow> terse t)"

definition method_desc :: "jtype list \<Rightarrow> jtype option \<Rightarrow> string" where
  "method_desc args ret = ''('' @ concat (map desc args) @ '')'' @ ret_desc ret"

lemma skip_class_found: "CHR '';'' \<notin> set n \<Longrightarrow> skip_class (n @ CHR '';'' # rest) = Some rest"
  by (induction n) auto

lemma skip_array_desc: "wf_jtype t \<Longrightarrow> skip_array (desc t @ rest) = Some rest"
  by (induction t) (simp_all add: skip_array_def skip_class_found)

definition take_arg :: "int \<Rightarrow> nat \<Rightarrow> sigstate \<Rightarrow> sigstate" where
  "take_arg sz t s = s\<lparr>ss_sizes := ss_sizes s @ [sz], ss_terse := ss_terse s @ [t]\<rparr>"

lemma simple_char_simps [simp]:
  "simple_char CHR '')'' = Some (0, TERSE_SIG_ENDFUNC)" "simple_char CHR ''V'' = Some (0, TERSE_SIG_VOID)"
  "simple_char CHR ''Z'' = Some (1, TERSE_SIG_BOOLEAN)" "simple_char CHR ''B'' = Some (1, TERSE_SIG_BYTE)"
  "simple_char CHR ''S'' = Some (1, TERSE_SIG_SHORT)" "simple_char CHR ''C'' = Some (1, TERSE_SIG_CHAR)"
  "simple_char CHR ''I'' = Some (1, TERSE_SIG_INT)" "simple_char CHR ''F'' = Some (1, TERSE_SIG_FLOAT)"
  "simple_char CHR ''D'' = Some (2, TERSE_SIG_DOUBLE)" "simple_char CHR ''J'' = Some (2, TERSE_SIG_LONG)"
  "simple_char CHR ''L'' = None" "simple_char CHR ''['' = None"
  by (simp_all add: simple_char_def)

lemma sig_step_simps:
  "simple_char c = Some (sz, tt) \<Longrightarrow> c \<noteq> CHR '')'' \<Longrightarrow>
     sig_step whole c cs s = Inr (cs, take_arg sz tt s)"
  "sig_step whole CHR '')'' cs s = Inr (cs, take_arg 0 TERSE_SIG_ENDFUNC s\<lparr>ss_ret_sig := cs\<rparr>)"
  "skip_class cs = Some rest \<Longrightarrow>
     sig_step whole CHR ''L'' cs s = Inr (rest, take_arg 1 TERSE_SIG_OBJECT s)"
  "skip_array cs = Some rest \<Longrightarrow>
     sig_step whole CHR ''['' cs s = Inr (rest, take_arg 1 TERSE_SIG_OBJECT s)"
  by (simp_all add: sig_step_def take_arg_def Let_def)

lemma sig_step_desc:
  assumes "wf_jtype t" "desc t @ rest = c # cs"
  shows "sig_step whole c cs s = Inr (rest, take_arg (words t) (terse t) s)"
proof -
  have "c = hd (desc t @ rest)" "cs = tl (desc t @ rest)"
    using assms(2) by simp_all
  then show ?thesis
    using assms(1) by (cases t) (simp_all add: sig_step_simps skip_class_found skip_array_desc)
qed

lemma desc_Cons: "\<exists>c cs. desc t = c # cs"
  by (cases t) simp_all

lemma sig_loop_desc:
  assumes "wf_jtype t"
  shows "sig_loop whole (desc t @ rest) s =
    (if AS_BUF_SIZE \<le> length (ss_sizes s) + 1 then Inl TooManyArguments
     else sig_loop whole rest (take_arg (words t) (terse t) s))"
proof -
  from desc_Cons [of t] obtain c cs where c: "desc t @ rest = c # cs"
    by auto
  show ?thesis
    unfolding c by (simp add: sig_step_desc [OF assms c]) (simp add: take_arg_def)
qed

lemma sig_loop_args:
  assumes "\<forall>t \<in> set args. wf_jtype t" "length (ss_sizes s) + length args < AS_BUF_SIZE"
  shows "sig_loop whole (concat (map desc args) @ rest) s =
    sig_loop whole rest (s\<lparr>ss_sizes := ss_sizes s @ map words args, ss_terse := ss_terse s @ map terse args\<rparr>)"
  using assms
  by (induction args arbitrary: s) (simp_all add: sig_loop_desc take_arg_def)

lemma sig_loop_args_many:
  assumes "\<forall>t \<in> set args. wf_jtype t" "AS_BUF_SIZE \<le> length (ss_sizes s) + length args"
    "length (ss_sizes s) < AS_BUF_SIZE"
  shows "sig_loop whole (concat (map desc args) @ rest) s = Inl TooManyArguments"
  using assms
  by (induction args arbitrary: s) (simp_all add: sig_loop_desc take_arg_def)

lemma sig_loop_close:
  "sig_loop whole (CHR '')'' # rest) s =
    (if AS_BUF_SIZE \<le> length (ss_sizes s) + 1 then Inl TooManyArguments
     else sig_loop whole rest (take_arg 0 TERSE_SIG_ENDFUNC s\<lparr>ss_ret_sig := rest\<rparr>))"
  by (simp add: sig_step_simps) (simp add: take_arg_def)

lemma sig_loop_ret:
  "\<forall>t \<in> set_option ret. wf_jtype t \<Longrightarrow> sig_loop whole (ret_desc ret) s =
    (if AS_BUF_SIZE \<le> length (ss_sizes s) + 1 then Inl TooManyArguments
     else Inr (take_arg (ret_words ret) (ret_terse ret) s))"
  using sig_loop_desc [of _ whole "[]" s]
  by (cases ret) (simp_all add: ret_desc_def ret_words_def ret_terse_def sig_step_simps, simp_all add: take_arg_def)

definition receiver :: "methodblock \<Rightarrow> int list" where
  "receiver m = (if acc (mb_access m) ACC_STATIC then [] else [1])"

subsection \<open>Properties\<close>


lemma parse_signature_spec:
  assumes "mb_signature m = method_desc args ret"
    and "\<forall>t \<in> set args \<union> set_option ret. wf_jtype t"
  shows "parse_signature m =
    (if AS_BUF_SIZE \<le> length (receiver m) + length args + 2 then Inl TooManyArguments
     else Inr \<lparr>ss_sizes = receiver m @ map words args @ [0, ret_words ret],
               ss_terse = map terse args @ [TERSE_SIG_ENDFUNC, ret_terse ret],
               ss_ret_sig = ret_desc ret\<rparr>)"
proof -
  let ?s = "\<lparr>ss_sizes = receiver m, ss_terse = [], ss_ret_sig = []\<rparr>"
  let ?rest = "CHR '')'' # ret_desc ret"
  have start: "parse_signature m = sig_loop (mb_signature m) (concat (map desc args) @ ?rest) ?s"
    using assms(1) by (simp add: parse_signature_def method_desc_def receiver_def)
  have r: "length (receiver m) < AS_BUF_SIZE"
    by (simp add: receiver_def)
  show ?thesis
  proof (cases "AS_BUF_SIZE \<le> length (receiver m) + length args")
    case True
    with start assms(2) r show ?thesis by (simp add: sig_loop_args_many)
  next
    case False
    with start assms(2) have "parse_signature m = sig_loop (mb_signature m) ?rest
        (?s\<lparr>ss_sizes := receiver m @ map words args, ss_terse := map terse args\<rparr>)"
      by (simp add: sig_loop_args)
    with False assms(2) show ?thesis
      by (simp add: sig_loop_close sig_loop_ret take_arg_def del: sig_loop.simps)
  qed
qed

text \<open>C3: For every well-formed method descriptor, the parser records one word count per argument
(the receiver first unless the method is static), the closing \<open>0\<close>, and the word count of the
result, the terse kinds in the same order and the return descriptor; but it ends the process
when the receiver, the arguments and the two closing cells are 256 or more, which methods with
254 or 255 arguments, legal in the JVM, reach.\<close>
theorem parse_signature_correct:
  assumes "mb_signature m = method_desc args ret"
    and "\<forall>t \<in> set args \<union> set_option ret. wf_jtype t"
  shows "parse_signature m =
    (if AS_BUF_SIZE \<le> length (receiver m) + length args + 2 then Inl TooManyArguments
     else Inr \<lparr>ss_sizes = receiver m @ map words args @ [0, ret_words ret],
               ss_terse = map terse args @ [TERSE_SIG_ENDFUNC, ret_terse ret],
               ss_ret_sig = ret_desc ret\<rparr>)"
  by (rule parse_signature_spec [OF assms])

theorem parse_signature_correct_witness:
  "parse_signature (undefined\<lparr>mb_signature := ''([[Ljava/lang/String;IJ)D'', mb_access := 0\<rparr>) =
     Inr \<lparr>ss_sizes = [1, 1, 1, 2, 0, 2], ss_terse = [1, 8, 2, 11, 3], ss_ret_sig = ''D''\<rparr>"
  using parse_signature_correct [of "undefined\<lparr>mb_signature := ''([[Ljava/lang/String;IJ)D'', mb_access := 0\<rparr>"
      "[TArray (TArray (TClass ''java/lang/String'')), TInt, TLong]" "Some TDouble"]
  by (simp add: method_desc_def ret_desc_def ret_words_def ret_terse_def receiver_def acc_def)

subsection \<open>The pool of contexts\<close>

definition ctx_of :: "vm \<Rightarrow> ptr \<Rightarrow> ptr" where
  \<comment> \<open>the context a method holds, \<open>NULL\<close> when it holds none\<close>
  "ctx_of v m = (if CompiledCodeInfo (methods v m) = NULL then NULL
                 else info_cc (infos v (CompiledCodeInfo (methods v m))))"

fun pool_list :: "(ptr \<Rightarrow> CompilerContext) \<Rightarrow> ptr \<Rightarrow> ptr list \<Rightarrow> bool" where
  \<comment> \<open>the contexts linked from \<open>p\<close> through \<open>next\<close>\<close>
  "pool_list c p [] \<longleftrightarrow> p = NULL"
| "pool_list c p (q # qs) \<longleftrightarrow> p = q \<and> p \<noteq> NULL \<and> pool_list c (cc_next (c p)) qs"

definition ctx_inv_for :: "(CompilerContext \<Rightarrow> bool) \<Rightarrow> vm \<Rightarrow> ptr list \<Rightarrow> bool" where
  \<comment> \<open>\<open>ps\<close>: the pooled contexts. A method's context is not pooled, names the method and is counted.
      Every context has the property \<open>P\<close>\<close>
  "ctx_inv_for P v ps \<longleftrightarrow>
     0 < next_addr v \<and> pool_list (contexts v) (cc_pool v) ps \<and> distinct ps \<and>
     (\<forall>p \<in> set ps. p < next_addr v \<and> P (contexts v p)) \<and>
     (\<forall>m. CompiledCodeInfo (methods v m) < next_addr v) \<and>
     (\<forall>m m'. CompiledCodeInfo (methods v m) = CompiledCodeInfo (methods v m') \<longrightarrow>
        CompiledCodeInfo (methods v m) \<noteq> NULL \<longrightarrow> m = m') \<and>
     (\<forall>m. ctx_of v m \<noteq> NULL \<longrightarrow> ctx_of v m < next_addr v \<and> ctx_of v m \<notin> set ps \<and>
        cc_mb (contexts v (ctx_of v m)) = m \<and> 1 \<le> ref_count (contexts v (ctx_of v m)) \<and>
        P (contexts v (ctx_of v m)))"

abbreviation ctx_inv :: "vm \<Rightarrow> ptr list \<Rightarrow> bool" where
  "ctx_inv \<equiv> ctx_inv_for cc_ok"

lemma pool_list_frame:
  "(\<And>p. p \<in> set ps \<Longrightarrow> cc_next (c' p) = cc_next (c p)) \<Longrightarrow> pool_list c' p ps = pool_list c p ps"
  by (induction ps arbitrary: p) auto

lemma ctx_inv_distinct:
  "ctx_inv_for P v ps \<Longrightarrow> ctx_of v m \<noteq> NULL \<Longrightarrow> ctx_of v m = ctx_of v m' \<Longrightarrow> m = m'"
  unfolding ctx_inv_for_def by metis

lemma bindE_cases: "bindE r f = Inr b \<Longrightarrow> (\<And>a. r = Inr a \<Longrightarrow> f a = Inr b \<Longrightarrow> P) \<Longrightarrow> P"
  by (auto simp: bindE_Inr)

lemma fill_info_cc: "fill_info E s zero_info = Inr nf \<Longrightarrow> info_cc nf = NULL"
  by (auto simp: fill_info_def zero_info_def split: if_splits)

lemma prepare_effect:
  assumes "prepareCompiledCodeInfo E m v = Inr (i, v')" "mb_clazz (methods v m) \<noteq> NULL"
    "CompiledCodeInfo (methods v m) = NULL"
  obtains s nf where "parse_signature (methods v m) = Inr s" "fill_info E s zero_info = Inr nf"
    "i = next_addr v" "info_cc nf = NULL"
    "v' = v\<lparr>next_addr := next_addr v + 1, infos := (infos v)(i := nf),
           methods := (methods v)(m := (methods v m)\<lparr>CompiledCodeInfo := i\<rparr>)\<rparr>"
proof -
  from assms obtain s nf where "parse_signature (methods v m) = Inr s" "fill_info E s zero_info = Inr nf"
    "i = next_addr v"
    "v' = v\<lparr>next_addr := next_addr v + 1, infos := (infos v)(i := nf),
           methods := (methods v)(m := (methods v m)\<lparr>CompiledCodeInfo := i\<rparr>)\<rparr>"
    by (auto simp: prepareCompiledCodeInfo_def Let_def bindE_Inr)
  with fill_info_cc that show ?thesis by blast
qed

lemma prepare_inv:
  assumes "ctx_inv_for P v ps" "prepareCompiledCodeInfo E m v = Inr (i, v')" "mb_clazz (methods v m) \<noteq> NULL"
    "CompiledCodeInfo (methods v m) = NULL"
  shows "ctx_inv_for P v' ps" "i \<noteq> NULL" "CompiledCodeInfo (methods v' m) = i" "info_cc (infos v' i) = NULL"
    "contexts v' = contexts v" "cc_pool v' = cc_pool v" "\<forall>m'. ctx_of v' m' = ctx_of v m'"
proof -
  from assms(2-4) obtain s nf where e: "i = next_addr v" "fill_info E s zero_info = Inr nf" "info_cc nf = NULL"
    "v' = v\<lparr>next_addr := next_addr v + 1, infos := (infos v)(i := nf),
           methods := (methods v)(m := (methods v m)\<lparr>CompiledCodeInfo := i\<rparr>)\<rparr>"
    by (rule prepare_effect)
  have pos: "0 < next_addr v" and lt: "CompiledCodeInfo (methods v m') < next_addr v" for m'
    using assms(1) by (auto simp: ctx_inv_for_def)
  have ne: "CompiledCodeInfo (methods v m') \<noteq> next_addr v" for m'
    using lt [of m'] by simp
  have ctx: "ctx_of v' m' = ctx_of v m'" for m'
    using assms(4) e ne pos by (auto simp: ctx_of_def)
  then show "\<forall>m'. ctx_of v' m' = ctx_of v m'" by simp
  show i: "i \<noteq> NULL" "CompiledCodeInfo (methods v' m) = i" "info_cc (infos v' i) = NULL"
    "contexts v' = contexts v" "cc_pool v' = cc_pool v"
    using e pos by simp_all
  have le: "next_addr v' = next_addr v + 1" using e by simp
  have cci: "CompiledCodeInfo (methods v' m') = (if m' = m then i else CompiledCodeInfo (methods v m'))" for m'
    using e by simp
  have inj: "m' = m''" if "CompiledCodeInfo (methods v' m') = CompiledCodeInfo (methods v' m'')"
    "CompiledCodeInfo (methods v' m') \<noteq> NULL" for m' m''
    using that ne [of m'] ne [of m''] assms(1) unfolding cci e(1) ctx_inv_for_def
    by (metis (no_types))
  have bound: "CompiledCodeInfo (methods v' m') < next_addr v + 1" for m'
    using lt [of m'] unfolding cci e(1) by simp
  have more: "p < next_addr v \<Longrightarrow> p < next_addr v + 1" for p by simp
  from assms(1) pos more inj bound show "ctx_inv_for P v' ps"
    unfolding ctx_inv_for_def ctx i le by (intro conjI) (blast | simp)+
qed

definition blocks_ok :: "CompilerContext \<Rightarrow> bool" where
  \<comment> \<open>the sizes in the context are those of its blocks\<close>
  "blocks_ok cc \<longleftrightarrow> length (pctable cc) = pctablesize cc \<and> 0 < pctablesize cc \<and>
     length (jptable cc) = jptablesize cc \<and> 0 < jptablesize cc \<and>
     length (buffer cc) = buf_size cc \<and> 0 < buf_size cc"

lemma cc_ok_blocks: "cc_ok cc \<Longrightarrow> blocks_ok cc"
  by (simp add: cc_ok_def blocks_ok_def)

lemma cc_ok_ref_count [simp]: "cc_ok (ref_count_update f cc) = cc_ok cc"
  by (simp add: cc_ok_def)

definition started :: "CompilerContext \<Rightarrow> ptr \<Rightarrow> bool" where
  \<comment> \<open>a context as the first compilation of a method finds it\<close>
  "started c m \<longleftrightarrow> cc_mb c = m \<and> ref_count c = 1 \<and> stage c = STAGE_START \<and> \<not> may_throw c \<and>
     \<not> may_jump c \<and> live c = [] \<and> jp_live c = [] \<and> buf_live c = [] \<and> ninsn c = 0 \<and> cc_ok c"

definition reset_cc :: "ptr \<Rightarrow> CompilerContext \<Rightarrow> CompilerContext" where
  "reset_cc mb c = pctableClear (c\<lparr>cc_mb := mb, ref_count := 0, stage := STAGE_START, may_throw := False,
      may_jump := False, bufp := 0\<rparr>)\<lparr>jptablelen := 0, cc_next := NULL\<rparr>"

definition fresh_for :: "(CompilerContext \<Rightarrow> bool) \<Rightarrow> CompilerContext \<Rightarrow> ptr \<Rightarrow> bool" where
  "fresh_for P c m \<longleftrightarrow> (\<exists>c0. (P c0 \<or> blocks_ok c0) \<and> c = (reset_cc m c0)\<lparr>ref_count := 1\<rparr>)"

definition reusable :: "(CompilerContext \<Rightarrow> bool) \<Rightarrow> bool" where
  \<comment> \<open>a property of contexts that the operations of the pool keep\<close>
  "reusable P \<longleftrightarrow> (\<forall>c m. fresh_for P c m \<longrightarrow> P c) \<and> (\<forall>c f p. P c \<longrightarrow> P (ref_count_update f c) \<and> P (c\<lparr>cc_next := p\<rparr>))"

lemma fresh_started: "fresh_for cc_ok c m \<Longrightarrow> started c m"
  using cc_ok_blocks
  by (auto simp: fresh_for_def reset_cc_def pctableClear_def started_def live_def jp_live_def buf_live_def
      cc_ok_def blocks_ok_def)

lemma reusable_cc_ok: "reusable cc_ok"
  using fresh_started by (auto simp: reusable_def started_def cc_ok_def)

lemma reusable_True: "reusable (\<lambda>_. True)"
  by (simp add: reusable_def)

lemma fresh_for_fields: "fresh_for P c m \<Longrightarrow> cc_mb c = m \<and> ref_count c = 1 \<and> stage c = STAGE_START"
  by (auto simp: fresh_for_def reset_cc_def pctableClear_def)

lemma claim_inv:
  assumes "ctx_inv_for P v ps" "c \<noteq> NULL" "c < next_addr v" "c \<notin> set ps" "\<forall>m'. ctx_of v m' \<noteq> c"
    "CompiledCodeInfo (methods v m) \<noteq> NULL" "P (contexts v c) \<or> blocks_ok (contexts v c)" "reusable P"
  defines "v' \<equiv> cc_upd c (ref_count_update (\<lambda>n. n + 1)) (resetCompilerContext c m v)"
  shows "ctx_inv_for P v' ps" "ctx_of v' = (ctx_of v)(m := c)" "fresh_for P (contexts v' c) m"
    "\<forall>c'. c' \<noteq> c \<longrightarrow> contexts v' c' = contexts v c'"
proof -
  have inj: "CompiledCodeInfo (methods v m') = CompiledCodeInfo (methods v m) \<longleftrightarrow> m' = m" for m'
    using assms(1,6) unfolding ctx_inv_for_def by metis
  have st: "fresh_for P (contexts v' c) m"
    using assms(7) by (auto simp: v'_def resetCompilerContext_def Let_def fresh_for_def reset_cc_def pctableClear_def)
  then show "fresh_for P (contexts v' c) m" .
  have Pc: "P (contexts v' c)" using st assms(8) by (auto simp: reusable_def)
  show ctx: "ctx_of v' = (ctx_of v)(m := c)"
    using assms(6) inj by (auto simp: v'_def resetCompilerContext_def Let_def ctx_of_def)
  show frame: "\<forall>c'. c' \<noteq> c \<longrightarrow> contexts v' c' = contexts v c'"
    by (simp add: v'_def resetCompilerContext_def Let_def)
  have same: "methods v' = methods v" "next_addr v' = next_addr v" "cc_pool v' = cc_pool v"
    by (simp_all add: v'_def resetCompilerContext_def Let_def)
  have "pool_list (contexts v') (cc_pool v) ps"
    using assms(1,4) frame by (subst pool_list_frame [of _ _ "contexts v"]) (auto simp: ctx_inv_for_def)
  moreover have "P (contexts v' p)" if "p \<in> set ps" for p
    using that assms(1,4) frame by (metis ctx_inv_for_def)
  moreover have "ctx_of v m' < next_addr v \<and> ctx_of v m' \<notin> set ps \<and> cc_mb (contexts v' (ctx_of v m')) = m' \<and>
      1 \<le> ref_count (contexts v' (ctx_of v m')) \<and> P (contexts v' (ctx_of v m'))"
    if "ctx_of v m' \<noteq> NULL" for m'
    using that assms(1,5) frame unfolding ctx_inv_for_def by metis
  moreover have "(((ctx_of v)(m := c)) m' \<noteq> NULL \<longrightarrow> ((ctx_of v)(m := c)) m' < next_addr v \<and>
      ((ctx_of v)(m := c)) m' \<notin> set ps \<and> cc_mb (contexts v' (((ctx_of v)(m := c)) m')) = m' \<and>
      1 \<le> ref_count (contexts v' (((ctx_of v)(m := c)) m')) \<and> P (contexts v' (((ctx_of v)(m := c)) m')))" for m'
    using fresh_for_fields [OF st] Pc assms(3,4) calculation(3) [of m'] by (cases "m' = m") simp_all
  ultimately show "ctx_inv_for P v' ps"
    using assms(1) unfolding ctx_inv_for_def ctx same by (intro conjI) blast+
qed

lemma get_claims:
  assumes "ctx_inv_for P v ps" "ctx_of v m = NULL" "CompiledCodeInfo (methods v m) \<noteq> NULL"
    "getCompilerContext E m v = Inr (c, v')" "reusable P"
  shows "\<exists>ps'. ctx_inv_for P v' ps' \<and> ctx_of v' = (ctx_of v)(m := c) \<and> c \<noteq> NULL \<and>
    (\<forall>m'. ctx_of v m' \<noteq> c) \<and> fresh_for P (contexts v' c) m \<and>
    (\<forall>c'. c' < next_addr v \<longrightarrow> c' \<noteq> c \<longrightarrow> contexts v' c' = contexts v c')"
proof (cases "cc_pool v = NULL")
  case True
  let ?c = "next_addr v" let ?f = "fresh_context E"
  let ?x = "?f\<lparr>buffer := map (fresh_byte ?f) [0..<DEFAULT_BUF_SIZE], buf_size := DEFAULT_BUF_SIZE,
      pctablesize := DEFAULT_PCTABLE_SIZE, pctable := map (fresh_pc ?f) [0..<DEFAULT_PCTABLE_SIZE],
      jptablesize := DEFAULT_JPTABLE_SIZE, jptable := map (fresh_jp ?f) [0..<DEFAULT_JPTABLE_SIZE]\<rparr>"
  let ?v = "v\<lparr>next_addr := ?c + 1, contexts := (contexts v)(?c := ?x)\<rparr>"
  have ctx: "ctx_of ?v = ctx_of v"
    by (auto simp: ctx_of_def)
  have ok: "P (contexts ?v ?c) \<or> blocks_ok (contexts ?v ?c)"
    by (simp add: blocks_ok_def)
  have pos: "0 < next_addr v" using assms(1) by (simp add: ctx_inv_for_def)
  have lt: "ctx_of v m' < next_addr v" for m'
    using assms(1) pos by (cases "ctx_of v m' = NULL") (auto simp: ctx_inv_for_def)
  have psl: "?c \<notin> set ps"
    using assms(1) by (auto simp: ctx_inv_for_def)
  have old: "contexts ?v p = contexts v p" if "p < next_addr v" for p
    using that by simp
  have pool: "pool_list (contexts ?v) (cc_pool v) ps"
    using assms(1) psl by (subst pool_list_frame [of _ _ "contexts v"]) (auto simp: ctx_inv_for_def)
  have inv: "ctx_inv_for P ?v ps"
    unfolding ctx_inv_for_def ctx
  proof (intro conjI allI ballI impI)
    fix p assume "p \<in> set ps"
    then have "p < next_addr v" "P (contexts v p)" using assms(1) by (auto simp: ctx_inv_for_def)
    then show "p < next_addr ?v" "P (contexts ?v p)" by simp_all
  next
    fix m' assume "ctx_of v m' \<noteq> NULL"
    moreover from old [OF lt] have "contexts ?v (ctx_of v m') = contexts v (ctx_of v m')" .
    moreover have "ctx_of v m' < next_addr ?v" using lt [of m'] by simp
    ultimately show "ctx_of v m' < next_addr ?v" "ctx_of v m' \<notin> set ps"
      "cc_mb (contexts ?v (ctx_of v m')) = m'" "1 \<le> ref_count (contexts ?v (ctx_of v m'))"
      "P (contexts ?v (ctx_of v m'))"
      using assms(1) unfolding ctx_inv_for_def by metis+
  next
    fix m'
    have "CompiledCodeInfo (methods v m') < next_addr v" using assms(1) by (simp add: ctx_inv_for_def)
    then show "CompiledCodeInfo (methods ?v m') < next_addr ?v" by simp
  qed (use assms(1) pool pos in \<open>auto simp: ctx_inv_for_def\<close>)
  have cv: "c = ?c" "v' = cc_upd ?c (ref_count_update (\<lambda>n. n + 1)) (resetCompilerContext ?c m ?v)"
    using assms(2-4) True by (auto simp: getCompilerContext_def ctx_of_def Let_def newCompilerContext_def)
  have "\<forall>m'. ctx_of ?v m' \<noteq> ?c" using lt ctx by (metis less_irrefl)
  from claim_inv [OF inv _ _ psl this _ ok assms(5), of m] pos assms(3) ctx lt show ?thesis
    unfolding cv by (force simp: less_le)
next
  case False
  then obtain q qs where ps: "ps = q # qs" "cc_pool v = q" "pool_list (contexts v) (cc_next (contexts v q)) qs"
    using assms(1) by (cases ps) (auto simp: ctx_inv_for_def)
  let ?v = "v\<lparr>cc_pool := cc_next (contexts v q)\<rparr>"
  have ctx: "ctx_of ?v = ctx_of v"
    by (auto simp: ctx_of_def)
  have q: "q \<noteq> NULL" "q < next_addr v" "q \<notin> set qs" "P (contexts v q)"
    using assms(1) False ps by (auto simp: ctx_inv_for_def)
  have free: "\<forall>m'. ctx_of v m' \<noteq> q"
    using assms(1) False ps unfolding ctx_inv_for_def by (metis list.set_intros(1))
  have inv: "ctx_inv_for P ?v qs"
    using assms(1) ps unfolding ctx_inv_for_def ctx by auto
  have cv: "c = q" "v' = cc_upd q (ref_count_update (\<lambda>n. n + 1)) (resetCompilerContext q m ?v)"
    using assms(2-4) False ps(2) by (auto simp: getCompilerContext_def ctx_of_def Let_def)
  have "P (contexts ?v q) \<or> blocks_ok (contexts ?v q)" using q by simp
  from claim_inv [OF inv q(1) _ q(3) _ _ this assms(5), of m] q free assms(3) ctx show ?thesis
    unfolding cv by auto
qed


lemma get_exclusive:
  assumes "ctx_inv_for P v ps" "mb_clazz (methods v m) \<noteq> NULL"
    and "getCompilerContext E m v = Inr (c, v')" "reusable P"
  shows "\<exists>ps'. ctx_inv_for P v' ps' \<and> c \<noteq> NULL \<and> c \<notin> set ps' \<and> ctx_of v' = (ctx_of v)(m := c) \<and>
    (\<forall>m'. m' \<noteq> m \<longrightarrow> ctx_of v m' \<noteq> c \<and>
       (ctx_of v m' \<noteq> NULL \<longrightarrow> contexts v' (ctx_of v m') = contexts v (ctx_of v m'))) \<and>
    (if ctx_of v m = NULL then fresh_for P (contexts v' c) m
     else c = ctx_of v m \<and> contexts v' c = (contexts v c)\<lparr>ref_count := ref_count (contexts v c) + 1\<rparr>)"
proof (cases "ctx_of v m = NULL")
  case False
  let ?c = "ctx_of v m"
  have cv: "c = ?c" "v' = cc_upd ?c (ref_count_update (\<lambda>n. n + 1)) v"
    using assms(3) False by (auto simp: getCompilerContext_def ctx_of_def Let_def split: if_splits)
  have ctx: "ctx_of v' = ctx_of v"
    by (auto simp: ctx_of_def cv)
  have pool: "pool_list (contexts v') (cc_pool v) ps"
    using assms(1) by (subst pool_list_frame [of _ _ "contexts v"]) (auto simp: ctx_inv_for_def cv)
  have same: "m = m'" if "ctx_of v m' = ?c" for m'
    using ctx_inv_distinct [OF assms(1) False] that by metis
  then have other: "ctx_of v m' \<noteq> ?c" if "m' \<noteq> m" for m'
    using that by metis
  have up: "P c \<Longrightarrow> P (ref_count_update f c)" for c f using assms(4) by (simp add: reusable_def)
  have "ctx_inv_for P v' ps"
    using assms(1) pool unfolding ctx_inv_for_def ctx by (auto simp: cv intro: up dest: same)
  with False cv ctx other assms(1) show ?thesis
    by (intro exI [of _ ps]) (auto simp: ctx_inv_for_def)
next
  case True
  obtain v1 where v1: "ctx_inv_for P v1 ps" "ctx_of v1 = ctx_of v" "CompiledCodeInfo (methods v1 m) \<noteq> NULL"
    "contexts v1 = contexts v" "next_addr v \<le> next_addr v1" "getCompilerContext E m v1 = Inr (c, v')"
  proof (cases "CompiledCodeInfo (methods v m) = NULL")
    case False
    with assms that [of v] show ?thesis by simp
  next
    case cin: True
    with assms(3) obtain i v1 where p: "prepareCompiledCodeInfo E m v = Inr (i, v1)"
      by (auto simp: getCompilerContext_def bindE_Inr)
    note pi = prepare_inv [OF assms(1) p assms(2) cin]
    have "next_addr v \<le> next_addr v1"
      by (rule prepare_effect [OF p assms(2) cin]) simp
    moreover have "getCompilerContext E m v1 = Inr (c, v')"
      using assms(3) p pi(2,3) cin by (simp add: getCompilerContext_def)
    ultimately show ?thesis
      using that [of v1] pi by auto
  qed
  from v1(2) True have "ctx_of v1 m = NULL" by simp
  from get_claims [OF v1(1) this v1(3,6) assms(4)] obtain ps' where
    g: "ctx_inv_for P v' ps'" "ctx_of v' = (ctx_of v)(m := c)" "c \<noteq> NULL" "\<forall>m'. ctx_of v m' \<noteq> c"
      "fresh_for P (contexts v' c) m" "\<forall>c'. c' < next_addr v1 \<longrightarrow> c' \<noteq> c \<longrightarrow> contexts v' c' = contexts v c'"
    using v1(2,4) by auto
  have lt: "ctx_of v m' < next_addr v1" if "ctx_of v m' \<noteq> NULL" for m'
    using assms(1) that v1(5) by (force simp: ctx_inv_for_def)
  have "c \<notin> set ps'"
    using g(1,2,3) unfolding ctx_inv_for_def by (metis fun_upd_same)
  moreover have "contexts v' (ctx_of v m') = contexts v (ctx_of v m')" if "ctx_of v m' \<noteq> NULL" for m'
    using g(4,6) lt [OF that] by metis
  ultimately show ?thesis
    using g(1-5) True by (intro exI [of _ ps']) simp
qed


lemma release_counts:
  assumes "ctx_inv_for P v ps" "ctx_of v m = c" "c \<noteq> NULL" "reusable P"
  shows "if 1 < ref_count (contexts v c)
    then ctx_inv_for P (releaseCompilerContext c v) ps \<and> ctx_of (releaseCompilerContext c v) = ctx_of v \<and>
      ref_count (contexts (releaseCompilerContext c v) c) = ref_count (contexts v c) - 1
    else ctx_inv_for P (releaseCompilerContext c v) (c # ps) \<and>
      ctx_of (releaseCompilerContext c v) = (ctx_of v)(m := NULL)"
proof -
  let ?v = "releaseCompilerContext c v"
  have c: "c < next_addr v" "c \<notin> set ps" "cc_mb (contexts v c) = m" "P (contexts v c)"
    using assms unfolding ctx_inv_for_def by metis+
  have i: "CompiledCodeInfo (methods v m) \<noteq> NULL"
    using assms(2,3) by (auto simp: ctx_of_def)
  have same: "m' = m" if "ctx_of v m' = c" for m'
    using ctx_inv_distinct [OF assms(1), of m' m] assms(2,3) that by simp
  have inj: "CompiledCodeInfo (methods v m') = CompiledCodeInfo (methods v m) \<longleftrightarrow> m' = m" for m'
    using assms(1) i unfolding ctx_inv_for_def by metis
  have old: "contexts ?v p = contexts v p" if "p \<noteq> c" for p
    using that by (simp add: releaseCompilerContext_def Let_def)
  have "pool_list (contexts ?v) (cc_pool v) ps = pool_list (contexts v) (cc_pool v) ps"
    by (rule pool_list_frame) (metis c(2) old)
  then have pool: "pool_list (contexts ?v) (cc_pool v) ps"
    using assms(1) by (simp add: ctx_inv_for_def)
  have okp: "p < next_addr v \<and> P (contexts ?v p)" if "p \<in> set ps" for p
    using that assms(1) c old [of p] unfolding ctx_inv_for_def by metis
  have ok: "P (contexts ?v c)"
    using c(4) assms(4) by (simp add: releaseCompilerContext_def Let_def reusable_def)
  have frame: "next_addr ?v = next_addr v" "methods ?v = methods v"
    by (simp_all add: releaseCompilerContext_def Let_def)
  have held: "ctx_of v m' < next_addr v \<and> ctx_of v m' \<notin> set ps \<and> cc_mb (contexts ?v (ctx_of v m')) = m' \<and>
     1 \<le> ref_count (contexts ?v (ctx_of v m')) \<and> P (contexts ?v (ctx_of v m'))"
    if "ctx_of v m' \<noteq> NULL" "ctx_of v m' \<noteq> c" for m'
    using that assms(1) old [OF that(2)] unfolding ctx_inv_for_def by metis
  show ?thesis
  proof (cases "1 < ref_count (contexts v c)")
    case True
    then have v: "?v = cc_upd c (ref_count_update (\<lambda>n. n - 1)) v"
      by (simp add: releaseCompilerContext_def Let_def)
    have ctx: "ctx_of ?v = ctx_of v" by (auto simp: v ctx_of_def)
    have rc: "ref_count (contexts ?v c) = ref_count (contexts v c) - 1" "cc_mb (contexts ?v c) = m"
      "cc_pool ?v = cc_pool v"
      using c by (simp_all add: v)
    have "ctx_of v m' < next_addr v \<and> ctx_of v m' \<notin> set ps \<and> cc_mb (contexts ?v (ctx_of v m')) = m' \<and>
     1 \<le> ref_count (contexts ?v (ctx_of v m')) \<and> P (contexts ?v (ctx_of v m'))"
      if "ctx_of v m' \<noteq> NULL" for m'
      using held [OF that] c rc ok True same [of m'] by (cases "ctx_of v m' = c") auto
    then have "ctx_inv_for P ?v ps"
      using assms(1) pool okp unfolding ctx_inv_for_def ctx frame rc(3) by (intro conjI) blast+
    with True ctx rc show ?thesis by simp
  next
    case False
    then have rc: "ref_count (contexts v c) - 1 \<le> 0" by simp
    have ctx: "ctx_of ?v = (ctx_of v)(m := NULL)"
      using rc c(3) i inj by (auto simp: releaseCompilerContext_def Let_def ctx_of_def)
    have p: "cc_pool ?v = c" "cc_next (contexts ?v c) = cc_pool v"
      using rc c(3) by (simp_all add: releaseCompilerContext_def Let_def)
    have other: "((ctx_of v)(m := NULL)) m' < next_addr v \<and> ((ctx_of v)(m := NULL)) m' \<notin> set (c # ps) \<and>
        cc_mb (contexts ?v (((ctx_of v)(m := NULL)) m')) = m' \<and>
        1 \<le> ref_count (contexts ?v (((ctx_of v)(m := NULL)) m')) \<and> P (contexts ?v (((ctx_of v)(m := NULL)) m'))"
      if "((ctx_of v)(m := NULL)) m' \<noteq> NULL" for m'
    proof -
      from that have m: "m' \<noteq> m" "((ctx_of v)(m := NULL)) m' = ctx_of v m'" by (auto split: if_splits)
      with same have ne: "ctx_of v m' \<noteq> c" by blast
      from that m have "ctx_of v m' \<noteq> NULL" by simp
      from held [OF this ne] ne show ?thesis unfolding m(2) by simp
    qed
    have "pool_list (contexts ?v) (cc_pool ?v) (c # ps)"
      using pool assms(3) by (simp add: p)
    moreover have "\<forall>p \<in> set (c # ps). p < next_addr v \<and> P (contexts ?v p)"
      using okp c(1) ok by simp
    moreover have "distinct (c # ps)"
      using assms(1) c(2) by (simp add: ctx_inv_for_def)
    ultimately have "ctx_inv_for P ?v (c # ps)"
      using assms(1) other unfolding ctx_inv_for_def ctx frame by (intro conjI) blast+
    with False ctx show ?thesis by simp
  qed
qed

text \<open>C1: Contexts are handed out exclusively. Whenever \<open>getCompilerContext\<close> returns, the context
belongs to the method, is not in the pool and is held by no other method. A method that holds
one gets the same again, counted once more and otherwise as it was; a method that holds none
gets one in its starting state, whatever the pooled context went through before, and no other
method's context changes. The discipline of the pool is kept.\<close>
theorem getCompilerContext_exclusive:
  assumes "ctx_inv v ps" "mb_clazz (methods v m) \<noteq> NULL"
    and "getCompilerContext E m v = Inr (c, v')"
  shows "\<exists>ps'. ctx_inv v' ps' \<and> c \<noteq> NULL \<and> c \<notin> set ps' \<and> ctx_of v' = (ctx_of v)(m := c) \<and>
    (\<forall>m'. m' \<noteq> m \<longrightarrow> ctx_of v m' \<noteq> c \<and>
       (ctx_of v m' \<noteq> NULL \<longrightarrow> contexts v' (ctx_of v m') = contexts v (ctx_of v m'))) \<and>
    (if ctx_of v m = NULL then started (contexts v' c) m
     else c = ctx_of v m \<and> contexts v' c = (contexts v c)\<lparr>ref_count := ref_count (contexts v c) + 1\<rparr>)"
  using get_exclusive [OF assms reusable_cc_ok] by (metis fresh_started)

definition sample_vm :: vm where
  \<comment> \<open>method 7 of class 3 is \<open>static int f(long)\<close>; nothing is compiled yet; for witnesses\<close>
  "sample_vm =
     \<lparr>methods = (\<lambda>_. \<lparr>mb_clazz = 3, mb_name = ''f'', mb_signature = ''(J)I'', mb_access = 8, mb_offset = 0,
        mb_has_code = True, mb_code = (\<lambda>_. 0), mb_code_length = 0, exception_table = [], args_size = 2,
        nlocals = 2, maxstack = 2, invoker = 0, CompiledCodeInfo = NULL, CompiledCode = NULL,
        compiled_bytes = []\<rparr>),
      classes = undefined, fieldblocks = undefined, infos = (\<lambda>_. zero_info), contexts = (\<lambda>_. fresh_cc),
      cc_pool = NULL, exc_class = NULL, next_addr = 100, options = 0, opt_inlining_maxlen = 100,
      opt_inlining_depth = 8, is_fpupc_double = False, compiledcode_min = 0, compiledcode_max = 0,
      db = [], db_page = [], db_pos = 0\<rparr>"

lemma sample_vm_inv: "ctx_inv sample_vm []"
  by (simp add: ctx_inv_for_def sample_vm_def ctx_of_def)

definition sample_env :: env where
  \<comment> \<open>for witnesses that do not depend on what the environment does\<close>
  "sample_env = undefined\<lparr>fresh_context := fresh_cc, fresh_throw := (\<lambda>_. new_te 0 0 0)\<rparr>"

lemma sample_get:
  "\<exists>v'. getCompilerContext sample_env 7 sample_vm = Inr (101, v') \<and> ctx_of sample_vm 7 = NULL"
proof -
  have "parse_signature (methods sample_vm 7) =
      Inr \<lparr>ss_sizes = [2, 0, 1], ss_terse = [2, 11, 8], ss_ret_sig = ''I''\<rparr>"
    by (simp add: sample_vm_def parse_signature_def acc_def sig_step_simps) (simp add: take_arg_def sig_step_simps)
  then show ?thesis
    by (simp add: getCompilerContext_def prepareCompiledCodeInfo_def Let_def fill_info_def ctx_of_def
      newCompilerContext_def) (simp add: sample_vm_def zero_info_def)
qed

theorem getCompilerContext_exclusive_witness:
  "\<exists>v' ps'. getCompilerContext sample_env 7 sample_vm = Inr (101, v') \<and> ctx_inv v' ps' \<and>
     started (contexts v' 101) 7"
proof -
  from sample_get obtain v' where g: "getCompilerContext sample_env 7 sample_vm = Inr (101, v')"
    "ctx_of sample_vm 7 = NULL" by blast
  have "mb_clazz (methods sample_vm 7) \<noteq> NULL" by (simp add: sample_vm_def)
  from getCompilerContext_exclusive [OF sample_vm_inv this g(1)] g show ?thesis by auto
qed

text \<open>C2: A context goes back to the pool exactly when its last holder releases it: an earlier
release only counts down, the last one takes it from its method and puts it in front of the
pool; no other method loses its context.\<close>
theorem releaseCompilerContext_counts:
  assumes "ctx_inv v ps" "ctx_of v m = c" "c \<noteq> NULL"
  shows "if 1 < ref_count (contexts v c)
    then ctx_inv (releaseCompilerContext c v) ps \<and> ctx_of (releaseCompilerContext c v) = ctx_of v \<and>
      ref_count (contexts (releaseCompilerContext c v) c) = ref_count (contexts v c) - 1
    else ctx_inv (releaseCompilerContext c v) (c # ps) \<and>
      ctx_of (releaseCompilerContext c v) = (ctx_of v)(m := NULL)"
  by (rule release_counts [OF assms reusable_cc_ok])

theorem releaseCompilerContext_counts_witness:
  "\<exists>v'. getCompilerContext sample_env 7 sample_vm = Inr (101, v') \<and>
     (\<exists>ps. ctx_inv (releaseCompilerContext 101 v') (101 # ps)) \<and> ctx_of (releaseCompilerContext 101 v') 7 = NULL"
proof -
  from sample_get obtain v' where g: "getCompilerContext sample_env 7 sample_vm = Inr (101, v')"
    "ctx_of sample_vm 7 = NULL" by blast
  have "mb_clazz (methods sample_vm 7) \<noteq> NULL" by (simp add: sample_vm_def)
  from get_exclusive [OF sample_vm_inv this g(1) reusable_cc_ok] g obtain ps where
    ps: "ctx_inv v' ps" "ctx_of v' 7 = 101" "ref_count (contexts v' 101) = 1"
    by (auto dest: fresh_for_fields)
  with g releaseCompilerContext_counts [OF ps(1,2)] show ?thesis by auto
qed

end
