(* ===== verification/Runtime.thy ===== *)
theory Runtime
  imports VM
begin

text \<open>
  The search for the exception handler that covers a program counter (\<open>searchCatchFrame\<close> of
  \<^verbatim>\<open>runtime.c\<close>). The runtime calls it with an exception pending; the compiler calls it while
  it generates the program counter table, to see whether a recursive call is inside a try
  block. A frame is named by its index in the exception table. The walk from the class of the
  exception to its superclasses ends for every class hierarchy without cycles; a cycle is the
  value \<open>None\<close>.
\<close>

partial_function (option) catch_walk ::
  "env \<Rightarrow> ptr \<Rightarrow> nat \<Rightarrow> string \<Rightarrow> ptr \<Rightarrow> ptr \<Rightarrow> vm \<Rightarrow> (vm \<times> bool) option" where
  \<comment> \<open>the loop over \<open>excClazz\<close>; also says whether the frame catches the exception\<close>
  "catch_walk E clz idx name catchClazz exc v =
     (if exc = NULL then Some (v, False)
      else if cb_name (classes v exc) = name \<and> cb_loader (classes v exc) = cb_loader (classes v clz)
      then Some (v, True)
      else if catchClazz = NULL then
        (let (v', ok) = (if cp_resolved (classes v clz) idx then (v, True)
                         else resolve E v clz idx {CONSTANT_Class});
             super = cb_superclass (classes v' exc);
             catchClazz' = cp_clazz (constant_pool (classes v' clz) idx)
         in if \<not> ok then catch_walk E clz idx name NULL super v'
            else if exc = catchClazz' then Some (v', True)
            else catch_walk E clz idx name catchClazz' super v')
      else if exc = catchClazz then Some (v, True)
      else catch_walk E clz idx name catchClazz (cb_superclass (classes v exc)) v)"

declare catch_walk.simps [code]

definition frame_covers :: "catchframe \<Rightarrow> int \<Rightarrow> bool" where
  "frame_covers cf pc \<longleftrightarrow> cf_start_pc cf \<le> pc \<and> pc < cf_end_pc cf"

fun search_frames ::
  "env \<Rightarrow> ptr \<Rightarrow> int \<Rightarrow> catchframe list \<Rightarrow> nat \<Rightarrow> vm \<Rightarrow> (vm \<times> nat option) option" where
  \<comment> \<open>the loop over the exception table from the frame \<open>i\<close> on\<close>
  "search_frames E clz pc [] i v = Some (v, None)"
| "search_frames E clz pc (cf # cfs) i v =
     (if frame_covers cf pc then
        (if exc_class v = NULL \<or> cf_catchType cf = 0 then Some (v, Some i)
         else (case catch_walk E clz (cf_catchType cf) (cp_class_name (classes v clz) (cf_catchType cf))
                      NULL (exc_class v) v of
                 None \<Rightarrow> None
               | Some (v', True) \<Rightarrow> Some (v', Some i)
               | Some (v', False) \<Rightarrow> search_frames E clz pc cfs (i + 1) v'))
      else search_frames E clz pc cfs (i + 1) v)"

definition searchCatchFrame :: "env \<Rightarrow> ptr \<Rightarrow> int \<Rightarrow> vm \<Rightarrow> (vm \<times> nat option) option" where
  "searchCatchFrame E mb pc v =
     (case search_frames E (mb_clazz (methods v mb)) pc (exception_table (methods v mb)) 0 v of
        None \<Rightarrow> None
      | Some (v', None) \<Rightarrow> Some (v', None)
      | Some (v', Some i) \<Rightarrow> Some (v'\<lparr>exc_class := NULL\<rparr>, Some i))"

subsection \<open>The search while nothing is pending\<close>

lemma search_frames_quiet:
  "exc_class v = NULL \<Longrightarrow>
   search_frames E clz pc cfs i v =
     Some (v, if \<exists>cf \<in> set cfs. frame_covers cf pc
              then Some (i + length (takeWhile (\<lambda>cf. \<not> frame_covers cf pc) cfs)) else None)"
  by (induction cfs arbitrary: i) auto

text \<open>
  What the compiler needs of the search: with no exception pending it changes nothing and
  finds a frame exactly when some frame covers the program counter.
\<close>

lemma searchCatchFrame_quiet:
  assumes "exc_class v = NULL"
  shows "searchCatchFrame E mb pc v =
    Some (v, let cfs = exception_table (methods v mb) in
      if \<exists>cf \<in> set cfs. frame_covers cf pc
      then Some (length (takeWhile (\<lambda>cf. \<not> frame_covers cf pc) cfs)) else None)"
  using assms by (simp add: searchCatchFrame_def search_frames_quiet Let_def)

subsection \<open>The classes an exception belongs to\<close>

inductive super_chain :: "vm \<Rightarrow> ptr \<Rightarrow> ptr list \<Rightarrow> bool" for v where
  \<comment> \<open>the classes from \<open>c\<close> up\<close>
  none: "super_chain v NULL []"
| step: "c \<noteq> NULL \<Longrightarrow> super_chain v (cb_superclass (classes v c)) cs \<Longrightarrow> super_chain v c (c # cs)"

definition catches :: "vm \<Rightarrow> ptr \<Rightarrow> catchframe \<Rightarrow> ptr list \<Rightarrow> bool" where
  \<comment> \<open>the frame accepts an exception whose classes are \<open>cs\<close>, its catch type being resolved\<close>
  "catches v clz cf cs \<longleftrightarrow> cf_catchType cf = 0 \<or>
     (\<exists>c \<in> set cs. c = cp_clazz (constant_pool (classes v clz) (cf_catchType cf)) \<or>
        cb_name (classes v c) = cp_class_name (classes v clz) (cf_catchType cf) \<and>
        cb_loader (classes v c) = cb_loader (classes v clz))"

lemma catch_walk_chain:
  assumes "super_chain v exc cs" "cp_resolved (classes v clz) idx"
    "cc = NULL \<or> cc = cp_clazz (constant_pool (classes v clz) idx)"
  shows "catch_walk E clz idx name cc exc v = Some (v, \<exists>c \<in> set cs.
      c = cp_clazz (constant_pool (classes v clz) idx) \<or>
      cb_name (classes v c) = name \<and> cb_loader (classes v c) = cb_loader (classes v clz))"
  using assms
proof (induction arbitrary: cc rule: super_chain.induct)
  case none
  then show ?case by (subst catch_walk.simps) simp
next
  case (step c cs)
  then show ?case
    by (subst catch_walk.simps) (auto simp: Let_def)
qed

lemma search_frames_pending:
  assumes "exc_class v \<noteq> NULL" "super_chain v (exc_class v) cs"
    and "\<forall>cf \<in> set cfs. cf_catchType cf \<noteq> 0 \<longrightarrow> cp_resolved (classes v clz) (cf_catchType cf)"
  shows "search_frames E clz pc cfs i v =
     Some (v, if \<exists>cf \<in> set cfs. frame_covers cf pc \<and> catches v clz cf cs
              then Some (i + length (takeWhile (\<lambda>cf. \<not> (frame_covers cf pc \<and> catches v clz cf cs)) cfs))
              else None)"
  using assms(3)
proof (induction cfs arbitrary: i)
  case Nil
  then show ?case by simp
next
  case (Cons cf cfs)
  then have IH: "search_frames E clz pc cfs (i + 1) v =
     Some (v, if \<exists>cf \<in> set cfs. frame_covers cf pc \<and> catches v clz cf cs
              then Some (i + 1 + length (takeWhile (\<lambda>cf. \<not> (frame_covers cf pc \<and> catches v clz cf cs)) cfs))
              else None)"
    by simp
  show ?case
  proof (cases "frame_covers cf pc \<and> cf_catchType cf \<noteq> 0")
    case True
    let ?r = "catches v clz cf cs"
    from True Cons.prems have "catch_walk E clz (cf_catchType cf)
        (cp_class_name (classes v clz) (cf_catchType cf)) NULL (exc_class v) v = Some (v, ?r)"
      using catch_walk_chain [OF assms(2), of clz "cf_catchType cf" NULL] by (simp add: catches_def)
    with True assms(1) IH show ?thesis by (cases ?r) simp_all
  next
    case False
    with IH show ?thesis by (auto simp: catches_def)
  qed
qed

subsection \<open>Properties\<close>


definition sample_exc_vm :: vm where
  \<comment> \<open>an exception of class 12, a subclass of 11; two frames, the second catches class 11\<close>
  "sample_exc_vm =
     \<lparr>methods = (\<lambda>_. \<lparr>mb_clazz = 3, mb_name = ''f'', mb_signature = ''()V'', mb_access = 8, mb_offset = 0,
        mb_has_code = True, mb_code = (\<lambda>_. 0), mb_code_length = 9,
        exception_table = [\<lparr>cf_start_pc = 4, cf_end_pc = 8, cf_handler_pc = 8, cf_compiled = 0, cf_catchType = 0, cf_state = 0\<rparr>,
          \<lparr>cf_start_pc = 0, cf_end_pc = 4, cf_handler_pc = 8, cf_compiled = 0, cf_catchType = 2, cf_state = 0\<rparr>],
        args_size = 2, nlocals = 2, maxstack = 2, invoker = 0, CompiledCodeInfo = NULL, CompiledCode = NULL,
        compiled_bytes = []\<rparr>),
      classes = (\<lambda>c. \<lparr>cb_name = ''C'', cb_access = 0, cb_superclass = (if c = 12 then 11 else 0), cb_loader = c,
        cb_protection_domain = 0, cb_initialized = True,
        constant_pool = (\<lambda>_. \<lparr>cp_i = 0, cp_mb = 0, cp_fb = 0, cp_clazz = 11\<rparr>), cp_resolved = (\<lambda>_. True),
        cp_tag = (\<lambda>_. CONSTANT_Class), cp_class_name = (\<lambda>_. ''C'')\<rparr>),
      fieldblocks = undefined, infos = undefined, contexts = undefined,
      cc_pool = NULL, exc_class = 12, next_addr = 100, options = 0, opt_inlining_maxlen = 100,
      opt_inlining_depth = 8, is_fpupc_double = False, compiledcode_min = 0, compiledcode_max = 0,
      db = [], db_page = [], db_pos = 0\<rparr>"


end
