(* ===== verification/GenPC.thy ===== *)
theory GenPC
  imports Runtime Tables
begin

text \<open>
  The first pass of the compiler (\<open>processAnOpcode\<close> of \<^verbatim>\<open>compile.c\<close>): the translation of one
  bytecode instruction, or of an internal instruction the caller asks for, to an entry of the
  program counter table. The switch of the C function is split by the groups of its cases.

  The context is passed next to the virtual machine, because resolution of the constant pool
  changes the machine and never the context that is being filled.
\<close>

subsection \<open>Resolution of a constant pool entry\<close>

datatype resolution =
    Resolved
  | Throws nat \<comment> \<open>failed with an exception that becomes the internal instruction\<close>
  | Failed \<comment> \<open>failed with another exception, which stays pending\<close>

definition resolve_cp ::
  "env \<Rightarrow> ptr \<Rightarrow> nat \<Rightarrow> nat set \<Rightarrow> (ptr \<times> nat) list \<Rightarrow> vm \<Rightarrow> vm \<times> resolution" where
  \<comment> \<open>\<open>if (!IS_RESOLVED) if (!ResolveClassConstantFromClass2(...))\<close> and the tests of the exception class\<close>
  "resolve_cp E clz index tags handlers v =
     (if cp_resolved (classes v clz) index then (v, Resolved)
      else
        (let (v', ok) = resolve E v clz index tags in
         if ok then (v', Resolved)
         else (case map_of handlers (exc_class v') of
                 Some opc \<Rightarrow> (v'\<lparr>exc_class := NULL\<rparr>, Throws opc)
               | None \<Rightarrow> (v', Failed))))"

subsection \<open>Cases of the switch that only choose the internal instruction and its operand\<close>

text \<open>A case gives the internal opcode and the operand; \<open>-1\<close> is the operand of most instructions.\<close>

definition local_index :: "(int \<Rightarrow> u8) \<Rightarrow> int \<Rightarrow> int" where
  "local_index code p =
     (if byte_at code p = opc_wide then GET_UINT16 code (p + 2) else int (byte_at code (p + 1)))"

definition xlat_const :: "(int \<Rightarrow> u8) \<Rightarrow> int \<Rightarrow> nat \<Rightarrow> (nat \<times> int) option" where
  "xlat_const code p c =
     (if c \<in> {opc_iconst_0, opc_aconst_null, opc_fconst_0} then Some (opc_iconst_0, -1)
      else if c \<in> {opc_lconst_0, opc_dconst_0} then Some (opc_lconst_0, -1)
      else if c = opc_bipush then Some (opc_bipush, sint (code (p + 1)))
      else if c = opc_sipush then Some (opc_bipush, GET_INT16 code (p + 1))
      else if c \<in> {opc_ldc, opc_ldc_quick} then Some (opc_bipush, int (byte_at code (p + 1)))
      else if c \<in> {opc_ldc_w, opc_ldc_w_quick} then Some (opc_bipush, GET_UINT16 code (p + 1))
      else if c \<in> {opc_ldc2_w, opc_ldc2_w_quick} then Some (opc_ldc2_w, GET_UINT16 code (p + 1))
      else None)"

definition xlat_load :: "(int \<Rightarrow> u8) \<Rightarrow> int \<Rightarrow> nat \<Rightarrow> (nat \<times> int) option" where
  "xlat_load code p c =
     (if c \<in> {opc_iload, opc_fload, opc_aload} then Some (opc_iload, local_index code p)
      else if c \<in> {opc_lload, opc_dload} then Some (opc_lload, local_index code p)
      else if c \<in> {opc_iload_0, opc_fload_0, opc_aload_0} then Some (opc_iload, 0)
      else if c \<in> {opc_iload_1, opc_fload_1, opc_aload_1} then Some (opc_iload, 1)
      else if c \<in> {opc_iload_2, opc_fload_2, opc_aload_2} then Some (opc_iload, 2)
      else if c \<in> {opc_iload_3, opc_fload_3, opc_aload_3} then Some (opc_iload, 3)
      else if c \<in> {opc_lload_0, opc_dload_0} then Some (opc_lload, 0)
      else if c \<in> {opc_lload_1, opc_dload_1} then Some (opc_lload, 1)
      else if c \<in> {opc_lload_2, opc_dload_2} then Some (opc_lload, 2)
      else if c \<in> {opc_lload_3, opc_dload_3} then Some (opc_lload, 3)
      else if c \<in> {opc_iaload, opc_faload, opc_aaload} then Some (opc_iaload, -1)
      else if c \<in> {opc_laload, opc_daload} then Some (opc_laload, -1)
      else None)"

definition xlat_store :: "(int \<Rightarrow> u8) \<Rightarrow> int \<Rightarrow> nat \<Rightarrow> (nat \<times> int) option" where
  "xlat_store code p c =
     (if c \<in> {opc_istore, opc_fstore, opc_astore} then Some (opc_istore, local_index code p)
      else if c \<in> {opc_lstore, opc_dstore} then Some (opc_lstore, local_index code p)
      else if c \<in> {opc_istore_0, opc_fstore_0, opc_astore_0} then Some (opc_istore, 0)
      else if c \<in> {opc_istore_1, opc_fstore_1, opc_astore_1} then Some (opc_istore, 1)
      else if c \<in> {opc_istore_2, opc_fstore_2, opc_astore_2} then Some (opc_istore, 2)
      else if c \<in> {opc_istore_3, opc_fstore_3, opc_astore_3} then Some (opc_istore, 3)
      else if c \<in> {opc_lstore_0, opc_dstore_0} then Some (opc_lstore, 0)
      else if c \<in> {opc_lstore_1, opc_dstore_1} then Some (opc_lstore, 1)
      else if c \<in> {opc_lstore_2, opc_dstore_2} then Some (opc_lstore, 2)
      else if c \<in> {opc_lstore_3, opc_dstore_3} then Some (opc_lstore, 3)
      else if c \<in> {opc_iastore, opc_fastore} then Some (opc_iastore, -1)
      else if c \<in> {opc_lastore, opc_dastore} then Some (opc_lastore, -1)
      else None)"

definition xlat_branch :: "(int \<Rightarrow> u8) \<Rightarrow> int \<Rightarrow> nat \<Rightarrow> (nat \<times> int) option" where
  \<comment> \<open>the operand of \<open>ret\<close> is the byte behind the opcode also under \<open>wide\<close>\<close>
  "xlat_branch code p c =
     (if c = opc_iinc then Some (opc_iinc, local_index code p)
      else if c \<in> {opc_if_icmpeq, opc_if_acmpeq} then Some (opc_if_icmpeq, -1)
      else if c \<in> {opc_if_icmpne, opc_if_acmpne} then Some (opc_if_icmpne, -1)
      else if c \<in> {opc_ifeq, opc_ifnull} then Some (opc_ifeq, -1)
      else if c \<in> {opc_ifne, opc_ifnonnull} then Some (opc_ifne, -1)
      else if c \<in> {opc_goto, opc_goto_w} then Some (opc_goto, -1)
      else if c \<in> {opc_jsr, opc_jsr_w} then Some (opc_jsr, -1)
      else if c = opc_ret then Some (opc_ret, int (byte_at code (p + 1)))
      else None)"

definition xlat_quick :: "(int \<Rightarrow> u8) \<Rightarrow> int \<Rightarrow> nat \<Rightarrow> (nat \<times> int) option" where
  "xlat_quick code p c =
     (if c = opc_getfield_quick then Some (opc_getfield, int (byte_at code (p + 1)))
      else if c = opc_putfield_quick then Some (opc_putfield, int (byte_at code (p + 1)))
      else if c = opc_getfield2_quick then Some (opc_getfield2, int (byte_at code (p + 1)))
      else if c = opc_putfield2_quick then Some (opc_putfield2, int (byte_at code (p + 1)))
      else if c \<in> {opc_getstatic_quick, opc_putstatic_quick, opc_getstatic2_quick, opc_putstatic2_quick}
      then Some (c, GET_UINT16 code (p + 1))
      else None)"

definition xlat_invoke :: "(int \<Rightarrow> u8) \<Rightarrow> int \<Rightarrow> nat \<Rightarrow> (nat \<times> int) option" where
  "xlat_invoke code p c =
     (if c \<in> {opc_inv_head, opc_invoke_core, opc_invoke_core_compiled, opc_invokevirtual,
              opc_invokevirtual_obj, opc_invokespecial, opc_inv_spe_varspace, opc_invokestatic_quick,
              opc_inv_stq_varspace, opc_invokestatic, opc_invokeinterface, opc_invokeignored_static,
              opc_invokeignored_static_quick, opc_invoke_recursive}
      then Some (c, GET_UINT16 code (p + 1)) else None)"

definition xlat_class :: "(int \<Rightarrow> u8) \<Rightarrow> int \<Rightarrow> nat \<Rightarrow> (nat \<times> int) option" where
  "xlat_class code p c =
     (if c = opc_newarray then Some (opc_newarray, int (byte_at code (p + 1)))
      else if c = opc_anewarray_quick then Some (opc_anewarray, GET_UINT16 code (p + 1))
      else if c \<in> {opc_multianewarray, opc_multianewarray_quick}
      then Some (opc_multianewarray, GET_UINT16 code (p + 1))
      else if c \<in> {opc_checkcast, opc_checkcast_quick} then Some (opc_checkcast, GET_UINT16 code (p + 1))
      else None)"

definition xlat_pure :: "(int \<Rightarrow> u8) \<Rightarrow> int \<Rightarrow> nat \<Rightarrow> (nat \<times> int) option" where
  "xlat_pure code p c =
     (case xlat_const code p c of Some r \<Rightarrow> Some r | None \<Rightarrow>
      case xlat_load code p c of Some r \<Rightarrow> Some r | None \<Rightarrow>
      case xlat_store code p c of Some r \<Rightarrow> Some r | None \<Rightarrow>
      case xlat_branch code p c of Some r \<Rightarrow> Some r | None \<Rightarrow>
      case xlat_quick code p c of Some r \<Rightarrow> Some r | None \<Rightarrow>
      case xlat_invoke code p c of Some r \<Rightarrow> Some r | None \<Rightarrow> xlat_class code p c)"

subsection \<open>Cases of the switch that resolve the constant pool\<close>

datatype xlat =
    Emit nat int int \<comment> \<open>\<open>code_opcode\<close>, \<open>operand\<close>, \<open>byteinc\<close> behind the switch\<close>
  | Leave int \<comment> \<open>\<open>return\<close> from within the switch\<close>

definition two_words :: "string \<Rightarrow> bool" where
  "two_words sig \<longleftrightarrow> take 1 sig = ''J'' \<or> take 1 sig = ''D''"

definition adjust_static ::
  "env \<Rightarrow> ptr \<Rightarrow> int \<Rightarrow> nat \<Rightarrow> nat \<Rightarrow> nat \<Rightarrow> nat \<Rightarrow> vm \<Rightarrow> vm \<times> xlat" where
  \<comment> \<open>\<open>ADJUST_ACCESS_STATIC\<close>: the four opcodes its token pasting makes are arguments\<close>
  "adjust_static E mb p vop vop2 vop_quick vop2_quick v =
     (let clz = mb_clazz (methods v mb);
          operand = GET_UINT16 (mb_code (methods v mb)) (p + 1);
          (v, r) = resolve_cp E clz (nat operand) {CONSTANT_Fieldref}
                     [(classJavaLangNoClassDefFoundError E, opc_throw_noclassdef),
                      (classJavaLangNoSuchFieldError E, opc_throw_nofield)] v
      in case r of
           Throws opc \<Rightarrow> (v, Emit opc operand 3)
         | Failed \<Rightarrow> (v, Leave (-1))
         | Resolved \<Rightarrow>
             (let fb = fieldblocks v (cp_fb (constant_pool (classes v clz) (nat operand)));
                  wide = two_words (fb_signature fb)
              in if OPT_SETQ OPT_CODEDB v \<or> \<not> cb_initialized (classes v (fb_clazz fb))
                 then (v, Emit (if wide then vop2 else vop) operand 0)
                 else (v, Emit (if wide then vop2_quick else vop_quick) operand 0)))"

definition adjust_field :: "env \<Rightarrow> ptr \<Rightarrow> int \<Rightarrow> nat \<Rightarrow> nat \<Rightarrow> vm \<Rightarrow> vm \<times> xlat" where
  \<comment> \<open>\<open>ADJUST_ACCESS_FIELD\<close>\<close>
  "adjust_field E mb p vop vop2 v =
     (let clz = mb_clazz (methods v mb);
          operand = GET_UINT16 (mb_code (methods v mb)) (p + 1);
          (v, r) = resolve_cp E clz (nat operand) {CONSTANT_Fieldref}
                     [(classJavaLangNoClassDefFoundError E, opc_throw_noclassdef),
                      (classJavaLangNoSuchFieldError E, opc_throw_nofield)] v
      in case r of
           Throws opc \<Rightarrow> (v, Emit opc operand 3)
         | Failed \<Rightarrow> (v, Leave (-1))
         | Resolved \<Rightarrow>
             (let fb = fieldblocks v (cp_fb (constant_pool (classes v clz) (nat operand)))
              in (v, Emit (if two_words (fb_signature fb) then vop2 else vop) operand 0)))"

definition xlat_new :: "env \<Rightarrow> ptr \<Rightarrow> int \<Rightarrow> nat \<Rightarrow> vm \<Rightarrow> vm \<times> xlat" where
  \<comment> \<open>\<open>new\<close>, \<open>new_quick\<close>, \<open>anewarray\<close>\<close>
  "xlat_new E mb p c v =
     (let clz = mb_clazz (methods v mb);
          operand = GET_UINT16 (mb_code (methods v mb)) (p + 1)
      in if c = opc_new_quick then (v, Emit c operand 0)
         else
           (let (v, r) = resolve_cp E clz (nat operand) {CONSTANT_Class}
                           [(classJavaLangNoClassDefFoundError E, opc_throw_noclassdef)] v
            in case r of
                 Throws opc \<Rightarrow> (v, Emit opc operand 3)
               | Failed \<Rightarrow> (v, Leave (-1))
               | Resolved \<Rightarrow>
                   if c = opc_new then
                     (let cb = cp_clazz (constant_pool (classes v clz) (nat operand));
                          access = cb_access (classes v cb)
                      in if acc access ACC_INTERFACE \<or> acc access ACC_ABSTRACT
                         then (v, Emit opc_throw_instantiation operand 3)
                         else if \<not> verify_class_access E v clz cb
                         then (v, Emit opc_throw_illegalaccess operand 3)
                         else (v, Emit c operand 0))
                   else (v, Emit c operand 0)))"

definition xlat_instanceof :: "env \<Rightarrow> ptr \<Rightarrow> int \<Rightarrow> vm \<Rightarrow> vm \<times> xlat" where
  \<comment> \<open>another exception than the tested one is left pending and the translation goes on\<close>
  "xlat_instanceof E mb p v =
     (let clz = mb_clazz (methods v mb);
          operand = GET_UINT16 (mb_code (methods v mb)) (p + 1);
          (v, r) = resolve_cp E clz (nat operand) {CONSTANT_Class}
                     [(classJavaLangNoClassDefFoundError E, opc_throw_noclassdef)] v
      in case r of
           Throws opc \<Rightarrow> (v, Emit opc operand 3)
         | _ \<Rightarrow>
             if cp_clazz (constant_pool (classes v clz) (nat operand)) = classJavaLangObject E
             then (v, Leave 3) else (v, Emit opc_instanceof operand 0))"

definition xlat_resolving :: "env \<Rightarrow> ptr \<Rightarrow> int \<Rightarrow> nat \<Rightarrow> vm \<Rightarrow> (vm \<times> xlat) option" where
  "xlat_resolving E mb p c v =
     (if c = opc_getstatic then
        Some (adjust_static E mb p opc_getstatic opc_getstatic2 opc_getstatic_quick opc_getstatic2_quick v)
      else if c = opc_putstatic then
        Some (adjust_static E mb p opc_putstatic opc_putstatic2 opc_putstatic_quick opc_putstatic2_quick v)
      else if c \<in> {opc_getfield, opc_getfield_quick_w} then
        Some (adjust_field E mb p opc_getfield opc_getfield2 v)
      else if c \<in> {opc_putfield, opc_putfield_quick_w} then
        Some (adjust_field E mb p opc_putfield opc_putfield2 v)
      else if c \<in> {opc_new, opc_new_quick, opc_anewarray} then Some (xlat_new E mb p c v)
      else if c \<in> {opc_instanceof, opc_instanceof_quick} then Some (xlat_instanceof E mb p v)
      else None)"

subsection \<open>The rest of \<open>processAnOpcode\<close>\<close>

definition tidy_epilogue :: "CompilerContext \<Rightarrow> CompilerContext" where
  \<comment> \<open>\<open>case opc_epilogue\<close>: a \<open>return\<close> in front of a final \<open>opc_end\<close> is dropped\<close>
  "tidy_epilogue cc =
     (let last = pctablelen cc - 1; e1 = pc_cell cc last in
      if opcode e1 = opc_end then
        (let e2 = pc_cell cc (last - 1) in
         if opcode e2 = opc_return then
           pctableDelete (pc_upd cc last (\<lambda>e. e\<lparr>increasing_byteoff := increasing_byteoff e2,
                                               byteoff := byteoff e2\<rparr>)) (last - 1)
         else cc)
      else cc)"

definition xlat_switch :: "env \<Rightarrow> ptr \<Rightarrow> int \<Rightarrow> nat \<Rightarrow> vm \<Rightarrow> fatal + (vm \<times> xlat)" where
  \<comment> \<open>the switch; \<open>wide\<close> translates the next byte again, and two of them do so for ever\<close>
  "xlat_switch E mb p c v =
     (let code = mb_code (methods v mb);
          once = (\<lambda>c. case xlat_pure code p c of
                    Some (opc, oper) \<Rightarrow> (v, Emit opc oper 0)
                  | None \<Rightarrow> (case xlat_resolving E mb p c v of
                               Some r \<Rightarrow> r
                             | None \<Rightarrow> (v, Emit c (-1) 0)))
      in if c = opc_wide then
           (if byte_at code (p + 1) = opc_wide then Inl EndlessLoop
            else Inr (once (byte_at code (p + 1))))
         else Inr (once c))"

definition is_get :: "nat \<Rightarrow> bool" where
  "is_get c \<longleftrightarrow> c \<in> {opc_getfield, opc_getfield2, opc_getstatic, opc_getstatic2,
                    opc_getstatic_quick, opc_getstatic2_quick}"

definition is_put :: "nat \<Rightarrow> bool" where
  "is_put c \<longleftrightarrow> c \<in> {opc_putfield, opc_putfield2, opc_putstatic, opc_putstatic2,
                    opc_putstatic_quick, opc_putstatic2_quick}"

definition check_access :: "env \<Rightarrow> ptr \<Rightarrow> nat \<Rightarrow> int \<Rightarrow> int \<Rightarrow> vm \<Rightarrow> nat \<times> int" where
  \<comment> \<open>\<open>code_opcode\<close> and \<open>byteinc\<close> behind the check of field access\<close>
  "check_access E mb c oper byteinc v =
     (if is_get c \<or> is_put c then
        (let fb = fieldblocks v (cp_fb (mb_cp v mb (nat oper)));
             src = mb_clazz (methods v mb)
         in if mb = NULL then (opc_throw_illegalaccess, 3)
            else if \<not> verify_field_access E v src (fb_clazz fb) (fb_access fb)
            then (opc_throw_illegalaccess, 3)
            else if is_put c \<and> acc (fb_access fb) ACC_FINAL \<and> src \<noteq> fb_clazz fb
            then (opc_throw_illegalaccess, 3)
            else (c, byteinc))
      else (c, byteinc))"

definition note_flags :: "env \<Rightarrow> nat \<Rightarrow> CompilerContext \<Rightarrow> CompilerContext" where
  "note_flags E c cc =
     (let opc_flag = ct_flag E c 0;
          cc = (if opc_flag AND 1 \<noteq> 0 then cc\<lparr>may_throw := True\<rparr> else cc)
      in if opc_flag AND 4 \<noteq> 0 then cc\<lparr>may_jump := True\<rparr> else cc)"

definition byte_increment :: "(int \<Rightarrow> u8) \<Rightarrow> int \<Rightarrow> nat \<Rightarrow> int \<Rightarrow> int" where
  \<comment> \<open>the last part; \<open>argp\<close> is the offset of the first aligned word behind the opcode\<close>
  "byte_increment code p c byteinc =
     (if byteinc = 0 \<and> c \<le> opc_nonnull_quick then
        (let argp = ALIGNUP32 (p + 1) in
         if c = opc_tableswitch then
           (let l = ntohl_at code (argp + 4); h = ntohl_at code (argp + 8)
            in argp + 4 * (3 + (h - l + 1)) - p)
         else if c = opc_lookupswitch then
           (let npairs = ntohl_at code (argp + 4) in argp + 4 * (2 + npairs * 2) - p)
         else if c = opc_wide then (if byte_at code (p + 1) = opc_iinc then 6 else 4)
         else int (opcode_length ! c))
      else byteinc)"

definition processAnOpcode ::
  "env \<Rightarrow> nat \<Rightarrow> int \<Rightarrow> vm \<times> CompilerContext \<Rightarrow> fatal + (int \<times> vm \<times> CompilerContext)" where
  "processAnOpcode E c p s =
     (let (v, cc) = s; mb = cc_mb cc in
      bindE (xlat_switch E mb p c v) (\<lambda>(v, x).
        case x of
          Leave r \<Rightarrow> Inr (r, v, cc)
        | Emit opc oper byteinc \<Rightarrow>
            (let cc = (if c = opc_epilogue then tidy_epilogue cc else cc);
                 (opc, byteinc) = check_access E mb opc oper byteinc v;
                 cc = note_flags E opc (pctableAdd cc opc oper p)
             in Inr (byte_increment (mb_code (methods v mb)) p c byteinc, v, cc))))"

end
