(* ===== verification/MakePC.thy ===== *)
theory MakePC
  imports GenPC Search CodeInfoCtx
begin

text \<open>
  The first pass of the compiler as a whole (\<open>makePCTable\<close> of \<^verbatim>\<open>compile.c\<close>): it walks over the
  bytecode of the method and appends the internal instructions of every bytecode instruction
  to the program counter table, between a prologue at offset \<open>-1\<close> and an epilogue at offset
  \<open>INT_MAX\<close>. The loop takes fuel, the number of instructions it may process;
  \<open>mb_code_length\<close> is enough for well-formed code, as the properties at the end show.
\<close>

type_synonym pass_state = "vm \<times> CompilerContext"

definition emit :: "env \<Rightarrow> int \<Rightarrow> nat \<Rightarrow> pass_state \<Rightarrow> fatal + pass_state" where
  \<comment> \<open>a call of \<open>processAnOpcode\<close> whose value is not used\<close>
  "emit E p c s = bindE (processAnOpcode E c p s) (\<lambda>(_, s). Inr s)"

fun emits :: "env \<Rightarrow> int \<Rightarrow> nat list \<Rightarrow> pass_state \<Rightarrow> fatal + pass_state" where
  "emits E p [] s = Inr s"
| "emits E p (c # cs) s = bindE (emit E p c s) (emits E p cs)"

subsection \<open>Prologue and epilogue\<close>

definition strict_fp :: "vm \<Rightarrow> ptr \<Rightarrow> bool" where
  "strict_fp v mb \<longleftrightarrow>
     acc (mb_access (methods v mb)) ACC_STRICT \<and> \<not> OPT_SETQ OPT_IGNSTRICTFP v \<or> OPT_SETQ OPT_FRCSTRICTFP v"

definition locks :: "vm \<Rightarrow> ptr \<Rightarrow> bool" where
  "locks v mb \<longleftrightarrow> acc (mb_access (methods v mb)) ACC_SYNCHRONIZED \<and> \<not> OPT_SETQ OPT_IGNLOCK v"

definition prologue :: "vm \<Rightarrow> ptr \<Rightarrow> nat list" where
  "prologue v mb =
     [opc_methodhead]
     @ (if strict_fp v mb
        then (if \<not> is_fpupc_double v then [opc_fppc_save, opc_fppc_double] else []) @ [opc_strict_enter]
        else [])
     @ (if locks v mb
        then [if acc (mb_access (methods v mb)) ACC_STATIC then opc_sync_static_enter else opc_sync_obj_enter]
        else [])
     @ [opc_start]"

definition epilogue :: "vm \<Rightarrow> ptr \<Rightarrow> nat list" where
  \<comment> \<open>behind \<open>opc_end\<close> and \<open>opc_exc_handler\<close>\<close>
  "epilogue v mb =
     [opc_epilogue]
     @ (if locks v mb
        then [if acc (mb_access (methods v mb)) ACC_STATIC then opc_sync_static_exit else opc_sync_obj_exit]
        else [])
     @ (if strict_fp v mb
        then (if \<not> is_fpupc_double v then [opc_fppc_restore] else []) @ [opc_strict_exit]
        else [])
     @ [opc_methodtail]"

subsection \<open>Instructions that are decomposed\<close>

definition decompose :: "bool \<Rightarrow> nat \<Rightarrow> (nat list \<times> nat list) option" where
  \<comment> \<open>the internal instructions in front of and behind an instruction; \<open>strict\<close> is \<open>strict_fp\<close>\<close>
  "decompose strict c =
     (if c \<in> {opc_iaload, opc_laload, opc_faload, opc_daload, opc_aaload, opc_baload, opc_caload, opc_saload}
      then Some ([opc_fill_cache, opc_array_check], [])
      else if c \<in> {opc_lstore, opc_dstore, opc_lstore_0, opc_dstore_0, opc_lstore_1, opc_dstore_1,
                   opc_lstore_2, opc_dstore_2, opc_lstore_3, opc_dstore_3}
      then Some ([opc_fill_cache], [])
      else if c \<in> {opc_iastore, opc_fastore, opc_aastore, opc_bastore, opc_castore, opc_sastore}
      then Some ([opc_iastore1, opc_fill_cache, opc_array_check], [])
      else if c \<in> {opc_lastore, opc_dastore} then Some ([opc_fill_cache], [])
      else if c \<in> {opc_fadd, opc_fsub}
      then Some ([opc_flush_cache, if c = opc_fadd then opc_fld else opc_fld4], [opc_fst])
      else if c \<in> {opc_fmul, opc_fdiv} then
        (let fld = (if c = opc_fmul then opc_fld else opc_fld4) in
         if strict then Some ([opc_flush_cache, opc_strict_fprep, fld, opc_strict_fscdown],
                              [opc_strict_fscup, opc_fst, opc_strict_fsettle])
         else Some ([opc_flush_cache, fld], [opc_fst]))
      else if c \<in> {opc_dadd, opc_dsub}
      then Some ([opc_flush_cache, if c = opc_dadd then opc_dld else opc_dld8], [opc_dst])
      else if c \<in> {opc_dmul, opc_ddiv} then
        (let dld = (if c = opc_dmul then opc_dld else opc_dld8) in
         if strict then Some ([opc_flush_cache, opc_strict_dprep, dld, opc_strict_dscdown],
                              [opc_strict_dscup, opc_dst, opc_strict_dsettle])
         else Some ([opc_flush_cache, dld], [opc_dst]))
      else if c \<in> {opc_i2f, opc_frem, opc_l2f} then Some ([opc_flush_cache], [opc_fst])
      else if c = opc_drem then Some ([opc_fill_cache], [opc_dst])
      else if c \<in> {opc_i2d, opc_l2d} then Some ([opc_flush_cache], [opc_dst])
      else if c = opc_f2d then Some ([opc_flush_cache, opc_fld], [opc_dst])
      else if c = opc_d2f then Some ([opc_flush_cache, opc_dld], [opc_fst])
      else None)"

definition xlat_return :: "nat \<Rightarrow> nat list option" where
  "xlat_return c =
     (if c \<in> {opc_ireturn, opc_freturn, opc_areturn} then Some [opc_stateto1, opc_return]
      else if c \<in> {opc_lreturn, opc_dreturn} then Some [opc_stateto4, opc_return]
      else None)"

subsection \<open>Invocations\<close>

definition norm_invoke :: "nat \<Rightarrow> nat option" where
  "norm_invoke c =
     (if c \<in> {opc_invokevirtual, opc_invokevirtual_quick_w} then Some opc_invokevirtual
      else if c \<in> {opc_invokespecial, opc_invokenonvirtual_quick, opc_invokesuper_quick}
      then Some opc_invokespecial
      else if c \<in> {opc_invokestatic, opc_invokestatic_quick} then Some opc_invokestatic
      else if c \<in> {opc_invokeinterface, opc_invokeinterface_quick} then Some opc_invokeinterface
      else None)"

definition outer_len :: "string \<Rightarrow> string \<Rightarrow> nat" where
  \<comment> \<open>the length of the name of the outer class when exactly one of the names has a dollar sign\<close>
  "outer_len s m =
     (if CHR ''$'' \<in> set s
      then (if CHR ''$'' \<notin> set m then length (takeWhile (\<lambda>c. c \<noteq> CHR ''$'') s) else 0)
      else (if CHR ''$'' \<in> set m then length (takeWhile (\<lambda>c. c \<noteq> CHR ''$'') m) else 0))"

definition invoke_legal :: "env \<Rightarrow> ptr \<Rightarrow> nat \<Rightarrow> vm \<Rightarrow> bool" where
  "invoke_legal E mb index v =
     (let callee = methods v (cp_mb (mb_cp v mb index));
          src = mb_clazz (methods v mb);
          cls = mb_clazz callee;
          len = outer_len (cb_name (classes v src)) (cb_name (classes v cls))
      in mb \<noteq> NULL \<and>
         (verify_field_access E v src cls (mb_access callee) \<or>
          len \<noteq> 0 \<and> cb_protection_domain (classes v src) = cb_protection_domain (classes v cls) \<and>
          cb_loader (classes v src) = cb_loader (classes v cls) \<and>
          take len (cb_name (classes v src)) = take len (cb_name (classes v cls))))"

definition devirtualised :: "vm \<Rightarrow> ptr \<Rightarrow> bool" where
  "devirtualised v callee \<longleftrightarrow>
     (let m = methods v callee in
      acc (mb_access m) ACC_PRIVATE \<or> acc (mb_access m) ACC_FINAL \<or>
      acc (cb_access (classes v (mb_clazz m))) ACC_FINAL)"

definition trivial_callee :: "vm \<Rightarrow> ptr \<Rightarrow> bool" where
  "trivial_callee v callee \<longleftrightarrow>
     (let m = methods v callee in
      \<not> (acc (mb_access m) ACC_NATIVE \<or> acc (mb_access m) ACC_ABSTRACT) \<and>
      byte_at (mb_code m) 0 = opc_return)"

definition to_null_check :: "vm \<Rightarrow> ptr \<Rightarrow> bool" where
  "to_null_check v callee \<longleftrightarrow>
     \<not> acc (mb_access (methods v callee)) ACC_STATIC \<and> mb_name (methods v callee) \<noteq> ''<init>''"

definition rewrite_ignored :: "ptr \<Rightarrow> int \<Rightarrow> ptr \<Rightarrow> vm \<Rightarrow> vm" where
  \<comment> \<open>rewrite bytecode instruction\<close>
  "rewrite_ignored mb p callee v =
     mb_upd mb (mb_code_update (\<lambda>code. code(p := of_nat opc_invokeignored_quick,
         p + 1 := of_nat (args_size (methods v callee)), p + 2 := of_bool (to_null_check v callee)))) v"

definition ignored_opcode :: "vm \<Rightarrow> ptr \<Rightarrow> nat" where
  "ignored_opcode v callee =
     (if to_null_check v callee then opc_invokeignored_quick
      else if cb_initialized (classes v (mb_clazz (methods v callee)))
      then opc_invokeignored_static_quick else opc_invokeignored_static)"

partial_function (option) skip_gotos :: "(int \<Rightarrow> u8) \<Rightarrow> int \<Rightarrow> int option" where
  "skip_gotos code p =
     (if byte_at code p = opc_goto then skip_gotos code (p + GET_INT16 code (p + 1))
      else if byte_at code p = opc_goto_w then skip_gotos code (p + GET_INT32 code (p + 1))
      else Some p)"

declare skip_gotos.simps [code]

definition tail_call :: "env \<Rightarrow> ptr \<Rightarrow> nat \<Rightarrow> int \<Rightarrow> int \<Rightarrow> vm \<Rightarrow> (vm \<times> nat option) option" where
  \<comment> \<open>the internal instruction of a recursive call in tail position; \<open>None\<close>: the code never returns\<close>
  "tail_call E mb index p byteinc v =
     (let callee = cp_mb (mb_cp v mb index); m = methods v callee; code = mb_code (methods v mb) in
      if mb = callee \<and> \<not> acc (mb_access m) ACC_SYNCHRONIZED then
        (case skip_gotos code (p + byteinc) of
           None \<Rightarrow> None
         | Some q \<Rightarrow>
             if opc_ireturn \<le> byte_at code q \<and> byte_at code q \<le> opc_return then
               (case searchCatchFrame E mb p v of
                  None \<Rightarrow> None
                | Some (v', Some cf) \<Rightarrow> Some (v', None)
                | Some (v', None) \<Rightarrow>
                    Some (v', Some (if args_size m = 1 then opc_invoke_recursive_1
                                    else if args_size m = 2 then opc_invoke_recursive_2
                                    else if args_size m = 3 then opc_invoke_recursive_3
                                    else opc_invoke_recursive)))
             else Some (v, None))
      else Some (v, None))"

definition math_inline :: "string \<Rightarrow> string \<Rightarrow> string \<Rightarrow> nat option" where
  \<comment> \<open>special inlining of static methods: class name, method name, signature\<close>
  "math_inline cname mname sig =
     (let math = map_of [(''sqrt'', opc_sqrt), (''sin'', opc_sin), (''cos'', opc_cos), (''tan'', opc_tan),
            (''atan2'', opc_atan2), (''atan'', opc_atan), (''log'', opc_log), (''floor'', opc_floor),
            (''ceil'', opc_ceil), (''exp'', opc_exp), (''asin'', opc_asin), (''acos'', opc_acos)];
          abs_of = map_of [(''(I)I'', opc_abs_int), (''(J)J'', opc_abs_long),
            (''(F)F'', opc_abs_float), (''(D)D'', opc_abs_double)]
      in if cname = ''java/lang/Math'' \<and> math mname \<noteq> None then math mname
         else if (cname = ''java/lang/Math'' \<or> cname = ''java/lang/StrictMath'') \<and> mname = ''abs''
         then abs_of sig else None)"

definition invoke_list :: "vm \<Rightarrow> ptr \<Rightarrow> nat \<Rightarrow> nat list" where
  \<comment> \<open>the internal instructions of a call of \<open>callee\<close>, by the kind of the invocation\<close>
  "invoke_list v callee opc =
     (let m = methods v callee; cls = classes v (mb_clazz m) in
      if opc = opc_invokevirtual then
        [opc_stateto0, opc_inv_head, opc_inv_vir_obj,
         if cb_name cls = ''java/lang/Object'' then opc_invokevirtual else opc_invokevirtual_obj,
         opc_inv_vir_varspace, opc_invoke_core]
      else if opc = opc_invokespecial then
        (if cb_name cls = ''java/io/BufferedInputStream'' \<and> mb_name m = ''ensureOpen''
         then [opc_java_io_bufferedinputstream_ensureopen]
         else [opc_stateto0, opc_inv_head, opc_inv_spe_obj, opc_invokespecial, opc_inv_spe_varspace,
               opc_invoke_core])
      else if opc = opc_invokestatic then
        (case math_inline (cb_name cls) (mb_name m) (mb_signature m) of
           Some c \<Rightarrow> [c]
         | None \<Rightarrow> [opc_stateto0, opc_inv_head, opc_inv_stq_obj,
                    if \<not> cb_initialized cls then opc_invokestatic else opc_invokestatic_quick,
                    opc_inv_stq_varspace, opc_invoke_core])
      else [opc_stateto0, opc_inv_head, opc_inv_spe_obj, opc_invokeinterface, opc_inv_vir_varspace,
            opc_invoke_core])"

definition makePC_invoke ::
  "env \<Rightarrow> nat \<Rightarrow> int \<Rightarrow> pass_state \<Rightarrow> fatal + (bool \<times> int \<times> pass_state)" where
  \<comment> \<open>gives whether an exception occurred, and the next offset\<close>
  "makePC_invoke E opc p s =
     (let (v, cc) = s; mb = cc_mb cc;
          index = nat (GET_UINT16 (mb_code (methods v mb)) (p + 1));
          byteinc = int (opcode_length ! opc);
          finish = (\<lambda>r. bindE r (\<lambda>s. Inr (False, p + byteinc, s)));
          (v, res) = resolve_cp E (mb_clazz (methods v mb)) index
            {CONSTANT_Methodref, CONSTANT_InterfaceMethodref}
            [(classJavaLangNoClassDefFoundError E, opc_throw_noclassdef),
             (classJavaLangNoSuchMethodError E, opc_throw_nomethod)] v
      in case res of
           Throws c \<Rightarrow> finish (emit E p c (v, cc))
         | Failed \<Rightarrow> Inr (True, p, (v, cc))
         | Resolved \<Rightarrow>
             if \<not> invoke_legal E mb index v then finish (emit E p opc_throw_illegalaccess (v, cc))
             else
               (let callee = cp_mb (mb_cp v mb index);
                    opc = (if opc = opc_invokevirtual \<and> devirtualised v callee then opc_invokespecial else opc)
                in if opc \<in> {opc_invokespecial, opc_invokestatic} then
                     (if trivial_callee v callee then
                        finish (bindE (emit E p (ignored_opcode v callee) (v, cc))
                                  (\<lambda>(v, cc). Inr (rewrite_ignored mb p callee v, cc)))
                      else
                        (case tail_call E mb index p byteinc v of
                           None \<Rightarrow> Inl EndlessLoop
                         | Some (v, Some c) \<Rightarrow> finish (emits E p [opc_stateto0, c] (v, cc))
                         | Some (v, None) \<Rightarrow> finish (emits E p (invoke_list v callee opc) (v, cc))))
                   else finish (emits E p (invoke_list v callee opc) (v, cc))))"

subsection \<open>The pass\<close>

definition makePC_step :: "env \<Rightarrow> int \<Rightarrow> pass_state \<Rightarrow> fatal + (bool \<times> int \<times> pass_state)" where
  \<comment> \<open>one round of \<open>while (byteoff < endoff)\<close>\<close>
  "makePC_step E p s =
     (let (v, cc) = s; mb = cc_mb cc;
          cc = cc\<lparr>ninsn := ninsn cc + 1\<rparr>;
          c = byte_at (mb_code (methods v mb)) p
      in case decompose (strict_fp v mb) c of
           Some (pre, post) \<Rightarrow>
             bindE (emits E p pre (v, cc)) (\<lambda>s.
             bindE (processAnOpcode E c p s) (\<lambda>(byteinc, s).
             bindE (emits E p post s) (\<lambda>s. Inr (False, p + byteinc, s))))
         | None \<Rightarrow>
         case xlat_return c of
           Some cs \<Rightarrow> bindE (emits E p cs (v, cc)) (\<lambda>s. Inr (False, p + 1, s))
         | None \<Rightarrow>
         case norm_invoke c of
           Some opc \<Rightarrow> makePC_invoke E opc p (v, cc)
         | None \<Rightarrow>
             if c \<in> {opc_invokevirtualobject_quick, opc_invokevirtual_quick} then Inl (LossyQuickOpcode c)
             else if c \<in> {opc_monitorenter, opc_monitorexit} \<and> OPT_SETQ OPT_IGNLOCK v
             then Inr (False, p, (v, cc))
             else bindE (processAnOpcode E c p (v, cc)) (\<lambda>(byteinc, s).
                    if byteinc < 0 then Inr (True, p, s) else Inr (False, p + byteinc, s)))"

fun makePC_loop :: "env \<Rightarrow> nat \<Rightarrow> int \<Rightarrow> pass_state \<Rightarrow> fatal + (bool \<times> pass_state)" where
  "makePC_loop E n p (v, cc) =
     (if mb_code_length (methods v (cc_mb cc)) \<le> p then Inr (False, (v, cc))
      else (case n of
              0 \<Rightarrow> Inl OutOfFuel
            | Suc m \<Rightarrow> bindE (makePC_step E p (v, cc)) (\<lambda>(exc, p, s).
                        if exc then Inr (True, s) else makePC_loop E m p s)))"

definition makePC_tail :: "env \<Rightarrow> pass_state \<Rightarrow> fatal + pass_state" where
  "makePC_tail E s =
     bindE (emit E INT_MAX opc_end s) (\<lambda>(v, cc).
     bindE (if exception_table (methods v (cc_mb cc)) \<noteq> [] \<or> may_throw cc
            then emit E INT_MAX opc_exc_handler (v, cc) else Inr (v, cc)) (\<lambda>(v, cc).
       emits E INT_MAX (epilogue v (cc_mb cc)) (v, cc)))"

definition makePCTable :: "env \<Rightarrow> nat \<Rightarrow> pass_state \<Rightarrow> fatal + (bool \<times> pass_state)" where
  \<comment> \<open>also says whether an exception occurred\<close>
  "makePCTable E fuel s =
     bindE (emits E (-1) (prologue (fst s) (cc_mb (snd s))) s) (\<lambda>s.
     bindE (makePC_loop E fuel 0 s) (\<lambda>(exc, s).
       if exc then Inr (True, s) else bindE (makePC_tail E s) (\<lambda>s. Inr (False, s))))"


subsection \<open>What one call of \<open>processAnOpcode\<close> does\<close>

definition offs :: "CompilerContext \<Rightarrow> int list" where
  \<comment> \<open>the keys of the binary search\<close>
  "offs cc = map increasing_byteoff (live cc)"

definition extends :: "int \<Rightarrow> CompilerContext \<Rightarrow> CompilerContext \<Rightarrow> bool" where
  \<comment> \<open>some entries at byte offset \<open>p\<close> were appended\<close>
  "extends p cc cc' \<longleftrightarrow> cc_ok cc' \<and> cc_mb cc' = cc_mb cc \<and> (\<exists>k. offs cc' = offs cc @ replicate k p)"

lemma extends_refl: "cc_ok cc \<Longrightarrow> extends p cc cc"
  by (auto simp: extends_def intro: exI [of _ 0])

lemma extends_trans: "extends p cc cc' \<Longrightarrow> extends p cc' cc'' \<Longrightarrow> extends p cc cc''"
  by (auto simp: extends_def simp flip: replicate_add)

lemma offs_views: "offs cc = map (\<lambda>v. fst (snd (snd (snd v)))) (views cc)"
  by (simp add: offs_def pcview_def)

lemma pctableAdd_extends: "cc_ok cc \<Longrightarrow> extends p cc (pctableAdd cc c oper p)"
proof -
  assume ok: "cc_ok cc"
  have "offs (pctableAdd cc c oper p) = offs cc @ replicate 1 p"
    using ok by (simp add: offs_views table_simps new_view_def)
  moreover have "cc_mb (pctableAdd cc c oper p) = cc_mb cc"
    by (simp add: pctableAdd_def pctableGrow_def Let_def)
  ultimately show ?thesis
    using ok by (auto simp: extends_def wf_intros simp del: replicate.simps)
qed

lemma note_flags_frame [simp]:
  "cc_ok (note_flags E c cc) = cc_ok cc" "live (note_flags E c cc) = live cc"
  "cc_mb (note_flags E c cc) = cc_mb cc" "pctablelen (note_flags E c cc) = pctablelen cc"
  by (simp_all add: note_flags_def Let_def cc_ok_def live_def)

lemma note_flags_extends [simp]: "extends p cc (note_flags E c cc') = extends p cc cc'"
  by (simp add: extends_def offs_def)

lemma processAnOpcode_effect:
  assumes "processAnOpcode E c p (v, cc) = Inr (r, v', cc')"
  obtains (leave) "xlat_switch E (cc_mb cc) p c v = Inr (v', Leave r)" "cc' = cc"
  | (emit) opc oper i opc' i' where "xlat_switch E (cc_mb cc) p c v = Inr (v', Emit opc oper i)"
      "check_access E (cc_mb cc) opc oper i v' = (opc', i')"
      "cc' = note_flags E opc' (pctableAdd (if c = opc_epilogue then tidy_epilogue cc else cc) opc' oper p)"
      "r = byte_increment (mb_code (methods v' (cc_mb cc))) p c i'"
proof -
  from assms obtain v1 x where x: "xlat_switch E (cc_mb cc) p c v = Inr (v1, x)"
    by (auto simp: processAnOpcode_def bindE_Inr Let_def)
  show ?thesis
  proof (cases x)
    case (Emit opc oper i)
    obtain opc' i' where a: "check_access E (cc_mb cc) opc oper i v1 = (opc', i')"
      by (metis surj_pair)
    from assms x Emit a show ?thesis
      by (intro emit [of opc oper i opc' i']) (auto simp: processAnOpcode_def Let_def)
  next
    case (Leave i)
    with assms x show ?thesis by (intro leave) (auto simp: processAnOpcode_def)
  qed
qed

lemma processAnOpcode_extends:
  assumes "processAnOpcode E c p (v, cc) = Inr (r, v', cc')" "cc_ok cc" "c \<noteq> opc_epilogue"
  shows "extends p cc cc'"
  using assms(1)
  by (cases rule: processAnOpcode_effect) (use assms(2,3) in \<open>simp_all add: extends_refl pctableAdd_extends\<close>)

lemma emit_extends:
  "emit E p c (v, cc) = Inr (v', cc') \<Longrightarrow> cc_ok cc \<Longrightarrow> c \<noteq> opc_epilogue \<Longrightarrow> extends p cc cc'"
  by (auto simp: emit_def bindE_Inr dest: processAnOpcode_extends)

lemma emits_extends:
  "emits E p cs (v, cc) = Inr (v', cc') \<Longrightarrow> cc_ok cc \<Longrightarrow> opc_epilogue \<notin> set cs \<Longrightarrow> extends p cc cc'"
proof (induction cs arbitrary: v cc)
  case Nil
  then show ?case by (simp add: extends_refl)
next
  case (Cons c cs)
  then obtain v1 cc1 where s: "emit E p c (v, cc) = Inr (v1, cc1)" "emits E p cs (v1, cc1) = Inr (v', cc')"
    by (auto simp: bindE_Inr)
  from emit_extends [OF s(1)] Cons.prems have 1: "extends p cc cc1" by simp
  then have "cc_ok cc1" by (simp add: extends_def)
  with Cons.IH [OF s(2)] Cons.prems have "extends p cc1 cc'" by simp
  with 1 show ?case by (rule extends_trans)
qed

lemma extends_ok: "extends p cc cc' \<Longrightarrow> cc_ok cc'"
  by (simp add: extends_def)

lemma proc_emits_extends:
  assumes "processAnOpcode E c p (v, cc) = Inr (r, v1, cc1)" "emits E p cs (v1, cc1) = Inr (v', cc')"
    "cc_ok cc" "c \<noteq> opc_epilogue" "opc_epilogue \<notin> set cs"
  shows "extends p cc cc'"
proof -
  from assms have 1: "extends p cc cc1" by (simp add: processAnOpcode_extends)
  then have "cc_ok cc1" by (simp add: extends_def)
  with assms have "extends p cc1 cc'" by (simp add: emits_extends)
  with 1 show ?thesis by (rule extends_trans)
qed

lemma decompose_no_epilogue: "decompose b c = Some (pre, post) \<Longrightarrow> opc_epilogue \<notin> set pre \<union> set post"
  by (simp add: decompose_def Let_def split: if_splits) auto

lemma xlat_return_no_epilogue: "xlat_return c = Some cs \<Longrightarrow> opc_epilogue \<notin> set cs"
  by (auto simp: xlat_return_def split: if_splits)

lemma invoke_list_no_epilogue: "opc_epilogue \<notin> set (invoke_list v callee opc)"
proof -
  have "math_inline a b d = Some c \<Longrightarrow> c \<noteq> opc_epilogue" for a b c d
    by (auto simp: math_inline_def Let_def split: if_splits)
  then show ?thesis
    by (auto simp: invoke_list_def Let_def split: option.splits)
qed


lemma math_inline_no_epilogue: "math_inline a b d = Some c \<Longrightarrow> c \<noteq> opc_epilogue"
  by (auto simp: math_inline_def Let_def split: if_splits)

lemma ignored_no_epilogue: "ignored_opcode v callee \<noteq> opc_epilogue"
  by (simp add: ignored_opcode_def)

lemma tail_call_no_epilogue: "tail_call E mb i p n v = Some (v', Some c) \<Longrightarrow> c \<noteq> opc_epilogue"
  by (auto simp: tail_call_def Let_def split: if_splits option.splits)

text \<open>What an invocation comes to, \<open>v1\<close> being the machine behind resolution and handler search.\<close>

lemma makePC_invoke_cases:
  assumes "makePC_invoke E opc p (v, cc) = Inr (exc, p', s')"
  obtains (failed) v1 res where "resolve_cp E (mb_clazz (methods v (cc_mb cc)))
        (nat (GET_UINT16 (mb_code (methods v (cc_mb cc))) (p + 1)))
        {CONSTANT_Methodref, CONSTANT_InterfaceMethodref}
        [(classJavaLangNoClassDefFoundError E, opc_throw_noclassdef),
         (classJavaLangNoSuchMethodError E, opc_throw_nomethod)] v = (v1, res)" "exc" "p' = p" "s' = (v1, cc)"
  | (listed) v1 res v2 cs v3 cc3 callee where "resolve_cp E (mb_clazz (methods v (cc_mb cc)))
        (nat (GET_UINT16 (mb_code (methods v (cc_mb cc))) (p + 1)))
        {CONSTANT_Methodref, CONSTANT_InterfaceMethodref}
        [(classJavaLangNoClassDefFoundError E, opc_throw_noclassdef),
         (classJavaLangNoSuchMethodError E, opc_throw_nomethod)] v = (v1, res)"
      "v2 = v1 \<or> (\<exists>cf. searchCatchFrame E (cc_mb cc) p v1 = Some (v2, cf))"
      "emits E p cs (v2, cc) = Inr (v3, cc3)" "opc_epilogue \<notin> set cs"
      "\<not> exc" "p' = p + int (opcode_length ! opc)"
      "s' = (v3, cc3) \<or> s' = (rewrite_ignored (cc_mb cc) p callee v3, cc3) \<and>
         opc \<in> {opc_invokevirtual, opc_invokespecial, opc_invokestatic}"
proof -
  let ?mb = "cc_mb cc"
  let ?i = "nat (GET_UINT16 (mb_code (methods v ?mb)) (p + 1))"
  let ?p = "p + int (opcode_length ! opc)"
  obtain v1 res where r: "resolve_cp E (mb_clazz (methods v ?mb)) ?i
        {CONSTANT_Methodref, CONSTANT_InterfaceMethodref}
        [(classJavaLangNoClassDefFoundError E, opc_throw_noclassdef),
         (classJavaLangNoSuchMethodError E, opc_throw_nomethod)] v = (v1, res)"
    by (metis surj_pair)
  have one: "emits E p [c] s = emit E p c s" for c s
    by (cases "emit E p c s") simp_all
  note inv = assms [unfolded makePC_invoke_def Let_def case_prod_conv r]
  let ?callee = "cp_mb (mb_cp v1 ?mb ?i)"
  let ?opc = "if opc = opc_invokevirtual \<and> devirtualised v1 ?callee then opc_invokespecial else opc"
  consider "res = Failed" | c where "res = Throws c" | "res = Resolved" "\<not> invoke_legal E ?mb ?i v1"
    | "res = Resolved" "invoke_legal E ?mb ?i v1"
    by (cases res) auto
  then show ?thesis
  proof cases
    case 1
    with inv r show ?thesis by (intro failed) auto
  next
    case (2 c)
    with r have "c \<in> {opc_throw_noclassdef, opc_throw_nomethod}"
      by (auto simp: resolve_cp_def Let_def split: if_splits prod.splits option.splits)
    moreover from inv 2 obtain s where "emit E p c (v1, cc) = Inr s" "\<not> exc" "p' = ?p" "s' = s"
      by (auto simp: bindE_Inr)
    ultimately show ?thesis
      using r by (intro listed [of v1 res v1 "[c]" "fst s" "snd s"]) (auto simp: one simp del: emits.simps)
  next
    case 3
    with inv obtain s where "emit E p opc_throw_illegalaccess (v1, cc) = Inr s" "\<not> exc" "p' = ?p" "s' = s"
      by (auto simp: bindE_Inr)
    then show ?thesis
      using r by (intro listed [of v1 res v1 "[opc_throw_illegalaccess]" "fst s" "snd s"])
        (auto simp: one simp del: emits.simps)
  next
    case 4
    consider (triv) "?opc \<in> {opc_invokespecial, opc_invokestatic}" "trivial_callee v1 ?callee"
      | (tail) "?opc \<in> {opc_invokespecial, opc_invokestatic}" "\<not> trivial_callee v1 ?callee"
      | (other) "?opc \<notin> {opc_invokespecial, opc_invokestatic}" by blast
    then show ?thesis
    proof cases
      case triv
      with 4 inv obtain v3 cc3 where "emit E p (ignored_opcode v1 ?callee) (v1, cc) = Inr (v3, cc3)" "\<not> exc"
        "p' = ?p" "s' = (rewrite_ignored ?mb p ?callee v3, cc3)"
        by (auto simp: bindE_Inr)
      moreover have "opc \<in> {opc_invokevirtual, opc_invokespecial, opc_invokestatic}"
        using triv(1) by (auto split: if_splits)
      ultimately show ?thesis
        using r by (intro listed [of v1 res v1 "[ignored_opcode v1 ?callee]" v3 cc3 ?callee])
          (auto simp: one ignored_no_epilogue simp del: emits.simps)
    next
      case tail
      note inv' = inv [unfolded 4(1) resolution.case]
      obtain v2 co where tc: "tail_call E ?mb ?i p (int (opcode_length ! opc)) v1 = Some (v2, co)"
        using inv' 4 tail by (cases "tail_call E ?mb ?i p (int (opcode_length ! opc)) v1") auto
      define cs where "cs = (case co of Some c \<Rightarrow> [opc_stateto0, c] | None \<Rightarrow> invoke_list v2 ?callee ?opc)"
      have "\<exists>s. emits E p cs (v2, cc) = Inr s \<and> \<not> exc \<and> p' = ?p \<and> s' = s"
        using inv' 4 tail tc by (cases co) (auto simp: cs_def bindE_Inr simp del: emits.simps)
      with tc have t: "\<exists>co. tail_call E ?mb ?i p (int (opcode_length ! opc)) v1 = Some (v2, co) \<and>
          cs = (case co of Some c \<Rightarrow> [opc_stateto0, c] | None \<Rightarrow> invoke_list v2 ?callee ?opc)"
        "\<exists>s. emits E p cs (v2, cc) = Inr s \<and> \<not> exc \<and> p' = ?p \<and> s' = s"
        unfolding cs_def by blast+
      have "v2 = v1 \<or> (\<exists>cf. searchCatchFrame E ?mb p v1 = Some (v2, cf))"
        using t(1) by (auto simp: tail_call_def Let_def split: if_splits option.splits)
      moreover have "opc_epilogue \<notin> set cs"
        using t(1) tail_call_no_epilogue by (auto simp: invoke_list_no_epilogue split: option.splits)
      ultimately show ?thesis
        using r t(2) by (intro listed [of v1 res v2 cs "fst s'" "snd s'"]) auto
    next
      case other
      with 4 inv obtain s where "emits E p (invoke_list v1 ?callee ?opc) (v1, cc) = Inr s" "\<not> exc" "p' = ?p" "s' = s"
        by (auto simp: bindE_Inr)
      then show ?thesis
        using r by (intro listed [of v1 res v1 "invoke_list v1 ?callee ?opc" "fst s'" "snd s'"])
          (auto simp: invoke_list_no_epilogue)
    qed
  qed
qed

lemma makePC_invoke_extends:
  assumes "makePC_invoke E opc p (v, cc) = Inr (exc, p', v', cc')" "cc_ok cc"
  shows "extends p cc cc'"
  using assms(1)
proof (cases rule: makePC_invoke_cases)
  case failed
  then show ?thesis using assms(2) by (simp add: extends_refl)
next
  case (listed v1 res v2 cs v3 cc3 callee)
  with emits_extends [OF listed(3) assms(2)] show ?thesis by auto
qed

lemma makePC_step_cases:
  assumes "makePC_step E p (v, cc) = Inr (exc, p', s')"
  defines "c \<equiv> byte_at (mb_code (methods v (cc_mb cc))) p" and "cc1 \<equiv> cc\<lparr>ninsn := ninsn cc + 1\<rparr>"
  obtains (micro) pre post s1 s2 i where "decompose (strict_fp v (cc_mb cc)) c = Some (pre, post)"
      "emits E p pre (v, cc1) = Inr s1" "processAnOpcode E c p s1 = Inr (i, s2)"
      "emits E p post s2 = Inr s'" "\<not> exc" "p' = p + i"
  | (ret) cs where "xlat_return c = Some cs" "emits E p cs (v, cc1) = Inr s'" "\<not> exc" "p' = p + 1"
  | (invoke) opc where "norm_invoke c = Some opc" "makePC_invoke E opc p (v, cc1) = Inr (exc, p', s')"
  | (stall) "c \<in> {opc_monitorenter, opc_monitorexit}" "OPT_SETQ OPT_IGNLOCK v" "\<not> exc" "p' = p" "s' = (v, cc1)"
  | (plain) i where "decompose (strict_fp v (cc_mb cc)) c = None" "xlat_return c = None" "norm_invoke c = None"
      "processAnOpcode E c p (v, cc1) = Inr (i, s')"
      "if i < 0 then exc \<and> p' = p else \<not> exc \<and> p' = p + i"
proof -
  have mb: "cc_mb cc1 = cc_mb cc" by (simp add: cc1_def)
  note step = assms(1) [unfolded makePC_step_def Let_def case_prod_conv, folded cc1_def, folded c_def]
  show ?thesis
  proof (cases "decompose (strict_fp v (cc_mb cc)) c")
    case (Some pp)
    with step show ?thesis
      by (cases pp) (auto simp: bindE_Inr intro: micro)
  next
    case d: None
    show ?thesis
    proof (cases "xlat_return c")
      case (Some cs)
      with step d show ?thesis by (auto simp: bindE_Inr intro: ret)
    next
      case r: None
      show ?thesis
      proof (cases "norm_invoke c")
        case (Some opc)
        with step d r show ?thesis by (auto intro: invoke)
      next
        case None
        with step d r show ?thesis
          by (auto simp: bindE_Inr split: if_splits intro: stall plain)
      qed
    qed
  qed
qed

lemma makePC_step_extends:
  assumes "makePC_step E p (v, cc) = Inr (exc, p', v', cc')" "cc_ok cc"
    and "byte_at (mb_code (methods v (cc_mb cc))) p \<noteq> opc_epilogue"
  shows "extends p cc cc'"
proof -
  let ?cc = "cc\<lparr>ninsn := ninsn cc + 1\<rparr>"
  have ok: "cc_ok ?cc" using assms(2) by (simp add: cc_ok_def)
  have "extends p ?cc cc'"
    using assms(1)
  proof (cases rule: makePC_step_cases)
    case (micro pre post s1 s2 i)
    obtain v1 cc1 v2 cc2 where s: "s1 = (v1, cc1)" "s2 = (v2, cc2)" by (metis surj_pair)
    note no = decompose_no_epilogue [OF micro(1)]
    from emits_extends [OF micro(2) [unfolded s] ok] no have 1: "extends p ?cc cc1" by simp
    from proc_emits_extends [OF micro(3,4) [unfolded s] extends_ok [OF 1] assms(3)] no
    have "extends p cc1 cc'" by simp
    with 1 show ?thesis by (rule extends_trans)
  next
    case (ret cs)
    then show ?thesis
      using emits_extends [OF ret(2) ok xlat_return_no_epilogue] by simp
  next
    case (invoke opc)
    then show ?thesis using ok by (simp add: makePC_invoke_extends)
  next
    case stall
    then show ?thesis using ok by (simp add: extends_refl)
  next
    case (plain i)
    then show ?thesis using ok assms(3) by (simp add: processAnOpcode_extends)
  qed
  then show ?thesis
    by (simp add: extends_def offs_def live_def)
qed


subsection \<open>The bytecode stays, the offset advances by the length of the instruction\<close>

definition same_code :: "vm \<Rightarrow> vm \<Rightarrow> bool" where
  "same_code v v' \<longleftrightarrow> options v' = options v \<and>
     (\<forall>m. mb_code (methods v' m) = mb_code (methods v m) \<and>
        mb_code_length (methods v' m) = mb_code_length (methods v m))"

definition resolver_ok :: "env \<Rightarrow> bool" where
  \<comment> \<open>resolving a constant pool entry does not change the code of methods\<close>
  "resolver_ok E \<longleftrightarrow> (\<forall>v c i t. same_code v (fst (resolve E v c i t)))"

lemma same_code_refl [simp]: "same_code v v"
  by (simp add: same_code_def)

lemma same_code_trans: "same_code v v' \<Longrightarrow> same_code v' v'' \<Longrightarrow> same_code v v''"
  by (simp add: same_code_def)

lemma same_code_exc [simp]: "same_code v (v'\<lparr>exc_class := x\<rparr>) = same_code v v'"
  by (simp add: same_code_def)

lemma resolve_same_code: "resolver_ok E \<Longrightarrow> resolve E v c i t = (v', ok) \<Longrightarrow> same_code v v'"
  unfolding resolver_ok_def by (metis fst_conv)

lemma resolve_cp_same_code:
  "resolver_ok E \<Longrightarrow> resolve_cp E clz i tags hs v = (v', r) \<Longrightarrow> same_code v v'"
  by (auto simp: resolve_cp_def Let_def split: if_splits prod.splits option.splits dest: resolve_same_code)

lemma catch_walk_same_code:
  assumes "resolver_ok E" "catch_walk E clz idx name cz exc v = Some r"
  shows "same_code v (fst r)"
proof -
  have "catch_walk E clz idx name cz exc v = Some r \<Longrightarrow> resolver_ok E \<longrightarrow> same_code v (fst r)"
  proof (rule catch_walk.raw_induct [where P = "\<lambda>E clz idx name cz exc v r. resolver_ok E \<longrightarrow> same_code v (fst r)"])
    fix f E clz idx name cz exc v r
    assume IH: "\<And>E clz idx name cz exc v r. f E clz idx name cz exc v = Some r \<Longrightarrow>
        resolver_ok E \<longrightarrow> same_code v (fst r)"
      and eq: "(if exc = NULL then Some (v, False)
      else if cb_name (classes v exc) = name \<and> cb_loader (classes v exc) = cb_loader (classes v clz)
      then Some (v, True)
      else if cz = NULL then
        (let (v', ok) = (if cp_resolved (classes v clz) idx then (v, True)
                         else resolve E v clz idx {CONSTANT_Class});
             super = cb_superclass (classes v' exc);
             catchClazz' = cp_clazz (constant_pool (classes v' clz) idx)
         in if \<not> ok then f E clz idx name NULL super v'
            else if exc = catchClazz' then Some (v', True)
            else f E clz idx name catchClazz' super v')
      else if exc = cz then Some (v, True)
      else f E clz idx name cz (cb_superclass (classes v exc)) v) = Some r"
    show "resolver_ok E \<longrightarrow> same_code v (fst r)"
    proof
      assume E: "resolver_ok E"
      have IH': "f E clz idx name cz exc v1 = Some r \<Longrightarrow> same_code v v1 \<Longrightarrow> same_code v (fst r)" for cz exc v1
        using IH E same_code_trans by blast
      show "same_code v (fst r)"
        using eq by (auto simp: Let_def split: if_splits prod.splits intro: IH' E [unfolded resolver_ok_def, rule_format] dest: resolve_same_code [OF E])
    qed
  qed
  with assms show ?thesis by simp
qed

lemma search_frames_same_code:
  assumes "resolver_ok E"
  shows "search_frames E clz pc cfs i v = Some (v', r) \<Longrightarrow> same_code v v'"
proof (induction cfs arbitrary: i v)
  case (Cons cf cfs)
  show ?case
  proof (cases "frame_covers cf pc \<and> exc_class v \<noteq> NULL \<and> cf_catchType cf \<noteq> 0")
    case True
    with Cons.prems obtain v1 b where "catch_walk E clz (cf_catchType cf)
        (cp_class_name (classes v clz) (cf_catchType cf)) NULL (exc_class v) v = Some (v1, b)"
      "v1 = v' \<or> search_frames E clz pc cfs (i + 1) v1 = Some (v', r)"
      by (auto split: option.splits prod.splits bool.splits)
    with Cons.IH catch_walk_same_code [OF assms] show ?thesis
      by (metis fst_conv same_code_trans)
  next
    case False
    with Cons show ?thesis by (auto split: if_splits)
  qed
qed simp

lemma searchCatchFrame_same_code:
  "resolver_ok E \<Longrightarrow> searchCatchFrame E mb pc v = Some (v', r) \<Longrightarrow> same_code v v'"
  by (auto simp: searchCatchFrame_def split: option.splits prod.splits dest: search_frames_same_code)

lemma xlat_resolving_same_code:
  assumes "resolver_ok E" "xlat_resolving E mb p c v = Some (v', x)"
  shows "same_code v v'"
proof -
  have "adjust_static E mb p a b d e v = (v', x) \<Longrightarrow> same_code v v'" for a b d e
    by (auto simp: adjust_static_def Let_def split: prod.splits resolution.splits if_splits
        dest: resolve_cp_same_code [OF assms(1)])
  moreover have "adjust_field E mb p a b v = (v', x) \<Longrightarrow> same_code v v'" for a b
    by (auto simp: adjust_field_def Let_def split: prod.splits resolution.splits if_splits
        dest: resolve_cp_same_code [OF assms(1)])
  moreover have "xlat_new E mb p c v = (v', x) \<Longrightarrow> same_code v v'"
    by (auto simp: xlat_new_def Let_def split: prod.splits resolution.splits if_splits
        dest: resolve_cp_same_code [OF assms(1)])
  moreover have "xlat_instanceof E mb p v = (v', x) \<Longrightarrow> same_code v v'"
    by (auto simp: xlat_instanceof_def Let_def split: prod.splits resolution.splits if_splits
        dest: resolve_cp_same_code [OF assms(1)])
  ultimately show ?thesis
    using assms(2) by (auto simp: xlat_resolving_def split: if_splits)
qed

lemma xlat_switch_same_code:
  assumes "resolver_ok E" "xlat_switch E mb p c v = Inr (v', x)"
  shows "same_code v v'"
  using assms(2)
  by (auto simp: xlat_switch_def Let_def split: if_splits option.splits
      dest: xlat_resolving_same_code [OF assms(1)])

lemma processAnOpcode_same_code:
  assumes "resolver_ok E" "processAnOpcode E c p (v, cc) = Inr (r, v', cc')"
  shows "same_code v v'"
  using assms(2) by (cases rule: processAnOpcode_effect) (auto dest: xlat_switch_same_code [OF assms(1)])

lemma emits_same_code:
  assumes "resolver_ok E"
  shows "emits E p cs (v, cc) = Inr (v', cc') \<Longrightarrow> same_code v v'"
proof (induction cs arbitrary: v cc)
  case (Cons c cs)
  then obtain r v1 cc1 where "processAnOpcode E c p (v, cc) = Inr (r, v1, cc1)" "emits E p cs (v1, cc1) = Inr (v', cc')"
    by (auto simp: bindE_Inr emit_def)
  with Cons.IH processAnOpcode_same_code [OF assms] show ?case
    by (metis same_code_trans)
qed simp


definition insn_length :: "(int \<Rightarrow> u8) \<Rightarrow> int \<Rightarrow> int" where
  "insn_length code p = byte_increment code p (byte_at code p) 0"

definition insn_ok :: "(int \<Rightarrow> u8) \<Rightarrow> int \<Rightarrow> bool" where
  \<comment> \<open>a known opcode; \<open>wide\<close> only in front of the instructions that have a wide form\<close>
  "insn_ok code p \<longleftrightarrow>
     byte_at code p \<le> opc_nonnull_quick \<and> 0 < insn_length code p \<and>
     (byte_at code p = opc_wide \<longrightarrow> byte_at code (p + 1) \<in>
        {opc_iload, opc_fload, opc_aload, opc_lload, opc_dload, opc_istore, opc_fstore, opc_astore,
         opc_lstore, opc_dstore, opc_ret, opc_iinc})"

definition resolving_codes :: "nat set" where
  "resolving_codes = {opc_getstatic, opc_putstatic, opc_getfield, opc_getfield_quick_w, opc_putfield,
     opc_putfield_quick_w, opc_new, opc_new_quick, opc_anewarray, opc_instanceof, opc_instanceof_quick}"

definition field_quick_codes :: "nat set" where
  "field_quick_codes = {opc_getfield_quick, opc_putfield_quick, opc_getfield2_quick, opc_putfield2_quick,
     opc_getstatic_quick, opc_putstatic_quick, opc_getstatic2_quick, opc_putstatic2_quick}"

lemma lengths_3: "c \<in> resolving_codes \<union> field_quick_codes \<Longrightarrow>
  opcode_length ! c = 3 \<and> c \<noteq> opc_tableswitch \<and> c \<noteq> opc_lookupswitch \<and> c \<noteq> opc_wide \<and> c \<le> opc_nonnull_quick"
  by (auto simp: resolving_codes_def field_quick_codes_def opcode_length_def)

lemma byte_increment_3: "c \<in> resolving_codes \<union> field_quick_codes \<Longrightarrow> byte_increment code p c 3 = byte_increment code p c 0"
  using lengths_3 [of c] by (simp add: byte_increment_def Let_def)

lemma xlat_resolving_range:
  assumes "xlat_resolving E mb p c v = Some (v', x)"
  shows "c \<in> resolving_codes"
    and "case x of Emit opc oper i \<Rightarrow> i \<in> {0, 3} | Leave r \<Rightarrow> r \<in> {-1, 3}"
proof -
  show "c \<in> resolving_codes"
    using assms by (auto simp: xlat_resolving_def resolving_codes_def split: if_splits)
  have "adjust_static E mb p a b d e v = (v', x) \<Longrightarrow> case x of Emit opc oper i \<Rightarrow> i \<in> {0, 3} | Leave r \<Rightarrow> r \<in> {-1, 3}" for a b d e
    by (auto simp: adjust_static_def Let_def split: prod.splits resolution.splits if_splits)
  moreover have "adjust_field E mb p a b v = (v', x) \<Longrightarrow> case x of Emit opc oper i \<Rightarrow> i \<in> {0, 3} | Leave r \<Rightarrow> r \<in> {-1, 3}" for a b
    by (auto simp: adjust_field_def Let_def split: prod.splits resolution.splits if_splits)
  moreover have "xlat_new E mb p c v = (v', x) \<Longrightarrow> case x of Emit opc oper i \<Rightarrow> i \<in> {0, 3} | Leave r \<Rightarrow> r \<in> {-1, 3}"
    by (auto simp: xlat_new_def Let_def split: prod.splits resolution.splits if_splits)
  moreover have "xlat_instanceof E mb p v = (v', x) \<Longrightarrow> case x of Emit opc oper i \<Rightarrow> i \<in> {0, 3} | Leave r \<Rightarrow> r \<in> {-1, 3}"
    by (auto simp: xlat_instanceof_def Let_def split: prod.splits resolution.splits if_splits)
  ultimately show "case x of Emit opc oper i \<Rightarrow> i \<in> {0, 3} | Leave r \<Rightarrow> r \<in> {-1, 3}"
    using assms by (auto simp: xlat_resolving_def split: if_splits)
qed

lemma xlat_parts_not_field:
  "xlat_const code p c = Some (opc, oper) \<Longrightarrow> \<not> is_get opc \<and> \<not> is_put opc"
  "xlat_load code p c = Some (opc, oper) \<Longrightarrow> \<not> is_get opc \<and> \<not> is_put opc"
  "xlat_store code p c = Some (opc, oper) \<Longrightarrow> \<not> is_get opc \<and> \<not> is_put opc"
  "xlat_branch code p c = Some (opc, oper) \<Longrightarrow> \<not> is_get opc \<and> \<not> is_put opc"
  "xlat_invoke code p c = Some (opc, oper) \<Longrightarrow> \<not> is_get opc \<and> \<not> is_put opc"
  "xlat_class code p c = Some (opc, oper) \<Longrightarrow> \<not> is_get opc \<and> \<not> is_put opc"
  "xlat_quick code p c = Some (opc, oper) \<Longrightarrow> c \<in> field_quick_codes"
  unfolding is_get_def is_put_def field_quick_codes_def
  by (simp_all add: xlat_const_def xlat_load_def xlat_store_def xlat_branch_def xlat_quick_def
      xlat_invoke_def xlat_class_def split: if_splits) auto

lemma xlat_pure_not_field:
  assumes "xlat_pure code p c = Some (opc, oper)" "is_get opc \<or> is_put opc"
  shows "c \<in> field_quick_codes"
  using assms xlat_parts_not_field [of code p c opc oper]
  unfolding xlat_pure_def by (auto split: option.splits)

lemma not_field_internal: "is_get c \<or> is_put c \<Longrightarrow> c \<le> opc_nonnull_quick \<Longrightarrow> c \<in> resolving_codes \<union> field_quick_codes"
  by (auto simp: is_get_def is_put_def resolving_codes_def field_quick_codes_def)

lemma check_access_inc:
  assumes "check_access E mb opc oper i v = (opc', i')"
  shows "i' = i \<or> i' = 3 \<and> (is_get opc \<or> is_put opc)"
  using assms by (auto simp: check_access_def Let_def split: if_splits)

lemma xlat_switch_plain:
  assumes "xlat_switch E mb p c v = Inr (v', x)" "c \<noteq> opc_wide"
  shows "(\<exists>opc oper. xlat_pure (mb_code (methods v mb)) p c = Some (opc, oper) \<and> x = Emit opc oper 0) \<or>
    xlat_resolving E mb p c v = Some (v', x) \<or> x = Emit c (-1) 0"
  using assms by (auto simp: xlat_switch_def Let_def split: option.splits)

lemma xlat_wide_plain:
  assumes "b \<in> {opc_iload, opc_fload, opc_aload, opc_lload, opc_dload, opc_istore, opc_fstore, opc_astore,
         opc_lstore, opc_dstore, opc_ret, opc_iinc}"
  shows "\<exists>opc oper. xlat_pure code p b = Some (opc, oper)"
    and "xlat_pure code p b = Some (opc, oper) \<Longrightarrow> \<not> is_get opc \<and> \<not> is_put opc"
proof -
  show "\<exists>opc oper. xlat_pure code p b = Some (opc, oper)"
    using assms by (auto simp: xlat_pure_def xlat_const_def xlat_load_def xlat_store_def xlat_branch_def)
  assume "xlat_pure code p b = Some (opc, oper)"
  with assms xlat_pure_not_field [of code p b opc oper] show "\<not> is_get opc \<and> \<not> is_put opc"
    by (auto simp: field_quick_codes_def)
qed

lemma processAnOpcode_inc:
  assumes "processAnOpcode E c p (v, cc) = Inr (r, v', cc')" "resolver_ok E"
    and "code = mb_code (methods v (cc_mb cc))" "c = byte_at code p" "insn_ok code p"
  shows "r = insn_length code p \<or> r = -1 \<and> c \<in> resolving_codes"
  using assms(1)
proof (cases rule: processAnOpcode_effect)
  case leave
  have "c \<noteq> opc_wide"
  proof
    assume w: "c = opc_wide"
    with assms(4,5) have "byte_at code (p + 1) \<in>
        {opc_iload, opc_fload, opc_aload, opc_lload, opc_dload, opc_istore, opc_fstore, opc_astore,
         opc_lstore, opc_dstore, opc_ret, opc_iinc}" by (simp add: insn_ok_def)
    from xlat_wide_plain(1) [OF this, of code p] w leave assms(3) show False
      by (auto simp: xlat_switch_def Let_def split: if_splits)
  qed
  with leave(1) have x: "xlat_resolving E (cc_mb cc) p c v = Some (v', Leave r)"
    by (auto dest!: xlat_switch_plain)
  from xlat_resolving_range [OF x] show ?thesis
    using lengths_3 [of c] assms(4) by (auto simp: insn_length_def byte_increment_def Let_def)
next
  case (emit opc oper i opc' i')
  have code: "mb_code (methods v' (cc_mb cc)) = code"
    using xlat_switch_same_code [OF assms(2) emit(1)] assms(3) by (simp add: same_code_def)
  have "i' = 0 \<or> i' = 3 \<and> c \<in> resolving_codes \<union> field_quick_codes"
  proof (cases "c = opc_wide")
    case True
    with assms(4,5) have b: "byte_at code (p + 1) \<in>
        {opc_iload, opc_fload, opc_aload, opc_lload, opc_dload, opc_istore, opc_fstore, opc_astore,
         opc_lstore, opc_dstore, opc_ret, opc_iinc}" by (simp add: insn_ok_def)
    from xlat_wide_plain(1) [OF b, of code p] obtain o2 p2 where o: "xlat_pure code p (byte_at code (p + 1)) = Some (o2, p2)"
      by blast
    with True emit(1) assms(3) have "opc = o2" "i = 0"
      by (auto simp: xlat_switch_def Let_def split: if_splits)
    with xlat_wide_plain(2) [OF b o] check_access_inc [OF emit(2)] show ?thesis by auto
  next
    case False
    from xlat_switch_plain [OF emit(1) False] consider
        (pure) "xlat_pure code p c = Some (opc, oper)" "i = 0"
      | (res) "xlat_resolving E (cc_mb cc) p c v = Some (v', Emit opc oper i)"
      | (dflt) "opc = c" "i = 0" using assms(3) by auto
    then show ?thesis
    proof cases
      case pure
      with check_access_inc [OF emit(2)] xlat_pure_not_field [OF pure(1)] show ?thesis by auto
    next
      case res
      from xlat_resolving_range [OF res] check_access_inc [OF emit(2)] show ?thesis by auto
    next
      case dflt
      have "c \<le> opc_nonnull_quick" using assms(4,5) by (simp add: insn_ok_def)
      with dflt check_access_inc [OF emit(2)] not_field_internal [of c] show ?thesis by auto
    qed
  qed
  then have "byte_increment code p c i' = byte_increment code p c 0"
    using byte_increment_3 by auto
  with emit(4) code assms(4) show ?thesis by (simp add: insn_length_def)
qed


definition same_from :: "ptr \<Rightarrow> int \<Rightarrow> vm \<Rightarrow> vm \<Rightarrow> bool" where
  \<comment> \<open>the code of the method is the same from \<open>q\<close> on\<close>
  "same_from mb q v v' \<longleftrightarrow> options v' = options v \<and>
     mb_code_length (methods v' mb) = mb_code_length (methods v mb) \<and>
     (\<forall>x \<ge> q. mb_code (methods v' mb) x = mb_code (methods v mb) x)"

lemma same_code_from: "same_code v v' \<Longrightarrow> same_from mb q v v'"
  by (simp add: same_code_def same_from_def)

lemma norm_invoke_length:
  "norm_invoke c = Some opc \<Longrightarrow> c \<noteq> opc_tableswitch \<and> c \<noteq> opc_lookupswitch \<and> c \<noteq> opc_wide \<and> c \<le> opc_nonnull_quick \<and>
     opcode_length ! opc = opcode_length ! c \<and>
     (opc \<in> {opc_invokevirtual, opc_invokespecial, opc_invokestatic} \<longrightarrow> opcode_length ! opc = 3)"
  by (auto simp: norm_invoke_def opcode_length_def split: if_splits)

lemma xlat_return_length:
  assumes "xlat_return c = Some cs" "c = byte_at code p"
  shows "insn_length code p = 1"
proof -
  have "c \<in> {opc_ireturn, opc_freturn, opc_areturn, opc_lreturn, opc_dreturn}"
    using assms(1) by (auto simp: xlat_return_def split: if_splits)
  then have "opcode_length ! c = 1 \<and> c \<notin> {opc_tableswitch, opc_lookupswitch, opc_wide} \<and> c \<le> opc_nonnull_quick"
    by (auto simp: opcode_length_def)
  then show ?thesis
    using assms(2) by (simp add: insn_length_def byte_increment_def)
qed

lemma resolving_not_decomposed: "\<forall>c \<in> resolving_codes. decompose b c = None"
  unfolding resolving_codes_def by (simp add: decompose_def)

lemma decompose_not_resolving: "decompose b c = Some pp \<Longrightarrow> c \<notin> resolving_codes"
  using resolving_not_decomposed by fastforce

lemma makePC_invoke_code:
  assumes "makePC_invoke E opc p (v, cc) = Inr (exc, p', v', cc')" "resolver_ok E"
    and "opc \<in> {opc_invokevirtual, opc_invokespecial, opc_invokestatic} \<longrightarrow> opcode_length ! opc = 3"
  shows "same_from (cc_mb cc) p' v v' \<or> exc" "\<not> exc \<Longrightarrow> p' = p + int (opcode_length ! opc)"
proof -
  have "(same_from (cc_mb cc) p' v v' \<or> exc) \<and> (\<not> exc \<longrightarrow> p' = p + int (opcode_length ! opc))"
    using assms(1)
  proof (cases rule: makePC_invoke_cases)
    case failed
    then show ?thesis by simp
  next
    case (listed v1 res v2 cs v3 cc3 callee)
    have "same_code v v1" "same_code v1 v2" "same_code v2 v3"
      using listed resolve_cp_same_code [OF assms(2)] searchCatchFrame_same_code [OF assms(2)]
        emits_same_code [OF assms(2)] by fastforce+
    then have s: "same_code v v3" by (blast intro: same_code_trans)
    from listed(7) have "same_from (cc_mb cc) p' v v'"
    proof
      assume "(v', cc') = (v3, cc3)"
      with s show ?thesis by (simp add: same_code_from)
    next
      assume "(v', cc') = (rewrite_ignored (cc_mb cc) p callee v3, cc3) \<and>
         opc \<in> {opc_invokevirtual, opc_invokespecial, opc_invokestatic}"
      then have v': "v' = rewrite_ignored (cc_mb cc) p callee v3" and p': "p' = p + 3"
        using assms(3) listed(6) by auto
      have "same_from (cc_mb cc) (p + 3) v3 v'"
        by (simp add: v' same_from_def rewrite_ignored_def)
      moreover from s have "same_from (cc_mb cc) p' v v3" by (rule same_code_from)
      ultimately show ?thesis by (simp add: p' same_from_def)
    qed
    with listed show ?thesis by simp
  qed
  then show "same_from (cc_mb cc) p' v v' \<or> exc" "\<not> exc \<Longrightarrow> p' = p + int (opcode_length ! opc)"
    by simp_all
qed

lemma processAnOpcode_mb: "processAnOpcode E c p (v, cc) = Inr (r, v', cc') \<Longrightarrow> cc_mb cc' = cc_mb cc"
  by (erule processAnOpcode_effect)
    (simp_all add: pctableAdd_def pctableGrow_def tidy_epilogue_def pctableDelete_def pctableNDelete_def
      pc_upd_def Let_def)

lemma emits_mb: "emits E p cs (v, cc) = Inr (v', cc') \<Longrightarrow> cc_mb cc' = cc_mb cc"
proof (induction cs arbitrary: v cc)
  case (Cons c cs)
  then obtain r v1 cc1 where "processAnOpcode E c p (v, cc) = Inr (r, v1, cc1)" "emits E p cs (v1, cc1) = Inr (v', cc')"
    by (auto simp: bindE_Inr emit_def)
  with Cons.IH processAnOpcode_mb show ?case by metis
qed simp

definition stalls :: "vm \<Rightarrow> ptr \<Rightarrow> int \<Rightarrow> bool" where
  \<comment> \<open>the round that leaves the offset where it is\<close>
  "stalls v mb p \<longleftrightarrow> OPT_SETQ OPT_IGNLOCK v \<and>
     byte_at (mb_code (methods v mb)) p \<in> {opc_monitorenter, opc_monitorexit}"

lemma makePC_step_advance:
  assumes "makePC_step E p (v, cc) = Inr (exc, p', v', cc')" "resolver_ok E"
    and "insn_ok (mb_code (methods v (cc_mb cc))) p" "\<not> stalls v (cc_mb cc) p" "\<not> exc"
  shows "p' = p + insn_length (mb_code (methods v (cc_mb cc))) p" "same_from (cc_mb cc) p' v v'"
proof -
  let ?code = "mb_code (methods v (cc_mb cc))" let ?cc = "cc\<lparr>ninsn := ninsn cc + 1\<rparr>"
  note same = emits_same_code [OF assms(2)]
  have "p' = p + insn_length ?code p \<and> same_from (cc_mb cc) p' v v'"
    using assms(1)
  proof (cases rule: makePC_step_cases)
    case (micro pre post s1 s2 i)
    obtain v1 cc1 v2 cc2 where s: "s1 = (v1, cc1)" "s2 = (v2, cc2)" by (metis surj_pair)
    have e1: "same_code v v1" using same micro(2) s by blast
    have e2: "same_code v1 v2" using micro(3) s processAnOpcode_same_code [OF assms(2)] by blast
    have e3: "same_code v2 v'" using same micro(4) s by blast
    from e1 e2 e3 have e: "same_code v v'" by (blast intro: same_code_trans)
    have mb: "cc_mb cc1 = cc_mb cc"
      using emits_mb [of E p pre v ?cc v1 cc1] micro(2) s by simp
    have "i = insn_length ?code p"
      using processAnOpcode_inc [OF micro(3) [unfolded s] assms(2) _ _ assms(3)] e1 mb
        decompose_not_resolving [OF micro(1)] by (auto simp: same_code_def)
    with micro e show ?thesis by (simp add: same_code_from)
  next
    case (ret cs)
    with same xlat_return_length [OF ret(1) refl] show ?thesis
      by (fastforce intro: same_code_from)
  next
    case (invoke opc)
    note l = norm_invoke_length [OF invoke(1)]
    from l have "opc \<in> {opc_invokevirtual, opc_invokespecial, opc_invokestatic} \<longrightarrow> opcode_length ! opc = 3"
      by blast
    from makePC_invoke_code [OF invoke(2) assms(2) this] l assms(5) show ?thesis
      by (simp add: insn_length_def byte_increment_def)
  next
    case stall
    with assms(4) show ?thesis by (simp add: stalls_def)
  next
    case (plain i)
    have "i \<ge> 0" using plain(5) assms(5) by (auto split: if_splits)
    with processAnOpcode_inc [OF plain(4) assms(2) _ _ assms(3)] have "i = insn_length ?code p" by auto
    with plain(5) assms(5) processAnOpcode_same_code [OF assms(2) plain(4)] show ?thesis
      by (auto simp: same_code_from split: if_splits)
  qed
  then show "p' = p + insn_length ?code p" "same_from (cc_mb cc) p' v v'" by blast+
qed


subsection \<open>The loop\<close>

fun walks :: "(int \<Rightarrow> u8) \<Rightarrow> int \<Rightarrow> nat \<Rightarrow> int \<Rightarrow> bool" where
  \<comment> \<open>from \<open>p\<close> the code is a sequence of at most \<open>n\<close> instructions that ends at or behind \<open>len\<close>\<close>
  "walks code len n p =
     (if len \<le> p then True
      else (case n of 0 \<Rightarrow> False
            | Suc m \<Rightarrow> insn_ok code p \<and> walks code len m (p + insn_length code p)))"

declare walks.simps [simp del] makePC_loop.simps [simp del]

lemma ntohl_cong: "(\<And>x. p \<le> x \<Longrightarrow> code' x = code x) \<Longrightarrow> (p :: int) \<le> q \<Longrightarrow> ntohl_at code' q = ntohl_at code q"
  by (simp add: ntohl_at_def GET_INT32_def)

lemma insn_length_cong:
  assumes "\<And>x. p \<le> x \<Longrightarrow> code' x = code x"
  shows "insn_length code' p = insn_length code p" "insn_ok code' p = insn_ok code p"
proof -
  have a: "p \<le> ALIGNUP32 (p + 1)" by (simp add: ALIGNUP32_def)
  show l: "insn_length code' p = insn_length code p"
    using assms a ntohl_cong [OF assms, where q = "ALIGNUP32 (p + 1) + 4"] ntohl_cong [OF assms, where q = "ALIGNUP32 (p + 1) + 8"]
    by (simp add: insn_length_def byte_increment_def byte_at_def Let_def)
  show "insn_ok code' p = insn_ok code p"
    using assms by (simp add: insn_ok_def l byte_at_def)
qed

lemma walks_cong:
  "(\<And>x. p \<le> x \<Longrightarrow> code' x = code x) \<Longrightarrow> walks code' len n p = walks code len n p"
proof (induction n arbitrary: p)
  case 0
  then show ?case by (simp add: walks.simps)
next
  case (Suc n)
  have "walks code' len n (p + insn_length code p) = walks code len n (p + insn_length code p)" if "insn_ok code p"
    using that Suc by (intro Suc.IH) (auto simp: insn_ok_def)
  with insn_length_cong [OF Suc.prems] show ?case
    by (subst (1 2) walks.simps) auto
qed

lemma same_from_trans:
  "same_from mb q v v' \<Longrightarrow> same_from mb q' v' v'' \<Longrightarrow> q \<le> q' \<Longrightarrow> same_from mb q' v v''"
  by (simp add: same_from_def)

lemma makePC_loop_step:
  assumes "makePC_step E p (v, cc) = Inr (exc, p', v1, cc1)" "resolver_ok E"
    "walks (mb_code (methods v (cc_mb cc))) (mb_code_length (methods v (cc_mb cc))) (Suc n) p"
    "p < mb_code_length (methods v (cc_mb cc))" "\<not> OPT_SETQ OPT_IGNLOCK v" "cc_ok cc" "\<not> exc"
  shows "extends p cc cc1" "p < p'" "mb_code_length (methods v1 (cc_mb cc1)) = mb_code_length (methods v (cc_mb cc))"
    "walks (mb_code (methods v1 (cc_mb cc1))) (mb_code_length (methods v1 (cc_mb cc1))) n p'"
    "\<not> OPT_SETQ OPT_IGNLOCK v1"
proof -
  from assms(3,4) have ok: "insn_ok (mb_code (methods v (cc_mb cc))) p"
    and w: "walks (mb_code (methods v (cc_mb cc))) (mb_code_length (methods v (cc_mb cc))) n
        (p + insn_length (mb_code (methods v (cc_mb cc))) p)"
    by (simp_all add: walks.simps [of _ _ "Suc n"])
  from ok have "byte_at (mb_code (methods v (cc_mb cc))) p \<noteq> opc_epilogue"
    by (auto simp: insn_ok_def)
  with makePC_step_extends [OF assms(1,6)] show e: "extends p cc cc1" .
  have ns: "\<not> stalls v (cc_mb cc) p" using assms(5) by (simp add: stalls_def)
  note adv = makePC_step_advance [OF assms(1,2) ok ns assms(7)]
  from adv(1) ok show "p < p'" by (simp add: insn_ok_def)
  from e have mb: "cc_mb cc1 = cc_mb cc" by (simp add: extends_def)
  from adv(2) show "mb_code_length (methods v1 (cc_mb cc1)) = mb_code_length (methods v (cc_mb cc))"
    by (simp add: mb same_from_def)
  from adv(2) assms(5) show "\<not> OPT_SETQ OPT_IGNLOCK v1" by (simp add: same_from_def OPT_SETQ_def)
  have "walks (mb_code (methods v1 (cc_mb cc))) (mb_code_length (methods v (cc_mb cc))) n p' =
      walks (mb_code (methods v (cc_mb cc))) (mb_code_length (methods v (cc_mb cc))) n p'"
    using adv(2) by (intro walks_cong) (simp add: same_from_def)
  with adv w show "walks (mb_code (methods v1 (cc_mb cc1))) (mb_code_length (methods v1 (cc_mb cc1))) n p'"
    by (simp add: mb same_from_def)
qed

definition appended :: "int \<Rightarrow> int \<Rightarrow> CompilerContext \<Rightarrow> CompilerContext \<Rightarrow> bool" where
  \<comment> \<open>sorted offsets in \<open>[p, len)\<close> were appended\<close>
  "appended p len cc cc' \<longleftrightarrow> cc_ok cc' \<and> cc_mb cc' = cc_mb cc \<and>
     (\<exists>new. offs cc' = offs cc @ new \<and> sorted new \<and> (\<forall>x \<in> set new. p \<le> x \<and> x < len))"

lemma extends_appended: "extends p cc cc1 \<Longrightarrow> p < len \<Longrightarrow> appended p len cc cc1"
  by (force simp: extends_def appended_def sorted_replicate)

lemma extends_then_appended:
  assumes "extends p cc cc1" "appended p' len cc1 cc'" "p < p'" "p < len"
  shows "appended p len cc cc'"
proof -
  from assms obtain k new where "offs cc1 = offs cc @ replicate k p" "offs cc' = offs cc1 @ new" "sorted new"
    "\<forall>x \<in> set new. p' \<le> x \<and> x < len" by (auto simp: extends_def appended_def)
  with assms have "offs cc' = offs cc @ (replicate k p @ new)" "sorted (replicate k p @ new)"
    "\<forall>x \<in> set (replicate k p @ new). p \<le> x \<and> x < len"
    by (force simp: sorted_append sorted_replicate)+
  with assms show ?thesis unfolding appended_def extends_def by metis
qed

lemma makePC_loop_appended:
  assumes "resolver_ok E"
  shows "walks (mb_code (methods v (cc_mb cc))) (mb_code_length (methods v (cc_mb cc))) n p \<Longrightarrow>
    \<not> OPT_SETQ OPT_IGNLOCK v \<Longrightarrow> cc_ok cc \<Longrightarrow>
    makePC_loop E n p (v, cc) = Inr (exc, v', cc') \<Longrightarrow>
    appended p (mb_code_length (methods v (cc_mb cc))) cc cc'"
proof (induction n arbitrary: p v cc)
  case 0
  then show ?case
    by (auto simp: makePC_loop.simps [of _ 0] appended_def split: if_splits)
next
  case (Suc n)
  let ?len = "mb_code_length (methods v (cc_mb cc))"
  show ?case
  proof (cases "?len \<le> p")
    case True
    with Suc.prems show ?thesis
      by (auto simp: makePC_loop.simps [of _ "Suc n"] appended_def)
  next
    case False
    with Suc.prems(4) obtain ex p1 v1 cc1 where s: "makePC_step E p (v, cc) = Inr (ex, p1, v1, cc1)"
      "if ex then exc \<and> v' = v1 \<and> cc' = cc1 else makePC_loop E n p1 (v1, cc1) = Inr (exc, v', cc')"
      by (auto simp: makePC_loop.simps [of _ "Suc n"] bindE_Inr split: if_splits)
    show ?thesis
    proof (cases ex)
      case True
      from Suc.prems(1) False have "byte_at (mb_code (methods v (cc_mb cc))) p \<noteq> opc_epilogue"
        by (auto simp: walks.simps [of _ _ "Suc n"] insn_ok_def)
      with True s makePC_step_extends [OF s(1) Suc.prems(3)] False show ?thesis
        by (simp add: extends_appended)
    next
      case ex: False
      note st = makePC_loop_step [OF s(1) assms Suc.prems(1) _ Suc.prems(2,3) ex]
      from False have lt: "p < ?len" by simp
      from Suc.IH [OF st(4) [OF lt] st(5) [OF lt] extends_ok [OF st(1) [OF lt]]] s(2) ex
      have "appended p1 ?len cc1 cc'" by (simp add: st(3) [OF lt])
      with extends_then_appended [OF st(1) [OF lt]] st(2) [OF lt] lt show ?thesis by simp
    qed
  qed
qed


subsection \<open>The fuel\<close>

lemma processAnOpcode_fuel: "processAnOpcode E c p s \<noteq> Inl OutOfFuel"
proof -
  have "xlat_switch E mb p c v \<noteq> Inl OutOfFuel" for mb v
    by (simp add: xlat_switch_def Let_def)
  then show ?thesis
    by (auto simp: processAnOpcode_def Let_def bindE_def split: sum.splits prod.splits xlat.splits)
qed

lemma emits_fuel: "emits E p cs s \<noteq> Inl OutOfFuel"
proof (induction cs arbitrary: s)
  case (Cons c cs)
  then show ?case
    using processAnOpcode_fuel [of E c p s]
    by (auto simp: emit_def bindE_def split: sum.splits prod.splits)
qed simp

lemma emit_fuel: "emit E p c s \<noteq> Inl OutOfFuel"
  using emits_fuel [of E p "[c]" s] by (cases "emit E p c s") simp_all

lemma bindE_InrE: "bindE r f = Inr b \<Longrightarrow> (\<And>a. r = Inr a \<Longrightarrow> f a = Inr b \<Longrightarrow> P) \<Longrightarrow> P"
  by (cases r) simp_all

lemma bindE_fuel: "bindE r f = Inl OutOfFuel \<longleftrightarrow> r = Inl OutOfFuel \<or> (\<exists>a. r = Inr a \<and> f a = Inl OutOfFuel)"
  by (cases r) simp_all

lemma makePC_invoke_fuel: "makePC_invoke E opc p s \<noteq> Inl OutOfFuel"
  by (cases s) (auto simp: makePC_invoke_def Let_def bindE_fuel emit_fuel emits_fuel simp del: emits.simps
      split: prod.splits resolution.splits option.splits)

lemma makePC_step_fuel: "makePC_step E p s \<noteq> Inl OutOfFuel"
proof -
  obtain v cc where s: "s = (v, cc)" by (cases s)
  let ?c = "byte_at (mb_code (methods v (cc_mb cc))) p"
  show ?thesis
  proof (cases "decompose (strict_fp v (cc_mb cc)) ?c")
    case (Some pp)
    then show ?thesis
      by (cases pp) (simp add: s makePC_step_def Let_def bindE_fuel emits_fuel processAnOpcode_fuel split: prod.split)
  next
    case None
    then show ?thesis
      by (simp add: s makePC_step_def Let_def bindE_fuel emits_fuel processAnOpcode_fuel makePC_invoke_fuel
          split: prod.split option.split)
  qed
qed

lemma makePC_loop_enough:
  assumes "resolver_ok E"
  shows "walks (mb_code (methods v (cc_mb cc))) (mb_code_length (methods v (cc_mb cc))) n p \<Longrightarrow>
    \<not> OPT_SETQ OPT_IGNLOCK v \<Longrightarrow> cc_ok cc \<Longrightarrow> makePC_loop E n p (v, cc) \<noteq> Inl OutOfFuel"
proof (induction n arbitrary: p v cc)
  case 0
  then have "mb_code_length (methods v (cc_mb cc)) \<le> p"
    by (simp add: walks.simps [of _ _ 0] split: if_splits)
  then show ?case by (simp add: makePC_loop.simps [of _ 0])
next
  case (Suc n)
  show ?case
  proof
    assume f: "makePC_loop E (Suc n) p (v, cc) = Inl OutOfFuel"
    then obtain p1 v1 cc1 where s: "makePC_step E p (v, cc) = Inr (False, p1, v1, cc1)"
      "makePC_loop E n p1 (v1, cc1) = Inl OutOfFuel" and lt: "p < mb_code_length (methods v (cc_mb cc))"
      by (auto simp: makePC_loop.simps [of _ "Suc n"] bindE_fuel makePC_step_fuel split: if_splits)
    note st = makePC_loop_step [OF s(1) assms Suc.prems(1) lt Suc.prems(2,3)]
    from Suc.IH [OF st(4,5) extends_ok [OF st(1)]] s(2) show False by simp
  qed
qed

lemma makePC_loop_more:
  "makePC_loop E n p s \<noteq> Inl OutOfFuel \<Longrightarrow> makePC_loop E (n + k) p s = makePC_loop E n p s"
proof (induction n arbitrary: p s)
  case 0
  then show ?case by (cases s; cases k) (auto simp: makePC_loop.simps split: if_splits)
next
  case (Suc n)
  obtain v cc where s: "s = (v, cc)" by (cases s)
  have "bindE (makePC_step E p (v, cc)) (\<lambda>(exc, p, s). if exc then Inr (True, s) else makePC_loop E (n + k) p s) =
        bindE (makePC_step E p (v, cc)) (\<lambda>(exc, p, s). if exc then Inr (True, s) else makePC_loop E n p s)"
    if "p < mb_code_length (methods v (cc_mb cc))"
    using Suc that by (cases "makePC_step E p (v, cc)")
      (auto simp: s makePC_loop.simps [of _ "Suc n"] split: if_splits)
  then show ?case
    by (simp add: s makePC_loop.simps [of _ "Suc n"] makePC_loop.simps [of _ "Suc (n + k)"])
qed

lemma makePC_step_stall:
  assumes "stalls v (cc_mb cc) p"
  shows "makePC_step E p (v, cc) = Inr (False, p, (v, cc\<lparr>ninsn := ninsn cc + 1\<rparr>))"
proof -
  let ?c = "byte_at (mb_code (methods v (cc_mb cc))) p"
  from assms have c: "?c = opc_monitorenter \<or> ?c = opc_monitorexit" "OPT_SETQ OPT_IGNLOCK v"
    by (auto simp: stalls_def)
  then have "decompose b ?c = None" "xlat_return ?c = None" "norm_invoke ?c = None" for b
    by (auto simp: decompose_def xlat_return_def norm_invoke_def)
  with c show ?thesis by (auto simp: makePC_step_def Let_def)
qed

lemma makePC_loop_stall:
  "stalls v (cc_mb cc) p \<Longrightarrow> p < mb_code_length (methods v (cc_mb cc)) \<Longrightarrow>
   makePC_loop E n p (v, cc) = Inl OutOfFuel"
  by (induction n arbitrary: cc)
    (simp_all add: makePC_loop.simps makePC_step_stall)

subsection \<open>Prologue and epilogue\<close>

lemma tidy_epilogue_offs:
  assumes "cc_ok cc" "2 \<le> pctablelen cc" "sorted (offs cc)"
  shows "cc_ok (tidy_epilogue cc)" "sorted (offs (tidy_epilogue cc))"
    "set (offs (tidy_epilogue cc)) \<subseteq> set (offs cc)" "cc_mb (tidy_epilogue cc) = cc_mb cc"
proof -
  obtain n where n: "pctablelen cc = Suc (Suc n)"
    using assms(2) by (metis One_nat_def Suc_1 Suc_le_D Suc_le_mono)
  with assms(1) obtain xs a b where l: "live cc = xs @ [a, b]" "length xs = n"
    using length_live [OF assms(1)] by (cases "live cc" rule: rev_cases; cases "butlast (live cc)" rule: rev_cases) auto
  let ?b = "b\<lparr>increasing_byteoff := increasing_byteoff a, byteoff := byteoff a\<rparr>"
  let ?u = "pc_upd cc (Suc n) (\<lambda>e. e\<lparr>increasing_byteoff := increasing_byteoff a, byteoff := byteoff a\<rparr>)"
  have u: "live ?u = xs @ [a, ?b]" "cc_ok ?u" "pctablelen ?u = Suc (Suc n)" "cc_mb ?u = cc_mb cc"
    using assms(1) n l by (simp_all add: pc_upd_live nth_append) (simp_all add: list_update_append pc_upd_def)
  have c: "pc_cell cc n = a" "pc_cell cc (Suc n) = b"
    using assms(1) n l by (simp_all add: pc_cell_live nth_append)
  have d: "live (pctableDelete ?u n) = xs @ [?b]" "cc_ok (pctableDelete ?u n)"
    using pctableNDelete_live [OF u(2), of n 1] u l(2) by (simp_all add: pctableDelete_def)
  have m: "cc_mb (pctableDelete ?u n) = cc_mb cc"
    by (simp add: pctableDelete_def pctableNDelete_def u(4))
  have t: "tidy_epilogue cc = (if opcode b = opc_end \<and> opcode a = opc_return then pctableDelete ?u n else cc)"
    using n c by (simp add: tidy_epilogue_def Let_def)
  have o: "offs cc = map increasing_byteoff xs @ [increasing_byteoff a, increasing_byteoff b]"
    "offs (pctableDelete ?u n) = map increasing_byteoff xs @ [increasing_byteoff a]"
    using l(1) d(1) by (simp_all add: offs_def)
  show "cc_ok (tidy_epilogue cc)" "sorted (offs (tidy_epilogue cc))"
    "set (offs (tidy_epilogue cc)) \<subseteq> set (offs cc)" "cc_mb (tidy_epilogue cc) = cc_mb cc"
    using assms(1,3) d(2) m unfolding t by (auto simp: o sorted_append)
qed


definition inside :: "int \<Rightarrow> int \<Rightarrow> CompilerContext \<Rightarrow> bool" where
  \<comment> \<open>a well-formed context with a sorted table, its offsets between \<open>lo\<close> and \<open>hi\<close>\<close>
  "inside lo hi cc \<longleftrightarrow> cc_ok cc \<and> sorted (offs cc) \<and> (\<forall>x \<in> set (offs cc). lo \<le> x \<and> x \<le> hi)"

lemma inside_extends:
  "inside lo hi cc \<Longrightarrow> extends p cc cc' \<Longrightarrow> hi \<le> p \<Longrightarrow> lo \<le> p \<Longrightarrow> inside lo p cc'"
  by (force simp: inside_def extends_def sorted_append sorted_replicate)

lemma inside_appended:
  "inside lo hi cc \<Longrightarrow> appended p len cc cc' \<Longrightarrow> hi \<le> p \<Longrightarrow> lo \<le> p \<Longrightarrow> p \<le> len \<Longrightarrow> inside lo len cc'"
  by (force simp: inside_def appended_def sorted_append)

lemma inside_note_flags [simp]: "inside lo hi (note_flags E c cc) = inside lo hi cc"
  by (simp add: inside_def offs_def)

lemma inside_mono: "inside lo hi cc \<Longrightarrow> hi \<le> hi' \<Longrightarrow> inside lo hi' cc"
  by (force simp: inside_def)

lemma pctablelen_offs: "cc_ok cc \<Longrightarrow> pctablelen cc = length (offs cc)"
  by (simp add: offs_def)

lemma emit_epilogue_inside:
  assumes "processAnOpcode E opc_epilogue INT_MAX (v, cc) = Inr (r, v', cc')"
    "inside lo INT_MAX cc" "2 \<le> pctablelen cc" "lo \<le> INT_MAX"
  shows "inside lo INT_MAX cc'"
  using assms(1)
proof (cases rule: processAnOpcode_effect)
  case leave
  then show ?thesis using assms(2) by simp
next
  case (emit opc oper i opc' i')
  note t = tidy_epilogue_offs [of cc]
  have "inside lo INT_MAX (tidy_epilogue cc)"
    using t(1,2) t(3) assms(2,3) unfolding inside_def by (meson subsetD)
  then have "inside lo INT_MAX (pctableAdd (tidy_epilogue cc) opc' oper INT_MAX)"
    by (rule inside_extends [OF _ pctableAdd_extends]) (use t(1) assms in \<open>auto simp: inside_def\<close>)
  then show ?thesis
    using emit(3) by simp
qed

lemma processAnOpcode_adds:
  assumes "processAnOpcode E c p (v, cc) = Inr (r, v', cc')" "cc_ok cc" "c \<notin> resolving_codes"
    "c \<noteq> opc_wide" "c \<noteq> opc_epilogue"
  shows "length (offs cc') = Suc (length (offs cc))"
  using assms(1)
proof (cases rule: processAnOpcode_effect)
  case leave
  with xlat_switch_plain [OF leave(1) assms(4)] xlat_resolving_range(1) assms(3) show ?thesis by blast
next
  case (emit opc oper i opc' i')
  then show ?thesis
    using assms(2,5) by (simp add: offs_def wf_intros frame_simps)
qed

lemma epilogue_list: "\<exists>cs. epilogue v mb = opc_epilogue # cs \<and> opc_epilogue \<notin> set cs"
  by (simp add: epilogue_def)

lemma makePC_tail_inside:
  assumes "makePC_tail E (v, cc) = Inr (v', cc')" "inside lo hi cc" "1 \<le> pctablelen cc" "lo \<le> hi" "hi \<le> INT_MAX"
  shows "inside lo INT_MAX cc'" "cc_mb cc' = cc_mb cc"
proof -
  have ok: "cc_ok cc" using assms(2) by (simp add: inside_def)
  from assms(1) obtain v1 cc1 v2 cc2 where s1: "emit E INT_MAX opc_end (v, cc) = Inr (v1, cc1)"
    and s2: "(if exception_table (methods v1 (cc_mb cc1)) \<noteq> [] \<or> may_throw cc1
            then emit E INT_MAX opc_exc_handler (v1, cc1) else Inr (v1, cc1)) = Inr (v2, cc2)"
    and s3: "emits E INT_MAX (epilogue v2 (cc_mb cc2)) (v2, cc2) = Inr (v', cc')"
    unfolding makePC_tail_def by (elim bindE_InrE) (auto elim!: bindE_InrE simp del: emits.simps)
  from emit_extends [OF s1 ok] have e1: "extends INT_MAX cc cc1" by simp
  note i1 = inside_extends [OF assms(2) e1]
  from s2 have e2: "extends INT_MAX cc1 cc2"
    using emit_extends [OF _ extends_ok [OF e1], of E INT_MAX opc_exc_handler v1 v2 cc2] extends_refl [OF extends_ok [OF e1]]
    by (auto split: if_splits)
  from extends_trans [OF e1 e2] have e: "extends INT_MAX cc cc2" .
  have i2: "inside lo INT_MAX cc2"
    using inside_extends [OF assms(2) e] assms(4,5) by simp
  have offs1: "length (offs cc1) = Suc (length (offs cc))"
  proof -
    from s1 obtain r where "processAnOpcode E opc_end INT_MAX (v, cc) = Inr (r, v1, cc1)"
      by (auto simp: emit_def bindE_Inr)
    from processAnOpcode_adds [OF this] ok show ?thesis by (simp add: resolving_codes_def)
  qed
  have two: "2 \<le> pctablelen cc2"
    using offs1 e2 assms(3) ok extends_ok [OF e2] by (auto simp: pctablelen_offs extends_def)
  obtain cs where cs: "epilogue v2 (cc_mb cc2) = opc_epilogue # cs" "opc_epilogue \<notin> set cs"
    using epilogue_list by blast
  with s3 obtain r v3 cc3 where s4: "processAnOpcode E opc_epilogue INT_MAX (v2, cc2) = Inr (r, v3, cc3)"
    "emits E INT_MAX cs (v3, cc3) = Inr (v', cc')"
    by (auto simp: emit_def bindE_Inr)
  have i3: "inside lo INT_MAX cc3"
    using emit_epilogue_inside [OF s4(1) i2 two] assms(4,5) by simp
  then have ok3: "cc_ok cc3" by (simp add: inside_def)
  from inside_extends [OF i3 emits_extends [OF s4(2) ok3 cs(2)]] assms(4,5) show "inside lo INT_MAX cc'" by simp
  show "cc_mb cc' = cc_mb cc"
    using e processAnOpcode_mb [OF s4(1)] emits_mb [OF s4(2)] by (simp add: extends_def)
qed


lemma prologue_list: "\<exists>cs. prologue v mb = opc_methodhead # cs \<and> opc_epilogue \<notin> set (prologue v mb)"
  by (simp add: prologue_def)

lemma prologue_inside:
  assumes "emits E (-1) (prologue v0 mb) (v, cc) = Inr (v', cc')" "cc_ok cc" "live cc = []"
  shows "inside (-1) (-1) cc'" "1 \<le> pctablelen cc'"
proof -
  from prologue_list obtain cs where cs: "prologue v0 mb = opc_methodhead # cs" "opc_epilogue \<notin> set (prologue v0 mb)"
    by blast
  have "inside (-1) (-1) cc"
    using assms(2,3) by (simp add: inside_def offs_def)
  from inside_extends [OF this emits_extends [OF assms(1,2) cs(2)]] show i: "inside (-1) (-1) cc'" by simp
  from assms(1) cs(1) obtain r v1 cc1 where s: "processAnOpcode E opc_methodhead (-1) (v, cc) = Inr (r, v1, cc1)"
    "emits E (-1) cs (v1, cc1) = Inr (v', cc')"
    by (auto simp: emit_def bindE_Inr)
  have l: "length (offs cc1) = Suc (length (offs cc))"
    using processAnOpcode_adds [OF s(1) assms(2)] by (simp add: resolving_codes_def)
  have "cc_ok cc1"
    using processAnOpcode_extends [OF s(1) assms(2)] by (simp add: extends_def)
  from emits_extends [OF s(2) this] cs l have "1 \<le> length (offs cc')"
    by (auto simp: extends_def)
  with i show "1 \<le> pctablelen cc'" by (simp add: pctablelen_offs inside_def)
qed

lemma makePCTable_inside:
  assumes E: "resolver_ok E" and ok: "cc_ok cc" "live cc = []" and lock: "\<not> OPT_SETQ OPT_IGNLOCK v"
    and len: "0 \<le> mb_code_length (methods v (cc_mb cc))" "mb_code_length (methods v (cc_mb cc)) \<le> INT_MAX"
    and walks: "walks (mb_code (methods v (cc_mb cc))) (mb_code_length (methods v (cc_mb cc))) n 0"
    and run: "makePCTable E n (v, cc) = Inr (exc, v', cc')"
  shows "inside (-1) INT_MAX cc'" "cc_mb cc' = cc_mb cc"
proof -
  let ?len = "mb_code_length (methods v (cc_mb cc))"
  from run obtain v1 cc1 v2 cc2 exc2 where
    s1: "emits E (-1) (prologue v (cc_mb cc)) (v, cc) = Inr (v1, cc1)"
    and s2: "makePC_loop E n 0 (v1, cc1) = Inr (exc2, v2, cc2)"
    and s3: "if exc2 then v' = v2 \<and> cc' = cc2 else makePC_tail E (v2, cc2) = Inr (v', cc')"
    unfolding makePCTable_def by (auto elim!: bindE_InrE split: if_splits)
  have mb: "cc_mb cc1 = cc_mb cc" using emits_mb [OF s1] .
  have "same_code v v1" using emits_same_code [OF E s1] .
  then have w: "walks (mb_code (methods v1 (cc_mb cc1))) (mb_code_length (methods v1 (cc_mb cc1))) n 0"
    and l: "mb_code_length (methods v1 (cc_mb cc1)) = ?len" and lk: "\<not> OPT_SETQ OPT_IGNLOCK v1"
    using walks lock by (simp_all add: same_code_def mb OPT_SETQ_def)
  note i1 = prologue_inside [OF s1 ok]
  then have "cc_ok cc1" by (simp add: inside_def)
  from makePC_loop_appended [OF E w lk this s2] have a: "appended 0 ?len cc1 cc2" by (simp add: l)
  have i2: "inside (-1) ?len cc2" using inside_appended [OF i1(1) a] len by simp
  have p2: "1 \<le> pctablelen cc2"
    using i1 i2 a by (auto simp: pctablelen_offs inside_def appended_def)
  have m2: "cc_mb cc2 = cc_mb cc" using a mb by (simp add: appended_def)
  have "inside (-1) INT_MAX cc' \<and> cc_mb cc' = cc_mb cc"
  proof (cases exc2)
    case True
    with s3 i2 m2 len show ?thesis by (auto intro: inside_mono)
  next
    case False
    with s3 have "makePC_tail E (v2, cc2) = Inr (v', cc')" by simp
    from makePC_tail_inside [OF this i2 p2] len m2 show ?thesis by simp
  qed
  then show "inside (-1) INT_MAX cc'" "cc_mb cc' = cc_mb cc" by simp_all
qed

lemma makePCTable_enough:
  assumes E: "resolver_ok E" and ok: "cc_ok cc" "live cc = []" and lock: "\<not> OPT_SETQ OPT_IGNLOCK v"
    and walks: "walks (mb_code (methods v (cc_mb cc))) (mb_code_length (methods v (cc_mb cc))) n 0"
  shows "makePCTable E n (v, cc) \<noteq> Inl OutOfFuel" "makePCTable E (n + k) (v, cc) = makePCTable E n (v, cc)"
proof -
  have loop: "makePC_loop E n 0 (v1, cc1) \<noteq> Inl OutOfFuel"
    if s1: "emits E (-1) (prologue v (cc_mb cc)) (v, cc) = Inr (v1, cc1)" for v1 cc1
  proof (rule makePC_loop_enough [OF E])
    have mb: "cc_mb cc1 = cc_mb cc" using emits_mb [OF s1] .
    have "same_code v v1" using emits_same_code [OF E s1] .
    then show "walks (mb_code (methods v1 (cc_mb cc1))) (mb_code_length (methods v1 (cc_mb cc1))) n 0"
      "\<not> OPT_SETQ OPT_IGNLOCK v1"
      using walks lock by (simp_all add: same_code_def mb OPT_SETQ_def)
    show "cc_ok cc1" using prologue_inside(1) [OF s1 ok] by (simp add: inside_def)
  qed
  show "makePCTable E n (v, cc) \<noteq> Inl OutOfFuel"
    using loop emits_fuel [of E "-1" "prologue v (cc_mb cc)" "(v, cc)"]
    by (auto simp: makePCTable_def makePC_tail_def bindE_fuel emits_fuel emit_fuel simp del: emits.simps
        split: if_splits)
  show "makePCTable E (n + k) (v, cc) = makePCTable E n (v, cc)"
    using loop makePC_loop_more [of E n 0 _ k]
    by (cases "emits E (-1) (prologue v (cc_mb cc)) (v, cc)") (auto simp: makePCTable_def)
qed


subsection \<open>Properties\<close>


definition code_vm :: "u8 list \<Rightarrow> vm" where
  \<comment> \<open>the methods of \<open>sample_vm\<close> with the given bytecode; for witnesses\<close>
  "code_vm bs = sample_vm\<lparr>methods := (\<lambda>m. (methods sample_vm m)\<lparr>
     mb_code := (\<lambda>p. if 0 \<le> p \<and> nat p < length bs then bs ! nat p else 0),
     mb_code_length := int (length bs)\<rparr>)\<rparr>"

definition plain_env :: env where
  \<comment> \<open>every constant resolves; no template throws or jumps; for witnesses\<close>
  "plain_env = sample_env\<lparr>resolve := (\<lambda>v c i t. (v, True)), ct_flag := (\<lambda>_ _. 0)\<rparr>"

lemma plain_env_ok: "resolver_ok plain_env"
  by (simp add: resolver_ok_def plain_env_def)

lemma code_vm_bytes:
  "byte_at (mb_code (methods (code_vm [3, 172]) m)) 0 = 3" "byte_at (mb_code (methods (code_vm [3, 172]) m)) 1 = 172"
  "mb_code_length (methods (code_vm bs) m) = int (length bs)"
  by (simp_all add: code_vm_def byte_at_def)

lemma insn_length_plain:
  "byte_at code p = c \<Longrightarrow> c \<notin> {opc_tableswitch, opc_lookupswitch, opc_wide} \<Longrightarrow> c \<le> opc_nonnull_quick \<Longrightarrow>
   insn_length code p = int (opcode_length ! c)"
  by (simp add: insn_length_def byte_increment_def)

lemma code_vm_walks:
  "walks (mb_code (methods (code_vm [3, 172]) m)) (mb_code_length (methods (code_vm [3, 172]) m)) 2 0"
proof -
  let ?code = "mb_code (methods (code_vm [3, 172]) m)"
  have l: "opcode_length ! 3 = 1" "opcode_length ! 172 = 1"
    by (simp_all add: opcode_length_def)
  have "insn_length ?code 0 = 1" "insn_length ?code 1 = 1"
    by (simp_all add: insn_length_plain [OF code_vm_bytes(1)] insn_length_plain [OF code_vm_bytes(2)] l)
  moreover from this have "insn_ok ?code 0" "insn_ok ?code 1"
    by (simp_all add: insn_ok_def code_vm_bytes)
  ultimately show ?thesis
    by (simp add: walks.simps [of _ _ "Suc _"] walks.simps [of _ _ 0] numeral_2_eq_2 code_vm_bytes(3))
qed



text \<open>C7: With the option to ignore locks on, the pass never gets past a \<open>monitorenter\<close> or
\<open>monitorexit\<close>: the case of the switch leaves the offset as it is, so the loop comes back to the
same instruction for ever, whatever the fuel.\<close>
theorem makePCTable_ignlock_stalls:
  assumes "OPT_SETQ OPT_IGNLOCK v" "p < mb_code_length (methods v (cc_mb cc))"
    and "byte_at (mb_code (methods v (cc_mb cc))) p \<in> {opc_monitorenter, opc_monitorexit}"
  shows "\<forall>n. makePC_loop E n p (v, cc) = Inl OutOfFuel"
  using assms by (simp add: makePC_loop_stall stalls_def)

theorem makePCTable_ignlock_stalls_witness:
  "\<forall>n. makePC_loop plain_env n 0 (OPT_SET OPT_IGNLOCK (code_vm [194]), fresh_cc) = Inl OutOfFuel"
  by (rule makePCTable_ignlock_stalls)
    (simp_all add: OPT_SETQ_def OPT_SET_def code_vm_def sample_vm_def byte_at_def)

lemma instanceof_not_pure: "\<forall>c \<in> {opc_instanceof, opc_instanceof_quick}. xlat_pure code p c = None"
  by (simp add: xlat_pure_def xlat_const_def xlat_load_def xlat_store_def xlat_branch_def xlat_quick_def
      xlat_invoke_def xlat_class_def)

text \<open>\<open>instanceof java/lang/Object\<close> is dropped as if it were a \<open>checkcast\<close>: no internal
instruction is emitted for it, so the reference it should replace by a truth value stays on the
operand stack, and its byte offset is missing from the table, where branches look their targets
up.\<close>
theorem instanceof_Object_dropped:
  assumes "c \<in> {opc_instanceof, opc_instanceof_quick}"
    and "index = nat (GET_UINT16 (mb_code (methods v (cc_mb cc))) (p + 1))"
    and "cp_resolved (classes v (mb_clazz (methods v (cc_mb cc)))) index"
    and "cp_clazz (mb_cp v (cc_mb cc) index) = classJavaLangObject E"
  shows "processAnOpcode E c p (v, cc) = Inr (3, v, cc)"
proof -
  have "xlat_pure code p c = None" for code
    using bspec [OF instanceof_not_pure assms(1)] .
  moreover have "xlat_resolving E mb p c v = Some (xlat_instanceof E mb p v)" "c \<noteq> opc_wide" for mb
    using assms(1) by (auto simp: xlat_resolving_def)
  ultimately have "xlat_switch E (cc_mb cc) p c v = Inr (v, Leave 3)"
    using assms(2-4) by (simp add: xlat_switch_def xlat_instanceof_def resolve_cp_def Let_def)
  then show ?thesis by (simp add: processAnOpcode_def Let_def)
qed

lemma skip_gotos_self_none:
  assumes "byte_at code p = opc_goto" "GET_INT16 code (p + 1) = 0"
  shows "skip_gotos code p = None"
proof (rule ccontr)
  assume "skip_gotos code p \<noteq> None"
  then obtain q where q: "skip_gotos code p = Some q" by auto
  have "skip_gotos code p = Some q \<Longrightarrow> \<not> (byte_at code p = opc_goto \<and> GET_INT16 code (p + 1) = 0)"
    by (rule skip_gotos.raw_induct [where
        P = "\<lambda>code p q. \<not> (byte_at code p = opc_goto \<and> GET_INT16 code (p + 1) = 0)"]) (auto split: if_splits)
  with q assms show False by simp
qed

text \<open>The search for the instruction behind a recursive call follows \<open>goto\<close> instructions
without a bound: when a recursive call of a callee that is not synchronized is followed by a
\<open>goto\<close> to itself, the compiler never returns.\<close>
theorem tail_recursion_self_goto:
  assumes "cp_mb (mb_cp v mb index) = mb" "\<not> acc (mb_access (methods v mb)) ACC_SYNCHRONIZED"
    and "byte_at (mb_code (methods v mb)) (p + byteinc) = opc_goto"
    and "GET_INT16 (mb_code (methods v mb)) (p + byteinc + 1) = 0"
  shows "tail_call E mb index p byteinc v = None"
  using assms skip_gotos_self_none [of "mb_code (methods v mb)" "p + byteinc"]
  by (simp add: tail_call_def)


theorem instanceof_Object_dropped_witness:
  "processAnOpcode plain_env opc_instanceof 0
     ((code_vm [193, 0, 5])\<lparr>classes := (\<lambda>_. (classes sample_exc_vm 0)\<lparr>constant_pool := (\<lambda>_.
        \<lparr>cp_i = 0, cp_mb = 0, cp_fb = 0, cp_clazz = classJavaLangObject plain_env\<rparr>)\<rparr>)\<rparr>, fresh_cc) =
   Inr (3, (code_vm [193, 0, 5])\<lparr>classes := (\<lambda>_. (classes sample_exc_vm 0)\<lparr>constant_pool := (\<lambda>_.
        \<lparr>cp_i = 0, cp_mb = 0, cp_fb = 0, cp_clazz = classJavaLangObject plain_env\<rparr>)\<rparr>)\<rparr>, fresh_cc)"
  by (rule instanceof_Object_dropped) (simp_all add: sample_exc_vm_def)

theorem tail_recursion_self_goto_witness:
  "\<forall>E. tail_call E 7 1 0 3 ((code_vm [184, 0, 1, 167, 0, 0])\<lparr>classes := (\<lambda>_. (classes sample_exc_vm 0)\<lparr>constant_pool := (\<lambda>_.
        \<lparr>cp_i = 0, cp_mb = 7, cp_fb = 0, cp_clazz = 0\<rparr>)\<rparr>)\<rparr>) = None"
  by (intro allI tail_recursion_self_goto)
    (simp_all add: sample_exc_vm_def code_vm_def sample_vm_def acc_def byte_at_def GET_INT16_def bit_numeral_rec)

end
