(* ===== verification/Blocks.thy ===== *)
theory Blocks
  imports Search CodeInfoCtx
begin

text \<open>
  The pass that recognises basic blocks (\<open>makeBlockStructure\<close> of \<^verbatim>\<open>compile.c\<close>): it marks the
  targets of branches and switches as block heads, the targets of backward branches as loop
  heads and their sources as loop tails, and puts a check for asynchronous exceptions in front
  of a backward branch.
\<close>

definition mark :: "nat \<Rightarrow> int \<Rightarrow> CompilerContext \<Rightarrow> fatal + CompilerContext" where
  \<comment> \<open>the entry \<open>i\<close> branches by \<open>rel\<close> bytes\<close>
  "mark i rel cc =
     (case pctableGetByPC cc (rel + byteoff (pc_cell cc i)) of
        None \<Rightarrow> Inl NullDeref
      | Some t \<Rightarrow>
          (let cc = pc_upd cc t pcentrySetBlockHead in
           Inr (if rel < 0 then pc_upd (pc_upd cc t pcentrySetLoopHead) i pcentrySetLoopTail else cc)))"

fun marks :: "nat \<Rightarrow> int list \<Rightarrow> CompilerContext \<Rightarrow> fatal + CompilerContext" where
  "marks i [] cc = Inr cc"
| "marks i (rel # rels) cc = bindE (mark i rel cc) (marks i rels)"

definition branch_offset :: "(int \<Rightarrow> u8) \<Rightarrow> int \<Rightarrow> int" where
  \<comment> \<open>the wide \<open>jsr_w\<close> is read like \<open>jsr\<close>\<close>
  "branch_offset code p =
     (if byte_at code p = opc_goto_w then GET_INT32 code (p + 1) else GET_INT16 code (p + 1))"

definition switch_offsets :: "(int \<Rightarrow> u8) \<Rightarrow> int \<Rightarrow> nat \<Rightarrow> int list" where
  \<comment> \<open>the offsets a switch reads, the default first\<close>
  "switch_offsets code p opc =
     (let argp = ALIGNUP32 (p + 1) in
      if opc = opc_tableswitch then
        (let l = ntohl_at code (argp + 4); h = ntohl_at code (argp + 8)
         in ntohl_at code argp # map (\<lambda>j. ntohl_at code (argp + 12 + 4 * int j)) [0..<nat (h - l + 1)])
      else
        (let npairs = ntohl_at code (argp + 4)
         in ntohl_at code argp # map (\<lambda>j. ntohl_at code (argp + 8 + 8 * int j + 4)) [0..<nat npairs]))"

definition has_check :: "CompilerContext \<Rightarrow> int \<Rightarrow> nat \<Rightarrow> bool" where
  \<comment> \<open>\<open>tgtpc\<close> is a byte offset, and the loop uses it as an index of the table\<close>
  "has_check cc tgtpc i \<longleftrightarrow>
     list_ex (\<lambda>j. opcode (pc_cell cc j) = opc_inv_head \<or> opcode (pc_cell cc j) = opc_athrow) [nat tgtpc..<i]"

definition block_step :: "(int \<Rightarrow> u8) \<Rightarrow> nat \<Rightarrow> CompilerContext \<Rightarrow> fatal + (nat \<times> CompilerContext)" where
  \<comment> \<open>one round of the loop, without the final \<open>i++\<close>; the case of \<open>opc_jsr\<close> behind the range of
      branches, which includes it, is never reached\<close>
  "block_step code i cc =
     (let e = pc_cell cc i; p = byteoff e in
      if opc_ifeq \<le> opcode e \<and> opcode e \<le> opc_jsr then
        (let rel = branch_offset code p in
         bindE (mark i rel cc) (\<lambda>cc.
           if rel < 0 \<and> \<not> has_check cc (rel + p) i
           then Inr (i + 1, pctableInsert cc i opc_exc_check (-1) p (-1) (-1))
           else Inr (i, cc)))
      else if opcode e = opc_tableswitch \<or> opcode e = opc_lookupswitch then
        bindE (marks i (switch_offsets code p (opcode e)) cc) (\<lambda>cc. Inr (i, cc))
      else Inr (i, cc))"

lemma pc_upd_len [simp]: "pctablelen (pc_upd cc i f) = pctablelen cc"
  by (simp add: pc_upd_def)

lemma mark_len: "mark i rel cc = Inr cc' \<Longrightarrow> pctablelen cc' = pctablelen cc"
  by (auto simp: mark_def Let_def split: option.splits)

lemma marks_len: "marks i rels cc = Inr cc' \<Longrightarrow> pctablelen cc' = pctablelen cc"
  by (induction rels arbitrary: cc) (auto simp: bindE_Inr dest: mark_len)

lemma block_step_len:
  "block_step code i cc = Inr (i', cc') \<Longrightarrow> i' = i \<and> pctablelen cc' = pctablelen cc \<or>
     i' = i + 1 \<and> pctablelen cc' = pctablelen cc + 1"
  by (auto simp: block_step_def Let_def bindE_Inr frame_simps split: if_splits dest: mark_len marks_len)

function blocks_from :: "(int \<Rightarrow> u8) \<Rightarrow> nat \<Rightarrow> CompilerContext \<Rightarrow> fatal + CompilerContext" where
  "blocks_from code i cc =
     (if i < pctablelen cc then
        (case block_step code i cc of
           Inl e \<Rightarrow> Inl e
         | Inr (i', cc') \<Rightarrow> blocks_from code (i' + 1) cc')
      else Inr cc)"
  by pat_completeness auto
termination
  by (relation "measure (\<lambda>(code, i, cc). pctablelen cc - i)") (auto dest: block_step_len)

declare blocks_from.simps [simp del]

definition makeBlockStructure :: "vm \<Rightarrow> CompilerContext \<Rightarrow> fatal + CompilerContext" where
  "makeBlockStructure v cc = blocks_from (mb_code (methods v (cc_mb cc))) 0 cc"


subsection \<open>What marking does\<close>

definition grows_to :: "pcentry \<Rightarrow> pcentry \<Rightarrow> bool" where
  \<comment> \<open>the same entry, possibly with more marks\<close>
  "grows_to e e' \<longleftrightarrow> opcode e' = opcode e \<and> operand e' = operand e \<and> byteoff e' = byteoff e \<and>
     increasing_byteoff e' = increasing_byteoff e \<and> pcentryState e' = pcentryState e \<and>
     (pcentryBlockHead e \<longrightarrow> pcentryBlockHead e') \<and> (pcentryLoopHead e \<longrightarrow> pcentryLoopHead e') \<and>
     (pcentryLoopTail e \<longrightarrow> pcentryLoopTail e')"

lemma grows_to_refl [simp]: "grows_to e e"
  by (simp add: grows_to_def)

lemma grows_to_trans: "grows_to e e' \<Longrightarrow> grows_to e' e'' \<Longrightarrow> grows_to e e''"
  by (simp add: grows_to_def)

lemma grows_to_sets [simp]:
  "grows_to e (pcentrySetBlockHead e)" "grows_to e (pcentrySetLoopHead e)" "grows_to e (pcentrySetLoopTail e)"
  by (simp_all add: grows_to_def)

definition agree :: "CompilerContext \<Rightarrow> bool" where
  \<comment> \<open>no code is inlined yet\<close>
  "agree cc \<longleftrightarrow> (\<forall>e \<in> set (live cc). byteoff e = increasing_byteoff e)"

definition table_wf :: "CompilerContext \<Rightarrow> bool" where
  "table_wf cc \<longleftrightarrow> cc_ok cc \<and> table_sorted cc \<and> agree cc"

lemma all2_grows_refl: "list_all2 grows_to xs xs"
  by (simp add: list_all2_refl)

lemma all2_grows_trans: "list_all2 grows_to xs ys \<Longrightarrow> list_all2 grows_to ys zs \<Longrightarrow> list_all2 grows_to xs zs"
  by (rule list_all2_trans [OF grows_to_trans])

lemma all2_grows_update: "k < length xs \<Longrightarrow> grows_to (xs ! k) y \<Longrightarrow> list_all2 grows_to xs (xs[k := y])"
  by (simp add: list_all2_conv_all_nth nth_list_update)

lemma all2_grows_keys:
  "list_all2 grows_to xs ys \<Longrightarrow> map increasing_byteoff ys = map increasing_byteoff xs"
  "list_all2 grows_to xs ys \<Longrightarrow> map byteoff ys = map byteoff xs"
  by (induction rule: list_all2_induct) (simp_all add: grows_to_def)

lemma grows_wf:
  assumes "table_wf cc" "cc_ok cc'" "list_all2 grows_to (live cc) (live cc')"
  shows "table_wf cc'"
proof -
  from assms(3) have "agree cc'"
    using assms(1) unfolding table_wf_def agree_def
    by (induction rule: list_all2_induct) (auto simp: grows_to_def)
  with assms all2_grows_keys(1) [OF assms(3)] show ?thesis
    by (simp add: table_wf_def table_sorted_def)
qed

lemma pc_upd_grows:
  assumes "cc_ok cc" "k < pctablelen cc" "\<And>e. grows_to e (f e)"
  shows "list_all2 grows_to (live cc) (live (pc_upd cc k f))" "cc_ok (pc_upd cc k f)"
  using assms by (simp_all add: pc_upd_live all2_grows_update)

definition hit :: "pcentry \<Rightarrow> int \<Rightarrow> CompilerContext \<Rightarrow> bool" where
  \<comment> \<open>the entry's branch by \<open>rel\<close> is marked at both ends\<close>
  "hit e rel cc \<longleftrightarrow>
     (\<exists>t \<in> set (live cc). increasing_byteoff t = rel + byteoff e \<and> pcentryBlockHead t \<and>
        (rel < 0 \<longrightarrow> pcentryLoopHead t)) \<and>
     (rel < 0 \<longrightarrow> pcentryLoopTail e)"

lemma hit_grows:
  assumes "hit e rel cc" "grows_to e e'" "\<forall>t \<in> set (live cc). \<exists>t' \<in> set (live cc'). grows_to t t'"
  shows "hit e' rel cc'"
proof -
  from assms(1) obtain t where t: "t \<in> set (live cc)" "increasing_byteoff t = rel + byteoff e" "pcentryBlockHead t"
    "rel < 0 \<longrightarrow> pcentryLoopHead t" "rel < 0 \<longrightarrow> pcentryLoopTail e"
    by (auto simp: hit_def)
  from assms(3) t(1) obtain t' where "t' \<in> set (live cc')" "grows_to t t'" by blast
  with t assms(2) show ?thesis
    unfolding hit_def grows_to_def by (intro conjI bexI [of _ t']) auto
qed

lemma all2_grows_ex: "list_all2 grows_to xs ys \<Longrightarrow> \<forall>t \<in> set xs. \<exists>t' \<in> set ys. grows_to t t'"
  by (induction rule: list_all2_induct) auto

lemma mark_works:
  assumes "table_wf cc" "i < pctablelen cc" "rel + byteoff (live cc ! i) \<in> increasing_byteoff ` set (live cc)"
  shows "\<exists>cc'. mark i rel cc = Inr cc' \<and> cc_ok cc' \<and> list_all2 grows_to (live cc) (live cc') \<and>
    hit (live cc' ! i) rel cc'"
proof -
  have ok: "cc_ok cc" using assms(1) by (simp add: table_wf_def)
  let ?p = "rel + byteoff (live cc ! i)"
  from assms(3) ok obtain k where k: "k < pctablelen cc" "increasing_byteoff (live cc ! k) = ?p"
    by (auto simp: in_set_conv_nth)
  from getByPC_finds [OF ok _ k] assms(1) obtain t where
    t: "pctableGetByPC cc ?p = Some t" "t \<le> k" "increasing_byteoff (live cc ! t) = ?p"
    unfolding table_wf_def by metis
  then have tl: "t < pctablelen cc" using k by simp
  let ?b = "pc_upd cc t pcentrySetBlockHead"
  note b = pc_upd_grows [OF ok tl, of pcentrySetBlockHead, OF grows_to_sets(1)]
  have lb: "live ?b = (live cc)[t := pcentrySetBlockHead (live cc ! t)]"
    using ok tl by (simp add: pc_upd_live)
  have c: "pc_cell cc i = live cc ! i" using ok assms(2) by (simp add: pc_cell_live)
  have len: "length (live cc) = pctablelen cc" using ok by simp
  show ?thesis
  proof (cases "rel < 0")
    case False
    then have m: "mark i rel cc = Inr ?b" using t(1) c by (simp add: mark_def Let_def)
    have "live ?b ! t \<in> set (live ?b)" by (rule nth_mem) (simp add: lb len tl)
    moreover have "live ?b ! t = pcentrySetBlockHead (live cc ! t)" using tl len lb by simp
    moreover have "byteoff (live ?b ! i) = byteoff (live cc ! i)"
      unfolding lb using assms(2) len by (cases "t = i") (simp_all add: pcentry_flag_defs)
    ultimately have "hit (live ?b ! i) rel ?b"
      unfolding hit_def using False t(3) by (intro conjI bexI [of _ "live ?b ! t"]) auto
    with m b show ?thesis by blast
  next
    case True
    let ?h = "pc_upd ?b t pcentrySetLoopHead" let ?r = "pc_upd ?h i pcentrySetLoopTail"
    have m: "mark i rel cc = Inr ?r" using t(1) c True by (simp add: mark_def Let_def)
    have h: "list_all2 grows_to (live ?b) (live ?h)" "cc_ok ?h"
      using pc_upd_grows [OF b(2), of t pcentrySetLoopHead] tl by simp_all
    have r: "list_all2 grows_to (live ?h) (live ?r)" "cc_ok ?r"
      using pc_upd_grows [OF h(2), of i pcentrySetLoopTail] assms(2) by simp_all
    have lh: "live ?h = (live cc)[t := pcentrySetLoopHead (pcentrySetBlockHead (live cc ! t))]"
      using b(2) tl len lb by (simp add: pc_upd_live)
    have lr: "live ?r = (live ?h)[i := pcentrySetLoopTail (live ?h ! i)]"
      using h(2) assms(2) by (simp add: pc_upd_live)
    have tt: "live ?r ! t \<in> set (live ?r)" by (rule nth_mem) (simp add: lh lr len tl)
    have te: "increasing_byteoff (live ?r ! t) = ?p" "pcentryBlockHead (live ?r ! t)" "pcentryLoopHead (live ?r ! t)"
      using tl len t(3) assms(2) by (auto simp: lh lr nth_list_update)
    have ie: "byteoff (live ?r ! i) = byteoff (live cc ! i)" "pcentryLoopTail (live ?r ! i)"
      using tl len assms(2) by (auto simp: lh lr nth_list_update)
    have "hit (live ?r ! i) rel ?r"
      unfolding hit_def using tt te ie by (intro conjI bexI [of _ "live ?r ! t"]) auto
    with m r b h show ?thesis by (blast intro: all2_grows_trans)
  qed
qed

lemma marks_works:
  assumes "table_wf cc" "i < pctablelen cc"
    "\<forall>rel \<in> set rels. rel + byteoff (live cc ! i) \<in> increasing_byteoff ` set (live cc)"
  shows "\<exists>cc'. marks i rels cc = Inr cc' \<and> cc_ok cc' \<and> list_all2 grows_to (live cc) (live cc') \<and>
    (\<forall>rel \<in> set rels. hit (live cc' ! i) rel cc')"
  using assms
proof (induction rels arbitrary: cc)
  case Nil
  then show ?case by (simp add: all2_grows_refl table_wf_def)
next
  case (Cons rel rels)
  from mark_works [of cc i rel] Cons.prems obtain cc1 where
    1: "mark i rel cc = Inr cc1" "cc_ok cc1" "list_all2 grows_to (live cc) (live cc1)" "hit (live cc1 ! i) rel cc1"
    by auto
  have wf1: "table_wf cc1" using grows_wf [OF Cons.prems(1) 1(2,3)] .
  have len: "length (live cc) = pctablelen cc" "pctablelen cc1 = pctablelen cc"
    using Cons.prems(1) mark_len [OF 1(1)] by (simp_all add: table_wf_def)
  have b: "byteoff (live cc1 ! i) = byteoff (live cc ! i)"
    using 1(3) Cons.prems(2) len by (simp add: list_all2_conv_all_nth grows_to_def)
  have keys: "increasing_byteoff ` set (live cc1) = increasing_byteoff ` set (live cc)"
    using arg_cong [OF all2_grows_keys(1) [OF 1(3)], of set] by simp
  from Cons.IH [OF wf1] Cons.prems len b keys obtain cc2 where
    2: "marks i rels cc1 = Inr cc2" "cc_ok cc2" "list_all2 grows_to (live cc1) (live cc2)"
      "\<forall>rel \<in> set rels. hit (live cc2 ! i) rel cc2"
    by auto
  have "hit (live cc2 ! i) rel cc2"
    using 2(3) len Cons.prems(2) 1(2)
    by (intro hit_grows [OF 1(4) _ all2_grows_ex [OF 2(3)]]) (simp add: list_all2_conv_all_nth)
  with 1 2 show ?case by (auto intro: all2_grows_trans)
qed


definition branches :: "(int \<Rightarrow> u8) \<Rightarrow> pcentry \<Rightarrow> int list" where
  "branches code e =
     (if opc_ifeq \<le> opcode e \<and> opcode e \<le> opc_jsr then [branch_offset code (byteoff e)]
      else if opcode e = opc_tableswitch \<or> opcode e = opc_lookupswitch then switch_offsets code (byteoff e) (opcode e)
      else [])"

definition targets_in :: "(int \<Rightarrow> u8) \<Rightarrow> CompilerContext \<Rightarrow> bool" where
  "targets_in code cc \<longleftrightarrow>
     (\<forall>e \<in> set (live cc). \<forall>rel \<in> set (branches code e). rel + byteoff e \<in> increasing_byteoff ` set (live cc))"

definition all_hit :: "(int \<Rightarrow> u8) \<Rightarrow> CompilerContext \<Rightarrow> pcentry \<Rightarrow> bool" where
  "all_hit code cc e \<longleftrightarrow> (\<forall>rel \<in> set (branches code e). hit e rel cc)"

definition chkless :: "CompilerContext \<Rightarrow> pcentry list" where
  "chkless cc = filter (\<lambda>e. opcode e \<noteq> opc_exc_check) (live cc)"

lemma grows_branches: "grows_to e e' \<Longrightarrow> branches code e' = branches code e"
  by (simp add: grows_to_def branches_def)

lemma grows_targets:
  assumes "targets_in code cc" "list_all2 grows_to (live cc) (live cc')"
  shows "targets_in code cc'"
proof -
  have keys: "increasing_byteoff ` set (live cc') = increasing_byteoff ` set (live cc)"
    using arg_cong [OF all2_grows_keys(1) [OF assms(2)], of set] by simp
  have "\<exists>e \<in> set (live cc). grows_to e e'" if "e' \<in> set (live cc')" for e'
    using assms(2) that by (metis in_set_conv_nth list_all2_conv_all_nth)
  note old = this
  show ?thesis
    unfolding targets_in_def keys
  proof (intro ballI)
    fix e' rel assume e': "e' \<in> set (live cc')" "rel \<in> set (branches code e')"
    from old [OF e'(1)] obtain e where e: "e \<in> set (live cc)" "grows_to e e'" by blast
    then have "byteoff e' = byteoff e" "branches code e' = branches code e"
      by (simp_all add: grows_branches) (simp add: grows_to_def)
    with assms(1) e e' show "rel + byteoff e' \<in> increasing_byteoff ` set (live cc)"
      by (simp add: targets_in_def)
  qed
qed

lemma all2_grows_chkless:
  "list_all2 grows_to (live cc) (live cc') \<Longrightarrow> list_all2 grows_to (chkless cc) (chkless cc')"
  unfolding chkless_def by (induction rule: list_all2_induct) (auto simp: grows_to_def)

text \<open>One round of the loop up to the insertion of a check.\<close>

lemma marking_round:
  assumes "table_wf cc" "targets_in code cc" "i < pctablelen cc" "\<forall>k < i. all_hit code cc (live cc ! k)"
  shows "\<exists>cc1. marks i (branches code (live cc ! i)) cc = Inr cc1 \<and> table_wf cc1 \<and> targets_in code cc1 \<and>
    list_all2 grows_to (live cc) (live cc1) \<and> (\<forall>k \<le> i. all_hit code cc1 (live cc1 ! k))"
proof -
  have len: "length (live cc) = pctablelen cc" using assms(1) by (simp add: table_wf_def)
  have "\<forall>rel \<in> set (branches code (live cc ! i)). rel + byteoff (live cc ! i) \<in> increasing_byteoff ` set (live cc)"
    using assms(2,3) len by (simp add: targets_in_def)
  from marks_works [OF assms(1,3) this] obtain cc1 where
    1: "marks i (branches code (live cc ! i)) cc = Inr cc1" "cc_ok cc1" "list_all2 grows_to (live cc) (live cc1)"
      "\<forall>rel \<in> set (branches code (live cc ! i)). hit (live cc1 ! i) rel cc1"
    by blast
  have g: "grows_to (live cc ! k) (live cc1 ! k)" if "k \<le> i" for k
    using 1(3) that assms(3) len by (simp add: list_all2_conv_all_nth)
  have "all_hit code cc1 (live cc1 ! k)" if "k \<le> i" for k
  proof (cases "k = i")
    case True
    with 1(4) g [OF order_refl] show ?thesis by (simp add: all_hit_def grows_branches)
  next
    case False
    with that assms(4) have "all_hit code cc (live cc ! k)" by simp
    with grows_branches [OF g [OF that]] hit_grows [OF _ g [OF that] all2_grows_ex [OF 1(3)]] show ?thesis
      by (simp add: all_hit_def)
  qed
  with 1 grows_wf [OF assms(1) 1(2,3)] grows_targets [OF assms(2) 1(3)] show ?thesis by blast
qed

lemma pctableInsert_live:
  assumes "cc_ok cc" "index \<le> pctablelen cc"
  shows "\<exists>c. live (pctableInsert cc index opc oper boff st noff) = take index (live cc) @ c # drop index (live cc) \<and>
    pcview c = new_view opc oper boff st noff"
proof -
  let ?g = "pctableGrow cc (Suc (pctablelen cc))"
  note g = pctableGrow_ok [OF assms(1), of "Suc (pctablelen cc)"]
  have len: "pctablelen cc < length (pctable ?g)"
    using g by (simp add: cc_ok_def)
  have t: "take (pctablelen cc) (pctable ?g) = live cc"
    using g(3,4) by (simp add: live_def)
  note ins = insert_cell [OF assms(2) len, simplified Suc_eq_plus1 [symmetric]]
  have t': "take (min index (pctablelen cc)) (pctable ?g) = take index (live cc)"
    by (simp add: t [symmetric] min.commute)
  show ?thesis
    using ins(1)
    by (simp add: pctableInsert_def Let_def live_def g(4) t [unfolded live_def] t' [unfolded live_def]
        pcview_def new_view_def)
qed

lemma sorted_insert_same:
  assumes "sorted (map f xs)" "i < length xs" "f c = f (xs ! i)"
  shows "sorted (map f (take i xs @ c # drop i xs))"
proof -
  have xs: "xs = take i xs @ drop i xs" "drop i xs = xs ! i # drop (i + 1) xs"
    using assms(2) by (simp_all add: Cons_nth_drop_Suc)
  from assms(1) have "sorted (map f (take i xs @ xs ! i # drop (i + 1) xs))"
    using xs by metis
  then show ?thesis
    unfolding xs(2) using assms(3) by (auto simp: sorted_append)
qed

lemma inserted_check:
  assumes "table_wf cc" "targets_in code cc" "i < pctablelen cc" "\<forall>k \<le> i. all_hit code cc (live cc ! k)"
  defines "cc' \<equiv> pctableInsert cc i opc_exc_check (-1) (byteoff (live cc ! i)) (-1) (-1)"
  shows "table_wf cc'" "targets_in code cc'" "chkless cc' = chkless cc"
    "\<forall>k \<le> i + 1. all_hit code cc' (live cc' ! k)"
proof -
  have ok: "cc_ok cc" "length (live cc) = pctablelen cc" using assms(1) by (simp_all add: table_wf_def)
  let ?p = "byteoff (live cc ! i)"
  from pctableInsert_live [OF ok(1), of i] assms(3) obtain c where
    c: "live cc' = take i (live cc) @ c # drop i (live cc)" "opcode c = opc_exc_check"
    "byteoff c = ?p" "increasing_byteoff c = ?p"
    unfolding cc'_def by (fastforce simp: pcview_def new_view_def)
  have ok': "cc_ok cc'" using assms(3) ok(1) by (simp add: cc'_def table_simps)
  have sets: "set (live cc') = insert c (set (live cc))"
    unfolding c(1) by simp (metis append_take_drop_id set_append)
  have brc: "branches code c = []" using c(2) by (simp add: branches_def)
  have e: "live cc ! i \<in> set (live cc)" using assms(3) ok by simp
  have pe: "?p = increasing_byteoff (live cc ! i)"
    using assms(1) e by (auto simp: table_wf_def agree_def)
  show "chkless cc' = chkless cc"
    using c(1,2) unfolding chkless_def by simp (metis append_take_drop_id filter_append)
  have "agree cc'" using assms(1) c(3,4) by (auto simp: agree_def sets table_wf_def)
  moreover have "table_sorted cc'"
    using assms(1,3) ok c pe unfolding table_sorted_def table_wf_def by (simp add: sorted_insert_same del: map_append)
  ultimately show "table_wf cc'" using ok' by (simp add: table_wf_def)
  show "targets_in code cc'" using assms(2) brc by (auto simp: targets_in_def sets)
  have mono: "all_hit code cc' x" if "all_hit code cc x" for x
    using that by (auto simp: all_hit_def hit_def sets)
  show "\<forall>k \<le> i + 1. all_hit code cc' (live cc' ! k)"
  proof (intro allI impI)
    fix k assume k: "k \<le> i + 1"
    consider "k < i" | "k = i" | "k = i + 1" using k by linarith
    then show "all_hit code cc' (live cc' ! k)"
    proof cases
      case 1
      then show ?thesis using assms(3,4) ok by (simp add: c(1) nth_append mono)
    next
      case 2
      then show ?thesis using assms(3) ok brc by (simp add: c(1) nth_append all_hit_def)
    next
      case 3
      then show ?thesis using assms(3,4) ok by (simp add: c(1) nth_append mono)
    qed
  qed
qed

lemma block_step_works:
  assumes "table_wf cc" "targets_in code cc" "i < pctablelen cc" "\<forall>k < i. all_hit code cc (live cc ! k)"
  shows "\<exists>i' cc'. block_step code i cc = Inr (i', cc') \<and> table_wf cc' \<and> targets_in code cc' \<and>
    list_all2 grows_to (chkless cc) (chkless cc') \<and> (\<forall>k < i' + 1. all_hit code cc' (live cc' ! k))"
proof -
  from marking_round [OF assms] obtain cc1 where
    1: "marks i (branches code (live cc ! i)) cc = Inr cc1" "table_wf cc1" "targets_in code cc1"
      "list_all2 grows_to (live cc) (live cc1)" "\<forall>k \<le> i. all_hit code cc1 (live cc1 ! k)"
    by blast
  have ok: "cc_ok cc" using assms(1) by (simp add: table_wf_def)
  have c: "pc_cell cc i = live cc ! i" using ok assms(3) by (simp add: pc_cell_live)
  have len: "i < pctablelen cc1" using marks_len [OF 1(1)] assms(3) by simp
  have b: "byteoff (live cc ! i) = byteoff (live cc1 ! i)"
    using 1(4) assms(3) ok by (simp add: list_all2_conv_all_nth grows_to_def)
  note ins = inserted_check [OF 1(2,3) len 1(5)]
  note un = all2_grows_chkless [OF 1(4)]
  have "block_step code i cc = Inr (i, cc1) \<or>
      block_step code i cc = Inr (i + 1, pctableInsert cc1 i opc_exc_check (-1) (byteoff (live cc1 ! i)) (-1) (-1))"
    using 1(1) by (auto simp: block_step_def Let_def c branches_def b bindE_Inr split: if_splits)
  then show ?thesis
  proof
    assume "block_step code i cc = Inr (i, cc1)"
    with 1 un show ?thesis by (simp add: less_Suc_eq_le)
  next
    assume "block_step code i cc = Inr (i + 1, pctableInsert cc1 i opc_exc_check (-1) (byteoff (live cc1 ! i)) (-1) (-1))"
    with ins un show ?thesis by (simp add: less_Suc_eq_le)
  qed
qed

lemma blocks_from_works:
  assumes "table_wf cc" "targets_in code cc" "\<forall>k < i. k < pctablelen cc \<longrightarrow> all_hit code cc (live cc ! k)"
  shows "\<exists>cc'. blocks_from code i cc = Inr cc' \<and> table_wf cc' \<and> targets_in code cc' \<and>
    list_all2 grows_to (chkless cc) (chkless cc') \<and> (\<forall>e \<in> set (live cc'). all_hit code cc' e)"
  using assms
proof (induction code i cc rule: blocks_from.induct)
  case (1 code i cc)
  show ?case
  proof (cases "i < pctablelen cc")
    case True
    with 1 block_step_works [of cc code i] obtain i' cc1 where
      s: "block_step code i cc = Inr (i', cc1)" "table_wf cc1" "targets_in code cc1"
        "list_all2 grows_to (chkless cc) (chkless cc1)" "\<forall>k < i' + 1. all_hit code cc1 (live cc1 ! k)"
      by auto
    from 1(1) [OF True s(1) refl s(2,3)] s(5) obtain cc' where
      "blocks_from code (i' + 1) cc1 = Inr cc'" "table_wf cc'" "targets_in code cc'"
      "list_all2 grows_to (chkless cc1) (chkless cc')" "\<forall>e \<in> set (live cc'). all_hit code cc' e"
      by auto
    with s True show ?thesis
      by (subst blocks_from.simps) (auto intro: all2_grows_trans)
  next
    case False
    with 1 have "\<forall>e \<in> set (live cc). all_hit code cc e"
      by (auto simp: in_set_conv_nth table_wf_def)
    with 1 False show ?thesis
      by (subst blocks_from.simps) (auto intro: all2_grows_refl)
  qed
qed


subsection \<open>Properties\<close>

definition loop_cc :: CompilerContext where
  \<comment> \<open>the table of \<open>nop; goto -1\<close>; for witnesses\<close>
  "loop_cc = pctableAdd (pctableAdd fresh_cc opc_nop (-1) 0) opc_goto (-1) 1"

definition late_loop_cc :: CompilerContext where
  \<comment> \<open>a call ahead of the loop \<open>nop; goto -1\<close>; for witnesses\<close>
  "late_loop_cc = pctableAdd (pctableAdd (pctableAdd (pctableAdd fresh_cc opc_nop (-1) 0)
     opc_inv_head (-1) 0) opc_nop (-1) 1) opc_goto (-1) 2"

definition loop_code :: "u8 list \<Rightarrow> int \<Rightarrow> u8" where
  "loop_code bs p = (if 0 \<le> p \<and> nat p < length bs then bs ! nat p else 0)"

lemma loop_cc_ok: "cc_ok loop_cc" "cc_ok late_loop_cc"
  by (simp_all add: loop_cc_def late_loop_cc_def fresh_cc_ok wf_intros)

lemma loop_cc_views:
  "views loop_cc = [new_view 0 (-1) 0 0 (-1), new_view 167 (-1) 1 0 (-1)]"
  "views late_loop_cc = [new_view 0 (-1) 0 0 (-1), new_view opc_inv_head (-1) 0 0 (-1),
     new_view 0 (-1) 1 0 (-1), new_view 167 (-1) 2 0 (-1)]"
  by (simp_all add: loop_cc_def late_loop_cc_def pctableAdd_views wf_intros fresh_cc_ok fresh_cc_live)

lemma table_wf_views:
  assumes "cc_ok cc" "views cc = vs" "sorted (map (\<lambda>(a, b, c, d, r). d) vs)"
    "\<forall>(a, b, c, d, r) \<in> set vs. c = d"
  shows "table_wf cc"
proof -
  have "map increasing_byteoff (live cc) = map (\<lambda>(a, b, c, d, r). d) vs"
    unfolding assms(2) [symmetric] by (simp add: pcview_def comp_def)
  moreover have "agree cc"
    using assms(4) unfolding assms(2) [symmetric] agree_def by (auto simp: pcview_def)
  ultimately show ?thesis using assms(1,3) by (simp add: table_wf_def table_sorted_def)
qed

lemma loop_cc_wf: "table_wf loop_cc" "table_wf late_loop_cc"
  using table_wf_views [OF loop_cc_ok(1) loop_cc_views(1)] table_wf_views [OF loop_cc_ok(2) loop_cc_views(2)]
  by (simp_all add: new_view_def)

lemma loop_cc_targets: "targets_in (loop_code [0, 167, 255, 255]) loop_cc"
proof -
  have "\<exists>a b. live loop_cc = [a, b] \<and> pcview a = new_view 0 (-1) 0 0 (-1) \<and> pcview b = new_view 167 (-1) 1 0 (-1)"
    using loop_cc_views(1) by (auto simp: map_eq_Cons_conv)
  then obtain a b where l: "live loop_cc = [a, b]" and
    vs: "pcview a = new_view 0 (-1) 0 0 (-1)" "pcview b = new_view 167 (-1) 1 0 (-1)" by blast
  have "branch_offset (loop_code [0, 167, 255, 255]) 1 = -1"
    by (simp add: branch_offset_def byte_at_def loop_code_def GET_INT16_def)
  with vs show ?thesis
    by (simp add: l targets_in_def branches_def pcview_def new_view_def)
qed



text \<open>The search for a call that makes a check for exceptions superfluous starts at the byte
offset of the loop head, taken as an index of the table: a call in front of the loop, at a
smaller byte offset but a greater index, leaves the backward branch without a check.\<close>
theorem exc_check_dropped_by_earlier_call:
  assumes "table_wf cc" "targets_in code cc" "i < pctablelen cc"
    and "opc_ifeq \<le> opcode (live cc ! i)" "opcode (live cc ! i) \<le> opc_jsr"
    and "rel = branch_offset code (byteoff (live cc ! i))" "rel < 0"
    and "k < i" "nat (rel + byteoff (live cc ! i)) \<le> k" "opcode (live cc ! k) = opc_inv_head"
    and "byteoff (live cc ! k) < rel + byteoff (live cc ! i)"
  shows "\<exists>cc'. block_step code i cc = Inr (i, cc') \<and> list_all2 grows_to (live cc) (live cc')"
proof -
  have ok: "cc_ok cc" using assms(1) by (simp add: table_wf_def)
  have c: "pc_cell cc i = live cc ! i" using ok assms(3) by (simp add: pc_cell_live)
  have "rel + byteoff (live cc ! i) \<in> increasing_byteoff ` set (live cc)"
    using assms(2-6) ok by (auto simp: targets_in_def branches_def)
  from mark_works [OF assms(1,3) this] obtain cc1 where
    1: "mark i rel cc = Inr cc1" "cc_ok cc1" "list_all2 grows_to (live cc) (live cc1)" by blast
  have len: "pctablelen cc1 = pctablelen cc" using mark_len [OF 1(1)] .
  have "opcode (pc_cell cc1 k) = opc_inv_head"
    using 1(2,3) assms(3,8,10) ok len by (simp add: pc_cell_live list_all2_conv_all_nth grows_to_def)
  then have "has_check cc1 (rel + byteoff (live cc ! i)) i"
    using assms(8,9) by (auto simp: has_check_def list_ex_iff intro!: bexI [of _ k])
  with 1 assms(4-7) show ?thesis by (auto simp: block_step_def Let_def c)
qed

theorem exc_check_dropped_by_earlier_call_witness:
  "\<exists>cc'. block_step (loop_code [184, 0, 167, 255, 255]) 3 late_loop_cc = Inr (3, cc') \<and>
    list_all2 grows_to (live late_loop_cc) (live cc')"
proof -
  obtain a b c d where l: "live late_loop_cc = [a, b, c, d]" and
    vs: "pcview a = new_view 0 (-1) 0 0 (-1)" "pcview b = new_view opc_inv_head (-1) 0 0 (-1)"
      "pcview c = new_view 0 (-1) 1 0 (-1)" "pcview d = new_view 167 (-1) 2 0 (-1)"
    using loop_cc_views(2) by (auto simp: map_eq_Cons_conv)
  have len: "pctablelen late_loop_cc = 4"
    using length_live [OF loop_cc_ok(2)] l by simp
  have t: "targets_in (loop_code [184, 0, 167, 255, 255]) late_loop_cc"
    using vs by (auto simp: l targets_in_def branches_def pcview_def new_view_def branch_offset_def byte_at_def
        loop_code_def GET_INT16_def)
  show ?thesis
    by (rule exc_check_dropped_by_earlier_call [OF loop_cc_wf(2) t, where k = 1 and rel = "-1"])
      (use vs in \<open>simp_all add: l len pcview_def new_view_def branch_offset_def byte_at_def loop_code_def GET_INT16_def\<close>)
qed

end
