(* ===== verification/States.thy ===== *)
theory States
  imports MakePC Blocks CStack
begin

text \<open>
  The pass that fixes the state of the stack cache in front of every internal instruction
  (\<open>updateStates\<close> of \<^verbatim>\<open>compile.c\<close>). The state an instruction leaves is a column of the table of
  templates; behind a call it follows from the size of the result. The walk enters inlined
  methods and keeps the enclosing ones on a stack.
\<close>

abbreviation (input) STSTA :: nat where
  \<comment> \<open>the template leaves the state as it is\<close>
  "STSTA \<equiv> 5"

abbreviation (input) STATE_AFTER_JUMP :: nat where "STATE_AFTER_JUMP \<equiv> 0"
abbreviation (input) STATE_AFTER_JSR :: nat where "STATE_AFTER_JSR \<equiv> 0"
abbreviation (input) STATE_AFTER_ATHROW :: nat where "STATE_AFTER_ATHROW \<equiv> 0"

record walker =
  wk_state :: nat
  wk_mb :: ptr
  wk_stack :: cstack

definition ensure_info :: "env \<Rightarrow> ptr \<Rightarrow> vm \<Rightarrow> fatal + vm" where
  "ensure_info E mb v =
     (if CompiledCodeInfo (methods v mb) = NULL then
        bindE (prepareCompiledCodeInfo E mb v) (\<lambda>(i, v). if i = NULL then Inl (MethodNotInitialized mb) else Inr v)
      else Inr v)"

definition state_after_call :: "int \<Rightarrow> nat" where
  "state_after_call n = (if n = 0 then 0 else if n = 1 then 1 else 4)"

definition current_state :: "nat \<Rightarrow> nat \<Rightarrow> nat" where
  \<comment> \<open>a statement may jump to the end of the method from any state\<close>
  "current_state opc st = (if opc = opc_return \<or> opc = opc_epilogue then 0 else st)"

definition next_state :: "env \<Rightarrow> pcentry \<Rightarrow> walker \<Rightarrow> vm \<Rightarrow> fatal + (nat \<times> vm)" where
  \<comment> \<open>\<open>codep\<close> is read before the state is set to zero\<close>
  "next_state E e w v =
     (let opc = opcode e; last = ct_last_state E opc (wk_state w) in
      if opc \<in> {opc_goto, opc_ret, opc_tableswitch, opc_lookupswitch} then Inr (STATE_AFTER_JUMP, v)
      else if opc = opc_jsr then Inr (STATE_AFTER_JSR, v)
      else if opc = opc_athrow then Inr (STATE_AFTER_ATHROW, v)
      else if opc \<in> {opc_invoke_core, opc_invoke_core_compiled, opc_inlined_exit} then
        (let m = (if opc = opc_inlined_exit then wk_mb w else cp_mb (mb_cp v (wk_mb w) (nat (operand e)))) in
         bindE (ensure_info E m v) (\<lambda>v.
           Inr (state_after_call (ret_size (infos v (CompiledCodeInfo (methods v m)))), v)))
      else Inr (if last \<noteq> STSTA then last else current_state opc (wk_state w), v))"

definition enter_leave :: "pcentry \<Rightarrow> vm \<Rightarrow> walker \<Rightarrow> walker" where
  \<comment> \<open>the method the following entries belong to\<close>
  "enter_leave e v w =
     (if opcode e = opc_inlined_enter then
        w\<lparr>wk_stack := pushToStack (wk_stack w) (wk_mb w), wk_mb := cp_mb (mb_cp v (wk_mb w) (nat (operand e)))\<rparr>
      else if opcode e = opc_inlined_exit then
        (let (mb, s) = popFromStack (wk_stack w) in w\<lparr>wk_stack := s, wk_mb := mb\<rparr>)
      else w)"

definition state_step :: "env \<Rightarrow> nat \<Rightarrow> walker \<times> pass_state \<Rightarrow> fatal + (walker \<times> pass_state)" where
  "state_step E i s =
     (let (w, v, cc) = s;
          e = pc_cell cc i;
          cc = pc_upd cc i (pcentrySetState (int (current_state (opcode e) (wk_state w))))
      in bindE (next_state E e w v) (\<lambda>(st, v). Inr (enter_leave e v (w\<lparr>wk_state := st\<rparr>), v, cc)))"

fun state_steps :: "env \<Rightarrow> nat list \<Rightarrow> walker \<times> pass_state \<Rightarrow> fatal + (walker \<times> pass_state)" where
  "state_steps E [] s = Inr s"
| "state_steps E (i # is) s = bindE (state_step E i s) (state_steps E is)"

definition updateStates :: "env \<Rightarrow> pass_state \<Rightarrow> fatal + pass_state" where
  "updateStates E s =
     (let (v, cc) = s;
          w = \<lparr>wk_state = 0, wk_mb = cc_mb cc, wk_stack = newStack (fresh_long_mem E)\<rparr>
      in bindE (state_steps E [0..<pctablelen cc] (w, s)) (\<lambda>(_, s). Inr s))"


subsection \<open>What the pass computes\<close>

definition nest_step :: "vm \<Rightarrow> ptr list \<Rightarrow> pcentry \<Rightarrow> ptr list" where
  \<comment> \<open>the methods around the next entry, the innermost first\<close>
  "nest_step v ms e =
     (if opcode e = opc_inlined_enter then cp_mb (mb_cp v (hd ms) (nat (operand e))) # ms
      else if opcode e = opc_inlined_exit then tl ms
      else ms)"

definition nesting :: "vm \<Rightarrow> ptr \<Rightarrow> pcentry list \<Rightarrow> nat \<Rightarrow> ptr list" where
  "nesting v mb es i = foldl (nest_step v) [mb] (take i es)"

definition transfers :: "nat set" where
  "transfers = {opc_goto, opc_ret, opc_tableswitch, opc_lookupswitch, opc_jsr, opc_athrow}"

definition calls :: "nat set" where
  "calls = {opc_invoke_core, opc_invoke_core_compiled, opc_inlined_exit}"

definition callee_of :: "vm \<Rightarrow> ptr list \<Rightarrow> pcentry \<Rightarrow> ptr" where
  "callee_of v ms e = (if opcode e = opc_inlined_exit then hd ms else cp_mb (mb_cp v (hd ms) (nat (operand e))))"

definition state_left :: "env \<Rightarrow> vm \<Rightarrow> ptr list \<Rightarrow> pcentry \<Rightarrow> nat \<Rightarrow> nat" where
  "state_left E v ms e st =
     (if opcode e \<in> transfers then 0
      else if opcode e \<in> calls then state_after_call (ret_size (infos v (CompiledCodeInfo (methods v (callee_of v ms e)))))
      else if ct_last_state E (opcode e) st \<noteq> STSTA then ct_last_state E (opcode e) st
      else current_state (opcode e) st)"

definition callees_known :: "vm \<Rightarrow> ptr \<Rightarrow> pcentry list \<Rightarrow> bool" where
  "callees_known v mb es \<longleftrightarrow>
     (\<forall>i < length es. opcode (es ! i) \<in> calls \<longrightarrow>
        CompiledCodeInfo (methods v (callee_of v (nesting v mb es i) (es ! i))) \<noteq> NULL)"

fun state_in :: "env \<Rightarrow> vm \<Rightarrow> ptr \<Rightarrow> pcentry list \<Rightarrow> nat \<Rightarrow> nat" where
  "state_in E v mb es 0 = 0"
| "state_in E v mb es (Suc i) = state_left E v (nesting v mb es i) (es ! i) (state_in E v mb es i)"

lemma state_steps_append: "state_steps E (is @ js) s = bindE (state_steps E is s) (state_steps E js)"
  by (induction "is" arbitrary: s) (auto simp: bindE_def split: sum.splits)

definition walker_at :: "env \<Rightarrow> vm \<Rightarrow> ptr \<Rightarrow> pcentry list \<Rightarrow> nat \<Rightarrow> walker \<Rightarrow> bool" where
  "walker_at E v mb es i w \<longleftrightarrow>
     wk_state w = state_in E v mb es i \<and> stack_ok (wk_stack w) \<and>
     wk_mb w # stack_list (wk_stack w) = nesting v mb es i"

definition stated :: "env \<Rightarrow> vm \<Rightarrow> ptr \<Rightarrow> pcentry list \<Rightarrow> nat \<Rightarrow> pcentry" where
  "stated E v mb es k = pcentrySetState (int (current_state (opcode (es ! k)) (state_in E v mb es k))) (es ! k)"

lemma next_state_left:
  assumes "opcode e \<in> calls \<longrightarrow> CompiledCodeInfo (methods v (callee_of v ms e)) \<noteq> NULL" "hd ms = wk_mb w"
  shows "next_state E e w v = Inr (state_left E v ms e (wk_state w), v)"
  using assms by (auto simp: next_state_def state_left_def transfers_def calls_def callee_of_def ensure_info_def Let_def)

lemma nesting_Suc: "i < length es \<Longrightarrow> nesting v mb es (Suc i) = nest_step v (nesting v mb es i) (es ! i)"
  by (simp add: nesting_def take_Suc_conv_app_nth)

lemma enter_leave_at:
  assumes "stack_ok (wk_stack w)" "wk_mb w # stack_list (wk_stack w) = ms" "nest_step v ms e \<noteq> []"
  shows "stack_ok (wk_stack (enter_leave e v w)) \<and>
    wk_mb (enter_leave e v w) # stack_list (wk_stack (enter_leave e v w)) = nest_step v ms e \<and>
    wk_state (enter_leave e v w) = wk_state w"
proof -
  consider "opcode e = opc_inlined_enter" | "opcode e = opc_inlined_exit"
    | "opcode e \<noteq> opc_inlined_enter" "opcode e \<noteq> opc_inlined_exit" by blast
  then show ?thesis
  proof cases
    case 1
    with assms show ?thesis by (auto simp: enter_leave_def nest_step_def pushToStack_ok pushToStack_list)
  next
    case 2
    with assms(2,3) obtain m ms' where m: "stack_list (wk_stack w) = m # ms'"
      by (cases "stack_list (wk_stack w)") (auto simp: nest_step_def)
    with 2 assms popFromStack_list [OF assms(1)] popFromStack_ok [OF assms(1)] show ?thesis
      by (auto simp: enter_leave_def nest_step_def)
  next
    case 3
    with assms show ?thesis by (simp add: enter_leave_def nest_step_def)
  qed
qed

lemma state_steps_reach:
  assumes "cc_ok cc" "i \<le> pctablelen cc" "callees_known v (cc_mb cc) (live cc)"
    and "\<forall>k \<le> i. nesting v (cc_mb cc) (live cc) k \<noteq> []" "stack_ok (wk_stack w)" "stack_list (wk_stack w) = []"
    and "wk_state w = 0" "wk_mb w = cc_mb cc"
  shows "\<exists>w' cc'. state_steps E [0..<i] (w, v, cc) = Inr (w', v, cc') \<and> cc_ok cc' \<and> pctablelen cc' = pctablelen cc \<and>
    walker_at E v (cc_mb cc) (live cc) i w' \<and>
    (\<forall>k < pctablelen cc. live cc' ! k = (if k < i then stated E v (cc_mb cc) (live cc) k else live cc ! k))"
  using assms
proof (induction i)
  case 0
  then show ?case by (simp add: walker_at_def nesting_def)
next
  case (Suc i)
  let ?es = "live cc" and ?mb = "cc_mb cc"
  from Suc obtain w1 cc1 where 1: "state_steps E [0..<i] (w, v, cc) = Inr (w1, v, cc1)" "cc_ok cc1"
    "pctablelen cc1 = pctablelen cc" "walker_at E v ?mb ?es i w1"
    "\<forall>k < pctablelen cc. live cc1 ! k = (if k < i then stated E v ?mb ?es k else ?es ! k)"
    by auto
  have e: "pc_cell cc1 i = ?es ! i" using 1 Suc.prems(2) by (simp add: pc_cell_live)
  have st: "wk_state w1 = state_in E v ?mb ?es i" and ms: "wk_mb w1 # stack_list (wk_stack w1) = nesting v ?mb ?es i"
    and sok: "stack_ok (wk_stack w1)"
    using 1(4) by (simp_all add: walker_at_def)
  have hd: "hd (nesting v ?mb ?es i) = wk_mb w1" by (simp flip: ms)
  let ?w = "w1\<lparr>wk_state := state_in E v ?mb ?es (Suc i)\<rparr>"
  let ?cc = "pc_upd cc1 i (pcentrySetState (int (current_state (opcode (?es ! i)) (state_in E v ?mb ?es i))))"
  have step: "state_step E i (w1, v, cc1) = Inr (enter_leave (?es ! i) v ?w, v, ?cc)"
    using Suc.prems(1-3) next_state_left [of "?es ! i" v "nesting v ?mb ?es i" w1 E] hd
    by (simp add: state_step_def e st Let_def callees_known_def)
  have "nest_step v (nesting v ?mb ?es i) (?es ! i) \<noteq> []"
    using Suc.prems(1,2,4) by (metis Suc_le_lessD le_refl length_live nesting_Suc)
  from enter_leave_at [of ?w "nesting v ?mb ?es i" v "?es ! i"] this ms sok
  have "walker_at E v ?mb ?es (Suc i) (enter_leave (?es ! i) v ?w)"
    using Suc.prems(1,2) by (simp add: walker_at_def nesting_Suc)
  moreover have "live ?cc ! k = (if k < Suc i then stated E v ?mb ?es k else ?es ! k)" if "k < pctablelen cc" for k
    using 1(2,3,5) Suc.prems(2) that
    by (simp add: pc_upd_live nth_list_update stated_def less_Suc_eq)
  moreover have "state_steps E [0..<Suc i] (w, v, cc) = Inr (enter_leave (?es ! i) v ?w, v, ?cc)"
    by (simp add: state_steps_append 1(1) step)
  ultimately show ?case using 1(2,3) by (simp add: table_simps)
qed

lemma updateStates_live:
  assumes "cc_ok cc" "callees_known v (cc_mb cc) (live cc)"
    and "\<forall>k \<le> pctablelen cc. nesting v (cc_mb cc) (live cc) k \<noteq> []"
  shows "\<exists>cc'. updateStates E (v, cc) = Inr (v, cc') \<and> cc_ok cc' \<and>
    live cc' = map (stated E v (cc_mb cc) (live cc)) [0..<pctablelen cc]"
proof -
  let ?w = "\<lparr>wk_state = 0, wk_mb = cc_mb cc, wk_stack = newStack (fresh_long_mem E)\<rparr>"
  from state_steps_reach [OF assms(1) order_refl assms(2,3), of ?w E] obtain w' cc' where
    r: "state_steps E [0..<pctablelen cc] (?w, v, cc) = Inr (w', v, cc')" "cc_ok cc'" "pctablelen cc' = pctablelen cc"
    "\<forall>k < pctablelen cc. live cc' ! k = (if k < pctablelen cc then stated E v (cc_mb cc) (live cc) k else live cc ! k)"
    by (auto simp: newStack_ok newStack_list)
  moreover from r(2-4) have "live cc' = map (stated E v (cc_mb cc) (live cc)) [0..<pctablelen cc]"
    by (intro nth_equalityI) auto
  ultimately show ?thesis by (simp add: updateStates_def)
qed

lemma state_in_bound:
  assumes "\<forall>opc st. ct_last_state E opc st \<le> STSTA"
  shows "state_in E v mb es i \<le> 5"
proof (induction i)
  case (Suc i)
  then show ?case using assms
    by (simp add: state_left_def current_state_def state_after_call_def)
qed simp

lemma stated_state:
  assumes "\<forall>opc st. ct_last_state E opc st \<le> STSTA"
  shows "pcentryState (stated E v mb es k) = current_state (opcode (es ! k)) (state_in E v mb es k)"
  using state_in_bound [OF assms, of v mb es k] by (simp add: stated_def current_state_def)




end
