(* ===== verification/Optimize.thy ===== *)
theory Optimize
  imports States
begin

text \<open>
  The optimisations on internal instructions of \<^verbatim>\<open>optimize.c\<close>: peephole optimisation, inlining
  of methods and eager compilation of callees. The last two call the compiler for other
  methods; its model is an argument \<open>compile\<close> of the definitions.
\<close>

subsection \<open>Peephole optimisation\<close>

definition group :: "CompilerContext \<Rightarrow> nat \<Rightarrow> nat \<Rightarrow> bool" where
  \<comment> \<open>\<open>GET_n_ENTRIES\<close> succeeds: \<open>n\<close> entries follow entry \<open>i\<close>, none of them the head of a block\<close>
  "group cc i n \<longleftrightarrow> list_all (\<lambda>j. j < pctablelen cc \<and> \<not> pcentryBlockHead (pc_cell cc j)) [i + 1..<i + 1 + n]"

definition set_opcode :: "nat \<Rightarrow> pcentry \<Rightarrow> pcentry" where
  "set_opcode opc e = e\<lparr>opcode := opc\<rparr>"

definition fuse :: "nat \<Rightarrow> nat \<Rightarrow> nat \<Rightarrow> int \<Rightarrow> CompilerContext \<Rightarrow> CompilerContext" where
  \<comment> \<open>give entry \<open>i\<close> an opcode and an operand and delete the \<open>n\<close> entries behind it\<close>
  "fuse i n opc oper cc = pctableNDelete (pc_upd cc i (\<lambda>e. e\<lparr>opcode := opc, operand := oper\<rparr>)) (i + 1) n"

definition fuse_load :: "nat \<Rightarrow> nat \<Rightarrow> CompilerContext \<Rightarrow> CompilerContext" where
  \<comment> \<open>load to the FPU directly: the cache is flushed in front of the load\<close>
  "fuse_load i opc cc =
     (let oper = operand (pc_cell cc i); cc = pc_upd cc (i + 1) (\<lambda>e. e\<lparr>opcode := opc, operand := oper\<rparr>);
          cc = pc_upd cc i (set_opcode opc_flush_cache)
      in pctableDelete cc (i + 2))"

definition peephole_dst :: "nat \<Rightarrow> CompilerContext \<Rightarrow> CompilerContext" where
  "peephole_dst i cc =
     (let e = pc_cell cc i; e1 = pc_cell cc (i + 1); e2 = pc_cell cc (i + 2) in
      if \<not> group cc i 2 then cc
      else if pcentryState e = 0 \<and> opcode e1 = opc_flush_cache \<and> opcode e2 = opc_dld
      then pctableNDelete (pc_upd cc i (\<lambda>_. e1)) (i + 1) 2
      else if pcentryState e = 0 \<and> opcode e1 = opc_fill_cache \<and> opcode e2 = opc_lstore
      then fuse i 2 opc_dst_dstore (operand e2) cc
      else if pcentryState e = 0 \<and> opcode e1 = opc_fill_cache \<and> opcode e2 = opc_lastore
      then fuse i 2 opc_dst_dastore (operand e) cc
      else cc)"

definition peephole_fst :: "nat \<Rightarrow> CompilerContext \<Rightarrow> CompilerContext" where
  \<comment> \<open>the second case combines five instructions and deletes three\<close>
  "peephole_fst i cc =
     (let e = pc_cell cc i; e1 = pc_cell cc (i + 1) in
      if \<not> group cc i 1 then cc
      else if pcentryState e = 0 \<and> opcode e1 = opc_istore then fuse i 1 opc_fst_fstore (operand e1) cc
      else if \<not> group cc i 4 then cc
      else if pcentryState e = 0 \<and> opcode e1 = opc_iastore1
      then fuse i 3 opc_fst_fastore (operand (pc_cell cc (i + 4))) cc
      else cc)"

definition peephole_step :: "nat \<Rightarrow> CompilerContext \<Rightarrow> CompilerContext" where
  "peephole_step i cc =
     (let e = pc_cell cc i; opc = opcode e; e1 = pc_cell cc (i + 1); e2 = pc_cell cc (i + 2);
          flush_then = (\<lambda>ld. group cc i 2 \<and> opcode e1 = opc_flush_cache \<and> opcode e2 = ld);
          same = (\<lambda>ld. group cc i 1 \<and> opcode e1 = ld \<and> operand e = operand e1)
      in if opc = opc_dst then peephole_dst i cc
         else if opc = opc_fst then peephole_fst i cc
         else if opc = opc_iload then (if flush_then opc_fld then fuse_load i opc_fload_fld cc else cc)
         else if opc = opc_lload then (if flush_then opc_dld then fuse_load i opc_dload_dld cc else cc)
         else if opc = opc_istore then (if same opc_iload then fuse i 1 opc_istld (operand e) cc else cc)
         else if opc = opc_lstore then (if same opc_lload then fuse i 1 opc_lstld (operand e) cc else cc)
         else if opc = opc_iaload then (if flush_then opc_fld then fuse i 2 opc_faload_fld (operand e) cc else cc)
         else if opc = opc_laload then (if flush_then opc_dld then fuse i 2 opc_daload_dld (operand e) cc else cc)
         else cc)"

lemma pctableNDelete_shorter: "pctablelen (pctableNDelete cc i n) \<le> pctablelen cc"
  by (simp add: pctableNDelete_def)

lemma fuse_shorter: "pctablelen (fuse i n opc oper cc) \<le> pctablelen cc"
  unfolding fuse_def by (rule order.trans [OF pctableNDelete_shorter]) simp

lemma if_shorter: "pctablelen a \<le> n \<Longrightarrow> pctablelen b \<le> n \<Longrightarrow> pctablelen (if c then a else b) \<le> n"
  by simp

lemma delete_shorter: "pctablelen (pctableNDelete (pc_upd cc i f) j n) \<le> pctablelen cc"
  by (rule order.trans [OF pctableNDelete_shorter]) simp

lemma fuse_load_shorter: "pctablelen (fuse_load i opc cc) \<le> pctablelen cc"
  unfolding fuse_load_def pctableDelete_def Let_def by (rule order.trans [OF delete_shorter]) simp

lemma peephole_step_shorter: "pctablelen (peephole_step i cc) \<le> pctablelen cc"
  unfolding peephole_step_def peephole_dst_def peephole_fst_def Let_def
  by (intro if_shorter delete_shorter fuse_shorter fuse_load_shorter order.refl)

function peephole_from :: "nat \<Rightarrow> CompilerContext \<Rightarrow> CompilerContext" where
  "peephole_from i cc = (if i < pctablelen cc then peephole_from (i + 1) (peephole_step i cc) else cc)"
  by pat_completeness auto
termination
proof (relation "measure (\<lambda>(i, cc). pctablelen cc - i)")
  fix i and cc :: CompilerContext assume "i < pctablelen cc"
  with peephole_step_shorter [of i cc] show "((i + 1, peephole_step i cc), i, cc) \<in> measure (\<lambda>(i, cc). pctablelen cc - i)"
    by simp
qed simp

declare peephole_from.simps [simp del]

definition peepholeOptimization :: "CompilerContext \<Rightarrow> CompilerContext" where
  "peepholeOptimization cc = peephole_from 0 cc"

subsection \<open>Inlining\<close>

type_synonym compiler = "ptr \<Rightarrow> CompilationStage \<Rightarrow> vm \<Rightarrow> fatal + (bool \<times> vm)"

definition nested :: "compiler \<Rightarrow> ptr \<Rightarrow> ptr \<Rightarrow> CompilationStage \<Rightarrow> pass_state \<Rightarrow> fatal + pass_state" where
  \<comment> \<open>compile another method; the context in use is at \<open>p\<close>\<close>
  "nested compile p callee st s =
     (let (v, cc) = s in bindE (compile callee st (cc_upd p (\<lambda>_. cc) v)) (\<lambda>(_, v). Inr (v, contexts v p)))"

record inliner =
  il_vm :: vm
  il_cc :: CompilerContext
  il_mb :: ptr \<comment> \<open>\<open>mb\<close>, which determines \<open>constant_pool\<close>\<close>
  il_stack :: cstack
  il_depth :: nat \<comment> \<open>\<open>loop_depth\<close>\<close>
  il_inlined :: bool

definition static_calls :: "nat set" where
  "static_calls = {opc_invokespecial, opc_invokestatic, opc_invokestatic_quick}"

definition body_of :: "CodeInfo \<Rightarrow> pcentry list" where
  \<comment> \<open>the entries of the method between \<open>opc_start\<close> and the first end or return. In C start and
      length are not initialised when these are missing\<close>
  "body_of info =
     (let es = take (info_pctablelen info) (info_pctable info)
      in takeWhile (\<lambda>e. opcode e \<noteq> opc_end \<and> opcode e \<noteq> opc_return) (drop 1 (dropWhile (\<lambda>e. opcode e \<noteq> opc_start) es)))"

definition locked :: "vm \<Rightarrow> methodblock \<Rightarrow> bool" where
  "locked v m \<longleftrightarrow> acc (mb_access m) ACC_SYNCHRONIZED \<and> \<not> OPT_SETQ OPT_IGNLOCK v"

definition splice :: "vm \<Rightarrow> methodblock \<Rightarrow> pcentry list \<Rightarrow> nat \<Rightarrow> int \<Rightarrow> int \<Rightarrow> CompilerContext \<Rightarrow> CompilerContext" where
  \<comment> \<open>replace the six instructions of the invocation from entry \<open>at\<close> on\<close>
  "splice v callee body at oper boff cc =
     (let lock = locked v callee; static = acc (mb_access callee) ACC_STATIC;
          cc = pctableNDelete cc at 6;
          cc = pctableInsert cc at opc_inlined_exit oper boff 0 (-1);
          cc = (if lock then pctableInsert cc at (if static then opc_sync_static_exit else opc_sync_obj_exit) (-1) boff 0 (-1)
                else cc);
          cc = pctableNInsert cc at body;
          cc = (if lock then pctableInsert cc at (if static then opc_sync_static_enter else opc_sync_obj_enter) (-1) boff 0 (-1)
                else cc);
          cc = pctableInsert cc at opc_inlined_enter oper boff 0 (-1)
      in pctableInsert cc at opc_stateto0 (-1) boff 0 (-1))"

definition inline_call :: "env \<Rightarrow> compiler \<Rightarrow> ptr \<Rightarrow> nat \<Rightarrow> inliner \<Rightarrow> fatal + (nat option \<times> inliner)" where
  \<comment> \<open>the case of an invocation at entry \<open>i\<close>; the next value of \<open>i\<close>, \<open>None\<close> to return \<open>FALSE\<close>\<close>
  "inline_call E compile p i w =
     (let e = pc_cell (il_cc w) i; callee = cp_mb (mb_cp (il_vm w) (il_mb w) (nat (operand e)));
          acs = mb_access (methods (il_vm w) callee)
      in if acc acs ACC_NATIVE \<or> acc acs ACC_ABSTRACT then Inr (Some (i + 1), w)
         else
           bindE (if CompiledCodeInfo (methods (il_vm w) callee) = NULL then prepareCompiledCodeInfo E callee (il_vm w)
                  else Inr (CompiledCodeInfo (methods (il_vm w) callee), il_vm w)) (\<lambda>(info, v).
           if info = NULL then Inr (None, w\<lparr>il_vm := v\<rparr>)
           else
             bindE (if inlineability (infos v info) = INLINE_UNKNOWN
                    then nested compile p callee STAGE_INTERNAL_CODE (v, il_cc w) else Inr (v, il_cc w)) (\<lambda>(v, cc).
             let w = w\<lparr>il_vm := v, il_cc := cc\<rparr>; inf = infos v info; m = methods v (il_mb w); callee_mb = methods v callee in
             if inlineability inf = INLINE_MAY \<and> acc (mb_access m) ACC_STRICT = acc (mb_access callee_mb) ACC_STRICT then
               (let v = (if maxstack m < maxstack callee_mb then mb_upd (il_mb w) (maxstack_update (\<lambda>_. maxstack callee_mb)) v else v);
                    body = body_of inf; lock = locked v callee_mb
                in Inr (Some (i - 3 + 3 + length body + (if lock then 2 else 0)),
                     w\<lparr>il_vm := v, il_cc := splice v callee_mb body (i - 3) (operand e) (byteoff e) cc, il_inlined := True\<rparr>))
             else Inr (Some (i + 1), w))))"

definition note_loops :: "pcentry \<Rightarrow> inliner \<Rightarrow> inliner" where
  \<comment> \<open>\<open>loop_depth\<close> does not go below \<open>0\<close>\<close>
  "note_loops e w =
     (let d = il_depth w + (if pcentryLoopHead e then 1 else 0)
      in w\<lparr>il_depth := d - (if pcentryLoopTail e then 1 else 0)\<rparr>)"

definition inline_step :: "env \<Rightarrow> compiler \<Rightarrow> ptr \<Rightarrow> nat \<Rightarrow> nat \<Rightarrow> inliner \<Rightarrow> fatal + (nat option \<times> inliner)" where
  "inline_step E compile p threshold i w =
     (let e = pc_cell (il_cc w) i; w = note_loops e w in
      if opcode e = opc_inlined_enter then
        Inr (Some (i + 1), w\<lparr>il_stack := pushToStack (il_stack w) (il_mb w),
          il_mb := cp_mb (mb_cp (il_vm w) (il_mb w) (nat (operand e)))\<rparr>)
      else if opcode e = opc_inlined_exit then
        (let (mb, st) = popFromStack (il_stack w) in Inr (Some (i + 1), w\<lparr>il_mb := mb, il_stack := st\<rparr>))
      else if opcode e \<in> static_calls \<and> threshold \<le> il_depth w then inline_call E compile p i w
      else Inr (Some (i + 1), w))"

fun inline_from :: "nat \<Rightarrow> env \<Rightarrow> compiler \<Rightarrow> ptr \<Rightarrow> nat \<Rightarrow> nat \<Rightarrow> inliner \<Rightarrow> fatal + (bool \<times> inliner)" where
  \<comment> \<open>the first argument bounds the rounds of the loop\<close>
  "inline_from fuel E compile p threshold i w =
     (if pctablelen (il_cc w) \<le> i then Inr (il_inlined w, w)
      else (case fuel of
          0 \<Rightarrow> Inl OutOfFuel
        | Suc fuel \<Rightarrow>
            bindE (inline_step E compile p threshold i w) (\<lambda>(j, w). case j of
                None \<Rightarrow> Inr (False, w)
              | Some j \<Rightarrow> inline_from fuel E compile p threshold j w)))"

definition methodInlining0 :: "nat \<Rightarrow> env \<Rightarrow> compiler \<Rightarrow> ptr \<Rightarrow> nat \<Rightarrow> pass_state \<Rightarrow> fatal + (bool \<times> pass_state)" where
  "methodInlining0 fuel E compile p threshold s =
     (let (v, cc) = s
      in bindE (inline_from fuel E compile p threshold 0
            \<lparr>il_vm = v, il_cc = cc, il_mb = cc_mb cc, il_stack = newStack (fresh_long_mem E), il_depth = 0, il_inlined = False\<rparr>)
          (\<lambda>(inlined, w). Inr (inlined, il_vm w, il_cc w)))"

fun inline_rounds :: "nat \<Rightarrow> nat \<Rightarrow> env \<Rightarrow> compiler \<Rightarrow> ptr \<Rightarrow> pass_state \<Rightarrow> fatal + pass_state" where
  "inline_rounds 0 fuel E compile p s = Inr s"
| "inline_rounds (Suc n) fuel E compile p s =
     bindE (methodInlining0 fuel E compile p 0 s) (\<lambda>(inlined, s). if inlined then inline_rounds n fuel E compile p s else Inr s)"

record keyer =
  ky_locked :: int \<comment> \<open>\<open>locked_byteoff\<close>\<close>
  ky_nest :: int \<comment> \<open>\<open>inlined_nest_count\<close>\<close>

definition key_of :: "keyer \<Rightarrow> pcentry \<Rightarrow> int" where
  "key_of k e = (if 0 \<le> ky_locked k then ky_locked k else byteoff e)"

definition key_step :: "pcentry \<Rightarrow> keyer \<Rightarrow> keyer" where
  "key_step e k =
     (if opcode e = opc_inlined_enter then
        (let k = (if ky_nest k \<le> 0 then k\<lparr>ky_locked := byteoff e\<rparr> else k) in k\<lparr>ky_nest := ky_nest k + 1\<rparr>)
      else if opcode e = opc_inlined_exit then
        (let k = k\<lparr>ky_nest := ky_nest k - 1\<rparr> in if ky_nest k \<le> 0 then k\<lparr>ky_locked := -1\<rparr> else k)
      else k)"

fun set_keys :: "nat list \<Rightarrow> keyer \<Rightarrow> CompilerContext \<Rightarrow> CompilerContext" where
  "set_keys [] k cc = cc"
| "set_keys (i # is) k cc =
     (let e = pc_cell cc i in set_keys is (key_step e k) (pc_upd cc i (increasing_byteoff_update (\<lambda>_. key_of k e))))"

definition methodInlining :: "nat \<Rightarrow> env \<Rightarrow> compiler \<Rightarrow> ptr \<Rightarrow> pass_state \<Rightarrow> fatal + pass_state" where
  "methodInlining fuel E compile p s =
     bindE (inline_rounds (nat (opt_inlining_depth (fst s))) fuel E compile p s) (\<lambda>(v, cc).
       Inr (v, set_keys [0..<pctablelen cc] \<lparr>ky_locked = -1, ky_nest = 0\<rparr> cc))"

subsection \<open>Eager compilation\<close>

record eager =
  eg_vm :: vm
  eg_cc :: CompilerContext
  eg_mb :: ptr
  eg_stack :: cstack

fun find_core :: "nat \<Rightarrow> CompilerContext \<Rightarrow> nat \<Rightarrow> nat option" where
  \<comment> \<open>the search for the core of the invocation, which has no test for the end of the table\<close>
  "find_core 0 cc i = None"
| "find_core (Suc n) cc i =
     (if opcode (pc_cell cc i) = opc_invoke_core \<or> opcode (pc_cell cc i) = opc_invoke_core_compiled then Some i
      else find_core n cc (i + 1))"

definition eager_call :: "nat \<Rightarrow> env \<Rightarrow> compiler \<Rightarrow> ptr \<Rightarrow> nat \<Rightarrow> eager \<Rightarrow> fatal + (nat \<times> eager)" where
  \<comment> \<open>the case of an invocation at entry \<open>i\<close>; returns the entry of its core\<close>
  "eager_call fuel E compile p i w =
     (let v = eg_vm w; callee = cp_mb (mb_cp v (eg_mb w) (nat (operand (pc_cell (eg_cc w) i)))) in
      case find_core fuel (eg_cc w) (i + 1) of
        None \<Rightarrow> Inl OutOfFuel
      | Some i \<Rightarrow>
          bindE (if CompiledCodeInfo (methods v callee) = NULL then prepareCompiledCodeInfo E callee v
                 else Inr (CompiledCodeInfo (methods v callee), v)) (\<lambda>(info, v).
          let acs = mb_access (methods v callee) in
          if info = NULL \<or> acc acs ACC_ABSTRACT \<or> acc acs ACC_NATIVE then Inr (i, w\<lparr>eg_vm := v\<rparr>)
          else
            (let callee_cc = info_cc (infos v info) in
             bindE (if callee_cc = NULL \<or> stage (if callee_cc = p then eg_cc w else contexts v callee_cc) < STAGE_INTERNAL_CODE
                    then nested compile p callee STAGE_DONE (v, eg_cc w) else Inr (v, eg_cc w)) (\<lambda>(v, cc).
             Inr (i, w\<lparr>eg_vm := v, eg_cc :=
               (if invoker (methods v callee) = sym_invokeJITCompiledMethod E
                then pc_upd cc i (set_opcode opc_invoke_core_compiled) else cc)\<rparr>)))))"

definition eager_step :: "nat \<Rightarrow> env \<Rightarrow> compiler \<Rightarrow> ptr \<Rightarrow> nat \<Rightarrow> eager \<Rightarrow> fatal + (nat \<times> eager)" where
  "eager_step fuel E compile p i w =
     (let e = pc_cell (eg_cc w) i in
      if opcode e = opc_inlined_enter then
        Inr (i, w\<lparr>eg_stack := pushToStack (eg_stack w) (eg_mb w), eg_mb := cp_mb (mb_cp (eg_vm w) (eg_mb w) (nat (operand e)))\<rparr>)
      else if opcode e = opc_inlined_exit then
        (let (mb, st) = popFromStack (eg_stack w) in Inr (i, w\<lparr>eg_mb := mb, eg_stack := st\<rparr>))
      else if opcode e \<in> static_calls then eager_call fuel E compile p i w
      else Inr (i, w))"

fun eager_from :: "nat \<Rightarrow> env \<Rightarrow> compiler \<Rightarrow> ptr \<Rightarrow> nat \<Rightarrow> eager \<Rightarrow> fatal + eager" where
  "eager_from fuel E compile p i w =
     (if pctablelen (eg_cc w) \<le> i then Inr w
      else (case fuel of
          0 \<Rightarrow> Inl OutOfFuel
        | Suc fuel' \<Rightarrow> bindE (eager_step fuel E compile p i w) (\<lambda>(i, w). eager_from fuel' E compile p (i + 1) w)))"

definition eagerCompilation :: "nat \<Rightarrow> env \<Rightarrow> compiler \<Rightarrow> ptr \<Rightarrow> pass_state \<Rightarrow> fatal + pass_state" where
  "eagerCompilation fuel E compile p s =
     (let (v, cc) = s
      in bindE (eager_from fuel E compile p 0 \<lparr>eg_vm = v, eg_cc = cc, eg_mb = cc_mb cc, eg_stack = newStack (fresh_long_mem E)\<rparr>)
          (\<lambda>w. Inr (eg_vm w, eg_cc w)))"


subsection \<open>What the combined instructions mean\<close>

text \<open>
  The meaning of the internal instructions the optimisation combines, on a machine with the
  operand stack, the stack of the FPU, the local variables and the heap. The cache of the top
  of the operand stack in registers is a matter of the templates and not seen here. Formats of
  floating point numbers and accesses to arrays, which may throw, are parameters, and so is the
  meaning of all other instructions.
\<close>

record ('f, 'h) machine =
  m_stk :: "u32 list"
  m_fpu :: "nat \<Rightarrow> 'f" \<comment> \<open>the registers from the top; there is no end\<close>
  m_loc :: "int \<Rightarrow> u32"
  m_heap :: 'h

record ('f, 'h) semantics =
  f32_of :: "'f \<Rightarrow> u32"
  f32_to :: "u32 \<Rightarrow> 'f"
  f64_of :: "'f \<Rightarrow> u32 \<times> u32"
  f64_to :: "u32 \<times> u32 \<Rightarrow> 'f"
  load32 :: "'h \<Rightarrow> u32 \<Rightarrow> u32 \<Rightarrow> u32 option"
  load64 :: "'h \<Rightarrow> u32 \<Rightarrow> u32 \<Rightarrow> (u32 \<times> u32) option"
  store64 :: "'h \<Rightarrow> u32 \<Rightarrow> u32 \<Rightarrow> u32 \<times> u32 \<Rightarrow> 'h option"
  others :: "nat \<Rightarrow> int \<Rightarrow> int \<Rightarrow> ('f, 'h) machine \<Rightarrow> ('f, 'h) machine option"

definition put_local2 :: "int \<Rightarrow> u32 \<times> u32 \<Rightarrow> ('f, 'h) machine \<Rightarrow> ('f, 'h) machine" where
  "put_local2 n w m = m\<lparr>m_loc := (m_loc m)(n := fst w, n + 1 := snd w)\<rparr>"

definition with_stk1 :: "('f, 'h) machine \<Rightarrow> (u32 \<Rightarrow> u32 list \<Rightarrow> ('f, 'h) machine option) \<Rightarrow> ('f, 'h) machine option" where
  "with_stk1 m f = (case m_stk m of a # s \<Rightarrow> f a s | _ \<Rightarrow> None)"

definition with_stk2 :: "('f, 'h) machine \<Rightarrow> (u32 \<Rightarrow> u32 \<Rightarrow> u32 list \<Rightarrow> ('f, 'h) machine option) \<Rightarrow> ('f, 'h) machine option" where
  "with_stk2 m f = (case m_stk m of a # b # s \<Rightarrow> f a b s | _ \<Rightarrow> None)"

definition fpush :: "'f \<Rightarrow> ('f, 'h) machine \<Rightarrow> ('f, 'h) machine" where
  "fpush x m = m\<lparr>m_fpu := case_nat x (m_fpu m)\<rparr>"

definition fpop :: "('f, 'h) machine \<Rightarrow> ('f, 'h) machine" where
  "fpop m = m\<lparr>m_fpu := m_fpu m \<circ> Suc\<rparr>"

abbreviation (input) ftop :: "('f, 'h) machine \<Rightarrow> 'f" where
  "ftop m \<equiv> m_fpu m 0"

definition exec :: "('f, 'h) semantics \<Rightarrow> nat \<Rightarrow> int \<Rightarrow> int \<Rightarrow> ('f, 'h) machine \<Rightarrow> ('f, 'h) machine option" where
  "exec S opc n boff m =
     (let local2 = (m_loc m n, m_loc m (n + 1)) in
      if opc = opc_flush_cache \<or> opc = opc_fill_cache then Some m
      else if opc = opc_iload then Some (m\<lparr>m_stk := m_loc m n # m_stk m\<rparr>)
      else if opc = opc_lload then Some (m\<lparr>m_stk := fst local2 # snd local2 # m_stk m\<rparr>)
      else if opc = opc_istore then with_stk1 m (\<lambda>a s. Some (m\<lparr>m_stk := s, m_loc := (m_loc m)(n := a)\<rparr>))
      else if opc = opc_lstore then with_stk2 m (\<lambda>a b s. Some (put_local2 n (a, b) m\<lparr>m_stk := s\<rparr>))
      else if opc = opc_fld then with_stk1 m (\<lambda>a s. Some (fpush (f32_to S a) m\<lparr>m_stk := s\<rparr>))
      else if opc = opc_dld then with_stk2 m (\<lambda>a b s. Some (fpush (f64_to S (a, b)) m\<lparr>m_stk := s\<rparr>))
      else if opc = opc_fst then Some (fpop m\<lparr>m_stk := f32_of S (ftop m) # m_stk m\<rparr>)
      else if opc = opc_dst then
        Some (fpop m\<lparr>m_stk := fst (f64_of S (ftop m)) # snd (f64_of S (ftop m)) # m_stk m\<rparr>)
      else if opc = opc_iaload then
        with_stk2 m (\<lambda>i h s. map_option (\<lambda>a. m\<lparr>m_stk := a # s\<rparr>) (load32 S (m_heap m) h i))
      else if opc = opc_laload then
        with_stk2 m (\<lambda>i h s. map_option (\<lambda>w. m\<lparr>m_stk := fst w # snd w # s\<rparr>) (load64 S (m_heap m) h i))
      else if opc = opc_lastore then
        with_stk2 m (\<lambda>a b s. with_stk2 (m\<lparr>m_stk := s\<rparr>) (\<lambda>i h s.
          map_option (\<lambda>hp. m\<lparr>m_stk := s, m_heap := hp\<rparr>) (store64 S (m_heap m) h i (a, b))))
      else if opc = opc_fload_fld then Some (fpush (f32_to S (m_loc m n)) m)
      else if opc = opc_dload_dld then Some (fpush (f64_to S local2) m)
      else if opc = opc_fst_fstore then Some (fpop m\<lparr>m_loc := (m_loc m)(n := f32_of S (ftop m))\<rparr>)
      else if opc = opc_dst_dstore then Some (put_local2 n (f64_of S (ftop m)) (fpop m))
      else if opc = opc_dst_dastore then
        with_stk2 m (\<lambda>i h s. map_option (\<lambda>hp. fpop m\<lparr>m_stk := s, m_heap := hp\<rparr>) (store64 S (m_heap m) h i (f64_of S (ftop m))))
      else if opc = opc_istld then with_stk1 m (\<lambda>a s. Some (m\<lparr>m_loc := (m_loc m)(n := a)\<rparr>))
      else if opc = opc_lstld then with_stk2 m (\<lambda>a b s. Some (put_local2 n (a, b) m))
      else if opc = opc_faload_fld then
        with_stk2 m (\<lambda>i h s. map_option (\<lambda>a. fpush (f32_to S a) m\<lparr>m_stk := s\<rparr>) (load32 S (m_heap m) h i))
      else if opc = opc_daload_dld then
        with_stk2 m (\<lambda>i h s. map_option (\<lambda>w. fpush (f64_to S w) m\<lparr>m_stk := s\<rparr>) (load64 S (m_heap m) h i))
      else others S opc n boff m)"

fun run_entries :: "('f, 'h) semantics \<Rightarrow> pcentry list \<Rightarrow> ('f, 'h) machine \<Rightarrow> ('f, 'h) machine option" where
  "run_entries S [] m = Some m"
| "run_entries S (e # es) m = Option.bind (exec S (opcode e) (operand e) (byteoff e) m) (run_entries S es)"

definition precise :: "('f, 'h) semantics \<Rightarrow> bool" where
  \<comment> \<open>storing a result as a double and loading it again does not round: the FPU computes in double precision\<close>
  "precise S \<longleftrightarrow> (\<forall>x. f64_to S (f64_of S x) = x)"

lemma run_append: "run_entries S (xs @ ys) m = Option.bind (run_entries S xs m) (run_entries S ys)"
  by (induction xs arbitrary: m) (simp_all cong: Option.bind_cong)

text \<open>The replacements the optimisation makes.\<close>

definition fused :: "nat \<Rightarrow> int \<Rightarrow> pcentry \<Rightarrow> pcentry" where
  "fused opc oper e = e\<lparr>opcode := opc, operand := oper\<rparr>"

inductive peep :: "pcentry list \<Rightarrow> pcentry list \<Rightarrow> bool" where
  dst_dld: "\<not> pcentryBlockHead d \<Longrightarrow> opcode d = opc_dst \<Longrightarrow> opcode f = opc_flush_cache \<Longrightarrow> opcode l = opc_dld \<Longrightarrow> peep [d, f, l] [f]"
| dst_dstore: "opcode d = opc_dst \<Longrightarrow> opcode f = opc_fill_cache \<Longrightarrow> opcode s = opc_lstore \<Longrightarrow>
    peep [d, f, s] [fused opc_dst_dstore (operand s) d]"
| dst_dastore: "opcode d = opc_dst \<Longrightarrow> opcode f = opc_fill_cache \<Longrightarrow> opcode s = opc_lastore \<Longrightarrow>
    peep [d, f, s] [fused opc_dst_dastore (operand d) d]"
| fst_fstore: "opcode d = opc_fst \<Longrightarrow> opcode s = opc_istore \<Longrightarrow> peep [d, s] [fused opc_fst_fstore (operand s) d]"
| fload_fld: "opcode l = opc_iload \<Longrightarrow> opcode f = opc_flush_cache \<Longrightarrow> opcode d = opc_fld \<Longrightarrow>
    peep [l, f, d] [set_opcode opc_flush_cache l, fused opc_fload_fld (operand l) f]"
| dload_dld: "opcode l = opc_lload \<Longrightarrow> opcode f = opc_flush_cache \<Longrightarrow> opcode d = opc_dld \<Longrightarrow>
    peep [l, f, d] [set_opcode opc_flush_cache l, fused opc_dload_dld (operand l) f]"
| istld: "opcode s = opc_istore \<Longrightarrow> opcode l = opc_iload \<Longrightarrow> operand s = operand l \<Longrightarrow> peep [s, l] [fused opc_istld (operand s) s]"
| lstld: "opcode s = opc_lstore \<Longrightarrow> opcode l = opc_lload \<Longrightarrow> operand s = operand l \<Longrightarrow> peep [s, l] [fused opc_lstld (operand s) s]"
| faload_fld: "opcode l = opc_iaload \<Longrightarrow> opcode f = opc_flush_cache \<Longrightarrow> opcode d = opc_fld \<Longrightarrow>
    peep [l, f, d] [fused opc_faload_fld (operand l) l]"
| daload_dld: "opcode l = opc_laload \<Longrightarrow> opcode f = opc_flush_cache \<Longrightarrow> opcode d = opc_dld \<Longrightarrow>
    peep [l, f, d] [fused opc_daload_dld (operand l) l]"

lemma fused [simp]:
  "opcode (fused opc oper e) = opc" "operand (fused opc oper e) = oper" "byteoff (fused opc oper e) = byteoff e"
  "increasing_byteoff (fused opc oper e) = increasing_byteoff e" "pcentryBlockHead (fused opc oper e) = pcentryBlockHead e"
  "pcentryLoopHead (fused opc oper e) = pcentryLoopHead e" "pcentryState (fused opc oper e) = pcentryState e"
  "opcode (set_opcode opc e) = opc" "operand (set_opcode opc e) = operand e" "byteoff (set_opcode opc e) = byteoff e"
  "increasing_byteoff (set_opcode opc e) = increasing_byteoff e" "pcentryBlockHead (set_opcode opc e) = pcentryBlockHead e"
  "pcentryLoopHead (set_opcode opc e) = pcentryLoopHead e" "pcentryState (set_opcode opc e) = pcentryState e"
  by (simp_all add: fused_def set_opcode_def)

lemma peep_run:
  assumes "peep old new" "precise S"
  shows "run_entries S old m = run_entries S new m"
  using assms
proof (induction rule: peep.induct)
  case (dst_dld d f l)
  have "case_nat (m_fpu m 0) (m_fpu m \<circ> Suc) = m_fpu m" by (auto simp: fun_eq_iff split: nat.split)
  with dst_dld show ?case
    by (simp add: exec_def with_stk2_def precise_def fpush_def fpop_def)
next
  case (dst_dstore d f s)
  then show ?case by (simp add: exec_def with_stk2_def put_local2_def fpop_def)
next
  case (dst_dastore d f s)
  then show ?case by (simp add: exec_def with_stk2_def fpop_def split: list.split)
next
  case (fst_fstore d s)
  then show ?case by (simp add: exec_def with_stk1_def fpop_def)
next
  case (fload_fld l f d)
  then show ?case by (simp add: exec_def with_stk1_def fpush_def)
next
  case (dload_dld l f d)
  then show ?case by (simp add: exec_def with_stk2_def fpush_def)
next
  case (istld s l)
  then show ?case by (cases "m_stk m") (simp_all add: exec_def with_stk1_def)
next
  case (lstld s l)
  then show ?case by (simp add: exec_def with_stk2_def put_local2_def split: list.split)
next
  case (faload_fld l f d)
  then show ?case
    by (simp add: exec_def with_stk2_def with_stk1_def map_option_case fpush_def split: list.split option.split)
next
  case (daload_dld l f d)
  then show ?case by (simp add: exec_def with_stk2_def map_option_case fpush_def split: list.split option.split)
qed


subsection \<open>Basic blocks\<close>

abbreviation (input) inner :: "pcentry \<Rightarrow> bool" where
  "inner e \<equiv> \<not> pcentryBlockHead e"

function blocks :: "pcentry list \<Rightarrow> pcentry list list" where
  \<comment> \<open>the table cut in front of every head of a block\<close>
  "blocks [] = []"
| "blocks (e # es) = (e # takeWhile inner es) # blocks (dropWhile inner es)"
  by pat_completeness auto
termination
  by (relation "measure length") (auto simp: le_imp_less_Suc length_dropWhile_le)

definition same_head :: "pcentry \<Rightarrow> pcentry \<Rightarrow> bool" where
  "same_head e e' \<longleftrightarrow> pcentryBlockHead e' = pcentryBlockHead e \<and>
     (pcentryBlockHead e \<longrightarrow> byteoff e' = byteoff e \<and> increasing_byteoff e' = increasing_byteoff e \<and>
        pcentryLoopHead e' = pcentryLoopHead e)"

definition same_block :: "('f, 'h) semantics \<Rightarrow> pcentry list \<Rightarrow> pcentry list \<Rightarrow> bool" where
  \<comment> \<open>what jumps see of the block, and what it does\<close>
  "same_block S b b' \<longleftrightarrow> same_head (hd b) (hd b') \<and> (\<forall>m. run_entries S b' m = run_entries S b m)"

lemma same_head_refl [simp]: "same_head e e"
  by (simp add: same_head_def)

lemma same_blocks_refl: "list_all2 (same_block S) bs bs"
  by (rule list.rel_refl) (simp add: same_block_def)

lemma same_blocks_trans:
  "list_all2 (same_block S) as bs \<Longrightarrow> list_all2 (same_block S) bs cs \<Longrightarrow> list_all2 (same_block S) as cs"
  by (rule list_all2_trans) (auto simp: same_block_def same_head_def)

definition exchange :: "('f, 'h) semantics \<Rightarrow> pcentry list \<Rightarrow> pcentry list \<Rightarrow> bool" where
  \<comment> \<open>a stretch inside a block may be exchanged for another one\<close>
  "exchange S old new \<longleftrightarrow> old \<noteq> [] \<and> new \<noteq> [] \<and> (\<forall>e \<in> set (tl old) \<union> set (tl new). inner e) \<and>
     same_head (hd old) (hd new) \<and> (\<forall>m. run_entries S new m = run_entries S old m)"

lemma blocks_front:
  assumes "old \<noteq> []" "\<forall>e \<in> set (tl old). inner e"
  shows "blocks (old @ ys) = (old @ takeWhile inner ys) # blocks (dropWhile inner ys)"
proof -
  obtain e es where old: "old = e # es" using assms(1) by (cases old) auto
  have "takeWhile inner (es @ ys) = es @ takeWhile inner ys" "dropWhile inner (es @ ys) = dropWhile inner ys"
    using assms(2) by (simp_all add: old)
  then show ?thesis by (simp add: old)
qed

lemma blocks_exchange:
  assumes "exchange S old new"
  shows "list_all2 (same_block S) (blocks (xs @ old @ ys)) (blocks (xs @ new @ ys))"
proof (induction "length xs" arbitrary: xs rule: less_induct)
  case less
  have ne: "old \<noteq> []" "new \<noteq> []" "\<forall>e \<in> set (tl old). inner e" "\<forall>e \<in> set (tl new). inner e" "same_head (hd old) (hd new)"
    and r: "\<forall>m. run_entries S new m = run_entries S old m" using assms by (auto simp: exchange_def)
  have front: "list_all2 (same_block S) (blocks (old @ ys)) (blocks (new @ ys))"
    unfolding blocks_front [OF ne(1,3)] blocks_front [OF ne(2,4)]
    using ne r by (simp add: same_blocks_refl same_block_def run_append)
  show ?case
  proof (cases xs)
    case Nil
    then show ?thesis using front by simp
  next
    case (Cons x xs')
    show ?thesis
    proof (cases "\<forall>e \<in> set xs'. inner e")
      case False
      then have s: "takeWhile inner (xs' @ zs) = takeWhile inner xs'" "dropWhile inner (xs' @ zs) = dropWhile inner xs' @ zs" for zs
        by (auto simp: takeWhile_append1 dropWhile_append1)
      have "length (dropWhile inner xs') < length xs" using Cons length_dropWhile_le [of inner xs'] by simp
      from less [OF this] show ?thesis by (simp add: Cons s same_block_def)
    next
      case True
      obtain o1 os n1 ns where on: "old = o1 # os" "new = n1 # ns" using ne(1,2) by (cases old; cases new) auto
      have h: "inner n1 = inner o1" using ne(5) by (simp add: on same_head_def)
      show ?thesis
      proof (cases "inner o1")
        case False
        then have "takeWhile inner (xs' @ old @ ys) = xs'" "dropWhile inner (xs' @ old @ ys) = old @ ys"
          "takeWhile inner (xs' @ new @ ys) = xs'" "dropWhile inner (xs' @ new @ ys) = new @ ys"
          using True h by (simp_all add: on)
        then show ?thesis using front by (simp add: Cons same_block_def)
      next
        case inn: True
        have t: "takeWhile inner (xs' @ zs @ ys) = xs' @ zs @ takeWhile inner ys" "dropWhile inner (xs' @ zs @ ys) = dropWhile inner ys"
          if "\<forall>e \<in> set zs. inner e" for zs
          using True that by simp_all
        have "\<forall>e \<in> set old. inner e" "\<forall>e \<in> set new. inner e" using ne(3,4) inn h by (simp_all add: on)
        note t = t [OF this(1)] t [OF this(2)]
        have "run_entries S (x # xs' @ new @ takeWhile inner ys) m = run_entries S (x # xs' @ old @ takeWhile inner ys) m" for m
          using r by (simp add: run_append cong: Option.bind_cong)
        then show ?thesis by (simp add: Cons t same_blocks_refl same_block_def)
      qed
    qed
  qed
qed

lemma peep_exchange:
  assumes "peep old new" "precise S" "\<forall>e \<in> set (tl old). inner e"
  shows "exchange S old new"
  unfolding exchange_def peep_run [OF assms(1,2)]
  using assms(1,3) by (induction rule: peep.induct) (simp_all add: same_head_def)

subsection \<open>A step of the optimisation\<close>

lemma group_live:
  assumes "cc_ok cc" "live cc = xs @ e # rest"
  shows "group cc (length xs) n \<longleftrightarrow> n \<le> length rest \<and> (\<forall>x \<in> set (take n rest). inner x)"
    "k < length rest \<Longrightarrow> pc_cell cc (length xs + 1 + k) = rest ! k" "pc_cell cc (length xs) = e"
proof -
  have len: "pctablelen cc = length xs + 1 + length rest" using length_live [OF assms(1)] assms(2) by simp
  have c: "pc_cell cc (length xs + 1 + k) = rest ! k" if "k < length rest" for k
    using that len assms by (simp add: pc_cell_live nth_append)
  show "pc_cell cc (length xs) = e" using len assms by (simp add: pc_cell_live)
  show "pc_cell cc (length xs + 1 + k) = rest ! k" if "k < length rest" using c that .
  have "group cc (length xs) n \<longleftrightarrow> (\<forall>k < n. k < length rest \<and> inner (pc_cell cc (length xs + 1 + k)))"
  proof -
    have "list_all P [a..<a + n] \<longleftrightarrow> (\<forall>k < n. P (a + k))" for P a
      by (induction n) (auto simp: less_Suc_eq)
    from this [of _ "length xs + 1"] show ?thesis by (simp add: group_def len)
  qed
  also have "\<dots> \<longleftrightarrow> n \<le> length rest \<and> (\<forall>k < n. inner (rest ! k))"
  proof (intro iffI conjI allI impI)
    assume g: "\<forall>k < n. k < length rest \<and> inner (pc_cell cc (length xs + 1 + k))"
    show "n \<le> length rest" using g by (metis less_irrefl linorder_not_less)
    fix k assume "k < n"
    with g c [of k] show "inner (rest ! k)" by metis
  next
    fix k assume g: "n \<le> length rest \<and> (\<forall>k < n. inner (rest ! k))" "k < n"
    then show "k < length rest" by simp
    with g c [of k] show "inner (pc_cell cc (length xs + 1 + k))" by metis
  qed
  also have "\<dots> \<longleftrightarrow> n \<le> length rest \<and> (\<forall>x \<in> set (take n rest). inner x)"
    by (auto simp: all_set_conv_all_nth)
  finally show "group cc (length xs) n \<longleftrightarrow> n \<le> length rest \<and> (\<forall>x \<in> set (take n rest). inner x)" .
qed

lemma upd_delete_live:
  assumes "cc_ok cc" "live cc = xs @ e # ds @ ys"
  shows "live (pctableNDelete (pc_upd cc (length xs) f) (length xs + 1) (length ds)) = xs @ f e # ys"
    "cc_ok (pctableNDelete (pc_upd cc (length xs) f) (length xs + 1) (length ds))"
proof -
  have len: "pctablelen cc = length xs + 1 + length ds + length ys" using length_live [OF assms(1)] assms(2) by simp
  let ?u = "pc_upd cc (length xs) f"
  have u: "live ?u = xs @ f e # ds @ ys" "cc_ok ?u" "pctablelen ?u = pctablelen cc"
    using assms len by (simp_all add: pc_upd_live)
  from pctableNDelete_live [OF u(2), of "length xs + 1" "length ds"] u len
  show "live (pctableNDelete ?u (length xs + 1) (length ds)) = xs @ f e # ys" "cc_ok (pctableNDelete ?u (length xs + 1) (length ds))"
    by simp_all
qed

lemma fuse_live:
  assumes "cc_ok cc" "live cc = xs @ e # ds @ ys"
  shows "live (fuse (length xs) (length ds) opc oper cc) = xs @ fused opc oper e # ys"
    "cc_ok (fuse (length xs) (length ds) opc oper cc)"
  using upd_delete_live [OF assms] by (simp_all add: fuse_def fused_def)

lemma fuse_load_live:
  assumes "cc_ok cc" "live cc = xs @ e # e1 # e2 # ys"
  shows "live (fuse_load (length xs) opc cc) = xs @ set_opcode opc_flush_cache e # fused opc (operand e) e1 # ys"
    "cc_ok (fuse_load (length xs) opc cc)"
proof -
  have len: "pctablelen cc = length xs + 3 + length ys" using length_live [OF assms(1)] assms(2) by simp
  have c: "pc_cell cc (length xs) = e" using len assms by (simp add: pc_cell_live)
  let ?u = "pc_upd (pc_upd cc (length xs + 1) (\<lambda>x. x\<lparr>opcode := opc, operand := operand e\<rparr>)) (length xs) (set_opcode opc_flush_cache)"
  have u: "live ?u = xs @ set_opcode opc_flush_cache e # fused opc (operand e) e1 # e2 # ys" "cc_ok ?u" "pctablelen ?u = pctablelen cc"
    using assms len by (simp_all add: pc_upd_live list_update_append nth_append fused_def)
  from pctableNDelete_live [OF u(2), of "length xs + 2" 1] u len
  show "live (fuse_load (length xs) opc cc) = xs @ set_opcode opc_flush_cache e # fused opc (operand e) e1 # ys"
    "cc_ok (fuse_load (length xs) opc cc)"
    by (simp_all add: fuse_load_def pctableDelete_def Let_def c)
qed


lemma group2:
  assumes "cc_ok cc" "live cc = xs @ e # rest" "group cc (length xs) 2"
  obtains e1 e2 ys where "rest = e1 # e2 # ys" "inner e1" "inner e2" "pc_cell cc (length xs + 1) = e1"
    "pc_cell cc (length xs + 2) = e2"
proof -
  from assms(3) have g: "2 \<le> length rest" "\<forall>x \<in> set (take 2 rest). inner x"
    unfolding group_live(1) [OF assms(1,2)] by blast+
  then obtain e1 e2 ys where r: "rest = e1 # e2 # ys"
    by (metis Suc_le_length_iff numeral_2_eq_2)
  from group_live(2) [OF assms(1,2), of 0] group_live(2) [OF assms(1,2), of 1] g r
  show ?thesis using that [OF r] by simp
qed

lemma group1:
  assumes "cc_ok cc" "live cc = xs @ e # rest" "group cc (length xs) 1"
  obtains e1 ys where "rest = e1 # ys" "inner e1" "pc_cell cc (length xs + 1) = e1"
proof -
  from assms(3) have g: "1 \<le> length rest" "\<forall>x \<in> set (take 1 rest). inner x"
    unfolding group_live(1) [OF assms(1,2)] by blast+
  then obtain e1 ys where r: "rest = e1 # ys" by (cases rest) auto
  from group_live(2) [OF assms(1,2), of 0] g r show ?thesis using that [OF r] by simp
qed

definition peeped :: "CompilerContext \<Rightarrow> CompilerContext \<Rightarrow> pcentry list \<Rightarrow> pcentry list \<Rightarrow> bool" where
  \<comment> \<open>nothing has changed, or a stretch behind \<open>xs\<close> has been replaced\<close>
  "peeped cc cc' xs tail \<longleftrightarrow> cc' = cc \<or>
     (\<exists>old new ys. tail = old @ ys \<and> peep old new \<and> (\<forall>x \<in> set (tl old). inner x) \<and> live cc' = xs @ new @ ys \<and> cc_ok cc')"

lemma peeped_fuse:
  assumes "cc_ok cc" "live cc = xs @ e # ds @ ys" "peep (e # ds) [fused opc oper e]" "\<forall>x \<in> set ds. inner x" "n = length ds"
  shows "peeped cc (fuse (length xs) n opc oper cc) xs (e # ds @ ys)"
  unfolding peeped_def
proof (rule disjI2, intro exI conjI)
  show "e # ds @ ys = (e # ds) @ ys" by simp
  show "live (fuse (length xs) n opc oper cc) = xs @ [fused opc oper e] @ ys" using fuse_live [OF assms(1,2)] assms(5) by simp
qed (use assms fuse_live [OF assms(1,2)] in auto)

lemma peeped_load:
  assumes "cc_ok cc" "live cc = xs @ e # e1 # e2 # ys" "inner e1" "inner e2"
    and "peep [e, e1, e2] [set_opcode opc_flush_cache e, fused opc (operand e) e1]"
  shows "peeped cc (fuse_load (length xs) opc cc) xs (e # e1 # e2 # ys)"
  unfolding peeped_def
proof (rule disjI2, intro exI conjI)
  show "e # e1 # e2 # ys = [e, e1, e2] @ ys" by simp
  show "live (fuse_load (length xs) opc cc) = xs @ [set_opcode opc_flush_cache e, fused opc (operand e) e1] @ ys"
    using fuse_load_live [OF assms(1,2)] by simp
qed (use assms fuse_load_live [OF assms(1,2)] in auto)

lemma peeped_same [simp]: "peeped cc cc xs tail"
  by (simp add: peeped_def)

definition no_float_astore :: "pcentry \<Rightarrow> pcentry \<Rightarrow> bool" where
  "no_float_astore a b \<longleftrightarrow> \<not> (opcode a = opc_fst \<and> opcode b = opc_iastore1)"

definition sane :: "pcentry list \<Rightarrow> bool" where
  \<comment> \<open>a store from the FPU is not the first internal instruction of an instruction, and none is
      followed by a store to an array of 32 bit elements\<close>
  "sane es \<longleftrightarrow> (\<forall>e \<in> set es. opcode e = opc_dst \<longrightarrow> inner e) \<and> successively no_float_astore es"

lemma peephole_dst_peeped:
  assumes "cc_ok cc" "live cc = xs @ e # rest" "opcode e = opc_dst" "inner e"
  shows "peeped cc (peephole_dst (length xs) cc) xs (e # rest)"
proof (cases "group cc (length xs) 2")
  case True
  from group2 [OF assms(1,2) True] obtain e1 e2 ys where
    r: "rest = e1 # e2 # ys" "inner e1" "inner e2" "pc_cell cc (length xs + 1) = e1" "pc_cell cc (length xs + 2) = e2" .
  note c = group_live(3) [OF assms(1,2)]
  have l: "live cc = xs @ e # [e1, e2] @ ys" using assms(2) r by simp
  have l3: "e # rest = e # [e1, e2] @ ys" using r by simp
  let ?d = "pctableNDelete (pc_upd cc (length xs) (\<lambda>_. e1)) (length xs + 1) 2"
  have dd: "peeped cc ?d xs (e # rest)" if "opcode e1 = opc_flush_cache" "opcode e2 = opc_dld"
    unfolding peeped_def
  proof (rule disjI2, intro exI conjI)
    show "e # rest = [e, e1, e2] @ ys" using r by simp
    show "live ?d = xs @ [e1] @ ys" "cc_ok ?d" using upd_delete_live [OF assms(1) l, of "\<lambda>_. e1"]
      by (simp_all add: numeral_2_eq_2)
    show "peep [e, e1, e2] [e1]" by (rule peep.intros) (use assms(3,4) that in simp_all)
  qed (use r in auto)
  have ds: "peeped cc (fuse (length xs) 2 opc_dst_dstore (operand e2) cc) xs (e # rest)"
    if "opcode e1 = opc_fill_cache" "opcode e2 = opc_lstore"
    unfolding l3 by (rule peeped_fuse [OF assms(1) l]) (use assms(3) that r in \<open>auto intro: peep.intros\<close>)
  have da: "peeped cc (fuse (length xs) 2 opc_dst_dastore (operand e) cc) xs (e # rest)"
    if "opcode e1 = opc_fill_cache" "opcode e2 = opc_lastore"
    unfolding l3 by (rule peeped_fuse [OF assms(1) l]) (use assms(3) that r in \<open>auto intro: peep.intros\<close>)
  show ?thesis
    unfolding peephole_dst_def Let_def c r(4,5) using dd ds da by simp
qed (simp add: peephole_dst_def Let_def)

lemma peephole_fst_peeped:
  assumes "cc_ok cc" "live cc = xs @ e # rest" "opcode e = opc_fst" "successively no_float_astore (e # rest)"
  shows "peeped cc (peephole_fst (length xs) cc) xs (e # rest)"
proof (cases "group cc (length xs) 1")
  case True
  from group1 [OF assms(1,2) True] obtain e1 ys where r: "rest = e1 # ys" "inner e1" "pc_cell cc (length xs + 1) = e1" .
  note c = group_live(3) [OF assms(1,2)]
  have l: "live cc = xs @ e # [e1] @ ys" and l3: "e # rest = e # [e1] @ ys" using assms(2) r by simp_all
  have "opcode e1 \<noteq> opc_iastore1" using assms(3,4) r(1) by (simp add: no_float_astore_def)
  moreover have "peeped cc (fuse (length xs) 1 opc_fst_fstore (operand e1) cc) xs (e # rest)" if "opcode e1 = opc_istore"
    unfolding l3 by (rule peeped_fuse [OF assms(1) l]) (use assms(3) that r in \<open>auto intro: peep.intros\<close>)
  ultimately show ?thesis unfolding peephole_fst_def Let_def c r(3) by simp
qed (simp add: peephole_fst_def Let_def)

lemma peeped_flush:
  assumes "cc_ok cc" "live cc = xs @ e # rest" "group cc (length xs) 2"
    and "opcode (pc_cell cc (length xs + 1)) = opc_flush_cache" "opcode (pc_cell cc (length xs + 2)) = ld"
  shows "opcode e = opc_iload \<Longrightarrow> ld = opc_fld \<Longrightarrow> peeped cc (fuse_load (length xs) opc_fload_fld cc) xs (e # rest)"
    "opcode e = opc_lload \<Longrightarrow> ld = opc_dld \<Longrightarrow> peeped cc (fuse_load (length xs) opc_dload_dld cc) xs (e # rest)"
    "opcode e = opc_iaload \<Longrightarrow> ld = opc_fld \<Longrightarrow> peeped cc (fuse (length xs) 2 opc_faload_fld (operand e) cc) xs (e # rest)"
    "opcode e = opc_laload \<Longrightarrow> ld = opc_dld \<Longrightarrow> peeped cc (fuse (length xs) 2 opc_daload_dld (operand e) cc) xs (e # rest)"
proof -
  from group2 [OF assms(1-3)] obtain e1 e2 ys where
    r: "rest = e1 # e2 # ys" "inner e1" "inner e2" "pc_cell cc (length xs + 1) = e1" "pc_cell cc (length xs + 2) = e2" .
  have l: "live cc = xs @ e # e1 # e2 # ys" "live cc = xs @ e # [e1, e2] @ ys" using assms(2) r by simp_all
  have l3: "e # rest = e # e1 # e2 # ys" "e # rest = e # [e1, e2] @ ys" using r by simp_all
  have o: "opcode e1 = opc_flush_cache" "opcode e2 = ld" using assms(4,5) r by simp_all
  show "opcode e = opc_iload \<Longrightarrow> ld = opc_fld \<Longrightarrow> peeped cc (fuse_load (length xs) opc_fload_fld cc) xs (e # rest)"
    unfolding l3(1) by (rule peeped_load [OF assms(1) l(1) r(2,3)], rule peep.intros) (simp_all add: o)
  show "opcode e = opc_lload \<Longrightarrow> ld = opc_dld \<Longrightarrow> peeped cc (fuse_load (length xs) opc_dload_dld cc) xs (e # rest)"
    unfolding l3(1) by (rule peeped_load [OF assms(1) l(1) r(2,3)], rule peep.intros) (simp_all add: o)
  show "opcode e = opc_iaload \<Longrightarrow> ld = opc_fld \<Longrightarrow> peeped cc (fuse (length xs) 2 opc_faload_fld (operand e) cc) xs (e # rest)"
    unfolding l3(2) by (rule peeped_fuse [OF assms(1) l(2)], rule peep.intros) (use r(2,3) in \<open>auto simp: o\<close>)
  show "opcode e = opc_laload \<Longrightarrow> ld = opc_dld \<Longrightarrow> peeped cc (fuse (length xs) 2 opc_daload_dld (operand e) cc) xs (e # rest)"
    unfolding l3(2) by (rule peeped_fuse [OF assms(1) l(2)], rule peep.intros) (use r(2,3) in \<open>auto simp: o\<close>)
qed

lemma peeped_store:
  assumes "cc_ok cc" "live cc = xs @ e # rest" "group cc (length xs) 1"
    and "opcode (pc_cell cc (length xs + 1)) = ld" "operand e = operand (pc_cell cc (length xs + 1))"
  shows "opcode e = opc_istore \<Longrightarrow> ld = opc_iload \<Longrightarrow> peeped cc (fuse (length xs) 1 opc_istld (operand e) cc) xs (e # rest)"
    "opcode e = opc_lstore \<Longrightarrow> ld = opc_lload \<Longrightarrow> peeped cc (fuse (length xs) 1 opc_lstld (operand e) cc) xs (e # rest)"
proof -
  from group1 [OF assms(1-3)] obtain e1 ys where r: "rest = e1 # ys" "inner e1" "pc_cell cc (length xs + 1) = e1" .
  have l: "live cc = xs @ e # [e1] @ ys" and l3: "e # rest = e # [e1] @ ys" using assms(2) r by simp_all
  have o: "opcode e1 = ld" "operand e = operand e1" using assms(4,5) r by simp_all
  show "opcode e = opc_istore \<Longrightarrow> ld = opc_iload \<Longrightarrow> peeped cc (fuse (length xs) 1 opc_istld (operand e) cc) xs (e # rest)"
    unfolding l3 by (rule peeped_fuse [OF assms(1) l], rule peep.istld) (use r(2) o in auto)
  show "opcode e = opc_lstore \<Longrightarrow> ld = opc_lload \<Longrightarrow> peeped cc (fuse (length xs) 1 opc_lstld (operand e) cc) xs (e # rest)"
    unfolding l3 by (rule peeped_fuse [OF assms(1) l], rule peep.lstld) (use r(2) o in auto)
qed

lemma peephole_step_peeped:
  assumes "cc_ok cc" "live cc = xs @ e # rest" "sane (e # rest)"
  shows "peeped cc (peephole_step (length xs) cc) xs (e # rest)"
proof -
  note c = group_live(3) [OF assms(1,2)]
  note f = peeped_flush [OF assms(1,2)] and st = peeped_store [OF assms(1,2)]
  have d: "opcode e = opc_dst \<Longrightarrow> peeped cc (peephole_dst (length xs) cc) xs (e # rest)"
    by (rule peephole_dst_peeped [OF assms(1,2)]) (use assms(3) in \<open>auto simp: sane_def\<close>)
  have s: "opcode e = opc_fst \<Longrightarrow> peeped cc (peephole_fst (length xs) cc) xs (e # rest)"
    by (rule peephole_fst_peeped [OF assms(1,2)]) (use assms(3) in \<open>auto simp: sane_def\<close>)
  have st1: "peeped cc (if c then fuse (length xs) 1 opc_istld (operand e) cc else cc) xs (e # rest)"
    if "opcode e = opc_istore" "c \<longrightarrow> group cc (length xs) 1 \<and> opcode (pc_cell cc (length xs + 1)) = opc_iload \<and>
      operand e = operand (pc_cell cc (length xs + 1))" for c
    using st(1) [OF _ _ _ that(1) refl] that(2) by (cases c) (simp_all only: if_True if_False peeped_same simp_thms)
  have st2: "peeped cc (if c then fuse (length xs) 1 opc_lstld (operand e) cc else cc) xs (e # rest)"
    if "opcode e = opc_lstore" "c \<longrightarrow> group cc (length xs) 1 \<and> opcode (pc_cell cc (length xs + 1)) = opc_lload \<and>
      operand e = operand (pc_cell cc (length xs + 1))" for c
    using st(2) [OF _ _ _ that(1) refl] that(2) by (cases c) (simp_all only: if_True if_False peeped_same simp_thms)
  have i: "peeped cc (peephole_step (length xs) cc) xs (e # rest)" if "opcode e = opc_istore"
    using st1 [OF that, of "group cc (length xs) 1 \<and> opcode (pc_cell cc (length xs + 1)) = opc_iload \<and>
      operand e = operand (pc_cell cc (length xs + 1))"] that unfolding peephole_step_def Let_def c by simp
  have j: "peeped cc (peephole_step (length xs) cc) xs (e # rest)" if "opcode e = opc_lstore"
    using st2 [OF that, of "group cc (length xs) 1 \<and> opcode (pc_cell cc (length xs + 1)) = opc_lload \<and>
      operand e = operand (pc_cell cc (length xs + 1))"] that unfolding peephole_step_def Let_def c by simp
  consider "opcode e = opc_dst" | "opcode e = opc_fst" | "opcode e = opc_iload" | "opcode e = opc_lload" | "opcode e = opc_istore"
    | "opcode e = opc_lstore" | "opcode e = opc_iaload" | "opcode e = opc_laload"
    | "opcode e \<notin> {opc_dst, opc_fst, opc_iload, opc_lload, opc_istore, opc_lstore, opc_iaload, opc_laload}"
    by blast
  then show ?thesis
  proof cases
    case 5
    then show ?thesis by (rule i)
  next
    case 6
    then show ?thesis by (rule j)
  qed (simp_all add: peephole_step_def Let_def c d s f(1-4) [OF _ _ refl])
qed


lemma peep_new: "peep old new \<Longrightarrow> \<forall>e \<in> set new. opcode e \<notin> {opc_dst, opc_fst, opc_iastore1}"
  by (induction rule: peep.induct) simp_all

lemma sane_append: "sane (xs @ ys) \<Longrightarrow> sane ys"
  by (simp add: sane_def successively_append_iff)

lemma sane_exchange:
  assumes "sane (xs @ old @ ys)" "peep old new"
  shows "sane (xs @ new @ ys)"
proof -
  note n = peep_new [OF assms(2)]
  have nn: "no_float_astore a b" if "opcode a \<noteq> opc_fst \<or> opcode b \<noteq> opc_iastore1" for a b
    using that by (auto simp: no_float_astore_def)
  have ne: "new \<noteq> []" "old \<noteq> []" using assms(2) by (cases; simp)+
  have "successively no_float_astore new"
    using n by (induction new rule: induct_list012) (auto intro!: nn)
  moreover have "opcode (hd new) \<noteq> opc_iastore1" "opcode (List.last new) \<noteq> opc_fst" using n ne by auto
  then have "no_float_astore x (hd new)" "no_float_astore (List.last new) x" for x by (auto intro!: nn)
  moreover have "successively no_float_astore xs" "successively no_float_astore ys"
    using assms(1) by (simp_all add: sane_def successively_append_iff)
  ultimately have "successively no_float_astore (xs @ new @ ys)"
    using ne by (simp add: successively_append_iff)
  then show ?thesis
    using assms(1) n unfolding sane_def by (auto simp del: successively_append_iff)
qed

lemma peephole_from_blocks:
  assumes "cc_ok cc" "sane (live cc)" "precise S"
  shows "cc_ok (peephole_from i cc) \<and> sane (live (peephole_from i cc)) \<and>
    list_all2 (same_block S) (blocks (live cc)) (blocks (live (peephole_from i cc)))"
  using assms
proof (induction i cc rule: peephole_from.induct)
  case (1 i cc)
  show ?case
  proof (cases "i < pctablelen cc")
    case False
    then have "peephole_from i cc = cc" by (subst peephole_from.simps) simp
    then show ?thesis using 1 by (simp add: same_blocks_refl)
  next
    case True
    let ?cc = "peephole_step i cc"
    have len: "length (live cc) = pctablelen cc" using 1 by simp
    obtain xs e rest where l: "live cc = xs @ e # rest" "i = length xs"
      using True len by (metis id_take_nth_drop length_take min.absorb2 less_imp_le)
    have "sane (e # rest)" using 1(3) sane_append l(1) by metis
    from peephole_step_peeped [OF 1(2) l(1) this, folded l(2)]
    have s: "cc_ok ?cc \<and> sane (live ?cc) \<and> list_all2 (same_block S) (blocks (live cc)) (blocks (live ?cc))"
      unfolding peeped_def
    proof (elim disjE exE conjE)
      assume "?cc = cc"
      then show ?thesis using 1 by (simp add: same_blocks_refl)
    next
      fix old new ys
      assume r: "e # rest = old @ ys" "peep old new" "\<forall>x \<in> set (tl old). inner x" "live ?cc = xs @ new @ ys" "cc_ok ?cc"
      have lc: "live cc = xs @ old @ ys" using l(1) r(1) by simp
      have "sane (live ?cc)" using sane_exchange r(2,4) 1(3) lc by metis
      moreover have "list_all2 (same_block S) (blocks (live cc)) (blocks (live ?cc))"
        unfolding lc r(4) by (rule blocks_exchange [OF peep_exchange [OF r(2) 1(4) r(3)]])
      ultimately show ?thesis using r(5) by blast
    qed
    have "peephole_from i cc = peephole_from (i + 1) ?cc" using True by (subst peephole_from.simps) simp
    with s 1(1) [OF True _ _ 1(4)] show ?thesis by (metis same_blocks_trans)
  qed
qed


text \<open>The combination of a store to an array of floats does not remove the whole store: in the
table \<open>fst, iastore1, fill_cache, array_check, iastore\<close> the pass leaves the last instruction
behind the instruction that is to replace all five.\<close>
theorem float_astore_left_over:
  assumes "cc_ok cc" "map opcode (live cc) = [opc_fst, opc_iastore1, opc_fill_cache, opc_array_check, opc_iastore]"
    and "\<forall>e \<in> set (live cc). pcentryState e = 0 \<and> \<not> pcentryBlockHead e"
  shows "map opcode (live (peepholeOptimization cc)) = [opc_fst_fastore, opc_iastore]"
proof -
  from assms(2) obtain a b c d e where l: "live cc = [a, b, c, d, e]" and
    o: "opcode a = opc_fst" "opcode b = opc_iastore1" "opcode c = opc_fill_cache" "opcode d = opc_array_check" "opcode e = opc_iastore"
    by (auto simp: map_eq_Cons_conv)
  have i: "inner b" "inner c" "inner d" "inner e" "pcentryState a = 0" using assms(3) by (simp_all add: l)
  have len: "pctablelen cc = 5" using length_live [OF assms(1)] l by simp
  have cell: "pc_cell cc 0 = a" "pc_cell cc 1 = b" "pc_cell cc 4 = e"
    using assms(1) len l by (simp_all add: pc_cell_live)
  have g: "group cc 0 1" "group cc 0 4"
    using group_live(1) [OF assms(1), of "[]" a "[b, c, d, e]"] i l by simp_all
  let ?c = "fuse 0 3 opc_fst_fastore (operand e) cc"
  have "peephole_fst 0 cc = ?c" using g cell o i by (simp add: peephole_fst_def Let_def)
  then have s: "peephole_step 0 cc = ?c" using cell o by (simp add: peephole_step_def Let_def)
  have f: "live ?c = [fused opc_fst_fastore (operand e) a, e]" "cc_ok ?c"
    using fuse_live [OF assms(1), of "[]" a "[b, c, d]" "[e]"] l by (simp_all add: numeral_3_eq_3)
  have len2: "pctablelen ?c = 2" using length_live [OF f(2)] f(1) by simp
  have c2: "pc_cell ?c 0 = fused opc_fst_fastore (operand e) a" "pc_cell ?c 1 = e" using f len2 by (simp_all add: pc_cell_live)
  have s1: "peephole_step 1 ?c = ?c" using c2 o by (simp add: peephole_step_def Let_def)
  have "peephole_from 0 cc = ?c"
    by (subst peephole_from.simps) (simp add: len s, subst peephole_from.simps, simp add: len2 s1 [unfolded One_nat_def],
        subst peephole_from.simps, simp add: len2)
  then show ?thesis using f(1) o by (simp add: peepholeOptimization_def)
qed

subsection \<open>Witnesses\<close>

definition dst_cc :: CompilerContext where
  \<comment> \<open>\<open>dst, flush_cache, dld\<close>; for witnesses\<close>
  "dst_cc = pctableAdd (pctableAdd (pctableAdd fresh_cc opc_dst (-1) 0) opc_flush_cache (-1) 1) opc_dld (-1) 1"

definition fst_cc :: CompilerContext where
  "fst_cc = pctableAdd (pctableAdd (pctableAdd (pctableAdd (pctableAdd fresh_cc opc_fst (-1) 0)
     opc_iastore1 (-1) 1) opc_fill_cache (-1) 1) opc_array_check (-1) 1) opc_iastore (-1) 1"

definition plain_semantics :: "(u32 \<times> u32, unit) semantics" where
  "plain_semantics = \<lparr>f32_of = fst, f32_to = (\<lambda>w. (w, 0)), f64_of = id, f64_to = id, load32 = (\<lambda>_ _ _. None),
     load64 = (\<lambda>_ _ _. None), store64 = (\<lambda>_ _ _ _. None), others = (\<lambda>_ _ _. Some)\<rparr>"

lemma dst_cc: "cc_ok dst_cc" "views dst_cc = [new_view opc_dst (-1) 0 0 (-1), new_view opc_flush_cache (-1) 1 0 (-1), new_view opc_dld (-1) 1 0 (-1)]"
  by (simp_all add: dst_cc_def pctableAdd_views wf_intros fresh_cc_ok fresh_cc_live)


theorem float_astore_left_over_witness:
  "map opcode (live (peepholeOptimization fst_cc)) = [opc_fst_fastore, opc_iastore]"
proof -
  have ok: "cc_ok fst_cc" by (simp add: fst_cc_def wf_intros fresh_cc_ok)
  have v: "views fst_cc = [new_view opc_fst (-1) 0 0 (-1), new_view opc_iastore1 (-1) 1 0 (-1), new_view opc_fill_cache (-1) 1 0 (-1),
      new_view opc_array_check (-1) 1 0 (-1), new_view opc_iastore (-1) 1 0 (-1)]"
    by (simp add: fst_cc_def pctableAdd_views wf_intros fresh_cc_ok fresh_cc_live)
  then have o: "map opcode (live fst_cc) = [opc_fst, opc_iastore1, opc_fill_cache, opc_array_check, opc_iastore]"
    and h: "\<forall>e \<in> set (live fst_cc). pcentryState e = 0 \<and> \<not> pcentryBlockHead e"
    by (auto simp: map_eq_Cons_conv pcview_def new_view_def)
  show ?thesis by (rule float_astore_left_over [OF ok o h])
qed

end
