(* ===== verification/WriteCode.thy ===== *)
theory WriteCode
  imports States
begin

text \<open>
  The code generator (\<open>writeCode\<close> of \<^verbatim>\<open>compile.c\<close>). For every internal instruction it copies the
  template for the instruction and its state to the code buffer, in front of a loop head after
  padding to a multiple of 16, and notes the offset in the entry; it registers instructions that
  may raise a signal in the throw table, plants a trap in instructions that must initialise a
  class when they are first run, appends the native jump of a branch with a transition between
  states where the target expects another one, and writes the constants into the templates.
\<close>

record wstate =
  ws_vm :: vm
  ws_cc :: CompilerContext
  ws_off :: nat \<comment> \<open>\<open>nativeoff\<close>\<close>
  ws_mb :: ptr \<comment> \<open>\<open>mb\<close>, the method the entry comes from\<close>
  ws_stack :: cstack

subsection \<open>Alignment and template\<close>

definition alignment_pad :: "nat \<Rightarrow> nat" where
  "alignment_pad off = nat ((- int off - 15) smod 16 + 15)"

definition align_loop_head :: "nat \<Rightarrow> wstate \<Rightarrow> wstate" where
  "align_loop_head i w =
     (if pcentryLoopHead (pc_cell (ws_cc w) i) then
        (let pad = alignment_pad (ws_off w);
             (w, pad) = (if 4 \<le> pad
                         then (w\<lparr>ws_cc := writeToBuffer (ws_cc w) [0xeb, of_nat (pad - 2)],
                                 ws_off := ws_off w + 2\<rparr>, pad - 2)
                         else (w, pad))
         in w\<lparr>ws_cc := writeToBuffer (ws_cc w) (replicate pad 0x90), ws_off := ws_off w + pad\<rparr>)
      else w)"

definition note_handlers :: "ptr \<Rightarrow> nat \<Rightarrow> wstate \<Rightarrow> wstate" where
  \<comment> \<open>the offset of the exception handler is established once: \<open>0\<close> means not yet\<close>
  "note_handlers info opc w =
     (let handler = (\<lambda>c. if exc_handler_nativeoff c = 0 then c\<lparr>exc_handler_nativeoff := of_nat (ws_off w)\<rparr> else c) in
      if opc = opc_exc_handler then w\<lparr>ws_vm := info_upd info handler (ws_vm w)\<rparr>
      else if opc = opc_epilogue then
        w\<lparr>ws_vm := info_upd info (\<lambda>c. handler (c\<lparr>finish_return_nativeoff := of_nat (ws_off w)\<rparr>)) (ws_vm w)\<rparr>
      else w)"

definition add_throw :: "ptr \<Rightarrow> nat \<Rightarrow> nat \<Rightarrow> int \<Rightarrow> vm \<Rightarrow> vm \<times> nat" where
  \<comment> \<open>\<open>throwtableAdd(cc, info, nativeoff, (uint16_t)length, (uint16_t)increasing_byteoff)\<close>, whose
      third parameter is a \<open>uint8_t\<close>\<close>
  "add_throw info off len boff v =
     (let (c, k) = throwtableAdd (infos v info) (of_nat off) (of_nat len) (of_int boff)
      in (v\<lparr>infos := (infos v)(info := c)\<rparr>, k))"

definition write_template :: "env \<Rightarrow> ptr \<Rightarrow> nat \<Rightarrow> wstate \<Rightarrow> wstate" where
  "write_template E info i w =
     (let e = pc_cell (ws_cc w) i; opc = opcode e; st = pcentryState e; code = ct_code E opc st;
          cc = pc_upd (writeToBuffer (ws_cc w) code) i (nativeoff_update (\<lambda>_. of_nat (ws_off w)));
          v = (if ct_flag E opc st AND 2 \<noteq> 0
               then fst (add_throw info (ws_off w) (length code) (increasing_byteoff e) (ws_vm w)) else ws_vm w)
      in w\<lparr>ws_cc := cc, ws_vm := v\<rparr>)"

subsection \<open>Traps\<close>

definition buf_upd :: "nat \<Rightarrow> u8 \<Rightarrow> CompilerContext \<Rightarrow> CompilerContext" where
  "buf_upd k b cc = cc\<lparr>buffer := (buffer cc)[k := b]\<rparr>"

definition static_fields :: "nat set" where
  "static_fields = {opc_getstatic, opc_getstatic2, opc_putstatic, opc_putstatic2}"

definition trap_class :: "vm \<Rightarrow> ptr \<Rightarrow> pcentry \<Rightarrow> ptr option" where
  \<comment> \<open>the class to initialise when the instruction is run; the C code reads the class of a static
      field through a pointer to a method block, whose first members are those of a field block\<close>
  "trap_class v mb e =
     (let opc = opcode e; b = byte_at (mb_code (methods v mb)) (byteoff e); c = mb_cp v mb (nat (operand e)) in
      if opc = opc_inlined_enter \<and> b \<noteq> opc_invokestatic then None
      else if opc \<noteq> opc_inlined_enter \<and>
        (b = opc_new_quick \<or> opc_getstatic_quick \<le> b \<and> b \<le> opc_putstatic2_quick \<or> b = opc_invokeignored_quick) then None
      else if opc = opc_new then Some (cp_clazz c)
      else (let cb = (if opc \<in> static_fields then fb_clazz (fieldblocks v (cp_fb c)) else mb_clazz (methods v (cp_mb c)))
            in if cb_initialized (classes v cb) then None else Some cb))"

definition set_trap :: "ptr \<Rightarrow> nat \<Rightarrow> pcentry \<Rightarrow> nat \<Rightarrow> ptr \<Rightarrow> wstate \<Rightarrow> wstate" where
  \<comment> \<open>replace the byte at \<open>ws_off w + at\<close> by \<open>int 3\<close>; \<open>len\<close> is the length of the template\<close>
  "set_trap info len e at cb w =
     (let (v, k) = add_throw info (ws_off w) len (increasing_byteoff e) (ws_vm w);
          old = buffer (ws_cc w) ! (ws_off w + at);
          v = info_upd info (\<lambda>c. te_upd c k (\<lambda>t. t\<lparr>te_opcode := of_nat (opcode e), te_cb := cb, te_patched_code := old\<rparr>)) v
      in w\<lparr>ws_vm := v, ws_cc := buf_upd (ws_off w + at) 0xcc (ws_cc w)\<rparr>)"

definition plant_trap :: "ptr \<Rightarrow> nat \<Rightarrow> pcentry \<Rightarrow> wstate \<Rightarrow> wstate" where
  "plant_trap info len e w =
     (if opcode e \<in> static_fields \<union> {opc_invokestatic, opc_invokeignored_static, opc_new, opc_inlined_enter} then
        (case trap_class (ws_vm w) (ws_mb w) e of
           None \<Rightarrow> w
         | Some cb \<Rightarrow> set_trap info len e 0 cb w)
      else if opcode e = opc_invokeinterface \<and>
        byte_at (mb_code (methods (ws_vm w) (ws_mb w))) (byteoff e) \<noteq> opc_invokeinterface_quick
      then set_trap info len e 0x30 NULL w
      else w)"


subsection \<open>Native jumps\<close>

definition jcc_codes :: "nat \<Rightarrow> u8 \<times> u8" where
  \<comment> \<open>\<open>rop\<close>, the second byte of the long jump, and \<open>rop_rev\<close>, the short jump on the opposite condition\<close>
  "jcc_codes opc =
     (if opc \<in> {opc_ifeq, opc_if_icmpeq} then (0x84, 0x75)
      else if opc \<in> {opc_ifne, opc_if_icmpne} then (0x85, 0x74)
      else if opc \<in> {opc_iflt, opc_if_icmplt} then (0x8c, 0x7d)
      else if opc \<in> {opc_ifge, opc_if_icmpge} then (0x8d, 0x7c)
      else if opc \<in> {opc_ifgt, opc_if_icmpgt} then (0x8f, 0x7e)
      else if opc \<in> {opc_ifle, opc_if_icmple} then (0x8e, 0x7f)
      else (0, 0))"

definition jump_target :: "CompilerContext \<Rightarrow> (int \<Rightarrow> u8) \<Rightarrow> pcentry \<Rightarrow> (int \<times> nat) option" where
  \<comment> \<open>\<open>tgtoff\<close> and \<open>tgtstate\<close>; \<open>None\<close> for a null pointer\<close>
  "jump_target cc code e =
     (if opcode e = opc_ret then Some (-1, STATE_AFTER_JSR)
      else
        (let p = byteoff e;
             jumpoff = (if byte_at code p = opc_goto_w \<or> byte_at code p = opc_jsr_w
                        then GET_INT32 code (p + 1) else GET_INT16 code (p + 1))
         in map_option (\<lambda>t. (p + jumpoff, pcentryState (pc_cell cc t))) (pctableGetByPC cc (p + jumpoff))))"

definition insert_transition :: "env \<Rightarrow> nat \<Rightarrow> int \<Rightarrow> nat \<Rightarrow> nat \<Rightarrow> nat \<Rightarrow> CompilerContext \<Rightarrow> CompilerContext" where
  \<comment> \<open>the template for the change of state, and an entry for it behind entry \<open>i\<close>\<close>
  "insert_transition E i boff lst tgt off cc =
     writeToBuffer (pctableInsert cc (i + 1) (opc_stateto0 + tgt) (-1) boff (int lst) (of_nat off))
       (ct_code E (opc_stateto0 + tgt) lst)"

definition write_jump :: "env \<Rightarrow> nat \<Rightarrow> pcentry \<Rightarrow> nat \<Rightarrow> wstate \<Rightarrow> fatal + (nat \<times> nat \<times> wstate)" where
  \<comment> \<open>\<open>off\<close> is \<open>nextoff\<close>; returns \<open>i\<close>, \<open>nextoff\<close> and the state\<close>
  "write_jump E i e off w =
     (let opc = opcode e; st = pcentryState e; cc = ws_cc w in
      if opc_ifeq \<le> opc \<and> opc \<le> opc_ret then
        (let lst = ct_last_state E opc st; lst = (if lst = STSTA then st else lst) in
         case jump_target cc (mb_code (methods (ws_vm w) (ws_mb w))) e of
           None \<Rightarrow> Inl NullDeref
         | Some (tgtoff, tgtstate) \<Rightarrow>
             (let n = length (ct_code E (opc_stateto0 + tgtstate) lst);
                  (rop, rop_rev) = jcc_codes opc in
              if opc \<le> opc_if_acmpne then
                if lst = tgtstate then
                  (let cc = writeToBuffer cc [0x0f, rop, 0, 0, 0, 0]; off = off + 6
                   in Inr (i, off, w\<lparr>ws_cc := jptableAdd cc (of_int tgtoff) (of_nat (off - 4))\<rparr>))
                else
                  (let cc = writeToBuffer cc [rop_rev, of_nat (n + 5)]; off = off + 2;
                       cc = insert_transition E i (byteoff e) lst tgtstate off cc; off = off + n;
                       cc = writeToBuffer cc [0xe9, 0, 0, 0, 0]; off = off + 5
                   in Inr (i + 1, off, w\<lparr>ws_cc := jptableAdd cc (of_int tgtoff) (of_nat (off - 4))\<rparr>))
              else
                (let cc = insert_transition E i (byteoff e) lst tgtstate off cc; off = off + n in
                 if opc \<noteq> opc_ret then
                   (let cc = writeToBuffer cc [0xe9, 0, 0, 0, 0]; off = off + 5
                    in Inr (i + 1, off, w\<lparr>ws_cc := jptableAdd cc (of_int tgtoff) (of_nat (off - 4))\<rparr>))
                 else Inr (i + 1, off + 2, w\<lparr>ws_cc := writeToBuffer cc [0xff, 0xe0]\<rparr>))))
      else Inr (i, off, w))"

subsection \<open>Constants\<close>

text \<open>
  The constants of an entry go to offsets of its template, which starts at \<open>head\<close> in the buffer.
  A step returns the state and, when the pass is left, its return value: \<open>Some True\<close> for failure.
\<close>

type_synonym const_result = "bool option \<times> wstate"

definition put_const :: "env \<Rightarrow> nat \<Rightarrow> pcentry \<Rightarrow> nat \<Rightarrow> int \<Rightarrow> wstate \<Rightarrow> wstate" where
  \<comment> \<open>\<open>memcpy(bufp + constant_table[opcode][state][k], &val, 4)\<close>\<close>
  "put_const E head e k val w =
     w\<lparr>ws_cc := (ws_cc w)\<lparr>buffer :=
       put32 (head + constant_table E (opcode e) (pcentryState e) ! k) (of_int val) (buffer (ws_cc w))\<rparr>\<rparr>"

definition ws_code :: "wstate \<Rightarrow> int \<Rightarrow> u8" where
  "ws_code w = mb_code (methods (ws_vm w) (ws_mb w))"

definition ws_class :: "wstate \<Rightarrow> classblock" where
  "ws_class w = classes (ws_vm w) (mb_clazz (methods (ws_vm w) (ws_mb w)))"

definition ws_callee :: "pcentry \<Rightarrow> wstate \<Rightarrow> methodblock" where
  "ws_callee e w = methods (ws_vm w) (cp_mb (constant_pool (ws_class w) (nat (operand e))))"

definition ws_resolve :: "env \<Rightarrow> pcentry \<Rightarrow> nat set \<Rightarrow> wstate \<Rightarrow> bool \<times> wstate" where
  "ws_resolve E e tags w =
     (if cp_resolved (ws_class w) (nat (operand e)) then (True, w)
      else (let (v, ok) = resolve E (ws_vm w) (mb_clazz (methods (ws_vm w) (ws_mb w))) (nat (operand e)) tags
            in (ok, w\<lparr>ws_vm := v\<rparr>)))"

definition const_bipush :: "env \<Rightarrow> nat \<Rightarrow> pcentry \<Rightarrow> wstate \<Rightarrow> const_result" where
  "const_bipush E head e w =
     (let orig = byte_at (ws_code w) (byteoff e) in
      if orig \<in> {opc_ldc, opc_ldc_w, opc_ldc_quick, opc_ldc_w_quick} then
        (let (ok, w) = (if orig \<in> {opc_ldc, opc_ldc_w}
                        then ws_resolve E e {CONSTANT_Integer, CONSTANT_Float, CONSTANT_String} w else (True, w))
         in if \<not> ok then (Some True, w)
            else if cp_tag (ws_class w) (nat (operand e)) \<noteq> CONSTANT_String
            then (None, put_const E head e 0 (sint (cp_i (constant_pool (ws_class w) (nat (operand e))))) w)
            else (None, w))
      else (None, put_const E head e 0 (operand e) w))"

definition const_ldc2 :: "env \<Rightarrow> nat \<Rightarrow> pcentry \<Rightarrow> wstate \<Rightarrow> const_result" where
  "const_ldc2 E head e w =
     (let (ok, w) = (if byte_at (ws_code w) (byteoff e) = opc_ldc2_w
                     then ws_resolve E e {CONSTANT_Long, CONSTANT_Double} w else (True, w));
          item = (\<lambda>k. sint (cp_i (constant_pool (ws_class w) (nat (operand e) + k))))
      in if \<not> ok then (Some True, w)
         else (None, put_const E head e 1 (item 0) (put_const E head e 0 (item 1) w)))"

definition const_local2 :: "env \<Rightarrow> nat \<Rightarrow> pcentry \<Rightarrow> wstate \<Rightarrow> wstate" where
  "const_local2 E head e w =
     (let index = (operand e + 1) * -4; w = put_const E head e 0 index w
      in if opcode e \<noteq> opc_dload_dld \<and> opcode e \<noteq> opc_dst_dstore then put_const E head e 1 (index + 4) w else w)"

definition const_iinc :: "env \<Rightarrow> nat \<Rightarrow> pcentry \<Rightarrow> wstate \<Rightarrow> wstate" where
  "const_iinc E head e w =
     (let code = ws_code w; p = byteoff e;
          constbyte = (if byte_at code p = opc_wide then GET_INT16 code (p + 4) else sint (code (p + 2)));
          at = head + constant_table E (opcode e) (pcentryState e) ! 0;
          w = put_const E head e 0 (operand e * -4) w
      in w\<lparr>ws_cc := (ws_cc w)\<lparr>buffer := put32 (at + 4) (of_int constbyte) (buffer (ws_cc w))\<rparr>\<rparr>)"

definition const_tableswitch :: "env \<Rightarrow> nat \<Rightarrow> pcentry \<Rightarrow> wstate \<Rightarrow> wstate" where
  "const_tableswitch E head e w =
     (let argp = ALIGNUP32 (byteoff e + 1); l = ntohl_at (ws_code w) (argp + 4); h = ntohl_at (ws_code w) (argp + 8)
      in put_const E head e 1 h (put_const E head e 0 l w))"

definition const_member :: "env \<Rightarrow> nat \<Rightarrow> nat set \<Rightarrow> pcentry \<Rightarrow> wstate \<Rightarrow> const_result" where
  \<comment> \<open>\<open>CONST_GETMEMBER\<close>; \<open>quick\<close> holds the two quick opcodes. The branch for a field that is not
      resolved has no braces: it leaves the pass even when the resolution succeeds\<close>
  "const_member E head quick e w =
     (if byte_at (ws_code w) (byteoff e) \<in> quick then (None, put_const E head e 0 (operand e) w)
      else if \<not> cp_resolved (ws_class w) (nat (operand e)) then
        (let (ok, w) = ws_resolve E e {CONSTANT_Fieldref} w in (Some (\<not> ok), w))
      else
        (let fb = fieldblocks (ws_vm w) (cp_fb (constant_pool (ws_class w) (nat (operand e))))
         in (None, put_const E head e 0 (uint (fb_offset fb div 4)) w)))"

definition const_varspace :: "env \<Rightarrow> nat \<Rightarrow> pcentry \<Rightarrow> wstate \<Rightarrow> wstate" where
  "const_varspace E head e w =
     (let m = ws_callee e w; space = int (nlocals m) - int (args_size m)
      in put_const E head e 0 (if 0 < space then space * 4 else 0) w)"

definition start_index :: "CompilerContext \<Rightarrow> nat" where
  \<comment> \<open>the search for \<open>opc_start\<close>; without one the last entry examined stays in \<open>entry_start\<close>\<close>
  "start_index cc =
     (case find (\<lambda>j. opcode (pc_cell cc j) = opc_start) [0..<pctablelen cc] of
        Some j \<Rightarrow> j | None \<Rightarrow> pctablelen cc - 1)"

definition const_recursive :: "env \<Rightarrow> nat \<Rightarrow> pcentry \<Rightarrow> wstate \<Rightarrow> wstate" where
  "const_recursive E head e w =
     (let (w, k) = (if opcode e = opc_invoke_recursive
                    then (put_const E head e 0 (int (args_size (ws_callee e w))) w, 1) else (w, 0));
          arg_off = head + constant_table E (opcode e) (pcentryState e) ! k;
          tgt_off = uint (nativeoff (pc_cell (ws_cc w) (start_index (ws_cc w)))) - int arg_off - 4
      in put_const E head e k tgt_off w)"

definition const_enter :: "env \<Rightarrow> nat \<Rightarrow> pcentry \<Rightarrow> wstate \<Rightarrow> wstate" where
  "const_enter E head e w =
     (let m = ws_callee e w; callee = cp_mb (constant_pool (ws_class w) (nat (operand e)));
          w = put_const E head e 0 (4 * (int (args_size m) - 1)) w;
          w = put_const E head e 1 (-4 * (int (nlocals m) - 1)) w
      in w\<lparr>ws_stack := pushToStack (ws_stack w) (ws_mb w), ws_mb := callee\<rparr>)"

definition const_exit :: "env \<Rightarrow> nat \<Rightarrow> pcentry \<Rightarrow> wstate \<Rightarrow> wstate" where
  "const_exit E head e w =
     (let (mb, s) = popFromStack (ws_stack w);
          w = w\<lparr>ws_stack := s, ws_mb := mb\<rparr>
      in put_const E head e 0 (-4 * int (nlocals (ws_callee e w))) w)"

definition const_ignored_static :: "env \<Rightarrow> nat \<Rightarrow> pcentry \<Rightarrow> wstate \<Rightarrow> const_result" where
  "const_ignored_static E head e w =
     (let (ok, w) = ws_resolve E e {CONSTANT_Methodref, CONSTANT_InterfaceMethodref} w
      in if \<not> ok then (Some True, w) else (None, put_const E head e 0 (int (args_size (ws_callee e w))) w))"

definition resolve_constants :: "env \<Rightarrow> nat \<Rightarrow> pcentry \<Rightarrow> nat \<Rightarrow> wstate \<Rightarrow> const_result" where
  \<comment> \<open>the second switch on the opcode; \<open>off\<close> is \<open>nextoff\<close>\<close>
  "resolve_constants E head e off w =
     (let opc = opcode e; code = ws_code w; p = byteoff e in
      if opc = opc_bipush then const_bipush E head e w
      else if opc = opc_ldc2_w then const_ldc2 E head e w
      else if opc \<in> {opc_iload, opc_fload_fld, opc_istore, opc_istld, opc_fst_fstore, opc_ret} then
        (None, put_const E head e 0 (operand e * -4) w)
      else if opc \<in> {opc_lload, opc_dload_dld, opc_lstore, opc_lstld, opc_dst_dstore} then
        (None, const_local2 E head e w)
      else if opc = opc_iinc then (None, const_iinc E head e w)
      else if opc = opc_jsr then (None, put_const E head e 0 (int off) w)
      else if opc = opc_tableswitch then (None, const_tableswitch E head e w)
      else if opc = opc_lookupswitch then
        (None, put_const E head e 0 (ntohl_at code (ALIGNUP32 (p + 1) + 4)) w)
      else if opc \<in> {opc_getfield, opc_getfield2} then
        const_member E head {opc_getfield_quick, opc_getfield2_quick} e w
      else if opc \<in> {opc_putfield, opc_putfield2} then
        const_member E head {opc_putfield_quick, opc_putfield2_quick} e w
      else if opc \<in> {opc_inv_head, opc_invoke_core, opc_invoke_core_compiled} then
        (None, put_const E head e 0 (int (args_size (ws_callee e w))) w)
      else if opc \<in> {opc_invokevirtual, opc_invokevirtual_obj} then
        (None, put_const E head e 0 (uint (mb_offset (ws_callee e w))) w)
      else if opc \<in> {opc_inv_spe_varspace, opc_inv_stq_varspace} then (None, const_varspace E head e w)
      else if opc \<in> {opc_invoke_recursive, opc_invoke_recursive_1, opc_invoke_recursive_2, opc_invoke_recursive_3}
      then (None, const_recursive E head e w)
      else if opc = opc_inlined_enter then (None, const_enter E head e w)
      else if opc = opc_inlined_exit then (None, const_exit E head e w)
      else if opc = opc_newarray then (None, put_const E head e 0 (operand e) w)
      else if opc = opc_multianewarray then (None, put_const E head e 0 (uint (code (p + 3))) w)
      else if opc = opc_invokeignored_quick then (None, put_const E head e 0 (uint (code (p + 1))) w)
      else if opc \<in> {opc_invokeignored_static, opc_invokeignored_static_quick} then const_ignored_static E head e w
      else (None, w))"

subsection \<open>The pass\<close>

definition write_entry :: "env \<Rightarrow> ptr \<Rightarrow> nat \<Rightarrow> wstate \<Rightarrow> fatal + (nat \<times> bool option \<times> wstate)" where
  \<comment> \<open>one round of the loop, without the final \<open>i++\<close>\<close>
  "write_entry E info i w =
     (let e = pc_cell (ws_cc w) i;
          len = length (ct_code E (opcode e) (pcentryState e));
          w = note_handlers info (opcode e) (align_loop_head i w);
          head = bufp (ws_cc w);
          w = plant_trap info len e (write_template E info i w)
      in bindE (write_jump E i e (ws_off w + len) w) (\<lambda>(i, off, w).
           let (r, w) = resolve_constants E head e off w in Inr (i, r, w\<lparr>ws_off := off\<rparr>)))"

lemma writeToBuffer_len [simp]: "pctablelen (writeToBuffer cc bs) = pctablelen cc"
  by (simp add: writeToBuffer_frame)

lemma jptableAdd_len [simp]: "pctablelen (jptableAdd cc t a) = pctablelen cc"
  by (simp add: jptableAdd_frame)

lemma pctableInsert_len [simp]: "pctablelen (pctableInsert cc i opc oper b st n) = pctablelen cc + 1"
  by (simp add: pctable_frame)

lemma insert_transition_len [simp]: "pctablelen (insert_transition E i b l t off cc) = pctablelen cc + 1"
  by (simp add: insert_transition_def)

lemma write_jump_len:
  "write_jump E i e off w = Inr (i', off', w') \<Longrightarrow>
     i' = i \<and> pctablelen (ws_cc w') = pctablelen (ws_cc w) \<or>
     i' = i + 1 \<and> pctablelen (ws_cc w') = pctablelen (ws_cc w) + 1"
  by (auto simp: write_jump_def Let_def split: if_splits option.splits prod.splits)


lemma put_const_frame [frame_simps]:
  "bufp (ws_cc (put_const E head e k val w)) = bufp (ws_cc w)"
  "live (ws_cc (put_const E head e k val w)) = live (ws_cc w)"
  "jp_live (ws_cc (put_const E head e k val w)) = jp_live (ws_cc w)"
  "pctablelen (ws_cc (put_const E head e k val w)) = pctablelen (ws_cc w)"
  "ws_off (put_const E head e k val w) = ws_off w" "ws_vm (put_const E head e k val w) = ws_vm w"
  "ws_mb (put_const E head e k val w) = ws_mb w" "ws_stack (put_const E head e k val w) = ws_stack w"
  by (simp_all add: put_const_def live_def jp_live_def)

lemma ws_resolve_cc: "ws_resolve E e tags w = (ok, w') \<Longrightarrow> ws_cc w' = ws_cc w"
  by (auto simp: ws_resolve_def Let_def split: prod.splits if_splits)

lemma const_step_len:
  "pctablelen (ws_cc (snd (const_bipush E head e w))) = pctablelen (ws_cc w)"
  "pctablelen (ws_cc (snd (const_ldc2 E head e w))) = pctablelen (ws_cc w)"
  "pctablelen (ws_cc (snd (const_member E head q e w))) = pctablelen (ws_cc w)"
  "pctablelen (ws_cc (snd (const_ignored_static E head e w))) = pctablelen (ws_cc w)"
  "pctablelen (ws_cc (const_iinc E head e w)) = pctablelen (ws_cc w)"
  "pctablelen (ws_cc (const_local2 E head e w)) = pctablelen (ws_cc w)"
  "pctablelen (ws_cc (const_tableswitch E head e w)) = pctablelen (ws_cc w)"
  "pctablelen (ws_cc (const_varspace E head e w)) = pctablelen (ws_cc w)"
  "pctablelen (ws_cc (const_recursive E head e w)) = pctablelen (ws_cc w)"
  "pctablelen (ws_cc (const_enter E head e w)) = pctablelen (ws_cc w)"
  "pctablelen (ws_cc (const_exit E head e w)) = pctablelen (ws_cc w)"
  by (auto simp: const_bipush_def const_ldc2_def const_member_def const_ignored_static_def const_iinc_def
      const_local2_def const_tableswitch_def const_varspace_def const_recursive_def const_enter_def const_exit_def
      Let_def frame_simps dest!: ws_resolve_cc split: prod.splits)

lemma resolve_constants_len: "pctablelen (ws_cc (snd (resolve_constants E head e off w))) = pctablelen (ws_cc w)"
  by (simp add: resolve_constants_def Let_def const_step_len frame_simps)

lemma set_trap_len [simp]: "pctablelen (ws_cc (set_trap info len e at cb w)) = pctablelen (ws_cc w)"
  by (simp add: set_trap_def Let_def buf_upd_def split: prod.split)

lemma plant_trap_len [simp]: "pctablelen (ws_cc (plant_trap info len e w)) = pctablelen (ws_cc w)"
  by (simp add: plant_trap_def split: option.split)

lemma write_template_len [simp]: "pctablelen (ws_cc (write_template E info i w)) = pctablelen (ws_cc w)"
  by (simp add: write_template_def Let_def)

lemma plant_trap_off: "ws_off (plant_trap info len e w) = ws_off w"
  by (simp add: plant_trap_def set_trap_def Let_def split: option.split prod.split)

lemma write_template_off: "ws_off (write_template E info i w) = ws_off w"
  by (simp add: write_template_def Let_def)

lemma note_handlers_off: "ws_off (note_handlers info opc w) = ws_off w"
  by (simp add: note_handlers_def Let_def)

lemma note_handlers_cc [simp]: "ws_cc (note_handlers info opc w) = ws_cc w"
  by (simp add: note_handlers_def Let_def)

lemma align_loop_head_len [simp]: "pctablelen (ws_cc (align_loop_head i w)) = pctablelen (ws_cc w)"
  by (simp add: align_loop_head_def Let_def)

definition before_jump :: "env \<Rightarrow> ptr \<Rightarrow> nat \<Rightarrow> wstate \<Rightarrow> wstate" where
  \<comment> \<open>the state in front of the native jump of entry \<open>i\<close>\<close>
  "before_jump E info i w =
     (let e = pc_cell (ws_cc w) i in
      plant_trap info (length (ct_code E (opcode e) (pcentryState e))) e
        (write_template E info i (note_handlers info (opcode e) (align_loop_head i w))))"

lemma write_entry_Inr:
  assumes "write_entry E info i w = Inr (i', r, w')"
  defines "e \<equiv> pc_cell (ws_cc w) i"
  obtains off wj wr where
    "write_jump E i e (ws_off (align_loop_head i w) + length (ct_code E (opcode e) (pcentryState e)))
       (before_jump E info i w) = Inr (i', off, wj)"
    "resolve_constants E (bufp (ws_cc (align_loop_head i w))) e off wj = (r, wr)" "w' = wr\<lparr>ws_off := off\<rparr>"
  using assms
  by (auto simp: write_entry_def before_jump_def Let_def bindE_Inr plant_trap_off write_template_off
      note_handlers_off case_prod_beta prod_eq_iff)

lemma write_entry_len:
  assumes "write_entry E info i w = Inr (i', r, w')"
  shows "i' = i \<and> pctablelen (ws_cc w') = pctablelen (ws_cc w) \<or>
    i' = i + 1 \<and> pctablelen (ws_cc w') = pctablelen (ws_cc w) + 1"
  using assms
proof (cases rule: write_entry_Inr)
  case (1 off wj wr)
  let ?e = "pc_cell (ws_cc w) i"
  have "pctablelen (ws_cc wr) = pctablelen (ws_cc wj)"
    using resolve_constants_len [of E "bufp (ws_cc (align_loop_head i w))" ?e off wj] 1(2) by simp
  with write_jump_len [OF 1(1)] 1(3) show ?thesis by (simp add: before_jump_def Let_def)
qed

function write_from :: "env \<Rightarrow> ptr \<Rightarrow> nat \<Rightarrow> wstate \<Rightarrow> fatal + (bool \<times> wstate)" where
  "write_from E info i w =
     (if i < pctablelen (ws_cc w) then
        (case write_entry E info i w of
           Inl f \<Rightarrow> Inl f
         | Inr (i', Some ret, w') \<Rightarrow> Inr (ret, w')
         | Inr (i', None, w') \<Rightarrow> write_from E info (i' + 1) w')
      else Inr (False, w))"
  by pat_completeness auto
termination
  by (relation "measure (\<lambda>(E, info, i, w). pctablelen (ws_cc w) - i)") (auto dest: write_entry_len)

declare write_from.simps [simp del]

definition shrink_throwtable :: "CodeInfo \<Rightarrow> CodeInfo" where
  \<comment> \<open>an empty table is freed; the C code leaves the pointer dangling\<close>
  "shrink_throwtable info =
     (if throwtablelen info = 0 then info\<lparr>throwtable := [], throwtablesize := 0\<rparr>
      else if throwtablelen info < throwtablesize info
      then info\<lparr>throwtable := realloc (fresh_te info) (throwtable info) (throwtablelen info),
             throwtablesize := throwtablelen info\<rparr>
      else info)"

definition writeCode :: "env \<Rightarrow> pass_state \<Rightarrow> fatal + (bool \<times> pass_state)" where
  \<comment> \<open>the value is \<open>ret\<close>: whether a constant could not be resolved\<close>
  "writeCode E s =
     (let (v, cc) = s; info = CompiledCodeInfo (methods v (cc_mb cc));
          w = \<lparr>ws_vm = v, ws_cc = cc, ws_off = 0, ws_mb = cc_mb cc, ws_stack = newStack (fresh_long_mem E)\<rparr>
      in bindE (write_from E info 0 w) (\<lambda>(ret, w).
           Inr (ret, info_upd info shrink_throwtable (ws_vm w), ws_cc w)))"

end
