(* ===== verification/Layout.thy ===== *)
theory Layout
  imports WriteCode
begin

text \<open>
  What the code generator produces. The relation \<open>laid\<close> describes the code buffer, entry by
  entry, as padding, an instance of the template of the entry, and a native jump with the
  transition to the state the target expects; the theorem of this theory says that the code
  buffer, the program counter table and the jump table \<open>writeCode\<close> leaves are related by it.
  Alignment, the order of the code and the shape of the sites of jumps follow by rule induction.
\<close>

subsection \<open>Instances of templates\<close>

definition consts_needed :: "nat \<Rightarrow> nat" where
  \<comment> \<open>how many offsets of constants the generator reads for an instruction\<close>
  "consts_needed opc =
     (if opc \<in> {opc_ldc2_w, opc_lload, opc_lstore, opc_lstld, opc_tableswitch, opc_inlined_enter, opc_invoke_recursive}
      then 2
      else if opc \<in> {opc_bipush, opc_iload, opc_fload_fld, opc_istore, opc_istld, opc_fst_fstore, opc_ret, opc_dload_dld,
        opc_dst_dstore, opc_iinc, opc_jsr, opc_lookupswitch, opc_getfield, opc_getfield2, opc_putfield, opc_putfield2,
        opc_inv_head, opc_invoke_core, opc_invoke_core_compiled, opc_invokevirtual, opc_invokevirtual_obj,
        opc_inv_spe_varspace, opc_inv_stq_varspace, opc_invoke_recursive_1, opc_invoke_recursive_2,
        opc_invoke_recursive_3, opc_inlined_exit, opc_newarray, opc_multianewarray, opc_invokeignored_quick,
        opc_invokeignored_static, opc_invokeignored_static_quick} then 1
      else 0)"

abbreviation (input) template :: "env \<Rightarrow> pcentry \<Rightarrow> u8 list" where
  "template E e \<equiv> ct_code E (opcode e) (pcentryState e)"

abbreviation (input) const_table :: "env \<Rightarrow> pcentry \<Rightarrow> nat list" where
  "const_table E e \<equiv> constant_table E (opcode e) (pcentryState e)"

definition const_width :: "pcentry \<Rightarrow> nat" where
  "const_width e = (if opcode e = opc_iinc then 8 else 4)"

definition trap_cells :: "pcentry \<Rightarrow> nat set" where
  "trap_cells e =
     (if opcode e \<in> static_fields \<union> {opc_invokestatic, opc_invokeignored_static, opc_new, opc_inlined_enter} then {0}
      else if opcode e = opc_invokeinterface then {0x30} else {})"

definition open_cells :: "env \<Rightarrow> pcentry \<Rightarrow> nat set" where
  \<comment> \<open>the cells of the template the generator may overwrite\<close>
  "open_cells E e = {c + j | c j. c \<in> set (const_table E e) \<and> j < const_width e} \<union> trap_cells e"

definition template_ok :: "env \<Rightarrow> pcentry \<Rightarrow> bool" where
  "template_ok E e \<longleftrightarrow>
     consts_needed (opcode e) \<le> length (const_table E e) \<and>
     (\<forall>c \<in> set (const_table E e). c + const_width e \<le> length (template E e)) \<and>
     (\<forall>c \<in> trap_cells e. c < length (template E e))"

definition instance_of :: "env \<Rightarrow> pcentry \<Rightarrow> u8 list \<Rightarrow> bool" where
  "instance_of E e code \<longleftrightarrow> length code = length (template E e) \<and>
     (\<forall>j < length code. j \<notin> open_cells E e \<longrightarrow> code ! j = template E e ! j)"

lemma open_cells_inside: "template_ok E e \<Longrightarrow> c \<in> open_cells E e \<Longrightarrow> c < length (template E e)"
  by (fastforce simp: template_ok_def open_cells_def)

definition patched :: "nat \<Rightarrow> nat set \<Rightarrow> CompilerContext \<Rightarrow> CompilerContext \<Rightarrow> bool" where
  \<comment> \<open>only the bytes of the buffer at \<open>head + c\<close> for \<open>c\<close> in \<open>C\<close> may differ\<close>
  "patched head C cc cc' \<longleftrightarrow> (\<exists>b. cc' = cc\<lparr>buffer := b\<rparr> \<and> length b = length (buffer cc) \<and>
     (\<forall>k. k \<notin> (\<lambda>c. head + c) ` C \<longrightarrow> b ! k = buffer cc ! k))"

lemma patched_refl [simp]: "patched head C cc cc"
  unfolding patched_def by (rule exI [of _ "buffer cc"]) simp

lemma patched_trans: "patched head C cc cc' \<Longrightarrow> patched head C cc' cc'' \<Longrightarrow> patched head C cc cc''"
  by (auto simp: patched_def)

lemma patched_put:
  assumes "patched head C cc cc'" "head + c + 4 \<le> length (buffer cc)" "\<And>j. j < 4 \<Longrightarrow> c + j \<in> C"
  shows "patched head C cc (cc'\<lparr>buffer := put32 (head + c) v (buffer cc')\<rparr>)"
proof -
  from assms(1) obtain b where b: "cc' = cc\<lparr>buffer := b\<rparr>" "length b = length (buffer cc)"
    "\<forall>k. k \<notin> (\<lambda>c. head + c) ` C \<longrightarrow> b ! k = buffer cc ! k"
    by (auto simp: patched_def)
  have "put32 (head + c) v b ! k = b ! k" if "k \<notin> (\<lambda>c. head + c) ` C" for k
  proof (rule nth_put32_other)
    show "head + c + 4 \<le> length b" using b(2) assms(2) by simp
    show "k < head + c \<or> head + c + 4 \<le> k"
    proof (rule ccontr)
      assume "\<not> (k < head + c \<or> head + c + 4 \<le> k)"
      then have "k = head + (c + (k - (head + c)))" "k - (head + c) < 4" by auto
      with assms(3) [of "k - (head + c)"] that show False by blast
    qed
  qed
  with b assms(2) show ?thesis
    unfolding patched_def by (intro exI [of _ "put32 (head + c) v b"]) simp
qed

lemma patched_const:
  assumes "patched head (open_cells E e) cc (ws_cc w)" "template_ok E e" "k < length (const_table E e)"
    and "head + length (template E e) \<le> length (buffer cc)"
  shows "patched head (open_cells E e) cc (ws_cc (put_const E head e k val w))"
proof -
  have c: "const_table E e ! k \<in> set (const_table E e)" using assms(3) by simp
  have w4: "4 \<le> const_width e" by (simp add: const_width_def)
  have "const_table E e ! k + j \<in> open_cells E e" if "j < 4" for j
    using c w4 that unfolding open_cells_def by fastforce
  moreover have "const_table E e ! k + 4 \<le> length (template E e)"
    using assms(2) c w4 unfolding template_ok_def by fastforce
  ultimately show ?thesis
    using patched_put [OF assms(1)] assms(4) by (simp add: put_const_def)
qed


lemma patched_iinc:
  assumes "opcode e = opc_iinc" "template_ok E e" "head + length (template E e) \<le> length (buffer (ws_cc w))"
  shows "patched head (open_cells E e) (ws_cc w) (ws_cc (const_iinc E head e w))"
proof -
  have "1 \<le> length (const_table E e)" using assms(1,2) by (simp add: template_ok_def consts_needed_def)
  then have n: "0 < length (const_table E e)" by linarith
  then have c: "const_table E e ! 0 \<in> set (const_table E e)" by simp
  let ?p = "put_const E head e 0 (operand e * -4) w"
  let ?c = "const_table E e ! 0 + 4"
  have p: "patched head (open_cells E e) (ws_cc w) (ws_cc ?p)"
    using patched_const [OF patched_refl assms(2) n assms(3)] .
  have "?c + j \<in> open_cells E e" if "j < 4" for j
  proof -
    have "const_table E e ! 0 + (4 + j) \<in> open_cells E e"
      using c that assms(1) unfolding open_cells_def const_width_def by fastforce
    then show ?thesis by (simp add: add.assoc)
  qed
  moreover have "head + ?c + 4 \<le> length (buffer (ws_cc w))"
    using assms c by (fastforce simp: template_ok_def const_width_def)
  ultimately show ?thesis
    using patched_put [OF p] by (simp add: const_iinc_def Let_def add.assoc)
qed

lemma resolve_constants_patched:
  assumes "template_ok E e" "head + length (template E e) \<le> length (buffer (ws_cc w))"
  shows "patched head (open_cells E e) (ws_cc w) (ws_cc (snd (resolve_constants E head e off w)))"
proof -
  let ?P = "\<lambda>w'. patched head (open_cells E e) (ws_cc w) (ws_cc w')"
  have same: "?P w'" if "ws_cc w' = ws_cc w" for w'
    using that by simp
  have put: "?P (put_const E head e k val w')" if "?P w'" "k < consts_needed (opcode e)" for k val w'
    using patched_const [OF that(1) assms(1) _ assms(2)] that(2) assms(1) by (simp add: template_ok_def)
  have res: "?P w''" if "ws_resolve E e tags w' = (ok, w'')" "?P w'" for w' w'' ok tags
    using that by (simp add: ws_resolve_cc)
  have member: "?P (snd (const_member E head q e w))" if "0 < consts_needed (opcode e)" for q
  proof (cases "ws_resolve E e {CONSTANT_Fieldref} w")
    case (Pair ok w')
    with that show ?thesis by (simp add: const_member_def Let_def put ws_resolve_cc)
  qed
  have ignored: "?P (snd (const_ignored_static E head e w))" if "0 < consts_needed (opcode e)"
  proof (cases "ws_resolve E e {CONSTANT_Methodref, CONSTANT_InterfaceMethodref} w")
    case (Pair ok w')
    with that show ?thesis by (simp add: const_ignored_static_def Let_def put ws_resolve_cc)
  qed
  have recursive: "?P (const_recursive E head e w)"
    if "0 < consts_needed (opcode e)" "opcode e = opc_invoke_recursive \<longrightarrow> 1 < consts_needed (opcode e)"
    using that by (auto simp: const_recursive_def Let_def simp del: of_int_diff intro!: put)
  consider "opcode e = opc_bipush" | "opcode e = opc_ldc2_w" | "opcode e = opc_iinc"
    | "opcode e \<in> {opc_lload, opc_dload_dld, opc_lstore, opc_lstld, opc_dst_dstore}"
    | "opcode e \<in> {opc_getfield, opc_getfield2, opc_putfield, opc_putfield2}"
    | "opcode e \<in> {opc_invokeignored_static, opc_invokeignored_static_quick}"
    | "opcode e \<in> {opc_invoke_recursive, opc_invoke_recursive_1, opc_invoke_recursive_2, opc_invoke_recursive_3}"
    | "opcode e \<in> {opc_inlined_enter, opc_inlined_exit}"
    | "opcode e \<in> {opc_tableswitch, opc_inv_spe_varspace, opc_inv_stq_varspace}"
    | "opcode e \<notin> {opc_bipush, opc_ldc2_w, opc_iinc, opc_lload, opc_dload_dld, opc_lstore, opc_lstld, opc_dst_dstore,
        opc_getfield, opc_getfield2, opc_putfield, opc_putfield2, opc_invokeignored_static,
        opc_invokeignored_static_quick, opc_invoke_recursive, opc_invoke_recursive_1, opc_invoke_recursive_2,
        opc_invoke_recursive_3, opc_inlined_enter, opc_inlined_exit, opc_tableswitch, opc_inv_spe_varspace,
        opc_inv_stq_varspace}" by blast
  then show ?thesis
  proof cases
    case 1
    then show ?thesis
      by (auto simp: resolve_constants_def const_bipush_def Let_def consts_needed_def intro!: put
          dest!: ws_resolve_cc split: prod.splits)
  next
    case 2
    then show ?thesis
      by (auto simp: resolve_constants_def const_ldc2_def Let_def consts_needed_def intro!: put
          dest!: ws_resolve_cc split: prod.splits)
  next
    case 3
    with patched_iinc [OF 3 assms] show ?thesis by (simp add: resolve_constants_def Let_def)
  next
    case 4
    then show ?thesis
      by (auto simp: resolve_constants_def const_local2_def Let_def consts_needed_def intro!: put)
  next
    case 5
    then have "0 < consts_needed (opcode e)" by (auto simp: consts_needed_def)
    from member [OF this] 5 show ?thesis by (auto simp: resolve_constants_def Let_def)
  next
    case 6
    then have "0 < consts_needed (opcode e)" by (auto simp: consts_needed_def)
    from ignored [OF this] 6 show ?thesis by (auto simp: resolve_constants_def Let_def)
  next
    case 7
    then have "0 < consts_needed (opcode e)" "opcode e = opc_invoke_recursive \<longrightarrow> 1 < consts_needed (opcode e)"
      by (auto simp: consts_needed_def)
    from recursive [OF this] 7 show ?thesis by (auto simp: resolve_constants_def Let_def)
  next
    case 8
    have stk: "?P (w'\<lparr>ws_stack := s, ws_mb := m\<rparr>) = ?P w'" for w' s m by simp
    from 8 show ?thesis
      by (auto simp: resolve_constants_def const_enter_def const_exit_def Let_def consts_needed_def intro!: put
          split: prod.splits)
  next
    case 9
    then show ?thesis
      by (auto simp: resolve_constants_def const_tableswitch_def const_varspace_def Let_def consts_needed_def intro!: put)
  next
    case 10
    then show ?thesis
      by (auto simp: resolve_constants_def Let_def consts_needed_def intro!: put)
  qed
qed


subsection \<open>What the pass may not change\<close>

definition vm_keeps :: "vm \<Rightarrow> vm \<Rightarrow> bool" where
  "vm_keeps v v' \<longleftrightarrow>
     (\<forall>m. mb_code (methods v' m) = mb_code (methods v m) \<and> mb_clazz (methods v' m) = mb_clazz (methods v m)) \<and>
     (\<forall>c k. cp_resolved (classes v c) k \<longrightarrow> cp_resolved (classes v' c) k)"

definition resolver_keeps :: "env \<Rightarrow> bool" where
  \<comment> \<open>resolving an entry changes neither bytecode nor the class of a method, and resolved entries stay resolved\<close>
  "resolver_keeps E \<longleftrightarrow> (\<forall>v c i t. vm_keeps v (fst (resolve E v c i t)))"

lemma vm_keeps_refl [simp]: "vm_keeps v v"
  by (simp add: vm_keeps_def)

lemma vm_keeps_trans: "vm_keeps v v' \<Longrightarrow> vm_keeps v' v'' \<Longrightarrow> vm_keeps v v''"
  by (simp add: vm_keeps_def)

lemma vm_keeps_info [simp]: "vm_keeps v (v'\<lparr>infos := f\<rparr>) = vm_keeps v v'"
  by (simp add: vm_keeps_def)

lemma ws_resolve_keeps:
  assumes "resolver_keeps E" "ws_resolve E e tags w = (ok, w')"
  shows "vm_keeps (ws_vm w) (ws_vm w') \<and> ws_mb w' = ws_mb w"
proof (cases "cp_resolved (ws_class w) (nat (operand e))")
  case True
  then show ?thesis using assms(2) by (simp add: ws_resolve_def)
next
  case False
  let ?r = "resolve E (ws_vm w) (mb_clazz (methods (ws_vm w) (ws_mb w))) (nat (operand e)) tags"
  have "w' = w\<lparr>ws_vm := fst ?r\<rparr>" using assms(2) False by (auto simp: ws_resolve_def Let_def split: prod.splits)
  with assms(1) show ?thesis unfolding resolver_keeps_def by simp
qed

definition flat :: "pcentry \<Rightarrow> bool" where
  "flat e \<longleftrightarrow> opcode e \<noteq> opc_inlined_enter \<and> opcode e \<noteq> opc_inlined_exit"

lemma resolve_constants_keeps:
  assumes "resolver_keeps E" "flat e"
  shows "vm_keeps (ws_vm w) (ws_vm (snd (resolve_constants E head e off w))) \<and>
    ws_mb (snd (resolve_constants E head e off w)) = ws_mb w"
proof -
  let ?K = "\<lambda>w'. vm_keeps (ws_vm w) (ws_vm w') \<and> ws_mb w' = ws_mb w"
  have put: "?K (put_const E head e k val w') = ?K w'" for k val w'
    by (simp add: frame_simps)
  have res: "?K w'" if "ws_resolve E e tags w = (ok, w')" for w' ok tags
    using ws_resolve_keeps [OF assms(1) that] .
  have b: "?K (snd (const_bipush E head e w))"
    using res by (auto simp: const_bipush_def Let_def frame_simps split: prod.splits)
  have l: "?K (snd (const_ldc2 E head e w))"
    using res by (auto simp: const_ldc2_def Let_def frame_simps split: prod.splits)
  have m: "?K (snd (const_member E head q e w))" for q
    using res by (auto simp: const_member_def Let_def frame_simps split: prod.splits)
  have s: "?K (snd (const_ignored_static E head e w))"
    using res by (auto simp: const_ignored_static_def Let_def frame_simps split: prod.splits)
  have i: "?K (const_iinc E head e w)" "?K (const_local2 E head e w)" "?K (const_tableswitch E head e w)"
    "?K (const_varspace E head e w)" "?K (const_recursive E head e w)"
    by (simp_all add: const_iinc_def const_local2_def const_tableswitch_def const_varspace_def
        const_recursive_def Let_def frame_simps)
  show ?thesis
    using assms(2) b l m s i by (simp add: resolve_constants_def Let_def flat_def frame_simps)
qed

definition member_opcodes :: "nat set" where
  "member_opcodes = {opc_getfield, opc_getfield2, opc_putfield, opc_putfield2}"

lemma resolve_constants_goes_on:
  assumes "resolve_constants E head e off w = (r, w')" "r \<noteq> Some True"
    and "opcode e \<in> member_opcodes \<longrightarrow> cp_resolved (ws_class w) (nat (operand e))"
  shows "r = None"
proof -
  have b: "fst (const_bipush E head e w) \<in> {None, Some True}" "fst (const_ldc2 E head e w) \<in> {None, Some True}"
    "fst (const_ignored_static E head e w) \<in> {None, Some True}"
    by (auto simp: const_bipush_def const_ldc2_def const_ignored_static_def Let_def split: prod.splits)
  have m: "fst (const_member E head q e w) = None" if "opcode e \<in> member_opcodes" for q
    using that assms(3) by (simp add: const_member_def)
  have r: "r = fst (resolve_constants E head e off w)" using assms(1) by simp
  consider "opcode e \<in> member_opcodes" | "opcode e = opc_bipush" | "opcode e = opc_ldc2_w"
    | "opcode e \<in> {opc_invokeignored_static, opc_invokeignored_static_quick}"
    | "opcode e \<notin> member_opcodes \<union> {opc_bipush, opc_ldc2_w, opc_invokeignored_static, opc_invokeignored_static_quick}"
    by blast
  then show ?thesis
  proof cases
    case 1
    with m [OF 1] show ?thesis by (auto simp: r resolve_constants_def Let_def member_opcodes_def)
  next
    case 5
    then show ?thesis by (simp add: r resolve_constants_def Let_def member_opcodes_def)
  qed (use b assms(2) in \<open>auto simp: r resolve_constants_def Let_def\<close>)
qed


subsection \<open>Targets of jumps\<close>

definition jump_offset :: "(int \<Rightarrow> u8) \<Rightarrow> int \<Rightarrow> int" where
  "jump_offset code p =
     (if byte_at code p = opc_goto_w \<or> byte_at code p = opc_jsr_w
      then GET_INT32 code (p + 1) else GET_INT16 code (p + 1))"

definition dest :: "(int \<Rightarrow> u8) \<Rightarrow> pcentry \<Rightarrow> int" where
  "dest code e = (if opcode e = opc_ret then -1 else byteoff e + jump_offset code (byteoff e))"

definition first_at :: "pcentry list \<Rightarrow> int \<Rightarrow> pcentry option" where
  "first_at es d = find (\<lambda>e. increasing_byteoff e = d) es"

definition state_at :: "pcentry list \<Rightarrow> int \<Rightarrow> nat option" where
  "state_at es d = map_option pcentryState (first_at es d)"

definition jumps :: "pcentry \<Rightarrow> bool" where
  "jumps e \<longleftrightarrow> opc_ifeq \<le> opcode e \<and> opcode e \<le> opc_ret"

definition target_state :: "(int \<Rightarrow> nat option) \<Rightarrow> (int \<Rightarrow> u8) \<Rightarrow> pcentry \<Rightarrow> nat" where
  "target_state T code e = (if opcode e = opc_ret then 0 else the (T (dest code e)))"

lemma first_at_index:
  assumes "i < length es" "increasing_byteoff (es ! i) = d" "\<forall>j < i. increasing_byteoff (es ! j) \<noteq> d"
  shows "first_at es d = Some (es ! i)"
  using assms by (auto simp: first_at_def find_Some_iff)

lemma getByPC_state_at:
  assumes "cc_ok cc" "table_sorted cc" "d \<in> increasing_byteoff ` set (live cc)"
  shows "\<exists>t. pctableGetByPC cc d = Some t \<and> state_at (live cc) d = Some (pcentryState (pc_cell cc t))"
proof -
  from assms(1,3) obtain k where k: "k < pctablelen cc" "increasing_byteoff (live cc ! k) = d"
    by (auto simp: in_set_conv_nth)
  from getByPC_finds [OF assms(1,2) k] obtain t where
    t: "pctableGetByPC cc d = Some t" "t \<le> k" "increasing_byteoff (live cc ! t) = d"
      "\<forall>j < t. increasing_byteoff (live cc ! j) < d" .
  with k assms(1) first_at_index [of t "live cc" d] have "first_at (live cc) d = Some (live cc ! t)"
    by fastforce
  with t k assms(1) show ?thesis by (simp add: state_at_def pc_cell_live)
qed

lemma jump_target_found:
  assumes "cc_ok cc" "table_sorted cc" "opcode e \<noteq> opc_ret \<longrightarrow> dest code e \<in> increasing_byteoff ` set (live cc)"
  shows "jump_target cc code e = Some (dest code e, target_state (state_at (live cc)) code e)"
proof (cases "opcode e = opc_ret")
  case True
  then show ?thesis by (simp add: jump_target_def dest_def target_state_def)
next
  case False
  with getByPC_state_at [OF assms(1,2)] assms(3) obtain t where
    "pctableGetByPC cc (dest code e) = Some t" "state_at (live cc) (dest code e) = Some (pcentryState (pc_cell cc t))"
    by blast
  with False show ?thesis
    by (auto simp: jump_target_def dest_def target_state_def jump_offset_def Let_def)
qed

lemma first_at_mono:
  assumes "list_all2 (\<lambda>a b. increasing_byteoff a = increasing_byteoff b \<and> pcentryState a = pcentryState b) es es'"
  shows "state_at es' d = state_at es d"
  using assms by (induction rule: list_all2_induct) (auto simp: state_at_def first_at_def)

lemma state_at_insert:
  assumes "e \<in> set xs" "\<forall>t \<in> set ins. increasing_byteoff t = increasing_byteoff e"
  shows "state_at (xs @ ins @ ys) d = state_at (xs @ ys) d"
proof (cases "\<exists>x \<in> set xs. increasing_byteoff x = d")
  case True
  then have "first_at (xs @ zs) d = first_at xs d" for zs
    unfolding first_at_def by (induction xs) auto
  then show ?thesis by (simp add: state_at_def)
next
  case False
  then have f: "first_at (xs @ zs) d = first_at zs d" for zs
    unfolding first_at_def by (induction xs) auto
  have "first_at (ins @ ys) d = first_at ys d"
    using assms(2) False assms(1) unfolding first_at_def by (induction ins) auto
  with f show ?thesis by (simp add: state_at_def)
qed

subsection \<open>The native jump of an entry\<close>

definition state_behind :: "env \<Rightarrow> pcentry \<Rightarrow> nat" where
  "state_behind E e =
     (if ct_last_state E (opcode e) (pcentryState e) = STSTA then pcentryState e
      else ct_last_state E (opcode e) (pcentryState e))"

definition transition :: "env \<Rightarrow> pcentry \<Rightarrow> nat \<Rightarrow> u8 list" where
  "transition E e tgt = ct_code E (opc_stateto0 + tgt) (state_behind E e)"

definition transition_entry :: "env \<Rightarrow> pcentry \<Rightarrow> nat \<Rightarrow> nat \<Rightarrow> pcentry \<Rightarrow> bool" where
  "transition_entry E e tgt off t \<longleftrightarrow>
     pcview t = new_view (opc_stateto0 + tgt) (-1) (byteoff e) (int (state_behind E e)) (of_nat off)"

definition jump_entry :: "int \<Rightarrow> nat \<Rightarrow> jpentry" where
  "jump_entry d off = \<lparr>jp_tgtoff = of_int d, jp_argoff = of_nat off\<rparr>"

text \<open>
  \<open>jump_block E T code e off bs ins js\<close>: behind the template of \<open>e\<close>, at \<open>off\<close>, stand the bytes
  \<open>bs\<close>; the entries \<open>ins\<close> were inserted and \<open>js\<close> registered. \<open>T\<close> gives the states the targets expect.
\<close>

inductive jump_block ::
  "env \<Rightarrow> (int \<Rightarrow> nat option) \<Rightarrow> (int \<Rightarrow> u8) \<Rightarrow> pcentry \<Rightarrow> nat \<Rightarrow> u8 list \<Rightarrow> pcentry list \<Rightarrow> jpentry list \<Rightarrow> bool"
  for E T code where
  no_jump: "\<not> jumps e \<Longrightarrow> jump_block E T code e off [] [] []"
| cond_same: "jumps e \<Longrightarrow> opcode e \<le> opc_if_acmpne \<Longrightarrow> state_behind E e = target_state T code e \<Longrightarrow>
    jump_block E T code e off [0x0f, fst (jcc_codes (opcode e)), 0, 0, 0, 0] []
      [jump_entry (dest code e) (off + 2)]"
| cond_other: "jumps e \<Longrightarrow> opcode e \<le> opc_if_acmpne \<Longrightarrow> state_behind E e \<noteq> target_state T code e \<Longrightarrow>
    tr = transition E e (target_state T code e) \<Longrightarrow>
    transition_entry E e (target_state T code e) (off + 2) t \<Longrightarrow>
    jump_block E T code e off
      ([snd (jcc_codes (opcode e)), of_nat (length tr + 5)] @ tr @ [0xe9, 0, 0, 0, 0]) [t]
      [jump_entry (dest code e) (off + 2 + length tr + 1)]"
| jump: "jumps e \<Longrightarrow> opc_if_acmpne < opcode e \<Longrightarrow> opcode e \<noteq> opc_ret \<Longrightarrow>
    tr = transition E e (target_state T code e) \<Longrightarrow>
    transition_entry E e (target_state T code e) off t \<Longrightarrow>
    jump_block E T code e off (tr @ [0xe9, 0, 0, 0, 0]) [t] [jump_entry (dest code e) (off + length tr + 1)]"
| return: "jumps e \<Longrightarrow> opcode e = opc_ret \<Longrightarrow> tr = transition E e 0 \<Longrightarrow> transition_entry E e 0 off t \<Longrightarrow>
    jump_block E T code e off (tr @ [0xff, 0xe0]) [t] []"

lemma insert_transition_views:
  assumes "cc_ok cc" "i < pctablelen cc"
  shows "\<exists>t. live (insert_transition E i b lst tgt off cc) = take (i + 1) (live cc) @ t # drop (i + 1) (live cc) \<and>
      pcview t = new_view (opc_stateto0 + tgt) (-1) b (int lst) (of_nat off)"
    and "buf_live (insert_transition E i b lst tgt off cc) = buf_live cc @ ct_code E (opc_stateto0 + tgt) lst"
    and "jp_live (insert_transition E i b lst tgt off cc) = jp_live cc"
    and "cc_ok (insert_transition E i b lst tgt off cc)"
proof -
  let ?cc = "pctableInsert cc (i + 1) (opc_stateto0 + tgt) (-1) b (int lst) (of_nat off)"
  have le: "i + 1 \<le> pctablelen cc" using assms(2) by simp
  have ok: "cc_ok ?cc" using assms(1) le by (simp add: table_simps)
  show "\<exists>t. live (insert_transition E i b lst tgt off cc) = take (i + 1) (live cc) @ t # drop (i + 1) (live cc) \<and>
      pcview t = new_view (opc_stateto0 + tgt) (-1) b (int lst) (of_nat off)"
    using pctableInsert_live [OF assms(1) le] by (simp add: insert_transition_def frame_simps)
  show "buf_live (insert_transition E i b lst tgt off cc) = buf_live cc @ ct_code E (opc_stateto0 + tgt) lst"
    using ok by (simp add: insert_transition_def writeToBuffer_live frame_simps)
  show "jp_live (insert_transition E i b lst tgt off cc) = jp_live cc"
    by (simp add: insert_transition_def frame_simps)
  show "cc_ok (insert_transition E i b lst tgt off cc)"
    using ok by (simp add: insert_transition_def wf_intros)
qed

lemma write_jump_block:
  assumes "cc_ok (ws_cc w)" "table_sorted (ws_cc w)" "i < pctablelen (ws_cc w)"
    and "jumps e \<longrightarrow> opcode e \<noteq> opc_ret \<longrightarrow> dest (ws_code w) e \<in> increasing_byteoff ` set (live (ws_cc w))"
  shows "\<exists>bs ins js w'. write_jump E i e off w = Inr (i + length ins, off + length bs, w') \<and>
    jump_block E (state_at (live (ws_cc w))) (ws_code w) e off bs ins js \<and>
    cc_ok (ws_cc w') \<and> buf_live (ws_cc w') = buf_live (ws_cc w) @ bs \<and>
    live (ws_cc w') = take (i + 1) (live (ws_cc w)) @ ins @ drop (i + 1) (live (ws_cc w)) \<and>
    jp_live (ws_cc w') = jp_live (ws_cc w) @ js \<and> ws_vm w' = ws_vm w \<and> ws_mb w' = ws_mb w"
proof (cases "jumps e")
  case False
  then show ?thesis
    using assms(1)
    by (intro exI [of _ "[]"] exI [of _ w]) (auto simp: write_jump_def jumps_def intro: no_jump)
next
  case True
  let ?cc = "ws_cc w" and ?tgt = "target_state (state_at (live (ws_cc w))) (ws_code w) e" and ?d = "dest (ws_code w) e"
  let ?tr = "transition E e ?tgt"
  have jt: "jump_target ?cc (mb_code (methods (ws_vm w) (ws_mb w))) e = Some (?d, ?tgt)"
    using jump_target_found [OF assms(1,2)] assms(4) True by (simp add: ws_code_def)
  note u = write_jump_def Let_def jt True [unfolded jumps_def] state_behind_def [symmetric] case_prod_beta
  consider (c1) "opcode e \<le> opc_if_acmpne" "state_behind E e = ?tgt"
    | (c2) "opcode e \<le> opc_if_acmpne" "state_behind E e \<noteq> ?tgt"
    | (j) "opc_if_acmpne < opcode e" "opcode e \<noteq> opc_ret" | (r) "opcode e = opc_ret" by fastforce
  then show ?thesis
  proof cases
    case c1
    let ?bs = "[0x0f, fst (jcc_codes (opcode e)), 0, 0, 0, 0]"
    let ?w = "w\<lparr>ws_cc := jptableAdd (writeToBuffer ?cc ?bs) (of_int ?d) (of_nat (off + 2))\<rparr>"
    have "write_jump E i e off w = Inr (i, off + 6, ?w)"
      using c1 by (simp add: u)
    moreover have "cc_ok (ws_cc ?w)" "buf_live (ws_cc ?w) = buf_live ?cc @ ?bs" "live (ws_cc ?w) = live ?cc"
      "jp_live (ws_cc ?w) = jp_live ?cc @ [jump_entry ?d (off + 2)]"
      using assms(1) by (simp_all add: wf_intros table_simps frame_simps jump_entry_def)
    ultimately show ?thesis
      using cond_same [OF True c1, of off]
      by (intro exI [of _ ?bs] exI [of _ "[]"] exI [of _ "[jump_entry ?d (off + 2)]"] exI [of _ ?w]) simp
  next
    case c2
    let ?j = "[snd (jcc_codes (opcode e)), of_nat (length ?tr + 5)]"
    let ?c1 = "writeToBuffer ?cc ?j"
    have 1: "cc_ok ?c1" "live ?c1 = live ?cc" "buf_live ?c1 = buf_live ?cc @ ?j" "jp_live ?c1 = jp_live ?cc"
      "pctablelen ?c1 = pctablelen ?cc"
      using assms(1) by (simp_all add: wf_intros table_simps frame_simps)
    let ?c2 = "insert_transition E i (byteoff e) (state_behind E e) ?tgt (off + 2) ?c1"
    from insert_transition_views [OF 1(1), of i E "byteoff e" "state_behind E e" ?tgt "off + 2"] assms(3) 1 obtain t where
      2: "cc_ok ?c2" "live ?c2 = take (i + 1) (live ?cc) @ t # drop (i + 1) (live ?cc)"
        "transition_entry E e ?tgt (off + 2) t" "buf_live ?c2 = buf_live ?cc @ ?j @ ?tr" "jp_live ?c2 = jp_live ?cc"
      by (auto simp: transition_entry_def transition_def)
    let ?bs = "?j @ ?tr @ [0xe9, 0, 0, 0, 0]"
    let ?w = "w\<lparr>ws_cc := jptableAdd (writeToBuffer ?c2 [0xe9, 0, 0, 0, 0]) (of_int ?d) (of_nat (off + 2 + length ?tr + 1))\<rparr>"
    have "write_jump E i e off w = Inr (i + 1, off + 2 + length ?tr + 5, ?w)"
      using c2 by (simp add: u transition_def)
    moreover have "cc_ok (ws_cc ?w)" "buf_live (ws_cc ?w) = buf_live ?cc @ ?bs"
      "live (ws_cc ?w) = take (i + 1) (live ?cc) @ [t] @ drop (i + 1) (live ?cc)"
      "jp_live (ws_cc ?w) = jp_live ?cc @ [jump_entry ?d (off + 2 + length ?tr + 1)]"
      using 2 by (simp_all add: wf_intros table_simps frame_simps jump_entry_def)
    ultimately show ?thesis
      using cond_other [OF True c2 refl 2(3)]
      by (intro exI [of _ ?bs] exI [of _ "[t]"] exI [of _ "[jump_entry ?d (off + 2 + length ?tr + 1)]"] exI [of _ ?w]) simp
  next
    case j
    let ?c2 = "insert_transition E i (byteoff e) (state_behind E e) ?tgt off ?cc"
    from insert_transition_views [OF assms(1,3), of E "byteoff e" "state_behind E e" ?tgt off] obtain t where
      2: "cc_ok ?c2" "live ?c2 = take (i + 1) (live ?cc) @ t # drop (i + 1) (live ?cc)"
        "transition_entry E e ?tgt off t" "buf_live ?c2 = buf_live ?cc @ ?tr" "jp_live ?c2 = jp_live ?cc"
      by (auto simp: transition_entry_def transition_def)
    let ?bs = "?tr @ [0xe9, 0, 0, 0, 0]"
    let ?w = "w\<lparr>ws_cc := jptableAdd (writeToBuffer ?c2 [0xe9, 0, 0, 0, 0]) (of_int ?d) (of_nat (off + length ?tr + 1))\<rparr>"
    have "write_jump E i e off w = Inr (i + 1, off + length ?tr + 5, ?w)"
      using j by (simp add: u transition_def)
    moreover have "cc_ok (ws_cc ?w)" "buf_live (ws_cc ?w) = buf_live ?cc @ ?bs"
      "live (ws_cc ?w) = take (i + 1) (live ?cc) @ [t] @ drop (i + 1) (live ?cc)"
      "jp_live (ws_cc ?w) = jp_live ?cc @ [jump_entry ?d (off + length ?tr + 1)]"
      using 2 by (simp_all add: wf_intros table_simps frame_simps jump_entry_def)
    ultimately show ?thesis
      using jump_block.jump [OF True j refl 2(3)]
      by (intro exI [of _ ?bs] exI [of _ "[t]"] exI [of _ "[jump_entry ?d (off + length ?tr + 1)]"] exI [of _ ?w]) simp
  next
    case r
    then have tgt: "?tgt = 0" by (simp add: target_state_def)
    let ?c2 = "insert_transition E i (byteoff e) (state_behind E e) 0 off ?cc" and ?t0 = "transition E e 0"
    from insert_transition_views [OF assms(1,3), of E "byteoff e" "state_behind E e" 0 off] obtain t where
      2: "cc_ok ?c2" "live ?c2 = take (i + 1) (live ?cc) @ t # drop (i + 1) (live ?cc)"
        "transition_entry E e 0 off t" "buf_live ?c2 = buf_live ?cc @ ?t0" "jp_live ?c2 = jp_live ?cc"
      by (auto simp: transition_entry_def transition_def)
    let ?w = "w\<lparr>ws_cc := writeToBuffer ?c2 [0xff, 0xe0]\<rparr>"
    have "write_jump E i e off w = Inr (i + 1, off + length ?t0 + 2, ?w)"
      using r by (simp add: u tgt transition_def) (simp add: state_behind_def)
    moreover have "cc_ok (ws_cc ?w)" "buf_live (ws_cc ?w) = buf_live ?cc @ ?t0 @ [0xff, 0xe0]"
      "live (ws_cc ?w) = take (i + 1) (live ?cc) @ [t] @ drop (i + 1) (live ?cc)" "jp_live (ws_cc ?w) = jp_live ?cc"
      using 2 by (simp_all add: wf_intros table_simps frame_simps)
    ultimately show ?thesis
      using return [OF True r refl 2(3)]
      by (intro exI [of _ "?t0 @ [0xff, 0xe0]"] exI [of _ "[t]"] exI [of _ "[]"] exI [of _ ?w]) simp
  qed
qed


subsection \<open>The layout of the code\<close>

definition padding :: "nat \<Rightarrow> u8 list" where
  \<comment> \<open>a short jump over the rest when there is room for one\<close>
  "padding n = (if 4 \<le> n then [0xeb, of_nat (n - 2)] @ replicate (n - 2) 0x90 else replicate n 0x90)"

definition pad_for :: "pcentry \<Rightarrow> nat \<Rightarrow> u8 list" where
  "pad_for e off = (if pcentryLoopHead e then padding (alignment_pad off) else [])"

text \<open>
  \<open>laid E T code bs src es js\<close>: the bytes \<open>bs\<close> are the code of the entries \<open>src\<close>; \<open>es\<close> are the
  entries afterwards, with their offsets and the inserted transitions, and \<open>js\<close> the sites of
  jumps. \<open>T\<close> gives the states targets expect, \<open>code\<close> is the bytecode.
\<close>

inductive laid ::
  "env \<Rightarrow> (int \<Rightarrow> nat option) \<Rightarrow> (int \<Rightarrow> u8) \<Rightarrow> u8 list \<Rightarrow> pcentry list \<Rightarrow> pcentry list \<Rightarrow> jpentry list \<Rightarrow> bool"
  for E T code where
  laid_Nil: "laid E T code [] [] [] []"
| laid_entry: "laid E T code bs src es js \<Longrightarrow> pad = pad_for e (length bs) \<Longrightarrow> instance_of E e tmpl \<Longrightarrow>
    jump_block E T code e (length bs + length pad + length tmpl) jb ins js' \<Longrightarrow>
    laid E T code (bs @ pad @ tmpl @ jb) (src @ [e])
      (es @ e\<lparr>nativeoff := of_nat (length bs + length pad)\<rparr> # ins) (js @ js')"

lemma alignment_pad_eq: "alignment_pad off = 15 - (off + 15) mod 16"
proof -
  have "(- int off - 15) smod 16 = - ((int off + 15) mod 16)"
    unfolding signed_modulo_int_def signed_divide_int_def by (simp add: minus_div_mult_eq_mod [symmetric] zmod_int)
  moreover have "(int off + 15) mod 16 = int ((off + 15) mod 16)"
    by (simp add: zmod_int)
  moreover have "nat (- int m + 15) = 15 - m" for m by linarith
  ultimately show ?thesis
    unfolding alignment_pad_def by presburger
qed

lemma alignment_pad: "alignment_pad off < 16" "(off + alignment_pad off) mod 16 = 0"
  unfolding alignment_pad_eq by presburger+

lemma length_padding [simp]: "length (padding n) = n"
  by (auto simp: padding_def)

lemma align_loop_head_live:
  assumes "cc_ok (ws_cc w)" "ws_off w = bufp (ws_cc w)" "i < pctablelen (ws_cc w)"
  defines "w' \<equiv> align_loop_head i w" and "pad \<equiv> pad_for (live (ws_cc w) ! i) (bufp (ws_cc w))"
  shows "cc_ok (ws_cc w')" "buf_live (ws_cc w') = buf_live (ws_cc w) @ pad" "ws_off w' = bufp (ws_cc w')"
    "bufp (ws_cc w') = bufp (ws_cc w) + length pad" "live (ws_cc w') = live (ws_cc w)"
    "jp_live (ws_cc w') = jp_live (ws_cc w)" "ws_vm w' = ws_vm w" "ws_mb w' = ws_mb w"
  using assms(1-3)
  by (auto simp: w'_def pad_def align_loop_head_def pad_for_def padding_def Let_def pc_cell_live wf_intros
      table_simps frame_simps)

lemma note_handlers_keeps:
  "vm_keeps (ws_vm w) (ws_vm (note_handlers info opc w))" "ws_mb (note_handlers info opc w) = ws_mb w"
  by (simp_all add: note_handlers_def Let_def)

lemma add_throw_keeps: "add_throw info off len b v = (v', k) \<Longrightarrow> vm_keeps v v'"
  by (auto simp: add_throw_def split: prod.splits)

lemma write_template_live:
  fixes E :: env and info :: ptr
  assumes "cc_ok (ws_cc w)" "i < pctablelen (ws_cc w)"
  defines "w' \<equiv> write_template E info i w" and "e \<equiv> live (ws_cc w) ! i"
  shows "cc_ok (ws_cc w')" "buf_live (ws_cc w') = buf_live (ws_cc w) @ template E e"
    "live (ws_cc w') = (live (ws_cc w))[i := e\<lparr>nativeoff := of_nat (ws_off w)\<rparr>]"
    "jp_live (ws_cc w') = jp_live (ws_cc w)" "vm_keeps (ws_vm w) (ws_vm w')" "ws_mb w' = ws_mb w" "ws_off w' = ws_off w"
  using assms(1,2)
  by (auto simp: w'_def e_def write_template_def Let_def pc_cell_live pc_upd_live wf_intros writeToBuffer_live frame_simps
      intro!: add_throw_keeps [OF surjective_pairing])

lemma set_trap_patched:
  assumes "at \<in> C"
  shows "patched (ws_off w) C (ws_cc w) (ws_cc (set_trap info len e at cb w))"
    "vm_keeps (ws_vm w) (ws_vm (set_trap info len e at cb w))" "ws_mb (set_trap info len e at cb w) = ws_mb w"
proof -
  show "patched (ws_off w) C (ws_cc w) (ws_cc (set_trap info len e at cb w))"
    using assms by (auto simp: set_trap_def Let_def patched_def buf_upd_def split: prod.splits intro!: nth_list_update_neq)
qed (auto simp: set_trap_def Let_def split: prod.splits dest: add_throw_keeps)

lemma plant_trap_patched:
  shows "patched (ws_off w) (open_cells E e) (ws_cc w) (ws_cc (plant_trap info len e w))"
    "vm_keeps (ws_vm w) (ws_vm (plant_trap info len e w))" "ws_mb (plant_trap info len e w) = ws_mb w"
proof -
  have sub: "trap_cells e \<subseteq> open_cells E e" by (simp add: open_cells_def)
  let ?s = "static_fields \<union> {opc_invokestatic, opc_invokeignored_static, opc_new, opc_inlined_enter}"
  consider (a) cb where "plant_trap info len e w = set_trap info len e 0 cb w" "opcode e \<in> ?s"
    | (b) "plant_trap info len e w = set_trap info len e 0x30 NULL w" "opcode e = opc_invokeinterface"
    | (c) "plant_trap info len e w = w"
  proof (cases "opcode e \<in> ?s")
    case True
    then show thesis
      using a c by (cases "trap_class (ws_vm w) (ws_mb w) e") (simp_all add: plant_trap_def)
  next
    case False
    then show thesis
      using b c
      by (cases "opcode e = opc_invokeinterface \<and>
        byte_at (mb_code (methods (ws_vm w) (ws_mb w))) (byteoff e) \<noteq> opc_invokeinterface_quick")
        (simp_all add: plant_trap_def)
  qed
  then have "\<exists>at cb. at \<in> open_cells E e \<and> plant_trap info len e w = set_trap info len e at cb w \<or>
      plant_trap info len e w = w"
  proof cases
    case a
    then have "0 \<in> trap_cells e" by (auto simp: trap_cells_def)
    with a sub show ?thesis by blast
  next
    case b
    then have "0x30 \<in> trap_cells e" by (simp add: trap_cells_def static_fields_def)
    with b sub show ?thesis by blast
  qed blast
  then show "patched (ws_off w) (open_cells E e) (ws_cc w) (ws_cc (plant_trap info len e w))"
    "vm_keeps (ws_vm w) (ws_vm (plant_trap info len e w))" "ws_mb (plant_trap info len e w) = ws_mb w"
    using set_trap_patched by fastforce+
qed

lemma patched_block:
  assumes "patched (length A) C cc cc'" "cc_ok cc" "buf_live cc = A @ tmpl @ B" "\<forall>c \<in> C. c < length tmpl"
  shows "\<exists>tmpl'. buf_live cc' = A @ tmpl' @ B \<and> length tmpl' = length tmpl \<and>
      (\<forall>j < length tmpl. j \<notin> C \<longrightarrow> tmpl' ! j = tmpl ! j)"
    and "cc_ok cc'" "live cc' = live cc" "jp_live cc' = jp_live cc" "bufp cc' = bufp cc" "pctablelen cc' = pctablelen cc"
proof -
  from assms(1) obtain b where b: "cc' = cc\<lparr>buffer := b\<rparr>" "length b = length (buffer cc)"
    "\<forall>k. k \<notin> (\<lambda>c. length A + c) ` C \<longrightarrow> b ! k = buffer cc ! k"
    by (auto simp: patched_def)
  show "cc_ok cc'" "live cc' = live cc" "jp_live cc' = jp_live cc" "bufp cc' = bufp cc" "pctablelen cc' = pctablelen cc"
    using assms(2) b(1,2) by (simp_all add: cc_ok_def live_def jp_live_def)
  have len: "bufp cc = length A + length tmpl + length B" "bufp cc \<le> length (buffer cc)"
    using arg_cong [OF assms(3), of length] assms(2) by (simp_all add: cc_ok_def)
  have old: "(A @ tmpl @ B) ! k = buffer cc ! k" if "k < bufp cc" for k
    using that assms(3) by (metis buf_live_def nth_take)
  let ?t = "take (length tmpl) (drop (length A) b)"
  have "take (bufp cc) b = A @ ?t @ B"
  proof (rule nth_equalityI)
    show "length (take (bufp cc) b) = length (A @ ?t @ B)" using len b(2) by simp
    fix k assume "k < length (take (bufp cc) b)"
    then have k: "k < bufp cc" by simp
    consider "k < length A" | "length A \<le> k" "k < length A + length tmpl" | "length A + length tmpl \<le> k" by linarith
    then show "take (bufp cc) b ! k = (A @ ?t @ B) ! k"
    proof cases
      case 1
      then have "k \<notin> (\<lambda>c. length A + c) ` C" by auto
      with b(3) old [OF k] k 1 show ?thesis by (simp add: nth_append)
    next
      case 2
      then have "k - length A < length tmpl" by linarith
      with 2 k len b(2) show ?thesis by (simp add: nth_append)
    next
      case 3
      with assms(4) have "k \<notin> (\<lambda>c. length A + c) ` C" by fastforce
      moreover have "\<not> k - length A < length tmpl" "k - length A - length tmpl = k - (length A + length tmpl)"
        using 3 by linarith+
      ultimately show ?thesis using b(2,3) old [OF k] k 3 len by (simp add: nth_append)
    qed
  qed
  moreover have "?t ! j = tmpl ! j" if "j < length tmpl" "j \<notin> C" for j
  proof -
    have "length A + j \<notin> (\<lambda>c. length A + c) ` C" using that(2) by auto
    with b(2,3) old [of "length A + j"] len that(1) show ?thesis by (simp add: nth_append)
  qed
  ultimately show "\<exists>tmpl'. buf_live cc' = A @ tmpl' @ B \<and> length tmpl' = length tmpl \<and>
      (\<forall>j < length tmpl. j \<notin> C \<longrightarrow> tmpl' ! j = tmpl ! j)"
    using b(1,2) len by (intro exI [of _ ?t]) (simp add: buf_live_def)
qed


definition jump_ok :: "(int \<Rightarrow> u8) \<Rightarrow> int set \<Rightarrow> pcentry \<Rightarrow> bool" where
  \<comment> \<open>a branch is in code of the method itself, and its target is among the offsets \<open>D\<close>\<close>
  "jump_ok code D e \<longleftrightarrow>
     (jumps e \<longrightarrow> byteoff e = increasing_byteoff e \<and> (opcode e \<noteq> opc_ret \<longrightarrow> dest code e \<in> D))"

definition entry_ok :: "env \<Rightarrow> (int \<Rightarrow> u8) \<Rightarrow> classblock \<Rightarrow> int set \<Rightarrow> pcentry \<Rightarrow> bool" where
  \<comment> \<open>what the generator relies on: a template with room for its constants, no inlined method,
      resolved fields, a known target\<close>
  "entry_ok E code cls D e \<longleftrightarrow> template_ok E e \<and> flat e \<and> jump_ok code D e \<and>
     (opcode e \<in> member_opcodes \<longrightarrow> cp_resolved cls (nat (operand e)))"

lemma before_jump_live:
  fixes info :: ptr
  assumes "cc_ok (ws_cc w)" "ws_off w = bufp (ws_cc w)" "i < pctablelen (ws_cc w)" "template_ok E (live (ws_cc w) ! i)"
  defines "w' \<equiv> before_jump E info i w" and "e \<equiv> live (ws_cc w) ! i"
  defines "pad \<equiv> pad_for e (bufp (ws_cc w))"
  shows "\<exists>tmpl. instance_of E e tmpl \<and> buf_live (ws_cc w') = buf_live (ws_cc w) @ pad @ tmpl"
    "cc_ok (ws_cc w')" "live (ws_cc w') = (live (ws_cc w))[i := e\<lparr>nativeoff := of_nat (bufp (ws_cc w) + length pad)\<rparr>]"
    "jp_live (ws_cc w') = jp_live (ws_cc w)" "vm_keeps (ws_vm w) (ws_vm w')" "ws_mb w' = ws_mb w"
    "bufp (ws_cc w') = bufp (ws_cc w) + length pad + length (template E e)"
    "bufp (ws_cc (align_loop_head i w)) = bufp (ws_cc w) + length pad" "ws_off (align_loop_head i w) = bufp (ws_cc w) + length pad"
proof -
  let ?w1 = "note_handlers info (opcode e) (align_loop_head i w)"
  note a = align_loop_head_live [OF assms(1-3), folded e_def, folded pad_def]
  have c: "pc_cell (ws_cc w) i = e" using assms(1,3) by (simp add: pc_cell_live e_def)
  have 1: "cc_ok (ws_cc ?w1)" "i < pctablelen (ws_cc ?w1)" "live (ws_cc ?w1) = live (ws_cc w)"
    "vm_keeps (ws_vm w) (ws_vm ?w1)" "ws_mb ?w1 = ws_mb w" "ws_off ?w1 = bufp (ws_cc w) + length pad"
    using a assms(3) by (simp_all add: note_handlers_off note_handlers_keeps)
      (metis a(7) note_handlers_keeps(1))
  let ?w2 = "write_template E info i ?w1"
  note t = write_template_live [OF 1(1,2), of E info, unfolded 1(3), folded e_def]
  have w': "w' = plant_trap info (length (template E e)) e ?w2"
    by (simp add: w'_def before_jump_def c Let_def)
  note p1 = plant_trap_patched(1) [where w = ?w2 and info = info and len = "length (template E e)" and e = e and E = E]
  note p = plant_trap_patched(2,3) [where w = ?w2 and info = info and len = "length (template E e)" and e = e]
  have off: "ws_off ?w2 = length (buf_live (ws_cc w) @ pad)" using t(7) 1(6) assms(1) by simp
  have b: "buf_live (ws_cc ?w2) = (buf_live (ws_cc w) @ pad) @ template E e @ []"
    using t(2) a(2) by simp
  have sub: "\<forall>c \<in> open_cells E e. c < length (template E e)"
    using open_cells_inside assms(4) unfolding e_def by blast
  note pb = patched_block [OF p1 [unfolded off] t(1) b sub, folded w']
  from pb(1) show "\<exists>tmpl. instance_of E e tmpl \<and> buf_live (ws_cc w') = buf_live (ws_cc w) @ pad @ tmpl"
    by (auto simp: instance_of_def)
  show "cc_ok (ws_cc w')" "live (ws_cc w') = (live (ws_cc w))[i := e\<lparr>nativeoff := of_nat (bufp (ws_cc w) + length pad)\<rparr>]"
    "jp_live (ws_cc w') = jp_live (ws_cc w)"
    using pb t 1(6) a(6) by simp_all
  show "vm_keeps (ws_vm w) (ws_vm w')" "ws_mb w' = ws_mb w"
    using p t(5,6) 1(4,5) w' by (auto intro: vm_keeps_trans)
  show "bufp (ws_cc w') = bufp (ws_cc w) + length pad + length (template E e)"
    using pb(5) length_buf_live [OF t(1)] b assms(1) by simp
  show "bufp (ws_cc (align_loop_head i w)) = bufp (ws_cc w) + length pad"
    "ws_off (align_loop_head i w) = bufp (ws_cc w) + length pad"
    using a(3,4) by simp_all
qed

lemma table_sorted_keys: "map increasing_byteoff (live cc') = map increasing_byteoff (live cc) \<Longrightarrow> table_sorted cc' = table_sorted cc"
  by (simp add: table_sorted_def)


definition always_resolves :: "env \<Rightarrow> bool" where
  "always_resolves E \<longleftrightarrow> (\<forall>v c i t. snd (resolve E v c i t))"

lemma resolve_constants_succeeds:
  assumes "always_resolves E"
  shows "fst (resolve_constants E head e off w) \<noteq> Some True"
proof -
  have res: "ok" if "ws_resolve E e tags w = (ok, w')" for tags ok w'
    using assms that unfolding ws_resolve_def always_resolves_def
    by (auto simp: Let_def split: if_splits prod.splits) (metis snd_conv)
  have b: "fst (const_bipush E head e w) \<noteq> Some True" "fst (const_ldc2 E head e w) \<noteq> Some True"
    "fst (const_ignored_static E head e w) \<noteq> Some True" "fst (const_member E head q e w) \<noteq> Some True" for q
    using res by (auto simp: const_bipush_def const_ldc2_def const_ignored_static_def const_member_def Let_def split: prod.splits)
  show ?thesis by (simp add: resolve_constants_def Let_def b)
qed

lemma inserted_keys:
  assumes "jump_block E T code e off jb ins js"
  shows "\<forall>t \<in> set ins. increasing_byteoff t = byteoff e" "ins = [] \<or> (\<exists>t. ins = [t])" "ins \<noteq> [] \<longrightarrow> jumps e"
  using assms
  by (induction rule: jump_block.induct) (auto simp: transition_entry_def pcview_def new_view_def)

lemma sorted_insert_behind:
  assumes "sorted (map f xs)" "i < length xs" "\<forall>c \<in> set cs. f c = f (xs ! i)"
  shows "sorted (map f (take (i + 1) xs @ cs @ drop (i + 1) xs))"
proof -
  have xs: "xs = take i xs @ xs ! i # drop (i + 1) xs" "take (i + 1) xs = take i xs @ [xs ! i]"
    using assms(2) by (simp_all add: id_take_nth_drop take_Suc_conv_app_nth)
  from assms(1) have "sorted (map f (take i xs @ xs ! i # drop (i + 1) xs))"
    using xs(1) by metis
  moreover have "sorted (map f cs)" using assms(3) by (induction cs) auto
  ultimately show ?thesis
    unfolding xs(2) using assms(3) by (auto simp: sorted_append)
qed

lemma state_at_update: "state_at (es[i := (es ! i)\<lparr>nativeoff := n\<rparr>]) d = state_at es d"
  by (rule first_at_mono) (cases "i < length es"; auto simp: list_all2_conv_all_nth nth_list_update)

lemma keys_update: "map increasing_byteoff (es[i := (es ! i)\<lparr>nativeoff := n\<rparr>]) = map increasing_byteoff es"
proof (cases "i < length es")
  case True
  then show ?thesis by (intro nth_equalityI) (auto simp: nth_list_update)
next
  case False
  then show ?thesis by (simp add: list_update_beyond)
qed

definition walks_on :: "env \<Rightarrow> (int \<Rightarrow> nat option) \<Rightarrow> (int \<Rightarrow> u8) \<Rightarrow> classblock \<Rightarrow> int set \<Rightarrow> pcentry list \<Rightarrow> nat \<Rightarrow> wstate \<Rightarrow> bool" where
  \<comment> \<open>the invariant of the pass: \<open>src\<close> is done, the entries from \<open>i\<close> on are still to be done\<close>
  "walks_on E T code cls D src i w \<longleftrightarrow>
     cc_ok (ws_cc w) \<and> table_sorted (ws_cc w) \<and> ws_off w = bufp (ws_cc w) \<and> i \<le> pctablelen (ws_cc w) \<and>
     laid E T code (buf_live (ws_cc w)) src (take i (live (ws_cc w))) (jp_live (ws_cc w)) \<and>
     ws_code w = code \<and> (\<forall>k. cp_resolved cls k \<longrightarrow> cp_resolved (ws_class w) k) \<and>
     state_at (live (ws_cc w)) = T \<and> increasing_byteoff ` set (live (ws_cc w)) = D \<and>
     (\<forall>e \<in> set (drop i (live (ws_cc w))). entry_ok E code cls D e)"

lemma keeps_ws:
  assumes "vm_keeps (ws_vm w) (ws_vm w')" "ws_mb w' = ws_mb w"
  shows "ws_code w' = ws_code w" "cp_resolved (ws_class w) k \<Longrightarrow> cp_resolved (ws_class w') k"
  using assms by (auto simp: vm_keeps_def ws_code_def ws_class_def)

lemma write_entry_walks_on:
  assumes "walks_on E T code cls D src i w" "i < pctablelen (ws_cc w)" "resolver_keeps E"
  shows "\<exists>i' r w'. write_entry E info i w = Inr (i', r, w') \<and>
    (r = Some True \<and> \<not> always_resolves E \<or> r = None \<and> walks_on E T code cls D (src @ [live (ws_cc w) ! i]) (i' + 1) w' \<and>
       drop (i' + 1) (live (ws_cc w')) = drop (i + 1) (live (ws_cc w)))"
proof -
  let ?cc = "ws_cc w" and ?e = "live (ws_cc w) ! i"
  have ok: "cc_ok ?cc" "table_sorted ?cc" "ws_off w = bufp ?cc" and code: "ws_code w = code"
    and T: "state_at (live ?cc) = T" and D: "increasing_byteoff ` set (live ?cc) = D"
    and L: "laid E T code (buf_live ?cc) src (take i (live ?cc)) (jp_live ?cc)"
    and cls: "\<forall>k. cp_resolved cls k \<longrightarrow> cp_resolved (ws_class w) k"
    and rest: "\<forall>e \<in> set (drop i (live ?cc)). entry_ok E code cls D e"
    using assms(1) by (simp_all add: walks_on_def)
  have len: "length (live ?cc) = pctablelen ?cc" using ok by simp
  have dr: "drop i (live ?cc) = ?e # drop (i + 1) (live ?cc)"
    using assms(2) len by (simp add: Cons_nth_drop_Suc)
  with rest have e: "entry_ok E code cls D ?e" by simp
  then have eo: "template_ok E ?e" "flat ?e" "jump_ok code D ?e"
    "opcode ?e \<in> member_opcodes \<longrightarrow> cp_resolved cls (nat (operand ?e))"
    by (simp_all add: entry_ok_def)
  define pad where "pad = pad_for ?e (bufp ?cc)"
  define wb where "wb = before_jump E info i w"
  define ne where "ne = ?e\<lparr>nativeoff := of_nat (bufp ?cc + length pad)\<rparr>"
  note bj = before_jump_live(1-7) [OF ok(1,3) assms(2) eo(1), of info, folded pad_def, folded wb_def, folded ne_def]
  note al = before_jump_live(8,9) [OF ok(1,3) assms(2) eo(1), folded pad_def]
  from bj(1) obtain tmpl where tmpl: "instance_of E ?e tmpl" "buf_live (ws_cc wb) = buf_live ?cc @ pad @ tmpl" by blast
  have lt: "length tmpl = length (template E ?e)" using tmpl(1) by (simp add: instance_of_def)
  have st: "state_at (live (ws_cc wb)) = T" unfolding bj(3) ne_def using T by (intro ext) (simp add: state_at_update)
  have keys: "map increasing_byteoff (live (ws_cc wb)) = map increasing_byteoff (live ?cc)"
    unfolding bj(3) ne_def by (rule keys_update)
  have Db: "increasing_byteoff ` set (live (ws_cc wb)) = D" using arg_cong [OF keys, of set] D by simp
  have lb: "pctablelen (ws_cc wb) = pctablelen ?cc" using length_live [OF bj(2)] bj(3) len by simp
  have cb: "ws_code wb = code" using keeps_ws(1) [OF bj(5,6)] code by simp
  have sb: "table_sorted (ws_cc wb)" using table_sorted_keys [OF keys] ok(2) by simp
  have "jumps ?e \<longrightarrow> opcode ?e \<noteq> opc_ret \<longrightarrow> dest (ws_code wb) ?e \<in> increasing_byteoff ` set (live (ws_cc wb))"
    using eo(3) by (simp add: jump_ok_def cb Db)
  from write_jump_block [OF bj(2) sb _ this, where i = i and off = "bufp ?cc + length pad + length tmpl" and E = E] assms(2) lb st cb
  obtain jb ins js wj where
    j: "write_jump E i ?e (bufp ?cc + length pad + length tmpl) wb = Inr (i + length ins, bufp ?cc + length pad + length tmpl + length jb, wj)"
      "jump_block E T code ?e (bufp ?cc + length pad + length tmpl) jb ins js"
      "cc_ok (ws_cc wj)" "buf_live (ws_cc wj) = buf_live (ws_cc wb) @ jb"
      "live (ws_cc wj) = take (i + 1) (live (ws_cc wb)) @ ins @ drop (i + 1) (live (ws_cc wb))"
      "jp_live (ws_cc wj) = jp_live (ws_cc wb) @ js" "ws_vm wj = ws_vm wb" "ws_mb wj = ws_mb wb"
    by auto
  define off where "off = bufp ?cc + length pad + length tmpl + length jb"
  obtain r wr where rc: "resolve_constants E (bufp ?cc + length pad) ?e off wj = (r, wr)" by fastforce
  have c: "pc_cell ?cc i = ?e" using ok(1) assms(2) by (simp add: pc_cell_live)
  have we: "write_entry E info i w = Inr (i + length ins, r, wr\<lparr>ws_off := off\<rparr>)"
    using j(1) rc al lt
    by (simp add: write_entry_def Let_def c plant_trap_off write_template_off note_handlers_off off_def
        wb_def before_jump_def)
  have bufj: "buf_live (ws_cc wj) = (buf_live ?cc @ pad) @ tmpl @ jb" using j(4) tmpl(2) by simp
  have "bufp (ws_cc wj) \<le> length (buffer (ws_cc wj))" using j(3) by (simp add: cc_ok_def)
  then have room: "bufp ?cc + length pad + length (template E ?e) \<le> length (buffer (ws_cc wj))"
    using length_buf_live [OF j(3)] bufj lt length_buf_live [OF ok(1)] by simp
  have pch: "patched (length (buf_live ?cc @ pad)) (open_cells E ?e) (ws_cc wj) (ws_cc wr)"
    using resolve_constants_patched [OF eo(1) room, of off] rc ok(1) by simp
  have sub: "\<forall>c \<in> open_cells E ?e. c < length tmpl" using open_cells_inside [OF eo(1)] lt by simp
  note pb = patched_block [OF pch j(3) bufj sub]
  from pb(1) obtain tmpl' where t': "buf_live (ws_cc wr) = (buf_live ?cc @ pad) @ tmpl' @ jb" "length tmpl' = length tmpl"
    "\<forall>j < length tmpl. j \<notin> open_cells E ?e \<longrightarrow> tmpl' ! j = tmpl ! j" by blast
  have inst: "instance_of E ?e tmpl'" using tmpl(1) t'(2,3) by (simp add: instance_of_def)
  have keep: "vm_keeps (ws_vm w) (ws_vm wr)" "ws_mb wr = ws_mb w"
    using resolve_constants_keeps [OF assms(3) eo(2), of wj "bufp ?cc + length pad" off] rc j(7,8) bj(5,6)
    by (auto intro: vm_keeps_trans)
  have kj: "\<And>k. cp_resolved cls k \<Longrightarrow> cp_resolved (ws_class wj) k"
    using keeps_ws(2) [of w wj] bj(5,6) j(7,8) cls by simp
  have r: "r = None" if "r \<noteq> Some True"
    using resolve_constants_goes_on [OF rc that] eo(4) kj by simp
  have tk: "take (i + 1) (live (ws_cc wb)) = take i (live ?cc) @ [ne]" "drop (i + 1) (live (ws_cc wb)) = drop (i + 1) (live ?cc)"
    unfolding bj(3) using assms(2) len by (simp_all add: take_Suc_conv_app_nth)
  have lv: "live (ws_cc wr) = (take i (live ?cc) @ ne # ins) @ drop (i + 1) (live ?cc)"
    using pb(3) j(5) tk by simp
  have tl: "take (i + length ins + 1) (live (ws_cc wr)) = take i (live ?cc) @ ne # ins"
    "drop (i + length ins + 1) (live (ws_cc wr)) = drop (i + 1) (live ?cc)"
    unfolding lv using assms(2) len by simp_all
  have "laid E T code (buf_live (ws_cc wr)) (src @ [?e]) (take i (live ?cc) @ ne # ins) (jp_live (ws_cc wr))"
    using laid_entry [OF L _ inst, of pad jb ins js] j(2) pad_def t'(1,2) pb(4) j(6) bj(4) length_buf_live [OF ok(1)]
    by (simp add: ne_def)
  moreover have ik: "\<forall>t \<in> set ins. increasing_byteoff t = increasing_byteoff ne"
    using inserted_keys [OF j(2)] eo(3) by (auto simp: jump_ok_def ne_def)
  moreover have "table_sorted (ws_cc wr)"
  proof -
    have "live (ws_cc wb) ! i = ne" unfolding bj(3) using assms(2) len by simp
    with sorted_insert_behind [of increasing_byteoff "live (ws_cc wb)" i ins] sb ik assms(2) lb bj(2)
    show ?thesis by (simp add: table_sorted_def pb(3) j(5))
  qed
  moreover have "state_at (live (ws_cc wr)) = T"
  proof
    fix d
    have "live (ws_cc wb) = (take i (live ?cc) @ [ne]) @ drop (i + 1) (live ?cc)"
      using append_take_drop_id [of "i + 1" "live (ws_cc wb)", symmetric] unfolding tk .
    with state_at_insert [of ne "take i (live ?cc) @ [ne]" ins "drop (i + 1) (live ?cc)" d] ik st lv
    show "state_at (live (ws_cc wr)) d = T d" by simp
  qed
  moreover have "increasing_byteoff ` set (live (ws_cc wr)) = D"
  proof -
    have "set (live (ws_cc wb)) = insert ne (set (take i (live ?cc)) \<union> set (drop (i + 1) (live ?cc)))"
      using arg_cong [OF append_take_drop_id [of "i + 1" "live (ws_cc wb)", symmetric], of set] unfolding tk by auto
    with Db ik show ?thesis by (auto simp: lv)
  qed
  moreover have "bufp (ws_cc wr) = off"
    using length_buf_live [OF pb(2)] t'(1,2) length_buf_live [OF ok(1)] by (simp add: off_def)
  moreover have "i + length ins + 1 \<le> pctablelen (ws_cc wr)"
    using length_live [OF pb(2)] lv assms(2) len by simp
  moreover have "ws_code wr = code" "\<forall>k. cp_resolved cls k \<longrightarrow> cp_resolved (ws_class wr) k"
    using keeps_ws [OF keep] code cls by simp_all
  moreover have "\<forall>e \<in> set (drop (i + 1) (live ?cc)). entry_ok E code cls D e" using rest dr by simp
  ultimately have "walks_on E T code cls D (src @ [?e]) (i + length ins + 1) (wr\<lparr>ws_off := off\<rparr>)"
    using pb(2) tl by (simp add: walks_on_def ws_code_def ws_class_def)
  moreover have "\<not> always_resolves E" if "r = Some True"
    using resolve_constants_succeeds [of E "bufp ?cc + length pad" ?e off wj] rc that by auto
  ultimately show ?thesis using we tl r by auto
qed


lemma write_from_laid:
  assumes "walks_on E T code cls D src i w" "resolver_keeps E"
  shows "\<exists>ret w'. write_from E info i w = Inr (ret, w') \<and> (ret \<longrightarrow> \<not> always_resolves E) \<and>
    (\<not> ret \<longrightarrow> cc_ok (ws_cc w') \<and> table_sorted (ws_cc w') \<and> state_at (live (ws_cc w')) = T \<and>
       increasing_byteoff ` set (live (ws_cc w')) = D \<and>
       laid E T code (buf_live (ws_cc w')) (src @ drop i (live (ws_cc w))) (live (ws_cc w')) (jp_live (ws_cc w')))"
  using assms
proof (induction E info i w arbitrary: src rule: write_from.induct)
  case (1 E info i w)
  have len: "length (live (ws_cc w)) = pctablelen (ws_cc w)" using 1(2) by (simp add: walks_on_def)
  show ?case
  proof (cases "i < pctablelen (ws_cc w)")
    case False
    with 1(2) len show ?thesis by (subst write_from.simps) (auto simp: walks_on_def)
  next
    case True
    have dr: "drop i (live (ws_cc w)) = live (ws_cc w) ! i # drop (i + 1) (live (ws_cc w))"
      using True len by (simp add: Cons_nth_drop_Suc)
    from write_entry_walks_on [OF 1(2) True 1(3), of info] obtain i' r w' where
      s: "write_entry E info i w = Inr (i', r, w')" "r = Some True \<and> \<not> always_resolves E \<or> r = None \<and>
        walks_on E T code cls D (src @ [live (ws_cc w) ! i]) (i' + 1) w' \<and>
        drop (i' + 1) (live (ws_cc w')) = drop (i + 1) (live (ws_cc w))" by blast
    show ?thesis
    proof (cases r)
      case None
      with s have n: "walks_on E T code cls D (src @ [live (ws_cc w) ! i]) (i' + 1) w'"
        "drop (i' + 1) (live (ws_cc w')) = drop (i + 1) (live (ws_cc w))" by auto
      from 1(1) [OF True s(1) refl refl None n(1) 1(3)] None True s(1) n(2) dr show ?thesis
        by (subst write_from.simps) simp
    next
      case (Some b)
      with s have "b" "\<not> always_resolves E" by simp_all
      with Some s(1) True show ?thesis by (subst write_from.simps) auto
    qed
  qed
qed

lemma writeCode_laid:
  assumes "cc_ok cc" "table_sorted cc" "bufp cc = 0" "jptablelen cc = 0" "resolver_keeps E"
    and "\<forall>e \<in> set (live cc). entry_ok E (mb_code (methods v (cc_mb cc))) (classes v (mb_clazz (methods v (cc_mb cc))))
      (increasing_byteoff ` set (live cc)) e"
  shows "\<exists>ret v' cc'. writeCode E (v, cc) = Inr (ret, v', cc') \<and> (ret \<longrightarrow> \<not> always_resolves E) \<and>
    (\<not> ret \<longrightarrow> cc_ok cc' \<and> table_sorted cc' \<and> state_at (live cc') = state_at (live cc) \<and>
       increasing_byteoff ` set (live cc') = increasing_byteoff ` set (live cc) \<and>
       laid E (state_at (live cc)) (mb_code (methods v (cc_mb cc))) (buf_live cc') (live cc) (live cc') (jp_live cc'))"
proof -
  let ?w = "\<lparr>ws_vm = v, ws_cc = cc, ws_off = 0, ws_mb = cc_mb cc, ws_stack = newStack (fresh_long_mem E)\<rparr>"
  have "buf_live cc = []" "jp_live cc = []" using assms(3,4) by (simp_all add: buf_live_def jp_live_def)
  then have "walks_on E (state_at (live cc)) (mb_code (methods v (cc_mb cc))) (classes v (mb_clazz (methods v (cc_mb cc))))
      (increasing_byteoff ` set (live cc)) [] 0 ?w"
    using assms by (simp add: walks_on_def ws_code_def ws_class_def laid_Nil)
  from write_from_laid [OF this assms(5), of "CompiledCodeInfo (methods v (cc_mb cc))"] show ?thesis
    by (auto simp: writeCode_def Let_def)
qed

subsection \<open>What a layout says about the code\<close>


definition placed :: "env \<Rightarrow> u8 list \<Rightarrow> pcentry \<Rightarrow> bool" where
  \<comment> \<open>the code of the entry stands at its offset, behind a loop head on a multiple of 16\<close>
  "placed E bs e \<longleftrightarrow>
     (\<exists>xs tmpl ys. bs = xs @ tmpl @ ys \<and> instance_of E e tmpl \<and> nativeoff e = of_nat (length xs) \<and>
        (pcentryLoopHead e \<longrightarrow> length xs mod 16 = 0))"

lemma placed_append: "placed E bs e \<Longrightarrow> placed E (bs @ zs) e"
  unfolding placed_def by (metis append.assoc)

lemma pcentryState_16: "pcentryState e < 16"
proof -
  have "flag e AND 0xf \<le> 0xf" by (rule word_and_le1)
  then show ?thesis by (simp add: pcentryState_def word_le_nat_alt)
qed

lemma instance_of_nativeoff [simp]: "instance_of E (e\<lparr>nativeoff := n\<rparr>) tmpl = instance_of E e tmpl"
  by (simp add: instance_of_def open_cells_def trap_cells_def const_width_def)

lemma transition_placed:
  assumes "transition_entry E e tgt off t" "tgt < 16" "\<forall>opc st. ct_last_state E opc st \<le> STSTA"
  shows "instance_of E t (transition E e tgt)" "nativeoff t = of_nat off" "\<not> pcentryLoopHead t"
proof -
  have sb: "state_behind E e < 16"
    using assms(3) [rule_format, of "opcode e" "pcentryState e"] pcentryState_16 [of e] by (simp add: state_behind_def)
  with assms(1,2) have "opcode t = opc_stateto0 + tgt" "pcentryState t = state_behind E e" "nativeoff t = of_nat off"
    "\<not> pcentryLoopHead t"
    by (auto simp: transition_entry_def pcview_def new_view_def)
  then show "instance_of E t (transition E e tgt)" "nativeoff t = of_nat off" "\<not> pcentryLoopHead t"
    by (simp_all add: instance_of_def transition_def)
qed

lemma pad_for_aligned: "pcentryLoopHead e \<Longrightarrow> (n + length (pad_for e n)) mod 16 = 0"
  using alignment_pad(2) [of n] by (simp add: pad_for_def)

lemma jump_block_placed:
  assumes "jump_block E T code e off jb ins js" "\<forall>opc st. ct_last_state E opc st \<le> STSTA"
    and "\<forall>d s. T d = Some s \<longrightarrow> s < 16" "jumps e \<longrightarrow> opcode e \<noteq> opc_ret \<longrightarrow> T (dest code e) \<noteq> None" "length xs = off"
  shows "\<forall>t \<in> set ins. placed E (xs @ jb) t"
proof -
  have tgt: "target_state T code e < 16" if "jumps e"
    using assms(3,4) that by (fastforce simp: target_state_def)
  from assms(1) show ?thesis
  proof cases
    case (cond_other tr t)
    note p = transition_placed [OF cond_other(8) tgt [OF cond_other(4)] assms(2)]
    let ?h = "[snd (jcc_codes (opcode e)), of_nat (length tr + 5)]"
    have "xs @ jb = (xs @ ?h) @ tr @ [0xe9, 0, 0, 0, 0]" using cond_other(1) by simp
    with p cond_other(7) assms(5) have "placed E (xs @ jb) t"
      unfolding placed_def by (intro exI [of _ "xs @ ?h"] exI [of _ tr] exI [of _ "[0xe9, 0, 0, 0, 0]"]) simp
    with cond_other(2) show ?thesis by simp
  next
    case (jump tr t)
    note p = transition_placed [OF jump(8) tgt [OF jump(4)] assms(2)]
    have "placed E (xs @ jb) t"
      unfolding placed_def using p jump(1,7) assms(5)
      by (intro exI [of _ xs] exI [of _ tr] exI [of _ "[0xe9, 0, 0, 0, 0]"]) simp
    with jump(2) show ?thesis by simp
  next
    case (return tr t)
    note p = transition_placed [OF return(7) _ assms(2)]
    have "placed E (xs @ jb) t"
      unfolding placed_def using p return(1,6) assms(5)
      by (intro exI [of _ xs] exI [of _ tr] exI [of _ "[0xff, 0xe0]"]) simp
    with return(2) show ?thesis by simp
  qed simp_all
qed

lemma laid_placed:
  assumes "laid E T code bs src es js" "\<forall>opc st. ct_last_state E opc st \<le> STSTA" "\<forall>d s. T d = Some s \<longrightarrow> s < 16"
    and "\<forall>e \<in> set src. jumps e \<longrightarrow> opcode e \<noteq> opc_ret \<longrightarrow> T (dest code e) \<noteq> None"
  shows "\<forall>e \<in> set es. placed E bs e"
  using assms(1,4)
proof (induction rule: laid.induct)
  case laid_Nil
  then show ?case by simp
next
  case (laid_entry bs src es js pad e tmpl jb ins js')
  let ?e = "e\<lparr>nativeoff := of_nat (length bs + length pad)\<rparr>"
  have "placed E (bs @ pad @ tmpl @ jb) ?e"
    unfolding placed_def
    using laid_entry.hyps(2,3) pad_for_aligned [of e "length bs"]
    by (intro exI [of _ "bs @ pad"] exI [of _ tmpl] exI [of _ jb]) simp
  moreover have "\<forall>t \<in> set ins. placed E ((bs @ pad @ tmpl) @ jb) t"
    using jump_block_placed [OF laid_entry.hyps(4) assms(2,3), of "bs @ pad @ tmpl"] laid_entry.prems by simp
  moreover have "\<forall>e \<in> set es. placed E (bs @ pad @ tmpl @ jb) e"
    using laid_entry.IH laid_entry.prems by (auto intro: placed_append)
  ultimately show ?case by auto
qed


lemma state_at_16: "state_at es d = Some s \<Longrightarrow> s < 16"
  using pcentryState_16 by (auto simp: state_at_def)

lemma state_at_known: "d \<in> increasing_byteoff ` set es \<Longrightarrow> state_at es d \<noteq> None"
  by (auto simp: state_at_def first_at_def find_None_iff)

subsection \<open>Properties\<close>

definition code_entries_ok :: "env \<Rightarrow> vm \<Rightarrow> CompilerContext \<Rightarrow> bool" where
  \<comment> \<open>every entry has a template, a known target, no inlined code, and its field is resolved\<close>
  "code_entries_ok E v cc \<longleftrightarrow>
     (\<forall>e \<in> set (live cc). entry_ok E (mb_code (methods v (cc_mb cc))) (classes v (mb_clazz (methods v (cc_mb cc))))
        (increasing_byteoff ` set (live cc)) e)"

text \<open>C11: On a sorted table without inlined code, with a template for every entry, known targets
and resolved fields, and a resolver that leaves bytecode and resolved entries alone, code
generation ends without a null pointer; unless a constant cannot be resolved, the code buffer is
the sequence of padding, instance of the template, and native jump with its transition, of the
entries in order, and the tables are as the layout says.\<close>
theorem writeCode_layout:
  assumes "cc_ok cc" "table_sorted cc" "bufp cc = 0" "jptablelen cc = 0" "resolver_keeps E" "code_entries_ok E v cc"
  shows "\<exists>ret v' cc'. writeCode E (v, cc) = Inr (ret, v', cc') \<and> (ret \<longrightarrow> \<not> always_resolves E) \<and>
    (\<not> ret \<longrightarrow> laid E (state_at (live cc)) (mb_code (methods v (cc_mb cc))) (buf_live cc') (live cc) (live cc') (jp_live cc'))"
  using writeCode_laid [OF assms(1-5)] assms(6) unfolding code_entries_ok_def by blast

text \<open>C12: Under the same conditions every entry of the table afterwards, inserted transitions
included, has its code at its native offset: the bytes there are its template but for the cells
of its constants and traps, and the code of a loop head starts at a multiple of 16.\<close>
theorem writeCode_places_templates:
  assumes "cc_ok cc" "table_sorted cc" "bufp cc = 0" "jptablelen cc = 0" "resolver_keeps E" "code_entries_ok E v cc"
    and "\<forall>opc st. ct_last_state E opc st \<le> STSTA" "writeCode E (v, cc) = Inr (False, v', cc')"
  shows "\<forall>e \<in> set (live cc'). \<exists>xs tmpl ys. buf_live cc' = xs @ tmpl @ ys \<and> instance_of E e tmpl \<and>
    nativeoff e = of_nat (length xs) \<and> (pcentryLoopHead e \<longrightarrow> length xs mod 16 = 0)"
proof -
  from writeCode_laid [OF assms(1-5)] assms(6,8) have
    l: "laid E (state_at (live cc)) (mb_code (methods v (cc_mb cc))) (buf_live cc') (live cc) (live cc') (jp_live cc')"
    unfolding code_entries_ok_def by fastforce
  have "\<forall>e \<in> set (live cc). jumps e \<longrightarrow> opcode e \<noteq> opc_ret \<longrightarrow>
      state_at (live cc) (dest (mb_code (methods v (cc_mb cc))) e) \<noteq> None"
    using assms(6) state_at_known unfolding code_entries_ok_def entry_ok_def jump_ok_def by blast
  with laid_placed [OF l assms(7)] state_at_16 show ?thesis unfolding placed_def by blast
qed

text \<open>A field that is not yet resolved when its constant is written ends code generation
early, also when the resolution succeeds: the pass reports success, and the entries behind it get
no code.\<close>
theorem unresolved_member_truncates:
  assumes "i < pctablelen (ws_cc w)" "pc_cell (ws_cc w) i = e" "w1 = before_jump E info i w"
    and "opcode e \<in> {opc_getfield, opc_getfield2}" "\<not> cp_resolved (ws_class w1) (nat (operand e))"
    and "byte_at (ws_code w1) (byteoff e) \<notin> {opc_getfield_quick, opc_getfield2_quick}"
    and "resolve E (ws_vm w1) (mb_clazz (methods (ws_vm w1) (ws_mb w1))) (nat (operand e)) {CONSTANT_Fieldref} = (v', True)"
  shows "\<exists>w'. write_from E info i w = Inr (False, w') \<and> pctablelen (ws_cc w') = pctablelen (ws_cc w) \<and>
    buf_live (ws_cc w') = buf_live (ws_cc w1)"
proof -
  let ?off = "ws_off (align_loop_head i w) + length (template E e)"
  let ?head = "bufp (ws_cc (align_loop_head i w))"
  have "\<not> jumps e" using assms(4) by (auto simp: jumps_def)
  then have j: "write_jump E i e ?off w1 = Inr (i, ?off, w1)" by (auto simp: write_jump_def jumps_def)
  have "const_member E ?head {opc_getfield_quick, opc_getfield2_quick} e w1 = (Some False, w1\<lparr>ws_vm := v'\<rparr>)"
    using assms(5-7) by (simp add: const_member_def ws_resolve_def)
  moreover have "resolve_constants E ?head e ?off w1 = const_member E ?head {opc_getfield_quick, opc_getfield2_quick} e w1"
    using assms(4) by (elim insertE emptyE) (simp_all add: resolve_constants_def Let_def)
  ultimately have "resolve_constants E ?head e ?off w1 = (Some False, w1\<lparr>ws_vm := v'\<rparr>)" by simp
  with j assms(2,3) have "write_entry E info i w = Inr (i, Some False, w1\<lparr>ws_vm := v', ws_off := ?off\<rparr>)"
    by (simp add: write_entry_def Let_def before_jump_def plant_trap_off write_template_off note_handlers_off)
  moreover have "pctablelen (ws_cc w1) = pctablelen (ws_cc w)"
    by (simp add: assms(3) before_jump_def Let_def)
  ultimately show ?thesis using assms(1) by (subst write_from.simps) simp
qed

subsection \<open>Witnesses\<close>

definition code_env :: env where
  \<comment> \<open>every template is one \<open>nop\<close> and keeps the state; every constant resolves; for witnesses\<close>
  "code_env = sample_env\<lparr>ct_code := (\<lambda>_ _. [0x90]), constant_table := (\<lambda>_ _. []), ct_last_state := (\<lambda>_ _. 5),
     ct_flag := (\<lambda>_ _. 0), resolve := (\<lambda>v c i t. (v, True))\<rparr>"

definition loop_vm :: vm where
  \<comment> \<open>all methods are \<open>nop; goto -1\<close>; for witnesses\<close>
  "loop_vm = sample_vm\<lparr>methods := (\<lambda>m. (methods sample_vm m)\<lparr>mb_code := loop_code [0, 167, 255, 255]\<rparr>)\<rparr>"

lemma loop_vm_code [simp]: "mb_code (methods loop_vm m) = loop_code [0, 167, 255, 255]"
  by (simp add: loop_vm_def)

lemma code_env_keeps: "resolver_keeps code_env"
  by (simp add: resolver_keeps_def code_env_def)

lemma code_env_resolves: "always_resolves code_env"
  by (simp add: always_resolves_def code_env_def)

lemma loop_entries_ok: "code_entries_ok code_env loop_vm loop_cc"
proof -
  obtain a b where l: "live loop_cc = [a, b]" and
    vs: "pcview a = new_view 0 (-1) 0 0 (-1)" "pcview b = new_view 167 (-1) 1 0 (-1)"
    using loop_cc_views(1) by (auto simp: map_eq_Cons_conv)
  have "jump_offset (loop_code [0, 167, 255, 255]) 1 = -1"
    by (simp add: jump_offset_def byte_at_def loop_code_def GET_INT16_def)
  moreover have "opcode a = 0" "opcode b = 167" "byteoff b = 1" "increasing_byteoff b = 1" "increasing_byteoff a = 0"
    using vs by (simp_all add: pcview_def new_view_def)
  ultimately show ?thesis
    by (simp add: code_entries_ok_def l entry_ok_def template_ok_def flat_def jump_ok_def jumps_def dest_def
        member_opcodes_def consts_needed_def trap_cells_def static_fields_def code_env_def)
qed

lemma loop_cc_empty: "bufp loop_cc = 0" "jptablelen loop_cc = 0"
  by (simp_all add: loop_cc_def pctableAdd_def pctableGrow_def fresh_cc_def Let_def)

lemma loop_cc_sorted: "table_sorted loop_cc"
  using loop_cc_wf(1) by (simp add: table_wf_def)

theorem writeCode_layout_witness:
  "\<exists>v' cc'. writeCode code_env (loop_vm, loop_cc) = Inr (False, v', cc') \<and>
    laid code_env (state_at (live loop_cc)) (loop_code [0, 167, 255, 255]) (buf_live cc') (live loop_cc)
      (live cc') (jp_live cc')"
  using writeCode_layout [OF loop_cc_ok(1) loop_cc_sorted loop_cc_empty code_env_keeps loop_entries_ok] code_env_resolves
  by auto

lemma code_env_states: "\<forall>opc st. ct_last_state code_env opc st \<le> STSTA"
  by (simp add: code_env_def)

lemma loop_written: "\<exists>v' cc'. writeCode code_env (loop_vm, loop_cc) = Inr (False, v', cc')"
  using writeCode_laid [OF loop_cc_ok(1) loop_cc_sorted loop_cc_empty code_env_keeps, of loop_vm]
    loop_entries_ok [unfolded code_entries_ok_def] code_env_resolves by auto

theorem writeCode_places_templates_witness:
  "\<exists>v' cc'. writeCode code_env (loop_vm, loop_cc) = Inr (False, v', cc') \<and>
    (\<forall>e \<in> set (live cc'). \<exists>xs tmpl ys. buf_live cc' = xs @ tmpl @ ys \<and> instance_of code_env e tmpl \<and>
       nativeoff e = of_nat (length xs) \<and> (pcentryLoopHead e \<longrightarrow> length xs mod 16 = 0))"
proof -
  from loop_written obtain v' cc' where w: "writeCode code_env (loop_vm, loop_cc) = Inr (False, v', cc')" by blast
  note t = writeCode_places_templates [OF loop_cc_ok(1) loop_cc_sorted loop_cc_empty code_env_keeps loop_entries_ok
      code_env_states w]
  show ?thesis by (rule exI [of _ v'], rule exI [of _ cc'], rule conjI [OF w t])
qed

definition member_cc :: CompilerContext where
  "member_cc = pctableAdd fresh_cc opc_getfield 1 0"

definition member_ws :: wstate where
  \<comment> \<open>\<open>getfield #1\<close>, not resolved; for witnesses\<close>
  "member_ws = \<lparr>ws_vm = (code_vm [180, 0, 1])\<lparr>classes := (\<lambda>_. (classes sample_exc_vm 0)\<lparr>cp_resolved := (\<lambda>_. False)\<rparr>)\<rparr>,
     ws_cc = member_cc, ws_off = 0, ws_mb = 0, ws_stack = newStack (\<lambda>_. 0)\<rparr>"

theorem unresolved_member_truncates_witness:
  "\<exists>w'. write_from code_env 0 0 member_ws = Inr (False, w') \<and> pctablelen (ws_cc w') = 1 \<and>
    buf_live (ws_cc w') = buf_live (ws_cc (before_jump code_env 0 0 member_ws))"
proof -
  let ?w = "before_jump code_env 0 0 member_ws"
  have v: "views member_cc = [new_view opc_getfield 1 0 0 (-1)]" and ok: "cc_ok member_cc"
    by (simp_all add: member_cc_def pctableAdd_views wf_intros fresh_cc_ok fresh_cc_live)
  then obtain e where l: "live member_cc = [e]" and e: "pcview e = new_view opc_getfield 1 0 0 (-1)"
    by (auto simp: map_eq_Cons_conv)
  have n: "pctablelen member_cc = 1" using length_live [OF ok] l by simp
  then have c: "pc_cell (ws_cc member_ws) 0 = e" using ok l by (simp add: member_ws_def pc_cell_live)
  have op: "opcode e = opc_getfield" "byteoff e = 0" "operand e = 1" "\<not> pcentryLoopHead e"
    using e by (simp_all add: pcview_def new_view_def)
  have w: "ws_vm ?w = ws_vm member_ws" "ws_mb ?w = ws_mb member_ws"
    by (simp_all add: before_jump_def Let_def c op write_template_def note_handlers_def align_loop_head_def
        plant_trap_def static_fields_def code_env_def)
  show ?thesis
    using unresolved_member_truncates [of 0 member_ws e ?w code_env 0 "ws_vm member_ws"] c n op w
    by (simp add: ws_class_def ws_code_def)
      (simp add: member_ws_def code_vm_def sample_vm_def byte_at_def code_env_def)
qed

end
