(* ===== verification/Jumps.thy ===== *)
theory Jumps
  imports Layout
begin

text \<open>
  The pass that fills in the targets of native jumps and shortens them where the distance fits
  in a byte (\<open>resolveJumpInstructions\<close> of \<^verbatim>\<open>compile.c\<close>), and its correctness against a decoder of
  the jump instructions it handles.
\<close>

subsection \<open>The pass\<close>

definition fits8 :: "u32 \<Rightarrow> bool" where
  \<comment> \<open>\<open>arg == (int32_t)(char)arg\<close>\<close>
  "fits8 a \<longleftrightarrow> a = scast (ucast a :: u8)"

definition resolve_jump :: "CompilerContext \<Rightarrow> jpentry \<Rightarrow> u8 list \<Rightarrow> fatal + u8 list" where
  \<comment> \<open>one round of the loop on the bytes of the buffer\<close>
  "resolve_jump cc j b =
     (case pctableGetByPC cc (sint (jp_tgtoff j)) of
        None \<Rightarrow> Inl NullDeref
      | Some t \<Rightarrow>
          (let argoff = unat (jp_argoff j);
               arg = nativeoff (pc_cell cc t) - (jp_argoff j + 4);
               b = put32 argoff arg b
           in Inr
             (if b ! (argoff - 1) = 0xe9 then
                (let arg = arg + 3 in
                 if fits8 arg then overwrite (argoff - 1) [0xeb, ucast arg, 0x90, 0x90, 0x90] b else b)
              else
                (let arg = arg + 4 in
                 if fits8 arg
                 then overwrite (argoff - 2) [b ! (argoff - 1) - 0x10, ucast arg, 0xeb, 0x02, 0x90, 0x90] b
                 else b))))"

fun resolve_jumps :: "CompilerContext \<Rightarrow> jpentry list \<Rightarrow> u8 list \<Rightarrow> fatal + u8 list" where
  "resolve_jumps cc [] b = Inr b"
| "resolve_jumps cc (j # js) b = bindE (resolve_jump cc j b) (resolve_jumps cc js)"

definition resolveJumpInstructions :: "CompilerContext \<Rightarrow> fatal + CompilerContext" where
  "resolveJumpInstructions cc =
     bindE (resolve_jumps cc (take (jptablelen cc) (jptable cc)) (buffer cc)) (\<lambda>b. Inr (cc\<lparr>buffer := b\<rparr>))"

subsection \<open>Decoding jumps\<close>

definition decode_jump :: "u8 list \<Rightarrow> nat \<Rightarrow> (u8 option \<times> int) option" where
  \<comment> \<open>condition code, \<open>None\<close> for an unconditional jump, and target of the jump instruction at \<open>s\<close>\<close>
  "decode_jump b s =
     (if b ! s = 0xe9 then Some (None, int s + 5 + sint (get32 b (s + 1)))
      else if b ! s = 0xeb then Some (None, int s + 2 + sint (b ! (s + 1)))
      else if b ! s = 0x0f \<and> 0x80 \<le> b ! (s + 1) \<and> b ! (s + 1) < 0x90
      then Some (Some (b ! (s + 1) AND 0xf), int s + 6 + sint (get32 b (s + 2)))
      else if 0x70 \<le> b ! s \<and> b ! s < 0x80
      then Some (Some (b ! s AND 0xf), int s + 2 + sint (b ! (s + 1)))
      else None)"

text \<open>
  A site of a jump, by the offset of its argument: the long unconditional jump one byte before
  it, or the long conditional jump two bytes before it.
\<close>

datatype site = Uncond nat | Cond nat u8

definition site_start :: "site \<Rightarrow> nat" where
  "site_start s = (case s of Uncond p \<Rightarrow> p | Cond p c \<Rightarrow> p)"

definition site_length :: "site \<Rightarrow> nat" where
  "site_length s = (case s of Uncond p \<Rightarrow> 5 | Cond p c \<Rightarrow> 6)"

definition site_cond :: "site \<Rightarrow> u8 option" where
  "site_cond s = (case s of Uncond p \<Rightarrow> None | Cond p c \<Rightarrow> Some c)"

definition site_arg :: "site \<Rightarrow> nat" where
  "site_arg s = (case s of Uncond p \<Rightarrow> p + 1 | Cond p c \<Rightarrow> p + 2)"

definition is_site :: "u8 list \<Rightarrow> site \<Rightarrow> bool" where
  "is_site b s \<longleftrightarrow> site_start s + site_length s \<le> length b \<and>
     (case s of
        Uncond p \<Rightarrow> b ! p = 0xe9
      | Cond p c \<Rightarrow> b ! p = 0x0f \<and> b ! (p + 1) = 0x80 OR c \<and> c < 0x10)"

definition jumps_to :: "u8 list \<Rightarrow> site \<Rightarrow> int \<Rightarrow> bool" where
  \<comment> \<open>at the site stands a jump with its condition to \<open>t\<close>; what follows a short conditional jump
      skips the rest of the site\<close>
  "jumps_to b s t \<longleftrightarrow> decode_jump b (site_start s) = Some (site_cond s, t) \<and>
     (\<forall>p c. s = Cond p c \<and> b ! p \<noteq> 0x0f \<longrightarrow>
        b ! (p + 2) = 0xeb \<and> decode_jump b (p + 2) = Some (None, int p + 6))"


subsection \<open>One site\<close>

lemma sint_of_int32: "- 2147483648 \<le> k \<Longrightarrow> k < 2147483648 \<Longrightarrow> sint (of_int k :: u32) = k"
  by (simp add: signed_of_int signed_take_bit_int_eq_self)

lemma sint_of_scast8: "sint (scast (c :: u8) :: u32) = sint c"
  by (rule sint_up_scast) (simp add: is_up)

lemma fits8_sint: "fits8 (of_int k) \<Longrightarrow> - 2147483648 \<le> k \<Longrightarrow> k < 2147483648 \<Longrightarrow> sint (ucast (of_int k :: u32) :: u8) = k"
  unfolding fits8_def by (metis sint_of_int32 sint_of_scast8)

lemma short_cond:
  assumes "c < (0x10 :: u8)"
  shows "(0x80 OR c) - 0x10 = 0x70 OR c" "(0x80 OR c) AND 0xf = c" "(0x70 OR c) AND 0xf = c"
    "0x80 \<le> 0x80 OR c" "0x80 OR c < 0x90" "0x70 \<le> 0x70 OR c" "0x70 OR c < 0x80"
proof -
  have "\<forall>c \<in> set (map word_of_nat [0..<16] :: u8 list). (0x80 OR c) - 0x10 = 0x70 OR c \<and> (0x80 OR c) AND 0xf = c \<and>
      (0x70 OR c) AND 0xf = c \<and> 0x80 \<le> 0x80 OR c \<and> 0x80 OR c < 0x90 \<and> 0x70 \<le> 0x70 OR c \<and> 0x70 OR c < 0x80"
    by code_simp
  moreover have "c \<in> set (map word_of_nat [0..<16])"
  proof -
    have "unat c < 16" using assms by (simp add: word_less_nat_alt)
    then have "word_of_nat (unat c) \<in> set (map word_of_nat [0..<16] :: u8 list)" unfolding set_map by (intro imageI) simp
    then show ?thesis by simp
  qed
  ultimately show "(0x80 OR c) - 0x10 = 0x70 OR c" "(0x80 OR c) AND 0xf = c" "(0x70 OR c) AND 0xf = c"
    "0x80 \<le> 0x80 OR c" "0x80 OR c < 0x90" "0x70 \<le> 0x70 OR c" "0x70 OR c < 0x80"
    by blast+
qed

lemma nth_overwrite:
  "off + length ys \<le> length xs \<Longrightarrow> overwrite off ys xs ! k =
     (if k < off then xs ! k else if k < off + length ys then ys ! (k - off) else xs ! k)"
  by (auto simp: nth_overwrite_after) (metis add_diff_inverse_nat nat_add_left_cancel_less nth_overwrite_in)


lemma unat_small32: "n < 2147483648 \<Longrightarrow> unat (of_nat n :: u32) = n"
  by (simp add: unat_of_nat)

lemma patched_uncond:
  assumes "is_site b (Uncond p)" "p + 5 < 2147483648" "n < 2147483648"
    and "arg = of_int (int n - int (p + 1) - 4)"
  defines "b1 \<equiv> put32 (p + 1) arg b"
  defines "b' \<equiv> (if fits8 (arg + 3) then overwrite p [0xeb, ucast (arg + 3), 0x90, 0x90, 0x90] b1 else b1)"
  shows "length b' = length b" "k < p \<or> p + 5 \<le> k \<Longrightarrow> b' ! k = b ! k" "jumps_to b' (Uncond p) (int n)"
proof -
  have len: "p + 5 \<le> length b" and bp: "b ! p = 0xe9" using assms(1) by (simp_all add: is_site_def site_start_def site_length_def)
  have b1: "length b1 = length b" "\<And>k. k < p + 1 \<or> p + 5 \<le> k \<Longrightarrow> b1 ! k = b ! k" "get32 b1 (p + 1) = arg"
    using len by (auto simp: b1_def nth_put32_other)
  show "length b' = length b" using b1 len by (simp add: b'_def)
  show "b' ! k = b ! k" if "k < p \<or> p + 5 \<le> k" for k
    using b1 len that by (auto simp: b'_def nth_overwrite)
  have a3: "arg + 3 = of_int (int n - int p - 2)" by (simp add: assms(4))
  show "jumps_to b' (Uncond p) (int n)"
  proof (cases "fits8 (arg + 3)")
    case True
    have "sint (ucast (arg + 3) :: u8) = int n - int p - 2"
      using fits8_sint [of "int n - int p - 2"] True assms(2,3) len unfolding a3 by simp
    moreover have "b' ! p = 0xeb" "b' ! (p + 1) = ucast (arg + 3)"
      using True b1(1) len by (simp_all add: b'_def nth_overwrite)
    ultimately show ?thesis
      by (simp add: jumps_to_def decode_jump_def site_start_def site_cond_def)
  next
    case False
    have "sint arg = int n - int (p + 1) - 4"
      unfolding assms(4) using assms(2,3) len by (intro sint_of_int32) simp_all
    with False bp b1 show ?thesis
      by (simp add: jumps_to_def decode_jump_def site_start_def site_cond_def b'_def)
  qed
qed

lemma patched_cond:
  assumes "is_site b (Cond p c)" "p + 6 < 2147483648" "n < 2147483648"
    and "arg = of_int (int n - int (p + 2) - 4)"
  defines "b1 \<equiv> put32 (p + 2) arg b"
  defines "b' \<equiv> (if fits8 (arg + 4) then overwrite p [b1 ! (p + 1) - 0x10, ucast (arg + 4), 0xeb, 0x02, 0x90, 0x90] b1 else b1)"
  shows "length b' = length b" "k < p \<or> p + 6 \<le> k \<Longrightarrow> b' ! k = b ! k" "jumps_to b' (Cond p c) (int n)" "b1 ! (p + 1) \<noteq> 0xe9"
proof -
  have len: "p + 6 \<le> length b" and bp: "b ! p = 0x0f" "b ! (p + 1) = 0x80 OR c" and c: "c < 0x10"
    using assms(1) by (simp_all add: is_site_def site_start_def site_length_def)
  have b1: "length b1 = length b" "\<And>k. k < p + 2 \<or> p + 6 \<le> k \<Longrightarrow> b1 ! k = b ! k" "get32 b1 (p + 2) = arg"
    using len by (auto simp: b1_def nth_put32_other)
  show "length b' = length b" using b1 len by (simp add: b'_def)
  show "b' ! k = b ! k" if "k < p \<or> p + 6 \<le> k" for k
    using b1 len that by (auto simp: b'_def nth_overwrite)
  note sc = short_cond [OF c]
  have op: "b1 ! (p + 1) = 0x80 OR c" using b1(2) bp by simp
  show "b1 ! (p + 1) \<noteq> 0xe9" using op sc(5) by (auto simp: word_less_nat_alt)
  have a4: "arg + 4 = of_int (int n - int p - 2)" by (simp add: assms(4))
  show "jumps_to b' (Cond p c) (int n)"
  proof (cases "fits8 (arg + 4)")
    case True
    have s: "sint (ucast (arg + 4) :: u8) = int n - int p - 2"
      using fits8_sint [of "int n - int p - 2"] True assms(2,3) len unfolding a4 by simp
    have b': "b' ! p = 0x70 OR c" "b' ! (p + 1) = ucast (arg + 4)" "b' ! (p + 2) = 0xeb" "b' ! Suc (Suc (Suc p)) = 2"
      using True b1(1) len sc(1) op by (simp_all add: b'_def nth_overwrite)
    have "0x70 OR c \<noteq> 0xe9" "0x70 OR c \<noteq> 0xeb" "0x70 OR c \<noteq> 0x0f"
      using sc(6,7) by (auto simp: word_less_nat_alt word_le_nat_alt)
    with b' sc(3,6,7) s show ?thesis
      by (simp add: jumps_to_def decode_jump_def site_start_def site_cond_def)
  next
    case False
    have "sint arg = int n - int (p + 2) - 4"
      unfolding assms(4) using assms(2,3) len by (intro sint_of_int32) simp_all
    moreover have "b' ! p = 0x0f" "b' ! (p + 1) = 0x80 OR c" "get32 b' (p + 2) = arg"
      using False bp b1 op by (simp_all add: b'_def)
    ultimately show ?thesis
      using sc(2,4,5) by (simp add: jumps_to_def decode_jump_def site_start_def site_cond_def)
  qed
qed

lemma resolve_jump_site:
  assumes "is_site b s" "site_start s + site_length s < 2147483648" "jp_argoff j = of_nat (site_arg s)"
    and "pctableGetByPC cc (sint (jp_tgtoff j)) = Some t" "nativeoff (pc_cell cc t) = of_nat n" "n < 2147483648"
  shows "\<exists>b'. resolve_jump cc j b = Inr b' \<and> length b' = length b \<and>
    (\<forall>k. k < site_start s \<or> site_start s + site_length s \<le> k \<longrightarrow> b' ! k = b ! k) \<and> jumps_to b' s (int n)"
proof (cases s)
  case (Uncond p)
  have lim: "p + 5 < 2147483648" using assms(2) Uncond by (simp add: site_start_def site_length_def)
  have len: "p + 5 \<le> length b" "b ! p = 0xe9" using assms(1) Uncond by (simp_all add: is_site_def site_start_def site_length_def)
  then have a: "unat (jp_argoff j) = p + 1"
    using lim assms(3) by (simp add: Uncond site_arg_def unat_small32 del: of_nat_Suc of_nat_add)
  define arg :: u32 where "arg = of_int (int n - int (p + 1) - 4)"
  have arg: "nativeoff (pc_cell cc t) - (jp_argoff j + 4) = arg"
    using assms(3,5) by (simp add: Uncond site_arg_def arg_def)
  define b' where "b' = (if fits8 (arg + 3) then overwrite p [0xeb, ucast (arg + 3), 0x90, 0x90, 0x90] (put32 (p + 1) arg b) else put32 (p + 1) arg b)"
  note p = patched_uncond [OF assms(1) [unfolded Uncond] lim assms(6) arg_def, folded b'_def]
  have "put32 (p + 1) arg b ! p = 0xe9"
    using len by (simp add: nth_put32_other)
  then have "resolve_jump cc j b = Inr b'"
    by (simp add: resolve_jump_def Let_def assms(4) a arg b'_def)
  with p show ?thesis by (simp add: Uncond site_start_def site_length_def)
next
  case (Cond p c)
  have lim: "p + 6 < 2147483648" using assms(2) Cond by (simp add: site_start_def site_length_def)
  have len: "p + 6 \<le> length b" using assms(1) Cond by (simp add: is_site_def site_start_def site_length_def)
  then have a: "unat (jp_argoff j) = p + 2"
    using lim assms(3) by (simp add: Cond site_arg_def unat_small32 del: of_nat_Suc of_nat_add)
  define arg :: u32 where "arg = of_int (int n - int (p + 2) - 4)"
  have arg: "nativeoff (pc_cell cc t) - (jp_argoff j + 4) = arg"
    using assms(3,5) by (simp add: Cond site_arg_def arg_def)
  define b' where "b' = (if fits8 (arg + 4) then overwrite p [put32 (p + 2) arg b ! (p + 1) - 0x10, ucast (arg + 4), 0xeb, 0x02, 0x90, 0x90] (put32 (p + 2) arg b) else put32 (p + 2) arg b)"
  note p = patched_cond [OF assms(1) [unfolded Cond] lim assms(6) arg_def, folded b'_def]
  have "resolve_jump cc j b = Inr b'"
    using p(4) by (simp add: resolve_jump_def Let_def assms(4) a arg b'_def)
  with p show ?thesis by (simp add: Cond site_start_def site_length_def)
qed


subsection \<open>All sites\<close>

definition apart :: "site \<Rightarrow> site \<Rightarrow> bool" where
  "apart s s' \<longleftrightarrow> site_start s + site_length s \<le> site_start s'"

lemma get32_cong:
  assumes "\<forall>k < 4. b' ! (off + k) = b ! (off + k)"
  shows "get32 b' off = get32 b off"
  using assms [rule_format, of 0] assms [rule_format, of 1] assms [rule_format, of 2] assms [rule_format, of 3]
  by (simp add: get32_def)

lemma jumps_to_cong:
  assumes "jumps_to b s t" "\<forall>k. site_start s \<le> k \<and> k < site_start s + site_length s \<longrightarrow> b' ! k = b ! k"
  shows "jumps_to b' s t"
proof (cases s)
  case (Uncond p)
  then have e: "b' ! (p + k) = b ! (p + k)" if "k < 5" for k
    using assms(2) that by (simp add: site_start_def site_length_def)
  have g: "get32 b' (p + 1) = get32 b (p + 1)"
    by (rule get32_cong) (use e [of "Suc _"] in auto)
  show ?thesis
    using assms(1) e [of 0] e [of 1] g by (auto simp: Uncond jumps_to_def decode_jump_def site_start_def site_cond_def split: if_splits)
next
  case (Cond p c)
  then have e: "b' ! (p + k) = b ! (p + k)" if "k < 6" for k
    using assms(2) that by (simp add: site_start_def site_length_def)
  have g: "get32 b' (p + 2) = get32 b (p + 2)"
    by (rule get32_cong) (use e [of "Suc (Suc _)"] in auto)
  have e4: "b' ! p = b ! p" "b' ! Suc p = b ! Suc p" "b' ! Suc (Suc p) = b ! Suc (Suc p)"
    "b' ! Suc (Suc (Suc p)) = b ! Suc (Suc (Suc p))"
    using e [of 0] e [of 1] e [of 2] e [of 3] by (simp_all add: numeral_3_eq_3)
  show ?thesis
    using assms(1) e4 g by (auto simp: Cond jumps_to_def decode_jump_def site_start_def site_cond_def split: if_splits)
qed

lemma is_site_cong:
  assumes "is_site b s" "length b' = length b" "\<forall>k. site_start s \<le> k \<and> k < site_start s + site_length s \<longrightarrow> b' ! k = b ! k"
  shows "is_site b' s"
  using assms by (cases s) (auto simp: is_site_def site_start_def site_length_def)

lemma is_site_append: "is_site b s \<Longrightarrow> is_site (b @ c) s"
  by (cases s) (auto simp: is_site_def site_start_def site_length_def nth_append)

definition sites_for :: "jpentry list \<Rightarrow> u8 list \<Rightarrow> site list \<Rightarrow> bool" where
  \<comment> \<open>the sites of the jumps registered, in order, none overlapping another\<close>
  "sites_for js b ss \<longleftrightarrow> list_all2 (\<lambda>j s. jp_argoff j = of_nat (site_arg s) \<and> is_site b s) js ss \<and> sorted_wrt apart ss"

definition lands :: "CompilerContext \<Rightarrow> u8 list \<Rightarrow> jpentry \<Rightarrow> site \<Rightarrow> bool" where
  \<comment> \<open>the jump goes to the code of the first entry with the offset of the target\<close>
  "lands cc b j s \<longleftrightarrow>
     (\<exists>t. first_at (live cc) (sint (jp_tgtoff j)) = Some t \<and> jumps_to b s (uint (nativeoff t)))"

definition outside :: "site list \<Rightarrow> nat \<Rightarrow> bool" where
  "outside ss k \<longleftrightarrow> (\<forall>s \<in> set ss. k < site_start s \<or> site_start s + site_length s \<le> k)"

lemma getByPC_first_at:
  assumes "cc_ok cc" "table_sorted cc" "d \<in> increasing_byteoff ` set (live cc)"
  shows "\<exists>t. pctableGetByPC cc d = Some t \<and> first_at (live cc) d = Some (pc_cell cc t) \<and> pc_cell cc t \<in> set (live cc)"
proof -
  from assms(1,3) obtain k where k: "k < pctablelen cc" "increasing_byteoff (live cc ! k) = d"
    by (auto simp: in_set_conv_nth)
  from getByPC_finds [OF assms(1,2) k] obtain t where
    t: "pctableGetByPC cc d = Some t" "t \<le> k" "increasing_byteoff (live cc ! t) = d"
      "\<forall>j < t. increasing_byteoff (live cc ! j) < d" .
  with k assms(1) first_at_index [of t "live cc" d] have "first_at (live cc) d = Some (live cc ! t)"
    by fastforce
  with t k assms(1) show ?thesis by (auto simp: pc_cell_live)
qed

lemma resolve_jumps_land:
  assumes "cc_ok cc" "table_sorted cc" "\<forall>s \<in> set ss. site_start s + site_length s < 2147483648"
    and "\<forall>e \<in> set (live cc). uint (nativeoff e) < 2147483648"
    and "\<forall>j \<in> set js. sint (jp_tgtoff j) \<in> increasing_byteoff ` set (live cc)" "sites_for js b ss"
  shows "\<exists>b'. resolve_jumps cc js b = Inr b' \<and> length b' = length b \<and> (\<forall>k. outside ss k \<longrightarrow> b' ! k = b ! k) \<and>
    list_all2 (lands cc b') js ss"
  using assms(3,5,6)
proof (induction js arbitrary: b ss)
  case Nil
  then show ?case by (simp add: sites_for_def outside_def)
next
  case (Cons j js)
  from Cons.prems(3) obtain s ss' where ss: "ss = s # ss'" and j: "jp_argoff j = of_nat (site_arg s)" "is_site b s"
    and r: "list_all2 (\<lambda>j s. jp_argoff j = of_nat (site_arg s) \<and> is_site b s) js ss'" "sorted_wrt apart ss'"
    and ap: "\<forall>s' \<in> set ss'. apart s s'"
    by (auto simp: sites_for_def list_all2_Cons1)
  from getByPC_first_at [OF assms(1,2)] Cons.prems(2) obtain t where
    t: "pctableGetByPC cc (sint (jp_tgtoff j)) = Some t" "first_at (live cc) (sint (jp_tgtoff j)) = Some (pc_cell cc t)"
      "pc_cell cc t \<in> set (live cc)" by auto
  let ?n = "unat (nativeoff (pc_cell cc t))"
  have n: "?n < 2147483648"
    using assms(4) [rule_format, OF t(3)] unfolding unat_eq_nat_uint by linarith
  have nn: "nativeoff (pc_cell cc t) = of_nat ?n" by simp
  have lim: "site_start s + site_length s < 2147483648" using Cons.prems(1) ss by simp
  from resolve_jump_site [OF j(2) lim j(1) t(1) nn n] obtain b1 where
    b1: "resolve_jump cc j b = Inr b1" "length b1 = length b"
      "\<forall>k. k < site_start s \<or> site_start s + site_length s \<le> k \<longrightarrow> b1 ! k = b ! k" "jumps_to b1 s (int ?n)"
    by blast
  have later: "b1 ! k = b ! k" if "s' \<in> set ss'" "site_start s' \<le> k" for s' k
    using b1(3) ap that by (auto simp: apart_def)
  have "list_all2 (\<lambda>j s. jp_argoff j = of_nat (site_arg s) \<and> is_site b1 s) js ss'"
    unfolding list_all2_conv_all_nth
  proof (intro conjI allI impI)
    show "length js = length ss'" using r(1) by (rule list_all2_lengthD)
    fix i assume i: "i < length js"
    with r(1) show "jp_argoff (js ! i) = of_nat (site_arg (ss' ! i))" by (simp add: list_all2_conv_all_nth)
    from i r(1) have "is_site b (ss' ! i)" "ss' ! i \<in> set ss'" by (simp_all add: list_all2_conv_all_nth)
    with later b1(2) show "is_site b1 (ss' ! i)" by (blast intro: is_site_cong)
  qed
  with r(2) have "sites_for js b1 ss'" by (simp add: sites_for_def)
  from Cons.IH [OF _ _ this] Cons.prems(1,2) b1(2) ss obtain b' where
    b': "resolve_jumps cc js b1 = Inr b'" "length b' = length b" "\<forall>k. outside ss' k \<longrightarrow> b' ! k = b1 ! k"
      "list_all2 (lands cc b') js ss'" by auto
  have out: "outside ss' k" if "k < site_start s + site_length s" for k
    using ap that by (auto simp: outside_def apart_def)
  have "jumps_to b' s (int ?n)"
    by (rule jumps_to_cong [OF b1(4)]) (use b'(3) out in blast)
  with t(2) have "lands cc b' j s" by (auto simp: lands_def)
  moreover have "b' ! k = b ! k" if "outside ss k" for k
    using that b'(3) b1(3) by (auto simp: ss outside_def)
  ultimately show ?case using b1(1) b'(1,2,4) by (simp add: ss)
qed


subsection \<open>The sites of a layout\<close>

lemma jcc_codes_condition:
  assumes "opc_ifeq \<le> opc" "opc < opc_if_acmpeq"
  shows "\<exists>c < 0x10. fst (jcc_codes opc) = 0x80 OR c \<and> snd (jcc_codes opc) = 0x70 OR (c XOR 1)"
proof -
  have "opc \<in> {153, 154, 155, 156, 157, 158, 159, 160, 161, 162, 163, 164}" using assms unfolding insert_iff empty_iff by presburger
  then have "fst (jcc_codes opc) AND 0xf < 0x10 \<and> fst (jcc_codes opc) = 0x80 OR (fst (jcc_codes opc) AND 0xf) \<and>
      snd (jcc_codes opc) = 0x70 OR ((fst (jcc_codes opc) AND 0xf) XOR 1)"
    by (auto simp: jcc_codes_def)
  then show ?thesis by blast
qed

definition known_jump :: "pcentry \<Rightarrow> bool" where
  \<comment> \<open>branches on references are translated to branches on integers by the first pass\<close>
  "known_jump e \<longleftrightarrow> opcode e \<noteq> opc_if_acmpeq \<and> opcode e \<noteq> opc_if_acmpne"

lemma jump_block_sites:
  assumes "jump_block E T code e off jb ins js" "known_jump e" "length xs = off"
  shows "\<exists>ss. sites_for js (xs @ jb) ss \<and> (\<forall>s \<in> set ss. off \<le> site_start s) \<and>
    (\<forall>j \<in> set js. jumps e \<and> opcode e \<noteq> opc_ret \<and> jp_tgtoff j = of_int (dest code e))"
  using assms(1)
proof cases
  case cond_same
  from jcc_codes_condition [of "opcode e"] cond_same(4,5) assms(2) obtain c where
    c: "c < 0x10" "fst (jcc_codes (opcode e)) = 0x80 OR c"
    by (auto simp: jumps_def known_jump_def)
  show ?thesis
    using cond_same c assms(3)
    by (intro exI [of _ "[Cond off c]"])
      (simp add: sites_for_def is_site_def site_start_def site_length_def site_arg_def jump_entry_def nth_append)
next
  case (cond_other tr t)
  show ?thesis
    using cond_other assms(3)
    by (intro exI [of _ "[Uncond (off + 2 + length tr)]"])
      (simp add: sites_for_def is_site_def site_start_def site_length_def site_arg_def jump_entry_def nth_append)
next
  case (jump tr t)
  show ?thesis
    using jump assms(3)
    by (intro exI [of _ "[Uncond (off + length tr)]"])
      (simp add: sites_for_def is_site_def site_start_def site_length_def site_arg_def jump_entry_def nth_append)
qed (simp_all add: sites_for_def)

lemma is_site_end: "is_site b s \<Longrightarrow> site_start s + site_length s \<le> length b"
  by (simp add: is_site_def)

lemma sites_for_append:
  assumes "sites_for js b ss" "sites_for js' (b @ c) ss'" "\<forall>s \<in> set ss'. length b \<le> site_start s"
  shows "sites_for (js @ js') (b @ c) (ss @ ss')"
proof -
  have 1: "list_all2 (\<lambda>j s. jp_argoff j = of_nat (site_arg s) \<and> is_site (b @ c) s) js ss"
    using assms(1) unfolding sites_for_def by (auto elim!: list_all2_mono intro: is_site_append)
  have "\<forall>s \<in> set ss. is_site b s"
    using assms(1) unfolding sites_for_def list_all2_conv_all_nth by (metis in_set_conv_nth)
  then have "\<forall>s \<in> set ss. \<forall>s' \<in> set ss'. apart s s'"
    using assms(3) is_site_end unfolding apart_def by (meson order.trans)
  with 1 assms(1,2) show ?thesis
    by (auto simp: sites_for_def sorted_wrt_append intro: list_all2_appendI)
qed

lemma laid_sites:
  assumes "laid E T code bs src es js" "\<forall>e \<in> set src. known_jump e"
  shows "\<exists>ss. sites_for js bs ss \<and>
    (\<forall>j \<in> set js. \<exists>e \<in> set src. jumps e \<and> opcode e \<noteq> opc_ret \<and> jp_tgtoff j = of_int (dest code e))"
  using assms
proof (induction rule: laid.induct)
  case laid_Nil
  then show ?case by (auto simp: sites_for_def)
next
  case (laid_entry bs src es js pad e tmpl jb ins js')
  from laid_entry.IH laid_entry.prems obtain ss where
    1: "sites_for js bs ss" "\<forall>j \<in> set js. \<exists>e \<in> set src. jumps e \<and> opcode e \<noteq> opc_ret \<and> jp_tgtoff j = of_int (dest code e)"
    by auto
  from jump_block_sites [OF laid_entry.hyps(4), of "bs @ pad @ tmpl"] laid_entry.prems obtain ss' where
    2: "sites_for js' ((bs @ pad @ tmpl) @ jb) ss'" "\<forall>s \<in> set ss'. length bs + length pad + length tmpl \<le> site_start s"
      "\<forall>j \<in> set js'. jumps e \<and> opcode e \<noteq> opc_ret \<and> jp_tgtoff j = of_int (dest code e)"
    by auto
  have "sites_for (js @ js') (bs @ pad @ tmpl @ jb) (ss @ ss')"
    using sites_for_append [OF 1(1), of js' "pad @ tmpl @ jb" ss'] 2(1,2) by fastforce
  with 1(2) 2(3) show ?case by (intro exI [of _ "ss @ ss'"]) auto
qed

lemma placed_bound:
  assumes "placed E bs e" "length bs < 2147483648"
  shows "uint (nativeoff e) < 2147483648"
proof -
  from assms(1) obtain xs ys zs where b: "bs = xs @ ys @ zs" "nativeoff e = of_nat (length xs)"
    by (auto simp: placed_def)
  then have "length xs < 2147483648" using assms(2) by simp
  then have "unat (nativeoff e) < 2147483648" using unat_small32 b(2) by simp
  then show ?thesis unfolding unat_eq_nat_uint by linarith
qed

text \<open>C13: The native code of a method is linked correctly: after code generation and the
resolution of jumps, every jump instruction that was registered, with its condition, goes to the
code of the first entry at the byte offset of the branch's target, in its long or its short
form; a short conditional jump is followed by a jump over the rest of its site; and nothing but
the sites has changed.\<close>
theorem resolved_jumps_land:
  assumes "cc_ok cc" "table_sorted cc" "bufp cc = 0" "jptablelen cc = 0" "resolver_keeps E" "code_entries_ok E v cc"
    and "\<forall>opc st. ct_last_state E opc st \<le> STSTA" "\<forall>e \<in> set (live cc). known_jump e"
    and "\<forall>e \<in> set (live cc). -1 \<le> increasing_byteoff e \<and> increasing_byteoff e \<le> INT_MAX"
    and "writeCode E (v, cc) = Inr (False, v', cc')" "bufp cc' < 2147483648"
  shows "\<exists>cc'' ss. resolveJumpInstructions cc' = Inr cc'' \<and> sites_for (jp_live cc') (buf_live cc') ss \<and>
    list_all2 (lands cc' (buffer cc'')) (jp_live cc') ss \<and>
    length (buffer cc'') = length (buffer cc') \<and> (\<forall>k. outside ss k \<longrightarrow> buffer cc'' ! k = buffer cc' ! k)"
proof -
  let ?code = "mb_code (methods v (cc_mb cc))" and ?D = "increasing_byteoff ` set (live cc)"
  from writeCode_laid [OF assms(1-5) assms(6) [unfolded code_entries_ok_def]] assms(10) have
    l: "laid E (state_at (live cc)) ?code (buf_live cc') (live cc) (live cc') (jp_live cc')"
    and cc': "cc_ok cc'" "table_sorted cc'" "increasing_byteoff ` set (live cc') = ?D"
    by auto
  have tgt: "dest ?code e \<in> ?D" if "e \<in> set (live cc)" "jumps e" "opcode e \<noteq> opc_ret" for e
    using assms(6) that unfolding code_entries_ok_def entry_ok_def jump_ok_def by blast
  have pl: "\<forall>e \<in> set (live cc'). placed E (buf_live cc') e"
  proof (rule laid_placed [OF l assms(7)])
    show "\<forall>d s. state_at (live cc) d = Some s \<longrightarrow> s < 16" using state_at_16 by simp
    show "\<forall>e \<in> set (live cc). jumps e \<longrightarrow> opcode e \<noteq> opc_ret \<longrightarrow> state_at (live cc) (dest ?code e) \<noteq> None"
      using state_at_known tgt by simp
  qed
  have lb: "length (buf_live cc') < 2147483648"
    using assms(11) cc'(1) by simp
  from laid_sites [OF l assms(8)] obtain ss where ss: "sites_for (jp_live cc') (buf_live cc') ss"
    "\<forall>j \<in> set (jp_live cc'). \<exists>e \<in> set (live cc). jumps e \<and> opcode e \<noteq> opc_ret \<and> jp_tgtoff j = of_int (dest ?code e)"
    by blast
  have lim: "\<forall>s \<in> set ss. site_start s + site_length s < 2147483648"
    using ss(1) lb is_site_end unfolding sites_for_def list_all2_conv_all_nth
    by (metis in_set_conv_nth le_less_trans)
  have "sint (jp_tgtoff j) \<in> increasing_byteoff ` set (live cc')" if j: "j \<in> set (jp_live cc')" for j
  proof -
    from ss(2) j obtain e where e: "e \<in> set (live cc)" "jumps e" "opcode e \<noteq> opc_ret" "jp_tgtoff j = of_int (dest ?code e)"
      by blast
    from tgt [OF e(1-3)] have d: "dest ?code e \<in> ?D" .
    then have "-1 \<le> dest ?code e" "dest ?code e \<le> INT_MAX" using assms(9) by auto
    then have "sint (jp_tgtoff j) = dest ?code e" unfolding e(4) by (intro sint_of_int32) simp_all
    with d cc'(3) show ?thesis by simp
  qed
  moreover have "sites_for (jp_live cc') (buffer cc') ss"
    using sites_for_append [OF ss(1), of "[]" "drop (bufp cc') (buffer cc')" "[]"]
    by (simp add: sites_for_def buf_live_def)
  ultimately obtain b' where "resolve_jumps cc' (jp_live cc') (buffer cc') = Inr b'" "length b' = length (buffer cc')"
    "\<forall>k. outside ss k \<longrightarrow> b' ! k = buffer cc' ! k" "list_all2 (lands cc' b') (jp_live cc') ss"
    using resolve_jumps_land [OF cc'(1,2) lim] pl placed_bound [OF _ lb] by blast
  with ss(1) show ?thesis
    by (intro exI [of _ "cc'\<lparr>buffer := b'\<rparr>"] exI [of _ ss]) (simp add: resolveJumpInstructions_def jp_live_def)
qed


subsection \<open>Witness\<close>

lemma code_env_length:
  assumes "laid code_env T code bs src es js"
  shows "length bs \<le> 30 * length src"
  using assms
proof (induction rule: laid.induct)
  case (laid_entry bs src es js pad e tmpl jb ins js')
  have "length tmpl = 1" using laid_entry.hyps(3) by (simp add: instance_of_def code_env_def)
  moreover have "length jb \<le> 8" using laid_entry.hyps(4)
    by cases (simp_all add: transition_def code_env_def)
  moreover have "length pad < 16" using laid_entry.hyps(2) alignment_pad(1) by (simp add: pad_for_def)
  ultimately show ?case using laid_entry.IH by simp
qed simp

theorem resolved_jumps_land_witness:
  "\<exists>v' cc' cc'' ss. writeCode code_env (loop_vm, loop_cc) = Inr (False, v', cc') \<and>
    resolveJumpInstructions cc' = Inr cc'' \<and> list_all2 (lands cc' (buffer cc'')) (jp_live cc') ss"
proof -
  from writeCode_laid [OF loop_cc_ok(1) loop_cc_sorted loop_cc_empty code_env_keeps, of loop_vm]
    loop_entries_ok [unfolded code_entries_ok_def] code_env_resolves obtain v' cc' where
    w: "writeCode code_env (loop_vm, loop_cc) = Inr (False, v', cc')" "cc_ok cc'" and
    l: "laid code_env (state_at (live loop_cc)) (loop_code [0, 167, 255, 255]) (buf_live cc') (live loop_cc) (live cc') (jp_live cc')"
    by auto
  obtain a b where ab: "live loop_cc = [a, b]" and
    vs: "pcview a = new_view 0 (-1) 0 0 (-1)" "pcview b = new_view 167 (-1) 1 0 (-1)"
    using loop_cc_views(1) by (auto simp: map_eq_Cons_conv)
  have "bufp cc' \<le> 60" using code_env_length [OF l] w(2) ab by simp
  then have "bufp cc' < 2147483648" by simp
  moreover have "\<forall>e \<in> set (live loop_cc). known_jump e"
    "\<forall>e \<in> set (live loop_cc). -1 \<le> increasing_byteoff e \<and> increasing_byteoff e \<le> INT_MAX"
    using vs by (auto simp: ab known_jump_def pcview_def new_view_def)
  ultimately show ?thesis
    using resolved_jumps_land [OF loop_cc_ok(1) loop_cc_sorted loop_cc_empty code_env_keeps loop_entries_ok code_env_states _ _ w(1)] w(1)
    by blast
qed

end
