(* ===== verification/Patches.thy ===== *)
theory Patches
  imports Jumps
begin

text \<open>
  The passes after code generation patch words and jumps of the generated code. A \<open>patch\<close> is
  such a change with the cells it may touch, what it needs of them and what it establishes;
  patches of pairwise disjoint cells, applied one after the other, establish everything they
  promise. The passes are shown to be sequences of patches.
\<close>

subsection \<open>Sequences of patches\<close>

record patch =
  cells :: "nat set"
  needs :: "u8 list \<Rightarrow> bool"
  apply_to :: "u8 list \<Rightarrow> u8 list"
  gives :: "u8 list \<Rightarrow> bool"

definition agree_on :: "nat set \<Rightarrow> u8 list \<Rightarrow> u8 list \<Rightarrow> bool" where
  "agree_on S b b' \<longleftrightarrow> length b \<le> length b' \<and> (\<forall>k \<in> S. b' ! k = b ! k)"

definition depends_on :: "nat set \<Rightarrow> (u8 list \<Rightarrow> bool) \<Rightarrow> bool" where
  "depends_on S P \<longleftrightarrow> (\<forall>b b'. agree_on S b b' \<longrightarrow> P b \<longrightarrow> P b')"

definition patch_ok :: "patch \<Rightarrow> bool" where
  "patch_ok p \<longleftrightarrow> depends_on (cells p) (needs p) \<and> depends_on (cells p) (gives p) \<and>
     (\<forall>b. needs p b \<longrightarrow> length (apply_to p b) = length b \<and> (\<forall>k. k \<notin> cells p \<longrightarrow> apply_to p b ! k = b ! k) \<and>
        gives p (apply_to p b))"

abbreviation apply_patches :: "patch list \<Rightarrow> u8 list \<Rightarrow> u8 list" where
  "apply_patches \<equiv> fold apply_to"

definition disjoint_cells :: "patch list \<Rightarrow> bool" where
  "disjoint_cells ps \<longleftrightarrow> sorted_wrt (\<lambda>p q. cells p \<inter> cells q = {}) ps"

lemma depends_onD: "depends_on S P \<Longrightarrow> agree_on S b b' \<Longrightarrow> P b \<Longrightarrow> P b'"
  unfolding depends_on_def by blast

lemma patches_apply:
  assumes "\<forall>p \<in> set ps. patch_ok p \<and> needs p b" "disjoint_cells ps"
  shows "length (apply_patches ps b) = length b"
    and "\<forall>k. (\<forall>p \<in> set ps. k \<notin> cells p) \<longrightarrow> apply_patches ps b ! k = b ! k"
    and "\<forall>p \<in> set ps. gives p (apply_patches ps b)"
proof -
  from assms have "length (apply_patches ps b) = length b \<and>
    (\<forall>k. (\<forall>p \<in> set ps. k \<notin> cells p) \<longrightarrow> apply_patches ps b ! k = b ! k) \<and> (\<forall>p \<in> set ps. gives p (apply_patches ps b))"
  proof (induction ps arbitrary: b)
    case (Cons p ps)
    let ?b = "apply_to p b"
    from Cons.prems have p: "patch_ok p" "needs p b" and dj: "\<forall>q \<in> set ps. cells p \<inter> cells q = {}" "disjoint_cells ps"
      by (simp_all add: disjoint_cells_def)
    then have b: "length ?b = length b" "\<forall>k. k \<notin> cells p \<longrightarrow> ?b ! k = b ! k" "gives p ?b"
      by (auto simp: patch_ok_def)
    have "needs q ?b" if q: "q \<in> set ps" for q
    proof -
      have "agree_on (cells q) b ?b" using b dj(1) q by (auto simp: agree_on_def)
      moreover have "depends_on (cells q) (needs q)" "needs q b" using Cons.prems(1) q by (simp_all add: patch_ok_def)
      ultimately show ?thesis by (blast intro: depends_onD)
    qed
    then have "\<forall>q \<in> set ps. patch_ok q \<and> needs q ?b" using Cons.prems(1) by simp
    note r = Cons.IH [OF this dj(2)]
    note r = r [THEN conjunct1] r [THEN conjunct2, THEN conjunct1] r [THEN conjunct2, THEN conjunct2]
    have "agree_on (cells p) ?b (apply_patches ps ?b)"
      unfolding agree_on_def
    proof (intro conjI ballI)
      fix k assume "k \<in> cells p"
      then have "\<forall>q \<in> set ps. k \<notin> cells q" using dj(1) by blast
      with r(2) show "apply_patches ps ?b ! k = ?b ! k" by blast
    qed (simp add: r(1))
    moreover have "depends_on (cells p) (gives p)" using p(1) by (simp add: patch_ok_def)
    ultimately have "gives p (apply_patches ps ?b)" using b(3) depends_onD by metis
    moreover have "apply_patches ps ?b ! k = b ! k" if "\<forall>p \<in> set (p # ps). k \<notin> cells p" for k
      using r(2) [rule_format, of k] b(2) [rule_format, of k] that by simp
    ultimately show ?case using r(1,3) b(1) by simp
  qed simp
  then show "length (apply_patches ps b) = length b"
    "\<forall>k. (\<forall>p \<in> set ps. k \<notin> cells p) \<longrightarrow> apply_patches ps b ! k = b ! k"
    "\<forall>p \<in> set ps. gives p (apply_patches ps b)" by blast+
qed

subsection \<open>Words and far jumps\<close>

definition word_patch :: "nat \<Rightarrow> u32 \<Rightarrow> patch" where
  "word_patch a v = \<lparr>cells = {a..<a + 4}, needs = (\<lambda>b. a + 4 \<le> length b), apply_to = put32 a v,
     gives = (\<lambda>b. get32 b a = v)\<rparr>"

lemma word_patch_ok [simp]: "patch_ok (word_patch a v)"
  by (auto simp: patch_ok_def word_patch_def depends_on_def agree_on_def nth_put32_other intro!: get32_cong)

definition link_far :: "u32 \<Rightarrow> u32 \<Rightarrow> u8 list \<Rightarrow> u8 list" where
  \<comment> \<open>write the distance from the end of the argument at \<open>arg_off\<close> to \<open>tgt\<close>, and shorten an
      unconditional jump to a near target\<close>
  "link_far arg_off tgt b =
     (let p = unat arg_off; rel = tgt - (arg_off + 4); b = put32 p rel b in
      if b ! (p - 1) = 0xe9 then
        (let rel = rel + 3 in if fits8 rel then overwrite (p - 1) [0xeb, ucast rel, 0x90, 0x90, 0x90] b else b)
      else b)"

definition site_cells :: "site \<Rightarrow> nat set" where
  "site_cells s = {site_start s..<site_start s + site_length s}"

lemma link_far_site:
  assumes "is_site b s" "site_start s + site_length s < 2147483648" "n < 2147483648"
  defines "b' \<equiv> link_far (of_nat (site_arg s)) (of_nat n) b"
  shows "length b' = length b" "k \<notin> site_cells s \<Longrightarrow> b' ! k = b ! k" "jumps_to b' s (int n)"
proof -
  have "length b' = length b \<and> (\<forall>k. k \<notin> site_cells s \<longrightarrow> b' ! k = b ! k) \<and> jumps_to b' s (int n)"
  proof (cases s)
    case (Uncond p)
    define arg :: u32 where "arg = of_int (int n - int (p + 1) - 4)"
    have lim: "p + 5 < 2147483648" and len: "p + 5 \<le> length b" "b ! p = 0xe9"
      using assms(1,2) Uncond by (simp_all add: is_site_def site_start_def site_length_def)
    then have a: "unat (of_nat (p + 1) :: u32) = p + 1" by (intro unat_small32) simp
    have arg: "of_nat n - (of_nat (p + 1) + 4) = arg" by (simp add: arg_def)
    have "put32 (p + 1) arg b ! p = 0xe9" using len by (simp add: nth_put32_other)
    then have "b' = (if fits8 (arg + 3) then overwrite p [0xeb, ucast (arg + 3), 0x90, 0x90, 0x90] (put32 (p + 1) arg b) else put32 (p + 1) arg b)"
      unfolding b'_def link_far_def Uncond site_arg_def site.case a arg Let_def by simp
    with patched_uncond [OF assms(1) [unfolded Uncond] lim assms(3) arg_def] show ?thesis
      by (auto simp: Uncond site_cells_def site_start_def site_length_def)
  next
    case (Cond p c)
    have lim: "p + 6 < 2147483648" and len: "p + 6 \<le> length b" "b ! p = 0x0f" "b ! (p + 1) = 0x80 OR c" "c < 0x10"
      using assms(1,2) Cond by (simp_all add: is_site_def site_start_def site_length_def)
    then have a: "unat (of_nat (p + 2) :: u32) = p + 2" by (intro unat_small32) simp
    define arg :: u32 where "arg = of_int (int n - int (p + 2) - 4)"
    have arg: "of_nat n - (of_nat (p + 2) + 4) = arg" by (simp add: arg_def)
    have sa: "sint arg = int n - int (p + 2) - 4"
      unfolding arg_def using lim assms(3) by (intro sint_of_int32) simp_all
    note sc = short_cond [OF len(4)]
    have op: "put32 (p + 2) arg b ! (p + 1) = 0x80 OR c" "put32 (p + 2) arg b ! p = 0x0f"
      using len by (simp_all add: nth_put32_other)
    have "0x80 OR c \<noteq> 0xe9" using sc(5) by (auto simp: word_less_nat_alt)
    then have "b' = put32 (p + 2) arg b"
      unfolding b'_def link_far_def Cond site_arg_def site.case a arg Let_def using op by simp
    moreover have "jumps_to (put32 (p + 2) arg b) s (int n)"
      using sc(2,4,5) op len(1) sa by (simp add: Cond jumps_to_def decode_jump_def site_start_def site_cond_def)
    ultimately show ?thesis
      using len(1) by (auto simp: Cond site_cells_def site_start_def site_length_def nth_put32_other)
  qed
  then show "length b' = length b" "k \<notin> site_cells s \<Longrightarrow> b' ! k = b ! k" "jumps_to b' s (int n)" by blast+
qed

definition far_patch :: "nat \<Rightarrow> site \<Rightarrow> patch" where
  "far_patch n s = \<lparr>cells = site_cells s,
     needs = (\<lambda>b. is_site b s \<and> site_start s + site_length s < 2147483648),
     apply_to = link_far (of_nat (site_arg s)) (of_nat n), gives = (\<lambda>b. jumps_to b s (int n))\<rparr>"

lemma is_site_agree: "is_site b s \<Longrightarrow> agree_on (site_cells s) b b' \<Longrightarrow> is_site b' s"
  by (auto simp: is_site_def agree_on_def site_cells_def site_start_def site_length_def split: site.splits)

lemma jumps_to_agree: "jumps_to b s t \<Longrightarrow> agree_on (site_cells s) b b' \<Longrightarrow> jumps_to b' s t"
  by (rule jumps_to_cong) (auto simp: agree_on_def site_cells_def)

lemma far_patch_ok [simp]: "n < 2147483648 \<Longrightarrow> patch_ok (far_patch n s)"
  using link_far_site(1,2,3) [of _ s n]
  by (auto simp: patch_ok_def far_patch_def depends_on_def intro: is_site_agree jumps_to_agree)

end
