(* ===== verification/Switches.thy ===== *)
theory Switches
  imports Patches
begin

text \<open>
  The pass \<open>resolveExcRetSwitch\<close> of \<^verbatim>\<open>compile.c\<close>. It writes program counters of the bytecode, the
  jumps to the exception handler and to the end of the method into the generated code, and
  appends the tables of the switches to it. The code of \<^verbatim>\<open>code.c\<close> that reads the tables is
  modelled as well, so that the theorems say where a switch goes.
\<close>

primrec foldE :: "('a \<Rightarrow> 's \<Rightarrow> 'e + 's) \<Rightarrow> 'a list \<Rightarrow> 's \<Rightarrow> 'e + 's" where
  "foldE f [] s = Inr s"
| "foldE f (x # xs) s = bindE (f x s) (foldE f xs)"

primrec collectE :: "('a \<Rightarrow> 'e + 'b) \<Rightarrow> 'a list \<Rightarrow> 'e + 'b list" where
  "collectE f [] = Inr []"
| "collectE f (x # xs) = bindE (f x) (\<lambda>y. bindE (collectE f xs) (\<lambda>ys. Inr (y # ys)))"

lemma foldE_append: "foldE f (xs @ ys) s = bindE (foldE f xs s) (foldE f ys)"
proof (induction xs arbitrary: s)
  case (Cons x xs)
  then show ?case by (cases "f x s") simp_all
qed simp

lemma collectE_Inr: "\<forall>x \<in> set xs. f x = Inr (g x) \<Longrightarrow> collectE f xs = Inr (map g xs)"
  by (induction xs) simp_all

subsection \<open>Program counters, and jumps to the common ends of a method\<close>

definition table_offs :: "nat list \<Rightarrow> nat list" where
  \<comment> \<open>the rows of \<open>bytepc_table\<close> and \<open>jumpexc_table\<close> end with \<open>0\<close>\<close>
  "table_offs xs = takeWhile ((<) 0) xs"

definition put_bytepc :: "env \<Rightarrow> pcentry \<Rightarrow> u8 list \<Rightarrow> u8 list" where
  "put_bytepc E e =
     fold (\<lambda>k. put32 (unat (nativeoff e) + k) (of_int (increasing_byteoff e)))
       (table_offs (bytepc_table E (opcode e) (pcentryState e)))"

definition link_exc :: "env \<Rightarrow> CodeInfo \<Rightarrow> pcentry \<Rightarrow> u8 list \<Rightarrow> u8 list" where
  "link_exc E info e =
     fold (\<lambda>k. link_far (nativeoff e + of_nat k) (exc_handler_nativeoff info))
       (table_offs (jumpexc_table E (opcode e) (pcentryState e)))"

definition link_return :: "env \<Rightarrow> CodeInfo \<Rightarrow> pcentry \<Rightarrow> u8 list \<Rightarrow> u8 list" where
  "link_return E info e b =
     (if opcode e = opc_return
      then link_far (nativeoff e + of_nat (const_table E e ! 0)) (finish_return_nativeoff info) b else b)"

subsection \<open>Tables of switches\<close>

definition align4 :: "nat \<Rightarrow> nat" where
  \<comment> \<open>\<open>ALIGNUP32\<close> of \<open>bufp\<close>: the buffer starts at a multiple of four\<close>
  "align4 n = (n + 3) div 4 * 4"

definition tgt_words :: "env \<Rightarrow> nat \<Rightarrow> CompilerContext \<Rightarrow> int \<Rightarrow> fatal + u32 list" where
  \<comment> \<open>native offset of the target and offset of the trampoline to its state\<close>
  "tgt_words E lst cc d =
     (case pctableGetByPC cc d of
        None \<Rightarrow> Inl NullDeref
      | Some t \<Rightarrow> Inr [nativeoff (pc_cell cc t), ct_offset E (opc_goto_st0 + pcentryState (pc_cell cc t)) lst])"

definition tableswitch_words :: "env \<Rightarrow> (int \<Rightarrow> u8) \<Rightarrow> pcentry \<Rightarrow> CompilerContext \<Rightarrow> fatal + u32 list list" where
  "tableswitch_words E code e cc =
     (let p = byteoff e; argp = ALIGNUP32 (p + 1); l = ntohl_at code (argp + 4); h = ntohl_at code (argp + 8);
          lst = ct_last_state E (opcode e) (pcentryState e);
          n = nat (sint (of_int (h - l + 1) :: u32))
      in collectE (\<lambda>off. tgt_words E lst cc (p + off))
           (ntohl_at code argp # map (\<lambda>i. ntohl_at code (argp + 12 + 4 * int i)) [0..<n]))"

definition lookupswitch_words :: "env \<Rightarrow> (int \<Rightarrow> u8) \<Rightarrow> pcentry \<Rightarrow> CompilerContext \<Rightarrow> fatal + u32 list list" where
  "lookupswitch_words E code e cc =
     (let p = byteoff e; argp = ALIGNUP32 (p + 1); npairs = ntohl_at code (argp + 4);
          lst = ct_last_state E (opcode e) (pcentryState e);
          pairs = map (\<lambda>i. (ntohl_at code (argp + 8 + 8 * int i), ntohl_at code (argp + 12 + 8 * int i))) [0..<nat npairs]
      in collectE (\<lambda>(m, off). bindE (tgt_words E lst cc (p + off)) (\<lambda>ws. Inr (of_int m # ws)))
           (pairs @ [(0, ntohl_at code argp)]))"

definition append_rows ::
  "env \<Rightarrow> nat \<Rightarrow> nat \<Rightarrow> u32 \<Rightarrow> (CompilerContext \<Rightarrow> fatal + u32 list list) \<Rightarrow> CompilerContext \<Rightarrow> fatal + CompilerContext" where
  \<comment> \<open>align the end of the code, make room for \<open>req\<close> bytes, note the offset of the table as
      constant \<open>k\<close> of entry \<open>i\<close> and in the entry, and write the rows\<close>
  "append_rows E i k req rows cc =
     (let e = pc_cell cc i;
          cc = ensureBufferSize (cc\<lparr>bufp := align4 (bufp cc)\<rparr>) (unat req);
          tbl = bufp cc;
          cc = cc\<lparr>buffer := put32 (unat (nativeoff e) + const_table E e ! k) (of_nat tbl) (buffer cc)\<rparr>;
          cc = pc_upd cc i (operand_update (\<lambda>_. int tbl))
      in bindE (rows cc) (\<lambda>rs. let bs = concat (map le32 (concat rs)) in
           Inr (cc\<lparr>buffer := overwrite tbl bs (buffer cc), bufp := tbl + length bs\<rparr>)))"

definition switch_table :: "env \<Rightarrow> (int \<Rightarrow> u8) \<Rightarrow> nat \<Rightarrow> CompilerContext \<Rightarrow> fatal + CompilerContext" where
  "switch_table E code i cc =
     (let e = pc_cell cc i; argp = ALIGNUP32 (byteoff e + 1) in
      if opcode e = opc_tableswitch then
        append_rows E i 2 (of_int ((ntohl_at code (argp + 8) - ntohl_at code (argp + 4) + 2) * 8))
          (tableswitch_words E code e) cc
      else if opcode e = opc_lookupswitch then
        append_rows E i 1 (of_int ((ntohl_at code (argp + 4) + 1) * 12)) (lookupswitch_words E code e) cc
      else Inr cc)"

subsection \<open>The pass\<close>

definition resolve_ers_entry :: "env \<Rightarrow> CodeInfo \<Rightarrow> (int \<Rightarrow> u8) \<Rightarrow> nat \<Rightarrow> CompilerContext \<Rightarrow> fatal + CompilerContext" where
  "resolve_ers_entry E info code i cc =
     (let e = pc_cell cc i in
      switch_table E code i (cc\<lparr>buffer := link_return E info e (link_exc E info e (put_bytepc E e (buffer cc)))\<rparr>))"

definition resolveExcRetSwitch :: "env \<Rightarrow> pass_state \<Rightarrow> fatal + CompilerContext" where
  "resolveExcRetSwitch E s =
     (let (v, cc) = s; m = methods v (cc_mb cc)
      in foldE (resolve_ers_entry E (infos v (CompiledCodeInfo m)) (mb_code m)) [0..<pctablelen cc] cc)"

subsection \<open>The code that reads the tables (\<^verbatim>\<open>code.c\<close>)\<close>

definition TBLSW :: "u8 list \<Rightarrow> u32 \<Rightarrow> u32 \<Rightarrow> nat \<Rightarrow> u32 \<Rightarrow> u32 \<times> u32" where
  \<comment> \<open>constants \<open>low\<close>, \<open>high\<close> and the offset of the table; the offset of the target and the
      trampoline that is jumped to\<close>
  "TBLSW b low high tbl index =
     (let index = index - low; high = high - low;
          edi = (if high < index then tbl else tbl + 8 + 8 * unat index)
      in (get32 b edi, get32 b (edi + 4)))"

fun LUSW_loop :: "u8 list \<Rightarrow> nat \<Rightarrow> nat \<Rightarrow> u32 \<Rightarrow> nat" where
  \<comment> \<open>\<open>npairs\<close> is \<open>%eax\<close>, the address of the row \<open>%edi\<close>\<close>
  "LUSW_loop b 0 edi key = edi"
| "LUSW_loop b (Suc n) edi key = (if key = get32 b edi then edi else LUSW_loop b n (edi + 12) key)"

definition LUSW :: "u8 list \<Rightarrow> u32 \<Rightarrow> nat \<Rightarrow> u32 \<Rightarrow> u32 \<times> u32" where
  "LUSW b npairs tbl key =
     (let edi = LUSW_loop b (unat npairs) tbl key in (get32 b (edi + 4), get32 b (edi + 8)))"


subsection \<open>Tables of words\<close>

lemma nth_concat_width:
  assumes "\<forall>r \<in> set rs. length r = w" "j < length rs" "k < w"
  shows "concat rs ! (w * j + k) = rs ! j ! k"
  using assms
proof (induction rs arbitrary: j)
  case (Cons r rs)
  then show ?case by (cases j) (simp_all add: nth_append add.assoc)
qed simp

lemma length_concat_width: "\<forall>r \<in> set rs. length r = w \<Longrightarrow> length (concat rs) = w * length rs"
  by (induction rs) simp_all

definition words_at :: "u8 list \<Rightarrow> nat \<Rightarrow> u32 list \<Rightarrow> bool" where
  "words_at b a ws \<longleftrightarrow> a + 4 * length ws \<le> length b \<and> (\<forall>j < length ws. get32 b (a + 4 * j) = ws ! j)"

lemma words_at_depends: "depends_on {a..<a + 4 * length ws} (\<lambda>b. words_at b a ws)"
  unfolding depends_on_def
proof (intro allI impI)
  fix b b' assume a: "agree_on {a..<a + 4 * length ws} b b'" "words_at b a ws"
  have "get32 b' (a + 4 * j) = get32 b (a + 4 * j)" if "j < length ws" for j
    by (rule get32_cong) (use a(1) that in \<open>auto simp: agree_on_def\<close>)
  with a show "words_at b' a ws" by (simp add: words_at_def agree_on_def)
qed

lemma words_at_written:
  assumes "a + 4 * length ws \<le> length b"
  shows "words_at (overwrite a (concat (map le32 ws)) b) a ws"
proof -
  let ?bs = "concat (map le32 ws)"
  have l: "length ?bs = 4 * length ws" using length_concat_width [of "map le32 ws" 4] by simp
  have n: "overwrite a ?bs b ! (a + (4 * j + r)) = le32 (ws ! j) ! r" if "j < length ws" "r < 4" for j r
  proof -
    have "4 * j + r < length ?bs" using that l by simp
    then have "overwrite a ?bs b ! (a + (4 * j + r)) = ?bs ! (4 * j + r)"
      using assms l by (intro nth_overwrite_in) simp_all
    also have "\<dots> = map le32 ws ! j ! r" using that by (intro nth_concat_width) simp_all
    finally show ?thesis using that by simp
  qed
  have "get32 (overwrite a ?bs b) (a + 4 * j) = ws ! j" if "j < length ws" for j
    using n [OF that, of 0] n [OF that, of 1] n [OF that, of 2] n [OF that, of 3]
    by (simp add: get32_def le32_def le32_join add.assoc)
  then show ?thesis using assms l by (simp add: words_at_def)
qed

text \<open>The rows of a table, as the code of \<^verbatim>\<open>code.c\<close> finds them.\<close>

lemma row_at:
  assumes "words_at b a (concat rs)" "\<forall>r \<in> set rs. length r = w" "j < length rs" "k < w"
  shows "get32 b (a + 4 * (w * j + k)) = rs ! j ! k"
proof -
  have "w * j + k < w * length rs"
  proof -
    have "w * j + k < w * (j + 1)" using assms(4) by simp
    also have "\<dots> \<le> w * length rs" using assms(3) by (intro mult_le_mono) simp_all
    finally show ?thesis .
  qed
  then show ?thesis
    using assms(1) nth_concat_width [OF assms(2-4)] length_concat_width [OF assms(2)] unfolding words_at_def by metis
qed

lemma TBLSW_row:
  assumes "words_at b tbl (concat rs)" "\<forall>r \<in> set rs. length r = 2" "length rs = nat (h - l + 1) + 1"
    and "l \<le> h" "- 2147483648 \<le> l" "h < 2147483648" "- 2147483648 \<le> v" "v < 2147483648"
  defines "j \<equiv> (if l \<le> v \<and> v \<le> h then nat (v - l) + 1 else 0)"
  shows "TBLSW b (of_int l) (of_int h) tbl (of_int v) = (rs ! j ! 0, rs ! j ! 1)"
proof -
  let ?x = "of_int v - of_int l :: u32" and ?y = "of_int h - of_int l :: u32"
  have y: "uint ?y = h - l"
    unfolding of_int_diff [symmetric] using assms(4-6) by (simp add: uint_word_of_int del: of_int_diff)
  have x: "uint ?x = (v - l) mod 4294967296"
    unfolding of_int_diff [symmetric] by (simp add: uint_word_of_int del: of_int_diff)
  have j: "j < length rs" using assms(3) by (auto simp: j_def)
  show ?thesis
  proof (cases "l \<le> v \<and> v \<le> h")
    case True
    then have "uint ?x = v - l" using x assms(5,8) by simp
    with y True have "\<not> ?y < ?x" "unat ?x = nat (v - l)"
      by (simp_all add: word_less_def unat_eq_nat_uint)
    then show ?thesis
      using row_at [OF assms(1,2) j, of 0] row_at [OF assms(1,2) j, of 1] True
      by (simp add: TBLSW_def Let_def j_def algebra_simps)
  next
    case False
    have "h - l < (v - l) mod 4294967296"
    proof (cases "v < l")
      case True
      then have "(v - l) mod 4294967296 = v - l + 4294967296"
        using assms(4-8) by (subst mod_add_self2 [symmetric], subst mod_pos_pos_trivial) simp_all
      then show ?thesis using assms(4-8) by simp
    next
      case F: False
      then show ?thesis using False assms(4-8) by simp
    qed
    then have "?y < ?x" using x y by (simp add: word_less_def)
    moreover have "j = 0" unfolding j_def using False by (rule if_not_P)
    ultimately show ?thesis
      using row_at [OF assms(1,2) j, of 0] row_at [OF assms(1,2) j, of 1]
      by (simp add: TBLSW_def Let_def)
  qed
qed

lemma LUSW_loop_row:
  assumes "\<forall>j < n. get32 b (a + 12 * j) = of_int (ms ! j)" "n \<le> length ms"
  shows "LUSW_loop b n a key = a + 12 * (case find (\<lambda>j. of_int (ms ! j) = key) [0..<n] of Some j \<Rightarrow> j | None \<Rightarrow> n)"
  using assms
proof (induction n arbitrary: a ms)
  case (Suc n)
  have e: "get32 b a = of_int (ms ! 0)" using Suc.prems(1) [rule_format, of 0] by simp
  show ?case
  proof (cases "key = of_int (ms ! 0)")
    case True
    then show ?thesis using e by (simp add: upt_conv_Cons del: upt_Suc)
  next
    case False
    have "\<forall>j < n. get32 b (a + 12 + 12 * j) = of_int (tl ms ! j)"
    proof (intro allI impI)
      fix j assume "j < n"
      then show "get32 b (a + 12 + 12 * j) = of_int (tl ms ! j)"
        using Suc.prems(1) [rule_format, of "Suc j"] Suc.prems(2) by (simp add: nth_tl algebra_simps)
    qed
    from Suc.IH [OF this] Suc.prems(2) have "LUSW_loop b n (a + 12) key =
      a + 12 + 12 * (case find (\<lambda>j. of_int (tl ms ! j) = key) [0..<n] of Some j \<Rightarrow> j | None \<Rightarrow> n)" by simp
    moreover have "find (\<lambda>j. of_int (ms ! j) = key) [0..<Suc n] =
      map_option Suc (find (\<lambda>j. of_int (tl ms ! j) = key) [0..<n])"
    proof -
      have "find P (map Suc xs) = map_option Suc (find (P \<circ> Suc) xs)" for P xs by (induction xs) auto
      moreover have "find (\<lambda>j. of_int (ms ! Suc j) = key) [0..<n] = find (\<lambda>j. of_int (tl ms ! j) = key) [0..<n]"
        by (rule find_cong) (use Suc.prems(2) in \<open>auto simp: nth_tl\<close>)
      ultimately show ?thesis using False
        by (simp add: upt_conv_Cons map_Suc_upt [symmetric] comp_def del: upt_Suc)
    qed
    ultimately show ?thesis using e False by (simp del: upt_Suc split: option.split)
  qed
qed simp


lemma of_int_inj32:
  "- 2147483648 \<le> x \<Longrightarrow> x < 2147483648 \<Longrightarrow> - 2147483648 \<le> y \<Longrightarrow> y < 2147483648 \<Longrightarrow>
   (of_int x :: u32) = of_int y \<longleftrightarrow> x = y"
  by (metis sint_of_int32)

lemma ntohl_range: "- 2147483648 \<le> ntohl_at code p" "ntohl_at code p < 2147483648"
  unfolding ntohl_at_def GET_INT32_def
  using sint_ge [where 'a = 32] sint_lt [where 'a = 32] by simp_all

definition pair_row :: "(nat \<Rightarrow> int) \<Rightarrow> nat \<Rightarrow> int \<Rightarrow> nat" where
  \<comment> \<open>the number of the first pair that matches \<open>v\<close>; \<open>n\<close>, the row of the default, if there is none\<close>
  "pair_row m n v = (case find (\<lambda>j. m j = v) [0..<n] of Some j \<Rightarrow> j | None \<Rightarrow> n)"

lemma pair_row_le: "pair_row m n v \<le> n"
  unfolding pair_row_def by (auto split: option.splits dest!: find_Some_iff [THEN iffD1])

lemma LUSW_row:
  assumes "words_at b tbl (concat rs)" "\<forall>r \<in> set rs. length r = 3" "length rs = n + 1" "n < 2147483648"
    and "\<forall>j < n. rs ! j ! 0 = of_int (m j)" "\<forall>j < n. - 2147483648 \<le> m j \<and> m j < 2147483648"
    and "- 2147483648 \<le> v" "v < 2147483648"
  defines "j \<equiv> pair_row m n v"
  shows "LUSW b (of_nat n) tbl (of_int v) = (rs ! j ! 1, rs ! j ! 2)"
proof -
  have r: "get32 b (tbl + 12 * i + 4 * k) = rs ! i ! k" if "i \<le> n" "k < 3" for i k
    using row_at [OF assms(1,2), of i k] that assms(3) by (simp add: algebra_simps)
  have "\<forall>j < n. get32 b (tbl + 12 * j) = of_int (map m [0..<n] ! j)"
    using r [of _ 0] assms(5) by simp
  then have "LUSW_loop b n tbl (of_int v) =
      tbl + 12 * (case find (\<lambda>j. of_int (map m [0..<n] ! j) = (of_int v :: u32)) [0..<n] of Some j \<Rightarrow> j | None \<Rightarrow> n)"
    by (rule LUSW_loop_row) simp
  moreover have "find (\<lambda>j. of_int (map m [0..<n] ! j) = (of_int v :: u32)) [0..<n] = find (\<lambda>j. m j = v) [0..<n]"
    by (rule find_cong) (use assms(6-8) in \<open>auto simp: of_int_inj32\<close>)
  ultimately have "LUSW_loop b n tbl (of_int v) = tbl + 12 * j"
    unfolding j_def pair_row_def by simp
  then show ?thesis
    using r [OF pair_row_le, of 1 m v] r [OF pair_row_le, of 2 m v] assms(4)
    by (simp add: LUSW_def Let_def unat_small32 j_def)
qed

subsection \<open>Entries that agree up to their operands\<close>

definition same_entries :: "CompilerContext \<Rightarrow> CompilerContext \<Rightarrow> bool" where
  "same_entries cc cc' \<longleftrightarrow> pctablelen cc' = pctablelen cc \<and>
     (\<forall>j. \<exists>x. pc_cell cc' j = (pc_cell cc j)\<lparr>operand := x\<rparr>)"

lemma same_entries_refl [simp]: "same_entries cc cc"
proof -
  have "pc_cell cc j = (pc_cell cc j)\<lparr>operand := operand (pc_cell cc j)\<rparr>" for j by simp
  then show ?thesis unfolding same_entries_def by blast
qed

lemma same_entries_trans: "same_entries a b \<Longrightarrow> same_entries b c \<Longrightarrow> same_entries a c"
  unfolding same_entries_def
proof (intro conjI allI; elim conjE)
  fix j
  assume "\<forall>j. \<exists>x. pc_cell b j = (pc_cell a j)\<lparr>operand := x\<rparr>" "\<forall>j. \<exists>x. pc_cell c j = (pc_cell b j)\<lparr>operand := x\<rparr>"
  then obtain x y where "pc_cell b j = (pc_cell a j)\<lparr>operand := x\<rparr>" "pc_cell c j = (pc_cell b j)\<lparr>operand := y\<rparr>"
    by blast
  then have "pc_cell c j = (pc_cell a j)\<lparr>operand := y\<rparr>" by simp
  then show "\<exists>x. pc_cell c j = (pc_cell a j)\<lparr>operand := x\<rparr>" by (rule exI)
qed simp

lemma same_entries_cell:
  assumes "same_entries cc cc'"
  shows "opcode (pc_cell cc' j) = opcode (pc_cell cc j)" "byteoff (pc_cell cc' j) = byteoff (pc_cell cc j)"
    "increasing_byteoff (pc_cell cc' j) = increasing_byteoff (pc_cell cc j)"
    "nativeoff (pc_cell cc' j) = nativeoff (pc_cell cc j)" "pcentryState (pc_cell cc' j) = pcentryState (pc_cell cc j)"
proof -
  from assms obtain x where "pc_cell cc' j = (pc_cell cc j)\<lparr>operand := x\<rparr>" by (auto simp: same_entries_def)
  then show "opcode (pc_cell cc' j) = opcode (pc_cell cc j)" "byteoff (pc_cell cc' j) = byteoff (pc_cell cc j)"
    "increasing_byteoff (pc_cell cc' j) = increasing_byteoff (pc_cell cc j)"
    "nativeoff (pc_cell cc' j) = nativeoff (pc_cell cc j)" "pcentryState (pc_cell cc' j) = pcentryState (pc_cell cc j)"
    by simp_all
qed

lemma same_entries_getByPC:
  assumes "same_entries cc cc'"
  shows "pctableGetByPC cc' d = pctableGetByPC cc d"
proof -
  have f: "first_same cc' d i = first_same cc d i" for i
    by (induction i) (simp_all add: same_entries_cell [OF assms])
  have "getByPC_loop cc' d l h = getByPC_loop cc d l h" for l h
  proof (induction "h - l" arbitrary: l h rule: less_induct)
    case less
    show ?case
      by (subst (1 2) getByPC_loop.simps) (auto simp: Let_def f same_entries_cell [OF assms] intro!: less)
  qed
  then show ?thesis using assms by (simp add: pctableGetByPC_def same_entries_def)
qed

lemma same_entries_upd: "same_entries cc (pc_upd cc i (operand_update (\<lambda>_. x)))"
  unfolding same_entries_def
proof (intro conjI allI)
  fix j
  have "pc_cell (pc_upd cc i (operand_update (\<lambda>_. x))) j =
      (pc_cell cc j)\<lparr>operand := if j = i \<and> i < length (pctable cc) then x else operand (pc_cell cc j)\<rparr>"
    by (cases "j = i") (simp_all add: pc_upd_def pc_cell_def)
  then show "\<exists>y. pc_cell (pc_upd cc i (operand_update (\<lambda>_. x))) j = (pc_cell cc j)\<lparr>operand := y\<rparr>" by (rule exI)
qed simp

lemma same_entries_buffer [simp]:
  "same_entries cc (cc'\<lparr>buffer := b\<rparr>) = same_entries cc cc'" "same_entries (cc\<lparr>buffer := b\<rparr>) cc' = same_entries cc cc'"
  "same_entries cc (cc'\<lparr>bufp := n\<rparr>) = same_entries cc cc'" "same_entries (cc\<lparr>bufp := n\<rparr>) cc' = same_entries cc cc'"
  "same_entries cc (ensureBufferSize cc' r) = same_entries cc cc'"
  by (simp_all add: same_entries_def pc_cell_def ensureBufferSize_def Let_def)

lemma tgt_words_same: "same_entries cc cc' \<Longrightarrow> tgt_words E lst cc' d = tgt_words E lst cc d"
  by (simp add: tgt_words_def same_entries_getByPC same_entries_cell split: option.split)


subsection \<open>Appending a table\<close>

lemma dvd_grow: "d dvd sz \<Longrightarrow> d dvd grow sz need"
  by (induction sz need rule: grow.induct) (subst grow.simps, auto)

lemma align4: "n \<le> align4 n" "4 dvd align4 n" "n \<le> m \<Longrightarrow> 4 dvd m \<Longrightarrow> align4 n \<le> m"
  unfolding align4_def by (auto simp: dvd_def)

definition room_ok :: "CompilerContext \<Rightarrow> bool" where
  \<comment> \<open>the size of the buffer stays a multiple of four, so that aligning \<open>bufp\<close> does not leave it\<close>
  "room_ok cc \<longleftrightarrow> cc_ok cc \<and> 4 dvd buf_size cc"

lemma room_ensure:
  fixes r :: nat
  assumes "room_ok cc"
  defines "cc' \<equiv> ensureBufferSize (cc\<lparr>bufp := align4 (bufp cc)\<rparr>) r"
  shows "room_ok cc'" "bufp cc' = align4 (bufp cc)" "align4 (bufp cc) + r \<le> buf_size cc'"
    "k < bufp cc \<Longrightarrow> buffer cc' ! k = buffer cc ! k" "length (buffer cc) \<le> length (buffer cc')"
    "pctable cc' = pctable cc" "length (buffer cc') = buf_size cc'"
proof -
  let ?a = "cc\<lparr>bufp := align4 (bufp cc)\<rparr>"
  have al: "align4 (bufp cc) \<le> buf_size cc" using assms(1) align4(3) by (auto simp: room_ok_def cc_ok_def)
  then have ok: "cc_ok ?a" using assms(1) by (simp add: room_ok_def cc_ok_def)
  note e = ensureBufferSize_ok [OF ok, of r, folded cc'_def]
  show "room_ok cc'" using e(1) assms(1)
    by (simp add: room_ok_def cc'_def ensureBufferSize_def Let_def dvd_grow)
  show "bufp cc' = align4 (bufp cc)" "align4 (bufp cc) + r \<le> buf_size cc'" using e(2,4) by simp_all
  show "length (buffer cc') = buf_size cc'" using e(1) by (simp add: cc_ok_def)
  show "length (buffer cc) \<le> length (buffer cc')"
    using assms(1) grow_mono [of "buf_size cc"] by (simp add: room_ok_def cc_ok_def cc'_def ensureBufferSize_def Let_def)
  show "pctable cc' = pctable cc" by (simp add: cc'_def ensureBufferSize_def Let_def)
  show "buffer cc' ! k = buffer cc ! k" if "k < bufp cc"
  proof -
    have "k < align4 (bufp cc)" using that align4(1) le_less_trans less_le_trans by blast
    then have "take (align4 (bufp cc)) (buffer cc') ! k = take (align4 (bufp cc)) (buffer cc) ! k" using e(7) by simp
    with \<open>k < align4 (bufp cc)\<close> show ?thesis by simp
  qed
qed

lemma append_rows_ok:
  fixes E :: env and k :: nat
  assumes "room_ok cc" "i < pctablelen cc" "\<forall>cc'. same_entries cc cc' \<longrightarrow> rows cc' = Inr rs"
    and "4 * length (concat rs) \<le> unat req"
  defines "tbl \<equiv> align4 (bufp cc)"
  defines "c \<equiv> unat (nativeoff (pc_cell cc i)) + const_table E (pc_cell cc i) ! k"
  assumes "c + 4 \<le> bufp cc"
  obtains cc' where "append_rows E i k req rows cc = Inr cc'" "room_ok cc'" "same_entries cc cc'"
    "operand (pc_cell cc' i) = int tbl" "\<forall>j. j \<noteq> i \<longrightarrow> pc_cell cc' j = pc_cell cc j"
    "bufp cc' = tbl + 4 * length (concat rs)" "words_at (buffer cc') tbl (concat rs)"
    "\<forall>k < bufp cc. buffer cc' ! k = put32 c (of_nat tbl) (buffer cc) ! k" "length (buffer cc) \<le> length (buffer cc')"
proof -
  let ?c1 = "ensureBufferSize (cc\<lparr>bufp := tbl\<rparr>) (unat req)"
  note e = room_ensure [OF assms(1), where r = "unat req", folded tbl_def]
  let ?c2 = "pc_upd (?c1\<lparr>buffer := put32 c (of_nat tbl) (buffer ?c1)\<rparr>) i (operand_update (\<lambda>_. int tbl))"
  let ?bs = "concat (map le32 (concat rs))"
  have lbs: "length ?bs = 4 * length (concat rs)" using length_concat_width [of "map le32 (concat rs)" 4] by simp
  have s1: "same_entries cc (?c1\<lparr>buffer := put32 c (of_nat tbl) (buffer ?c1)\<rparr>)" by simp
  have same: "same_entries cc ?c2" by (rule same_entries_trans [OF s1 same_entries_upd])
  let ?c3 = "?c2\<lparr>buffer := overwrite tbl ?bs (buffer ?c2), bufp := tbl + length ?bs\<rparr>"
  have run: "append_rows E i k req rows cc = Inr ?c3"
    using assms(3) same e(2) by (simp add: append_rows_def Let_def c_def tbl_def [symmetric])
  have t: "bufp cc \<le> tbl" unfolding tbl_def by (rule align4(1))
  have l1: "length (buffer cc) \<le> length (buffer ?c1)" by (rule e(5))
  have bl: "bufp cc \<le> length (buffer cc)" using assms(1) by (simp add: room_ok_def cc_ok_def)
  have b2: "buffer ?c2 = put32 c (of_nat tbl) (buffer ?c1)" by (simp add: pc_upd_def)
  have l2: "length (buffer ?c2) = length (buffer ?c1)" unfolding b2 using assms(7) bl l1 by simp
  have fit: "tbl + length ?bs \<le> length (buffer ?c2)"
    unfolding l2 e(7) lbs using e(3) assms(4) by linarith
  have "room_ok ?c3"
    using e(1) fit l2 by (simp add: room_ok_def cc_ok_def pc_upd_def)
  moreover have "pc_cell ?c3 j = (if j = i then (pc_cell cc i)\<lparr>operand := int tbl\<rparr> else pc_cell cc j)" for j
    using assms(1,2) e(6)
    by (auto simp: pc_cell_def pc_upd_def room_ok_def cc_ok_def ensureBufferSize_def Let_def)
  moreover have "words_at (buffer ?c3) tbl (concat rs)"
    using words_at_written [of tbl "concat rs" "buffer ?c2"] fit lbs by simp
  moreover have "buffer ?c3 ! k = put32 c (of_nat tbl) (buffer cc) ! k" if k: "k < bufp cc" for k
  proof -
    have "buffer ?c3 ! k = buffer ?c2 ! k" using k t fit by (simp del: length_concat)
    also have "\<dots> = put32 c (of_nat tbl) (buffer ?c1) ! k" unfolding b2 by simp
    also have "\<dots> = put32 c (of_nat tbl) (buffer cc) ! k"
    proof -
      have k1: "buffer ?c1 ! k = buffer cc ! k" using e(4) [OF k] by simp
      have f: "c + length (le32 (of_nat tbl)) \<le> length (buffer ?c1)" "c + length (le32 (of_nat tbl)) \<le> length (buffer cc)"
        using assms(7) bl l1 by simp_all
      show ?thesis unfolding put32_def nth_overwrite [OF f(1)] nth_overwrite [OF f(2)] k1 ..
    qed
    finally show ?thesis .
  qed
  moreover have "length (buffer cc) \<le> length (buffer ?c3)" using l1 l2 fit by simp
  ultimately show ?thesis using that [OF run] same lbs by simp
qed


subsection \<open>The patches of an entry\<close>

definition region :: "env \<Rightarrow> pcentry \<Rightarrow> nat set" where
  \<comment> \<open>the cells of the code of the entry\<close>
  "region E e = {unat (nativeoff e)..<unat (nativeoff e) + length (template E e)}"

definition site_at :: "u8 list \<Rightarrow> nat \<Rightarrow> site" where
  \<comment> \<open>the jump whose argument is at \<open>a\<close>\<close>
  "site_at b a = (if b ! (a - 1) = 0xe9 then Uncond (a - 1) else Cond (a - 2) (b ! (a - 1) AND 0xf))"

definition pc_offs :: "env \<Rightarrow> pcentry \<Rightarrow> nat list" where
  "pc_offs E e = map (\<lambda>k. unat (nativeoff e) + k) (table_offs (bytepc_table E (opcode e) (pcentryState e)))"

definition exc_offs :: "env \<Rightarrow> pcentry \<Rightarrow> nat list" where
  "exc_offs E e = map (\<lambda>k. unat (nativeoff e) + k) (table_offs (jumpexc_table E (opcode e) (pcentryState e)))"

definition ret_offs :: "env \<Rightarrow> pcentry \<Rightarrow> nat list" where
  "ret_offs E e = (if opcode e = opc_return then [unat (nativeoff e) + const_table E e ! 0] else [])"

definition table_off :: "env \<Rightarrow> pcentry \<Rightarrow> nat" where
  \<comment> \<open>where the code of a switch has the offset of its table\<close>
  "table_off E e = unat (nativeoff e) + const_table E e ! (if opcode e = opc_tableswitch then 2 else 1)"

definition switches :: "pcentry \<Rightarrow> bool" where
  "switches e \<longleftrightarrow> opcode e = opc_tableswitch \<or> opcode e = opc_lookupswitch"

definition link_patches :: "env \<Rightarrow> CodeInfo \<Rightarrow> u8 list \<Rightarrow> pcentry \<Rightarrow> patch list" where
  "link_patches E info b e =
     map (\<lambda>a. word_patch a (of_int (increasing_byteoff e))) (pc_offs E e)
     @ map (\<lambda>a. far_patch (unat (exc_handler_nativeoff info)) (site_at b a)) (exc_offs E e)
     @ map (\<lambda>a. far_patch (unat (finish_return_nativeoff info)) (site_at b a)) (ret_offs E e)"

definition table_patches :: "env \<Rightarrow> nat \<Rightarrow> pcentry \<Rightarrow> patch list" where
  "table_patches E tbl e = (if switches e then [word_patch (table_off E e) (of_nat tbl)] else [])"

definition links_ok :: "env \<Rightarrow> CodeInfo \<Rightarrow> u8 list \<Rightarrow> pcentry \<Rightarrow> bool" where
  \<comment> \<open>the slots of the code lie in it, apart from each other, and the jumps among them are jumps\<close>
  "links_ok E info b e \<longleftrightarrow>
     (\<forall>p \<in> set (link_patches E info b e @ table_patches E 0 e). needs p b \<and> cells p \<subseteq> region E e) \<and>
     disjoint_cells (link_patches E info b e @ table_patches E 0 e) \<and>
     (\<forall>a \<in> set (exc_offs E e @ ret_offs E e). site_arg (site_at b a) = a)"

lemma word_fold:
  "fold (\<lambda>k. put32 (n + k) x) ks b = apply_patches (map (\<lambda>a. word_patch a x) (map (\<lambda>k. n + k) ks)) b"
  by (induction ks arbitrary: b) (simp_all add: word_patch_def)

lemma far_fold:
  assumes "\<forall>a \<in> set (map (\<lambda>k. unat n + k) ks). site_arg (f a) = a"
  shows "fold (\<lambda>k. link_far (n + of_nat k) t) ks b =
    apply_patches (map (\<lambda>a. far_patch (unat t) (f a)) (map (\<lambda>k. unat n + k) ks)) b"
  using assms by (induction ks arbitrary: b) (simp_all add: far_patch_def)

lemma link_entry_patches:
  assumes "links_ok E info b e"
  shows "link_return E info e (link_exc E info e (put_bytepc E e b)) = apply_patches (link_patches E info b e) b"
proof -
  have x: "\<forall>a \<in> set (exc_offs E e). site_arg (site_at b a) = a" "\<forall>a \<in> set (ret_offs E e). site_arg (site_at b a) = a"
    using assms by (auto simp: links_ok_def)
  have "link_return E info e c =
      apply_patches (map (\<lambda>a. far_patch (unat (finish_return_nativeoff info)) (site_at b a)) (ret_offs E e)) c" for c
    using x(2) by (simp add: link_return_def ret_offs_def far_patch_def)
  then show ?thesis
    unfolding link_exc_def put_bytepc_def word_fold far_fold [OF x(1) [unfolded exc_offs_def]]
    by (simp add: link_patches_def pc_offs_def exc_offs_def)
qed

definition ends_ok :: "CodeInfo \<Rightarrow> bool" where
  "ends_ok info \<longleftrightarrow> unat (exc_handler_nativeoff info) < 2147483648 \<and> unat (finish_return_nativeoff info) < 2147483648"

lemma link_patches_ok: "ends_ok info \<Longrightarrow> p \<in> set (link_patches E info b e) \<Longrightarrow> patch_ok p"
  by (auto simp: link_patches_def ends_ok_def)

subsection \<open>Where switches go\<close>

definition goes_to :: "env \<Rightarrow> nat \<Rightarrow> pcentry list \<Rightarrow> int \<Rightarrow> (u32 \<times> u32) option" where
  \<comment> \<open>the code of the first entry at a byte offset, and the trampoline to its state\<close>
  "goes_to E lst es d =
     map_option (\<lambda>t. (nativeoff t, ct_offset E (opc_goto_st0 + pcentryState t) lst)) (first_at es d)"

definition tableswitch_dest :: "(int \<Rightarrow> u8) \<Rightarrow> int \<Rightarrow> int \<Rightarrow> int" where
  \<comment> \<open>semantics of the bytecode at \<open>p\<close> for the key \<open>v\<close>\<close>
  "tableswitch_dest code p v =
     (let argp = ALIGNUP32 (p + 1); l = ntohl_at code (argp + 4); h = ntohl_at code (argp + 8)
      in p + (if l \<le> v \<and> v \<le> h then ntohl_at code (argp + 12 + 4 * (v - l)) else ntohl_at code argp))"

definition lookupswitch_dest :: "(int \<Rightarrow> u8) \<Rightarrow> int \<Rightarrow> int \<Rightarrow> int" where
  "lookupswitch_dest code p v =
     (let argp = ALIGNUP32 (p + 1); npairs = ntohl_at code (argp + 4)
      in p + (case find (\<lambda>j. ntohl_at code (argp + 8 + 8 * int j) = v) [0..<nat npairs] of
                Some j \<Rightarrow> ntohl_at code (argp + 12 + 8 * int j) | None \<Rightarrow> ntohl_at code argp))"

definition switch_fits :: "(int \<Rightarrow> u8) \<Rightarrow> pcentry \<Rightarrow> bool" where
  \<comment> \<open>bounds the class file format guarantees: the code of a method has less than 65536 bytes\<close>
  "switch_fits code e \<longleftrightarrow>
     (let argp = ALIGNUP32 (byteoff e + 1) in
      if opcode e = opc_tableswitch
      then ntohl_at code (argp + 4) \<le> ntohl_at code (argp + 8) \<and> ntohl_at code (argp + 8) - ntohl_at code (argp + 4) < 65536
      else 0 \<le> ntohl_at code (argp + 4) \<and> ntohl_at code (argp + 4) < 65536)"

definition switch_rows :: "env \<Rightarrow> (int \<Rightarrow> u8) \<Rightarrow> pcentry \<Rightarrow> CompilerContext \<Rightarrow> fatal + u32 list list" where
  "switch_rows E code e cc =
     (if opcode e = opc_tableswitch then tableswitch_words E code e cc else lookupswitch_words E code e cc)"

lemma switch_rows_eta:
  "opcode e = opc_tableswitch \<Longrightarrow> switch_rows E code e = tableswitch_words E code e"
  "opcode e = opc_lookupswitch \<Longrightarrow> switch_rows E code e = lookupswitch_words E code e"
  by (simp_all add: fun_eq_iff switch_rows_def)

definition tgt_row :: "env \<Rightarrow> nat \<Rightarrow> CompilerContext \<Rightarrow> int \<Rightarrow> u32 list" where
  "tgt_row E lst cc d = (case tgt_words E lst cc d of Inl x \<Rightarrow> [] | Inr r \<Rightarrow> r)"

definition found :: "CompilerContext \<Rightarrow> int \<Rightarrow> bool" where
  "found cc d \<longleftrightarrow> pctableGetByPC cc d \<noteq> None"

lemma tgt_row: "found cc d \<Longrightarrow> tgt_words E lst cc d = Inr (tgt_row E lst cc d)" "found cc d \<Longrightarrow> length (tgt_row E lst cc d) = 2"
  by (auto simp: found_def tgt_words_def tgt_row_def)

lemma tableswitch_rows:
  fixes code :: "int \<Rightarrow> u8" and e :: pcentry
  defines "p \<equiv> byteoff e" and "lst \<equiv> \<lambda>E. ct_last_state E (opcode e) (pcentryState e)"
  assumes "opcode e = opc_tableswitch" "switch_fits code e" "\<forall>off \<in> set (switch_offsets code p (opcode e)). found cc (p + off)"
  shows "tableswitch_words E code e cc = Inr (map (\<lambda>off. tgt_row E (lst E) cc (p + off)) (switch_offsets code p (opcode e)))"
proof -
  let ?argp = "ALIGNUP32 (p + 1)"
  let ?d = "ntohl_at code (?argp + 8) - ntohl_at code (?argp + 4)"
  have d: "0 \<le> ?d" "?d < 65536" using assms(3,4) by (simp_all add: switch_fits_def p_def Let_def)
  have n: "sint (of_int (?d + 1) :: u32) = ?d + 1" by (intro sint_of_int32) (use d in simp_all)
  have "collectE (\<lambda>off. tgt_words E (lst E) cc (p + off)) (switch_offsets code p (opcode e)) =
      Inr (map (\<lambda>off. tgt_row E (lst E) cc (p + off)) (switch_offsets code p (opcode e)))"
    using assms(5) by (intro collectE_Inr ballI tgt_row(1)) simp
  then show ?thesis
    unfolding tableswitch_words_def Let_def p_def [symmetric] n lst_def
    by (simp add: switch_offsets_def Let_def assms(3))
qed

lemma lookupswitch_rows:
  fixes code :: "int \<Rightarrow> u8" and e :: pcentry
  defines "p \<equiv> byteoff e" and "lst \<equiv> \<lambda>E. ct_last_state E (opcode e) (pcentryState e)"
  defines "argp \<equiv> ALIGNUP32 (p + 1)"
  assumes "opcode e = opc_lookupswitch" "\<forall>off \<in> set (switch_offsets code p (opcode e)). found cc (p + off)"
  shows "lookupswitch_words E code e cc =
    Inr (map (\<lambda>j. of_int (ntohl_at code (argp + 8 + 8 * int j)) # tgt_row E (lst E) cc (p + ntohl_at code (argp + 12 + 8 * int j)))
           [0..<nat (ntohl_at code (argp + 4))] @ [0 # tgt_row E (lst E) cc (p + ntohl_at code argp)])"
proof -
  let ?pairs = "map (\<lambda>j. (ntohl_at code (argp + 8 + 8 * int j), ntohl_at code (argp + 12 + 8 * int j))) [0..<nat (ntohl_at code (argp + 4))]
    @ [(0, ntohl_at code argp)]"
  have f: "found cc (p + off)" if "(m, off) \<in> set ?pairs" for m off
    using assms(4,5) that by (auto simp: switch_offsets_def Let_def argp_def algebra_simps)
  have "collectE (\<lambda>(m, off). bindE (tgt_words E (lst E) cc (p + off)) (\<lambda>ws. Inr (of_int m # ws))) ?pairs =
      Inr (map (\<lambda>(m, off). of_int m # tgt_row E (lst E) cc (p + off)) ?pairs)"
  proof (rule collectE_Inr, rule ballI)
    fix x assume x: "x \<in> set ?pairs"
    obtain m off where mo: "x = (m, off)" by force
    from tgt_row(1) [OF f [OF x [unfolded mo]]]
    show "(case x of (m, off) \<Rightarrow> bindE (tgt_words E (lst E) cc (p + off)) (\<lambda>ws. Inr (of_int m # ws))) =
        Inr (case x of (m, off) \<Rightarrow> of_int m # tgt_row E (lst E) cc (p + off))"
      by (simp add: mo)
  qed
  then show ?thesis
    unfolding lookupswitch_words_def Let_def p_def [symmetric] argp_def [symmetric] lst_def
    by (simp add: comp_def)
qed


definition row_length :: "pcentry \<Rightarrow> nat" where
  "row_length e = (if opcode e = opc_tableswitch then 2 else 3)"

definition rows_of :: "env \<Rightarrow> (int \<Rightarrow> u8) \<Rightarrow> pcentry \<Rightarrow> CompilerContext \<Rightarrow> u32 list list" where
  "rows_of E code e cc = (case switch_rows E code e cc of Inl x \<Rightarrow> [] | Inr rs \<Rightarrow> rs)"

definition targets_found :: "(int \<Rightarrow> u8) \<Rightarrow> CompilerContext \<Rightarrow> pcentry \<Rightarrow> bool" where
  "targets_found code cc e \<longleftrightarrow> (\<forall>off \<in> set (switch_offsets code (byteoff e) (opcode e)). found cc (byteoff e + off))"

lemma length_switch_offsets:
  "length (switch_offsets code p opc) =
    (let argp = ALIGNUP32 (p + 1) in
     if opc = opc_tableswitch then nat (ntohl_at code (argp + 8) - ntohl_at code (argp + 4) + 1) + 1
     else nat (ntohl_at code (argp + 4)) + 1)"
  by (simp add: switch_offsets_def Let_def)

lemma rows_of:
  assumes "switches e" "switch_fits code e" "targets_found code cc e"
  shows "switch_rows E code e cc = Inr (rows_of E code e cc)" "\<forall>r \<in> set (rows_of E code e cc). length r = row_length e"
    "length (rows_of E code e cc) = length (switch_offsets code (byteoff e) (opcode e))"
proof -
  have t: "length (tgt_row E lst cc (byteoff e + off)) = 2" if "off \<in> set (switch_offsets code (byteoff e) (opcode e))" for off lst
    using assms(3) that tgt_row(2) by (simp add: targets_found_def)
  have "switch_rows E code e cc = Inr (rows_of E code e cc) \<and> (\<forall>r \<in> set (rows_of E code e cc). length r = row_length e) \<and>
    length (rows_of E code e cc) = length (switch_offsets code (byteoff e) (opcode e))"
  proof (cases "opcode e = opc_tableswitch")
    case True
    have "switch_rows E code e cc = Inr (map (\<lambda>off. tgt_row E (ct_last_state E (opcode e) (pcentryState e)) cc (byteoff e + off))
        (switch_offsets code (byteoff e) (opcode e)))"
      using tableswitch_rows [OF True assms(2) assms(3) [unfolded targets_found_def], of E] True by (simp add: switch_rows_def)
    then show ?thesis using t by (auto simp: rows_of_def row_length_def True)
  next
    case False
    with assms(1) have l: "opcode e = opc_lookupswitch" by (simp add: switches_def)
    let ?argp = "ALIGNUP32 (byteoff e + 1)"
    note r = lookupswitch_rows [OF l assms(3) [unfolded targets_found_def], of E]
    have o: "ntohl_at code ?argp \<in> set (switch_offsets code (byteoff e) (opcode e))"
      "\<forall>j < nat (ntohl_at code (?argp + 4)). ntohl_at code (?argp + 12 + 8 * int j) \<in> set (switch_offsets code (byteoff e) (opcode e))"
      using l by (auto simp: switch_offsets_def Let_def image_iff algebra_simps)
    have s: "switch_rows E code e cc = lookupswitch_words E code e cc" using l by (simp add: switch_rows_def)
    have "\<forall>r \<in> set (rows_of E code e cc). length r = 3"
      unfolding rows_of_def s r using t o by auto
    moreover have "length (rows_of E code e cc) = length (switch_offsets code (byteoff e) (opcode e))"
      unfolding rows_of_def s r by (simp add: length_switch_offsets l Let_def)
    ultimately show ?thesis using r l by (simp add: rows_of_def s row_length_def)
  qed
  then show "switch_rows E code e cc = Inr (rows_of E code e cc)" "\<forall>r \<in> set (rows_of E code e cc). length r = row_length e"
    "length (rows_of E code e cc) = length (switch_offsets code (byteoff e) (opcode e))" by blast+
qed

lemma collectE_cong: "(\<And>x. x \<in> set xs \<Longrightarrow> f x = g x) \<Longrightarrow> collectE f xs = collectE g xs"
  by (induction xs) simp_all

lemma switch_rows_same:
  assumes "same_entries cc cc'" "opcode e' = opcode e" "byteoff e' = byteoff e" "pcentryState e' = pcentryState e"
  shows "switch_rows E code e' cc' = switch_rows E code e cc"
  unfolding switch_rows_def tableswitch_words_def lookupswitch_words_def Let_def
  by (simp add: assms tgt_words_same [OF assms(1)])

subsection \<open>One entry\<close>

definition code_region :: "env \<Rightarrow> CompilerContext \<Rightarrow> nat \<Rightarrow> nat set" where
  "code_region E cc i = region E (pc_cell cc i)"

definition entry_resolved :: "env \<Rightarrow> CodeInfo \<Rightarrow> (int \<Rightarrow> u8) \<Rightarrow> CompilerContext \<Rightarrow> nat \<Rightarrow> CompilerContext \<Rightarrow> bool" where
  \<comment> \<open>the slots of entry \<open>i\<close> of \<open>cc\<close> are filled in \<open>cc'\<close>, and its table is in place\<close>
  "entry_resolved E info code cc i cc' \<longleftrightarrow>
     (let e = pc_cell cc i in
      (\<forall>p \<in> set (link_patches E info (buffer cc) e). gives p (buffer cc')) \<and>
      (switches e \<longrightarrow> (\<exists>tbl. 4 dvd tbl \<and> bufp cc \<le> tbl \<and> tbl + 4 * length (concat (rows_of E code e cc)) \<le> bufp cc' \<and>
         operand (pc_cell cc' i) = int tbl \<and> get32 (buffer cc') (table_off E e) = of_nat tbl \<and>
         words_at (buffer cc') tbl (concat (rows_of E code e cc)))))"

definition switches_ok :: "(int \<Rightarrow> u8) \<Rightarrow> CompilerContext \<Rightarrow> nat \<Rightarrow> bool" where
  "switches_ok code cc i \<longleftrightarrow> (switches (pc_cell cc i) \<longrightarrow> switch_fits code (pc_cell cc i) \<and> targets_found code cc (pc_cell cc i))"

lemma region_same: "same_entries cc cc' \<Longrightarrow> region E (pc_cell cc' i) = region E (pc_cell cc i)"
  by (simp add: region_def same_entries_cell)

lemma table_request:
  assumes "switches e" "switch_fits code e" "targets_found code cc e"
  defines "argp \<equiv> ALIGNUP32 (byteoff e + 1)"
  defines "req \<equiv> (if opcode e = opc_tableswitch then (ntohl_at code (argp + 8) - ntohl_at code (argp + 4) + 2) * 8
                 else (ntohl_at code (argp + 4) + 1) * 12)"
  shows "4 * length (concat (rows_of E code e cc)) \<le> unat (of_int req :: u32)"
proof -
  note r = rows_of [OF assms(1-3), of E]
  have l: "4 * length (concat (rows_of E code e cc)) = 4 * (row_length e * length (switch_offsets code (byteoff e) (opcode e)))"
    using length_concat_width [OF r(2)] r(3) by simp
  have f: "int (4 * (row_length e * length (switch_offsets code (byteoff e) (opcode e)))) = req" "0 \<le> req" "req < 4294967296"
    using assms(2) unfolding switch_fits_def length_switch_offsets Let_def argp_def [symmetric] req_def row_length_def
    by (auto split: if_splits)
  then have "uint (of_int req :: u32) = req" by (simp add: uint_word_of_int)
  then have "int (unat (of_int req :: u32)) = req" by simp
  with f(1) l show ?thesis by linarith
qed

lemma resolve_entry_ok:
  assumes "room_ok cc" "i < pctablelen cc" "ends_ok info" "links_ok E info (buffer cc) (pc_cell cc i)"
    and "region E (pc_cell cc i) \<subseteq> {..<bufp cc}" "switches_ok code cc i"
  obtains cc' where "resolve_ers_entry E info code i cc = Inr cc'" "room_ok cc'" "same_entries cc cc'"
    "entry_resolved E info code cc i cc'" "bufp cc \<le> bufp cc'" "length (buffer cc) \<le> length (buffer cc')"
    "\<forall>k < bufp cc. k \<notin> region E (pc_cell cc i) \<longrightarrow> buffer cc' ! k = buffer cc ! k"
    "\<forall>j. j \<noteq> i \<longrightarrow> pc_cell cc' j = pc_cell cc j" "switches (pc_cell cc i) \<or> bufp cc' = bufp cc"
proof -
  let ?e = "pc_cell cc i" and ?ps = "link_patches E info (buffer cc) (pc_cell cc i)"
  let ?b = "apply_patches ?ps (buffer cc)"
  let ?c = "cc\<lparr>buffer := ?b\<rparr>"
  have run: "resolve_ers_entry E info code i cc = switch_table E code i ?c"
    by (simp add: resolve_ers_entry_def Let_def link_entry_patches [OF assms(4)])
  have ok: "\<forall>p \<in> set ?ps. patch_ok p" by (intro ballI link_patches_ok [OF assms(3)])
  have "\<forall>p \<in> set ?ps. patch_ok p \<and> needs p (buffer cc)" "disjoint_cells ?ps"
    using assms(4) ok by (simp_all add: links_ok_def disjoint_cells_def sorted_wrt_append)
  note p = patches_apply [OF this]
  have sub: "\<forall>p \<in> set ?ps. cells p \<subseteq> region E ?e" using assms(4) by (simp add: links_ok_def)
  have out: "?b ! k = buffer cc ! k" if "k \<notin> region E ?e" for k
    using p(2) sub that by blast
  have room: "room_ok ?c" using assms(1) p(1) by (simp add: room_ok_def cc_ok_def)
  have cell: "pc_cell ?c j = pc_cell cc j" for j by (simp add: pc_cell_def)
  show ?thesis
  proof (cases "switches ?e")
    case False
    then have "switch_table E code i ?c = Inr ?c" by (simp add: switch_table_def cell switches_def Let_def)
    then show ?thesis
      using that [of ?c] run room p False out
      by (simp add: entry_resolved_def Let_def cell)
  next
    case True
    let ?k = "if opcode ?e = opc_tableswitch then 2 else 1 :: nat" and ?argp = "ALIGNUP32 (byteoff ?e + 1)"
    let ?req = "if opcode ?e = opc_tableswitch then (ntohl_at code (?argp + 8) - ntohl_at code (?argp + 4) + 2) * 8
                else (ntohl_at code (?argp + 4) + 1) * 12"
    let ?rs = "rows_of E code ?e cc" and ?tbl = "align4 (bufp cc)"
    from True assms(6) have sw: "switch_fits code ?e" "targets_found code cc ?e" by (simp_all add: switches_ok_def)
    have run2: "switch_table E code i ?c = append_rows E i ?k (of_int ?req) (switch_rows E code ?e) ?c"
      using True by (auto simp: switch_table_def cell switches_def Let_def switch_rows_eta)
    have same: "same_entries cc ?c" by simp
    have rows: "\<forall>cc'. same_entries ?c cc' \<longrightarrow> switch_rows E code ?e cc' = Inr ?rs"
    proof (intro allI impI)
      fix cc' assume "same_entries ?c cc'"
      then have "same_entries cc cc'" by simp
      from switch_rows_same [OF this refl refl refl] rows_of(1) [OF True sw] show "switch_rows E code ?e cc' = Inr ?rs"
        by (rule trans)
    qed
    have tp: "table_patches E 0 ?e = [word_patch (table_off E ?e) 0]" using True by (simp add: table_patches_def)
    have tab: "needs (word_patch (table_off E ?e) 0) (buffer cc)" "cells (word_patch (table_off E ?e) 0) \<subseteq> region E ?e"
      "\<forall>p \<in> set ?ps. cells p \<inter> cells (word_patch (table_off E ?e) 0) = {}"
      using assms(4) unfolding links_ok_def tp disjoint_cells_def sorted_wrt_append by (simp_all add: Int_commute)
    let ?t = "table_off E ?e"
    have toff: "unat (nativeoff (pc_cell ?c i)) + const_table E (pc_cell ?c i) ! ?k = ?t"
      by (simp add: cell table_off_def)
    have tend: "?t + 4 \<le> bufp cc"
    proof -
      have "?t + 3 \<in> cells (word_patch ?t 0)" by (simp add: word_patch_def)
      then have "?t + 3 < bufp cc" using tab(2) assms(5) by blast
      then show ?thesis by simp
    qed
    from append_rows_ok [OF room _ rows table_request [OF True sw, of E], of i E ?k] toff tend assms(2) obtain cc' where
      c: "append_rows E i ?k (of_int ?req) (switch_rows E code ?e) ?c = Inr cc'" "room_ok cc'" "same_entries ?c cc'"
        "operand (pc_cell cc' i) = int ?tbl" "\<forall>j. j \<noteq> i \<longrightarrow> pc_cell cc' j = pc_cell ?c j"
        "bufp cc' = ?tbl + 4 * length (concat ?rs)" "words_at (buffer cc') ?tbl (concat ?rs)"
        "\<forall>k < bufp cc. buffer cc' ! k = put32 ?t (of_nat ?tbl) ?b ! k" "length ?b \<le> length (buffer cc')"
      by (auto simp: Let_def)
    have bl: "bufp cc \<le> length ?b" using assms(1) p(1) by (simp add: room_ok_def cc_ok_def)
    have al: "bufp cc \<le> ?tbl" by (rule align4(1))
    have put: "put32 ?t (of_nat ?tbl) ?b ! k = ?b ! k" if "k \<notin> cells (word_patch ?t 0)" for k
      using that tend bl by (intro nth_put32_other) (auto simp: word_patch_def)
    have given: "gives q (buffer cc')" if q: "q \<in> set ?ps" for q
    proof -
      have "agree_on (cells q) ?b (buffer cc')"
        unfolding agree_on_def
      proof (intro conjI ballI)
        fix k assume k: "k \<in> cells q"
        with q sub assms(5) have "k < bufp cc" by blast
        moreover have "k \<notin> cells (word_patch ?t 0)" using tab(3) q k by blast
        ultimately show "buffer cc' ! k = ?b ! k" using c(8) put by simp
      qed (rule c(9))
      moreover have "depends_on (cells q) (gives q)" using ok q by (simp add: patch_ok_def)
      ultimately show ?thesis using p(3) q depends_onD by blast
    qed
    have word: "get32 (buffer cc') ?t = of_nat ?tbl"
    proof -
      have "get32 (buffer cc') ?t = get32 (put32 ?t (of_nat ?tbl) ?b) ?t"
        by (rule get32_cong) (use c(8) tend in auto)
      then show ?thesis using tend bl by simp
    qed
    have outside: "buffer cc' ! k = buffer cc ! k" if "k < bufp cc" "k \<notin> region E ?e" for k
    proof -
      have "k \<notin> cells (word_patch ?t 0)" using tab(2) that(2) by blast
      then show ?thesis using c(8) that put out by simp
    qed
    show ?thesis
    proof (rule that [of cc'])
      show "resolve_ers_entry E info code i cc = Inr cc'" using run run2 c(1) by simp
      show "same_entries cc cc'" using c(3) by simp
      show "entry_resolved E info code cc i cc'"
        unfolding entry_resolved_def Let_def
        by (intro conjI ballI impI exI [of _ ?tbl]) (use given c al word in \<open>simp_all add: align4\<close>)
      show "bufp cc \<le> bufp cc'" using al c(6) by simp
      show "length (buffer cc) \<le> length (buffer cc')" using c(9) p(1) by simp
      show "\<forall>k < bufp cc. k \<notin> region E ?e \<longrightarrow> buffer cc' ! k = buffer cc ! k" using outside by blast
      show "\<forall>j. j \<noteq> i \<longrightarrow> pc_cell cc' j = pc_cell cc j" using c(5) cell by simp
    qed (use c(2) True in simp_all)
  qed
qed


subsection \<open>All entries\<close>

lemma site_at_cell: "site_arg (site_at b a) = a \<Longrightarrow> a - 1 \<in> site_cells (site_at b a)"
  by (auto simp: site_at_def site_arg_def site_cells_def site_start_def site_length_def split: if_splits)

lemma site_at_agree:
  assumes "site_arg (site_at b a) = a" "site_cells (site_at b a) \<subseteq> S" "agree_on S b b'"
  shows "site_at b' a = site_at b a"
  using site_at_cell [OF assms(1)] assms(2,3) by (auto simp: agree_on_def site_at_def)

lemma links_agree:
  assumes "links_ok E info b e" "agree_on (region E e) b b'"
  shows "link_patches E info b' e = link_patches E info b e" "links_ok E info b' e"
proof -
  have s: "site_at b' a = site_at b a" if "a \<in> set (exc_offs E e) \<union> set (ret_offs E e)" for a
  proof (rule site_at_agree [OF _ _ assms(2)])
    show "site_arg (site_at b a) = a" using assms(1) that by (auto simp: links_ok_def)
    obtain n where "far_patch n (site_at b a) \<in> set (link_patches E info b e)"
    proof (cases "a \<in> set (exc_offs E e)")
      case True
      then have "far_patch (unat (exc_handler_nativeoff info)) (site_at b a) \<in> set (link_patches E info b e)"
        by (simp add: link_patches_def)
      then show thesis by (rule that)
    next
      case False
      then have "far_patch (unat (finish_return_nativeoff info)) (site_at b a) \<in> set (link_patches E info b e)"
        using \<open>a \<in> set (exc_offs E e) \<union> set (ret_offs E e)\<close> by (simp add: link_patches_def)
      then show thesis by (rule that)
    qed
    then have "cells (far_patch n (site_at b a)) \<subseteq> region E e" using assms(1) by (simp add: links_ok_def)
    then show "site_cells (site_at b a) \<subseteq> region E e" by (simp add: far_patch_def)
  qed
  then show l: "link_patches E info b' e = link_patches E info b e" by (simp add: link_patches_def)
  have n: "needs p b'" if "p \<in> set (link_patches E info b e @ table_patches E 0 e)" for p
  proof -
    have "depends_on (cells p) (needs p)"
      using that is_site_agree
      by (auto simp: link_patches_def table_patches_def far_patch_def word_patch_def depends_on_def agree_on_def split: if_splits)
    moreover have "needs p b" "agree_on (cells p) b b'"
      using that assms by (auto simp: links_ok_def agree_on_def)
    ultimately show ?thesis using depends_onD by blast
  qed
  then show "links_ok E info b' e" using assms(1) s by (auto simp: links_ok_def l)
qed

lemma entry_resolved_kept:
  assumes "entry_resolved E info code cc i cc1" "links_ok E info (buffer cc) (pc_cell cc i)" "region E (pc_cell cc i) \<subseteq> {..<bufp cc}"
    and "\<forall>k < bufp cc1. k \<in> region E (pc_cell cc i) \<or> bufp cc \<le> k \<longrightarrow> buffer cc2 ! k = buffer cc1 ! k" "bufp cc \<le> bufp cc1"
    and "length (buffer cc1) \<le> length (buffer cc2)" "bufp cc1 \<le> bufp cc2" "operand (pc_cell cc2 i) = operand (pc_cell cc1 i)" "ends_ok info"
  shows "entry_resolved E info code cc i cc2"
proof -
  let ?e = "pc_cell cc i"
  have ag: "agree_on S (buffer cc1) (buffer cc2)" if "S \<subseteq> region E ?e" for S
    using assms(3-6) that by (auto simp: agree_on_def subset_iff dest: less_le_trans)
  have g: "gives p (buffer cc2)" if p: "p \<in> set (link_patches E info (buffer cc) ?e)" for p
  proof -
    have "gives p (buffer cc1)" using assms(1) p by (simp add: entry_resolved_def Let_def)
    moreover have "cells p \<subseteq> region E ?e" using assms(2) p by (simp add: links_ok_def)
    moreover have "depends_on (cells p) (gives p)" using link_patches_ok [OF assms(9) p] by (simp add: patch_ok_def)
    ultimately show ?thesis using ag depends_onD by blast
  qed
  have s: "\<exists>tbl. 4 dvd tbl \<and> bufp cc \<le> tbl \<and> tbl + 4 * length (concat (rows_of E code ?e cc)) \<le> bufp cc2 \<and>
         operand (pc_cell cc2 i) = int tbl \<and> get32 (buffer cc2) (table_off E ?e) = of_nat tbl \<and>
         words_at (buffer cc2) tbl (concat (rows_of E code ?e cc))" if sw: "switches ?e"
  proof -
    let ?ws = "concat (rows_of E code ?e cc)"
    from assms(1) sw obtain tbl where t: "4 dvd tbl" "bufp cc \<le> tbl" "tbl + 4 * length ?ws \<le> bufp cc1"
      "operand (pc_cell cc1 i) = int tbl" "get32 (buffer cc1) (table_off E ?e) = of_nat tbl" "words_at (buffer cc1) tbl ?ws"
      unfolding entry_resolved_def Let_def by blast
    have "agree_on {tbl..<tbl + 4 * length ?ws} (buffer cc1) (buffer cc2)"
      unfolding agree_on_def
    proof (intro conjI ballI)
      fix k assume "k \<in> {tbl..<tbl + 4 * length ?ws}"
      then have "k < bufp cc1" "bufp cc \<le> k" using t(2,3) by simp_all
      then show "buffer cc2 ! k = buffer cc1 ! k" using assms(4) by blast
    qed (rule assms(6))
    then have "words_at (buffer cc2) tbl ?ws" using words_at_depends t(6) depends_onD by metis
    moreover have "get32 (buffer cc2) (table_off E ?e) = of_nat tbl"
    proof -
      have "word_patch (table_off E ?e) 0 \<in> set (table_patches E 0 ?e)" using sw by (simp add: table_patches_def)
      then have "cells (word_patch (table_off E ?e) 0) \<subseteq> region E ?e" using assms(2) by (simp add: links_ok_def)
      from ag [OF this] have "\<forall>k < 4. buffer cc2 ! (table_off E ?e + k) = buffer cc1 ! (table_off E ?e + k)"
        by (simp add: agree_on_def word_patch_def)
      from get32_cong [OF this] t(5) show ?thesis by simp
    qed
    ultimately show ?thesis using t(1-4) assms(7,8) by (intro exI [of _ tbl]) simp
  qed
  show ?thesis unfolding entry_resolved_def Let_def using g s by blast
qed

definition pass_ready :: "env \<Rightarrow> CodeInfo \<Rightarrow> (int \<Rightarrow> u8) \<Rightarrow> CompilerContext \<Rightarrow> bool" where
  "pass_ready E info code cc \<longleftrightarrow> room_ok cc \<and> ends_ok info \<and>
     (\<forall>i < pctablelen cc. links_ok E info (buffer cc) (pc_cell cc i) \<and> region E (pc_cell cc i) \<subseteq> {..<bufp cc} \<and>
        switches_ok code cc i) \<and>
     (\<forall>i < pctablelen cc. \<forall>j < i. region E (pc_cell cc j) \<inter> region E (pc_cell cc i) = {})"

lemma rows_of_same:
  "same_entries cc cc' \<Longrightarrow> rows_of E code (pc_cell cc i) cc' = rows_of E code (pc_cell cc i) cc"
  by (simp add: rows_of_def switch_rows_same [OF _ refl refl refl])

lemma switches_ok_same: "same_entries cc cc' \<Longrightarrow> pc_cell cc' i = pc_cell cc i \<Longrightarrow> switches_ok code cc i \<Longrightarrow> switches_ok code cc' i"
  by (simp add: switches_ok_def targets_found_def found_def same_entries_getByPC)

lemma resolve_upto:
  assumes "pass_ready E info code cc" "m \<le> pctablelen cc"
  shows "\<exists>cc'. foldE (resolve_ers_entry E info code) [0..<m] cc = Inr cc' \<and> room_ok cc' \<and> same_entries cc cc' \<and>
    bufp cc \<le> bufp cc' \<and> length (buffer cc) \<le> length (buffer cc') \<and>
    (\<forall>i < m. entry_resolved E info code cc i cc') \<and>
    (\<forall>k < bufp cc. (\<forall>i < m. k \<notin> region E (pc_cell cc i)) \<longrightarrow> buffer cc' ! k = buffer cc ! k) \<and>
    (\<forall>j \<ge> m. pc_cell cc' j = pc_cell cc j)"
  using assms(2)
proof (induction m)
  case 0
  then show ?case using assms(1) by (simp add: pass_ready_def)
next
  case (Suc m)
  let ?e = "pc_cell cc m"
  from Suc obtain cc1 where r: "foldE (resolve_ers_entry E info code) [0..<m] cc = Inr cc1" "room_ok cc1" "same_entries cc cc1"
    "bufp cc \<le> bufp cc1" "length (buffer cc) \<le> length (buffer cc1)" "\<forall>i < m. entry_resolved E info code cc i cc1"
    and keep: "\<forall>k < bufp cc. (\<forall>i < m. k \<notin> region E (pc_cell cc i)) \<longrightarrow> buffer cc1 ! k = buffer cc ! k"
    and cell: "\<forall>j \<ge> m. pc_cell cc1 j = pc_cell cc j" by auto
  from assms(1) Suc.prems have e: "links_ok E info (buffer cc) ?e" "region E ?e \<subseteq> {..<bufp cc}" "switches_ok code cc m"
    "ends_ok info" "\<forall>j < m. region E (pc_cell cc j) \<inter> region E ?e = {}"
    by (simp_all add: pass_ready_def)
  have c1: "pc_cell cc1 m = ?e" using cell by simp
  have "agree_on (region E ?e) (buffer cc) (buffer cc1)"
    unfolding agree_on_def
  proof (intro conjI ballI)
    fix k assume "k \<in> region E ?e"
    then have "k < bufp cc" "\<forall>i < m. k \<notin> region E (pc_cell cc i)" using e(2,5) by blast+
    then show "buffer cc1 ! k = buffer cc ! k" using keep by blast
  qed (rule r(5))
  note la = links_agree [OF e(1) this]
  have m: "m < pctablelen cc1" using Suc.prems r(3) by (simp add: same_entries_def)
  have reg: "region E (pc_cell cc1 m) \<subseteq> {..<bufp cc1}"
  proof
    fix k assume "k \<in> region E (pc_cell cc1 m)"
    then have "k < bufp cc" using e(2) unfolding c1 by blast
    then show "k \<in> {..<bufp cc1}" using r(4) by simp
  qed
  have lk: "links_ok E info (buffer cc1) (pc_cell cc1 m)" using la(2) by (simp add: c1)
  have sk: "switches_ok code cc1 m" by (rule switches_ok_same [OF r(3) c1 e(3)])
  from resolve_entry_ok [OF r(2) m e(4) lk reg sk] obtain cc2 where
    s: "resolve_ers_entry E info code m cc1 = Inr cc2" "room_ok cc2" "same_entries cc1 cc2" "entry_resolved E info code cc1 m cc2"
      "bufp cc1 \<le> bufp cc2" "length (buffer cc1) \<le> length (buffer cc2)"
      "\<forall>k < bufp cc1. k \<notin> region E (pc_cell cc1 m) \<longrightarrow> buffer cc2 ! k = buffer cc1 ! k"
      "\<forall>j. j \<noteq> m \<longrightarrow> pc_cell cc2 j = pc_cell cc1 j" .
  have done_m: "entry_resolved E info code cc m cc2"
    using s(4) r(4) unfolding entry_resolved_def Let_def c1 la(1) rows_of_same [OF r(3)]
    by (blast intro: order.trans)
  have kept: "entry_resolved E info code cc i cc2" if i: "i < m" for i
  proof (rule entry_resolved_kept [OF r(6) [rule_format, OF i]])
    show "links_ok E info (buffer cc) (pc_cell cc i)" "region E (pc_cell cc i) \<subseteq> {..<bufp cc}"
      using assms(1) i Suc.prems by (simp_all add: pass_ready_def)
    show "\<forall>k < bufp cc1. k \<in> region E (pc_cell cc i) \<or> bufp cc \<le> k \<longrightarrow> buffer cc2 ! k = buffer cc1 ! k"
    proof (intro allI impI)
      fix k assume k: "k < bufp cc1" "k \<in> region E (pc_cell cc i) \<or> bufp cc \<le> k"
      from k(2) have "k \<notin> region E ?e" using e(2,5) i by auto
      with k(1) s(7) show "buffer cc2 ! k = buffer cc1 ! k" unfolding c1 by blast
    qed
    show "operand (pc_cell cc2 i) = operand (pc_cell cc1 i)" using s(8) i by simp
  qed (use r(4) s(5,6) e(4) in simp_all)
  show ?case
  proof (rule exI [of _ cc2], intro conjI)
    show "foldE (resolve_ers_entry E info code) [0..<Suc m] cc = Inr cc2"
      using r(1) s(1) by (simp add: foldE_append)
    show "same_entries cc cc2" by (rule same_entries_trans [OF r(3) s(3)])
    show "\<forall>i < Suc m. entry_resolved E info code cc i cc2" using done_m kept by (auto simp: less_Suc_eq)
    show "\<forall>k < bufp cc. (\<forall>i < Suc m. k \<notin> region E (pc_cell cc i)) \<longrightarrow> buffer cc2 ! k = buffer cc ! k"
    proof (intro allI impI)
      fix k assume k: "k < bufp cc" "\<forall>i < Suc m. k \<notin> region E (pc_cell cc i)"
      then have "buffer cc2 ! k = buffer cc1 ! k" using s(7) r(4) c1 by simp
      with k keep show "buffer cc2 ! k = buffer cc ! k" by simp
    qed
    show "\<forall>j \<ge> Suc m. pc_cell cc2 j = pc_cell cc j" using s(8) cell by simp
  qed (use s(2,5,6) r(4,5) in simp_all)
qed


lemma getByPC_found:
  assumes "cc_ok cc" "table_sorted cc" "d \<in> increasing_byteoff ` set (live cc)"
  shows "goes_to E lst (live cc) d = Some (tgt_row E lst cc d ! 0, tgt_row E lst cc d ! 1)" "found cc d"
  using getByPC_first_at [OF assms] by (auto simp: goes_to_def tgt_row_def tgt_words_def found_def)

lemma pass_resolves:
  fixes v :: vm and cc :: CompilerContext
  defines "m \<equiv> methods v (cc_mb cc)"
  assumes "pass_ready E (infos v (CompiledCodeInfo m)) (mb_code m) cc"
  obtains cc' where "resolveExcRetSwitch E (v, cc) = Inr cc'" "same_entries cc cc'" "room_ok cc'"
    "\<forall>i < pctablelen cc. entry_resolved E (infos v (CompiledCodeInfo m)) (mb_code m) cc i cc'"
    "\<forall>k < bufp cc. (\<forall>e \<in> set (live cc). k \<notin> region E e) \<longrightarrow> buffer cc' ! k = buffer cc ! k"
proof -
  have ok: "cc_ok cc" using assms(2) by (simp add: pass_ready_def room_ok_def)
  from resolve_upto [OF assms(2) order.refl] obtain cc' where
    c: "foldE (resolve_ers_entry E (infos v (CompiledCodeInfo m)) (mb_code m)) [0..<pctablelen cc] cc = Inr cc'"
      "same_entries cc cc'" "room_ok cc'" "\<forall>i < pctablelen cc. entry_resolved E (infos v (CompiledCodeInfo m)) (mb_code m) cc i cc'"
      "\<forall>k < bufp cc. (\<forall>i < pctablelen cc. k \<notin> region E (pc_cell cc i)) \<longrightarrow> buffer cc' ! k = buffer cc ! k"
    by blast
  have "resolveExcRetSwitch E (v, cc) = Inr cc'" using c(1) by (simp add: resolveExcRetSwitch_def m_def Let_def)
  moreover have "pc_cell cc i \<in> set (live cc)" if "i < pctablelen cc" for i
    using ok that by (simp add: pc_cell_live)
  ultimately show ?thesis using that [of cc'] c(2-5) by blast
qed

lemma live_cell:
  assumes "cc_ok cc" "e \<in> set (live cc)"
  obtains i where "i < pctablelen cc" "pc_cell cc i = e"
  using assms by (auto simp: in_set_conv_nth pc_cell_live)

text \<open>C14: The pass links the code of a method to its common ends: every slot for a program counter
holds the byte offset of its instruction, every jump to the exception handler, conditional or not,
long or shortened, goes to the handler, the jump of every return instruction goes to the code
that finishes the method, and outside the code of the instructions no byte has changed.\<close>
theorem common_ends_linked:
  assumes "pass_ready E (infos v (CompiledCodeInfo (methods v (cc_mb cc)))) (mb_code (methods v (cc_mb cc))) cc"
  defines "info \<equiv> infos v (CompiledCodeInfo (methods v (cc_mb cc)))"
  shows "\<exists>cc'. resolveExcRetSwitch E (v, cc) = Inr cc' \<and>
    (\<forall>e \<in> set (live cc).
       (\<forall>a \<in> set (pc_offs E e). get32 (buffer cc') a = of_int (increasing_byteoff e)) \<and>
       (\<forall>a \<in> set (exc_offs E e). jumps_to (buffer cc') (site_at (buffer cc) a) (uint (exc_handler_nativeoff info))) \<and>
       (\<forall>a \<in> set (ret_offs E e). jumps_to (buffer cc') (site_at (buffer cc) a) (uint (finish_return_nativeoff info)))) \<and>
    (\<forall>k < bufp cc. (\<forall>e \<in> set (live cc). k \<notin> region E e) \<longrightarrow> buffer cc' ! k = buffer cc ! k)"
proof -
  from pass_resolves [OF assms(1)] obtain cc' where c: "resolveExcRetSwitch E (v, cc) = Inr cc'"
    "\<forall>i < pctablelen cc. entry_resolved E info (mb_code (methods v (cc_mb cc))) cc i cc'"
    "\<forall>k < bufp cc. (\<forall>e \<in> set (live cc). k \<notin> region E e) \<longrightarrow> buffer cc' ! k = buffer cc ! k"
    unfolding info_def by metis
  have ok: "cc_ok cc" using assms(1) by (simp add: pass_ready_def room_ok_def)
  have "(\<forall>a \<in> set (pc_offs E e). get32 (buffer cc') a = of_int (increasing_byteoff e)) \<and>
       (\<forall>a \<in> set (exc_offs E e). jumps_to (buffer cc') (site_at (buffer cc) a) (uint (exc_handler_nativeoff info))) \<and>
       (\<forall>a \<in> set (ret_offs E e). jumps_to (buffer cc') (site_at (buffer cc) a) (uint (finish_return_nativeoff info)))"
    if e: "e \<in> set (live cc)" for e
  proof -
    from live_cell [OF ok e] obtain i where "i < pctablelen cc" "pc_cell cc i = e" .
    with c(2) have "\<forall>p \<in> set (link_patches E info (buffer cc) e). gives p (buffer cc')"
      by (auto simp: entry_resolved_def Let_def)
    then show ?thesis by (auto simp: link_patches_def word_patch_def far_patch_def ball_Un)
  qed
  with c(1,3) show ?thesis by blast
qed

definition int32 :: "int \<Rightarrow> bool" where
  "int32 v \<longleftrightarrow> - 2147483648 \<le> v \<and> v < 2147483648"

lemma tableswitch_goes:
  assumes "opcode e = opc_tableswitch" "switch_fits code e" "cc_ok cc" "table_sorted cc" "int32 v"
    and "\<forall>off \<in> set (switch_offsets code (byteoff e) (opcode e)). byteoff e + off \<in> increasing_byteoff ` set (live cc)"
    and "words_at b tbl (concat (rows_of E code e cc))"
  defines "argp \<equiv> ALIGNUP32 (byteoff e + 1)"
  shows "Some (TBLSW b (of_int (ntohl_at code (argp + 4))) (of_int (ntohl_at code (argp + 8))) tbl (of_int v)) =
    goes_to E (ct_last_state E (opcode e) (pcentryState e)) (live cc) (tableswitch_dest code (byteoff e) v)"
proof -
  let ?l = "ntohl_at code (argp + 4)" and ?h = "ntohl_at code (argp + 8)" and ?offs = "switch_offsets code (byteoff e) (opcode e)"
  let ?lst = "ct_last_state E (opcode e) (pcentryState e)"
  have tf: "targets_found code cc e" using assms(6) getByPC_found(2) [OF assms(3,4)] by (simp add: targets_found_def)
  have sw: "switches e" using assms(1) by (simp add: switches_def)
  have lh: "?l \<le> ?h" using assms(1,2) by (simp add: switch_fits_def argp_def Let_def)
  have rs: "rows_of E code e cc = map (\<lambda>off. tgt_row E ?lst cc (byteoff e + off)) ?offs"
    using tableswitch_rows [OF assms(1,2) tf [unfolded targets_found_def], of E] assms(1) by (simp add: rows_of_def switch_rows_def)
  define j where "j = (if ?l \<le> v \<and> v \<le> ?h then nat (v - ?l) + 1 else 0)"
  have len: "length ?offs = nat (?h - ?l + 1) + 1" by (simp add: length_switch_offsets assms(1) argp_def Let_def)
  have j: "j < length ?offs" unfolding len j_def by auto
  have off: "byteoff e + ?offs ! j = tableswitch_dest code (byteoff e) v"
    using j unfolding tableswitch_dest_def switch_offsets_def Let_def j_def argp_def [symmetric] by (auto simp: assms(1))
  have lr: "\<forall>r \<in> set (rows_of E code e cc). length r = 2"
    using rows_of(2) [OF sw assms(2) tf] assms(1) by (simp add: row_length_def)
  have "TBLSW b (of_int ?l) (of_int ?h) tbl (of_int v) = (rows_of E code e cc ! j ! 0, rows_of E code e cc ! j ! 1)"
    using TBLSW_row [OF assms(7) lr _ lh _ _ _ _, of v] assms(5) ntohl_range len
    by (simp add: rs j_def int32_def)
  moreover have "byteoff e + ?offs ! j \<in> increasing_byteoff ` set (live cc)" using assms(6) j by simp
  from getByPC_found(1) [OF assms(3,4) this, of E ?lst]
  have "goes_to E ?lst (live cc) (byteoff e + ?offs ! j) = Some (rows_of E code e cc ! j ! 0, rows_of E code e cc ! j ! 1)"
    using j by (simp add: rs)
  ultimately show ?thesis by (simp add: off)
qed

lemma lookupswitch_goes:
  assumes "opcode e = opc_lookupswitch" "switch_fits code e" "cc_ok cc" "table_sorted cc" "int32 v"
    and "\<forall>off \<in> set (switch_offsets code (byteoff e) (opcode e)). byteoff e + off \<in> increasing_byteoff ` set (live cc)"
    and "words_at b tbl (concat (rows_of E code e cc))"
  defines "argp \<equiv> ALIGNUP32 (byteoff e + 1)"
  shows "Some (LUSW b (of_int (ntohl_at code (argp + 4))) tbl (of_int v)) =
    goes_to E (ct_last_state E (opcode e) (pcentryState e)) (live cc) (lookupswitch_dest code (byteoff e) v)"
proof -
  let ?offs = "switch_offsets code (byteoff e) (opcode e)" and ?lst = "ct_last_state E (opcode e) (pcentryState e)"
  define n where "n = nat (ntohl_at code (argp + 4))"
  define m where "m = (\<lambda>j. ntohl_at code (argp + 8 + 8 * int j))"
  define tgt where "tgt = (\<lambda>j. if j < n then ntohl_at code (argp + 12 + 8 * int j) else ntohl_at code argp)"
  have np: "0 \<le> ntohl_at code (argp + 4)" "ntohl_at code (argp + 4) < 65536"
    using assms(1,2) by (simp_all add: switch_fits_def argp_def Let_def)
  have tf: "targets_found code cc e" using assms(6) getByPC_found(2) [OF assms(3,4)] by (simp add: targets_found_def)
  have sw: "switches e" using assms(1) by (simp add: switches_def)
  have rs: "rows_of E code e cc = map (\<lambda>j. of_int (m j) # tgt_row E ?lst cc (byteoff e + tgt j)) [0..<n]
      @ [0 # tgt_row E ?lst cc (byteoff e + tgt n)]"
    using lookupswitch_rows [OF assms(1) tf [unfolded targets_found_def], of E] assms(1)
    by (simp add: rows_of_def switch_rows_def argp_def n_def m_def tgt_def)
  define j where "j = pair_row m n v"
  have j: "j \<le> n" unfolding j_def by (rule pair_row_le)
  have row: "rows_of E code e cc ! j ! Suc k = tgt_row E ?lst cc (byteoff e + tgt j) ! k" for k
    using j by (cases "j < n") (simp_all add: rs nth_append)
  have dest: "byteoff e + tgt j = lookupswitch_dest code (byteoff e) v"
  proof -
    have "(case find (\<lambda>j. m j = v) [0..<n] of None \<Rightarrow> True | Some j \<Rightarrow> j < n)"
      by (auto split: option.split dest!: find_Some_iff [THEN iffD1])
    then show ?thesis
      unfolding lookupswitch_dest_def Let_def j_def pair_row_def argp_def [symmetric] n_def [symmetric] m_def [symmetric]
      by (auto simp: tgt_def m_def split: option.splits)
  qed
  have lr: "\<forall>r \<in> set (rows_of E code e cc). length r = 3"
    using rows_of(2) [OF sw assms(2) tf] assms(1) by (simp add: row_length_def)
  have "LUSW b (of_nat n) tbl (of_int v) = (rows_of E code e cc ! j ! 1, rows_of E code e cc ! j ! 2)"
    unfolding j_def using np assms(5) ntohl_range
    by (intro LUSW_row [OF assms(7) lr]) (simp_all add: rs n_def m_def int32_def nth_append)
  then have "LUSW b (of_int (ntohl_at code (argp + 4))) tbl (of_int v) =
      (tgt_row E ?lst cc (byteoff e + tgt j) ! 0, tgt_row E ?lst cc (byteoff e + tgt j) ! 1)"
    using row [of 0] row [of 1] np(1) by (simp add: n_def numeral_2_eq_2)
  moreover have "tgt j \<in> set ?offs"
    using j np(1) by (auto simp: switch_offsets_def Let_def assms(1) argp_def tgt_def n_def image_iff algebra_simps)
  then have "byteoff e + tgt j \<in> increasing_byteoff ` set (live cc)" using assms(6) by blast
  from getByPC_found(1) [OF assms(3,4) this, of E ?lst]
  have "goes_to E ?lst (live cc) (byteoff e + tgt j) =
      Some (tgt_row E ?lst cc (byteoff e + tgt j) ! 0, tgt_row E ?lst cc (byteoff e + tgt j) ! 1)" .
  ultimately show ?thesis by (simp add: dest)
qed

text \<open>C15: Switches are compiled correctly: behind the code of the method stands, at a multiple of
four, a table for every switch, whose offset is in the code of the switch and in its entry; for
every key the code that reads the table goes to the first instruction at the byte offset which
the semantics of the bytecode gives for the key, through the trampoline from the state behind the
switch to the state this instruction expects.\<close>
theorem switches_dispatch:
  assumes "pass_ready E (infos v (CompiledCodeInfo (methods v (cc_mb cc)))) (mb_code (methods v (cc_mb cc))) cc" "table_sorted cc"
  defines "code \<equiv> mb_code (methods v (cc_mb cc))"
  assumes "\<forall>e \<in> set (live cc). switches e \<longrightarrow>
      (\<forall>off \<in> set (switch_offsets code (byteoff e) (opcode e)). byteoff e + off \<in> increasing_byteoff ` set (live cc))"
  shows "\<exists>cc'. resolveExcRetSwitch E (v, cc) = Inr cc' \<and>
    (\<forall>i < pctablelen cc. \<forall>e. e = live cc ! i \<and> switches e \<longrightarrow>
       (\<exists>tbl. tbl mod 4 = 0 \<and> bufp cc \<le> tbl \<and> operand (live cc' ! i) = int tbl \<and>
          get32 (buffer cc') (table_off E e) = of_nat tbl \<and>
          (let argp = ALIGNUP32 (byteoff e + 1); goes = goes_to E (ct_last_state E (opcode e) (pcentryState e)) (live cc) in
           \<forall>x. int32 x \<longrightarrow>
             (if opcode e = opc_tableswitch
              then Some (TBLSW (buffer cc') (of_int (ntohl_at code (argp + 4))) (of_int (ntohl_at code (argp + 8))) tbl (of_int x))
                = goes (tableswitch_dest code (byteoff e) x)
              else Some (LUSW (buffer cc') (of_int (ntohl_at code (argp + 4))) tbl (of_int x))
                = goes (lookupswitch_dest code (byteoff e) x)))))"
proof -
  from pass_resolves [OF assms(1)] obtain cc' where c: "resolveExcRetSwitch E (v, cc) = Inr cc'" "same_entries cc cc'" "room_ok cc'"
    "\<forall>i < pctablelen cc. entry_resolved E (infos v (CompiledCodeInfo (methods v (cc_mb cc)))) code cc i cc'"
    unfolding code_def by metis
  have ok: "cc_ok cc" "cc_ok cc'" using assms(1) c(3) by (simp_all add: pass_ready_def room_ok_def)
  have "\<exists>tbl. tbl mod 4 = 0 \<and> bufp cc \<le> tbl \<and> operand (live cc' ! i) = int tbl \<and>
          get32 (buffer cc') (table_off E e) = of_nat tbl \<and>
          (let argp = ALIGNUP32 (byteoff e + 1); goes = goes_to E (ct_last_state E (opcode e) (pcentryState e)) (live cc) in
           \<forall>x. int32 x \<longrightarrow>
             (if opcode e = opc_tableswitch
              then Some (TBLSW (buffer cc') (of_int (ntohl_at code (argp + 4))) (of_int (ntohl_at code (argp + 8))) tbl (of_int x))
                = goes (tableswitch_dest code (byteoff e) x)
              else Some (LUSW (buffer cc') (of_int (ntohl_at code (argp + 4))) tbl (of_int x))
                = goes (lookupswitch_dest code (byteoff e) x)))"
    if i: "i < pctablelen cc" and e: "e = live cc ! i" "switches e" for i e
  proof -
    have cell: "pc_cell cc i = e" "pc_cell cc' i = live cc' ! i"
      using i e(1) ok c(2) by (simp_all add: pc_cell_live same_entries_def)
    from c(4) i e(2) obtain tbl where t: "4 dvd tbl" "bufp cc \<le> tbl" "operand (live cc' ! i) = int tbl"
      "get32 (buffer cc') (table_off E e) = of_nat tbl" "words_at (buffer cc') tbl (concat (rows_of E code e cc))"
      unfolding entry_resolved_def Let_def by (metis cell)
    have f: "switch_fits code e" using assms(1) i e(2) cell(1) by (auto simp: pass_ready_def switches_ok_def code_def)
    have tg: "\<forall>off \<in> set (switch_offsets code (byteoff e) (opcode e)). byteoff e + off \<in> increasing_byteoff ` set (live cc)"
      using assms(4) i e ok(1) by (metis length_live nth_mem)
    show ?thesis
    proof (rule exI [of _ tbl], unfold Let_def, intro conjI allI impI)
      fix x assume x: "int32 x"
      show "if opcode e = opc_tableswitch
        then Some (TBLSW (buffer cc') (of_int (ntohl_at code (ALIGNUP32 (byteoff e + 1) + 4)))
                (of_int (ntohl_at code (ALIGNUP32 (byteoff e + 1) + 8))) tbl (of_int x))
          = goes_to E (ct_last_state E (opcode e) (pcentryState e)) (live cc) (tableswitch_dest code (byteoff e) x)
        else Some (LUSW (buffer cc') (of_int (ntohl_at code (ALIGNUP32 (byteoff e + 1) + 4))) tbl (of_int x))
          = goes_to E (ct_last_state E (opcode e) (pcentryState e)) (live cc) (lookupswitch_dest code (byteoff e) x)"
        using tableswitch_goes [OF _ f ok(1) assms(2) x tg t(5)] lookupswitch_goes [OF _ f ok(1) assms(2) x tg t(5)] e(2)
        by (auto simp: switches_def)
    qed (use t in auto)
  qed
  then show ?thesis using c(1) by blast
qed


subsection \<open>Witnesses\<close>

definition ends_env :: env where
  \<comment> \<open>a switch, an instruction that may throw, and a return; for witnesses\<close>
  "ends_env = code_env\<lparr>
     ct_code := (\<lambda>opc st. if opc = opc_tableswitch then replicate 16 0x90
       else if opc = opc_athrow then [0xb8, 0, 0, 0, 0, 0xe9, 0, 0, 0, 0] else [0xe9, 0, 0, 0, 0]),
     ct_last_state := (\<lambda>_ _. 0), ct_offset := (\<lambda>opc st. of_nat (16 * opc + st)),
     constant_table := (\<lambda>opc st. if opc = opc_tableswitch then [1, 6, 11] else [1]),
     bytepc_table := (\<lambda>opc st. if opc = opc_athrow then [1, 0] else [0]),
     jumpexc_table := (\<lambda>opc st. if opc = opc_athrow then [6, 0] else [0])\<rparr>"

definition ends_code :: "u8 list" where
  \<comment> \<open>\<open>tableswitch 0 to 0: 17, default: 16\<close>, \<open>athrow\<close> at 16 and \<open>return\<close> at 17\<close>
  "ends_code = [170, 0, 0, 0, 0, 0, 0, 16, 0, 0, 0, 0, 0, 0, 0, 0, 0, 0, 0, 17]"

definition ends_vm :: vm where
  "ends_vm = loop_vm\<lparr>methods := (\<lambda>m. (methods loop_vm m)\<lparr>mb_code := loop_code ends_code\<rparr>),
     infos := (\<lambda>p. (infos loop_vm p)\<lparr>exc_handler_nativeoff := 40, finish_return_nativeoff := 4000\<rparr>)\<rparr>"

definition plain_entry :: "nat \<Rightarrow> int \<Rightarrow> u32 \<Rightarrow> pcentry" where
  "plain_entry opc p n = \<lparr>opcode = opc, flag = 0, operand = -1, byteoff = p, increasing_byteoff = p, nativeoff = n\<rparr>"

definition ends_cc :: CompilerContext where
  "ends_cc = fresh_cc\<lparr>buffer := replicate 16 0x90 @ [0xb8, 0, 0, 0, 0, 0xe9, 0, 0, 0, 0] @ [0xe9, 0, 0, 0, 0] @ replicate 33 0,
     buf_size := 64, bufp := 31, pctable := [plain_entry opc_tableswitch 0 0, plain_entry opc_athrow 16 16, plain_entry opc_return 17 26],
     pctablelen := 3, pctablesize := 3\<rparr>"

lemma plain_entry [simp]:
  "opcode (plain_entry opc p n) = opc" "byteoff (plain_entry opc p n) = p" "increasing_byteoff (plain_entry opc p n) = p"
  "nativeoff (plain_entry opc p n) = n" "pcentryState (plain_entry opc p n) = 0"
  by (simp_all add: plain_entry_def pcentryState_def)

lemma ends_cells:
  "pc_cell ends_cc 0 = plain_entry opc_tableswitch 0 0" "pc_cell ends_cc (Suc 0) = plain_entry opc_athrow 16 16"
  "pc_cell ends_cc 2 = plain_entry opc_return 17 26" "pctablelen ends_cc = 3" "bufp ends_cc = 31"
  "live ends_cc = [plain_entry opc_tableswitch 0 0, plain_entry opc_athrow 16 16, plain_entry opc_return 17 26]"
  by (simp_all add: ends_cc_def pc_cell_def live_def)

lemma ends_room: "room_ok ends_cc"
  using fresh_cc_ok by (simp add: room_ok_def cc_ok_def ends_cc_def)

lemma ends_code_words:
  "ALIGNUP32 1 = 4" "ntohl_at (loop_code ends_code) 4 = 16" "ntohl_at (loop_code ends_code) 8 = 0"
  "ntohl_at (loop_code ends_code) 12 = 0" "ntohl_at (loop_code ends_code) 16 = 17"
  by (simp_all add: ALIGNUP32_def ntohl_at_def GET_INT32_def loop_code_def ends_code_def)

lemma ends_offsets: "switch_offsets (loop_code ends_code) 0 opc_tableswitch = [16, 17]"
  by (simp add: switch_offsets_def Let_def ends_code_words)

lemma ends_sorted: "table_sorted ends_cc"
  by (simp add: table_sorted_def ends_cells)

lemma ends_ready:
  "pass_ready ends_env (infos ends_vm (CompiledCodeInfo (methods ends_vm (cc_mb ends_cc)))) (mb_code (methods ends_vm (cc_mb ends_cc))) ends_cc"
proof -
  let ?info = "infos ends_vm (CompiledCodeInfo (methods ends_vm (cc_mb ends_cc)))"
  have code: "mb_code (methods ends_vm (cc_mb ends_cc)) = loop_code ends_code" by (simp add: ends_vm_def)
  have info: "exc_handler_nativeoff ?info = 40" "finish_return_nativeoff ?info = 4000" by (simp_all add: ends_vm_def)
  have reg: "region ends_env (plain_entry opc_tableswitch 0 0) = {0..<16}" "region ends_env (plain_entry opc_athrow 16 16) = {16..<26}"
    "region ends_env (plain_entry opc_return 17 26) = {26..<31}"
    by (simp_all add: region_def ends_env_def)
  have offs: "pc_offs ends_env (plain_entry opc_tableswitch 0 0) = []" "exc_offs ends_env (plain_entry opc_tableswitch 0 0) = []"
    "ret_offs ends_env (plain_entry opc_tableswitch 0 0) = []" "table_off ends_env (plain_entry opc_tableswitch 0 0) = 11"
    "pc_offs ends_env (plain_entry opc_athrow 16 16) = [17]" "exc_offs ends_env (plain_entry opc_athrow 16 16) = [22]"
    "ret_offs ends_env (plain_entry opc_athrow 16 16) = []" "pc_offs ends_env (plain_entry opc_return 17 26) = []"
    "exc_offs ends_env (plain_entry opc_return 17 26) = []" "ret_offs ends_env (plain_entry opc_return 17 26) = [27]"
    by (simp_all add: pc_offs_def exc_offs_def ret_offs_def table_off_def table_offs_def ends_env_def)
  have sites: "site_at (buffer ends_cc) 22 = Uncond 21" "site_at (buffer ends_cc) 27 = Uncond 26"
    "is_site (buffer ends_cc) (Uncond 21)" "is_site (buffer ends_cc) (Uncond 26)" "length (buffer ends_cc) = 64"
    by (simp_all add: site_at_def is_site_def site_start_def site_length_def ends_cc_def nth_append)
  have "links_ok ends_env ?info (buffer ends_cc) (plain_entry opc_tableswitch 0 0)"
    by (simp add: links_ok_def link_patches_def table_patches_def offs reg switches_def disjoint_cells_def word_patch_def sites)
  moreover have "links_ok ends_env ?info (buffer ends_cc) (plain_entry opc_athrow 16 16)"
    by (auto simp: links_ok_def link_patches_def table_patches_def offs reg switches_def disjoint_cells_def word_patch_def
        far_patch_def site_cells_def site_start_def site_length_def site_arg_def sites)
  moreover have "links_ok ends_env ?info (buffer ends_cc) (plain_entry opc_return 17 26)"
    by (auto simp: links_ok_def link_patches_def table_patches_def offs reg switches_def disjoint_cells_def
        far_patch_def site_cells_def site_start_def site_length_def site_arg_def sites)
  moreover have "switches_ok (loop_code ends_code) ends_cc i" if "i < 3" for i
  proof -
    have "found ends_cc 16" "found ends_cc 17"
      using getByPC_found(2) [of ends_cc] ends_room ends_sorted by (simp_all add: room_ok_def ends_cells)
    moreover have "i = 0 \<or> i = 1 \<or> i = 2" using that by auto
    ultimately show ?thesis
      by (auto simp: switches_ok_def ends_cells switches_def switch_fits_def targets_found_def Let_def ends_code_words ends_offsets)
  qed
  moreover have three: "i = 0 \<or> i = Suc 0 \<or> i = 2" if "i < 3" for i :: nat using that by auto
  ultimately have each: "links_ok ends_env ?info (buffer ends_cc) (pc_cell ends_cc i) \<and> region ends_env (pc_cell ends_cc i) \<subseteq> {..<31} \<and>
      switches_ok (loop_code ends_code) ends_cc i" if i: "i < 3" for i
    using three [OF i] i by (elim disjE) (simp_all add: ends_cells reg subset_iff)
  have apart: "region ends_env (pc_cell ends_cc j) \<inter> region ends_env (pc_cell ends_cc i) = {}" if "i < 3" "j < i" for i j
  proof -
    have "i = Suc 0 \<and> j = 0 \<or> i = 2 \<and> j = 0 \<or> i = 2 \<and> j = Suc 0" using that by auto
    then show ?thesis by (elim disjE conjE) (simp_all add: ends_cells reg)
  qed
  have "ends_ok ?info" by (simp add: ends_ok_def info)
  with each apart ends_room show ?thesis
    unfolding pass_ready_def ends_cells code by blast
qed

theorem common_ends_linked_witness:
  "\<exists>cc'. resolveExcRetSwitch ends_env (ends_vm, ends_cc) = Inr cc' \<and> get32 (buffer cc') 17 = 16 \<and>
    jumps_to (buffer cc') (Uncond 21) 40 \<and> jumps_to (buffer cc') (Uncond 26) 4000"
proof -
  from common_ends_linked [OF ends_ready] obtain cc' where c: "resolveExcRetSwitch ends_env (ends_vm, ends_cc) = Inr cc'"
    "\<forall>e \<in> set (live ends_cc).
       (\<forall>a \<in> set (pc_offs ends_env e). get32 (buffer cc') a = of_int (increasing_byteoff e)) \<and>
       (\<forall>a \<in> set (exc_offs ends_env e). jumps_to (buffer cc') (site_at (buffer ends_cc) a) (uint (40 :: u32))) \<and>
       (\<forall>a \<in> set (ret_offs ends_env e). jumps_to (buffer cc') (site_at (buffer ends_cc) a) (uint (4000 :: u32)))"
    by (auto simp: ends_vm_def)
  have "site_at (buffer ends_cc) 22 = Uncond 21" "site_at (buffer ends_cc) 27 = Uncond 26"
    by (simp_all add: site_at_def ends_cc_def nth_append)
  with c(2) have "get32 (buffer cc') 17 = 16" "jumps_to (buffer cc') (Uncond 21) 40" "jumps_to (buffer cc') (Uncond 26) 4000"
    by (simp_all add: ends_cells pc_offs_def exc_offs_def ret_offs_def table_offs_def ends_env_def)
  with c(1) show ?thesis by blast
qed

theorem switches_dispatch_witness:
  "\<exists>cc' tbl. resolveExcRetSwitch ends_env (ends_vm, ends_cc) = Inr cc' \<and> TBLSW (buffer cc') 0 0 tbl 0 = (26, 4736) \<and>
    TBLSW (buffer cc') 0 0 tbl 7 = (16, 4736)"
proof -
  let ?e = "plain_entry opc_tableswitch 0 0"
  have code: "mb_code (methods ends_vm (cc_mb ends_cc)) = loop_code ends_code" by (simp add: ends_vm_def)
  have "\<forall>e \<in> set (live ends_cc). switches e \<longrightarrow> (\<forall>off \<in> set (switch_offsets (loop_code ends_code) (byteoff e) (opcode e)).
      byteoff e + off \<in> increasing_byteoff ` set (live ends_cc))"
    by (simp add: ends_cells switches_def ends_offsets)
  from switches_dispatch [OF ends_ready ends_sorted, unfolded code, OF this] obtain cc' where
    c: "resolveExcRetSwitch ends_env (ends_vm, ends_cc) = Inr cc'" and
    d: "\<forall>i < 3. \<forall>e. e = live ends_cc ! i \<and> switches e \<longrightarrow> (\<exists>tbl. tbl mod 4 = 0 \<and> 31 \<le> tbl \<and> operand (live cc' ! i) = int tbl \<and>
        get32 (buffer cc') (table_off ends_env e) = of_nat tbl \<and>
        (let argp = ALIGNUP32 (byteoff e + 1); goes = goes_to ends_env (ct_last_state ends_env (opcode e) (pcentryState e)) (live ends_cc) in
         \<forall>x. int32 x \<longrightarrow> (if opcode e = opc_tableswitch
            then Some (TBLSW (buffer cc') (of_int (ntohl_at (loop_code ends_code) (argp + 4)))
                (of_int (ntohl_at (loop_code ends_code) (argp + 8))) tbl (of_int x)) = goes (tableswitch_dest (loop_code ends_code) (byteoff e) x)
            else Some (LUSW (buffer cc') (of_int (ntohl_at (loop_code ends_code) (argp + 4))) tbl (of_int x))
                = goes (lookupswitch_dest (loop_code ends_code) (byteoff e) x))))"
    unfolding ends_cells(4,5) by blast
  from d [rule_format, of 0 ?e] obtain tbl where
    t: "\<forall>x. int32 x \<longrightarrow> Some (TBLSW (buffer cc') 0 0 tbl (of_int x)) =
      goes_to ends_env 0 (live ends_cc) (tableswitch_dest (loop_code ends_code) 0 x)"
    by (auto simp: ends_cells switches_def Let_def ends_code_words ends_env_def)
  have "tableswitch_dest (loop_code ends_code) 0 0 = 17" "tableswitch_dest (loop_code ends_code) 0 7 = 16"
    by (simp_all add: tableswitch_dest_def Let_def ends_code_words)
  moreover have "goes_to ends_env 0 (live ends_cc) 17 = Some (26, 4736)" "goes_to ends_env 0 (live ends_cc) 16 = Some (16, 4736)"
    by (simp_all add: goes_to_def first_at_def ends_cells ends_env_def)
  ultimately have "TBLSW (buffer cc') 0 0 tbl 0 = (26, 4736)" "TBLSW (buffer cc') 0 0 tbl 7 = (16, 4736)"
    using t [rule_format, of 0] t [rule_format, of 7] by (simp_all add: int32_def)
  with c show ?thesis by blast
qed

end
