(* ===== verification/DynConst.thy ===== *)
theory DynConst
  imports Switches
begin

text \<open>
  The passes that run when the code has been copied to its final place: the constants known only
  then (\<open>resolveDynamicConstants\<close>: addresses of classes, methods, static fields and strings, and the
  absolute addresses of trampolines in the tables of switches), the table of exception handlers
  (\<open>makeExcTable\<close>) and calls of functions of the compiler (\<open>resolveFunctionSymbols\<close>), all of
  \<^verbatim>\<open>compile.c\<close>.
\<close>

subsection \<open>Dynamic constants\<close>

record dyn_state =
  dy_vm :: vm
  dy_mb :: ptr \<comment> \<open>\<open>mb\<close>, the method the entry comes from\<close>
  dy_stack :: cstack

definition ldc_opcodes :: "nat set" where
  "ldc_opcodes = {opc_ldc, opc_ldc_w, opc_ldc_quick, opc_ldc_w_quick}"

definition quick_static_fields :: "nat set" where
  "quick_static_fields = {opc_getstatic_quick, opc_getstatic2_quick, opc_putstatic_quick, opc_putstatic2_quick}"

definition invoking :: "nat set" where
  "invoking = {opc_invokevirtual, opc_invokevirtual_obj, opc_invokespecial, opc_invokestatic_quick, opc_invokestatic,
     opc_invokeinterface}"

definition new_opcode :: "nat \<Rightarrow> nat option" where
  \<comment> \<open>the instruction of the bytecode whose class \<open>CONST_NEW\<close> resolves\<close>
  "new_opcode opc =
     (if opc = opc_new \<or> opc = opc_new_quick then Some opc_new
      else if opc \<in> {opc_anewarray, opc_checkcast, opc_instanceof, opc_multianewarray} then Some opc
      else None)"

definition dyn_tags :: "(int \<Rightarrow> u8) \<Rightarrow> pcentry \<Rightarrow> nat set option" where
  \<comment> \<open>which constant pool entry the instruction resolves, if any\<close>
  "dyn_tags code e =
     (let opc = opcode e; bytepc = byte_at code (byteoff e) in
      if opc = opc_bipush then
        (if bytepc \<in> ldc_opcodes then Some {CONSTANT_Integer, CONSTANT_Float, CONSTANT_String} else None)
      else if opc \<in> static_fields then Some {CONSTANT_Fieldref}
      else if opc \<in> invoking \<or> opc = opc_inlined_enter then Some {CONSTANT_InterfaceMethodref, CONSTANT_Methodref}
      else if new_opcode opc = Some bytepc then Some {CONSTANT_Class}
      else None)"

definition dyn_words :: "env \<Rightarrow> vm \<Rightarrow> ptr \<Rightarrow> pcentry \<Rightarrow> (nat \<times> u32) list" where
  \<comment> \<open>number of the constant in the template, and the word for it\<close>
  "dyn_words E v mb e =
     (let opc = opcode e; m = methods v mb; c = classes v (mb_clazz m); k = nat (operand e); item = constant_pool c k in
      if opc = opc_sync_static_enter \<or> opc = opc_sync_static_exit then [(0, of_int (mb_clazz m))]
      else if opc = opc_bipush then
        (if byte_at (mb_code m) (byteoff e) \<in> ldc_opcodes \<and> cp_tag c k = CONSTANT_String then [(0, cp_i item)] else [])
      else if opc \<in> static_fields \<union> quick_static_fields then [(0, fb_static_addr (fieldblocks v (cp_fb item)))]
      else if opc \<in> {opc_invokespecial, opc_invokestatic_quick, opc_invokestatic} then [(0, of_int (cp_mb item))]
      else if opc = opc_invokeinterface then
        [(0, of_int (code_addr E mb + byteoff e + 4)), (1, of_int (cp_mb item))]
      else if opc = opc_multianewarray then [(1, of_int (cp_clazz item))]
      else if new_opcode opc \<noteq> None then [(0, of_int (cp_clazz item))]
      else [])"

definition add32 :: "nat \<Rightarrow> u32 \<Rightarrow> u8 list \<Rightarrow> u8 list" where
  "add32 a x b = put32 a (get32 b a + x) b"

definition trampoline_offs :: "(int \<Rightarrow> u8) \<Rightarrow> pcentry \<Rightarrow> nat list" where
  \<comment> \<open>where the table of a switch has the trampolines\<close>
  "trampoline_offs code e =
     (let argp = ALIGNUP32 (byteoff e + 1); tbl = nat (operand e) in
      if opcode e = opc_tableswitch then
        map (\<lambda>j. tbl + 4 + 8 * j) [0..<nat (sint (of_int (ntohl_at code (argp + 8) - ntohl_at code (argp + 4) + 2) :: u32))]
      else if opcode e = opc_lookupswitch then
        map (\<lambda>j. tbl + 8 + 12 * j) [0..<nat (ntohl_at code (argp + 4)) + 1]
      else [])"

abbreviation (input) code_upd :: "ptr \<Rightarrow> (u8 list \<Rightarrow> u8 list) \<Rightarrow> vm \<Rightarrow> vm" where
  "code_upd m f v \<equiv> mb_upd m (compiled_bytes_update f) v"

definition dyn_write :: "env \<Rightarrow> ptr \<Rightarrow> pcentry \<Rightarrow> dyn_state \<Rightarrow> dyn_state" where
  \<comment> \<open>constants go to the code of the method \<open>m0\<close> that is compiled, trampolines are read from
      the code of \<open>mb\<close>\<close>
  "dyn_write E m0 e s =
     (let v = dy_vm s; mb = dy_mb s;
          v = code_upd m0 (fold (\<lambda>(k, x). put32 (unat (nativeoff e) + const_table E e ! k) x) (dyn_words E v mb e)) v;
          v = code_upd mb (fold (\<lambda>a. add32 a (assembledCode E)) (trampoline_offs (mb_code (methods v mb)) e)) v
      in s\<lparr>dy_vm := v\<rparr>)"

definition dyn_method :: "pcentry \<Rightarrow> dyn_state \<Rightarrow> dyn_state" where
  \<comment> \<open>keep track of inlined methods\<close>
  "dyn_method e s =
     (if opcode e = opc_inlined_enter then
        s\<lparr>dy_stack := pushToStack (dy_stack s) (dy_mb s),
          dy_mb := cp_mb (mb_cp (dy_vm s) (dy_mb s) (nat (operand e)))\<rparr>
      else if opcode e = opc_inlined_exit then
        (let (mb, st) = popFromStack (dy_stack s) in s\<lparr>dy_mb := mb, dy_stack := st\<rparr>)
      else s)"

definition dyn_resolve :: "env \<Rightarrow> pcentry \<Rightarrow> dyn_state \<Rightarrow> bool \<times> dyn_state" where
  "dyn_resolve E e s =
     (let v = dy_vm s; m = methods v (dy_mb s) in
      case dyn_tags (mb_code m) e of
        None \<Rightarrow> (True, s)
      | Some tags \<Rightarrow>
          (if cp_resolved (classes v (mb_clazz m)) (nat (operand e)) then (True, s)
           else (let (v, ok) = resolve E v (mb_clazz m) (nat (operand e)) tags in (ok, s\<lparr>dy_vm := v\<rparr>))))"

definition dyn_entry :: "env \<Rightarrow> ptr \<Rightarrow> pcentry \<Rightarrow> dyn_state \<Rightarrow> bool \<times> dyn_state" where
  "dyn_entry E m0 e s =
     (let (ok, s) = dyn_resolve E e s in if ok then (True, dyn_method e (dyn_write E m0 e s)) else (False, s))"

fun dyn_from :: "env \<Rightarrow> ptr \<Rightarrow> pcentry list \<Rightarrow> dyn_state \<Rightarrow> bool \<times> dyn_state" where
  \<comment> \<open>the first component is \<open>ret\<close>: whether a resolution has failed\<close>
  "dyn_from E m0 [] s = (False, s)"
| "dyn_from E m0 (e # es) s =
     (let (ok, s) = dyn_entry E m0 e s in if ok then dyn_from E m0 es s else (True, s))"

definition resolveDynamicConstants :: "env \<Rightarrow> pass_state \<Rightarrow> bool \<times> vm" where
  "resolveDynamicConstants E s =
     (let (v, cc) = s; (ret, d) = dyn_from E (cc_mb cc) (map (pc_cell cc) [0..<pctablelen cc])
          \<lparr>dy_vm = v, dy_mb = cc_mb cc, dy_stack = newStack (fresh_long_mem E)\<rparr>
      in (ret, dy_vm d))"

subsection \<open>Exception table and functions of the compiler\<close>

definition makeExcTable :: "pass_state \<Rightarrow> fatal + vm" where
  "makeExcTable s =
     (let (v, cc) = s in
      bindE (collectE (\<lambda>cf. case pctableGetByPC cc (cf_handler_pc cf) of
               None \<Rightarrow> Inl NullDeref
             | Some t \<Rightarrow> Inr (cf\<lparr>cf_compiled := nativeoff (pc_cell cc t), cf_state := pcentryState (pc_cell cc t)\<rparr>))
           (exception_table (methods v (cc_mb cc))))
        (\<lambda>cfs. Inr (mb_upd (cc_mb cc) (exception_table_update (\<lambda>_. cfs)) v)))"

definition link_functions :: "env \<Rightarrow> u32 \<Rightarrow> pcentry \<Rightarrow> u8 list \<Rightarrow> fatal + u8 list" where
  \<comment> \<open>\<open>base\<close> is the address of the code; the address of a function is \<open>NULL\<close> when it is unknown\<close>
  "link_functions E base e =
     foldE (\<lambda>(off, addr) b.
         if addr = NULL then Inl SymbolNotResolved
         else (let a = unat (nativeoff e) + off in Inr (put32 a (of_int addr - (base + of_nat a + 4)) b)))
       (func_table E (opcode e) (pcentryState e))"

definition resolveFunctionSymbols :: "env \<Rightarrow> pass_state \<Rightarrow> fatal + vm" where
  "resolveFunctionSymbols E s =
     (let (v, cc) = s; m = methods v (cc_mb cc) in
      bindE (foldE (\<lambda>i. link_functions E (of_int (CompiledCode m)) (pc_cell cc i)) [0..<pctablelen cc] (compiled_bytes m))
        (\<lambda>b. Inr (code_upd (cc_mb cc) (\<lambda>_. b) v)))"


subsection \<open>What resolution may change\<close>

definition vm_stable :: "vm \<Rightarrow> vm \<Rightarrow> bool" where
  "vm_stable v v' \<longleftrightarrow>
     (\<forall>m. mb_code (methods v' m) = mb_code (methods v m) \<and> mb_clazz (methods v' m) = mb_clazz (methods v m)) \<and>
     (\<forall>c k. cp_resolved (classes v c) k \<longrightarrow> cp_resolved (classes v' c) k \<and>
        constant_pool (classes v' c) k = constant_pool (classes v c) k \<and> cp_tag (classes v' c) k = cp_tag (classes v c) k) \<and>
     (\<forall>f. fb_static_addr (fieldblocks v' f) = fb_static_addr (fieldblocks v f))"

definition resolver_sound :: "env \<Rightarrow> bool" where
  \<comment> \<open>a successful call leaves the entry resolved; resolved entries, addresses of static fields,
      bytecode and compiled code are not changed\<close>
  "resolver_sound E \<longleftrightarrow> (\<forall>v c i t. vm_stable v (fst (resolve E v c i t)) \<and>
     (\<forall>m. compiled_bytes (methods (fst (resolve E v c i t)) m) = compiled_bytes (methods v m)) \<and>
     (snd (resolve E v c i t) \<longrightarrow> cp_resolved (classes (fst (resolve E v c i t)) c) i))"

lemma vm_stable_refl [simp]: "vm_stable v v"
  by (simp add: vm_stable_def)

lemma vm_stable_trans: "vm_stable u v \<Longrightarrow> vm_stable v w \<Longrightarrow> vm_stable u w"
  by (simp add: vm_stable_def)

lemma vm_stable_code [simp]: "vm_stable u (code_upd m f v) = vm_stable u v" "vm_stable (code_upd m f v) u = vm_stable v u"
  by (auto simp: vm_stable_def)

definition uses_item :: "pcentry \<Rightarrow> bool" where
  "uses_item e \<longleftrightarrow> opcode e \<in> static_fields \<union> quick_static_fields \<union> invoking \<or> new_opcode (opcode e) \<noteq> None"

definition settled :: "vm \<Rightarrow> ptr \<Rightarrow> pcentry \<Rightarrow> bool" where
  \<comment> \<open>what the pass does not resolve has been resolved when the instruction was made quick\<close>
  "settled v m e \<longleftrightarrow> (uses_item e \<longrightarrow> dyn_tags (mb_code (methods v m)) e = None \<longrightarrow>
     cp_resolved (classes v (mb_clazz (methods v m))) (nat (operand e)))"

definition item_ready :: "vm \<Rightarrow> ptr \<Rightarrow> pcentry \<Rightarrow> bool" where
  "item_ready v m e \<longleftrightarrow> (uses_item e \<or> dyn_tags (mb_code (methods v m)) e \<noteq> None \<longrightarrow>
     cp_resolved (classes v (mb_clazz (methods v m))) (nat (operand e)))"

lemma settled_stable: "settled v m e \<Longrightarrow> vm_stable v v' \<Longrightarrow> settled v' m e"
  by (auto simp: settled_def vm_stable_def)

lemma dyn_words_stable:
  assumes "item_ready v m e" "vm_stable v v'"
  shows "dyn_words E v' m e = dyn_words E v m e"
proof -
  have s: "mb_code (methods v' m) = mb_code (methods v m)" "mb_clazz (methods v' m) = mb_clazz (methods v m)"
    "\<And>f. fb_static_addr (fieldblocks v' f) = fb_static_addr (fieldblocks v f)"
    using assms(2) by (simp_all add: vm_stable_def)
  let ?c = "mb_clazz (methods v m)" and ?k = "nat (operand e)"
  show ?thesis
  proof (cases "cp_resolved (classes v ?c) ?k")
    case True
    then have "constant_pool (classes v' ?c) ?k = constant_pool (classes v ?c) ?k" "cp_tag (classes v' ?c) ?k = cp_tag (classes v ?c) ?k"
      using assms(2) by (simp_all add: vm_stable_def)
    then show ?thesis by (simp add: dyn_words_def s Let_def)
  next
    case False
    with assms(1) have n: "\<not> uses_item e" "dyn_tags (mb_code (methods v m)) e = None" by (auto simp: item_ready_def)
    then have "opcode e = opc_bipush \<longrightarrow> byte_at (mb_code (methods v m)) (byteoff e) \<notin> ldc_opcodes"
      by (auto simp: dyn_tags_def Let_def split: if_splits)
    with n(1) s show ?thesis by (auto simp: dyn_words_def uses_item_def invoking_def new_opcode_def Let_def)
  qed
qed

lemma dyn_resolve_cases:
  assumes "dyn_resolve E e s = (ok, s')" "resolver_sound E" "settled (dy_vm s) (dy_mb s) e"
  shows "vm_stable (dy_vm s) (dy_vm s')" "dy_mb s' = dy_mb s" "dy_stack s' = dy_stack s"
    "compiled_bytes (methods (dy_vm s') m) = compiled_bytes (methods (dy_vm s) m)"
    "ok \<longrightarrow> item_ready (dy_vm s') (dy_mb s) e" "always_resolves E \<longrightarrow> ok"
proof -
  let ?v = "dy_vm s" let ?m = "methods ?v (dy_mb s)" let ?c = "mb_clazz ?m" and ?k = "nat (operand e)"
  have "vm_stable (dy_vm s) (dy_vm s') \<and> dy_mb s' = dy_mb s \<and> dy_stack s' = dy_stack s \<and>
    compiled_bytes (methods (dy_vm s') m) = compiled_bytes (methods (dy_vm s) m) \<and>
    (ok \<longrightarrow> item_ready (dy_vm s') (dy_mb s) e) \<and> (always_resolves E \<longrightarrow> ok)"
  proof (cases "dyn_tags (mb_code ?m) e")
    case None
    with assms(1,3) show ?thesis by (auto simp: dyn_resolve_def Let_def item_ready_def settled_def)
  next
    case (Some tags)
    show ?thesis
    proof (cases "cp_resolved (classes ?v ?c) ?k")
      case True
      with Some assms(1) show ?thesis by (auto simp: dyn_resolve_def Let_def item_ready_def)
    next
      case False
      let ?r = "resolve E ?v ?c ?k tags"
      have s': "s' = s\<lparr>dy_vm := fst ?r\<rparr>" "ok = snd ?r"
        using assms(1) Some False by (auto simp: dyn_resolve_def Let_def split: prod.splits)
      have "vm_stable ?v (fst ?r)" "\<forall>m. compiled_bytes (methods (fst ?r) m) = compiled_bytes (methods ?v m)"
        "snd ?r \<longrightarrow> cp_resolved (classes (fst ?r) ?c) ?k"
        using assms(2) by (simp_all add: resolver_sound_def)
      then show ?thesis by (simp add: s' item_ready_def vm_stable_def always_resolves_def)
    qed
  qed
  then show "vm_stable (dy_vm s) (dy_vm s')" "dy_mb s' = dy_mb s" "dy_stack s' = dy_stack s"
    "compiled_bytes (methods (dy_vm s') m) = compiled_bytes (methods (dy_vm s) m)"
    "ok \<longrightarrow> item_ready (dy_vm s') (dy_mb s) e" "always_resolves E \<longrightarrow> ok" by blast+
qed

subsection \<open>The pass as a sequence of patches\<close>

definition add_patch :: "nat \<Rightarrow> u32 \<Rightarrow> u32 \<Rightarrow> patch" where
  "add_patch a old x = \<lparr>cells = {a..<a + 4}, needs = (\<lambda>b. a + 4 \<le> length b \<and> get32 b a = old),
     apply_to = add32 a x, gives = (\<lambda>b. get32 b a = old + x)\<rparr>"

lemma add_patch_ok [simp]: "patch_ok (add_patch a old x)"
proof -
  have "get32 b' a = get32 b a" if "agree_on {a..<a + 4} b b'" for b b'
    by (rule get32_cong) (use that in \<open>simp add: agree_on_def\<close>)
  then show ?thesis
    by (auto simp: patch_ok_def add_patch_def depends_on_def add32_def nth_put32_other) (auto simp: agree_on_def)
qed

definition dyn_patches :: "env \<Rightarrow> (int \<Rightarrow> u8) \<Rightarrow> u8 list \<Rightarrow> (nat \<times> u32) list \<Rightarrow> pcentry \<Rightarrow> patch list" where
  \<comment> \<open>\<open>b\<close> is the code before the pass\<close>
  "dyn_patches E code b ws e =
     map (\<lambda>(k, x). word_patch (unat (nativeoff e) + const_table E e ! k) x) ws
     @ map (\<lambda>a. add_patch a (get32 b a) (assembledCode E)) (trampoline_offs code e)"

lemma dyn_write_patches:
  assumes "dy_mb s = m0"
  shows "dyn_write E m0 e s = s\<lparr>dy_vm := code_upd m0 (apply_patches
    (dyn_patches E (mb_code (methods (dy_vm s) m0)) b (dyn_words E (dy_vm s) m0 e) e)) (dy_vm s)\<rparr>"
proof -
  have "fold (\<lambda>(k, x). put32 (n + c ! k) x) ws b0 = apply_patches (map (\<lambda>(k, x). word_patch (n + c ! k) x) ws) b0" for n c ws b0
    by (induction ws arbitrary: b0) (auto simp: word_patch_def)
  moreover have "fold (\<lambda>a. add32 a x) as b0 = apply_patches (map (\<lambda>a. add_patch a (get32 b a) x) as) b0" for x as b0
    by (induction as arbitrary: b0) (simp_all add: add_patch_def)
  ultimately show ?thesis
    using assms by (simp add: dyn_write_def Let_def dyn_patches_def comp_def)
qed

lemma dyn_from_patches:
  assumes "resolver_sound E" "dy_mb s = m0" "\<forall>e \<in> set es. flat e \<and> settled (dy_vm s) m0 e"
    and "code = mb_code (methods (dy_vm s) m0)"
  shows "\<exists>n s'. dyn_from E m0 es s = (n < length es, s') \<and> n \<le> length es \<and> (always_resolves E \<longrightarrow> n = length es) \<and>
    vm_stable (dy_vm s) (dy_vm s') \<and>
    compiled_bytes (methods (dy_vm s') m0) =
      apply_patches (concat (map (\<lambda>e. dyn_patches E code b (dyn_words E (dy_vm s') m0 e) e) (take n es)))
        (compiled_bytes (methods (dy_vm s) m0))"
  using assms(2-4)
proof (induction es arbitrary: s)
  case (Cons e es)
  obtain ok s1 where r: "dyn_resolve E e s = (ok, s1)" by force
  from Cons.prems have fe: "flat e" "settled (dy_vm s) (dy_mb s) e" by simp_all
  note d = dyn_resolve_cases [OF r assms(1) fe(2)]
  show ?case
  proof (cases ok)
    case False
    then have "dyn_from E m0 (e # es) s = (True, s1)" using r by (simp add: dyn_entry_def)
    then show ?thesis using d(1,4,6) False by (intro exI [of _ 0] exI [of _ s1]) simp
  next
    case True
    let ?v1 = "dy_vm s1"
    let ?ps = "dyn_patches E code b (dyn_words E ?v1 m0 e) e"
    let ?s2 = "s1\<lparr>dy_vm := code_upd m0 (apply_patches ?ps) ?v1\<rparr>"
    have c1: "mb_code (methods ?v1 m0) = code" using d(1) Cons.prems(3) by (simp add: vm_stable_def)
    have m1: "dy_mb s1 = m0" using d(2) Cons.prems(1) by simp
    have "dyn_method e (dyn_write E m0 e s1) = ?s2"
      using fe(1) dyn_write_patches [OF m1, of E e b] c1 by (simp add: dyn_method_def flat_def)
    then have step: "dyn_entry E m0 e s = (True, ?s2)" using r True by (simp add: dyn_entry_def)
    have rest: "\<forall>e \<in> set es. flat e \<and> settled (dy_vm ?s2) m0 e"
    proof
      fix e' assume "e' \<in> set es"
      with Cons.prems(2) have f: "flat e'" "settled (dy_vm s) m0 e'" by simp_all
      have "vm_stable (dy_vm s) (dy_vm ?s2)" using d(1) by simp
      from settled_stable [OF f(2) this] f(1) show "flat e' \<and> settled (dy_vm ?s2) m0 e'" by simp
    qed
    have m2: "dy_mb ?s2 = m0" "code = mb_code (methods (dy_vm ?s2) m0)" using m1 c1 by simp_all
    from Cons.IH [OF m2(1) rest m2(2)] obtain n s' where
      s': "dyn_from E m0 es ?s2 = (n < length es, s')" "n \<le> length es" "always_resolves E \<longrightarrow> n = length es"
        "vm_stable (dy_vm ?s2) (dy_vm s')"
        "compiled_bytes (methods (dy_vm s') m0) =
          apply_patches (concat (map (\<lambda>e. dyn_patches E code b (dyn_words E (dy_vm s') m0 e) e) (take n es)))
            (compiled_bytes (methods (dy_vm ?s2) m0))"
      by blast
    have st: "vm_stable ?v1 (dy_vm s')" using s'(4) by simp
    have w: "dyn_words E (dy_vm s') m0 e = dyn_words E ?v1 m0 e"
      by (rule dyn_words_stable [OF _ st]) (use d(5) True Cons.prems(1) in simp)
    have b2: "compiled_bytes (methods (dy_vm ?s2) m0) = apply_patches ?ps (compiled_bytes (methods (dy_vm s) m0))"
      using d(4) by simp
    show ?thesis
    proof (rule exI [of _ "Suc n"], rule exI [of _ s'], intro conjI)
      show "dyn_from E m0 (e # es) s = (Suc n < length (e # es), s')" using step s'(1) by simp
      show "vm_stable (dy_vm s) (dy_vm s')" by (rule vm_stable_trans [OF d(1) st])
      show "compiled_bytes (methods (dy_vm s') m0) =
        apply_patches (concat (map (\<lambda>e. dyn_patches E code b (dyn_words E (dy_vm s') m0 e) e) (take (Suc n) (e # es))))
          (compiled_bytes (methods (dy_vm s) m0))"
        unfolding s'(5) b2 by (simp add: w)
    qed (use s'(2,3) in simp_all)
  qed
qed simp

definition dyn_consts :: "(int \<Rightarrow> u8) \<Rightarrow> pcentry \<Rightarrow> nat list" where
  \<comment> \<open>the constants of the template the pass may fill in\<close>
  "dyn_consts code e =
     (let opc = opcode e in
      if opc = opc_sync_static_enter \<or> opc = opc_sync_static_exit then [0]
      else if opc = opc_bipush then (if byte_at code (byteoff e) \<in> ldc_opcodes then [0] else [])
      else if opc \<in> static_fields \<union> quick_static_fields then [0]
      else if opc \<in> {opc_invokespecial, opc_invokestatic_quick, opc_invokestatic} then [0]
      else if opc = opc_invokeinterface then [0, 1]
      else if opc = opc_multianewarray then [1]
      else if new_opcode opc \<noteq> None then [0]
      else [])"

definition dyn_slots :: "env \<Rightarrow> (int \<Rightarrow> u8) \<Rightarrow> u8 list \<Rightarrow> pcentry \<Rightarrow> patch list" where
  "dyn_slots E code b e = dyn_patches E code b (map (\<lambda>k. (k, 0)) (dyn_consts code e)) e"

definition dyn_ready :: "env \<Rightarrow> vm \<Rightarrow> CompilerContext \<Rightarrow> bool" where
  \<comment> \<open>the instructions come from the method itself, and the slots lie in the code, apart from each other\<close>
  "dyn_ready E v cc \<longleftrightarrow>
     (let m = methods v (cc_mb cc); slots = concat (map (dyn_slots E (mb_code m) (compiled_bytes m)) (live cc)) in
      (\<forall>e \<in> set (live cc). flat e \<and> settled v (cc_mb cc) e) \<and> disjoint_cells slots \<and>
      (\<forall>p \<in> set slots. needs p (compiled_bytes m)))"

lemma dyn_words_consts:
  "map fst (dyn_words E v m e) = dyn_consts (mb_code (methods v m)) e \<or>
   dyn_words E v m e = [] \<and> trampoline_offs (mb_code (methods v m)) e = []"
proof (cases "opcode e = opc_bipush")
  case True
  then show ?thesis by (simp add: dyn_words_def dyn_consts_def trampoline_offs_def Let_def)
next
  case False
  then show ?thesis by (simp add: dyn_words_def dyn_consts_def Let_def)
qed

lemma dyn_patches_cells:
  "map cells (dyn_patches E code b ws e) = map cells (dyn_patches E code b (map (\<lambda>k. (k, 0)) (map fst ws)) e)"
  by (simp add: dyn_patches_def word_patch_def comp_def case_prod_beta)

lemma dyn_patches_slots:
  fixes E :: env and b :: "u8 list" and e :: pcentry
  assumes "code = mb_code (methods v m)"
  defines "ps \<equiv> dyn_patches E code b (dyn_words E v m e) e"
  shows "ps = [] \<or> map cells ps = map cells (dyn_slots E code b e)" "\<forall>p \<in> set (dyn_slots E code b e). needs p b \<Longrightarrow> \<forall>p \<in> set ps. needs p b"
    "\<forall>p \<in> set ps. patch_ok p"
proof -
  have c: "map fst (dyn_words E v m e) = dyn_consts code e \<or> ps = []"
    using dyn_words_consts [of E v m e] assms(1) by (auto simp: ps_def dyn_patches_def)
  then show "ps = [] \<or> map cells ps = map cells (dyn_slots E code b e)"
    unfolding ps_def dyn_slots_def dyn_patches_cells [of E code b "dyn_words E v m e" e] by (metis (no_types))
  show "\<forall>p \<in> set ps. patch_ok p" by (auto simp: ps_def dyn_patches_def)
  assume n: "\<forall>p \<in> set (dyn_slots E code b e). needs p b"
  from c show "\<forall>p \<in> set ps. needs p b"
  proof
    assume w: "map fst (dyn_words E v m e) = dyn_consts code e"
    show ?thesis
    proof
      fix p assume "p \<in> set ps"
      then consider k x where "(k, x) \<in> set (dyn_words E v m e)" "p = word_patch (unat (nativeoff e) + const_table E e ! k) x"
        | a where "a \<in> set (trampoline_offs code e)" "p = add_patch a (get32 b a) (assembledCode E)"
        by (auto simp: ps_def dyn_patches_def)
      then show "needs p b"
      proof cases
        case 1
        have "k \<in> set (map fst (dyn_words E v m e))" using 1(1) by force
        then have "k \<in> set (dyn_consts code e)" unfolding w .
        then have "word_patch (unat (nativeoff e) + const_table E e ! k) 0 \<in> set (dyn_slots E code b e)"
          by (auto simp: dyn_slots_def dyn_patches_def)
        with n have "needs (word_patch (unat (nativeoff e) + const_table E e ! k) 0) b" by blast
        with 1(2) show ?thesis by (simp add: word_patch_def)
      next
        case 2
        then have "p \<in> set (dyn_slots E code b e)" by (auto simp: dyn_slots_def dyn_patches_def)
        with n show ?thesis by blast
      qed
    qed
  qed simp
qed

lemma sorted_wrt_concat_some:
  assumes "sorted_wrt P (concat (map F es))" "\<forall>e \<in> set es. G e = [] \<or> G e = F e"
  shows "sorted_wrt P (concat (map G es)) \<and> set (concat (map G es)) \<subseteq> set (concat (map F es))"
  using assms
proof (induction es)
  case (Cons e es)
  then have IH: "sorted_wrt P (concat (map G es))" "set (concat (map G es)) \<subseteq> set (concat (map F es))"
    by (simp_all add: sorted_wrt_append)
  from Cons.prems(1) have pw: "\<forall>x \<in> set (F e). \<forall>y \<in> set (concat (map F es)). P x y" "sorted_wrt P (F e)"
    by (simp_all add: sorted_wrt_append)
  from Cons.prems(2) have "G e = [] \<or> G e = F e" by simp
  then show ?case
  proof
    assume "G e = []"
    with IH show ?thesis by auto
  next
    assume g: "G e = F e"
    from pw(1) IH(2) have "\<forall>x \<in> set (F e). \<forall>y \<in> set (concat (map G es)). P x y" by blast
    with g pw(2) IH show ?thesis by (auto simp: sorted_wrt_append)
  qed
qed simp

lemma disjoint_concat:
  assumes "disjoint_cells (concat (map f es))" "\<forall>e \<in> set es. g e = [] \<or> map cells (g e) = map cells (f e)"
  shows "disjoint_cells (concat (map g es))"
proof -
  have d: "disjoint_cells (concat (map h es)) = sorted_wrt (\<lambda>S T. S \<inter> T = {}) (concat (map (\<lambda>e. map cells (h e)) es))" for h
  proof -
    have "disjoint_cells ps = sorted_wrt (\<lambda>S T. S \<inter> T = {}) (map cells ps)" for ps
      by (simp add: disjoint_cells_def sorted_wrt_map)
    then show ?thesis by (simp add: map_concat comp_def)
  qed
  from assms(2) have "\<forall>e \<in> set es. map cells (g e) = [] \<or> map cells (g e) = map cells (f e)" by auto
  from sorted_wrt_concat_some [OF assms(1) [unfolded d] this] show ?thesis unfolding d by (rule conjunct1)
qed

definition dyn_done :: "env \<Rightarrow> vm \<Rightarrow> CompilerContext \<Rightarrow> nat \<Rightarrow> vm \<Rightarrow> bool" where
  \<comment> \<open>the first \<open>n\<close> instructions have their constants, and nothing else has changed in the code\<close>
  "dyn_done E v cc n v' \<longleftrightarrow>
     (let m = cc_mb cc; code = mb_code (methods v m); b = compiled_bytes (methods v m); b' = compiled_bytes (methods v' m) in
      vm_stable v v' \<and> length b' = length b \<and>
      (\<forall>e \<in> set (take n (live cc)). \<forall>p \<in> set (dyn_patches E code b (dyn_words E v' m e) e). gives p b') \<and>
      (\<forall>k. (\<forall>e \<in> set (take n (live cc)). \<forall>p \<in> set (dyn_slots E code b e). k \<notin> cells p) \<longrightarrow> b' ! k = b ! k))"

lemma dynamic_constants:
  fixes v :: vm and cc :: CompilerContext
  defines "m \<equiv> cc_mb cc" and "code \<equiv> mb_code (methods v (cc_mb cc))" and "b \<equiv> compiled_bytes (methods v (cc_mb cc))"
  assumes "resolver_sound E" "cc_ok cc" "dyn_ready E v cc"
  obtains n v' where "resolveDynamicConstants E (v, cc) = (n < pctablelen cc, v')" "n \<le> pctablelen cc"
    "always_resolves E \<longrightarrow> n = pctablelen cc" "dyn_done E v cc n v'"
proof -
  let ?s = "\<lparr>dy_vm = v, dy_mb = m, dy_stack = newStack (fresh_long_mem E)\<rparr>"
  have es: "map (pc_cell cc) [0..<pctablelen cc] = live cc"
    by (rule nth_equalityI) (use assms(5) in \<open>simp_all add: pc_cell_live\<close>)
  have len: "length (live cc) = pctablelen cc" using assms(5) by simp
  from assms(6) have rdy: "\<forall>e \<in> set (live cc). flat e \<and> settled v m e" "disjoint_cells (concat (map (dyn_slots E code b) (live cc)))"
    "\<forall>e \<in> set (live cc). \<forall>p \<in> set (dyn_slots E code b e). needs p b"
    by (simp_all add: dyn_ready_def Let_def m_def code_def b_def)
  from dyn_from_patches [OF assms(4), of ?s m "live cc" code b] rdy(1) obtain n s' where
    r: "dyn_from E m (live cc) ?s = (n < length (live cc), s')" "n \<le> length (live cc)" "always_resolves E \<longrightarrow> n = length (live cc)"
      "vm_stable v (dy_vm s')"
      "compiled_bytes (methods (dy_vm s') m) =
        apply_patches (concat (map (\<lambda>e. dyn_patches E code b (dyn_words E (dy_vm s') m e) e) (take n (live cc)))) b"
    by (auto simp: code_def b_def m_def)
  let ?v = "dy_vm s'" let ?g = "\<lambda>e. dyn_patches E code b (dyn_words E ?v m e) e" let ?es = "take n (live cc)"
  have code': "code = mb_code (methods ?v m)" using r(4) by (simp add: vm_stable_def code_def m_def)
  note ps = dyn_patches_slots [OF code', of E b]
  have sub: "set ?es \<subseteq> set (live cc)" by (rule set_take_subset)
  have dj: "disjoint_cells (concat (map (dyn_slots E code b) ?es))"
  proof -
    have "live cc = ?es @ drop n (live cc)" by simp
    then have "concat (map (dyn_slots E code b) (live cc)) = concat (map (dyn_slots E code b) ?es) @ concat (map (dyn_slots E code b) (drop n (live cc)))"
      by (metis concat_append map_append)
    with rdy(2) show ?thesis by (simp add: disjoint_cells_def sorted_wrt_append)
  qed
  have "disjoint_cells (concat (map ?g ?es))"
    by (rule disjoint_concat [OF dj]) (use ps(1) in blast)
  moreover have "\<forall>p \<in> set (concat (map ?g ?es)). patch_ok p \<and> needs p b"
    using ps(2,3) rdy(3) sub by fastforce
  ultimately have a: "length (apply_patches (concat (map ?g ?es)) b) = length b"
    "\<forall>k. (\<forall>p \<in> set (concat (map ?g ?es)). k \<notin> cells p) \<longrightarrow> apply_patches (concat (map ?g ?es)) b ! k = b ! k"
    "\<forall>p \<in> set (concat (map ?g ?es)). gives p (apply_patches (concat (map ?g ?es)) b)"
    using patches_apply by blast+
  show ?thesis
  proof (rule that [of n ?v])
    show "resolveDynamicConstants E (v, cc) = (n < pctablelen cc, ?v)"
      using r(1) by (simp add: resolveDynamicConstants_def es m_def [symmetric] len)
    have given: "\<forall>e \<in> set ?es. \<forall>p \<in> set (?g e). gives p (compiled_bytes (methods ?v m))" using a(3) r(5) by simp
    have out: "\<forall>k. (\<forall>e \<in> set ?es. \<forall>p \<in> set (dyn_slots E code b e). k \<notin> cells p) \<longrightarrow> compiled_bytes (methods ?v m) ! k = b ! k"
    proof (intro allI impI)
      fix k assume k: "\<forall>e \<in> set ?es. \<forall>p \<in> set (dyn_slots E code b e). k \<notin> cells p"
      have "k \<notin> cells p" if "p \<in> set (?g e)" "e \<in> set ?es" for p e
      proof -
        have "cells p \<in> set (map cells (?g e))" using that(1) by simp
        moreover have "map cells (?g e) = map cells (dyn_slots E code b e)" using ps(1) [of e] that(1) by auto
        ultimately have "cells p \<in> set (map cells (dyn_slots E code b e))" by metis
        then obtain q where "q \<in> set (dyn_slots E code b e)" "cells p = cells q" by auto
        with k that(2) show ?thesis by blast
      qed
      then have "\<forall>p \<in> set (concat (map ?g ?es)). k \<notin> cells p" by auto
      with a(2) r(5) show "compiled_bytes (methods ?v m) ! k = b ! k" by simp
    qed
    show "dyn_done E v cc n ?v"
      using r(4,5) a(1) given out unfolding dyn_done_def Let_def m_def [symmetric] code_def [folded m_def, symmetric] b_def [folded m_def, symmetric]
      by simp
  qed (use r a(1) len in simp_all)
qed



text \<open>When a resolution fails, the pass stops at that instruction and reports it: the slots of
this and of all following instructions keep the bytes the templates had there.\<close>
theorem failed_resolution_leaves_slots:
  fixes v :: vm and cc :: CompilerContext
  defines "m \<equiv> cc_mb cc" and "code \<equiv> mb_code (methods v (cc_mb cc))" and "b \<equiv> compiled_bytes (methods v (cc_mb cc))"
  assumes "resolver_sound E" "cc_ok cc" "dyn_ready E v cc"
    and "resolveDynamicConstants E (v, cc) = (True, v')"
  shows "\<exists>n < pctablelen cc. \<forall>i < pctablelen cc. n \<le> i \<longrightarrow>
    (\<forall>p \<in> set (dyn_slots E code b (live cc ! i)). \<forall>k \<in> cells p. compiled_bytes (methods v' m) ! k = b ! k)"
proof -
  from dynamic_constants [OF assms(4-6)] obtain n v1 where
    d: "resolveDynamicConstants E (v, cc) = (n < pctablelen cc, v1)" "dyn_done E v cc n v1" by metis
  with assms(7) have n: "n < pctablelen cc" and dd: "dyn_done E v cc n v'" by simp_all
  note o = dd [unfolded dyn_done_def Let_def m_def [symmetric] code_def [folded m_def, symmetric] b_def [folded m_def, symmetric],
      THEN conjunct2, THEN conjunct2, THEN conjunct2]
  have len: "length (live cc) = pctablelen cc" using assms(5) by simp
  have dj: "disjoint_cells (concat (map (dyn_slots E code b) (live cc)))"
    using assms(6) by (simp add: dyn_ready_def Let_def code_def b_def)
  have "compiled_bytes (methods v' m) ! k = b ! k"
    if i: "i < pctablelen cc" "n \<le> i" and p: "p \<in> set (dyn_slots E code b (live cc ! i))" "k \<in> cells p" for i p k
  proof -
    have "k \<notin> cells q" if q: "e \<in> set (take n (live cc))" "q \<in> set (dyn_slots E code b e)" for e q
    proof -
      have l: "live cc = take n (live cc) @ drop n (live cc)" by simp
      have "concat (map (dyn_slots E code b) (live cc)) = concat (map (dyn_slots E code b) (take n (live cc)))
          @ concat (map (dyn_slots E code b) (drop n (live cc)))"
        by (subst l) (simp only: map_append concat_append)
      with dj have "\<forall>q \<in> set (concat (map (dyn_slots E code b) (take n (live cc)))).
          \<forall>p \<in> set (concat (map (dyn_slots E code b) (drop n (live cc)))). cells q \<inter> cells p = {}"
        by (simp add: disjoint_cells_def sorted_wrt_append)
      moreover have "live cc ! i \<in> set (drop n (live cc))"
      proof -
        have "drop n (live cc) ! (i - n) = live cc ! i" "i - n < length (drop n (live cc))" using i len by simp_all
        then show ?thesis by (metis nth_mem)
      qed
      ultimately have "cells q \<inter> cells p = {}" using q p(1) by (simp add: Bex_def Ball_def) blast
      then show ?thesis using p(2) by blast
    qed
    with o show ?thesis by blast
  qed
  with n show ?thesis by blast
qed

subsection \<open>Handlers and functions\<close>

lemma handlers_linked:
  assumes "cc_ok cc" "table_sorted cc"
    and "\<forall>cf \<in> set (exception_table (methods v (cc_mb cc))). cf_handler_pc cf \<in> increasing_byteoff ` set (live cc)"
  shows "\<exists>v'. makeExcTable (v, cc) = Inr v' \<and>
    list_all2 (\<lambda>cf cf'. \<exists>t. first_at (live cc) (cf_handler_pc cf) = Some t \<and>
        cf' = cf\<lparr>cf_compiled := nativeoff t, cf_state := pcentryState t\<rparr>)
      (exception_table (methods v (cc_mb cc))) (exception_table (methods v' (cc_mb cc))) \<and>
    (\<forall>m. m \<noteq> cc_mb cc \<longrightarrow> methods v' m = methods v m)"
proof -
  define g :: "catchframe \<Rightarrow> catchframe" where "g = (\<lambda>cf. let t = pc_cell cc (the (pctableGetByPC cc (cf_handler_pc cf)))
    in cf\<lparr>cf_compiled := nativeoff t, cf_state := pcentryState t\<rparr>)"
  let ?cfs = "exception_table (methods v (cc_mb cc))"
  have f: "\<exists>t. pctableGetByPC cc (cf_handler_pc cf) = Some t \<and> first_at (live cc) (cf_handler_pc cf) = Some (pc_cell cc t)"
    if "cf \<in> set ?cfs" for cf
    using getByPC_first_at [OF assms(1,2)] assms(3) that by blast
  have "collectE (\<lambda>cf. case pctableGetByPC cc (cf_handler_pc cf) of None \<Rightarrow> Inl NullDeref
      | Some t \<Rightarrow> Inr (cf\<lparr>cf_compiled := nativeoff (pc_cell cc t), cf_state := pcentryState (pc_cell cc t)\<rparr>)) ?cfs = Inr (map g ?cfs)"
    by (intro collectE_Inr ballI) (use f in \<open>fastforce simp: g_def Let_def\<close>)
  then have "makeExcTable (v, cc) = Inr (mb_upd (cc_mb cc) (exception_table_update (\<lambda>_. map g ?cfs)) v)"
    by (simp add: makeExcTable_def)
  moreover have "list_all2 (\<lambda>cf cf'. \<exists>t. first_at (live cc) (cf_handler_pc cf) = Some t \<and>
        cf' = cf\<lparr>cf_compiled := nativeoff t, cf_state := pcentryState t\<rparr>) ?cfs (map g ?cfs)"
    unfolding list_all2_map2 by (rule list.rel_refl_strong) (use f in \<open>fastforce simp: g_def Let_def\<close>)
  ultimately show ?thesis by simp
qed

lemma exc_table_exists:
  assumes "cc_ok cc" "table_sorted cc"
    and "\<forall>cf \<in> set (exception_table (methods v (cc_mb cc))). cf_handler_pc cf \<in> increasing_byteoff ` set (live cc)"
  shows "\<exists>v'. makeExcTable (v, cc) = Inr v'"
  using handlers_linked [OF assms] by blast

text \<open>C17: When the handlers of a method stand in the table, every catch frame gets the offset and the
state of the first instruction at its handler; the ranges and types it covers are kept, so the
search for a handler leads to the code of the handler.\<close>
theorem makeExcTable_handlers:
  assumes "cc_ok cc" "table_sorted cc"
    and "\<forall>cf \<in> set (exception_table (methods v (cc_mb cc))). cf_handler_pc cf \<in> increasing_byteoff ` set (live cc)"
  shows "\<exists>v'. makeExcTable (v, cc) = Inr v' \<and>
    list_all2 (\<lambda>cf cf'. \<exists>t. first_at (live cc) (cf_handler_pc cf) = Some t \<and>
        cf' = cf\<lparr>cf_compiled := nativeoff t, cf_state := pcentryState t\<rparr>)
      (exception_table (methods v (cc_mb cc))) (exception_table (methods v' (cc_mb cc))) \<and>
    (\<forall>m. m \<noteq> cc_mb cc \<longrightarrow> methods v' m = methods v m)"
  by (rule handlers_linked [OF assms])

definition call_sites :: "env \<Rightarrow> pcentry \<Rightarrow> (nat \<times> ptr) list" where
  \<comment> \<open>offsets of the arguments of the calls in the code of an entry, and the functions they call\<close>
  "call_sites E e = map (\<lambda>(off, addr). (unat (nativeoff e) + off, addr)) (func_table E (opcode e) (pcentryState e))"

definition call_patch :: "u32 \<Rightarrow> nat \<times> ptr \<Rightarrow> patch" where
  "call_patch base s = word_patch (fst s) (of_int (snd s) - (base + of_nat (fst s) + 4))"

lemma link_functions_patches:
  "link_functions E base e b =
     (if \<exists>s \<in> set (call_sites E e). snd s = NULL then Inl SymbolNotResolved
      else Inr (apply_patches (map (call_patch base) (call_sites E e)) b))"
proof -
  have "foldE (\<lambda>(off, addr) b. if addr = NULL then Inl SymbolNotResolved
         else (let a = n + off in Inr (put32 a (of_int addr - (base + of_nat a + 4)) b))) fs b =
     (if \<exists>s \<in> set (map (\<lambda>(off, addr). (n + off, addr)) fs). snd s = NULL then Inl SymbolNotResolved
      else Inr (apply_patches (map (call_patch base) (map (\<lambda>(off, addr). (n + off, addr)) fs)) b))" for n fs
    by (induction fs arbitrary: b) (auto simp: call_patch_def word_patch_def Let_def case_prod_beta)
  then show ?thesis by (simp add: link_functions_def call_sites_def)
qed

lemma link_all_patches:
  "foldE (link_functions E base) es b =
     (if \<exists>s \<in> set (concat (map (call_sites E) es)). snd s = NULL then Inl SymbolNotResolved
      else Inr (apply_patches (map (call_patch base) (concat (map (call_sites E) es))) b))"
  by (induction es arbitrary: b) (auto simp: link_functions_patches)

lemma compiled_bytes_upd: "compiled_bytes_update (\<lambda>_. f (compiled_bytes m)) m = compiled_bytes_update f m"
  by (cases m) simp

lemma resolveFunctionSymbols_eq:
  fixes E :: env
  assumes "cc_ok cc"
  defines "sites \<equiv> concat (map (call_sites E) (live cc))"
  shows "resolveFunctionSymbols E (v, cc) =
    (if \<exists>s \<in> set sites. snd s = NULL then Inl SymbolNotResolved
     else Inr (code_upd (cc_mb cc) (apply_patches (map (call_patch (of_int (CompiledCode (methods v (cc_mb cc))))) sites)) v))"
proof -
  have ff: "foldE (\<lambda>i. f (pc_cell cc i)) js b = foldE f (map (pc_cell cc) js) b" for f js and b :: "u8 list"
    by (induction js arbitrary: b) (auto simp: bindE_def split: sum.splits)
  have lv: "map (pc_cell cc) [0..<pctablelen cc] = live cc"
    by (rule nth_equalityI) (use assms(1) in \<open>simp_all add: pc_cell_live\<close>)
  show ?thesis
    unfolding resolveFunctionSymbols_def Let_def case_prod_conv ff lv link_all_patches sites_def [symmetric]
    by (auto simp: compiled_bytes_upd)
qed

text \<open>Calls of functions of the compiler are linked: if the address of every function is known,
the calls in the final code, wherever the code stands in memory, lead to their functions, and
only their arguments have changed; if one is unknown, the process ends with an error.\<close>
theorem resolveFunctionSymbols_calls:
  fixes v :: vm and cc :: CompilerContext
  defines "m \<equiv> cc_mb cc"
  defines "base \<equiv> of_int (CompiledCode (methods v m)) :: u32" and "b \<equiv> compiled_bytes (methods v m)"
  assumes "cc_ok cc" "\<forall>e \<in> set (live cc). \<forall>(a, f) \<in> set (call_sites E e). a + 4 \<le> length b"
    and "sorted_wrt (\<lambda>(a, f) (a', f'). a + 4 \<le> a') (concat (map (call_sites E) (live cc)))"
  shows "if \<exists>e \<in> set (live cc). \<exists>(a, f) \<in> set (call_sites E e). f = NULL
    then resolveFunctionSymbols E (v, cc) = Inl SymbolNotResolved
    else \<exists>v'. resolveFunctionSymbols E (v, cc) = Inr v' \<and>
      (let b' = compiled_bytes (methods v' m) in
       (\<forall>e \<in> set (live cc). \<forall>(a, f) \<in> set (call_sites E e). base + of_nat (a + 4) + get32 b' a = of_int f) \<and>
       (\<forall>k. (\<forall>e \<in> set (live cc). \<forall>(a, f) \<in> set (call_sites E e). k < a \<or> a + 4 \<le> k) \<longrightarrow> b' ! k = b ! k))"
proof -
  let ?sites = "concat (map (call_sites E) (live cc))"
  let ?ps = "map (call_patch base) ?sites"
  note eq = resolveFunctionSymbols_eq [OF assms(4), of E v, folded m_def, folded base_def]
  have null: "(\<exists>e \<in> set (live cc). \<exists>(a, f) \<in> set (call_sites E e). f = NULL) = (\<exists>s \<in> set ?sites. snd s = NULL)"
    by (simp add: case_prod_beta)
  have cells: "cells (call_patch base (a, f)) = {a..<a + 4}" for a f by (simp add: call_patch_def word_patch_def)
  have "disjoint_cells ?ps"
    unfolding disjoint_cells_def sorted_wrt_map
    by (rule sorted_wrt_mono_rel [OF _ assms(6)]) (auto simp: cells)
  moreover have "\<forall>p \<in> set ?ps. patch_ok p \<and> needs p b"
  proof
    fix p assume "p \<in> set ?ps"
    then obtain e a f where "e \<in> set (live cc)" "(a, f) \<in> set (call_sites E e)" and p: "p = call_patch base (a, f)" by auto
    with assms(5) have "a + 4 \<le> length b" by blast
    then show "patch_ok p \<and> needs p b" unfolding p call_patch_def
      by (intro conjI word_patch_ok) (simp add: word_patch_def)
  qed
  ultimately have a: "\<forall>k. (\<forall>p \<in> set ?ps. k \<notin> cells p) \<longrightarrow> apply_patches ?ps b ! k = b ! k" "\<forall>p \<in> set ?ps. gives p (apply_patches ?ps b)"
    using patches_apply by blast+
  show ?thesis
  proof (cases "\<exists>s \<in> set ?sites. snd s = NULL")
    case True
    then show ?thesis unfolding null eq by simp
  next
    case False
    let ?b = "apply_patches ?ps b"
    have "base + of_nat (x + 4) + get32 ?b x = of_int f" if "e \<in> set (live cc)" "(x, f) \<in> set (call_sites E e)" for e x f
    proof -
      have "call_patch base (x, f) \<in> set ?ps" using that by auto
      with a(2) have "gives (call_patch base (x, f)) ?b" by blast
      then have "get32 ?b x = of_int f - (base + of_nat x + 4)" by (simp add: call_patch_def word_patch_def)
      then show ?thesis by simp
    qed
    moreover have "?b ! k = b ! k" if k: "\<forall>e \<in> set (live cc). \<forall>(x, f) \<in> set (call_sites E e). k < x \<or> x + 4 \<le> k" for k
    proof -
      have "k \<notin> cells p" if "p \<in> set ?ps" for p
      proof -
        from that obtain e x f where "e \<in> set (live cc)" "(x, f) \<in> set (call_sites E e)" "p = call_patch base (x, f)" by auto
        with k show ?thesis by (fastforce simp: cells)
      qed
      with a(1) show ?thesis by blast
    qed
    ultimately show ?thesis unfolding null eq using False by (auto simp: Let_def b_def m_def)
  qed
qed


subsection \<open>Witnesses\<close>

definition new_env :: "bool \<Rightarrow> env" where
  \<comment> \<open>resolution succeeds, or fails, and an instruction has its constant at 1; for witnesses\<close>
  "new_env ok = code_env\<lparr>constant_table := (\<lambda>_ _. [1]), func_table := (\<lambda>_ _. [(6, 1000)]),
     resolve := (\<lambda>v c i t. if ok then (v\<lparr>classes := (classes v)(c := (classes v c)\<lparr>cp_resolved := (cp_resolved (classes v c))(i := True)\<rparr>)\<rparr>, True)
       else (v, False))\<rparr>"

definition new_vm :: vm where
  \<comment> \<open>the code \<open>new #3\<close>, whose compiled code stands at 5000\<close>
  "new_vm = loop_vm\<lparr>
     methods := (\<lambda>m. (methods loop_vm m)\<lparr>mb_code := loop_code [187, 0, 3], mb_clazz := 9, compiled_bytes := replicate 10 0,
       CompiledCode := 5000, exception_table := [\<lparr>cf_start_pc = 0, cf_end_pc = 3, cf_handler_pc = 0, cf_compiled = 0, cf_catchType = 0, cf_state = 0\<rparr>]\<rparr>),
     classes := (\<lambda>c. (classes loop_vm c)\<lparr>cp_resolved := (\<lambda>_. False), constant_pool := (\<lambda>k. \<lparr>cp_i = 0, cp_mb = 0, cp_fb = 0, cp_clazz = 77\<rparr>)\<rparr>)\<rparr>"

definition new_cc :: CompilerContext where
  "new_cc = fresh_cc\<lparr>pctable := [(plain_entry opc_new 0 0)\<lparr>operand := 3\<rparr>], pctablelen := 1, pctablesize := 1\<rparr>"

lemma new_cc: "cc_ok new_cc" "table_sorted new_cc" "live new_cc = [(plain_entry opc_new 0 0)\<lparr>operand := 3\<rparr>]" "pctablelen new_cc = 1"
  using fresh_cc_ok by (simp_all add: cc_ok_def new_cc_def live_def table_sorted_def)

lemma new_env_sound: "resolver_sound (new_env ok)" "always_resolves (new_env True)"
  by (simp_all add: resolver_sound_def always_resolves_def new_env_def vm_stable_def)

lemma new_slots: "dyn_slots (new_env ok) code b ((plain_entry opc_new 0 0)\<lparr>operand := 3\<rparr>) = [word_patch 1 0]"
  by (simp add: dyn_slots_def dyn_patches_def dyn_consts_def new_opcode_def trampoline_offs_def static_fields_def
      quick_static_fields_def new_env_def)

lemma new_ready: "dyn_ready (new_env ok) new_vm new_cc"
proof -
  let ?e = "(plain_entry opc_new 0 0)\<lparr>operand := 3\<rparr>"
  have "settled new_vm (cc_mb new_cc) ?e"
    by (simp add: settled_def dyn_tags_def new_vm_def loop_code_def byte_at_def new_opcode_def Let_def static_fields_def invoking_def)
  then show ?thesis
    by (simp add: dyn_ready_def Let_def new_cc(3) new_slots disjoint_cells_def flat_def)
      (simp add: word_patch_def new_vm_def)
qed


theorem failed_resolution_leaves_slots_witness:
  "\<exists>v'. resolveDynamicConstants (new_env False) (new_vm, new_cc) = (True, v') \<and>
    compiled_bytes (methods v' (cc_mb new_cc)) ! 1 = 0"
proof -
  have r: "resolveDynamicConstants (new_env False) (new_vm, new_cc) = (True, new_vm)"
    by (simp add: resolveDynamicConstants_def new_cc(4) pc_cell_def dyn_entry_def dyn_resolve_def Let_def)
      (simp add: new_cc_def dyn_tags_def new_vm_def loop_code_def byte_at_def new_opcode_def Let_def static_fields_def
        invoking_def new_env_def)
  from failed_resolution_leaves_slots [OF new_env_sound(1) new_cc(1) new_ready r]
  have "compiled_bytes (methods new_vm (cc_mb new_cc)) ! 1 = 0"
    by (auto simp: new_cc(3,4) new_vm_def)
  with r show ?thesis by blast
qed

theorem makeExcTable_handlers_witness:
  "\<exists>v'. makeExcTable (new_vm, new_cc) = Inr v' \<and> cf_compiled (hd (exception_table (methods v' (cc_mb new_cc)))) = 0"
proof -
  have "\<forall>cf \<in> set (exception_table (methods new_vm (cc_mb new_cc))). cf_handler_pc cf \<in> increasing_byteoff ` set (live new_cc)"
    by (simp add: new_vm_def new_cc(3))
  from makeExcTable_handlers [OF new_cc(1,2) this] show ?thesis
    by (auto simp: new_vm_def new_cc(3) first_at_def list_all2_Cons1)
qed

theorem resolveFunctionSymbols_calls_witness:
  "\<exists>v'. resolveFunctionSymbols (new_env True) (new_vm, new_cc) = Inr v' \<and>
    5010 + get32 (compiled_bytes (methods v' (cc_mb new_cc))) 6 = 1000"
proof -
  let ?e = "(plain_entry opc_new 0 0)\<lparr>operand := 3\<rparr>"
  have s: "call_sites (new_env True) ?e = [(6, 1000)]" by (simp add: call_sites_def new_env_def)
  have "\<forall>e \<in> set (live new_cc). \<forall>(a, f) \<in> set (call_sites (new_env True) e). a + 4 \<le> length (compiled_bytes (methods new_vm (cc_mb new_cc)))"
    "sorted_wrt (\<lambda>(a, f) (a', f'). a + 4 \<le> a') (concat (map (call_sites (new_env True)) (live new_cc)))"
    by (simp_all add: new_cc(3) s) (simp add: new_vm_def)
  from resolveFunctionSymbols_calls [OF new_cc(1) this] show ?thesis
    by (auto simp: new_cc(3) s Let_def) (auto simp: new_vm_def)
qed

end
