(* ===== verification/CodeDB.thy ===== *)
theory CodeDB
  imports CodeInfoCtx MakePC
begin

text \<open>
  The database of compiled code (\<^verbatim>\<open>codedb.c\<close>): a file to which the code of every compiled
  method is appended with its tables, and an index, kept by a DBM library, from the name of a
  method to the place of its code in the file. The library is a parameter. Writes and reads of
  the file are complete unless the file ends; \<open>off_t\<close> has 32 bits.
\<close>

subsection \<open>Bytes\<close>

definition le16 :: "u16 \<Rightarrow> u8 list" where
  "le16 w = [ucast w, ucast (drop_bit 8 w)]"

definition get16 :: "u8 list \<Rightarrow> u16" where
  "get16 b = ucast (b ! 0) OR push_bit 8 (ucast (b ! 1))"

definition file_write :: "u8 list \<Rightarrow> vm \<Rightarrow> vm" where
  \<comment> \<open>\<open>write\<close>: a file with the offset behind its end is filled up with zeros\<close>
  "file_write bs v =
     (let p = db_pos v; f = db_page v @ replicate (p - length (db_page v)) 0
      in v\<lparr>db_page := take p f @ bs @ drop (p + length bs) f, db_pos := p + length bs\<rparr>)"

definition file_read :: "u8 list \<Rightarrow> vm \<Rightarrow> u8 list \<times> vm" where
  \<comment> \<open>\<open>read\<close> to memory that holds \<open>old\<close>; at the end of the file the rest of the memory keeps its bytes\<close>
  "file_read old v =
     (let new = take (length old) (drop (db_pos v) (db_page v))
      in (new @ drop (length new) old, v\<lparr>db_pos := db_pos v + length new\<rparr>))"

definition seek_end :: "vm \<Rightarrow> int \<times> vm" where
  \<comment> \<open>\<open>lseek(fd, 0, SEEK_END)\<close>, which fails when \<open>off_t\<close> cannot represent the result\<close>
  "seek_end v =
     (let n = length (db_page v) in if n < 2 ^ 31 then (int n, v\<lparr>db_pos := n\<rparr>) else (-1, v))"

definition write_all :: "u8 list list \<Rightarrow> vm \<Rightarrow> vm" where
  "write_all bss v = fold file_write bss v"

subsection \<open>Writing\<close>

definition pcentry_fields :: "pcentry \<Rightarrow> u8 list list" where
  "pcentry_fields e =
     [le16 (of_nat (opcode e)), le16 (flag e), le32 (of_int (operand e)), le32 (of_int (byteoff e)),
      le32 (of_int (increasing_byteoff e)), le32 (nativeoff e)]"

definition throwentry_fields :: "throwentry \<Rightarrow> u8 list list" where
  "throwentry_fields e =
     [le32 (te_start e), le16 (te_byteoff e), [te_len e], [te_patched_code e], le32 (of_int (te_cb e)), le16 (te_opcode e)]"

definition code_fields :: "methodblock \<Rightarrow> CodeInfo \<Rightarrow> CompilerContext \<Rightarrow> u8 list list" where
  \<comment> \<open>the calls of \<open>write\<close>, in order\<close>
  "code_fields m info cc =
     [le32 (code_size info), le32 (of_nat (pctablelen cc)), le32 (of_nat (throwtablelen info)),
      le32 (exc_handler_nativeoff info), le32 (finish_return_nativeoff info)] @
     concat (map (\<lambda>i. pcentry_fields (pc_cell cc i)) [0..<pctablelen cc]) @
     concat (map (\<lambda>i. throwentry_fields (te_cell info i)) [0..<throwtablelen info]) @
     [take (unat (code_size info)) (compiled_bytes m)]"

abbreviation (input) MAX_SIG_LEN :: nat where "MAX_SIG_LEN \<equiv> 256"

definition code_key :: "vm \<Rightarrow> ptr \<Rightarrow> string" where
  \<comment> \<open>\<open>snprintf\<close> cuts the name so that it fits with the terminating NUL\<close>
  "code_key v mb =
     (let m = methods v mb in
      take (MAX_SIG_LEN - 1) (cb_name (classes v (mb_clazz m)) @ ''#'' @ mb_name m @ mb_signature m))"

definition writeCompiledCode :: "env \<Rightarrow> pass_state \<Rightarrow> vm" where
  "writeCompiledCode E s =
     (let (v, cc) = s; mb = cc_mb cc; m = methods v mb; info = infos v (CompiledCodeInfo m);
          (position, v) = seek_end v;
          v = write_all (code_fields m info cc) v
      in v\<lparr>db := dbm_store E (db v) (code_key v mb) (le32 (of_int position))\<rparr>)"

subsection \<open>Reading\<close>

definition read16 :: "u16 \<Rightarrow> vm \<Rightarrow> u16 \<times> vm" where
  "read16 old v = (let (b, v) = file_read (le16 old) v in (get16 b, v))"

definition read32 :: "u32 \<Rightarrow> vm \<Rightarrow> u32 \<times> vm" where
  "read32 old v = (let (b, v) = file_read (le32 old) v in (get32 b 0, v))"

definition read8 :: "u8 \<Rightarrow> vm \<Rightarrow> u8 \<times> vm" where
  "read8 old v = (let (b, v) = file_read [old] v in (b ! 0, v))"

definition read_pcentry :: "pcentry \<Rightarrow> vm \<Rightarrow> pcentry \<times> vm" where
  "read_pcentry e v =
     (let (opc, v) = read16 (of_nat (opcode e)) v; (f, v) = read16 (flag e) v; (oper, v) = read32 (of_int (operand e)) v;
          (boff, v) = read32 (of_int (byteoff e)) v; (inc, v) = read32 (of_int (increasing_byteoff e)) v;
          (noff, v) = read32 (nativeoff e) v
      in (\<lparr>opcode = unat opc, flag = f, operand = sint oper, byteoff = sint boff, increasing_byteoff = sint inc,
           nativeoff = noff\<rparr>, v))"

definition read_throwentry :: "throwentry \<Rightarrow> vm \<Rightarrow> throwentry \<times> vm" where
  "read_throwentry e v =
     (let (start, v) = read32 (te_start e) v; (boff, v) = read16 (te_byteoff e) v; (len, v) = read8 (te_len e) v;
          (code, v) = read8 (te_patched_code e) v; (cb, v) = read32 (of_int (te_cb e)) v; (opc, v) = read16 (te_opcode e) v
      in (\<lparr>te_start = start, te_byteoff = boff, te_len = len, te_patched_code = code, te_cb = uint cb, te_opcode = opc\<rparr>, v))"

fun read_pcs :: "nat list \<Rightarrow> pass_state \<Rightarrow> pass_state" where
  "read_pcs [] s = s"
| "read_pcs (i # is) (v, cc) =
     (let (e, v) = read_pcentry (pc_cell cc i) v in read_pcs is (v, pc_upd cc i (\<lambda>_. e)))"

fun read_throws :: "nat list \<Rightarrow> vm \<times> CodeInfo \<Rightarrow> vm \<times> CodeInfo" where
  "read_throws [] s = s"
| "read_throws (i # is) (v, info) =
     (let (e, v) = read_throwentry (te_cell info i) v in read_throws is (v, te_upd info i (\<lambda>_. e)))"

definition read_code :: "env \<Rightarrow> pass_state \<Rightarrow> pass_state" where
  \<comment> \<open>behind \<open>lseek\<close>; the information is written back to its address at the end\<close>
  "read_code E s =
     (let (v, cc) = s; mb = cc_mb cc; ip = CompiledCodeInfo (methods v mb); info = infos v ip;
          (sz, v) = read32 (code_size info) v; info = info\<lparr>code_size := sz\<rparr>;
          (len, v) = read32 (get32 (map (fresh_byte (fresh_context E)) [0..<4]) 0) v; cc = pctableSetLen cc (unat len);
          (tlen, v) = read32 (of_nat (throwtablelen info)) v; info = info\<lparr>throwtablelen := unat tlen\<rparr>;
          (eoff, v) = read32 (exc_handler_nativeoff info) v; info = info\<lparr>exc_handler_nativeoff := eoff\<rparr>;
          (roff, v) = read32 (finish_return_nativeoff info) v; info = info\<lparr>finish_return_nativeoff := roff\<rparr>;
          n = pctableLen cc; cc = pctableExtend cc n;
          (v, cc) = read_pcs [0..<n] (v, cc);
          info = throwtableExtend info (throwtablelen info);
          (v, info) = read_throws [0..<throwtablelen info] (v, info);
          code = next_addr v; v = v\<lparr>next_addr := code + max 1 (uint (code_size info))\<rparr>;
          (bytes, v) = file_read (map (fresh_byte (fresh_context E)) [0..<unat (code_size info)]) v;
          v = mb_upd mb (\<lambda>m. m\<lparr>CompiledCode := code, compiled_bytes := bytes\<rparr>) v
      in (v\<lparr>infos := (infos v)(ip := info)\<rparr>, cc))"

definition readCompiledCode :: "env \<Rightarrow> pass_state \<Rightarrow> fatal + (bool \<times> pass_state)" where
  "readCompiledCode E s =
     (let (v, cc) = s in
      case dbm_fetch E (db v) (code_key v (cc_mb cc)) of
        None \<Rightarrow> Inr (False, v, cc)
      | Some dbdata \<Rightarrow>
          (let offset = sint (get32 dbdata 0) in
           if offset < 0 then Inl ExitFailure
           else Inr (True, read_code E (v\<lparr>db_pos := nat offset\<rparr>, cc))))"

subsection \<open>Reading back what was written\<close>

definition rest :: "vm \<Rightarrow> u8 list" where
  "rest v = drop (db_pos v) (db_page v)"

definition adv :: "nat \<Rightarrow> vm \<Rightarrow> vm" where
  "adv k v = v\<lparr>db_pos := db_pos v + k\<rparr>"

lemma rest_adv [simp]: "rest (adv k v) = drop k (rest v)" "adv j (adv k v) = adv (k + j) v"
  by (simp_all add: rest_def adv_def ac_simps)

lemma adv_fields [simp]:
  "rest (v\<lparr>next_addr := a\<rparr>) = rest v" "next_addr (adv k v) = next_addr v" "infos (adv k v) = infos v"
  "methods (adv k v) = methods v" "db_page (adv k v) = db_page v"
  by (simp_all add: rest_def adv_def)

lemma length_le16 [simp]: "length (le16 w) = 2"
  by (simp add: le16_def)

lemma get16_le16 [simp]: "get16 (le16 w) = w"
proof -
  have "(ucast (ucast w :: u8) :: u16) OR push_bit 8 (ucast (ucast (drop_bit 8 w) :: u8)) = w"
    by (rule bit_word_eqI) (auto simp: bit_or_iff bit_push_bit_iff bit_ucast_iff bit_drop_bit_eq not_le dest: less_le_trans)
  then show ?thesis by (simp add: get16_def le16_def)
qed

lemma get32_le32 [simp]: "get32 (le32 w) 0 = w"
  by (simp add: get32_def le32_def le32_join)

lemma file_read_rest: "length old \<le> length (rest v) \<Longrightarrow> file_read old v = (take (length old) (rest v), adv (length old) v)"
  by (simp add: file_read_def rest_def adv_def)

lemma read_rest:
  "2 \<le> length (rest v) \<Longrightarrow> read16 o16 v = (get16 (take 2 (rest v)), adv 2 v)"
  "4 \<le> length (rest v) \<Longrightarrow> read32 o32 v = (get32 (take 4 (rest v)) 0, adv 4 v)"
  "1 \<le> length (rest v) \<Longrightarrow> read8 o8 v = (take 1 (rest v) ! 0, adv 1 v)"
  by (simp_all add: read16_def read32_def read8_def file_read_rest)

definition fits32 :: "int \<Rightarrow> bool" where
  "fits32 n \<longleftrightarrow> - (2 ^ 31) \<le> n \<and> n < 2 ^ 31"

lemma sint_fits32: "fits32 n \<Longrightarrow> sint (of_int n :: u32) = n"
  by (simp add: fits32_def signed_of_int signed_take_bit_int_eq_self)

definition pc_fits :: "pcentry \<Rightarrow> bool" where
  \<comment> \<open>the fields are values of their C types\<close>
  "pc_fits e \<longleftrightarrow> opcode e < 2 ^ 16 \<and> fits32 (operand e) \<and> fits32 (byteoff e) \<and> fits32 (increasing_byteoff e)"

definition te_fits :: "throwentry \<Rightarrow> bool" where
  "te_fits e \<longleftrightarrow> 0 \<le> te_cb e \<and> te_cb e < 2 ^ 32"

lemma length_fields [simp]: "length (concat (pcentry_fields e)) = 20" "length (concat (throwentry_fields f)) = 14"
  by (simp_all add: pcentry_fields_def throwentry_fields_def)

lemma read_pcentry_back:
  assumes "rest v = concat (pcentry_fields e) @ r" "pc_fits e"
  shows "read_pcentry old v = (e, adv 20 v)"
proof -
  have "unat (of_nat (opcode e) :: u16) = opcode e" using assms(2) by (simp add: pc_fits_def unsigned_of_nat take_bit_nat_eq_self)
  with assms(2) show ?thesis
    by (simp add: read_pcentry_def read_rest assms(1) pcentry_fields_def pc_fits_def sint_fits32)
qed

lemma read_throwentry_back:
  assumes "rest v = concat (throwentry_fields e) @ r" "te_fits e"
  shows "read_throwentry old v = (e, adv 14 v)"
proof -
  have "uint (of_int (te_cb e) :: u32) = te_cb e" using assms(2) by (simp add: te_fits_def unsigned_of_int take_bit_int_eq_self)
  then show ?thesis by (simp add: read_throwentry_def read_rest assms(1) throwentry_fields_def)
qed

abbreviation pcs_bytes :: "pcentry list \<Rightarrow> u8 list" where
  "pcs_bytes es \<equiv> concat (map (\<lambda>e. concat (pcentry_fields e)) es)"

abbreviation throws_bytes :: "throwentry list \<Rightarrow> u8 list" where
  "throws_bytes es \<equiv> concat (map (\<lambda>e. concat (throwentry_fields e)) es)"

lemma length_tables: "length (pcs_bytes es) = 20 * length es" "length (throws_bytes fs) = 14 * length fs"
proof -
  show "length (pcs_bytes es) = 20 * length es" by (induction es) (simp_all only: list.map concat.simps length_append length_fields list.size, simp_all)
  show "length (throws_bytes fs) = 14 * length fs" by (induction fs) (simp_all only: list.map concat.simps length_append length_fields list.size, simp_all)
qed

lemma overwrite_Cons: "i + length (x # ys) \<le> length xs \<Longrightarrow> overwrite (Suc i) ys (xs[i := x]) = overwrite i (x # ys) xs"
  by (simp add: overwrite_def take_Suc_conv_app_nth)

lemma read_pcs_back:
  assumes "rest v = pcs_bytes es @ r" "i + length es \<le> length (pctable cc)" "\<forall>e \<in> set es. pc_fits e"
  shows "read_pcs [i..<i + length es] (v, cc) = (adv (20 * length es) v, cc\<lparr>pctable := overwrite i es (pctable cc)\<rparr>)"
  using assms
proof (induction es arbitrary: i v cc)
  case Nil then show ?case by (simp add: adv_def)
next
  case (Cons e es)
  have e: "read_pcentry (pc_cell cc i) v = (e, adv 20 v)" by (rule read_pcentry_back) (use Cons.prems in auto)
  have "read_pcs [Suc i..<Suc i + length es] (adv 20 v, pc_upd cc i (\<lambda>_. e)) =
      (adv (20 * length es) (adv 20 v), (pc_upd cc i (\<lambda>_. e))\<lparr>pctable := overwrite (Suc i) es (pctable (pc_upd cc i (\<lambda>_. e)))\<rparr>)"
    by (rule Cons.IH) (use Cons.prems in \<open>auto simp: pc_upd_def\<close>)
  with e overwrite_Cons [of i e es "pctable cc"] Cons.prems(2) show ?case by (simp add: upt_rec pc_upd_def)
qed

lemma read_throws_back:
  assumes "rest v = throws_bytes es @ r" "i + length es \<le> length (throwtable info)" "\<forall>e \<in> set es. te_fits e"
  shows "read_throws [i..<i + length es] (v, info) = (adv (14 * length es) v, info\<lparr>throwtable := overwrite i es (throwtable info)\<rparr>)"
  using assms
proof (induction es arbitrary: i v info)
  case Nil then show ?case by (simp add: adv_def)
next
  case (Cons e es)
  have e: "read_throwentry (te_cell info i) v = (e, adv 14 v)" by (rule read_throwentry_back) (use Cons.prems in auto)
  have "read_throws [Suc i..<Suc i + length es] (adv 14 v, te_upd info i (\<lambda>_. e)) =
      (adv (14 * length es) (adv 14 v), (te_upd info i (\<lambda>_. e))\<lparr>throwtable := overwrite (Suc i) es (throwtable (te_upd info i (\<lambda>_. e)))\<rparr>)"
    by (rule Cons.IH) (use Cons.prems in \<open>auto simp: te_upd_def\<close>)
  with e overwrite_Cons [of i e es "throwtable info"] Cons.prems(2) show ?case by (simp add: upt_rec te_upd_def)
qed

lemma throwtableExtend_fields [simp]:
  "throwtablelen (throwtableExtend i n) = throwtablelen i" "code_size (throwtableExtend i n) = code_size i"
  by (simp_all add: throwtableExtend_def)

definition record_of :: "methodblock \<Rightarrow> CodeInfo \<Rightarrow> CompilerContext \<Rightarrow> u8 list" where
  \<comment> \<open>the record of a compiled method in the file\<close>
  "record_of m info cc = concat (code_fields m info cc)"

lemma concat_of_concats: "concat (concat (map f xs)) = concat (map (\<lambda>x. concat (f x)) xs)"
  by (induction xs) simp_all

lemma pcs_bytes_live: "cc_ok cc \<Longrightarrow> concat (concat (map (\<lambda>i. pcentry_fields (pc_cell cc i)) [0..<pctablelen cc])) = pcs_bytes (live cc)"
proof -
  assume ok: "cc_ok cc"
  have "map (pc_cell cc) [0..<pctablelen cc] = live cc" by (rule nth_equalityI) (simp_all add: ok pc_cell_live)
  then have "pcs_bytes (live cc) = pcs_bytes (map (pc_cell cc) [0..<pctablelen cc])" by simp
  then show ?thesis by (simp add: concat_of_concats comp_def)
qed

lemma throws_bytes_live:
  assumes "te_ok info"
  shows "concat (concat (map (\<lambda>i. throwentry_fields (te_cell info i)) [0..<throwtablelen info])) = throws_bytes (te_live info)"
proof -
  have "map (te_cell info) [0..<throwtablelen info] = te_live info"
    using assms by (intro nth_equalityI) (simp_all add: te_cell_def te_live_def te_ok_def)
  then have "throws_bytes (te_live info) = throws_bytes (map (te_cell info) [0..<throwtablelen info])" by simp
  then show ?thesis by (simp add: concat_of_concats comp_def)
qed

lemma record_of_live:
  "cc_ok cc \<Longrightarrow> te_ok info \<Longrightarrow> record_of m info cc =
     le32 (code_size info) @ le32 (of_nat (pctablelen cc)) @ le32 (of_nat (throwtablelen info)) @
     le32 (exc_handler_nativeoff info) @ le32 (finish_return_nativeoff info) @ pcs_bytes (live cc) @
     throws_bytes (te_live info) @ take (unat (code_size info)) (compiled_bytes m)"
  by (simp add: record_of_def code_fields_def pcs_bytes_live throws_bytes_live)

definition info_of :: "vm \<Rightarrow> CompilerContext \<Rightarrow> CodeInfo" where
  "info_of v cc = infos v (CompiledCodeInfo (methods v (cc_mb cc)))"

definition code_equal :: "pass_state \<Rightarrow> pass_state \<Rightarrow> bool" where
  \<comment> \<open>the compiled code of the methods of two contexts with its tables\<close>
  "code_equal s t \<longleftrightarrow>
     (let (v, cc) = s; (v', cc') = t; i = info_of v cc; i' = info_of v' cc' in
      live cc' = live cc \<and> te_live i' = te_live i \<and> code_size i' = code_size i \<and>
      exc_handler_nativeoff i' = exc_handler_nativeoff i \<and> finish_return_nativeoff i' = finish_return_nativeoff i \<and>
      compiled_bytes (methods v' (cc_mb cc')) = compiled_bytes (methods v (cc_mb cc)))"

definition storable :: "pass_state \<Rightarrow> bool" where
  \<comment> \<open>a compiled method whose tables hold values of their C types\<close>
  "storable s \<longleftrightarrow>
     (let (v, cc) = s; i = info_of v cc in
      cc_ok cc \<and> te_ok i \<and> (\<forall>e \<in> set (live cc). pc_fits e) \<and> (\<forall>e \<in> set (te_live i). te_fits e) \<and>
      pctablelen cc < 2 ^ 32 \<and> throwtablelen i < 2 ^ 32 \<and>
      length (compiled_bytes (methods v (cc_mb cc))) = unat (code_size i))"

lemma unat_word32: "n < 2 ^ 32 \<Longrightarrow> unat (of_nat n :: u32) = n"
  by (simp add: unsigned_of_nat take_bit_nat_eq_self)

lemma pctableExtend_room: "n \<le> length (pctable (pctableExtend (pctableSetLen cc n) n))" if "cc_ok cc"
  using that by (simp add: pctableExtend_def pctableSetLen_def cc_ok_def)

lemma throwtableExtend_room: "n \<le> length (throwtable (throwtableExtend i n))" if "length (throwtable i) = throwtablesize i"
  using that by (simp add: throwtableExtend_def)

lemma read_code_back:
  assumes s: "storable (v0, cc0)" and ok: "cc_ok cc" "te_ok (info_of v cc)"
    and r: "rest v = record_of (methods v0 (cc_mb cc0)) (info_of v0 cc0) cc0 @ r"
  shows "code_equal (v0, cc0) (read_code E (v, cc))"
    "cc_ok (snd (read_code E (v, cc))) \<and> te_ok (info_of (fst (read_code E (v, cc))) (snd (read_code E (v, cc))))"
proof -
  let ?m = "methods v0 (cc_mb cc0)" and ?i = "info_of v0 cc0" and ?ip = "CompiledCodeInfo (methods v (cc_mb cc))"
  let ?n = "pctablelen cc0" and ?t = "throwtablelen ?i"
  from s have c: "cc_ok cc0" "te_ok ?i" "\<forall>e \<in> set (live cc0). pc_fits e" "\<forall>e \<in> set (te_live ?i). te_fits e"
    "unat (of_nat ?n :: u32) = ?n" "unat (of_nat ?t :: u32) = ?t" "length (compiled_bytes ?m) = unat (code_size ?i)"
    by (simp_all add: storable_def Let_def unat_word32)
  have l: "length (live cc0) = ?n" "length (te_live ?i) = ?t" using c(1,2) by (simp_all add: te_live_def te_ok_def)
  have r: "rest v = le32 (code_size ?i) @ le32 (of_nat ?n) @ le32 (of_nat ?t) @ le32 (exc_handler_nativeoff ?i) @
      le32 (finish_return_nativeoff ?i) @ pcs_bytes (live cc0) @ throws_bytes (te_live ?i) @ compiled_bytes ?m @ r"
    using r c(7) by (simp add: record_of_live [OF c(1,2)])
  define c1 where "c1 = pctableExtend (pctableSetLen cc ?n) ?n"
  define i1 where "i1 = (infos v ?ip)\<lparr>code_size := code_size ?i, throwtablelen := ?t,
      exc_handler_nativeoff := exc_handler_nativeoff ?i, finish_return_nativeoff := finish_return_nativeoff ?i\<rparr>"
  define i2 where "i2 = throwtableExtend i1 ?t"
  have i0: "length (throwtable (infos v ?ip)) = throwtablesize (infos v ?ip)" using ok(2) by (simp add: te_ok_def info_of_def)
  have room: "?n \<le> length (pctable c1)" "?t \<le> length (throwtable i2)"
    using pctableExtend_room [OF ok(1)] throwtableExtend_room [of i1] i0 by (simp_all add: c1_def i2_def i1_def)
  have n1: "pctablelen (pctableSetLen cc ?n) = ?n" by (simp add: pctableSetLen_def)
  have pcs: "read_pcs [0..<?n] (adv 20 v, c1) = (adv (20 * ?n) (adv 20 v), c1\<lparr>pctable := overwrite 0 (live cc0) (pctable c1)\<rparr>)"
    using read_pcs_back [of "adv 20 v" "live cc0" "throws_bytes (te_live ?i) @ compiled_bytes ?m @ r" 0 c1] r c(3) l room
    by simp
  have lp: "length (pcs_bytes (live cc0)) = 20 * ?n" "length (throws_bytes (te_live ?i)) = 14 * ?t"
    by (simp_all only: length_tables l)
  have ths: "read_throws [0..<?t] (adv (20 * ?n) (adv 20 v), i2) =
      (adv (14 * ?t) (adv (20 * ?n) (adv 20 v)), i2\<lparr>throwtable := overwrite 0 (te_live ?i) (throwtable i2)\<rparr>)"
    using read_throws_back [of "adv (20 * ?n) (adv 20 v)" "te_live ?i" "compiled_bytes ?m @ r" 0 i2] r c(4) l room lp
    by simp
  have e: "read_code E (v, cc) =
      (let w = adv (length (compiled_bytes ?m)) ((adv (14 * ?t) (adv (20 * ?n) (adv 20 v)))\<lparr>next_addr := next_addr v + max 1 (uint (code_size ?i))\<rparr>);
           w = mb_upd (cc_mb cc) (\<lambda>m. m\<lparr>CompiledCode := next_addr v, compiled_bytes := compiled_bytes ?m\<rparr>) w
       in (w\<lparr>infos := (infos w)(?ip := i2\<lparr>throwtable := overwrite 0 (te_live ?i) (throwtable i2)\<rparr>)\<rparr>,
           c1\<lparr>pctable := overwrite 0 (live cc0) (pctable c1)\<rparr>))"
    using pcs [unfolded c1_def] ths [unfolded i2_def i1_def] c(5,6,7) lp
    by (simp add: read_code_def Let_def read_rest file_read_rest r n1 pctableLen_def c1_def i2_def i1_def)
  have c1: "length (pctable c1) = pctablesize c1" "pctablelen c1 = ?n" "cc_mb c1 = cc_mb cc" "0 < pctablesize c1"
    and rest_ok: "cc_ok (c1\<lparr>pctablesize := 1, pctablelen := 0, pctable := [pc_cell cc 0]\<rparr>)"
    using ok(1) by (auto simp: c1_def pctableExtend_def pctableSetLen_def cc_ok_def)
  have i2: "length (throwtable i2) = throwtablesize i2" "throwtablelen i2 = ?t" "code_size i2 = code_size ?i"
    "exc_handler_nativeoff i2 = exc_handler_nativeoff ?i" "finish_return_nativeoff i2 = finish_return_nativeoff ?i"
    using i0 by (simp_all add: i2_def i1_def throwtableExtend_def)
  show "code_equal (v0, cc0) (read_code E (v, cc))"
    using room c1 i2 l by (simp add: code_equal_def e Let_def info_of_def live_def te_live_def)
  show "cc_ok (snd (read_code E (v, cc))) \<and> te_ok (info_of (fst (read_code E (v, cc))) (snd (read_code E (v, cc))))"
    using room c1 i2 l rest_ok by (simp add: e Let_def info_of_def cc_ok_def te_ok_def)
qed

subsection \<open>The database\<close>

definition dbm_law :: "env \<Rightarrow> bool" where
  \<comment> \<open>the library keeps one value per key, the last one stored\<close>
  "dbm_law E \<longleftrightarrow> (\<forall>d k x k'. dbm_fetch E (dbm_store E d k x) k' = (if k' = k then Some x else dbm_fetch E d k'))"

definition stored :: "env \<Rightarrow> vm \<Rightarrow> string \<Rightarrow> u8 list \<Rightarrow> bool" where
  \<comment> \<open>the database has the record \<open>bs\<close> under the key \<open>k\<close>\<close>
  "stored E v k bs \<longleftrightarrow>
     (\<exists>pos < 2 ^ 31. dbm_fetch E (db v) k = Some (le32 (of_nat pos)) \<and> (\<exists>r. drop pos (db_page v) = bs @ r))"

definition write_codes :: "env \<Rightarrow> CompilerContext list \<Rightarrow> vm \<Rightarrow> vm" where
  \<comment> \<open>one method after the other is stored\<close>
  "write_codes E ccs v = fold (\<lambda>cc v. writeCompiledCode E (v, cc)) ccs v"

definition written :: "u8 list \<Rightarrow> vm \<Rightarrow> vm" where
  "written bs v = v\<lparr>db_page := db_page v @ bs, db_pos := length (db_page v) + length bs\<rparr>"

lemma write_all_append: "db_pos v = length (db_page v) \<Longrightarrow> write_all bss v = written (concat bss) v"
proof (induction bss arbitrary: v)
  case Nil then show ?case by (simp add: write_all_def written_def)
next
  case (Cons bs bss)
  have "file_write bs v = written bs v" using Cons.prems by (simp add: file_write_def written_def Let_def)
  then have "write_all (bs # bss) v = write_all bss (written bs v)" by (simp add: write_all_def)
  also have "\<dots> = written (concat (bs # bss)) v" using Cons.IH [of "written bs v"] by (simp add: written_def)
  finally show ?case .
qed

lemma code_key_pos: "code_key (v\<lparr>db_page := p, db_pos := n\<rparr>) = code_key v"
  by (rule ext) (simp add: code_key_def)

lemma writeCompiledCode_eq:
  assumes "length (db_page v) < 2 ^ 31"
  shows "writeCompiledCode E (v, cc) =
    (let n = length (db_page v) in written (record_of (methods v (cc_mb cc)) (info_of v cc) cc) v)
      \<lparr>db := dbm_store E (db v) (code_key v (cc_mb cc)) (le32 (of_nat (length (db_page v))))\<rparr>"
  using assms by (simp add: writeCompiledCode_def seek_end_def Let_def write_all_append record_of_def info_of_def)
    (simp add: written_def code_key_pos)

lemma write_grows: "length (db_page v) \<le> length (db_page (writeCompiledCode E (v, cc)))"
proof -
  have grow: "length (db_page v) \<le> length (db_page (file_write bs v))" for bs v
    by (simp add: file_write_def Let_def)
  have "length (db_page v) \<le> length (db_page (write_all bss v))" for bss v
    unfolding write_all_def by (induction bss arbitrary: v) (auto intro: order.trans [OF grow])
  from this [of v] this [of "v\<lparr>db_pos := length (db_page v)\<rparr>"] show ?thesis
    by (simp add: writeCompiledCode_def seek_end_def Let_def)
qed

lemma write_stores:
  assumes "dbm_law E" "length (db_page v) < 2 ^ 31"
  shows "stored E (writeCompiledCode E (v, cc)) (code_key v (cc_mb cc)) (record_of (methods v (cc_mb cc)) (info_of v cc) cc)"
  using assms by (auto simp: stored_def writeCompiledCode_eq Let_def dbm_law_def written_def)

lemma write_keeps:
  assumes "dbm_law E" "length (db_page v) < 2 ^ 31" "stored E v k bs" "code_key v (cc_mb cc) \<noteq> k"
  shows "stored E (writeCompiledCode E (v, cc)) k bs"
proof -
  from assms(3) obtain pos r where p: "pos < 2 ^ 31" "dbm_fetch E (db v) k = Some (le32 (of_nat pos))"
    "drop pos (db_page v) = bs @ r" by (auto simp: stored_def)
  have "\<exists>r. drop pos (db_page v @ b) = bs @ r" for b
  proof (cases "pos \<le> length (db_page v)")
    case True then show ?thesis using p(3) by simp
  next
    case False then show ?thesis using p(3) by simp
  qed
  with p assms show ?thesis by (auto simp: stored_def writeCompiledCode_eq Let_def dbm_law_def written_def)
qed

lemma write_codes_grows: "length (db_page v) \<le> length (db_page (write_codes E ccs v))"
  unfolding write_codes_def by (induction ccs arbitrary: v) (auto intro: order.trans [OF write_grows])

definition full_name :: "vm \<Rightarrow> ptr \<Rightarrow> string" where
  "full_name v mb = (let m = methods v mb in cb_name (classes v (mb_clazz m)) @ ''#'' @ mb_name m @ mb_signature m)"

lemma code_key_full: "code_key v mb = take 255 (full_name v mb)"
  by (simp add: code_key_def full_name_def Let_def)

lemma read_cc_mb: "readCompiledCode E (v, cc) = Inr (b, v', cc') \<Longrightarrow> cc_mb cc' = cc_mb cc"
proof -
  have "cc_mb (snd (read_pcs is (v, cc))) = cc_mb cc" for "is" v cc
    by (induction "is" "(v, cc)" arbitrary: v cc rule: read_pcs.induct) (simp_all add: pc_upd_def split: prod.splits)
  then have p: "read_pcs is (v, cc) = (v', cc') \<Longrightarrow> cc_mb cc' = cc_mb cc" for "is" v cc v' cc' by (metis snd_conv)
  assume "readCompiledCode E (v, cc) = Inr (b, v', cc')"
  then show ?thesis
    by (auto simp: readCompiledCode_def read_code_def Let_def pctableExtend_def pctableSetLen_def dest!: p split: option.splits if_splits prod.splits)
qed

lemma write_methods: "methods (writeCompiledCode E (v, cc)) = methods v" "classes (writeCompiledCode E (v, cc)) = classes v"
  "infos (writeCompiledCode E (v, cc)) = infos v"
proof -
  have "methods (write_all bss v) = methods v \<and> classes (write_all bss v) = classes v \<and> infos (write_all bss v) = infos v" for bss v
    unfolding write_all_def by (induction bss arbitrary: v) (simp_all add: file_write_def Let_def)
  then show "methods (writeCompiledCode E (v, cc)) = methods v" "classes (writeCompiledCode E (v, cc)) = classes v"
    "infos (writeCompiledCode E (v, cc)) = infos v"
    by (simp_all add: writeCompiledCode_def seek_end_def Let_def)
qed

lemma write_key: "code_key (writeCompiledCode E (v, cc)) = code_key v"
  by (rule ext) (simp add: code_key_def write_methods)

lemma write_codes_keep:
  assumes "dbm_law E" "stored E v k bs" "\<forall>cc \<in> set ccs. code_key v (cc_mb cc) \<noteq> k"
    "length (db_page (write_codes E ccs v)) < 2 ^ 31"
  shows "stored E (write_codes E ccs v) k bs"
  using assms(2-)
proof (induction ccs arbitrary: v)
  case Nil then show ?case by (simp add: write_codes_def)
next
  case (Cons cc ccs)
  let ?v = "writeCompiledCode E (v, cc)"
  have w: "write_codes E (cc # ccs) v = write_codes E ccs ?v" by (simp add: write_codes_def)
  have "length (db_page v) < 2 ^ 31" using Cons.prems(3) write_codes_grows [of v E "cc # ccs"] by linarith
  then have "stored E ?v k bs" using write_keeps [OF assms(1) _ Cons.prems(1)] Cons.prems(2) by simp
  then show ?case using Cons.IH [of ?v] Cons.prems w by (simp add: write_key)
qed

lemma read_stored:
  assumes "stored E v (code_key v (cc_mb cc)) (record_of (methods v0 (cc_mb cc0)) (info_of v0 cc0) cc0)"
    "storable (v0, cc0)" "cc_ok cc" "te_ok (info_of v cc)"
  shows "\<exists>v' cc'. readCompiledCode E (v, cc) = Inr (True, v', cc') \<and> code_equal (v0, cc0) (v', cc') \<and>
    cc_ok cc' \<and> te_ok (info_of v' cc')"
proof -
  from assms(1) obtain pos r where p: "pos < 2 ^ 31" "dbm_fetch E (db v) (code_key v (cc_mb cc)) = Some (le32 (of_nat pos))"
    "drop pos (db_page v) = record_of (methods v0 (cc_mb cc0)) (info_of v0 cc0) cc0 @ r" by (auto simp: stored_def)
  let ?v = "v\<lparr>db_pos := pos\<rparr>"
  have "sint (of_nat pos :: u32) = int pos" using sint_fits32 [of "int pos"] p(1) by (simp add: fits32_def)
  then have e: "readCompiledCode E (v, cc) = Inr (True, read_code E (?v, cc))"
    using p(2) by (simp add: readCompiledCode_def Let_def)
  have "rest ?v = record_of (methods v0 (cc_mb cc0)) (info_of v0 cc0) cc0 @ r" using p(3) by (simp add: rest_def)
  moreover have "te_ok (info_of ?v cc)" using assms(4) by (simp add: info_of_def)
  ultimately have b: "code_equal (v0, cc0) (read_code E (?v, cc))"
    "cc_ok (snd (read_code E (?v, cc))) \<and> te_ok (info_of (fst (read_code E (?v, cc))) (snd (read_code E (?v, cc))))"
    using read_code_back [OF assms(2,3)] by blast+
  obtain v' cc' where "read_code E (?v, cc) = (v', cc')" by (cases "read_code E (?v, cc)")
  with e b show ?thesis by simp
qed

lemma codedb_back:
  assumes "dbm_law E" "storable (v, cc)" "\<forall>other \<in> set others. code_key v (cc_mb other) \<noteq> code_key v (cc_mb cc)"
    and "length (db_page (write_codes E (cc # others) v)) < 2 ^ 31"
    and "db v2 = db (write_codes E (cc # others) v)" "db_page v2 = db_page (write_codes E (cc # others) v)"
    and "code_key v2 (cc_mb cc2) = code_key v (cc_mb cc)" "cc_ok cc2" "te_ok (info_of v2 cc2)"
  shows "\<exists>v' cc'. readCompiledCode E (v2, cc2) = Inr (True, v', cc') \<and> code_equal (v, cc) (v', cc') \<and>
    cc_ok cc' \<and> te_ok (info_of v' cc')"
proof -
  let ?w = "writeCompiledCode E (v, cc)" and ?bs = "record_of (methods v (cc_mb cc)) (info_of v cc) cc"
  have c: "write_codes E (cc # others) v = write_codes E others ?w" by (simp add: write_codes_def)
  have "length (db_page v) < 2 ^ 31" using assms(4) write_codes_grows [of v E "cc # others"] by linarith
  from write_codes_keep [OF assms(1) write_stores [OF assms(1) this]] assms(3,4)
  have "stored E (write_codes E (cc # others) v) (code_key v (cc_mb cc)) ?bs" by (simp add: c write_key)
  then have "stored E v2 (code_key v2 (cc_mb cc2)) ?bs" using assms(5-7) by (simp add: stored_def)
  from read_stored [OF this assms(2,8,9)] show ?thesis .
qed


text \<open>The index knows only the first 255 characters of a name: when two methods agree on these,
the one that is stored later replaces the other, whose next lookup gives it the code of the
wrong method.\<close>
theorem codedb_key_collision:
  assumes "dbm_law E" "storable (v, cc2)" "length (db_page (write_codes E [cc1, cc2] v)) < 2 ^ 31"
    and "take 255 (full_name v (cc_mb cc1)) = take 255 (full_name v (cc_mb cc2))" "cc_ok cc1" "te_ok (info_of v cc1)"
  shows "\<exists>v' cc'. readCompiledCode E (write_codes E [cc1, cc2] v, cc1) = Inr (True, v', cc') \<and>
    live cc' = live cc2 \<and> compiled_bytes (methods v' (cc_mb cc1)) = compiled_bytes (methods v (cc_mb cc2))"
proof -
  let ?v = "writeCompiledCode E (v, cc1)" and ?w = "write_codes E [cc1, cc2] v"
  have w: "?w = write_codes E [cc2] ?v" by (simp add: write_codes_def)
  have i: "info_of (writeCompiledCode E (v, cc)) c = info_of v c" for v cc c
    by (simp add: info_of_def write_methods)
  have m: "methods ?w = methods v" "info_of ?w cc1 = info_of v cc1" by (simp_all add: write_codes_def write_methods i)
  have k: "code_key ?w (cc_mb cc1) = code_key ?v (cc_mb cc2)" using assms(4)
    by (simp add: w write_codes_def write_key code_key_full)
  have s: "storable (?v, cc2)" using assms(2) by (simp add: storable_def i write_methods)
  from codedb_back [OF assms(1) s, of "[]" ?w cc1] assms(3,5,6) k m(2)
  obtain v' cc' where r: "readCompiledCode E (?w, cc1) = Inr (True, v', cc')" "code_equal (?v, cc2) (v', cc')"
    by (auto simp: w)
  have "cc_mb cc' = cc_mb cc1" using r(1) by (rule read_cc_mb)
  with r show ?thesis by (auto simp: code_equal_def Let_def write_methods)
qed

subsection \<open>Witnesses\<close>

definition db_env :: env where
  \<comment> \<open>a library that keeps an association list; for witnesses\<close>
  "db_env = sample_env\<lparr>dbm_store := (\<lambda>d k x. (k, x) # d), dbm_fetch := map_of\<rparr>"

definition db_vm :: "string \<Rightarrow> vm" where
  \<comment> \<open>methods 7 and 8 have the given name and different signatures; both are compiled to \<open>ret\<close>\<close>
  "db_vm nm = sample_vm\<lparr>
     methods := (\<lambda>m. (methods sample_vm m)\<lparr>mb_name := nm, mb_signature := (if m = 8 then ''()V'' else ''(J)I''),
       CompiledCodeInfo := 50, compiled_bytes := [0xc3]\<rparr>),
     classes := (\<lambda>_. undefined\<lparr>cb_name := ''C''\<rparr>), infos := (\<lambda>_. zero_info\<lparr>code_size := 1\<rparr>)\<rparr>"

definition db_cc :: "ptr \<Rightarrow> CompilerContext" where
  "db_cc m = pctableAdd (fresh_cc\<lparr>cc_mb := m\<rparr>) opc_start (-1) 0"

lemma dbm_law_db_env: "dbm_law db_env"
  by (simp add: dbm_law_def db_env_def)

lemma fresh_mb: "cc_ok (fresh_cc\<lparr>cc_mb := m\<rparr>)" "live (fresh_cc\<lparr>cc_mb := m\<rparr>) = []"
  using fresh_cc_ok by (auto simp: cc_ok_def live_def fresh_cc_def)

lemma db_cc: "cc_ok (db_cc m)" "cc_mb (db_cc m) = m" "pctablelen (db_cc m) = 1"
  "\<forall>e \<in> set (live (db_cc m)). pc_fits e"
proof -
  show ok: "cc_ok (db_cc m)" by (simp add: db_cc_def wf_intros fresh_mb)
  show "cc_mb (db_cc m) = m" by (simp add: db_cc_def pctableAdd_def pctableGrow_def Let_def)
  have v: "views (db_cc m) = [new_view opc_start (-1) 0 0 (-1)]"
    by (simp add: db_cc_def pctableAdd_views wf_intros fresh_mb)
  then have "length (live (db_cc m)) = 1" by (metis length_map length_Cons list.size(3) One_nat_def)
  then show "pctablelen (db_cc m) = 1" using ok by simp
  obtain e where "live (db_cc m) = [e]" "pcview e = new_view opc_start (-1) 0 0 (-1)" using v by (auto simp: map_eq_Cons_conv)
  then show "\<forall>e \<in> set (live (db_cc m)). pc_fits e" by (simp add: pcview_def new_view_def pc_fits_def fits32_def)
qed

lemma db_info: "info_of (db_vm nm) cc = zero_info\<lparr>code_size := 1\<rparr>" "te_ok (zero_info\<lparr>code_size := 1\<rparr>)"
  by (simp_all add: info_of_def db_vm_def te_ok_def zero_info_def)

lemma db_storable: "storable (db_vm nm, db_cc m)"
  by (simp add: storable_def db_info db_cc) (simp add: zero_info_def te_live_def db_vm_def)

lemma db_record: "length (record_of (methods v m) (zero_info\<lparr>code_size := 1\<rparr>) (db_cc m')) \<le> 41"
  by (simp add: record_of_live [OF db_cc(1) db_info(2)] length_tables db_cc del: length_concat)
    (simp add: zero_info_def te_live_def)

lemma db_room: "length (db_page (write_codes db_env [db_cc a, db_cc b] (db_vm nm))) < 2 ^ 31"
proof -
  let ?w = "writeCompiledCode db_env (db_vm nm, db_cc a)"
  have z: "db_page (db_vm nm) = []" by (simp add: db_vm_def sample_vm_def)
  have w: "length (db_page ?w) \<le> 41" using db_record by (simp add: writeCompiledCode_eq z db_info Let_def) (simp add: written_def z)
  have "info_of ?w (db_cc b) = zero_info\<lparr>code_size := 1\<rparr>" using db_info(1) [of nm "db_cc b"] by (simp add: info_of_def write_methods)
  then have "length (db_page (writeCompiledCode db_env (?w, db_cc b))) \<le> 82"
    using w db_record [of ?w "cc_mb (db_cc b)" b] by (simp add: writeCompiledCode_eq Let_def) (simp add: written_def)
  then show ?thesis by (simp add: write_codes_def)
qed


theorem codedb_key_collision_witness:
  "\<exists>v' cc'. readCompiledCode db_env (write_codes db_env [db_cc 7, db_cc 8] (db_vm (replicate 300 CHR ''x'')), db_cc 7) =
     Inr (True, v', cc') \<and> live cc' = live (db_cc 8) \<and> compiled_bytes (methods v' 7) = [0xc3]"
proof -
  let ?v = "db_vm (replicate 300 CHR ''x'')"
  have "take 255 (full_name ?v 7) = take 255 (full_name ?v 8)" by (simp add: full_name_def db_vm_def sample_vm_def)
  moreover have "compiled_bytes (methods ?v 8) = [0xc3]" by (simp add: db_vm_def)
  ultimately show ?thesis
    using codedb_key_collision [OF dbm_law_db_env db_storable [of "replicate 300 CHR ''x''" 8], of "db_cc 7"] db_room
    by (simp add: db_cc db_info)
qed

end
