(* ===== verification/CompileMethod.thy ===== *)
theory CompileMethod
  imports Optimize DynConst CodeDB
begin

text \<open>
  The driver of the compiler (\<^verbatim>\<open>compileMethod\<close> and \<^verbatim>\<open>freeMethod\<close> in \<^verbatim>\<open>compile.c\<close>): the stages of
  a compilation, where it may stop and be taken up again, what it leaves in the method and in
  the compiled code information, and the compilation of callees from the optimiser.

  The first argument of \<open>compileMethod\<close> bounds the nesting of compilations, \<open>fuel\<close> the rounds of
  the loops inside the passes. The files that the options \<^verbatim>\<open>codesize\<close> and \<^verbatim>\<open>outcode\<close> write, and
  the monitor of the method, are left out.
\<close>

datatype progress =
    Aborted pass_state \<comment> \<open>\<open>goto compile_failed\<close>\<close>
  | Stopped pass_state \<comment> \<open>\<open>goto stage_done\<close>\<close>
  | Going pass_state

definition andThen :: "fatal + progress \<Rightarrow> (pass_state \<Rightarrow> fatal + progress) \<Rightarrow> fatal + progress" where
  "andThen r f = bindE r (\<lambda>x. case x of Going s \<Rightarrow> f s | Aborted s \<Rightarrow> Inr (Aborted s) | Stopped s \<Rightarrow> Inr (Stopped s))"

definition set_invoker :: "ptr \<Rightarrow> ptr \<Rightarrow> vm \<Rightarrow> vm" where
  "set_invoker mb f v = mb_upd mb (invoker_update (\<lambda>_. f)) v"

definition set_stage :: "CompilationStage \<Rightarrow> pass_state \<Rightarrow> pass_state" where
  "set_stage st s = (let (v, cc) = s in (v, cc\<lparr>stage := st\<rparr>))"

subsection \<open>The internal code\<close>

definition keep_internal :: "ptr \<Rightarrow> ptr \<Rightarrow> pass_state \<Rightarrow> vm" where
  \<comment> \<open>decide whether the method may be inlined, and keep its internal code for that\<close>
  "keep_internal mb info s =
     (let (v, cc) = s; m = methods v mb in
      if \<not> acc (mb_access m) ACC_SYNCHRONIZED \<and> exception_table m = [] \<and> \<not> may_jump cc \<and>
         int (pctableLen cc) \<le> opt_inlining_maxlen v
      then info_upd info (\<lambda>i. i\<lparr>inlineability := INLINE_MAY, info_pctable := map (pc_cell cc) [0..<pctableLen cc],
             info_pctablelen := pctablelen cc\<rparr>) v
      else info_upd info (inlineability_update (\<lambda>_. INLINE_DONT)) v)"

definition make_internal :: "nat \<Rightarrow> env \<Rightarrow> ptr \<Rightarrow> ptr \<Rightarrow> pass_state \<Rightarrow> fatal + progress" where
  "make_internal fuel E mb info s =
     bindE (makePCTable E fuel s) (\<lambda>(failed, v, cc).
       if failed then Inr (Aborted (v, cc))
       else bindE (makeBlockStructure v cc) (\<lambda>cc.
         let cc = peepholeOptimization cc in
         Inr (Going (set_stage STAGE_INTERNAL_CODE (keep_internal mb info (v, cc), cc)))))"

definition first_stage :: "nat \<Rightarrow> env \<Rightarrow> ptr \<Rightarrow> ptr \<Rightarrow> pass_state \<Rightarrow> fatal + progress" where
  \<comment> \<open>a context in an intermediate stage goes on from there; compiled code may be in the database\<close>
  "first_stage fuel E mb info s =
     (if stage (snd s) = STAGE_INTERNAL_CODE \<or> stage (snd s) = STAGE_STATIC_PART then Inr (Going s)
      else if OPT_SETQ OPT_CODEDB (fst s) then
        bindE (readCompiledCode E s) (\<lambda>(found, s).
          if found then Inr (Going (set_stage STAGE_STATIC_PART s)) else make_internal fuel E mb info s)
      else make_internal fuel E mb info s)"

subsection \<open>The native code\<close>

definition install_code :: "ptr \<Rightarrow> ptr \<Rightarrow> pass_state \<Rightarrow> vm" where
  \<comment> \<open>copy the code from the buffer and note the range of addresses code may be in\<close>
  "install_code mb info s =
     (let (v, cc) = s; sz = bufp cc; code = next_addr v;
          v = info_upd info (code_size_update (\<lambda>_. of_nat sz)) v;
          v = v\<lparr>next_addr := code + max 1 (int sz)\<rparr>;
          v = mb_upd mb (\<lambda>m. m\<lparr>CompiledCode := code, compiled_bytes := take sz (buffer cc)\<rparr>) v;
          v = (if code < compiledcode_min v then v\<lparr>compiledcode_min := code\<rparr> else v)
      in if compiledcode_max v < code + int sz then v\<lparr>compiledcode_max := code + int sz\<rparr> else v)"

definition translate :: "nat \<Rightarrow> env \<Rightarrow> compiler \<Rightarrow> ptr \<Rightarrow> pass_state \<Rightarrow> fatal + progress" where
  \<comment> \<open>the passes from the internal code to the code in the buffer\<close>
  "translate fuel E compile p s =
     bindE (methodInlining fuel E compile p s) (\<lambda>s.
     bindE (eagerCompilation fuel E compile p s) (\<lambda>s.
     bindE (updateStates E s) (\<lambda>s.
     bindE (writeCode E s) (\<lambda>(failed, v, cc).
       if failed then Inr (Aborted (v, cc))
       else bindE (resolveJumpInstructions cc) (\<lambda>cc.
            bindE (resolveExcRetSwitch E (v, cc)) (\<lambda>cc. Inr (Going (v, cc))))))))"

definition save_code :: "env \<Rightarrow> pass_state \<Rightarrow> vm" where
  "save_code E s = (if OPT_SETQ OPT_CODEDB (fst s) then writeCompiledCode E s else fst s)"

definition second_stage :: "nat \<Rightarrow> env \<Rightarrow> compiler \<Rightarrow> ptr \<Rightarrow> ptr \<Rightarrow> ptr \<Rightarrow> CompilationStage \<Rightarrow> pass_state \<Rightarrow> fatal + progress" where
  \<comment> \<open>from the label \<open>stage_internal_code\<close>\<close>
  "second_stage fuel E compile p mb info target s =
     (if stage (snd s) = STAGE_STATIC_PART then Inr (Going s)
      else if target \<le> stage (snd s) then Inr (Stopped (set_invoker mb (sym_compileAndInvokeMethod E) (fst s), snd s))
      else andThen (translate fuel E compile p s) (\<lambda>(v, cc).
        Inr (Going (set_stage STAGE_STATIC_PART (save_code E (install_code mb info (v, cc), cc), cc)))))"

definition finish_code :: "env \<Rightarrow> ptr \<Rightarrow> pass_state \<Rightarrow> fatal + vm" where
  \<comment> \<open>the passes on the final code; the result of \<open>resolveDynamicConstants\<close> is not looked at\<close>
  "finish_code E mb s =
     (let (v, cc) = s; v = snd (resolveDynamicConstants E (v, cc)) in
      bindE (makeExcTable (v, cc)) (\<lambda>v.
      bindE (resolveFunctionSymbols E (v, cc)) (\<lambda>v.
        Inr (set_invoker mb (sym_invokeJITCompiledMethod E)
               (mb_upd mb (mb_access_update (\<lambda>a. a OR push_bit ACC_MACHINE_COMPILED 1)) v)))))"

definition third_stage :: "env \<Rightarrow> ptr \<Rightarrow> CompilationStage \<Rightarrow> pass_state \<Rightarrow> fatal + progress" where
  \<comment> \<open>from the label \<open>stage_static_part\<close>\<close>
  "third_stage E mb target s =
     (if target \<le> stage (snd s) then Inr (Stopped (set_invoker mb (sym_compileAndInvokeMethod E) (fst s), snd s))
      else bindE (finish_code E mb s) (\<lambda>v. Inr (Going (set_stage STAGE_DONE (v, snd s)))))"

subsection \<open>\<open>compileMethod\<close>\<close>

definition conclude :: "ptr \<Rightarrow> ptr \<Rightarrow> progress \<Rightarrow> bool \<times> vm" where
  \<comment> \<open>the context goes back to memory; it is released unless the compilation has stopped early\<close>
  "conclude p mb x =
     (case x of
        Going (v, cc) \<Rightarrow> (False, releaseCompilerContext p (cc_upd p (\<lambda>_. cc) v))
      | Stopped (v, cc) \<Rightarrow> (False, cc_upd p (\<lambda>_. cc) v)
      | Aborted (v, cc) \<Rightarrow>
          (True, releaseCompilerContext p (mb_upd mb (mb_access_update (\<lambda>a. a AND NOT (push_bit ACC_MACHINE_COMPILED 1)))
                   (cc_upd p (\<lambda>_. cc) v))))"

definition run_stages :: "nat \<Rightarrow> env \<Rightarrow> compiler \<Rightarrow> ptr \<Rightarrow> ptr \<Rightarrow> ptr \<Rightarrow> CompilationStage \<Rightarrow> pass_state \<Rightarrow> fatal + progress" where
  "run_stages fuel E compile p mb info target s =
     andThen (first_stage fuel E mb info s) (\<lambda>s.
     andThen (second_stage fuel E compile p mb info target s) (third_stage E mb target))"

definition need_info :: "env \<Rightarrow> ptr \<Rightarrow> vm \<Rightarrow> fatal + (ptr \<times> vm)" where
  "need_info E mb v =
     (if CompiledCodeInfo (methods v mb) = NULL then prepareCompiledCodeInfo E mb v
      else Inr (CompiledCodeInfo (methods v mb), v))"

definition compile_held :: "nat \<Rightarrow> env \<Rightarrow> compiler \<Rightarrow> ptr \<Rightarrow> ptr \<Rightarrow> CompilationStage \<Rightarrow> ptr \<times> vm \<Rightarrow> fatal + (bool \<times> vm)" where
  \<comment> \<open>the method holds the context at \<open>p\<close>\<close>
  "compile_held fuel E compile mb info target =
     (\<lambda>(p, v).
        let cc = contexts v p in
        if target \<le> stage cc then Inr (False, v)
        else if stage cc = STAGE_DONE then Inr (conclude p mb (Stopped (v, cc)))
        else
          (let v = set_invoker mb (access2invoker E (mb_access (methods v mb))) v in
           bindE (run_stages fuel E compile p mb info target (v, cc)) (\<lambda>x. Inr (conclude p mb x))))"

definition compile_body :: "nat \<Rightarrow> env \<Rightarrow> compiler \<Rightarrow> compiler" where
  \<comment> \<open>the first component of the result is true if the compilation failed\<close>
  "compile_body fuel E compile mb target v =
     (let m = methods v mb in
      if acc (mb_access m) ACC_ABSTRACT \<or> acc (mb_access m) ACC_NATIVE \<or> invoker m = sym_invokeJITCompiledMethod E
      then Inr (False, v)
      else if \<not> mb_has_code m then Inr (True, v)
      else
        bindE (need_info E mb v) (\<lambda>(info, v).
        if info = NULL then Inr (True, v)
        else bindE (getCompilerContext E mb v) (compile_held fuel E compile mb info target)))"

fun compileMethod :: "nat \<Rightarrow> nat \<Rightarrow> env \<Rightarrow> compiler" where
  "compileMethod 0 fuel E mb target v = Inl OutOfFuel"
| "compileMethod (Suc n) fuel E mb target v = compile_body fuel E (compileMethod n fuel E) mb target v"

definition freeMethod :: "ptr \<Rightarrow> vm \<Rightarrow> vm" where
  \<comment> \<open>\<open>freeCompiledCodeInfo\<close> only gives memory back\<close>
  "freeMethod mb v = mb_upd mb (\<lambda>m. m\<lparr>CompiledCodeInfo := NULL, CompiledCode := NULL\<rparr>) v"

subsection \<open>Where a compilation may end\<close>

definition compilable :: "env \<Rightarrow> methodblock \<Rightarrow> bool" where
  "compilable E m \<longleftrightarrow> \<not> acc (mb_access m) ACC_ABSTRACT \<and> \<not> acc (mb_access m) ACC_NATIVE \<and>
     invoker m \<noteq> sym_invokeJITCompiledMethod E \<and> mb_has_code m"

lemma andThen_cases:
  assumes "andThen r f = Inr x"
  obtains s where "r = Inr (Going s)" "f s = Inr x"
  | s where "r = Inr (Aborted s)" "x = Aborted s"
  | s where "r = Inr (Stopped s)" "x = Stopped s"
proof -
  from assms obtain y where y: "r = Inr y" "(case y of Going s \<Rightarrow> f s | Aborted s \<Rightarrow> Inr (Aborted s) | Stopped s \<Rightarrow> Inr (Stopped s)) = Inr x"
    unfolding andThen_def bindE_Inr by blast
  show thesis using y that by (cases y) auto
qed

lemma release_frame [simp]:
  "methods (releaseCompilerContext p v) = methods v" "classes (releaseCompilerContext p v) = classes v"
  "next_addr (releaseCompilerContext p v) = next_addr v"
  by (simp_all add: releaseCompilerContext_def Let_def)

lemma need_info_known:
  assumes "need_info E mb v = Inr (info, v1)"
  shows "info = NULL \<and> v1 = v \<or> info = CompiledCodeInfo (methods v1 mb)"
proof (cases "CompiledCodeInfo (methods v mb) = NULL \<and> mb_clazz (methods v mb) \<noteq> NULL")
  case True
  with assms have "prepareCompiledCodeInfo E mb v = Inr (info, v1)" by (simp add: need_info_def)
  then show ?thesis using True by (elim prepare_effect) simp_all
next
  case False
  with assms show ?thesis by (auto simp: need_info_def prepareCompiledCodeInfo_def split: if_splits)
qed

lemma get_known: "CompiledCodeInfo (methods v mb) \<noteq> NULL \<Longrightarrow> getCompilerContext E mb v = Inr (p, v') \<Longrightarrow> methods v' = methods v"
  by (auto simp: getCompilerContext_def newCompilerContext_def resetCompilerContext_def Let_def split: if_splits)

lemma compile_cases:
  assumes "compile_body fuel E compile mb target v = Inr (failed, v')" "compilable E (methods v mb)"
  obtains "failed" "need_info E mb v = Inr (NULL, v')"
  | info v1 p v2 where "need_info E mb v = Inr (info, v1)" "info = CompiledCodeInfo (methods v1 mb)" "info \<noteq> NULL"
      "getCompilerContext E mb v1 = Inr (p, v2)" "methods v2 = methods v1"
      "compile_held fuel E compile mb info target (p, v2) = Inr (failed, v')"
proof -
  from assms have "bindE (need_info E mb v) (\<lambda>(info, v).
        if info = NULL then Inr (True, v)
        else bindE (getCompilerContext E mb v) (compile_held fuel E compile mb info target)) = Inr (failed, v')"
    by (simp add: compile_body_def compilable_def Let_def)
  then obtain info v1 where i: "need_info E mb v = Inr (info, v1)"
    "(if info = NULL then Inr (True, v1)
        else bindE (getCompilerContext E mb v1) (compile_held fuel E compile mb info target)) = Inr (failed, v')"
    unfolding bindE_Inr by auto
  show thesis
  proof (cases "info = NULL")
    case True
    with i show thesis using that(1) by simp
  next
    case False
    with i(2) obtain p v2 where g: "getCompilerContext E mb v1 = Inr (p, v2)"
      "compile_held fuel E compile mb info target (p, v2) = Inr (failed, v')"
      by (auto simp: bindE_Inr)
    have "info = CompiledCodeInfo (methods v1 mb)" using need_info_known [OF i(1)] False by blast
    with False g i(1) get_known [OF _ g(1)] show thesis using that(2) by metis
  qed
qed

lemma held_cases:
  assumes "compile_held fuel E compile mb info target (p, v) = Inr (failed, v')"
  obtains "target \<le> stage (contexts v p)" "\<not> failed" "v' = v"
  | x where "stage (contexts v p) < target"
      "run_stages fuel E compile p mb info target
        (set_invoker mb (access2invoker E (mb_access (methods v mb))) v, contexts v p) = Inr x"
      "(failed, v') = conclude p mb x"
proof (cases "target \<le> stage (contexts v p)")
  case True
  then have "compile_held fuel E compile mb info target (p, v) = Inr (False, v)" by (simp add: compile_held_def Let_def)
  with assms have "\<not> failed" "v' = v" by simp_all
  then show thesis by (rule that(1) [OF True])
next
  case False
  then have "stage (contexts v p) \<noteq> STAGE_DONE" by (auto simp: less_eq_CompilationStage_def stage_num_def split: CompilationStage.splits)
  with False assms have "bindE (run_stages fuel E compile p mb info target
        (set_invoker mb (access2invoker E (mb_access (methods v mb))) v, contexts v p)) (\<lambda>x. Inr (conclude p mb x)) = Inr (failed, v')"
    by (simp add: compile_held_def Let_def)
  then show thesis using that(2) False unfolding bindE_Inr by (metis not_le sum.inject(2))
qed

subsection \<open>What the passes leave alone\<close>

definition infos_ok :: "vm \<Rightarrow> bool" where
  "infos_ok v \<longleftrightarrow> 0 < next_addr v \<and> (\<forall>m. CompiledCodeInfo (methods v m) < next_addr v) \<and>
     (\<forall>m m'. CompiledCodeInfo (methods v m) = CompiledCodeInfo (methods v m') \<longrightarrow>
        CompiledCodeInfo (methods v m) \<noteq> NULL \<longrightarrow> m = m')"

definition vm_frame :: "vm \<Rightarrow> vm \<Rightarrow> bool" where
  \<comment> \<open>no context is touched, taken or given back\<close>
  "vm_frame v v' \<longleftrightarrow>
     contexts v' = contexts v \<and> cc_pool v' = cc_pool v \<and> next_addr v \<le> next_addr v' \<and> ctx_of v' = ctx_of v \<and>
     (\<forall>m. mb_clazz (methods v' m) = mb_clazz (methods v m)) \<and> (infos_ok v \<longrightarrow> infos_ok v')"

lemma vm_frame_refl [simp]: "vm_frame v v"
  by (simp add: vm_frame_def)

lemma vm_frame_trans [trans]: "vm_frame u v \<Longrightarrow> vm_frame v w \<Longrightarrow> vm_frame u w"
  by (auto simp: vm_frame_def)

lemma vm_frameI:
  assumes "contexts v' = contexts v" "cc_pool v' = cc_pool v" "next_addr v \<le> next_addr v'"
    "\<And>m. CompiledCodeInfo (methods v' m) = CompiledCodeInfo (methods v m) \<and> mb_clazz (methods v' m) = mb_clazz (methods v m)"
    "\<And>p. info_cc (infos v' p) = info_cc (infos v p)"
  shows "vm_frame v v'"
proof -
  have "ctx_of v' = ctx_of v" by (rule ext) (simp add: ctx_of_def assms(4,5))
  moreover have "infos_ok v \<longrightarrow> infos_ok v'" using assms(3) by (auto simp: infos_ok_def assms(4) intro: less_le_trans)
  ultimately show ?thesis using assms by (simp add: vm_frame_def)
qed

lemma frame_inv:
  assumes "ctx_inv_for P v ps" "vm_frame v v'"
  shows "ctx_inv_for P v' ps"
proof -
  from assms(2) have f: "contexts v' = contexts v" "cc_pool v' = cc_pool v" "next_addr v \<le> next_addr v'" "ctx_of v' = ctx_of v"
    by (simp_all add: vm_frame_def)
  have "infos_ok v" using assms(1) unfolding infos_ok_def ctx_inv_for_def by blast
  then have "infos_ok v'" using assms(2) by (simp add: vm_frame_def)
  moreover have "x < next_addr v \<Longrightarrow> x < next_addr v'" for x using f(3) by simp
  ultimately show ?thesis
    using assms(1) unfolding ctx_inv_for_def infos_ok_def f(1,2,4) by blast
qed

lemma held_upd:
  assumes "ctx_inv_for P v ps" "ctx_of v m = p" "p \<noteq> NULL" "cc_mb cc = m" "1 \<le> ref_count cc" "P cc"
  shows "ctx_inv_for P (cc_upd p (\<lambda>_. cc) v) ps" "ctx_of (cc_upd p (\<lambda>_. cc) v) = ctx_of v"
proof -
  let ?v = "cc_upd p (\<lambda>_. cc) v"
  show c: "ctx_of ?v = ctx_of v" by (rule ext) (simp add: ctx_of_def)
  have same: "methods ?v = methods v" "next_addr ?v = next_addr v" "cc_pool ?v = cc_pool v" by simp_all
  have np: "p \<notin> set ps" using assms(1-3) unfolding ctx_inv_for_def by blast
  then have "pool_list (contexts ?v) (cc_pool v) ps"
  proof -
    have "pool_list (contexts ?v) (cc_pool v) ps = pool_list (contexts v) (cc_pool v) ps"
      by (rule pool_list_frame) (use np in auto)
    then show ?thesis using assms(1) unfolding ctx_inv_for_def by blast
  qed
  moreover have "P (contexts ?v q)" if "q \<in> set ps" for q
  proof -
    have "P (contexts v q)" using that assms(1) unfolding ctx_inv_for_def by blast
    then show ?thesis using that np by auto
  qed
  moreover have "cc_mb (contexts ?v (ctx_of v m')) = m' \<and> 1 \<le> ref_count (contexts ?v (ctx_of v m')) \<and> P (contexts ?v (ctx_of v m'))"
    if "ctx_of v m' \<noteq> NULL" for m'
  proof (cases "m' = m")
    case True then show ?thesis using assms(2,4-6) by simp
  next
    case False
    then have "ctx_of v m' \<noteq> p" using ctx_inv_distinct [OF assms(1) that] assms(2) by metis
    moreover have "cc_mb (contexts v (ctx_of v m')) = m' \<and> 1 \<le> ref_count (contexts v (ctx_of v m')) \<and> P (contexts v (ctx_of v m'))"
      using that assms(1) unfolding ctx_inv_for_def by blast
    ultimately show ?thesis by simp
  qed
  ultimately show "ctx_inv_for P ?v ps"
    using assms(1) unfolding ctx_inv_for_def c same by blast
qed

lemma frame_invoker [simp]: "vm_frame v (set_invoker mb f v)"
  by (rule vm_frameI) (simp_all add: set_invoker_def)

definition resolver_frame :: "env \<Rightarrow> bool" where
  \<comment> \<open>resolving an entry of a constant pool does not compile methods, nor change their handlers\<close>
  "resolver_frame E \<longleftrightarrow> (\<forall>v c i t. vm_frame v (fst (resolve E v c i t)) \<and>
     (\<forall>m. exception_table (methods (fst (resolve E v c i t)) m) = exception_table (methods v m)))"

lemma code_upd_frame: "vm_frame v (code_upd m f v)" "exception_table (methods (code_upd m f v) k) = exception_table (methods v k)"
  by (rule vm_frameI, simp_all)

lemma dyn_entry_frame:
  assumes "dyn_entry E m0 e s = (ok, s')" "resolver_frame E"
  shows "vm_frame (dy_vm s) (dy_vm s') \<and> (\<forall>m. exception_table (methods (dy_vm s') m) = exception_table (methods (dy_vm s) m))"
proof -
  obtain r s1 where d: "dyn_resolve E e s = (r, s1)" by force
  have 1: "vm_frame (dy_vm s) (dy_vm s1) \<and> (\<forall>m. exception_table (methods (dy_vm s1) m) = exception_table (methods (dy_vm s) m))"
    using d assms(2) unfolding dyn_resolve_def resolver_frame_def Let_def
    by (auto split: option.splits if_splits prod.splits) (metis fst_conv)+
  have 2: "vm_frame (dy_vm s1) (dy_vm (dyn_method e (dyn_write E m0 e s1))) \<and>
      (\<forall>m. exception_table (methods (dy_vm (dyn_method e (dyn_write E m0 e s1))) m) = exception_table (methods (dy_vm s1) m))"
  proof -
    have dv: "dy_vm (s\<lparr>dy_vm := x\<rparr>) = x" for s :: dyn_state and x by simp
    have "dy_vm (dyn_method e (dyn_write E m0 e s1)) = dy_vm (dyn_write E m0 e s1)"
      by (simp add: dyn_method_def Let_def split: prod.split)
    moreover obtain f g where "dy_vm (dyn_write E m0 e s1) = code_upd (dy_mb s1) g (code_upd m0 f (dy_vm s1))"
      unfolding dyn_write_def Let_def dv by blast
    moreover have "vm_frame v (code_upd m g (code_upd n f v))" for v m g n f
      by (rule vm_frame_trans [OF code_upd_frame(1) code_upd_frame(1)])
    moreover have "exception_table (methods (code_upd m g (code_upd n f v)) k) = exception_table (methods v k)" for v m g n f k
      by simp
    ultimately show ?thesis by (simp only: simp_thms)
  qed
  from assms(1) d have "s' = s1 \<or> s' = dyn_method e (dyn_write E m0 e s1)" by (auto simp: dyn_entry_def split: if_splits)
  with 1 2 vm_frame_trans show ?thesis by metis
qed

lemma dyn_from_frame:
  "resolver_frame E \<Longrightarrow> dyn_from E m0 es s = (ret, s') \<Longrightarrow>
     vm_frame (dy_vm s) (dy_vm s') \<and> (\<forall>m. exception_table (methods (dy_vm s') m) = exception_table (methods (dy_vm s) m))"
proof (induction es arbitrary: s)
  case Nil then show ?case by simp
next
  case (Cons e es)
  obtain ok s1 where d: "dyn_entry E m0 e s = (ok, s1)" by force
  from dyn_entry_frame [OF d Cons.prems(1)] d Cons show ?case
    by (cases ok) (auto intro: vm_frame_trans)
qed

lemma dyn_frame:
  assumes "resolver_frame E"
  shows "vm_frame v (snd (resolveDynamicConstants E (v, cc)))"
    "exception_table (methods (snd (resolveDynamicConstants E (v, cc))) m) = exception_table (methods v m)"
  using dyn_from_frame [OF assms] by (auto simp: resolveDynamicConstants_def split: prod.split) (metis dyn_state.select_convs(1))+

lemma finish_code_frame:
  assumes "resolver_frame E" "finish_code E mb (v, cc) = Inr v'"
  shows "vm_frame v v'" "invoker (methods v' mb) = sym_invokeJITCompiledMethod E" "acc (mb_access (methods v' mb)) ACC_MACHINE_COMPILED"
proof -
  let ?v1 = "snd (resolveDynamicConstants E (v, cc))"
  from assms(2) obtain v2 v3 where e: "makeExcTable (?v1, cc) = Inr v2" "resolveFunctionSymbols E (v2, cc) = Inr v3"
    "v' = set_invoker mb (sym_invokeJITCompiledMethod E) (mb_upd mb (mb_access_update (\<lambda>a. a OR push_bit ACC_MACHINE_COMPILED 1)) v3)"
    by (auto simp: finish_code_def Let_def bindE_Inr)
  have "vm_frame v ?v1" by (rule dyn_frame [OF assms(1)])
  also have "vm_frame ?v1 v2" using e(1) by (auto simp: makeExcTable_def bindE_Inr intro!: vm_frameI)
  also have "vm_frame v2 v3" using e(2) by (auto simp: resolveFunctionSymbols_def Let_def bindE_Inr intro!: vm_frameI)
  also have "vm_frame v3 (mb_upd mb (mb_access_update (\<lambda>a. a OR push_bit ACC_MACHINE_COMPILED 1)) v3)" by (rule vm_frameI) simp_all
  also have "vm_frame \<dots> v'" unfolding e(3) by simp
  finally show "vm_frame v v'" .
  show "invoker (methods v' mb) = sym_invokeJITCompiledMethod E" "acc (mb_access (methods v' mb)) ACC_MACHINE_COMPILED"
    by (simp_all add: e(3) set_invoker_def acc_def bit_or_iff bit_push_bit_iff)
qed

lemma finish_code_total:
  assumes "resolver_frame E" "cc_ok cc" "table_sorted cc"
    "\<forall>cf \<in> set (exception_table (methods v (cc_mb cc))). cf_handler_pc cf \<in> increasing_byteoff ` set (live cc)"
    "\<forall>e \<in> set (live cc). \<forall>(a, f) \<in> set (call_sites E e). f \<noteq> NULL"
  shows "\<exists>v'. finish_code E mb (v, cc) = Inr v'"
proof -
  let ?v1 = "snd (resolveDynamicConstants E (v, cc))"
  have "\<exists>v2. makeExcTable (?v1, cc) = Inr v2"
    using exc_table_exists [OF assms(2,3), of ?v1] assms(4) dyn_frame(2) [OF assms(1)] by simp
  moreover have "\<exists>v3. resolveFunctionSymbols E (v2, cc) = Inr v3" for v2
    using assms(5) by (auto simp: resolveFunctionSymbols_eq [OF assms(2)] case_prod_beta)
  ultimately show ?thesis by (force simp: finish_code_def Let_def bindE_Inr)
qed

subsection \<open>Results of a compilation\<close>

lemma stage_le_DONE: "st \<le> STAGE_DONE" "STAGE_DONE \<le> st \<longleftrightarrow> st = STAGE_DONE"
  by (cases st; simp add: less_eq_CompilationStage_def stage_num_def)+

lemma snd_set_stage [simp]: "stage (snd (set_stage st s)) = st" "fst (set_stage st s) = fst s"
  by (simp_all add: set_stage_def split: prod.split)

lemma make_internal_stage:
  "make_internal fuel E mb info s = Inr x \<Longrightarrow> (\<exists>t. x = Aborted t) \<or> (\<exists>t. x = Going t \<and> stage (snd t) = STAGE_INTERNAL_CODE)"
  by (auto simp: make_internal_def bindE_Inr Let_def set_stage_def split: if_splits)

lemma first_stage_result:
  assumes "first_stage fuel E mb info s = Inr x" "stage (snd s) < STAGE_DONE"
  shows "(\<exists>t. x = Aborted t) \<or> (\<exists>t. x = Going t \<and> stage (snd t) \<in> {STAGE_INTERNAL_CODE, STAGE_STATIC_PART})"
proof (cases "stage (snd s) = STAGE_INTERNAL_CODE \<or> stage (snd s) = STAGE_STATIC_PART")
  case True
  then have "x = Going s" using assms(1) by (simp add: first_stage_def)
  with True show ?thesis by blast
next
  case False
  have "make_internal fuel E mb info t = Inr x \<Longrightarrow> ?thesis" for t using make_internal_stage by blast
  with False assms(1) show ?thesis
    by (auto simp: first_stage_def bindE_Inr simp del: split_paired_Ex split_paired_All split: if_splits)
qed

lemma translate_result: "translate fuel E compile p s = Inr x \<Longrightarrow> (\<exists>t. x = Aborted t) \<or> (\<exists>t. x = Going t)"
  by (auto simp: translate_def bindE_Inr split: if_splits)

lemma second_stage_result:
  assumes "second_stage fuel E compile p mb info STAGE_DONE s = Inr x"
    "stage (snd s) \<in> {STAGE_INTERNAL_CODE, STAGE_STATIC_PART}"
  shows "(\<exists>t. x = Aborted t) \<or> (\<exists>t. x = Going t \<and> stage (snd t) = STAGE_STATIC_PART)"
proof (cases "stage (snd s) = STAGE_STATIC_PART")
  case True
  then have "x = Going s" using assms(1) by (simp add: second_stage_def)
  with True show ?thesis by blast
next
  case False
  with assms(2) have "andThen (translate fuel E compile p s) (\<lambda>(v, cc).
        Inr (Going (set_stage STAGE_STATIC_PART (save_code E (install_code mb info (v, cc), cc), cc)))) = Inr x"
    using assms(1) by (auto simp: second_stage_def stage_le_DONE)
  then show ?thesis
    by (elim andThen_cases) (auto dest: translate_result simp del: split_paired_Ex split_paired_All)
qed

lemma run_stages_done:
  assumes "run_stages fuel E compile p mb info STAGE_DONE s = Inr x" "stage (snd s) < STAGE_DONE"
  shows "(\<exists>t. x = Aborted t) \<or> (\<exists>t v. x = Going (set_stage STAGE_DONE (v, snd t)) \<and> finish_code E mb t = Inr v)"
  using assms(1) unfolding run_stages_def
proof (cases rule: andThen_cases)
  case (1 s1)
  from first_stage_result [OF 1(1) assms(2)] have st: "stage (snd s1) \<in> {STAGE_INTERNAL_CODE, STAGE_STATIC_PART}" by auto
  from 1(2) show ?thesis
  proof (cases rule: andThen_cases)
    case (1 s2)
    from second_stage_result [OF 1(1) st] have "stage (snd s2) = STAGE_STATIC_PART" by auto
    with 1(2) have "bindE (finish_code E mb s2) (\<lambda>v. Inr (Going (set_stage STAGE_DONE (v, snd s2)))) = Inr x"
      by (simp add: third_stage_def stage_le_DONE)
    then show ?thesis unfolding bindE_Inr by blast
  next
    case (2 t) then show ?thesis by blast
  next
    case (3 t) with second_stage_result [OF 3(1) st] show ?thesis by auto
  qed
next
  case (2 t) then show ?thesis by blast
next
  case (3 t) with first_stage_result [OF 3(1) assms(2)] show ?thesis by auto
qed

lemma finish_code_marks:
  assumes "finish_code E mb s = Inr v'"
  shows "invoker (methods v' mb) = sym_invokeJITCompiledMethod E" "acc (mb_access (methods v' mb)) ACC_MACHINE_COMPILED"
  using assms by (auto simp: finish_code_def Let_def bindE_Inr set_invoker_def acc_def bit_or_iff bit_push_bit_iff split: prod.splits)

lemma get_stage:
  assumes "getCompilerContext E mb v = Inr (p, v')" "CompiledCodeInfo (methods v mb) \<noteq> NULL"
  shows "stage (contexts v' p) = (if ctx_of v mb = NULL then STAGE_START else stage (contexts v (ctx_of v mb)))"
  using assms by (auto simp: getCompilerContext_def newCompilerContext_def resetCompilerContext_def pctableClear_def ctx_of_def Let_def split: if_splits)

lemma need_info_ctx:
  assumes "need_info E mb v = Inr (info, v1)" "mb_clazz (methods v mb) \<noteq> NULL" "0 < next_addr v"
  shows "info \<noteq> NULL" "ctx_of v1 mb = ctx_of v mb" "ctx_of v mb \<noteq> NULL \<Longrightarrow> contexts v1 = contexts v"
    "info = CompiledCodeInfo (methods v1 mb)"
proof -
  have "info \<noteq> NULL \<and> ctx_of v1 mb = ctx_of v mb \<and> (ctx_of v mb \<noteq> NULL \<longrightarrow> contexts v1 = contexts v) \<and>
    info = CompiledCodeInfo (methods v1 mb)"
  proof (cases "CompiledCodeInfo (methods v mb) = NULL")
    case True
    with assms(1) have "prepareCompiledCodeInfo E mb v = Inr (info, v1)" by (simp add: need_info_def)
    moreover have "ctx_of v mb = NULL" using True by (simp add: ctx_of_def)
    ultimately show ?thesis using assms(2,3) True
      by (elim prepare_effect) (simp_all add: ctx_of_def)
  next
    case False
    with assms show ?thesis by (auto simp: need_info_def)
  qed
  then show "info \<noteq> NULL" "ctx_of v1 mb = ctx_of v mb" "ctx_of v mb \<noteq> NULL \<Longrightarrow> contexts v1 = contexts v"
    "info = CompiledCodeInfo (methods v1 mb)" by simp_all
qed

lemma held_done:
  assumes "compile_body fuel E compile mb STAGE_DONE v = Inr (failed, v')" "compilable E (methods v mb)"
    "mb_clazz (methods v mb) \<noteq> NULL" "0 < next_addr v"
    "ctx_of v mb \<noteq> NULL \<longrightarrow> stage (contexts v (ctx_of v mb)) < STAGE_DONE"
  shows "if failed then \<not> acc (mb_access (methods v' mb)) ACC_MACHINE_COMPILED
    else acc (mb_access (methods v' mb)) ACC_MACHINE_COMPILED \<and> invoker (methods v' mb) = sym_invokeJITCompiledMethod E"
  using assms(1,2)
proof (cases rule: compile_cases)
  case 1
  with need_info_ctx [OF 1(2) assms(3,4)] show ?thesis by simp
next
  case (2 info v1 p v2)
  note i = need_info_ctx [OF 2(1) assms(3,4)]
  have st: "stage (contexts v2 p) < STAGE_DONE"
    using get_stage [OF 2(4)] i 2(2,3) assms(5) by (auto simp: less_CompilationStage_def stage_num_def)
  from 2(6) show ?thesis
  proof (cases rule: held_cases)
    case 1 with st show ?thesis by simp
  next
    case (2 x)
    from run_stages_done [OF 2(2)] st consider t where "x = Aborted t"
      | t w where "x = Going (set_stage STAGE_DONE (w, snd t))" "finish_code E mb t = Inr w" by auto
    then show ?thesis
    proof cases
      case 1
      with 2(3) show ?thesis
        by (auto simp: conclude_def acc_def bit_and_iff bit_not_iff bit_push_bit_iff split: prod.splits)
    next
      case 2
      with \<open>(failed, v') = conclude p mb x\<close> finish_code_marks [OF 2(2)] show ?thesis
        by (auto simp: conclude_def set_stage_def)
    qed
  qed
qed


text \<open>A request for a stage that the method has already reached counts one holder more and returns
at once; nobody counts it down again, so that the context cannot go back to the pool.\<close>
theorem stage_reached_leaks:
  assumes "compilable E (methods v mb)" "CompiledCodeInfo (methods v mb) \<noteq> NULL" "ctx_of v mb = p" "p \<noteq> NULL"
    and "target \<le> stage (contexts v p)"
  shows "compileMethod (Suc n) fuel E mb target v = Inr (False, cc_upd p (ref_count_update (\<lambda>n. n + 1)) v)"
proof -
  have "getCompilerContext E mb v = Inr (p, cc_upd p (ref_count_update (\<lambda>n. n + 1)) v)"
    using assms(2-4) by (simp add: getCompilerContext_def ctx_of_def Let_def)
  then show ?thesis
    using assms by (simp add: compile_body_def compilable_def need_info_def compile_held_def Let_def)
qed


subsection \<open>Compiled code from the database\<close>

lemma file_read_adv: "\<exists>x n. file_read old v = (x, adv n v)"
  by (auto simp: file_read_def adv_def Let_def)

lemma read_adv: "\<exists>x n. read16 o16 v = (x, adv n v)" "\<exists>x n. read32 o32 v = (x, adv n v)" "\<exists>x n. read8 o8 v = (x, adv n v)"
  using file_read_adv [of "le16 o16" v] file_read_adv [of "le32 o32" v] file_read_adv [of "[o8]" v]
  by (auto simp: read16_def read32_def read8_def)

lemma read_pcentry_adv: "\<exists>x n. read_pcentry e v = (x, adv n v)"
proof -
  obtain a n1 where 1: "read16 (of_nat (opcode e)) v = (a, adv n1 v)" using read_adv(1) by blast
  obtain b n2 where 2: "read16 (flag e) (adv n1 v) = (b, adv n2 (adv n1 v))" using read_adv(1) by blast
  obtain c n3 where 3: "read32 (of_int (operand e)) (adv (n1 + n2) v) = (c, adv n3 (adv (n1 + n2) v))" using read_adv(2) by blast
  obtain d n4 where 4: "read32 (of_int (byteoff e)) (adv (n1 + n2 + n3) v) = (d, adv n4 (adv (n1 + n2 + n3) v))" using read_adv(2) by blast
  obtain f n5 where 5: "read32 (of_int (increasing_byteoff e)) (adv (n1 + n2 + n3 + n4) v) = (f, adv n5 (adv (n1 + n2 + n3 + n4) v))"
    using read_adv(2) by blast
  obtain g n6 where 6: "read32 (nativeoff e) (adv (n1 + n2 + n3 + n4 + n5) v) = (g, adv n6 (adv (n1 + n2 + n3 + n4 + n5) v))"
    using read_adv(2) by blast
  show ?thesis using 1 2 3 4 5 6 by (auto simp add: read_pcentry_def add.assoc)
qed

lemma read_throwentry_adv: "\<exists>x n. read_throwentry e v = (x, adv n v)"
proof -
  obtain a n1 where 1: "read32 (te_start e) v = (a, adv n1 v)" using read_adv(2) by blast
  obtain b n2 where 2: "read16 (te_byteoff e) (adv n1 v) = (b, adv n2 (adv n1 v))" using read_adv(1) by blast
  obtain c n3 where 3: "read8 (te_len e) (adv (n1 + n2) v) = (c, adv n3 (adv (n1 + n2) v))" using read_adv(3) by blast
  obtain d n4 where 4: "read8 (te_patched_code e) (adv (n1 + n2 + n3) v) = (d, adv n4 (adv (n1 + n2 + n3) v))" using read_adv(3) by blast
  obtain f n5 where 5: "read32 (of_int (te_cb e)) (adv (n1 + n2 + n3 + n4) v) = (f, adv n5 (adv (n1 + n2 + n3 + n4) v))"
    using read_adv(2) by blast
  obtain g n6 where 6: "read16 (te_opcode e) (adv (n1 + n2 + n3 + n4 + n5) v) = (g, adv n6 (adv (n1 + n2 + n3 + n4 + n5) v))"
    using read_adv(1) by blast
  show ?thesis using 1 2 3 4 5 6 by (auto simp add: read_throwentry_def add.assoc)
qed

lemma read_pcs_adv: "\<exists>n cc'. read_pcs js (v, cc) = (adv n v, cc') \<and> cc_mb cc' = cc_mb cc \<and> ref_count cc' = ref_count cc"
proof (induction js arbitrary: v cc)
  case Nil
  show ?case by (rule exI [of _ 0]) (simp add: adv_def)
next
  case (Cons i js)
  obtain e n where e: "read_pcentry (pc_cell cc i) v = (e, adv n v)" using read_pcentry_adv by blast
  from Cons [of "adv n v" "pc_upd cc i (\<lambda>_. e)"] e show ?case by (auto simp: pc_upd_def)
qed

lemma read_throws_adv: "\<exists>n i'. read_throws js (v, i) = (adv n v, i') \<and> info_cc i' = info_cc i"
proof (induction js arbitrary: v i)
  case Nil
  show ?case by (rule exI [of _ 0]) (simp add: adv_def)
next
  case (Cons j js)
  obtain e n where e: "read_throwentry (te_cell i j) v = (e, adv n v)" using read_throwentry_adv by blast
  from Cons [of "adv n v" "te_upd i j (\<lambda>_. e)"] e show ?case by (auto simp: te_upd_def)
qed

lemma read_code_shape:
  "\<exists>k n bytes i cc'. read_code E (v, cc) =
     ((mb_upd (cc_mb cc) (\<lambda>m. m\<lparr>CompiledCode := next_addr v, compiled_bytes := bytes\<rparr>)
        (adv n v\<lparr>next_addr := next_addr v + max 1 (uint (k :: u32))\<rparr>))
        \<lparr>infos := (infos v)(CompiledCodeInfo (methods v (cc_mb cc)) := i)\<rparr>, cc') \<and>
     info_cc i = info_cc (infos v (CompiledCodeInfo (methods v (cc_mb cc)))) \<and> cc_mb cc' = cc_mb cc \<and>
     ref_count cc' = ref_count cc"
proof -
  let ?i = "infos v (CompiledCodeInfo (methods v (cc_mb cc)))"
  obtain sz n1 where 1: "read32 (code_size ?i) v = (sz, adv n1 v)" using read_adv(2) by blast
  let ?v1 = "adv n1 v"
  obtain len n2 where 2: "read32 (get32 (map (fresh_byte (fresh_context E)) [0..<4]) 0) ?v1 = (len, adv n2 ?v1)" using read_adv(2) by blast
  let ?v2 = "adv (n1 + n2) v"
  obtain tlen n3 where 3: "read32 (of_nat (throwtablelen ?i)) ?v2 = (tlen, adv n3 ?v2)" using read_adv(2) by blast
  let ?v3 = "adv (n1 + n2 + n3) v"
  obtain eoff n4 where 4: "read32 (exc_handler_nativeoff ?i) ?v3 = (eoff, adv n4 ?v3)" using read_adv(2) by blast
  let ?v4 = "adv (n1 + n2 + n3 + n4) v"
  obtain roff n5 where 5: "read32 (finish_return_nativeoff ?i) ?v4 = (roff, adv n5 ?v4)" using read_adv(2) by blast
  let ?v5 = "adv (n1 + n2 + n3 + n4 + n5) v"
  let ?c = "pctableExtend (pctableSetLen cc (unat len)) (pctableLen (pctableSetLen cc (unat len)))"
  obtain n6 c6 where 6: "read_pcs [0..<pctableLen (pctableSetLen cc (unat len))] (?v5, ?c) = (adv n6 ?v5, c6)" "cc_mb c6 = cc_mb ?c" "ref_count c6 = ref_count ?c"
    using read_pcs_adv by blast
  let ?v6 = "adv (n1 + n2 + n3 + n4 + n5 + n6) v"
  let ?i6 = "throwtableExtend (?i\<lparr>code_size := sz, throwtablelen := unat tlen, exc_handler_nativeoff := eoff, finish_return_nativeoff := roff\<rparr>) (unat tlen)"
  obtain n7 i7 where 7: "read_throws [0..<unat tlen] (?v6, ?i6) = (adv n7 ?v6, i7)" "info_cc i7 = info_cc ?i6"
    using read_throws_adv by blast
  let ?v7 = "adv (n1 + n2 + n3 + n4 + n5 + n6 + n7) v\<lparr>next_addr := next_addr v + max 1 (uint (code_size i7))\<rparr>"
  obtain bytes n8 where 8: "file_read (map (fresh_byte (fresh_context E)) [0..<unat (code_size i7)]) ?v7 = (bytes, adv n8 ?v7)"
    using file_read_adv by blast
  have mb: "cc_mb ?c = cc_mb cc" "ref_count ?c = ref_count cc"
    by (simp_all add: pctableExtend_def pctableSetLen_def Let_def)
  have i: "info_cc ?i6 = info_cc ?i" by (simp add: throwtableExtend_def)
  have "read_code E (v, cc) =
     ((mb_upd (cc_mb cc) (\<lambda>m. m\<lparr>CompiledCode := next_addr v, compiled_bytes := bytes\<rparr>)
        (adv (n1 + n2 + n3 + n4 + n5 + n6 + n7 + n8) v\<lparr>next_addr := next_addr v + max 1 (uint (code_size i7))\<rparr>))
        \<lparr>infos := (infos v)(CompiledCodeInfo (methods v (cc_mb cc)) := i7)\<rparr>, c6)"
    using 1 2 3 4 5 6(1) 7(1) 8 by (simp add: read_code_def Let_def add.assoc adv_def)
  then show ?thesis using 6(2,3) 7(2) mb i by metis
qed

lemma read_code_frame:
  assumes "readCompiledCode E (v, cc) = Inr (b, v', cc')"
  shows "vm_frame v v'" "exception_table (methods v' m) = exception_table (methods v m)" "cc_mb cc' = cc_mb cc"
    "ref_count cc' = ref_count cc"
proof -
  have "vm_frame v v' \<and> (\<forall>m. exception_table (methods v' m) = exception_table (methods v m)) \<and> cc_mb cc' = cc_mb cc \<and>
    ref_count cc' = ref_count cc"
  proof (cases "dbm_fetch E (db v) (code_key v (cc_mb cc))")
    case None
    with assms show ?thesis by (simp add: readCompiledCode_def Let_def)
  next
    case (Some x)
    let ?v = "v\<lparr>db_pos := nat (sint (get32 x 0))\<rparr>"
    from Some assms have r: "read_code E (?v, cc) = (v', cc')"
      by (auto simp: readCompiledCode_def Let_def split: if_splits)
    from read_code_shape [of E ?v cc] r obtain k n bytes i where s:
      "v' = (mb_upd (cc_mb cc) (\<lambda>m. m\<lparr>CompiledCode := next_addr v, compiled_bytes := bytes\<rparr>)
        (adv n ?v\<lparr>next_addr := next_addr v + max 1 (uint (k :: u32))\<rparr>))
        \<lparr>infos := (infos v)(CompiledCodeInfo (methods v (cc_mb cc)) := i)\<rparr>"
      "info_cc i = info_cc (infos v (CompiledCodeInfo (methods v (cc_mb cc))))" "cc_mb cc' = cc_mb cc"
      "ref_count cc' = ref_count cc" by auto
    have "vm_frame v v'" by (rule vm_frameI) (simp_all add: s adv_def)
    then show ?thesis by (simp add: s(1,3,4))
  qed
  then show "vm_frame v v'" "exception_table (methods v' m) = exception_table (methods v m)" "cc_mb cc' = cc_mb cc"
    "ref_count cc' = ref_count cc" by simp_all
qed

lemma get_same:
  assumes "CompiledCodeInfo (methods v mb) \<noteq> NULL"
  shows "\<exists>c v'. getCompilerContext E mb v = Inr (c, v') \<and> methods v' = methods v \<and> classes v' = classes v \<and>
    options v' = options v \<and> db v' = db v \<and> db_page v' = db_page v \<and> (\<forall>i. te_ok (infos v' i) = te_ok (infos v i))"
  using assms by (auto simp: getCompilerContext_def newCompilerContext_def resetCompilerContext_def Let_def te_ok_def)

lemma invoker_same [simp]:
  "options (set_invoker mb f v) = options v" "db (set_invoker mb f v) = db v" "db_page (set_invoker mb f v) = db_page v"
  "infos (set_invoker mb f v) = infos v" "code_key (set_invoker mb f v) = code_key v"
  "CompiledCodeInfo (methods (set_invoker mb f v) m) = CompiledCodeInfo (methods v m)"
  "exception_table (methods (set_invoker mb f v) m) = exception_table (methods v m)"
  by (simp_all add: set_invoker_def code_key_def Let_def fun_eq_iff)

lemma stages_from_database:
  assumes "stage cc = STAGE_START" "OPT_SETQ OPT_CODEDB v" "readCompiledCode E (v, cc) = Inr (True, v1, cc1)"
    "finish_code E mb (v1, cc1\<lparr>stage := STAGE_STATIC_PART\<rparr>) = Inr v2"
  shows "run_stages fuel E compile p mb info STAGE_DONE (v, cc) = Inr (Going (v2, cc1\<lparr>stage := STAGE_DONE\<rparr>))"
  using assms
  by (simp add: run_stages_def andThen_def first_stage_def second_stage_def third_stage_def stage_le_DONE set_stage_def)

lemma database_compiles:
  assumes "ctx_inv v ps" "compilable E (methods v mb)" "mb_clazz (methods v mb) \<noteq> NULL"
    and "CompiledCodeInfo (methods v mb) \<noteq> NULL" "ctx_of v mb = NULL" "te_ok (infos v (CompiledCodeInfo (methods v mb)))"
    and "OPT_SETQ OPT_CODEDB v" "stored E v (code_key v mb) (record_of (methods v0 (cc_mb cc0)) (info_of v0 cc0) cc0)"
    and "storable (v0, cc0)" "table_sorted cc0" "resolver_frame E"
    and "\<forall>cf \<in> set (exception_table (methods v mb)). cf_handler_pc cf \<in> increasing_byteoff ` set (live cc0)"
    and "\<forall>e \<in> set (live cc0). \<forall>(a, f) \<in> set (call_sites E e). f \<noteq> NULL"
  shows "\<exists>v' p. compileMethod (Suc n) fuel E mb STAGE_DONE v = Inr (False, v') \<and>
    invoker (methods v' mb) = sym_invokeJITCompiledMethod E \<and> ctx_of v' mb = NULL \<and> (\<exists>ps'. ctx_inv v' (p # ps'))"
proof -
  let ?info = "CompiledCodeInfo (methods v mb)"
  from get_same [OF assms(4)] obtain c v1 where g: "getCompilerContext E mb v = Inr (c, v1)"
    and same: "methods v1 = methods v" "classes v1 = classes v" "options v1 = options v" "db v1 = db v" "db_page v1 = db_page v"
      "te_ok (infos v1 ?info)" using assms(6) by metis
  from get_exclusive [OF assms(1,3) g reusable_cc_ok] assms(5) obtain ps1 where
    inv: "ctx_inv v1 ps1" "c \<noteq> NULL" "ctx_of v1 mb = c" "fresh_for cc_ok (contexts v1 c) mb" by auto
  have st: "cc_mb (contexts v1 c) = mb" "ref_count (contexts v1 c) = 1" "stage (contexts v1 c) = STAGE_START" "cc_ok (contexts v1 c)"
    using fresh_started [OF inv(4)] by (simp_all add: started_def)
  let ?v2 = "set_invoker mb (access2invoker E (mb_access (methods v1 mb))) v1"
  have k: "code_key v1 = code_key v" by (simp add: fun_eq_iff code_key_def same)
  have "stored E ?v2 (code_key ?v2 (cc_mb (contexts v1 c))) (record_of (methods v0 (cc_mb cc0)) (info_of v0 cc0) cc0)"
    using assms(8) by (simp add: stored_def same k st(1))
  from read_stored [OF this assms(9) st(4)] obtain v3 cc3 where
    r: "readCompiledCode E (?v2, contexts v1 c) = Inr (True, v3, cc3)" "code_equal (v0, cc0) (v3, cc3)" "cc_ok cc3"
    using same(1,6) st(1) by (auto simp: info_of_def)
  note f = read_code_frame [OF r(1)]
  let ?cc4 = "cc3\<lparr>stage := STAGE_STATIC_PART\<rparr>"
  have l: "live ?cc4 = live cc0" using r(2) by (simp add: code_equal_def Let_def live_def)
  have ok4: "cc_ok ?cc4" "table_sorted ?cc4" using r(3) assms(10) l by (simp_all add: cc_ok_def table_sorted_def)
  obtain v5 where v5: "finish_code E mb (v3, ?cc4) = Inr v5"
    using finish_code_total [OF assms(11) ok4, of v3 mb] assms(12,13) f(2,3) l st(1) same(1) by auto
  note fin = finish_code_frame [OF assms(11) v5]
  let ?cc6 = "cc3\<lparr>stage := STAGE_DONE\<rparr>" let ?v6 = "cc_upd c (\<lambda>_. ?cc6) v5"
  have fr: "vm_frame v1 v5" using f(1) fin(1) by (meson frame_invoker vm_frame_trans)
  have c5: "ctx_of v5 mb = c" using fr inv(3) by (simp add: vm_frame_def)
  have cc6: "cc_mb ?cc6 = mb" "1 \<le> ref_count ?cc6" "cc_ok ?cc6" "ref_count ?cc6 = 1" using f(3,4) st r(3) by (simp_all add: cc_ok_def)
  note i6 = held_upd [OF frame_inv [OF inv(1) fr] c5 inv(2) cc6(1-3)]
  have c6: "ctx_of ?v6 mb = c" using i6(2) c5 by simp
  from release_counts [OF i6(1) c6 inv(2) reusable_cc_ok] cc6(4)
  have rel: "ctx_inv (releaseCompilerContext c ?v6) (c # ps1)" "ctx_of (releaseCompilerContext c ?v6) mb = NULL" by simp_all
  have run: "run_stages fuel E (compileMethod n fuel E) c mb ?info STAGE_DONE (?v2, contexts v1 c) = Inr (Going (v5, ?cc6))"
    by (rule stages_from_database [OF st(3) _ r(1) v5]) (use assms(7) same(3) in \<open>simp add: OPT_SETQ_def\<close>)
  have "compileMethod (Suc n) fuel E mb STAGE_DONE v = Inr (False, releaseCompilerContext c ?v6)"
    using assms(2,4) g st(3) run
    by (simp add: compile_body_def compilable_def need_info_def compile_held_def stage_le_DONE conclude_def Let_def)
  with rel fin(2) show ?thesis by auto
qed

definition codes_in_range :: "vm \<Rightarrow> bool" where
  \<comment> \<open>the native code of all methods lies between the bounds that the signal handler looks at\<close>
  "codes_in_range v \<longleftrightarrow> (\<forall>m. CompiledCode (methods v m) \<noteq> NULL \<longrightarrow>
     compiledcode_min v \<le> CompiledCode (methods v m) \<and>
     CompiledCode (methods v m) + int (length (compiled_bytes (methods v m))) \<le> compiledcode_max v)"

text \<open>C21: A method whose code is in the database is compiled without running a single pass over its
byte code, whatever the fuel: the compilation succeeds, the method is invoked through its native
code, and its context is back in the pool.\<close>
theorem compile_from_database:
  assumes "ctx_inv v ps" "compilable E (methods v mb)" "mb_clazz (methods v mb) \<noteq> NULL"
    and "CompiledCodeInfo (methods v mb) \<noteq> NULL" "ctx_of v mb = NULL" "te_ok (infos v (CompiledCodeInfo (methods v mb)))"
    and "OPT_SETQ OPT_CODEDB v" "stored E v (code_key v mb) (record_of (methods v0 (cc_mb cc0)) (info_of v0 cc0) cc0)"
    and "storable (v0, cc0)" "table_sorted cc0" "resolver_frame E"
    and "\<forall>cf \<in> set (exception_table (methods v mb)). cf_handler_pc cf \<in> increasing_byteoff ` set (live cc0)"
    and "\<forall>e \<in> set (live cc0). \<forall>(a, f) \<in> set (call_sites E e). f \<noteq> NULL"
  shows "\<exists>v' p. compileMethod (Suc n) fuel E mb STAGE_DONE v = Inr (False, v') \<and>
    invoker (methods v' mb) = sym_invokeJITCompiledMethod E \<and> ctx_of v' mb = NULL \<and> (\<exists>ps'. ctx_inv v' (p # ps'))"
  by (rule database_compiles [OF assms])

text \<open>C22: Installing code keeps the native code of all methods between the bounds that tell the signal
handler what is compiled code. The lower bound, which is only ever lowered and starts as \<open>NULL\<close>,
stays there.\<close>
theorem install_code_range:
  assumes "codes_in_range v" "bufp cc \<le> length (buffer cc)"
  shows "codes_in_range (install_code mb info (v, cc)) \<and>
    (compiledcode_min v = NULL \<longrightarrow> 0 \<le> next_addr v \<longrightarrow> compiledcode_min (install_code mb info (v, cc)) = NULL)"
proof -
  have "compiledcode_min (install_code mb info (v, cc)) = min (compiledcode_min v) (next_addr v)"
    "compiledcode_max (install_code mb info (v, cc)) = max (compiledcode_max v) (next_addr v + int (bufp cc))"
    "methods (install_code mb info (v, cc)) = (methods v)(mb := (methods v mb)\<lparr>CompiledCode := next_addr v, compiled_bytes := take (bufp cc) (buffer cc)\<rparr>)"
    by (auto simp: install_code_def Let_def)
  then show ?thesis using assms by (auto simp: codes_in_range_def min_def max_def)
qed

subsection \<open>Witnesses\<close>

definition compile_env :: env where
  \<comment> \<open>an environment in which nothing has to be resolved; for witnesses\<close>
  "compile_env = db_env\<lparr>resolve := (\<lambda>v c i t. (v, True)), sym_invokeJITCompiledMethod := 1000, func_table := (\<lambda>_ _. [])\<rparr>"

definition compile_vm :: vm where
  \<comment> \<open>method 7 is linked, but not compiled; its code is in the database\<close>
  "compile_vm = (writeCompiledCode compile_env (db_vm ''f'', db_cc 7))\<lparr>
     methods := (\<lambda>m. (methods (db_vm ''f'') m)\<lparr>CompiledCodeInfo := (if m = 7 then 50 else NULL)\<rparr>),
     options := push_bit (opt_num OPT_CODEDB) 1\<rparr>"

lemma compile_vm_methods:
  "methods compile_vm m = (methods (db_vm ''f'') m)\<lparr>CompiledCodeInfo := (if m = 7 then 50 else NULL)\<rparr>"
  "infos compile_vm i = zero_info\<lparr>code_size := 1\<rparr>" "cc_pool compile_vm = NULL" "next_addr compile_vm = 100"
proof -
  have "db_page (db_vm ''f'') = []" by (simp add: db_vm_def sample_vm_def)
  then have "cc_pool (writeCompiledCode compile_env (db_vm ''f'', db_cc 7)) = cc_pool (db_vm ''f'')"
    "next_addr (writeCompiledCode compile_env (db_vm ''f'', db_cc 7)) = next_addr (db_vm ''f'')"
    by (simp_all add: writeCompiledCode_eq Let_def written_def)
  then show "cc_pool compile_vm = NULL" "next_addr compile_vm = 100"
    by (simp_all add: compile_vm_def) (simp_all add: db_vm_def sample_vm_def)
qed (simp_all add: compile_vm_def write_methods, simp add: db_vm_def)

lemma compile_vm_ok:
  "ctx_inv compile_vm []" "compilable compile_env (methods compile_vm 7)" "mb_clazz (methods compile_vm 7) \<noteq> NULL"
  "CompiledCodeInfo (methods compile_vm 7) \<noteq> NULL" "ctx_of compile_vm 7 = NULL"
  "te_ok (infos compile_vm (CompiledCodeInfo (methods compile_vm 7)))" "OPT_SETQ OPT_CODEDB compile_vm"
  "exception_table (methods compile_vm 7) = []" "resolver_frame compile_env" "call_sites compile_env e = []"
proof -
  show c: "ctx_of compile_vm m = NULL" for m by (simp add: ctx_of_def compile_vm_methods zero_info_def)
  show "ctx_inv compile_vm []" by (simp add: ctx_inv_for_def c) (simp add: compile_vm_methods)
  show "OPT_SETQ OPT_CODEDB compile_vm" by (simp add: OPT_SETQ_def compile_vm_def)
qed (simp_all add: compile_vm_methods db_info compile_env_def call_sites_def resolver_frame_def compilable_def db_vm_def sample_vm_def acc_def db_env_def sample_env_def)

lemma compile_vm_stored:
  "stored compile_env compile_vm (code_key compile_vm 7)
     (record_of (methods (db_vm ''f'') (cc_mb (db_cc 7))) (info_of (db_vm ''f'') (db_cc 7)) (db_cc 7))"
proof -
  have "dbm_law compile_env" by (simp add: dbm_law_def compile_env_def db_env_def)
  moreover have "length (db_page (db_vm ''f'')) < 2 ^ 31" by (simp add: db_vm_def sample_vm_def)
  ultimately have "stored compile_env (writeCompiledCode compile_env (db_vm ''f'', db_cc 7)) (code_key (db_vm ''f'') (cc_mb (db_cc 7)))
     (record_of (methods (db_vm ''f'') (cc_mb (db_cc 7))) (info_of (db_vm ''f'') (db_cc 7)) (db_cc 7))"
    by (rule write_stores)
  moreover have "code_key compile_vm 7 = code_key (db_vm ''f'') 7"
    by (simp add: code_key_def compile_vm_methods) (simp add: compile_vm_def write_methods Let_def)
  moreover have "db compile_vm = db (writeCompiledCode compile_env (db_vm ''f'', db_cc 7))"
    "db_page compile_vm = db_page (writeCompiledCode compile_env (db_vm ''f'', db_cc 7))"
    by (simp_all add: compile_vm_def)
  ultimately show ?thesis by (simp add: stored_def db_cc)
qed

lemma db_cc_sorted: "table_sorted (db_cc 7)"
proof -
  have "length (live (db_cc 7)) = 1" using db_cc by simp
  then show ?thesis by (auto simp: table_sorted_def length_Suc_conv)
qed

lemmas compile_vm_premises = compile_vm_ok(1-7) compile_vm_stored db_storable db_cc_sorted compile_vm_ok(9)

theorem compile_from_database_witness:
  "\<exists>v'. compileMethod 1 0 compile_env 7 STAGE_DONE compile_vm = Inr (False, v') \<and> invoker (methods v' 7) = 1000 \<and> ctx_of v' 7 = NULL"
proof -
  from compile_from_database [OF compile_vm_premises, of 0 0] compile_vm_ok(8,10)
  obtain v' where "compileMethod (Suc 0) 0 compile_env 7 STAGE_DONE compile_vm = Inr (False, v')"
    "invoker (methods v' 7) = sym_invokeJITCompiledMethod compile_env" "ctx_of v' 7 = NULL" by fastforce
  then show ?thesis by (simp add: compile_env_def)
qed


theorem stage_reached_leaks_witness:
  "compileMethod 1 0 compile_env 7 STAGE_START (cc_upd 60 (ref_count_update (\<lambda>_. 1)) (info_upd 50 (info_cc_update (\<lambda>_. 60)) compile_vm)) =
     Inr (False, cc_upd 60 (ref_count_update (\<lambda>n. n + 1)) (cc_upd 60 (ref_count_update (\<lambda>_. 1)) (info_upd 50 (info_cc_update (\<lambda>_. 60)) compile_vm)))"
proof -
  let ?v = "cc_upd 60 (ref_count_update (\<lambda>_. 1)) (info_upd 50 (info_cc_update (\<lambda>_. 60)) compile_vm)"
  have m: "methods ?v = methods compile_vm" by simp
  have "ctx_of ?v 7 = 60" by (simp add: ctx_of_def compile_vm_methods)
  moreover have "STAGE_START \<le> stage (contexts ?v 60)" by (simp add: less_eq_CompilationStage_def stage_num_def)
  ultimately show ?thesis
    using stage_reached_leaks [of compile_env ?v 7 60 STAGE_START 0 0] compile_vm_ok(2,4) by simp
qed

theorem install_code_range_witness:
  "codes_in_range (install_code 7 50 (compile_vm, fresh_cc\<lparr>bufp := 1\<rparr>)) \<and>
     compiledcode_min (install_code 7 50 (compile_vm, fresh_cc\<lparr>bufp := 1\<rparr>)) = NULL"
proof -
  have "db_page (db_vm ''f'') = []" by (simp add: db_vm_def sample_vm_def)
  then have "compiledcode_min (writeCompiledCode compile_env (db_vm ''f'', db_cc 7)) = compiledcode_min (db_vm ''f'')"
    by (simp add: writeCompiledCode_eq Let_def written_def)
  then have "compiledcode_min compile_vm = NULL" by (simp add: compile_vm_def) (simp add: db_vm_def sample_vm_def)
  moreover have "codes_in_range compile_vm" by (simp add: codes_in_range_def compile_vm_methods) (simp add: db_vm_def sample_vm_def)
  moreover have "bufp (fresh_cc\<lparr>bufp := 1\<rparr>) \<le> length (buffer (fresh_cc\<lparr>bufp := 1\<rparr>))" by (simp add: fresh_cc_def)
  ultimately show ?thesis using install_code_range [of compile_vm "fresh_cc\<lparr>bufp := 1\<rparr>" 7 50] by (simp add: compile_vm_methods)
qed

end
