(* ===== verification/LongWords.thy ===== *)
theory LongWords
  imports Prelude
begin

text \<open>
  64-bit values as pairs of 32-bit words, the way the compiled code keeps a Java \<open>long\<close>: how the
  operations on the whole are computed from the halves.
\<close>

type_synonym u64 = "64 word"

definition dbl :: "u32 \<Rightarrow> u32 \<Rightarrow> u64" where
  "dbl h l = word_cat h l"

definition lo32 :: "u64 \<Rightarrow> u32" where
  "lo32 x = ucast x"

definition hi32 :: "u64 \<Rightarrow> u32" where
  "hi32 x = ucast (drop_bit 32 x)"

lemma bit_dbl: "bit (dbl h l) n \<longleftrightarrow> (if n < 32 then bit l n else bit h (n - 32))"
  by (auto simp: dbl_def bit_word_cat_iff dest: bit_imp_le_length)

lemma lo32_dbl [simp]: "lo32 (dbl h l) = l"
  by (rule bit_word_eqI) (simp add: lo32_def bit_ucast_iff bit_dbl)

lemma hi32_dbl [simp]: "hi32 (dbl h l) = h"
  by (rule bit_word_eqI) (simp add: hi32_def bit_ucast_iff bit_drop_bit_eq bit_dbl)

lemma dbl_hi32_lo32 [simp]: "dbl (hi32 x) (lo32 x) = x"
  by (rule bit_word_eqI) (auto simp: lo32_def hi32_def bit_ucast_iff bit_drop_bit_eq bit_dbl)

lemma dbl_of_nat: "b < 2 ^ 32 \<Longrightarrow> dbl (of_nat a) (of_nat b) = of_nat (a * 2 ^ 32 + b)"
proof -
  assume b: "b < 2 ^ 32"
  have "push_bit 32 (ucast (of_nat a :: u32) :: u64) = push_bit 32 (of_nat a)"
    by (rule bit_word_eqI) (auto simp: bit_push_bit_iff bit_ucast_iff bit_of_nat_iff not_le)
  moreover have "(ucast (of_nat b :: u32) :: u64) = of_nat b"
    using b by (simp add: word_unat_eq_iff unsigned_ucast_eq unsigned_of_nat take_bit_nat_eq_self)
  ultimately show ?thesis by (simp add: dbl_def word_cat_eq push_bit_eq_mult)
qed

lemma unat_less32: "unat (l :: u32) < 2 ^ 32"
  using unsigned_less [of l] by simp

lemma dbl_eq: "dbl h l = of_nat (unat h * 2 ^ 32 + unat l)"
  using dbl_of_nat [OF unat_less32, of "unat h" l] by simp

lemma dbl_carry: "of_nat (a * 2 ^ 32 + b) = dbl (of_nat (a + b div 2 ^ 32)) (of_nat b)"
proof -
  have "(of_nat b :: u32) = of_nat (b mod 2 ^ 32)"
    by (simp add: word_of_nat_eq_iff take_bit_eq_mod)
  then have "dbl (of_nat (a + b div 2 ^ 32)) (of_nat b) = of_nat ((a + b div 2 ^ 32) * 2 ^ 32 + b mod 2 ^ 32)"
    using dbl_of_nat [of "b mod 2 ^ 32" "a + b div 2 ^ 32"] by simp
  also have "(a + b div 2 ^ 32) * 2 ^ 32 + b mod 2 ^ 32 = a * 2 ^ 32 + b"
    by (simp add: add_mult_distrib)
  finally show ?thesis by simp
qed

lemma dbl_add: "dbl h l + dbl h' l' = dbl (h + h' + of_nat (if 2 ^ 32 \<le> unat l + unat l' then 1 else 0)) (l + l')"
proof -
  have "dbl h l + dbl h' l' = of_nat ((unat h + unat h') * 2 ^ 32 + (unat l + unat l'))"
    by (simp add: dbl_eq algebra_simps)
  also have "\<dots> = dbl (of_nat (unat h + unat h' + (unat l + unat l') div 2 ^ 32)) (of_nat (unat l + unat l'))"
    by (rule dbl_carry)
  also have "(unat l + unat l') div 2 ^ 32 = (if 2 ^ 32 \<le> unat l + unat l' then 1 else 0)"
    using unat_less32 [of l] unat_less32 [of l'] by (auto simp: div_if)
  finally show ?thesis by simp
qed

lemma dbl_sub: "dbl h l - dbl h' l' = dbl (h - h' - of_nat (if unat l < unat l' then 1 else 0)) (l - l')"
proof -
  let ?b = "of_nat (if unat l < unat l' then 1 else 0)" and ?d = "l - l'"
  have "(2 ^ 32 \<le> unat ?d + unat l') = (unat l < unat l')"
    using unat_less32 [of l] unat_less32 [of l'] by (simp add: unat_sub_if')
  then have "dbl (h - h' - ?b) ?d + dbl h' l' = dbl h l" by (simp add: dbl_add)
  then show ?thesis by (metis add_diff_cancel)
qed

lemma dbl_uminus: "- dbl h l = dbl (- (h + of_nat (if l = 0 then 0 else 1))) (- l)"
proof -
  have z: "dbl 0 0 = 0" by (simp add: dbl_def word_cat_eq)
  have "- dbl h l = dbl 0 0 - dbl h l" by (simp add: z)
  also have "\<dots> = dbl (0 - h - of_nat (if unat (0::u32) < unat l then 1 else 0)) (0 - l)" by (rule dbl_sub)
  finally show ?thesis by (auto simp: unat_gt_0)
qed

lemma dbl_mult:
  "dbl h l * dbl h' l' = dbl (hi32 (ucast l * ucast l') + h * l' + l * h') (l * l')"
proof -
  let ?p = "unat l * unat l'"
  have n: "unat (ucast x :: u64) = unat x" for x :: "u32"
    using unat_less32 [of x] by (simp add: unsigned_ucast_eq take_bit_nat_eq_self)
  have k: "(18446744073709551616 :: u64) = 0" by (rule word_unat_eq_iff [THEN iffD2]) simp
  have p: "ucast l * ucast l' = (of_nat ?p :: u64)"
    by (simp add: n [symmetric])
  have "dbl h l * dbl h' l' = of_nat (unat h * unat h' * 2 ^ 64 + ((unat h * unat l' + unat l * unat h') * 2 ^ 32 + ?p))"
    by (simp add: dbl_eq algebra_simps)
  also have "\<dots> = of_nat ((unat h * unat l' + unat l * unat h') * 2 ^ 32 + ?p)" by (simp add: k)
  also have "\<dots> = dbl (of_nat (unat h * unat l' + unat l * unat h' + ?p div 2 ^ 32)) (of_nat ?p)" by (rule dbl_carry)
  also have "of_nat (?p div 2 ^ 32) = hi32 (ucast l * ucast l')"
    using dbl_carry [of 0 ?p] by (metis p add_0 hi32_dbl mult_zero_left)
  then have "of_nat (unat h * unat l' + unat l * unat h' + ?p div 2 ^ 32) = hi32 (ucast l * ucast l') + h * l' + l * h'"
    by simp
  finally show ?thesis by simp
qed

lemma lo32_high_mult: "lo32 (ucast l * ucast l') = l * l'" for l :: "u32"
proof -
  have "dbl 0 x = ucast x" for x by (simp add: dbl_def)
  then have "ucast l * ucast l' = dbl (hi32 (ucast l * ucast l')) (l * l')" using dbl_mult [of 0 l 0 l'] by simp
  then show ?thesis by (metis lo32_dbl)
qed


lemma uint_dbl: "uint (dbl h l) = uint h * 2 ^ 32 + uint l"
proof -
  have "unat (dbl h l) = unat h * 2 ^ 32 + unat l"
    using unat_less32 [of h] unat_less32 [of l] unfolding dbl_eq unsigned_of_nat
    by (simp add: take_bit_nat_eq_self)
  then have "int (unat (dbl h l)) = int (unat h) * 2 ^ 32 + int (unat l)" by (simp only:) simp
  then show ?thesis by simp
qed

lemma sint_by_uint: "sint (w :: 'a::len word) = uint w - (if bit w (LENGTH('a) - 1) then 2 ^ LENGTH('a) else 0)"
  by (simp add: sint_uint signed_take_bit_eq_take_bit_minus take_bit_int_eq_self bit_uint_iff)

lemma sint_dbl: "sint (dbl h l) = sint h * 2 ^ 32 + uint l"
  by (simp add: sint_by_uint uint_dbl bit_dbl algebra_simps)

lemma dbl_less: "sint (dbl h l) < sint (dbl h' l') \<longleftrightarrow> sint h < sint h' \<or> h = h' \<and> l < l'"
proof -
  have "sint h = sint h' \<longleftrightarrow> h = h'" by (metis signed_word_eqI)
  moreover have "0 \<le> uint l" "uint l < 2 ^ 32" "0 \<le> uint l'" "uint l' < 2 ^ 32"
    using unsigned_less [of l, where ?'a = int] unsigned_less [of l', where ?'a = int] by simp_all
  moreover have "x * 2 ^ 32 + a < y * 2 ^ 32 + b \<longleftrightarrow> x < y \<or> x = y \<and> a < b"
    if "0 \<le> a" "a < 2 ^ 32" "0 \<le> b" "b < 2 ^ 32" for x y a b :: int
    using that by auto
  ultimately show ?thesis by (simp add: sint_dbl word_less_def)
qed

lemma lo32_bitwise [simp]:
  "lo32 (x AND y) = lo32 x AND lo32 y" "lo32 (x OR y) = lo32 x OR lo32 y" "lo32 (x XOR y) = lo32 x XOR lo32 y"
  by (rule bit_word_eqI; simp add: lo32_def bit_simps)+

lemma hi32_bitwise [simp]:
  "hi32 (x AND y) = hi32 x AND hi32 y" "hi32 (x OR y) = hi32 x OR hi32 y" "hi32 (x XOR y) = hi32 x XOR hi32 y"
  by (rule bit_word_eqI; simp add: hi32_def bit_simps)+

lemma dbl_sign: "(scast a :: u64) = dbl (signed_drop_bit 31 a) a"
  proof (rule bit_word_eqI)
  fix n assume n: "n < LENGTH(64)"
  consider "n < 31" | "n = 31" | "n = 32" | "32 < n" by linarith
  then show "bit (scast a :: u64) n = bit (dbl (signed_drop_bit 31 a) a) n"
    using n by cases (auto simp: bit_dbl bit_simps min_def)
qed

lemma dbl_push: "push_bit n (dbl h l) =
    (if n < 32 then dbl (push_bit n h OR drop_bit (32 - n) l) (push_bit n l) else dbl (push_bit (n - 32) l) 0)"
  by (rule bit_word_eqI) (auto simp: bit_dbl bit_simps ac_simps min_def dest: bit_imp_le_length)

lemma dbl_drop: "drop_bit n (dbl h l) =
    (if n < 32 then dbl (drop_bit n h) (drop_bit n l OR push_bit (32 - n) h) else dbl 0 (drop_bit (n - 32) h))"
  by (rule bit_word_eqI) (auto simp: bit_dbl bit_simps ac_simps min_def dest: bit_imp_le_length)

lemma dbl_sdrop: "signed_drop_bit n (dbl h l) =
    (if n < 32 then dbl (signed_drop_bit n h) (drop_bit n l OR push_bit (32 - n) h)
     else dbl (signed_drop_bit 31 h) (signed_drop_bit (n - 32) h))"
  proof (rule bit_word_eqI)
  fix k assume k: "k < LENGTH(64)"
  consider "k < 32" | "k = 32" | "32 < k" by linarith
  then show "bit (signed_drop_bit n (dbl h l)) k = bit (if n < 32 then dbl (signed_drop_bit n h) (drop_bit n l OR push_bit (32 - n) h)
     else dbl (signed_drop_bit 31 h) (signed_drop_bit (n - 32) h)) k"
    using k
  proof cases
    case 2
    then show ?thesis by (simp add: bit_dbl bit_simps) arith
  qed (auto simp: bit_dbl bit_simps ac_simps dest: bit_imp_le_length)
qed

end
