(* ===== verification/Machine.thy ===== *)
theory Machine
  imports VM LongWords
begin

text \<open>
  The machine the templates of \<^verbatim>\<open>code.c\<close> run on: the registers and flags they use, the native
  stack that carries the operand stack of a frame, the variables at \<open>%esi\<close> and the memory that
  arrays live in. An instruction that reads a word the stack does not have is stuck; an access
  to the first page raises \<open>SIGSEGV\<close>, a division \<open>idivl\<close> cannot represent raises \<open>SIGFPE\<close>.
  The flags after a shift are left out; no template reads them.
\<close>

datatype reg = EAX | EDX | ECX | EDI

datatype operand =
    Reg reg
  | Imm u32
  | Const nat            \<comment> \<open>the immediate operand at the \<open>n\<close>-th \<open>SLOT_CONST\<close> of the template\<close>
  | Var nat              \<comment> \<open>\<open>SLOT_CONST(%esi)\<close>, with the \<open>n\<close>-th constant\<close>
  | Stack nat            \<comment> \<open>\<open>4n(%esp)\<close>\<close>
  | Below nat            \<comment> \<open>\<open>-4(n+1)(%esp)\<close>\<close>
  | At nat reg           \<comment> \<open>\<open>n(%reg)\<close>\<close>
  | Abs nat              \<comment> \<open>\<open>(SLOT_CONST)\<close>, an address\<close>
  | Idx reg nat reg      \<comment> \<open>\<open>(%base,%index,scale)\<close>\<close>

datatype alu = ADD | SUB | ADC | SBB | ANDL | ORL | XORL | IMUL

datatype shift = SHL | SHR | SAR

datatype cond = JE | JNE | JL | JGE | JG | JLE | JB | JNS

datatype width = MOVSB | MOVZW | MOVSW

datatype insn =
    Mov operand operand      \<comment> \<open>source first\<close>
  | Push reg
  | Pop reg
  | Xchg reg reg
  | Alu alu operand operand
  | Neg reg
  | Shift shift nat reg
  | ShiftCL shift reg
  | ShldCL reg reg
  | ShrdCL reg reg
  | Cmp operand operand      \<comment> \<open>\<open>cmpl a,b\<close> sets the flags of \<open>b - a\<close>\<close>
  | Test reg reg
  | TestCL u32
  | Setnz reg
  | Mull operand
  | Idiv reg
  | Lea reg nat reg reg      \<comment> \<open>\<open>leal (%base,%index,scale),%dst\<close>\<close>
  | Movx width reg nat reg reg \<comment> \<open>widening load from \<open>(%base,%index,scale)\<close>\<close>
  | MovB reg reg nat reg     \<comment> \<open>lo32 byte to \<open>(%base,%index,scale)\<close>\<close>
  | MovW reg reg nat reg     \<comment> \<open>lo32 half to \<open>(%base,%index,scale)\<close>\<close>
  | AddSP nat                \<comment> \<open>words\<close>
  | SubSP nat
  | Jcc cond nat             \<comment> \<open>forward to a label of the template\<close>
  | Jmp nat
  | JmpReg reg
  | Label nat
  | SignalError nat          \<comment> \<open>\<open>SIGNAL_ERROR0\<close>: leave for the exception handler\<close>

record mach =
  eax :: u32
  edx :: u32
  ecx :: u32
  edi :: u32
  zf :: bool
  sf :: bool
  cf :: bool
  ovf :: bool  \<comment> \<open>the overflow flag\<close>
  stk :: "u32 list"
  dead :: "nat \<Rightarrow> u32"   \<comment> \<open>what lies below the stack pointer, nearest first\<close>
  vars :: "u32 \<Rightarrow> u32"   \<comment> \<open>by byte offset from \<open>%esi\<close>\<close>
  memory :: "u32 \<Rightarrow> u8"

datatype problem = Stuck | Segv | Fpe

definition unmapped :: "u32 \<Rightarrow> bool" where
  \<comment> \<open>the first page\<close>
  "unmapped a \<longleftrightarrow> a < 4096"

lemma unmapped_null [simp]: "unmapped 0" "unmapped 4"
  by (simp_all add: unmapped_def)

definition word_at :: "(u32 \<Rightarrow> u8) \<Rightarrow> u32 \<Rightarrow> u32" where
  "word_at m a = get32 [m a, m (a + 1), m (a + 2), m (a + 3)] 0"

definition half_at :: "(u32 \<Rightarrow> u8) \<Rightarrow> u32 \<Rightarrow> 16 word" where
  "half_at m a = ucast (m a) OR push_bit 8 (ucast (m (a + 1)))"

definition store_word :: "u32 \<Rightarrow> u32 \<Rightarrow> (u32 \<Rightarrow> u8) \<Rightarrow> u32 \<Rightarrow> u8" where
  "store_word a v m = (let b = le32 v in m(a := b ! 0, a + 1 := b ! 1, a + 2 := b ! 2, a + 3 := b ! 3))"

definition store_half :: "u32 \<Rightarrow> u32 \<Rightarrow> (u32 \<Rightarrow> u8) \<Rightarrow> u32 \<Rightarrow> u8" where
  "store_half a v m = (let b = le32 v in m(a := b ! 0, a + 1 := b ! 1))"

definition store_byte :: "u32 \<Rightarrow> u32 \<Rightarrow> (u32 \<Rightarrow> u8) \<Rightarrow> u32 \<Rightarrow> u8" where
  "store_byte a v m = m(a := ucast v)"

fun get_reg :: "reg \<Rightarrow> mach \<Rightarrow> u32" where
  "get_reg EAX m = eax m" | "get_reg EDX m = edx m" | "get_reg ECX m = ecx m" | "get_reg EDI m = edi m"

fun set_reg :: "reg \<Rightarrow> u32 \<Rightarrow> mach \<Rightarrow> mach" where
  "set_reg EAX v m = m\<lparr>eax := v\<rparr>" | "set_reg EDX v m = m\<lparr>edx := v\<rparr>" | "set_reg ECX v m = m\<lparr>ecx := v\<rparr>"
| "set_reg EDI v m = m\<lparr>edi := v\<rparr>"

definition checked :: "u32 \<Rightarrow> 'a \<Rightarrow> problem + 'a" where
  "checked a x = (if unmapped a then Inl Segv else Inr x)"

abbreviation idx_addr :: "reg \<Rightarrow> nat \<Rightarrow> reg \<Rightarrow> mach \<Rightarrow> u32" where
  "idx_addr b s i m \<equiv> get_reg b m + of_nat s * get_reg i m"

fun read_op :: "u32 list \<Rightarrow> operand \<Rightarrow> mach \<Rightarrow> problem + u32" where
  "read_op ks (Reg r) m = Inr (get_reg r m)"
| "read_op ks (Imm v) m = Inr v"
| "read_op ks (Const n) m = (if n < length ks then Inr (ks ! n) else Inl Stuck)"
| "read_op ks (Var n) m = (if n < length ks then Inr (vars m (ks ! n)) else Inl Stuck)"
| "read_op ks (Stack n) m = (if n < length (stk m) then Inr (stk m ! n) else Inl Stuck)"
| "read_op ks (Below n) m = Inr (dead m n)"
| "read_op ks (Abs n) m = (if n < length ks then checked (ks ! n) (word_at (memory m) (ks ! n)) else Inl Stuck)"
| "read_op ks (At n r) m = (let a = get_reg r m + of_nat n in checked a (word_at (memory m) a))"
| "read_op ks (Idx b s i) m = (let a = idx_addr b s i m in checked a (word_at (memory m) a))"

fun write_op :: "u32 list \<Rightarrow> operand \<Rightarrow> u32 \<Rightarrow> mach \<Rightarrow> problem + mach" where
  "write_op ks (Reg r) v m = Inr (set_reg r v m)"
| "write_op ks (Imm _) v m = Inl Stuck"
| "write_op ks (Const n) v m = Inl Stuck"
| "write_op ks (Var n) v m = (if n < length ks then Inr (m\<lparr>vars := (vars m)(ks ! n := v)\<rparr>) else Inl Stuck)"
| "write_op ks (Stack n) v m = (if n < length (stk m) then Inr (m\<lparr>stk := (stk m)[n := v]\<rparr>) else Inl Stuck)"
| "write_op ks (Below n) v m = Inr (m\<lparr>dead := (dead m)(n := v)\<rparr>)"
| "write_op ks (Abs n) v m =
     (if n < length ks then checked (ks ! n) (m\<lparr>memory := store_word (ks ! n) v (memory m)\<rparr>) else Inl Stuck)"
| "write_op ks (At n r) v m = (let a = get_reg r m + of_nat n in checked a (m\<lparr>memory := store_word a v (memory m)\<rparr>))"
| "write_op ks (Idx b s i) v m = (let a = idx_addr b s i m in checked a (m\<lparr>memory := store_word a v (memory m)\<rparr>))"

definition carry :: "mach \<Rightarrow> nat" where
  "carry m = (if cf m then 1 else 0)"

fun alu_val :: "alu \<Rightarrow> mach \<Rightarrow> u32 \<Rightarrow> u32 \<Rightarrow> u32" where
  "alu_val ADD m a b = b + a"
| "alu_val SUB m a b = b - a"
| "alu_val ADC m a b = b + a + of_nat (carry m)"
| "alu_val SBB m a b = b - a - of_nat (carry m)"
| "alu_val ANDL m a b = b AND a"
| "alu_val ORL m a b = b OR a"
| "alu_val XORL m a b = b XOR a"
| "alu_val IMUL m a b = b * a"

fun alu_cf :: "alu \<Rightarrow> mach \<Rightarrow> u32 \<Rightarrow> u32 \<Rightarrow> bool" where
  "alu_cf ADD m a b = (2 ^ 32 \<le> unat b + unat a)"
| "alu_cf ADC m a b = (2 ^ 32 \<le> unat b + unat a + carry m)"
| "alu_cf SUB m a b = (unat b < unat a)"
| "alu_cf SBB m a b = (unat b < unat a + carry m)"
| "alu_cf IMUL m a b = (sint b * sint a \<noteq> sint (b * a))"
| "alu_cf _ m a b = False"

fun alu_of :: "alu \<Rightarrow> mach \<Rightarrow> u32 \<Rightarrow> u32 \<Rightarrow> bool" where
  "alu_of ADD m a b = (sint b + sint a \<noteq> sint (b + a))"
| "alu_of ADC m a b = (sint b + sint a + int (carry m) \<noteq> sint (alu_val ADC m a b))"
| "alu_of SUB m a b = (sint b - sint a \<noteq> sint (b - a))"
| "alu_of SBB m a b = (sint b - sint a - int (carry m) \<noteq> sint (alu_val SBB m a b))"
| "alu_of IMUL m a b = (sint b * sint a \<noteq> sint (b * a))"
| "alu_of _ m a b = False"

definition alu_flags :: "alu \<Rightarrow> u32 \<Rightarrow> u32 \<Rightarrow> mach \<Rightarrow> mach" where
  "alu_flags f a b m =
     m\<lparr>zf := alu_val f m a b = 0, sf := sint (alu_val f m a b) < 0, cf := alu_cf f m a b, ovf := alu_of f m a b\<rparr>"

lemma alu_flags_fields [simp]:
  "eax (alu_flags f a b m) = eax m" "edx (alu_flags f a b m) = edx m" "ecx (alu_flags f a b m) = ecx m"
  "edi (alu_flags f a b m) = edi m" "stk (alu_flags f a b m) = stk m" "dead (alu_flags f a b m) = dead m"
  "vars (alu_flags f a b m) = vars m" "memory (alu_flags f a b m) = memory m"
  "zf (alu_flags f a b m) = (alu_val f m a b = 0)" "sf (alu_flags f a b m) = (sint (alu_val f m a b) < 0)"
  "cf (alu_flags f a b m) = alu_cf f m a b" "ovf (alu_flags f a b m) = alu_of f m a b"
  by (simp_all add: alu_flags_def)

fun shift_val :: "shift \<Rightarrow> nat \<Rightarrow> u32 \<Rightarrow> u32" where
  "shift_val SHL n a = push_bit n a"
| "shift_val SHR n a = drop_bit n a"
| "shift_val SAR n a = signed_drop_bit n a"

definition shift_count :: "mach \<Rightarrow> nat" where
  "shift_count m = unat (ecx m AND 31)"

fun holds :: "cond \<Rightarrow> mach \<Rightarrow> bool" where
  "holds JE m = zf m"
| "holds JNE m = (\<not> zf m)"
| "holds JL m = (sf m \<noteq> ovf m)"
| "holds JGE m = (sf m = ovf m)"
| "holds JG m = (\<not> zf m \<and> sf m = ovf m)"
| "holds JLE m = (zf m \<or> sf m \<noteq> ovf m)"
| "holds JB m = cf m"
| "holds JNS m = (\<not> sf m)"

fun widen :: "width \<Rightarrow> (u32 \<Rightarrow> u8) \<Rightarrow> u32 \<Rightarrow> u32" where
  "widen MOVSB m a = scast (m a)"
| "widen MOVZW m a = ucast (half_at m a)"
| "widen MOVSW m a = scast (half_at m a)"

definition push :: "u32 \<Rightarrow> mach \<Rightarrow> mach" where
  "push v m = m\<lparr>stk := v # stk m, dead := (\<lambda>n. dead m (Suc n))\<rparr>"

definition drop_word :: "mach \<Rightarrow> problem + mach" where
  "drop_word m = (case stk m of [] \<Rightarrow> Inl Stuck | v # s \<Rightarrow> Inr (m\<lparr>stk := s, dead := case_nat v (dead m)\<rparr>))"

fun drop_words :: "nat \<Rightarrow> mach \<Rightarrow> problem + mach" where
  "drop_words 0 m = Inr m"
| "drop_words (Suc n) m = bindE (drop_word m) (drop_words n)"

fun regain :: "nat \<Rightarrow> mach \<Rightarrow> mach" where
  "regain 0 m = m"
| "regain (Suc n) m = regain n (push (dead m 0) m)"

definition idiv :: "u32 \<Rightarrow> mach \<Rightarrow> problem + mach" where
  \<comment> \<open>\<open>%edx:%eax\<close> by \<open>d\<close>; the quotient has to fit\<close>
  "idiv d m =
     (let n = sint (dbl (edx m) (eax m)); q = n sdiv sint d in
      if d = 0 \<or> q < - (2 ^ 31) \<or> 2 ^ 31 \<le> q then Inl Fpe
      else Inr (m\<lparr>eax := of_int q, edx := of_int (n smod sint d)\<rparr>))"

fun execute :: "u32 list \<Rightarrow> insn \<Rightarrow> mach \<Rightarrow> problem + mach" where
  "execute ks (Mov a b) m = bindE (read_op ks a m) (\<lambda>v. write_op ks b v m)"
| "execute ks (Push r) m = Inr (push (get_reg r m) m)"
| "execute ks (Pop r) m = (case stk m of [] \<Rightarrow> Inl Stuck | v # _ \<Rightarrow> bindE (drop_word m) (\<lambda>m. Inr (set_reg r v m)))"
| "execute ks (Xchg r s) m = Inr (set_reg s (get_reg r m) (set_reg r (get_reg s m) m))"
| "execute ks (Alu f a b) m =
     bindE (read_op ks a m) (\<lambda>x. bindE (read_op ks b m) (\<lambda>y.
       write_op ks b (alu_val f m x y) (alu_flags f x y m)))"
| "execute ks (Neg r) m = Inr (set_reg r (- get_reg r m) (alu_flags SUB (get_reg r m) 0 m))"
| "execute ks (Shift f n r) m = Inr (set_reg r (shift_val f n (get_reg r m)) m)"
| "execute ks (ShiftCL f r) m = Inr (set_reg r (shift_val f (shift_count m) (get_reg r m)) m)"
| "execute ks (ShldCL a b) m =
     Inr (if shift_count m = 0 then m
          else set_reg b (push_bit (shift_count m) (get_reg b m) OR drop_bit (32 - shift_count m) (get_reg a m)) m)"
| "execute ks (ShrdCL a b) m =
     Inr (if shift_count m = 0 then m
          else set_reg b (drop_bit (shift_count m) (get_reg b m) OR push_bit (32 - shift_count m) (get_reg a m)) m)"
| "execute ks (Cmp a b) m = bindE (read_op ks a m) (\<lambda>x. bindE (read_op ks b m) (\<lambda>y. Inr (alu_flags SUB x y m)))"
| "execute ks (Test r s) m = Inr (alu_flags ANDL (get_reg r m) (get_reg s m) m)"
| "execute ks (TestCL v) m = Inr (m\<lparr>zf := (ecx m AND v = 0), sf := bit (ecx m AND v) 7, cf := False, ovf := False\<rparr>)"
| "execute ks (Setnz r) m = Inr (set_reg r ((get_reg r m AND NOT 0xff) OR (if zf m then 0 else 1)) m)"
| "execute ks (Mull a) m =
     bindE (read_op ks a m) (\<lambda>x. let p = ucast (eax m) * ucast x in Inr (m\<lparr>eax := lo32 p, edx := hi32 p\<rparr>))"
| "execute ks (Idiv r) m = idiv (get_reg r m) m"
| "execute ks (Lea b s i r) m = Inr (set_reg r (idx_addr b s i m) m)"
| "execute ks (Movx w b s i r) m = (let a = idx_addr b s i m in checked a (set_reg r (widen w (memory m) a) m))"
| "execute ks (MovB r b s i) m = (let a = idx_addr b s i m in checked a (m\<lparr>memory := store_byte a (get_reg r m) (memory m)\<rparr>))"
| "execute ks (MovW r b s i) m = (let a = idx_addr b s i m in checked a (m\<lparr>memory := store_half a (get_reg r m) (memory m)\<rparr>))"
| "execute ks (AddSP n) m = drop_words n m"
| "execute ks (SubSP n) m = Inr (regain n m)"
| "execute ks _ m = Inr m"

datatype outcome =
    End mach
  | Fault problem mach "insn list"   \<comment> \<open>with the instructions from the one that failed\<close>
  | Jumps u32 mach                  \<comment> \<open>to an address\<close>
  | Raise nat mach                  \<comment> \<open>the number of the exception\<close>

fun run_to :: "u32 list \<Rightarrow> nat option \<Rightarrow> insn list \<Rightarrow> mach \<Rightarrow> outcome" where
  \<comment> \<open>the second argument: the label that is jumped to\<close>
  "run_to ks None [] m = End m"
| "run_to ks (Some l) [] m = Fault Stuck m []"
| "run_to ks (Some l) (i # is) m = run_to ks (if i = Label l then None else Some l) is m"
| "run_to ks None (i # is) m =
     (case i of
        Jcc c l \<Rightarrow> run_to ks (if holds c m then Some l else None) is m
      | Jmp l \<Rightarrow> run_to ks (Some l) is m
      | JmpReg r \<Rightarrow> Jumps (get_reg r m) m
      | SignalError e \<Rightarrow> Raise e (m\<lparr>edx := 0, eax := (eax m AND NOT 0xff) OR of_nat e\<rparr>)
      | _ \<Rightarrow> (case execute ks i m of Inl p \<Rightarrow> Fault p m (i # is) | Inr m \<Rightarrow> run_to ks None is m))"

abbreviation run :: "u32 list \<Rightarrow> insn list \<Rightarrow> mach \<Rightarrow> outcome" where
  "run ks \<equiv> run_to ks None"

end
