(* ===== verification/Templates.thy ===== *)
theory Templates
  imports Machine Opcodes
begin

text \<open>
  The code templates of \<^verbatim>\<open>code.c\<close>: for an opcode and a state of the stack cache the instructions
  of \<^verbatim>\<open>CODE(opcode, label, state, next, ..)\<close> and the state they end in. Each definition is one
  macro of the file, or one group of \<^verbatim>\<open>CODE\<close> blocks, with the five states in order. In state 0 the
  operand stack is the native stack; in states 1 and 2 its top is kept in \<open>%edx\<close>, in \<open>%ecx\<close> over
  \<open>%edx\<close>, in states 3 and 4 in \<open>%ecx\<close>, in \<open>%edx\<close> over \<open>%ecx\<close>.
\<close>

abbreviation (input) EXCID_ArithmeticException :: nat where "EXCID_ArithmeticException \<equiv> 9"
abbreviation (input) EXCID_ArrayIndexOutOfBoundsException :: nat where "EXCID_ArrayIndexOutOfBoundsException \<equiv> 10"

type_synonym code = "(nat \<times> insn list \<times> nat) list"

abbreviation five :: "(insn list \<times> nat) list \<Rightarrow> code" where
  "five \<equiv> enumerate 0"

definition any_state :: "insn list \<Rightarrow> code" where
  \<comment> \<open>\<open>STANY\<close> and \<open>STSTA\<close>\<close>
  "any_state is = map (\<lambda>st. (st, is, st)) [0, 1, 2, 3, 4]"

subsection \<open>States\<close>

definition fill_cache_code :: code where
  "fill_cache_code = five
     [([Pop ECX, Pop EDX], 2), ([Pop ECX], 4), ([], 2), ([Pop EDX], 2), ([], 4)]"

definition flush_cache_code :: code where
  "flush_cache_code = five
     [([], 0), ([Push EDX], 0), ([Push EDX, Push ECX], 0), ([Push ECX], 0), ([Push ECX, Push EDX], 0)]"

definition stateto_code :: "nat \<Rightarrow> code" where
  "stateto_code n = five (map (\<lambda>is. (is, n))
     ([[[], [Push EDX], [Push EDX, Push ECX], [Push ECX], [Push ECX, Push EDX]],
       [[Pop EDX], [], [Push EDX, Mov (Reg ECX) (Reg EDX)], [Mov (Reg ECX) (Reg EDX)], [Push ECX]],
       [[Pop ECX, Pop EDX], [Mov (Reg EDX) (Reg ECX), Pop EDX], [], [Pop EDX], [Xchg EDX ECX]],
       [[Pop ECX], [Mov (Reg EDX) (Reg ECX)], [Push EDX], [], [Push ECX, Mov (Reg EDX) (Reg ECX)]],
       [[Pop EDX, Pop ECX], [Pop ECX], [Xchg EDX ECX], [Mov (Reg ECX) (Reg EDX), Pop ECX], []]] ! n))"

definition goto_st_code :: "nat \<Rightarrow> code" where
  \<comment> \<open>as before, and jump\<close>
  "goto_st_code n = five (map (\<lambda>is. (is @ [JmpReg EAX], n))
     ([[[], [Push EDX], [Push EDX, Push ECX], [Push ECX], [Push ECX, Push EDX]],
       [[Pop EDX], [], [Push EDX, Mov (Reg ECX) (Reg EDX)], [Mov (Reg ECX) (Reg EDX)], [Push ECX]],
       [[Pop ECX, Pop EDX], [Mov (Reg EDX) (Reg ECX), Pop EDX], [], [Pop EDX], [Xchg EDX ECX]],
       [[Pop ECX], [Mov (Reg EDX) (Reg ECX)], [Push EDX], [], [Push ECX, Mov (Reg EDX) (Reg ECX)]],
       [[Pop EDX, Pop ECX], [Pop ECX], [Xchg EDX ECX], [Mov (Reg ECX) (Reg EDX), Pop ECX], []]] ! n))"

subsection \<open>Constants and variables\<close>

definition iconst_0_code :: code where
  "iconst_0_code = five
     [([Alu XORL (Reg EDX) (Reg EDX)], 1), ([Alu XORL (Reg ECX) (Reg ECX)], 2),
      ([Push EDX, Alu XORL (Reg EDX) (Reg EDX)], 4), ([Alu XORL (Reg EDX) (Reg EDX)], 4),
      ([Push ECX, Alu XORL (Reg ECX) (Reg ECX)], 2)]"

definition CODE_ICONST_N :: "u32 \<Rightarrow> code" where
  "CODE_ICONST_N n = five
     [([Mov (Imm n) (Reg EDX)], 1), ([Mov (Imm n) (Reg ECX)], 2), ([Push EDX, Mov (Imm n) (Reg EDX)], 4),
      ([Mov (Imm n) (Reg EDX)], 4), ([Push ECX, Mov (Imm n) (Reg ECX)], 2)]"

definition lconst_0_code :: code where
  "lconst_0_code =
     (let x = (\<lambda>r. Alu XORL (Reg r) (Reg r)) in five
     [([x EDX, x ECX], 2), ([Push EDX, x ECX, x EDX], 2), ([Push EDX, Push ECX, x EDX, x ECX], 2),
      ([Push ECX, x EDX, x ECX], 2), ([Push ECX, Push EDX, x ECX, x EDX], 2)])"

definition lconst_1_code :: code where
  "lconst_1_code =
     (let LCONST_ST02 = [Mov (Imm 1) (Reg ECX), Alu XORL (Reg EDX) (Reg EDX)];
          LCONST_ST04 = [Mov (Imm 1) (Reg EDX), Alu XORL (Reg ECX) (Reg ECX)] in five
     [(LCONST_ST02, 2), (Push EDX # LCONST_ST02, 2), (Push EDX # Push ECX # LCONST_ST04, 4),
      (Push ECX # LCONST_ST04, 4), (Push ECX # Push EDX # LCONST_ST02, 2)])"

definition fconst_1_code :: code where
  "fconst_1_code = five
     [([Mov (Imm 0x3f800000) (Reg EDX)], 1), ([Mov (Imm 0x3f800000) (Reg ECX)], 2),
      ([Push EDX, Mov (Imm 0x3f800000) (Reg EDX)], 4), ([Mov (Imm 0x3f800000) (Reg EDX)], 4),
      ([Push ECX, Mov (Imm 0x3f800000) (Reg ECX)], 2)]"

definition fconst_2_code :: code where
  "fconst_2_code = five
     [([Mov (Imm 0x40000000) (Reg EDX)], 1), ([Mov (Imm 0x40000000) (Reg ECX)], 2),
      ([Push EDX, Mov (Imm 0x40000000) (Reg EDX)], 4), ([Mov (Imm 0x40000000) (Reg EDX)], 4),
      ([Push ECX, Mov (Imm 0x40000000) (Reg ECX)], 2)]"

definition dconst_1_code :: code where
  "dconst_1_code =
     (let DCONST_ST02 = [Mov (Imm 0x3ff00000) (Reg EDX), Alu XORL (Reg ECX) (Reg ECX)];
          DCONST_ST04 = [Mov (Imm 0x3ff00000) (Reg ECX), Alu XORL (Reg EDX) (Reg EDX)] in five
     [(DCONST_ST02, 2), (Push EDX # DCONST_ST04, 4), (Push EDX # Push ECX # DCONST_ST02, 2),
      (Push ECX # DCONST_ST02, 2), (Push ECX # Push EDX # DCONST_ST04, 4)])"

definition bipush_code :: code where
  "bipush_code = five
     [([Mov (Const 0) (Reg EDX)], 1), ([Mov (Const 0) (Reg ECX)], 2), ([Push EDX, Mov (Const 0) (Reg EDX)], 4),
      ([Mov (Const 0) (Reg EDX)], 4), ([Push ECX, Mov (Const 0) (Reg ECX)], 2)]"

definition ldc2_w_code :: code where
  \<comment> \<open>the constants are the high and the low word\<close>
  "ldc2_w_code =
     (let to2 = [Mov (Const 0) (Reg EDX), Mov (Const 1) (Reg ECX)];
          to4 = [Mov (Const 0) (Reg ECX), Mov (Const 1) (Reg EDX)] in five
     [(to2, 2), (Push EDX # to4, 4), (Push EDX # Push ECX # to2, 2), (Push ECX # to2, 2), (Push ECX # Push EDX # to4, 4)])"

definition iload_code :: code where
  "iload_code = five
     [([Mov (Var 0) (Reg EDX)], 1), ([Mov (Var 0) (Reg ECX)], 2), ([Push EDX, Mov (Var 0) (Reg EDX)], 4),
      ([Mov (Var 0) (Reg EDX)], 4), ([Push ECX, Mov (Var 0) (Reg ECX)], 2)]"

definition lload_code :: code where
  "lload_code =
     (let LLOAD_ST02 = [Mov (Var 0) (Reg ECX), Mov (Var 1) (Reg EDX)];
          LLOAD_ST04 = [Mov (Var 0) (Reg EDX), Mov (Var 1) (Reg ECX)] in five
     [(LLOAD_ST02, 2), (Push EDX # LLOAD_ST02, 2), (Push EDX # Push ECX # LLOAD_ST04, 4),
      (Push ECX # LLOAD_ST04, 4), (Push ECX # Push EDX # LLOAD_ST02, 2)])"

definition CODE_ISTORE :: "nat \<Rightarrow> nat \<Rightarrow> nat \<Rightarrow> nat \<Rightarrow> nat \<Rightarrow> code" where
  "CODE_ISTORE a b c d e = five
     [([Pop EDX, Mov (Reg EDX) (Var 0)], a), ([Mov (Reg EDX) (Var 0)], b), ([Mov (Reg ECX) (Var 0)], c),
      ([Mov (Reg ECX) (Var 0)], d), ([Mov (Reg EDX) (Var 0)], e)]"

definition CODE_LSTORE :: "nat \<Rightarrow> nat \<Rightarrow> code" where
  "CODE_LSTORE a b =
     [(2, [Mov (Reg ECX) (Var 0), Mov (Reg EDX) (Var 1)], a), (4, [Mov (Reg EDX) (Var 0), Mov (Reg ECX) (Var 1)], b)]"

definition iinc_code :: code where
  \<comment> \<open>in the code the address of the variable comes first\<close>
  "iinc_code = any_state [Alu ADD (Const 1) (Var 0)]"

subsection \<open>Arrays\<close>

definition OBJ_LENGTH :: "reg \<Rightarrow> reg \<Rightarrow> insn list" where
  "OBJ_LENGTH h dst = [Mov (At 4 h) (Reg dst), Shift SHR 5 dst]"

definition ARRAY_CHECK :: "reg \<Rightarrow> reg \<Rightarrow> insn list" where
  \<comment> \<open>\<open>NULL_TEST\<close> is empty: an access through \<open>NULL\<close> raises a signal\<close>
  "ARRAY_CHECK h i =
     OBJ_LENGTH h EDI @
     [Cmp (Reg EDI) (Reg i), Jcc JB 1, SignalError EXCID_ArrayIndexOutOfBoundsException, Label 1]"

definition array_check_code :: code where
  "array_check_code = [(2, ARRAY_CHECK EDX ECX, 2), (4, ARRAY_CHECK ECX EDX, 4)]"

definition UNHAND :: "reg \<Rightarrow> reg \<Rightarrow> insn" where
  "UNHAND h dst = Mov (At 0 h) (Reg dst)"

definition iaload_code :: code where
  "iaload_code =
     [(2, [UNHAND EDX EAX, Mov (Idx EAX 4 ECX) (Reg EDX)], 1), (4, [UNHAND ECX EAX, Mov (Idx EAX 4 EDX) (Reg ECX)], 3)]"

definition laload_code :: code where
  "laload_code =
     [(2, [UNHAND EDX EAX, Lea EAX 8 ECX EDI, Mov (At 0 EDI) (Reg EDX), Mov (At 4 EDI) (Reg ECX)], 4),
      (4, [UNHAND ECX EAX, Lea EAX 8 EDX EDI, Mov (At 0 EDI) (Reg ECX), Mov (At 4 EDI) (Reg EDX)], 2)]"

definition baload_code :: code where
  "baload_code =
     [(2, [UNHAND EDX EAX, Movx MOVSB EAX 1 ECX EDX], 1), (4, [UNHAND ECX EAX, Movx MOVSB EAX 1 EDX ECX], 3)]"

definition caload_code :: code where
  "caload_code =
     [(2, [UNHAND EDX EAX, Movx MOVZW EAX 2 ECX EDX], 1), (4, [UNHAND ECX EAX, Movx MOVZW EAX 2 EDX ECX], 3)]"

definition saload_code :: code where
  "saload_code =
     [(2, [UNHAND EDX EAX, Movx MOVSW EAX 2 ECX EDX], 1), (4, [UNHAND ECX EAX, Movx MOVSW EAX 2 EDX ECX], 3)]"

definition iastore1_code :: code where
  \<comment> \<open>the value goes to \<open>%eax\<close>\<close>
  "iastore1_code = five
     [([Pop EAX], 0), ([Mov (Reg EDX) (Reg EAX)], 0), ([Mov (Reg ECX) (Reg EAX)], 1),
      ([Mov (Reg ECX) (Reg EAX)], 0), ([Mov (Reg EDX) (Reg EAX)], 3)]"

definition iastore_code :: code where
  "iastore_code =
     [(2, [UNHAND EDX EDI, Mov (Reg EAX) (Idx EDI 4 ECX)], 0), (4, [UNHAND ECX EDI, Mov (Reg EAX) (Idx EDI 4 EDX)], 0)]"

definition CODE_LASTORE :: "reg \<Rightarrow> reg \<Rightarrow> insn list" where
  "CODE_LASTORE lo hi =
     [Pop EAX, Mov (Stack 0) (Reg EDI)] @ ARRAY_CHECK EDI EAX @
     [Pop EDI, UNHAND EDI EDI, Lea EDI 8 EAX EDI, Mov (Reg lo) (At 0 EDI), Mov (Reg hi) (At 4 EDI)]"

definition lastore_code :: code where
  "lastore_code = [(2, CODE_LASTORE ECX EDX, 0), (4, CODE_LASTORE EDX ECX, 0)]"

definition bastore_code :: code where
  "bastore_code =
     [(2, [UNHAND EDX EDI, MovB EAX EDI 1 ECX], 0), (4, [UNHAND ECX EDI, MovB EAX EDI 1 EDX], 0)]"

definition castore_code :: code where
  "castore_code =
     [(2, [UNHAND EDX EDI, MovW EAX EDI 2 ECX], 0), (4, [UNHAND ECX EDI, MovW EAX EDI 2 EDX], 0)]"

definition sastore_code :: code where
  "sastore_code =
     [(2, [UNHAND EDX EDI, MovW EAX EDI 2 ECX], 0), (4, [UNHAND ECX EDI, MovW EAX EDI 2 EDX], 0)]"

definition arraylength_code :: code where
  "arraylength_code = five
     [(Pop EDX # OBJ_LENGTH EDX ECX, 3), (OBJ_LENGTH EDX ECX, 3), (OBJ_LENGTH ECX ECX, 2), (OBJ_LENGTH ECX EDX, 1),
      (OBJ_LENGTH EDX EDX, 4)]"

subsection \<open>Operations on the operand stack\<close>

definition pop_code :: code where
  "pop_code = five [([AddSP 1], 0), ([], 0), ([], 1), ([], 0), ([], 3)]"

definition pop2_code :: code where
  "pop2_code = five [([AddSP 2], 0), ([AddSP 1], 0), ([], 0), ([AddSP 1], 0), ([], 0)]"

definition dup_code :: code where
  "dup_code = five
     [([Mov (Stack 0) (Reg EDX)], 1), ([Mov (Reg EDX) (Reg ECX)], 2), ([Push EDX, Mov (Reg ECX) (Reg EDX)], 2),
      ([Mov (Reg ECX) (Reg EDX)], 2), ([Push ECX, Mov (Reg EDX) (Reg ECX)], 2)]"

definition dup_x1_code :: code where
  "dup_x1_code = five
     [([Pop ECX, Pop EDX, Push ECX], 2), ([Pop ECX, Push EDX], 4), ([Push ECX], 2), ([Pop EDX, Push ECX], 2),
      ([Push EDX], 4)]"

definition dup_x2_code :: code where
  "dup_x2_code =
     (let DUP_X2_ST24 = (\<lambda>r. [Pop EAX, Push r, Push EAX]) in five
     [([Pop ECX, Pop EDX] @ DUP_X2_ST24 ECX, 2), (Pop ECX # DUP_X2_ST24 EDX, 4), (DUP_X2_ST24 ECX, 2),
      (Pop EDX # DUP_X2_ST24 ECX, 2), (DUP_X2_ST24 EDX, 4)])"

definition dup2_code :: code where
  \<comment> \<open>in state 0 the two words are read and then taken back onto the stack\<close>
  "dup2_code = five
     [([Pop ECX, Pop EDX, SubSP 2], 2), ([Mov (Stack 0) (Reg ECX), Push EDX], 4), ([Push EDX, Push ECX], 2),
      ([Mov (Stack 0) (Reg EDX), Push ECX], 2), ([Push ECX, Push EDX], 4)]"

definition dup2_x1_code :: code where
  "dup2_x1_code =
     (let DUP2_X1_ST24 = (\<lambda>r s. [Pop EAX, Push s, Push r, Push EAX]) in five
     [([Pop ECX, Pop EDX] @ DUP2_X1_ST24 ECX EDX, 2), (Pop ECX # DUP2_X1_ST24 EDX ECX, 4), (DUP2_X1_ST24 ECX EDX, 2),
      (Pop EDX # DUP2_X1_ST24 ECX EDX, 2), (DUP2_X1_ST24 EDX ECX, 4)])"

definition dup2_x2_code :: code where
  "dup2_x2_code =
     (let DUP2_X2_ST24 = (\<lambda>r s. [Pop EAX, Pop EDI, Push s, Push r, Push EDI, Push EAX]) in five
     [([Pop ECX, Pop EDX] @ DUP2_X2_ST24 ECX EDX, 2), (Pop ECX # DUP2_X2_ST24 EDX ECX, 4), (DUP2_X2_ST24 ECX EDX, 2),
      (Pop EDX # DUP2_X2_ST24 ECX EDX, 2), (DUP2_X2_ST24 EDX ECX, 4)])"

definition swap_code :: code where
  "swap_code = five [([Pop ECX, Pop EDX], 4), ([Pop ECX], 2), ([], 4), ([Pop EDX], 4), ([], 2)]"

subsection \<open>Arithmetic\<close>

definition CODE_ARITH_INT :: "alu \<Rightarrow> code" where
  "CODE_ARITH_INT rop = five
     [([Pop ECX, Pop EDX, Alu rop (Reg ECX) (Reg EDX)], 1), ([Pop ECX, Alu rop (Reg EDX) (Reg ECX)], 3),
      ([Alu rop (Reg ECX) (Reg EDX)], 1), ([Pop EDX, Alu rop (Reg ECX) (Reg EDX)], 1), ([Alu rop (Reg EDX) (Reg ECX)], 3)]"

definition CODE_ARITH_INT_TEST :: "reg \<Rightarrow> code" where
  \<comment> \<open>the divisor is not tested: the division by zero raises a signal\<close>
  "CODE_ARITH_INT_TEST result =
     (let divide = [Mov (Reg EAX) (Reg EDX), Shift SAR 31 EDX, Idiv ECX, Mov (Reg result) (Reg ECX)] in five
     [([Pop ECX, Pop EAX] @ divide, 3), ([Pop EAX, Mov (Reg EDX) (Reg ECX)] @ divide, 3),
      (Mov (Reg EDX) (Reg EAX) # divide, 3), (Pop EAX # divide, 3),
      ([Mov (Reg ECX) (Reg EAX), Mov (Reg EDX) (Reg ECX)] @ divide, 3)])"

definition CODE_ARITH_LONG_SUB :: "alu \<Rightarrow> alu \<Rightarrow> code" where
  "CODE_ARITH_LONG_SUB rop1 rop2 =
     (let sub = (\<lambda>r s. [Pop r, Pop s, Alu rop1 (Reg EAX) (Reg r), Alu rop2 (Reg EDI) (Reg s)]) in five
     [([Pop EAX, Pop EDI] @ sub ECX EDX, 2), ([Mov (Reg EDX) (Reg EAX), Pop EDI] @ sub EDX ECX, 4),
      ([Mov (Reg ECX) (Reg EAX), Mov (Reg EDX) (Reg EDI)] @ sub ECX EDX, 2),
      ([Mov (Reg ECX) (Reg EAX), Pop EDI] @ sub ECX EDX, 2),
      ([Mov (Reg EDX) (Reg EAX), Mov (Reg ECX) (Reg EDI)] @ sub EDX ECX, 4)])"

definition CODE_ARITH_LONG :: "alu \<Rightarrow> alu \<Rightarrow> code" where
  "CODE_ARITH_LONG rop1 rop2 =
     (let arith = (\<lambda>r s. [Pop EAX, Pop EDI, Alu rop1 (Reg EAX) (Reg r), Alu rop2 (Reg EDI) (Reg s)]) in five
     [([Pop ECX, Pop EDX] @ arith ECX EDX, 2), (Pop ECX # arith EDX ECX, 4), (arith ECX EDX, 2),
      (Pop EDX # arith ECX EDX, 2), (arith EDX ECX, 4)])"

definition LMUL_ST24 :: "reg \<Rightarrow> reg \<Rightarrow> reg \<Rightarrow> insn list" where
  "LMUL_ST24 optop1 low high =
     [Mov (Reg optop1) (Reg EAX), Mov (Reg EDX) (Reg EDI), Mull (Stack 0), Mov (Reg EAX) (Below 1),
      Mov (Reg EDX) (Below 0), Alu IMUL (Stack 1) (Reg low), Alu ADD (Reg low) (Below 0),
      Alu IMUL (Stack 0) (Reg high), Alu ADD (Reg high) (Below 0), Mov (Below 1) (Reg ECX), Mov (Below 0) (Reg EDX),
      AddSP 2]"

definition lmul_code :: code where
  "lmul_code = five
     [([Pop ECX, Pop EDX] @ LMUL_ST24 ECX ECX EDI, 2), (Pop ECX # LMUL_ST24 EDX EDI ECX, 2),
      (LMUL_ST24 ECX ECX EDI, 2), (Pop EDX # LMUL_ST24 ECX ECX EDI, 2), (LMUL_ST24 EDX EDI ECX, 2)]"

definition ineg_code :: code where
  "ineg_code = five [([Pop EDX, Neg EDX], 1), ([Neg EDX], 1), ([Neg ECX], 2), ([Neg ECX], 3), ([Neg EDX], 4)]"

definition lneg_code :: code where
  "lneg_code =
     (let LNEG_ST24 = (\<lambda>r s. [Neg r, Alu ADC (Imm 0) (Reg s), Neg s]) in five
     [([Pop ECX, Pop EDX] @ LNEG_ST24 ECX EDX, 2), (Pop ECX # LNEG_ST24 EDX ECX, 4), (LNEG_ST24 ECX EDX, 2),
      (Pop EDX # LNEG_ST24 ECX EDX, 2), (LNEG_ST24 EDX ECX, 4)])"

definition CODE_FNEG :: "operand list \<Rightarrow> code" where
  "CODE_FNEG tgts = map (\<lambda>(st, tgt). (st, [Alu XORL (Imm 0x80000000) tgt], st)) (enumerate 0 tgts)"

definition CODE_SHIFT_INT :: "shift \<Rightarrow> code" where
  "CODE_SHIFT_INT rop =
     (let SHIFT_INT_ST2 = [ShiftCL rop EDX] in five
     [([Pop ECX, Pop EDX] @ SHIFT_INT_ST2, 1), ([Mov (Reg EDX) (Reg ECX), Pop EDX] @ SHIFT_INT_ST2, 1),
      (SHIFT_INT_ST2, 1), (Pop EDX # SHIFT_INT_ST2, 1), (Xchg ECX EDX # SHIFT_INT_ST2, 1)])"

definition SHIFT_SIGNED_LONG :: "(reg \<Rightarrow> reg \<Rightarrow> insn) \<Rightarrow> shift \<Rightarrow> reg \<Rightarrow> reg \<Rightarrow> insn list" where
  "SHIFT_SIGNED_LONG rop64 rop32 r s =
     [rop64 r s, ShiftCL rop32 r, TestCL 0x20, Jcc JE 1, Mov (Reg r) (Reg s), Shift rop32 31 r, Label 1,
      Mov (Reg EAX) (Reg ECX)]"

definition SHIFT_UNSIGNED_LONG :: "(reg \<Rightarrow> reg \<Rightarrow> insn) \<Rightarrow> shift \<Rightarrow> reg \<Rightarrow> reg \<Rightarrow> insn list" where
  "SHIFT_UNSIGNED_LONG rop64 rop32 r s =
     [rop64 r s, ShiftCL rop32 r, TestCL 0x20, Jcc JE 1, Mov (Reg r) (Reg s), Alu XORL (Reg r) (Reg r), Label 1,
      Mov (Reg EAX) (Reg ECX)]"

definition CODE_SHIFT_LONG :: "(reg \<Rightarrow> reg \<Rightarrow> insn list) \<Rightarrow> reg \<Rightarrow> reg \<Rightarrow> code" where
  \<comment> \<open>\<open>shift r s\<close>: the shift on the pair of registers\<close>
  "CODE_SHIFT_LONG shift a b = five
     [([Pop ECX, Pop EAX, Pop EDX] @ shift a b, 2), ([Mov (Reg EDX) (Reg ECX), Pop EAX, Pop EDX] @ shift a b, 2),
      (Pop EAX # shift b a, 4), ([Pop EAX, Pop EDX] @ shift a b, 2),
      ([Mov (Reg ECX) (Reg EAX), Mov (Reg EDX) (Reg ECX), Pop EDX] @ shift a b, 2)]"

definition i2l_code :: code where
  "i2l_code = five
     [([Pop EDX, Mov (Reg EDX) (Reg ECX), Shift SAR 31 EDX], 2), ([Mov (Reg EDX) (Reg ECX), Shift SAR 31 EDX], 2),
      ([Push EDX, Mov (Reg ECX) (Reg EDX), Shift SAR 31 ECX], 4), ([Mov (Reg ECX) (Reg EDX), Shift SAR 31 ECX], 4),
      ([Push ECX, Mov (Reg EDX) (Reg ECX), Shift SAR 31 EDX], 2)]"

definition l2i_code :: code where
  "l2i_code = five [([Pop EDX, AddSP 1], 1), ([AddSP 1], 1), ([], 3), ([AddSP 1], 3), ([], 1)]"

definition CODE_I2BCS :: "nat \<Rightarrow> shift \<Rightarrow> code" where
  \<comment> \<open>\<open>I2B\<close>, \<open>I2C\<close> and \<open>I2S\<close> shift up and down by \<open>n\<close> bits\<close>
  "CODE_I2BCS n rop =
     (let vop = (\<lambda>r. [Shift SHL n r, Shift rop n r]) in five
     [(Pop EDX # vop EDX, 1), (vop EDX, 1), (vop ECX, 2), (vop ECX, 3), (vop EDX, 4)])"

definition LCMP_ST24 :: "reg \<Rightarrow> reg \<Rightarrow> insn list" where
  "LCMP_ST24 r s =
     [Pop EAX, Pop EDI, Cmp (Reg s) (Reg EDI), Jcc JL 1, Jcc JG 2, Cmp (Reg r) (Reg EAX), Jcc JB 1, Label 2,
      Mov (Imm 0) (Reg EDX), Setnz EDX, Jmp 3, Label 1, Mov (Imm (- 1)) (Reg EDX), Label 3]"

definition lcmp_code :: code where
  "lcmp_code = five
     [([Pop ECX, Pop EDX] @ LCMP_ST24 ECX EDX, 1), (Pop ECX # LCMP_ST24 EDX ECX, 1), (LCMP_ST24 ECX EDX, 1),
      (Pop EDX # LCMP_ST24 ECX EDX, 1), (LCMP_ST24 EDX ECX, 1)]"

subsection \<open>Jumps\<close>

definition CODE_IF :: code where
  \<comment> \<open>the flags; the jump is emitted by \<open>writeCode\<close>\<close>
  "CODE_IF = five
     [([Pop EAX, Test EAX EAX], 0), ([Test EDX EDX], 0), ([Test ECX ECX], 1), ([Test ECX ECX], 0), ([Test EDX EDX], 3)]"

definition CODE_IF_ICMP :: code where
  "CODE_IF_ICMP =
     (let IF_ICMP_ST24 = (\<lambda>r s. [Cmp (Reg r) (Reg s)]) in five
     [([Pop ECX, Pop EDX] @ IF_ICMP_ST24 ECX EDX, 0), (Pop ECX # IF_ICMP_ST24 EDX ECX, 0), (IF_ICMP_ST24 ECX EDX, 0),
      (Pop EDX # IF_ICMP_ST24 ECX EDX, 0), (IF_ICMP_ST24 EDX ECX, 0)])"

definition jsr_code :: code where
  "jsr_code = five
     [([Mov (Const 0) (Reg EDX)], 1), ([Mov (Const 0) (Reg ECX)], 2), ([Push EDX, Mov (Const 0) (Reg EDX)], 4),
      ([Mov (Const 0) (Reg EDX)], 4), ([Push ECX, Mov (Const 0) (Reg ECX)], 2)]"

subsection \<open>Fields\<close>

definition CODE_GETSTATIC :: code where
  "CODE_GETSTATIC = five
     [([Mov (Abs 0) (Reg EDX)], 1), ([Mov (Abs 0) (Reg ECX)], 2), ([Push EDX, Mov (Abs 0) (Reg EDX)], 4),
      ([Mov (Abs 0) (Reg EDX)], 4), ([Push ECX, Mov (Abs 0) (Reg ECX)], 2)]"

definition CODE_PUTSTATIC :: code where
  "CODE_PUTSTATIC = five
     [([Pop EDX, Mov (Reg EDX) (Abs 0)], 0), ([Mov (Reg EDX) (Abs 0)], 0), ([Mov (Reg ECX) (Abs 0)], 1),
      ([Mov (Reg ECX) (Abs 0)], 0), ([Mov (Reg EDX) (Abs 0)], 3)]"

definition CODE_GETSTATIC2 :: code where
  "CODE_GETSTATIC2 =
     (let GETSTATIC2_ST0 = (\<lambda>lo hi. [Mov (Const 0) (Reg EDI), Mov (At 0 EDI) (Reg lo), Mov (At 4 EDI) (Reg hi)]) in five
     [(GETSTATIC2_ST0 ECX EDX, 2), (Push EDX # GETSTATIC2_ST0 ECX EDX, 2), (Push EDX # Push ECX # GETSTATIC2_ST0 EDX ECX, 4),
      (Push ECX # GETSTATIC2_ST0 EDX ECX, 4), (Push ECX # Push EDX # GETSTATIC2_ST0 ECX EDX, 2)])"

definition CODE_PUTSTATIC2 :: code where
  "CODE_PUTSTATIC2 =
     (let PUTSTATIC2 = (\<lambda>r s. [Mov (Const 0) (Reg EDI), Mov (Reg r) (At 0 EDI), Mov (Reg s) (At 4 EDI)]) in five
     [([Pop ECX, Pop EDX] @ PUTSTATIC2 ECX EDX, 0), (Pop ECX # PUTSTATIC2 EDX ECX, 0), (PUTSTATIC2 ECX EDX, 0),
      (Pop EDX # PUTSTATIC2 ECX EDX, 0), (PUTSTATIC2 EDX ECX, 0)])"

definition getfield_code :: code where
  \<comment> \<open>\<open>FIELD_ACC\<close> and \<open>OBJ_GETSLOT\<close>: an access through \<open>NULL\<close> raises a signal\<close>
  "getfield_code =
     (let get = (\<lambda>h dst. [Mov (Const 0) (Reg EAX), UNHAND h EDI, Mov (Idx EDI 4 EAX) (Reg dst)]) in five
     [(Pop EDX # get EDX ECX, 3), (get EDX ECX, 3), (get ECX ECX, 2), (get ECX EDX, 1), (get EDX EDX, 4)])"

definition getfield2_code :: code where
  "getfield2_code =
     (let get = (\<lambda>h lo hi. [Mov (Const 0) (Reg EAX), UNHAND h EDI, Lea EDI 4 EAX EDI, Mov (At 0 EDI) (Reg lo),
            Mov (At 4 EDI) (Reg hi)]) in five
     [(Pop EDX # get EDX ECX EDX, 2), (get EDX ECX EDX, 2), (Push EDX # get ECX EDX ECX, 4), (get ECX EDX ECX, 4),
      (Push ECX # get EDX ECX EDX, 2)])"

definition PUTFIELD_ST24 :: "reg \<Rightarrow> reg \<Rightarrow> insn list" where
  "PUTFIELD_ST24 v h = [Mov (Const 0) (Reg EAX), UNHAND h EDI, Mov (Reg v) (Idx EDI 4 EAX)]"

definition putfield_code :: code where
  "putfield_code = five
     [([Pop ECX, Pop EDX] @ PUTFIELD_ST24 ECX EDX, 0), (Pop ECX # PUTFIELD_ST24 EDX ECX, 0), (PUTFIELD_ST24 ECX EDX, 0),
      (Pop EDX # PUTFIELD_ST24 ECX EDX, 0), (PUTFIELD_ST24 EDX ECX, 0)]"

definition PUTFIELD2_ST24 :: "reg \<Rightarrow> reg \<Rightarrow> insn list" where
  "PUTFIELD2_ST24 lo hi =
     [Pop EDI, Mov (Const 0) (Reg EAX), UNHAND EDI EDI, Lea EDI 4 EAX EDI, Mov (Reg lo) (At 0 EDI), Mov (Reg hi) (At 4 EDI)]"

definition putfield2_code :: code where
  "putfield2_code = five
     [([Pop ECX, Pop EDX] @ PUTFIELD2_ST24 ECX EDX, 0), (Pop ECX # PUTFIELD2_ST24 EDX ECX, 0), (PUTFIELD2_ST24 ECX EDX, 0),
      (Pop EDX # PUTFIELD2_ST24 ECX EDX, 0), (PUTFIELD2_ST24 EDX ECX, 0)]"

subsection \<open>Inlined methods\<close>

definition ABS_INT :: "reg \<Rightarrow> insn list" where
  "ABS_INT r = [Test r r, Jcc JNS 1, Neg r, Label 1]"

definition abs_int_code :: code where
  \<comment> \<open>in state 0 the operand is read and not taken off the stack\<close>
  "abs_int_code = five
     [(Mov (Stack 0) (Reg EDX) # ABS_INT EDX, 1), (ABS_INT EDX, 1), (ABS_INT ECX, 2), (ABS_INT ECX, 3), (ABS_INT EDX, 4)]"

definition abs_long_code :: code where
  "abs_long_code =
     (let ABS_LONG = (\<lambda>lo hi. [Test hi hi, Jcc JNS 1, Neg lo, Alu ADC (Imm 0) (Reg hi), Neg hi, Label 1]) in five
     [([Pop ECX, Pop EDX] @ ABS_LONG ECX EDX, 2), (Pop ECX # ABS_LONG EDX ECX, 4), (ABS_LONG ECX EDX, 2),
      (Pop EDX # ABS_LONG ECX EDX, 2), (ABS_LONG EDX ECX, 4)])"

definition abs_float_code :: code where
  \<comment> \<open>in state 0 the operand is read and not taken off the stack\<close>
  "abs_float_code =
     (let ABS_FLOAT = (\<lambda>r. Alu ANDL (Imm 0x7fffffff) (Reg r)) in five
     [([Mov (Stack 0) (Reg EDX), ABS_FLOAT EDX], 1), ([ABS_FLOAT EDX], 1), ([ABS_FLOAT ECX], 2), ([ABS_FLOAT ECX], 3),
      ([ABS_FLOAT EDX], 4)])"

definition abs_double_code :: code where
  \<comment> \<open>\<open>ABS_DOUBLE_ST4\<close> is the same as \<open>ABS_DOUBLE_ST2\<close>\<close>
  "abs_double_code =
     (let ABS_DOUBLE = [Alu ANDL (Imm 0x7fffffff) (Reg EDX)] in five
     [([Pop ECX, Pop EDX] @ ABS_DOUBLE, 2), (Pop ECX # ABS_DOUBLE, 4), (ABS_DOUBLE, 2), (Pop EDX # ABS_DOUBLE, 2),
      (ABS_DOUBLE, 4)])"

definition nonnull_quick_code :: code where
  \<comment> \<open>\<open>NULL_TEST\<close> is empty\<close>
  "nonnull_quick_code = five [([Pop EDX], 0), ([], 0), ([], 1), ([], 0), ([], 3)]"

subsection \<open>The instructions of the virtual machine\<close>

record jst =
  jstack :: "u32 list"         \<comment> \<open>top first; the low word of a long on top of the high word\<close>
  jvars :: "u32 \<Rightarrow> u32"
  jmem :: "u32 \<Rightarrow> u8"
  jacc :: "u32 option"         \<comment> \<open>the value \<open>iastore1\<close> has taken off the stack\<close>

datatype jres =
    JNext jst
  | JIf cond bool jst     \<comment> \<open>a conditional jump: the condition to test and whether it jumps\<close>
  | JJump u32 jst         \<comment> \<open>a jump to an address\<close>
  | JThrow nat
  | JNull                 \<comment> \<open>an access through \<open>NULL\<close>\<close>

type_synonym jop = "u32 list \<Rightarrow> jst \<Rightarrow> jres option" \<comment> \<open>constants and state; \<open>None\<close> if the stack is too short\<close>

definition stack_op :: "(u32 list \<Rightarrow> u32 list \<Rightarrow> u32 list option) \<Rightarrow> jop" where
  "stack_op f ks js = map_option (\<lambda>s. JNext (js\<lparr>jstack := s, jacc := None\<rparr>)) (f ks (jstack js))"

definition keep_op :: jop where
  \<comment> \<open>the state of the virtual machine does not change\<close>
  "keep_op ks js = Some (JNext js)"

fun fills :: "nat \<Rightarrow> u32 list \<Rightarrow> bool" where
  \<comment> \<open>at least so many words\<close>
  "fills 0 s = True" | "fills (Suc n) [] = False" | "fills (Suc n) (_ # s) = fills n s"

definition need :: "nat \<Rightarrow> jop" where
  "need n ks js = (if fills n (jstack js) then Some (JNext js) else None)"

definition goto_need :: "nat \<Rightarrow> jop" where
  \<comment> \<open>the address is in \<open>%eax\<close>\<close>
  "goto_need n ks js = (case jacc js of Some a \<Rightarrow> if fills n (jstack js) then Some (JJump a js) else None | None \<Rightarrow> None)"

abbreviation cached :: "nat \<Rightarrow> nat" where
  \<comment> \<open>how many words a state keeps in registers\<close>
  "cached st \<equiv> [0, 1, 2, 1, 2] ! st"

abbreviation const1 :: "u32 \<Rightarrow> jop" where
  "const1 v \<equiv> stack_op (\<lambda>ks s. Some (v # s))"

abbreviation const2 :: "u64 \<Rightarrow> jop" where
  "const2 x \<equiv> stack_op (\<lambda>ks s. Some (lo32 x # hi32 x # s))"

abbreviation imm1 :: jop where
  "imm1 \<equiv> stack_op (\<lambda>ks s. case ks of k # _ \<Rightarrow> Some (k # s) | _ \<Rightarrow> None)"

abbreviation imm2 :: jop where
  "imm2 \<equiv> stack_op (\<lambda>ks s. case ks of h # l # _ \<Rightarrow> Some (l # h # s) | _ \<Rightarrow> None)"

abbreviation int1 :: "(u32 \<Rightarrow> u32) \<Rightarrow> jop" where
  "int1 f \<equiv> stack_op (\<lambda>ks s. case s of a # s \<Rightarrow> Some (f a # s) | _ \<Rightarrow> None)"

abbreviation int2 :: "(u32 \<Rightarrow> u32 \<Rightarrow> u32) \<Rightarrow> jop" where
  "int2 f \<equiv> stack_op (\<lambda>ks s. case s of b # a # s \<Rightarrow> Some (f a b # s) | _ \<Rightarrow> None)"

abbreviation long1 :: "(u64 \<Rightarrow> u64) \<Rightarrow> jop" where
  "long1 f \<equiv> stack_op (\<lambda>ks s. case s of l # h # s \<Rightarrow> let x = f (dbl h l) in Some (lo32 x # hi32 x # s) | _ \<Rightarrow> None)"

abbreviation long2 :: "(u64 \<Rightarrow> u64 \<Rightarrow> u64) \<Rightarrow> jop" where
  "long2 f \<equiv> stack_op (\<lambda>ks s. case s of l2 # h2 # l1 # h1 # s \<Rightarrow>
     let x = f (dbl h1 l1) (dbl h2 l2) in Some (lo32 x # hi32 x # s) | _ \<Rightarrow> None)"

abbreviation shift2 :: "(u64 \<Rightarrow> nat \<Rightarrow> u64) \<Rightarrow> jop" where
  "shift2 f \<equiv> stack_op (\<lambda>ks s. case s of n # l # h # s \<Rightarrow>
     let x = f (dbl h l) (unat (n AND 63)) in Some (lo32 x # hi32 x # s) | _ \<Rightarrow> None)"

definition lcmp :: "u64 \<Rightarrow> u64 \<Rightarrow> u32" where
  "lcmp a b = (if sint a < sint b then - 1 else if a = b then 0 else 1)"

definition load_op :: jop where
  "load_op ks js = (case ks of k # _ \<Rightarrow> Some (JNext (js\<lparr>jstack := jvars js k # jstack js, jacc := None\<rparr>)) | _ \<Rightarrow> None)"

definition load2_op :: jop where
  "load2_op ks js = (case ks of k # k' # _ \<Rightarrow>
     Some (JNext (js\<lparr>jstack := jvars js k # jvars js k' # jstack js, jacc := None\<rparr>)) | _ \<Rightarrow> None)"

definition store_op :: "bool \<Rightarrow> jop" where
  \<comment> \<open>with \<open>keep\<close>, the value stays on the stack\<close>
  "store_op keep ks js = (case (ks, jstack js) of (k # _, v # s) \<Rightarrow>
     Some (JNext (js\<lparr>jstack := (if keep then v # s else s), jvars := (jvars js)(k := v), jacc := None\<rparr>)) | _ \<Rightarrow> None)"

definition store2_op :: "bool \<Rightarrow> jop" where
  "store2_op keep ks js = (case (ks, jstack js) of (k # k' # _, l # h # s) \<Rightarrow>
     Some (JNext (js\<lparr>jstack := (if keep then l # h # s else s), jvars := (jvars js)(k := l, k' := h), jacc := None\<rparr>)) | _ \<Rightarrow> None)"

definition inc_op :: jop where
  "inc_op ks js = (case ks of k # n # _ \<Rightarrow> Some (JNext (js\<lparr>jvars := (jvars js)(k := jvars js k + n)\<rparr>)) | _ \<Rightarrow> None)"

definition array_length :: "(u32 \<Rightarrow> u8) \<Rightarrow> u32 \<Rightarrow> u32" where
  "array_length m h = drop_bit 5 (word_at m (h + 4))"

definition elem :: "nat \<Rightarrow> (u32 \<Rightarrow> u8) \<Rightarrow> u32 \<Rightarrow> u32 \<Rightarrow> u32" where
  \<comment> \<open>the address of an element of the given size, behind the handle\<close>
  "elem n m h i = word_at m h + of_nat n * i"

definition throwing :: "u32 \<Rightarrow> jres option \<Rightarrow> jres option" where
  "throwing h r = (if h = 0 then Some JNull else if unmapped h \<or> unmapped (h + 4) then None else r)"

definition mapped :: "u32 list \<Rightarrow> 'a option \<Rightarrow> 'a option" where
  "mapped as r = (if \<exists>a \<in> set as. unmapped a then None else r)"

definition check_op :: jop where
  "check_op ks js = (case jstack js of i # h # s \<Rightarrow>
     throwing h (if i < array_length (jmem js) h then Some (JNext js) else Some (JThrow EXCID_ArrayIndexOutOfBoundsException)) | _ \<Rightarrow> None)"

definition aload_op :: "nat \<Rightarrow> ((u32 \<Rightarrow> u8) \<Rightarrow> u32 \<Rightarrow> u32) \<Rightarrow> jop" where
  "aload_op n get ks js = (case jstack js of i # h # s \<Rightarrow>
     (let a = elem n (jmem js) h i in throwing h (mapped [a] (Some (JNext (js\<lparr>jstack := get (jmem js) a # s, jacc := None\<rparr>))))) | _ \<Rightarrow> None)"

definition aload2_op :: jop where
  "aload2_op ks js = (case jstack js of i # h # s \<Rightarrow>
     (let a = elem 8 (jmem js) h i in
      throwing h (mapped [a, a + 4] (Some (JNext (js\<lparr>jstack := word_at (jmem js) a # word_at (jmem js) (a + 4) # s, jacc := None\<rparr>))))) | _ \<Rightarrow> None)"

definition take_op :: jop where
  "take_op ks js = (case jstack js of v # s \<Rightarrow> Some (JNext (js\<lparr>jstack := s, jacc := Some v\<rparr>)) | _ \<Rightarrow> None)"

definition astore_op :: "nat \<Rightarrow> (u32 \<Rightarrow> u32 \<Rightarrow> (u32 \<Rightarrow> u8) \<Rightarrow> u32 \<Rightarrow> u8) \<Rightarrow> jop" where
  "astore_op n put ks js = (case (jacc js, jstack js) of (Some v, i # h # s) \<Rightarrow>
     (let a = elem n (jmem js) h i in throwing h (mapped [a] (Some (JNext (js\<lparr>jstack := s, jmem := put a v (jmem js), jacc := None\<rparr>))))) | _ \<Rightarrow> None)"

definition astore2_op :: jop where
  "astore2_op ks js = (case jstack js of l # h' # i # h # s \<Rightarrow>
     throwing h (if i < array_length (jmem js) h then
       (let a = elem 8 (jmem js) h i in
        mapped [a, a + 4] (Some (JNext (js\<lparr>jstack := s, jmem := store_word (a + 4) h' (store_word a l (jmem js)), jacc := None\<rparr>))))
       else Some (JThrow EXCID_ArrayIndexOutOfBoundsException)) | _ \<Rightarrow> None)"

definition arraylength_op :: jop where
  "arraylength_op ks js = (case jstack js of h # s \<Rightarrow>
     throwing h (Some (JNext (js\<lparr>jstack := array_length (jmem js) h # s, jacc := None\<rparr>))) | _ \<Rightarrow> None)"

definition getstatic_op :: jop where
  "getstatic_op ks js = (case ks of a # _ \<Rightarrow>
     mapped [a] (Some (JNext (js\<lparr>jstack := word_at (jmem js) a # jstack js, jacc := None\<rparr>))) | _ \<Rightarrow> None)"

definition getstatic2_op :: jop where
  "getstatic2_op ks js = (case ks of a # _ \<Rightarrow>
     mapped [a, a + 4] (Some (JNext (js\<lparr>jstack := word_at (jmem js) a # word_at (jmem js) (a + 4) # jstack js, jacc := None\<rparr>))) | _ \<Rightarrow> None)"

definition putstatic_op :: jop where
  "putstatic_op ks js = (case (ks, jstack js) of (a # _, v # s) \<Rightarrow>
     mapped [a] (Some (JNext (js\<lparr>jstack := s, jmem := store_word a v (jmem js), jacc := None\<rparr>))) | _ \<Rightarrow> None)"

definition putstatic2_op :: jop where
  "putstatic2_op ks js = (case (ks, jstack js) of (a # _, l # h # s) \<Rightarrow>
     mapped [a, a + 4] (Some (JNext (js\<lparr>jstack := s, jmem := store_word (a + 4) h (store_word a l (jmem js)), jacc := None\<rparr>))) | _ \<Rightarrow> None)"

definition getfield_op :: jop where
  "getfield_op ks js = (case (ks, jstack js) of (k # _, h # s) \<Rightarrow>
     (let a = elem 4 (jmem js) h k in throwing h (mapped [a] (Some (JNext (js\<lparr>jstack := word_at (jmem js) a # s, jacc := None\<rparr>))))) | _ \<Rightarrow> None)"

definition getfield2_op :: jop where
  "getfield2_op ks js = (case (ks, jstack js) of (k # _, h # s) \<Rightarrow>
     (let a = elem 4 (jmem js) h k in
      throwing h (mapped [a, a + 4] (Some (JNext (js\<lparr>jstack := word_at (jmem js) a # word_at (jmem js) (a + 4) # s, jacc := None\<rparr>))))) | _ \<Rightarrow> None)"

definition putfield_op :: jop where
  "putfield_op ks js = (case (ks, jstack js) of (k # _, v # h # s) \<Rightarrow>
     (let a = elem 4 (jmem js) h k in
      throwing h (mapped [a] (Some (JNext (js\<lparr>jstack := s, jmem := store_word a v (jmem js), jacc := None\<rparr>))))) | _ \<Rightarrow> None)"

definition putfield2_op :: jop where
  "putfield2_op ks js = (case (ks, jstack js) of (k # _, l # h' # h # s) \<Rightarrow>
     (let a = elem 4 (jmem js) h k in
      throwing h (mapped [a, a + 4] (Some (JNext (js\<lparr>jstack := s, jmem := store_word (a + 4) h' (store_word a l (jmem js)), jacc := None\<rparr>))))) | _ \<Rightarrow> None)"

definition if_op :: "cond \<Rightarrow> (u32 \<Rightarrow> bool) \<Rightarrow> jop" where
  "if_op c p ks js = (case jstack js of a # s \<Rightarrow> Some (JIf c (p a) (js\<lparr>jstack := s, jacc := None\<rparr>)) | _ \<Rightarrow> None)"

definition icmp_op :: "cond \<Rightarrow> (u32 \<Rightarrow> u32 \<Rightarrow> bool) \<Rightarrow> jop" where
  "icmp_op c p ks js = (case jstack js of b # a # s \<Rightarrow> Some (JIf c (p a b) (js\<lparr>jstack := s, jacc := None\<rparr>)) | _ \<Rightarrow> None)"

subsection \<open>What a template has to do\<close>

definition stack_of :: "nat \<Rightarrow> mach \<Rightarrow> u32 list" where
  "stack_of st m = [stk m, edx m # stk m, ecx m # edx m # stk m, ecx m # stk m, edx m # ecx m # stk m] ! st"

definition matches :: "nat \<Rightarrow> jst \<Rightarrow> mach \<Rightarrow> bool" where
  "matches st js m \<longleftrightarrow> jstack js = stack_of st m \<and> jvars js = vars m \<and> jmem js = memory m \<and>
     (\<forall>a. jacc js = Some a \<longrightarrow> eax m = a)"

fun good :: "nat \<Rightarrow> jres \<Rightarrow> outcome \<Rightarrow> bool" where
  "good nxt (JNext js) (End m) = matches nxt js m"
| "good nxt (JIf c b js) (End m) = (matches nxt js m \<and> holds c m = b)"
| "good nxt (JJump a js) (Jumps a' m) = (matches nxt js m \<and> a = a')"
| "good nxt (JThrow e) (Raise e' m) = (e = e')"
| "good nxt JNull (Fault Segv m is) = True"
| "good _ _ _ = False"

definition implements :: "code \<Rightarrow> jop \<Rightarrow> bool" where
  "implements code f \<longleftrightarrow> (\<forall>(st, is, nxt) \<in> set code. \<forall>ks js m r. matches st js m \<longrightarrow> f ks js = Some r \<longrightarrow> good nxt r (run ks is m))"

lemma implementsI:
  assumes "\<And>st is nxt ks m acc r. (st, is, nxt) \<in> set code \<Longrightarrow> acc \<in> {None, Some (eax m)} \<Longrightarrow>
      f ks \<lparr>jstack = stack_of st m, jvars = vars m, jmem = memory m, jacc = acc\<rparr> = Some r \<Longrightarrow> good nxt r (run ks is m)"
  shows "implements code f"
  unfolding implements_def
proof (intro ballI, clarify)
  fix st "is" nxt ks js m r
  assume a: "(st, is, nxt) \<in> set code" "matches st js m" "f ks js = Some r"
  have "js = \<lparr>jstack = stack_of st m, jvars = vars m, jmem = memory m, jacc = jacc js\<rparr>"
    using a(2) by (simp add: matches_def)
  moreover have "jacc js \<in> {None, Some (eax m)}" using a(2) by (cases "jacc js") (auto simp: matches_def)
  ultimately show "good nxt r (run ks is m)" using assms [OF a(1), of "jacc js" m ks r] a(3) by simp
qed

lemma fills_Suc: "fills (Suc n) s \<longleftrightarrow> (\<exists>a t. s = a # t \<and> fills n t)"
  by (cases s) auto

lemma drop_word_Cons [simp]: "stk m = v # s \<Longrightarrow> drop_word m = Inr (m\<lparr>stk := s, dead := case_nat v (dead m)\<rparr>)"
  by (simp add: drop_word_def)

lemmas templ_simps = numeral_2_eq_2 fills_Suc need_def stack_of_def matches_def push_def Let_def stack_op_def keep_op_def any_state_def


subsection \<open>The templates are right\<close>

lemma fill_cache_right: "implements fill_cache_code (need 2)"
  by (rule implementsI) (auto simp: fill_cache_code_def templ_simps split: if_splits)

lemma flush_cache_right: "implements flush_cache_code keep_op"
  by (rule implementsI) (auto simp: flush_cache_code_def templ_simps)

lemma below_five: "n < 5 \<Longrightarrow> n = 0 \<or> n = 1 \<or> n = 2 \<or> n = 3 \<or> n = (4::nat)"
  by auto

lemma stateto_right: "n < 5 \<Longrightarrow> implements (stateto_code n) (need (cached n))"
  by (rule implementsI) (auto simp: stateto_code_def templ_simps dest!: below_five split: if_splits)

lemma goto_st_right: "n < 5 \<Longrightarrow> implements (goto_st_code n) (goto_need (cached n))"
  by (rule implementsI) (auto simp: goto_st_code_def goto_need_def templ_simps dest!: below_five split: if_splits)

lemma long_consts: "(0 :: u64) = dbl 0 0" "(1 :: u64) = dbl 0 1" "(0x3ff0000000000000 :: u64) = dbl 0x3ff00000 0"
  by (simp_all add: dbl_def word_cat_eq push_bit_eq_mult)

lemma const_right:
  "implements iconst_0_code (const1 0)" "implements (CODE_ICONST_N n) (const1 n)"
  "implements fconst_1_code (const1 0x3f800000)" "implements fconst_2_code (const1 0x40000000)"
  by (rule implementsI; auto simp: iconst_0_code_def CODE_ICONST_N_def fconst_1_code_def fconst_2_code_def templ_simps)+

lemma const2_right:
  "implements lconst_0_code (const2 0)" "implements lconst_1_code (const2 1)"
  "implements dconst_1_code (const2 0x3ff0000000000000)"
  unfolding long_consts
  by (rule implementsI; auto simp: lconst_0_code_def lconst_1_code_def dconst_1_code_def templ_simps)+

lemma imm_right: "implements bipush_code imm1" "implements ldc2_w_code imm2" "implements jsr_code imm1"
  by (rule implementsI; auto simp: bipush_code_def ldc2_w_code_def jsr_code_def templ_simps split: list.splits)+

lemma load_right: "implements iload_code load_op" "implements lload_code load2_op"
  by (rule implementsI; auto simp: iload_code_def lload_code_def templ_simps load_op_def load2_op_def split: list.splits)+

lemma store_right:
  "implements (CODE_ISTORE 0 0 1 0 3) (store_op False)" "implements (CODE_ISTORE 1 1 2 3 4) (store_op True)"
  "implements (CODE_LSTORE 0 0) (store2_op False)" "implements (CODE_LSTORE 2 4) (store2_op True)"
  by (rule implementsI; auto simp: CODE_ISTORE_def CODE_LSTORE_def templ_simps store_op_def store2_op_def split: list.splits)+

lemma iinc_right: "implements iinc_code inc_op"
  by (rule implementsI) (auto simp: iinc_code_def templ_simps inc_op_def split: list.splits)

lemma pop_right:
  "implements pop_code (stack_op (\<lambda>ks s. case s of a # s \<Rightarrow> Some s | _ \<Rightarrow> None))"
  "implements pop2_code (stack_op (\<lambda>ks s. case s of a # b # s \<Rightarrow> Some s | _ \<Rightarrow> None))"
  by (rule implementsI; auto simp: pop_code_def pop2_code_def templ_simps split: list.splits)+

lemma dup_right:
  "implements dup_code (stack_op (\<lambda>ks s. case s of a # s \<Rightarrow> Some (a # a # s) | _ \<Rightarrow> None))"
  "implements dup_x1_code (stack_op (\<lambda>ks s. case s of a # b # s \<Rightarrow> Some (a # b # a # s) | _ \<Rightarrow> None))"
  "implements dup_x2_code (stack_op (\<lambda>ks s. case s of a # b # c # s \<Rightarrow> Some (a # b # c # a # s) | _ \<Rightarrow> None))"
  "implements dup2_code (stack_op (\<lambda>ks s. case s of a # b # s \<Rightarrow> Some (a # b # a # b # s) | _ \<Rightarrow> None))"
  "implements dup2_x1_code (stack_op (\<lambda>ks s. case s of a # b # c # s \<Rightarrow> Some (a # b # c # a # b # s) | _ \<Rightarrow> None))"
  "implements dup2_x2_code (stack_op (\<lambda>ks s. case s of a # b # c # d # s \<Rightarrow> Some (a # b # c # d # a # b # s) | _ \<Rightarrow> None))"
  "implements swap_code (stack_op (\<lambda>ks s. case s of a # b # s \<Rightarrow> Some (b # a # s) | _ \<Rightarrow> None))"
  by (rule implementsI; auto simp: dup_code_def dup_x1_code_def dup_x2_code_def dup2_code_def dup2_x1_code_def dup2_x2_code_def
      swap_code_def templ_simps split: list.splits)+

lemma int_right:
  assumes "\<And>m a b. alu_val rop m b a = f a b"
  shows "implements (CODE_ARITH_INT rop) (int2 f)"
  by (rule implementsI) (auto simp: CODE_ARITH_INT_def templ_simps assms split: list.splits)

lemma ineg_right: "implements ineg_code (int1 uminus)"
  by (rule implementsI) (auto simp: ineg_code_def templ_simps split: list.splits)

lemma fneg_right:
  "implements (CODE_FNEG [Stack 0, Reg EDX, Reg ECX, Reg ECX, Reg EDX]) (int1 (\<lambda>a. a XOR 0x80000000))"
  "implements (CODE_FNEG [Stack 1, Stack 0, Reg EDX, Stack 0, Reg ECX])
     (stack_op (\<lambda>ks s. case s of l # h # s \<Rightarrow> Some (l # (h XOR 0x80000000) # s) | _ \<Rightarrow> None))"
  by (rule implementsI; auto simp: CODE_FNEG_def templ_simps split: list.splits)+

lemma ladd_right: "implements (CODE_ARITH_LONG ADD ADC) (long2 (+))"
  by (rule implementsI) (auto simp: CODE_ARITH_LONG_def templ_simps carry_def dbl_add add.commute split: list.splits)

lemma lsub_right: "implements (CODE_ARITH_LONG_SUB SUB SBB) (long2 (-))"
  by (rule implementsI) (auto simp: CODE_ARITH_LONG_SUB_def templ_simps carry_def dbl_sub split: list.splits)

lemma lbit_right:
  "implements (CODE_ARITH_LONG ANDL ANDL) (long2 (AND))" "implements (CODE_ARITH_LONG ORL ORL) (long2 (OR))"
  "implements (CODE_ARITH_LONG XORL XORL) (long2 (XOR))"
  by (rule implementsI; auto simp: CODE_ARITH_LONG_def templ_simps and.commute or.commute xor.commute split: list.splits)+

lemma lneg_right: "implements lneg_code (long1 uminus)"
  by (rule implementsI) (auto simp: lneg_code_def templ_simps carry_def dbl_uminus unat_gt_0 split: list.splits)

lemma lmul_right: "implements lmul_code (long2 (*))"
  by (rule implementsI) (auto simp: lmul_code_def LMUL_ST24_def templ_simps dbl_mult lo32_high_mult mult.commute split: list.splits)

lemma ishift_right:
  assumes "\<And>n a. shift_val rop n a = f a n"
  shows "implements (CODE_SHIFT_INT rop) (int2 (\<lambda>a n. f a (unat (n AND 31))))"
  by (rule implementsI) (auto simp: CODE_SHIFT_INT_def templ_simps assms shift_count_def split: list.splits)

lemma i2l_right: "implements i2l_code (stack_op (\<lambda>ks s. case s of a # s \<Rightarrow> let x = scast a :: u64 in Some (lo32 x # hi32 x # s) | _ \<Rightarrow> None))"
  by (rule implementsI) (auto simp: i2l_code_def templ_simps dbl_sign split: list.splits)

lemma l2i_right: "implements l2i_code (stack_op (\<lambda>ks s. case s of l # h # s \<Rightarrow> Some (l # s) | _ \<Rightarrow> None))"
  by (rule implementsI) (auto simp: l2i_code_def templ_simps split: list.splits)

lemma unat_take: "unat (take_bit k n) = unat n mod 2 ^ k" for n :: u32
  unfolding unsigned_take_bit_eq by (rule take_bit_eq_mod)

lemma mask_split: "unat (n AND 63) = (if n AND 32 = 0 then unat (n AND 31) else unat (n AND 31) + 32)" for n :: u32
proof -
  have m: "n AND 63 = take_bit 6 n" "n AND 31 = take_bit 5 n"
    by (simp_all add: take_bit_eq_mask mask_eq_exp_minus_1)
  have "(n AND 32 = 0) = (\<not> bit n 5)" using and_exp_eq_0_iff_not_bit [of n 5] by simp
  also have "bit n 5 = bit (unat n) 5" by (simp add: bit_unsigned_iff)
  also have "\<dots> = odd (unat n div 32)" by (simp add: bit_iff_odd)
  finally have z: "(n AND 32 = 0) = even (unat n div 32)" by simp
  have "unat n mod 64 = 32 * (unat n div 32 mod 2) + unat n mod 32" using mod_mult2_eq [of "unat n" 32 2] by simp
  then show ?thesis unfolding m z unat_take by (auto simp: odd_iff_mod_2_eq_one)
qed

lemma count31: "shift_count m < 32" "unat (ecx m AND 63) = (if ecx m AND 32 = 0 then shift_count m else shift_count m + 32)"
proof -
  have "ecx m AND 31 = take_bit 5 (ecx m)" by (simp add: take_bit_eq_mask mask_eq_exp_minus_1)
  then have "shift_count m = unat (ecx m) mod 32"
    by (simp only: shift_count_def unat_take) simp
  then show "shift_count m < 32" by simp
qed (simp add: mask_split shift_count_def)

lemma shl_good:
  assumes "jacc js = None" "jvars js = vars m" "jmem js = memory m"
  shows "jstack js = (let x = push_bit (unat (ecx m AND 63)) (dbl (edx m) (eax m)) in lo32 x # hi32 x # stk m) \<Longrightarrow> nxt = 2 \<Longrightarrow>
      good nxt (JNext js) (run ks (SHIFT_UNSIGNED_LONG ShldCL SHL EAX EDX) m)"
    "jstack js = (let x = push_bit (unat (ecx m AND 63)) (dbl (eax m) (edx m)) in lo32 x # hi32 x # stk m) \<Longrightarrow> nxt = 4 \<Longrightarrow>
      good nxt (JNext js) (run ks (SHIFT_UNSIGNED_LONG ShldCL SHL EDX EAX) m)"
  using assms count31(1) [of m]
  by (auto simp: SHIFT_UNSIGNED_LONG_def templ_simps count31(2) dbl_push shift_count_def)

lemma sar_more: "signed_drop_bit (31 + k) h = signed_drop_bit 31 h" for h :: u32
proof (rule bit_word_eqI)
  fix n assume "n < LENGTH(32)"
  then show "bit (signed_drop_bit (31 + k) h) n = bit (signed_drop_bit 31 h) n"
    by (cases "n = 0"; cases "k = 0") (auto simp: bit_simps)
qed

lemma sar_good:
  assumes "jacc js = None" "jvars js = vars m" "jmem js = memory m"
  shows "jstack js = (let x = signed_drop_bit (unat (ecx m AND 63)) (dbl (edx m) (eax m)) in lo32 x # hi32 x # stk m) \<Longrightarrow> nxt = 2 \<Longrightarrow>
      good nxt (JNext js) (run ks (SHIFT_SIGNED_LONG ShrdCL SAR EDX EAX) m)"
    "jstack js = (let x = signed_drop_bit (unat (ecx m AND 63)) (dbl (eax m) (edx m)) in lo32 x # hi32 x # stk m) \<Longrightarrow> nxt = 4 \<Longrightarrow>
      good nxt (JNext js) (run ks (SHIFT_SIGNED_LONG ShrdCL SAR EAX EDX) m)"
  using assms count31(1) [of m]
  by (auto simp: SHIFT_SIGNED_LONG_def templ_simps count31(2) dbl_sdrop sar_more shift_count_def)

lemma shr_good:
  assumes "jacc js = None" "jvars js = vars m" "jmem js = memory m"
  shows "jstack js = (let x = drop_bit (unat (ecx m AND 63)) (dbl (edx m) (eax m)) in lo32 x # hi32 x # stk m) \<Longrightarrow> nxt = 2 \<Longrightarrow>
      good nxt (JNext js) (run ks (SHIFT_UNSIGNED_LONG ShrdCL SHR EDX EAX) m)"
    "jstack js = (let x = drop_bit (unat (ecx m AND 63)) (dbl (eax m) (edx m)) in lo32 x # hi32 x # stk m) \<Longrightarrow> nxt = 4 \<Longrightarrow>
      good nxt (JNext js) (run ks (SHIFT_UNSIGNED_LONG ShrdCL SHR EAX EDX) m)"
  using assms count31(1) [of m]
  by (auto simp: SHIFT_UNSIGNED_LONG_def templ_simps count31(2) dbl_drop shift_count_def)

lemma lshift_right:
  "implements (CODE_SHIFT_LONG (SHIFT_UNSIGNED_LONG ShldCL SHL) EAX EDX) (shift2 (\<lambda>a n. push_bit n a))"
  "implements (CODE_SHIFT_LONG (SHIFT_SIGNED_LONG ShrdCL SAR) EDX EAX) (shift2 (\<lambda>a n. signed_drop_bit n a))"
  "implements (CODE_SHIFT_LONG (SHIFT_UNSIGNED_LONG ShrdCL SHR) EDX EAX) (shift2 (\<lambda>a n. drop_bit n a))"
  by (rule implementsI; auto simp: CODE_SHIFT_LONG_def templ_simps shl_good sar_good shr_good split: list.splits)+

lemma i2bcs_right:
  "implements (CODE_I2BCS 24 SAR) (int1 (\<lambda>a. scast (ucast a :: u8)))"
  "implements (CODE_I2BCS 16 SHR) (int1 (\<lambda>a. ucast (ucast a :: u16)))"
  "implements (CODE_I2BCS 16 SAR) (int1 (\<lambda>a. scast (ucast a :: u16)))"
proof -
  have b: "signed_drop_bit 24 (push_bit 24 a) = scast (ucast a :: u8)" for a :: u32
  proof (rule bit_word_eqI)
    fix n assume n: "n < LENGTH(32)"
    consider "n < 7" | "n = 7" | "7 < n" by linarith
    then show "bit (signed_drop_bit 24 (push_bit 24 a)) n = bit (scast (ucast a :: u8) :: u32) n"
      using n by cases (auto simp: bit_simps min_def)
  qed
  have c: "drop_bit 16 (push_bit 16 a) = ucast (ucast a :: u16)" for a :: u32
    by (rule bit_word_eqI) (auto simp: bit_simps)
  have s: "signed_drop_bit 16 (push_bit 16 a) = scast (ucast a :: u16)" for a :: u32
  proof (rule bit_word_eqI)
    fix n assume n: "n < LENGTH(32)"
    consider "n < 15" | "n = 15" | "15 < n" by linarith
    then show "bit (signed_drop_bit 16 (push_bit 16 a)) n = bit (scast (ucast a :: u16) :: u32) n"
      using n by cases (auto simp: bit_simps min_def)
  qed
  show "implements (CODE_I2BCS 24 SAR) (int1 (\<lambda>a. scast (ucast a :: u8)))"
    "implements (CODE_I2BCS 16 SHR) (int1 (\<lambda>a. ucast (ucast a :: u16)))"
    "implements (CODE_I2BCS 16 SAR) (int1 (\<lambda>a. scast (ucast a :: u16)))"
    by (rule implementsI; auto simp: CODE_I2BCS_def templ_simps b c s split: list.splits)+
qed

lemma sint_range: "- 2147483648 \<le> sint (a :: u32)" "sint a < 2147483648"
  using sint_greater_eq [of a] sint_less [of a] by simp_all

lemma less_flags: "((sint (a - b) < 0) = (sint a - sint b = sint (a - b))) \<longleftrightarrow> sint a < sint b" for a b :: u32
proof -
  have less: "((d < 0) = (x - y = d)) \<longleftrightarrow> x < y"
    if "4294967296 dvd x - y - d" "- 2147483648 \<le> x" "x < 2147483648" "- 2147483648 \<le> y" "y < 2147483648"
      "- 2147483648 \<le> d" "d < 2147483648" for x y d :: int
  proof -
    from that(1) obtain k where k: "x - y - d = 4294967296 * k" by (elim dvdE)
    with that have "k = - 1 \<or> k = 0 \<or> k = 1" by arith
    with k that show ?thesis by (elim disjE) auto
  qed
  have "(of_int (sint a - sint b) :: u32) = of_int (sint (a - b))" by simp
  then have "(sint a - sint b) mod 2 ^ 32 = sint (a - b) mod 2 ^ 32"
    unfolding word_of_int_eq_iff by (simp add: take_bit_eq_mod)
  then have "4294967296 dvd sint a - sint b - sint (a - b)" by (simp add: mod_eq_dvd_iff)
  then show ?thesis
    using sint_range [of a] sint_range [of b] sint_range [of "a - b"] by (rule less)
qed

fun compares :: "cond \<Rightarrow> int \<Rightarrow> int \<Rightarrow> bool" where
  "compares JE a b = (a = b)"
| "compares JNE a b = (a \<noteq> b)"
| "compares JL a b = (a < b)"
| "compares JGE a b = (a \<ge> b)"
| "compares JG a b = (a > b)"
| "compares JLE a b = (a \<le> b)"
| "compares JB a b = False"
| "compares JNS a b = False"

lemma holds_sub: "c \<notin> {JB, JNS} \<Longrightarrow> holds c (alu_flags SUB b a m) = compares c (sint a) (sint b)"
proof -
  assume "c \<notin> {JB, JNS}"
  moreover have "sint a = sint b \<longleftrightarrow> a = b" by (metis signed_word_eqI)
  ultimately show ?thesis
    using less_flags [of a b] by (cases c) (auto simp: not_less less_le)
qed

lemma holds_test: "c \<notin> {JB, JNS} \<Longrightarrow> holds c (alu_flags ANDL a a m) = compares c (sint a) 0"
proof -
  assume "c \<notin> {JB, JNS}"
  moreover have "sint a = 0 \<longleftrightarrow> a = 0" by (simp add: signed_eq_0_iff)
  ultimately show ?thesis by (cases c) auto
qed

lemma lcmp_cases:
  "lcmp (dbl h l) (dbl h' l') = (if sint h < sint h' then - 1 else if sint h' < sint h then 1 else if l < l' then - 1 else if l = l' then 0 else 1)"
proof -
  have "dbl h l = dbl h' l' \<longleftrightarrow> h = h' \<and> l = l'" by (metis hi32_dbl lo32_dbl)
  moreover have "sint h = sint h' \<longleftrightarrow> h = h'" by (metis signed_word_eqI)
  ultimately show ?thesis by (auto simp: lcmp_def dbl_less)
qed

lemma holds_below: "holds JB (alu_flags SUB b a m) = (a < b)"
  by (simp add: word_less_nat_alt)

lemma if_right: "c \<notin> {JB, JNS} \<Longrightarrow> implements CODE_IF (if_op c (\<lambda>a. compares c (sint a) 0))"
  by (rule implementsI) (auto simp: CODE_IF_def if_op_def templ_simps holds_test split: list.splits)

lemma icmp_right: "c \<notin> {JB, JNS} \<Longrightarrow> implements CODE_IF_ICMP (icmp_op c (\<lambda>a b. compares c (sint a) (sint b)))"
  by (rule implementsI) (auto simp: CODE_IF_ICMP_def icmp_op_def templ_simps holds_sub split: list.splits)

lemmas access_simps = checked_def throwing_def mapped_def elem_def UNHAND_def ac_simps

lemma array_check_right: "implements array_check_code check_op"
  by (rule implementsI) (auto simp: array_check_code_def ARRAY_CHECK_def OBJ_LENGTH_def check_op_def array_length_def templ_simps access_simps word_less_nat_alt [symmetric] split: list.splits if_splits)

lemma aload_right:
  "implements iaload_code (aload_op 4 word_at)" "implements baload_code (aload_op 1 (widen MOVSB))"
  "implements caload_code (aload_op 2 (widen MOVZW))" "implements saload_code (aload_op 2 (widen MOVSW))"
  "implements laload_code aload2_op"
  by (rule implementsI; auto simp: iaload_code_def baload_code_def caload_code_def saload_code_def laload_code_def
      aload_op_def aload2_op_def templ_simps access_simps split: list.splits if_splits)+

lemma astore_right:
  "implements iastore1_code take_op" "implements iastore_code (astore_op 4 store_word)" "implements bastore_code (astore_op 1 store_byte)"
  "implements castore_code (astore_op 2 store_half)" "implements sastore_code (astore_op 2 store_half)"
  "implements lastore_code astore2_op"
  by (rule implementsI; auto simp: iastore1_code_def iastore_code_def bastore_code_def castore_code_def sastore_code_def lastore_code_def
      CODE_LASTORE_def ARRAY_CHECK_def OBJ_LENGTH_def array_length_def word_less_nat_alt [symmetric]
      take_op_def astore_op_def astore2_op_def templ_simps access_simps split: list.splits if_splits)+

lemma static_right:
  "implements CODE_GETSTATIC getstatic_op" "implements CODE_PUTSTATIC putstatic_op"
  "implements CODE_GETSTATIC2 getstatic2_op" "implements CODE_PUTSTATIC2 putstatic2_op"
  by (rule implementsI; auto simp: CODE_GETSTATIC_def CODE_PUTSTATIC_def CODE_GETSTATIC2_def CODE_PUTSTATIC2_def
      getstatic_op_def putstatic_op_def getstatic2_op_def putstatic2_op_def templ_simps access_simps split: list.splits if_splits)+

lemma field_right:
  "implements getfield_code getfield_op" "implements getfield2_code getfield2_op"
  "implements putfield_code putfield_op" "implements putfield2_code putfield2_op"
  by (rule implementsI; auto simp: getfield_code_def getfield2_code_def putfield_code_def putfield2_code_def PUTFIELD_ST24_def PUTFIELD2_ST24_def
      getfield_op_def getfield2_op_def putfield_op_def putfield2_op_def templ_simps access_simps split: list.splits if_splits)+

lemma lcmp_good2:
  assumes m: "stk m = l1 # h1 # t" and js: "jstack js = lcmp (dbl h1 l1) (dbl (edx m) (ecx m)) # t" "jvars js = vars m"
    "jmem js = memory m" "jacc js = None"
  shows "good (Suc 0) (JNext js) (run ks (LCMP_ST24 ECX EDX) m)"
proof -
  have eq: "sint a = sint b \<longleftrightarrow> a = b" for a b :: u32 by (metis signed_word_eqI)
  consider "sint h1 < sint (edx m)" | "sint (edx m) < sint h1" | "h1 = edx m" "l1 < ecx m"
    | "h1 = edx m" "l1 = ecx m" | "h1 = edx m" "ecx m < l1"
    using eq by (metis linorder_neqE)
  then show ?thesis
    by (cases; use m js in \<open>simp add: LCMP_ST24_def templ_simps del: holds.simps, simp add: holds_sub holds_below lcmp_cases del: holds.simps\<close>)
qed

lemma lcmp_good4:
  assumes m: "stk m = l1 # h1 # t" and js: "jstack js = lcmp (dbl h1 l1) (dbl (ecx m) (edx m)) # t" "jvars js = vars m"
    "jmem js = memory m" "jacc js = None"
  shows "good (Suc 0) (JNext js) (run ks (LCMP_ST24 EDX ECX) m)"
proof -
  have eq: "sint a = sint b \<longleftrightarrow> a = b" for a b :: u32 by (metis signed_word_eqI)
  consider "sint h1 < sint (ecx m)" | "sint (ecx m) < sint h1" | "h1 = ecx m" "l1 < edx m"
    | "h1 = ecx m" "l1 = edx m" | "h1 = ecx m" "edx m < l1"
    using eq by (metis linorder_neqE)
  then show ?thesis
    by (cases; use m js in \<open>simp add: LCMP_ST24_def templ_simps del: holds.simps, simp add: holds_sub holds_below lcmp_cases del: holds.simps\<close>)
qed

lemma lcmp_right: "implements lcmp_code (stack_op (\<lambda>ks s. case s of l2 # h2 # l1 # h1 # s \<Rightarrow> Some (lcmp (dbl h1 l1) (dbl h2 l2) # s) | _ \<Rightarrow> None))"
  by (rule implementsI) (auto simp: lcmp_code_def templ_simps intro!: lcmp_good2 lcmp_good4 split: list.splits)

lemma arraylength_right: "implements arraylength_code arraylength_op"
  by (rule implementsI) (auto simp: arraylength_code_def OBJ_LENGTH_def array_length_def arraylength_op_def templ_simps access_simps
      split: list.splits if_splits)

lemma nop_right: "implements (any_state []) keep_op"
  by (rule implementsI) (auto simp: templ_simps)

lemma holds_jns: "holds JNS (alu_flags ANDL a a m) \<longleftrightarrow> 0 \<le> sint a"
  by (simp add: not_less)

lemma sint_dbl_sign: "sint (dbl h l) < 0 \<longleftrightarrow> sint h < 0"
proof -
  have "(a * 4294967296 + b < 0) = (a < 0)" if "0 \<le> b" "b < 4294967296" for a b :: int
    using that by (intro iffI; linarith)
  from this [of "uint l" "sint h"] show ?thesis
    using uint_bounded [of l] by (simp add: sint_dbl)
qed

lemma abs_long_right: "implements abs_long_code (long1 (\<lambda>a. if sint a < 0 then - a else a))"
  by (rule implementsI) (auto simp: abs_long_code_def templ_simps carry_def dbl_uminus unat_gt_0 sint_dbl_sign split: list.splits)

end
