(* ===== verification/Instructions.thy ===== *)
theory Instructions
  imports Templates
begin

text \<open>
  The table of the templates by opcode, and beside it the instructions of the virtual machine
  they stand for.
\<close>

definition templates :: "(nat \<times> code) list" where
  "templates =
    [(opc_fill_cache, fill_cache_code), (opc_flush_cache, flush_cache_code),
     (opc_stateto0, stateto_code 0), (opc_stateto1, stateto_code 1), (opc_stateto2, stateto_code 2),
     (opc_stateto3, stateto_code 3), (opc_stateto4, stateto_code 4),
     (opc_goto_st0, goto_st_code 0), (opc_goto_st1, goto_st_code 1), (opc_goto_st2, goto_st_code 2),
     (opc_goto_st3, goto_st_code 3), (opc_goto_st4, goto_st_code 4),
     (opc_nop, any_state []), (opc_iconst_0, iconst_0_code), (opc_iconst_m1, CODE_ICONST_N (- 1)),
     (opc_iconst_1, CODE_ICONST_N 1), (opc_iconst_2, CODE_ICONST_N 2), (opc_iconst_3, CODE_ICONST_N 3),
     (opc_iconst_4, CODE_ICONST_N 4), (opc_iconst_5, CODE_ICONST_N 5), (opc_lconst_0, lconst_0_code),
     (opc_lconst_1, lconst_1_code), (opc_fconst_1, fconst_1_code), (opc_fconst_2, fconst_2_code),
     (opc_dconst_1, dconst_1_code), (opc_bipush, bipush_code), (opc_ldc2_w, ldc2_w_code),
     (opc_iload, iload_code), (opc_lload, lload_code),
     (opc_array_check, array_check_code), (opc_iaload, iaload_code), (opc_laload, laload_code),
     (opc_baload, baload_code), (opc_caload, caload_code), (opc_saload, saload_code),
     (opc_istore, CODE_ISTORE 0 0 1 0 3), (opc_istld, CODE_ISTORE 1 1 2 3 4),
     (opc_lstore, CODE_LSTORE 0 0), (opc_lstld, CODE_LSTORE 2 4),
     (opc_iastore1, iastore1_code), (opc_iastore, iastore_code), (opc_lastore, lastore_code),
     (opc_bastore, bastore_code), (opc_castore, castore_code), (opc_sastore, sastore_code),
     (opc_pop, pop_code), (opc_pop2, pop2_code), (opc_dup, dup_code), (opc_dup_x1, dup_x1_code),
     (opc_dup_x2, dup_x2_code), (opc_dup2, dup2_code), (opc_dup2_x1, dup2_x1_code), (opc_dup2_x2, dup2_x2_code),
     (opc_swap, swap_code),
     (opc_iadd, CODE_ARITH_INT ADD), (opc_isub, CODE_ARITH_INT SUB), (opc_imul, CODE_ARITH_INT IMUL),
     (opc_iand, CODE_ARITH_INT ANDL), (opc_ior, CODE_ARITH_INT ORL), (opc_ixor, CODE_ARITH_INT XORL),
     (opc_ladd, CODE_ARITH_LONG ADD ADC), (opc_lsub, CODE_ARITH_LONG_SUB SUB SBB),
     (opc_land, CODE_ARITH_LONG ANDL ANDL), (opc_lor, CODE_ARITH_LONG ORL ORL), (opc_lxor, CODE_ARITH_LONG XORL XORL),
     (opc_lmul, lmul_code), (opc_ineg, ineg_code), (opc_lneg, lneg_code),
     (opc_fneg, CODE_FNEG [Stack 0, Reg EDX, Reg ECX, Reg ECX, Reg EDX]),
     (opc_dneg, CODE_FNEG [Stack 1, Stack 0, Reg EDX, Stack 0, Reg ECX]),
     (opc_ishl, CODE_SHIFT_INT SHL), (opc_ishr, CODE_SHIFT_INT SAR), (opc_iushr, CODE_SHIFT_INT SHR),
     (opc_lshl, CODE_SHIFT_LONG (SHIFT_UNSIGNED_LONG ShldCL SHL) EAX EDX),
     (opc_lshr, CODE_SHIFT_LONG (SHIFT_SIGNED_LONG ShrdCL SAR) EDX EAX),
     (opc_lushr, CODE_SHIFT_LONG (SHIFT_UNSIGNED_LONG ShrdCL SHR) EDX EAX),
     (opc_iinc, iinc_code), (opc_i2l, i2l_code), (opc_l2i, l2i_code),
     (opc_i2b, CODE_I2BCS 24 SAR), (opc_i2c, CODE_I2BCS 16 SHR), (opc_i2s, CODE_I2BCS 16 SAR), (opc_lcmp, lcmp_code),
     (opc_ifeq, CODE_IF), (opc_ifne, CODE_IF), (opc_iflt, CODE_IF), (opc_ifge, CODE_IF), (opc_ifgt, CODE_IF),
     (opc_ifle, CODE_IF),
     (opc_if_icmpeq, CODE_IF_ICMP), (opc_if_icmpne, CODE_IF_ICMP), (opc_if_icmplt, CODE_IF_ICMP),
     (opc_if_icmpge, CODE_IF_ICMP), (opc_if_icmpgt, CODE_IF_ICMP), (opc_if_icmple, CODE_IF_ICMP),
     (opc_jsr, jsr_code),
     (opc_getstatic_quick, CODE_GETSTATIC), (opc_putstatic_quick, CODE_PUTSTATIC),
     (opc_getstatic2_quick, CODE_GETSTATIC2), (opc_putstatic2_quick, CODE_PUTSTATIC2),
     (opc_getstatic, CODE_GETSTATIC), (opc_putstatic, CODE_PUTSTATIC),
     (opc_getstatic2, CODE_GETSTATIC2), (opc_putstatic2, CODE_PUTSTATIC2),
     (opc_getfield, getfield_code), (opc_getfield2, getfield2_code),
     (opc_putfield, putfield_code), (opc_putfield2, putfield2_code), (opc_arraylength, arraylength_code),
     (opc_abs_long, abs_long_code)]"

abbreviation pops :: "(u32 list \<Rightarrow> u32 list option) \<Rightarrow> jop" where
  "pops f \<equiv> stack_op (\<lambda>ks. f)"

definition instructions :: "(nat \<times> jop) list" where
  "instructions =
    [(opc_fill_cache, need 2), (opc_flush_cache, keep_op),
     (opc_stateto0, need (cached 0)), (opc_stateto1, need (cached 1)), (opc_stateto2, need (cached 2)),
     (opc_stateto3, need (cached 3)), (opc_stateto4, need (cached 4)),
     (opc_goto_st0, goto_need (cached 0)), (opc_goto_st1, goto_need (cached 1)), (opc_goto_st2, goto_need (cached 2)),
     (opc_goto_st3, goto_need (cached 3)), (opc_goto_st4, goto_need (cached 4)),
     (opc_nop, keep_op), (opc_iconst_0, const1 0), (opc_iconst_m1, const1 (- 1)), (opc_iconst_1, const1 1),
     (opc_iconst_2, const1 2), (opc_iconst_3, const1 3), (opc_iconst_4, const1 4), (opc_iconst_5, const1 5),
     (opc_lconst_0, const2 0), (opc_lconst_1, const2 1), (opc_fconst_1, const1 0x3f800000),
     (opc_fconst_2, const1 0x40000000), (opc_dconst_1, const2 0x3ff0000000000000), (opc_bipush, imm1),
     (opc_ldc2_w, imm2), (opc_iload, load_op), (opc_lload, load2_op),
     (opc_array_check, check_op), (opc_iaload, aload_op 4 word_at), (opc_laload, aload2_op),
     (opc_baload, aload_op 1 (widen MOVSB)), (opc_caload, aload_op 2 (widen MOVZW)), (opc_saload, aload_op 2 (widen MOVSW)),
     (opc_istore, store_op False), (opc_istld, store_op True), (opc_lstore, store2_op False), (opc_lstld, store2_op True),
     (opc_iastore1, take_op), (opc_iastore, astore_op 4 store_word), (opc_lastore, astore2_op),
     (opc_bastore, astore_op 1 store_byte), (opc_castore, astore_op 2 store_half), (opc_sastore, astore_op 2 store_half),
     (opc_pop, pops (\<lambda>s. case s of a # s \<Rightarrow> Some s | _ \<Rightarrow> None)),
     (opc_pop2, pops (\<lambda>s. case s of a # b # s \<Rightarrow> Some s | _ \<Rightarrow> None)),
     (opc_dup, pops (\<lambda>s. case s of a # s \<Rightarrow> Some (a # a # s) | _ \<Rightarrow> None)),
     (opc_dup_x1, pops (\<lambda>s. case s of a # b # s \<Rightarrow> Some (a # b # a # s) | _ \<Rightarrow> None)),
     (opc_dup_x2, pops (\<lambda>s. case s of a # b # c # s \<Rightarrow> Some (a # b # c # a # s) | _ \<Rightarrow> None)),
     (opc_dup2, pops (\<lambda>s. case s of a # b # s \<Rightarrow> Some (a # b # a # b # s) | _ \<Rightarrow> None)),
     (opc_dup2_x1, pops (\<lambda>s. case s of a # b # c # s \<Rightarrow> Some (a # b # c # a # b # s) | _ \<Rightarrow> None)),
     (opc_dup2_x2, pops (\<lambda>s. case s of a # b # c # d # s \<Rightarrow> Some (a # b # c # d # a # b # s) | _ \<Rightarrow> None)),
     (opc_swap, pops (\<lambda>s. case s of a # b # s \<Rightarrow> Some (b # a # s) | _ \<Rightarrow> None)),
     (opc_iadd, int2 (+)), (opc_isub, int2 (-)), (opc_imul, int2 (*)), (opc_iand, int2 (AND)), (opc_ior, int2 (OR)),
     (opc_ixor, int2 (XOR)), (opc_ladd, long2 (+)), (opc_lsub, long2 (-)), (opc_land, long2 (AND)), (opc_lor, long2 (OR)),
     (opc_lxor, long2 (XOR)), (opc_lmul, long2 (*)), (opc_ineg, int1 uminus), (opc_lneg, long1 uminus),
     (opc_fneg, int1 (\<lambda>a. a XOR 0x80000000)),
     (opc_dneg, pops (\<lambda>s. case s of l # h # s \<Rightarrow> Some (l # (h XOR 0x80000000) # s) | _ \<Rightarrow> None)),
     (opc_ishl, int2 (\<lambda>a n. push_bit (unat (n AND 31)) a)), (opc_ishr, int2 (\<lambda>a n. signed_drop_bit (unat (n AND 31)) a)),
     (opc_iushr, int2 (\<lambda>a n. drop_bit (unat (n AND 31)) a)), (opc_lshl, shift2 (\<lambda>a n. push_bit n a)),
     (opc_lshr, shift2 (\<lambda>a n. signed_drop_bit n a)), (opc_lushr, shift2 (\<lambda>a n. drop_bit n a)), (opc_iinc, inc_op),
     (opc_i2l, pops (\<lambda>s. case s of a # s \<Rightarrow> let x = scast a :: u64 in Some (lo32 x # hi32 x # s) | _ \<Rightarrow> None)),
     (opc_l2i, pops (\<lambda>s. case s of l # h # s \<Rightarrow> Some (l # s) | _ \<Rightarrow> None)),
     (opc_i2b, int1 (\<lambda>a. scast (ucast a :: u8))), (opc_i2c, int1 (\<lambda>a. ucast (ucast a :: u16))),
     (opc_i2s, int1 (\<lambda>a. scast (ucast a :: u16))),
     (opc_lcmp, pops (\<lambda>s. case s of l2 # h2 # l1 # h1 # s \<Rightarrow> Some (lcmp (dbl h1 l1) (dbl h2 l2) # s) | _ \<Rightarrow> None)),
     (opc_ifeq, if_op JE (\<lambda>a. compares JE (sint a) 0)), (opc_ifne, if_op JNE (\<lambda>a. compares JNE (sint a) 0)),
     (opc_iflt, if_op JL (\<lambda>a. compares JL (sint a) 0)), (opc_ifge, if_op JGE (\<lambda>a. compares JGE (sint a) 0)),
     (opc_ifgt, if_op JG (\<lambda>a. compares JG (sint a) 0)), (opc_ifle, if_op JLE (\<lambda>a. compares JLE (sint a) 0)),
     (opc_if_icmpeq, icmp_op JE (\<lambda>a b. compares JE (sint a) (sint b))),
     (opc_if_icmpne, icmp_op JNE (\<lambda>a b. compares JNE (sint a) (sint b))),
     (opc_if_icmplt, icmp_op JL (\<lambda>a b. compares JL (sint a) (sint b))),
     (opc_if_icmpge, icmp_op JGE (\<lambda>a b. compares JGE (sint a) (sint b))),
     (opc_if_icmpgt, icmp_op JG (\<lambda>a b. compares JG (sint a) (sint b))),
     (opc_if_icmple, icmp_op JLE (\<lambda>a b. compares JLE (sint a) (sint b))),
     (opc_jsr, imm1),
     (opc_getstatic_quick, getstatic_op), (opc_putstatic_quick, putstatic_op), (opc_getstatic2_quick, getstatic2_op),
     (opc_putstatic2_quick, putstatic2_op), (opc_getstatic, getstatic_op), (opc_putstatic, putstatic_op),
     (opc_getstatic2, getstatic2_op), (opc_putstatic2, putstatic2_op), (opc_getfield, getfield_op),
     (opc_getfield2, getfield2_op), (opc_putfield, putfield_op), (opc_putfield2, putfield2_op),
     (opc_arraylength, arraylength_op), (opc_abs_long, long1 (\<lambda>a. if sint a < 0 then - a else a))]"

definition tmpl :: "nat \<Rightarrow> nat \<Rightarrow> (insn list \<times> nat) option" where
  "tmpl opc st = (case map_of templates opc of None \<Rightarrow> None | Some c \<Rightarrow> map_of c st)"

definition jvm :: "nat \<Rightarrow> jop option" where
  "jvm = map_of instructions"

lemma alu_vals: "alu_val ADD m b a = a + b" "alu_val SUB m b a = a - b" "alu_val IMUL m b a = a * b"
  "alu_val ANDL m b a = (a AND b)" "alu_val ORL m b a = (a OR b)" "alu_val XORL m b a = (a XOR b)"
  by simp_all

lemmas int_rights = alu_vals [THEN int_right]

lemmas shift_rights = shift_val.simps [THEN ishift_right]

lemma templates_right:
  "list_all2 (\<lambda>(o1, c) (o2, f). o1 = o2 \<and> implements c f) templates instructions"
  unfolding templates_def instructions_def list.rel_inject prod.case
  by (intro conjI refl list.rel_intros fill_cache_right flush_cache_right stateto_right goto_st_right nop_right const_right
      const2_right imm_right load_right array_check_right aload_right store_right astore_right pop_right dup_right int_rights
      ladd_right lsub_right lbit_right lmul_right ineg_right lneg_right fneg_right shift_rights lshift_right iinc_right
      i2l_right l2i_right i2bcs_right lcmp_right if_right icmp_right static_right field_right arraylength_right abs_long_right)
   simp_all

subsection \<open>The shape of the templates\<close>

fun jumps_forward :: "insn list \<Rightarrow> bool" where
  \<comment> \<open>every jump has its label behind it\<close>
  "jumps_forward [] = True"
| "jumps_forward (Jcc c l # is) = (Label l \<in> set is \<and> jumps_forward is)"
| "jumps_forward (Jmp l # is) = (Label l \<in> set is \<and> jumps_forward is)"
| "jumps_forward (_ # is) = jumps_forward is"

definition filled_only :: "nat list" where
  \<comment> \<open>the instructions the compiler puts behind \<open>fill_cache\<close>\<close>
  "filled_only =
     [opc_array_check, opc_iaload, opc_laload, opc_baload, opc_caload, opc_saload, opc_lstore, opc_lstld, opc_iastore,
      opc_lastore, opc_bastore, opc_castore, opc_sastore]"

definition start_states :: "nat \<Rightarrow> nat list" where
  "start_states opc = (if opc \<in> set filled_only then [2, 4] else [0, 1, 2, 3, 4])"

definition code_typed :: "nat \<Rightarrow> code \<Rightarrow> bool" where
  "code_typed opc code \<longleftrightarrow> map fst code = start_states opc \<and>
     list_all (\<lambda>(st, is, nxt). nxt < 5 \<and> jumps_forward is) code"

lemma templates_typed_all: "list_all (\<lambda>(opc, code). code_typed opc code) templates"
  unfolding templates_def list.pred_inject prod.case
  by (intro conjI) (simp_all add: code_typed_def start_states_def filled_only_def OBJ_LENGTH_def ARRAY_CHECK_def UNHAND_def
    CODE_LASTORE_def LMUL_ST24_def SHIFT_SIGNED_LONG_def SHIFT_UNSIGNED_LONG_def LCMP_ST24_def PUTFIELD_ST24_def PUTFIELD2_ST24_def Let_def
    fill_cache_code_def flush_cache_code_def stateto_code_def goto_st_code_def any_state_def iconst_0_code_def CODE_ICONST_N_def
    lconst_0_code_def lconst_1_code_def fconst_1_code_def fconst_2_code_def dconst_1_code_def bipush_code_def ldc2_w_code_def
    iload_code_def lload_code_def array_check_code_def iaload_code_def laload_code_def baload_code_def caload_code_def
    saload_code_def CODE_ISTORE_def CODE_LSTORE_def iastore1_code_def iastore_code_def lastore_code_def bastore_code_def
    castore_code_def sastore_code_def pop_code_def pop2_code_def dup_code_def dup_x1_code_def dup_x2_code_def dup2_code_def
    dup2_x1_code_def dup2_x2_code_def swap_code_def CODE_ARITH_INT_def CODE_ARITH_LONG_def CODE_ARITH_LONG_SUB_def lmul_code_def
    ineg_code_def lneg_code_def CODE_FNEG_def CODE_SHIFT_INT_def CODE_SHIFT_LONG_def iinc_code_def i2l_code_def l2i_code_def
    CODE_I2BCS_def lcmp_code_def CODE_IF_def CODE_IF_ICMP_def jsr_code_def CODE_GETSTATIC_def CODE_PUTSTATIC_def
    CODE_GETSTATIC2_def CODE_PUTSTATIC2_def getfield_code_def getfield2_code_def putfield_code_def putfield2_code_def
    arraylength_code_def abs_long_code_def)

lemma templates_keys: "map fst templates = map fst instructions" "distinct (map fst templates)"
  by (simp_all add: templates_def instructions_def)

lemma tmpl_Some: "tmpl opc st = Some t \<longleftrightarrow> (\<exists>c. map_of templates opc = Some c \<and> map_of c st = Some t)"
  by (simp add: tmpl_def split: option.splits)

lemma templates_typed_set: "\<forall>(opc, code) \<in> set templates. code_typed opc code"
  using templates_typed_all by (simp add: list_all_iff)

lemma tmpl_state:
  assumes "tmpl opc st = Some (is, nxt)"
  shows "st < 5 \<and> nxt < 5 \<and> jumps_forward is"
proof -
  from assms obtain c where "(opc, c) \<in> set templates" and m: "(st, is, nxt) \<in> set c"
    by (auto simp: tmpl_Some dest!: map_of_SomeD)
  with templates_typed_set have c: "code_typed opc c" by auto
  with m have "st \<in> set (start_states opc)" unfolding code_typed_def by (metis fst_conv image_eqI list.set_map)
  with c m show ?thesis by (auto simp: code_typed_def list_all_iff start_states_def split: if_splits)
qed



subsection \<open>Templates and instructions\<close>

lemma map_of_all2:
  assumes "list_all2 (\<lambda>(a, x) (b, y). a = b \<and> P x y) xs ys" "map_of xs k = Some x"
  shows "\<exists>y. map_of ys k = Some y \<and> P x y"
  using assms by (induction rule: list_all2_induct) (auto split: if_splits)

lemma implementsD:
  "implements code f \<Longrightarrow> (st, is, nxt) \<in> set code \<Longrightarrow> matches st js m \<Longrightarrow> f ks js = Some r \<Longrightarrow> good nxt r (run ks is m)"
  unfolding implements_def by fast

lemma tmpl_right:
  assumes "tmpl opc st = Some (is, nxt)" "matches st js m"
  shows "\<exists>f. jvm opc = Some f \<and> (\<forall>ks r. f ks js = Some r \<longrightarrow> good nxt r (run ks is m))"
proof -
  from assms(1) obtain c where c: "map_of templates opc = Some c" "(st, is, nxt) \<in> set c"
    by (auto simp: tmpl_Some dest: map_of_SomeD)
  from map_of_all2 [OF templates_right c(1)] obtain f where "jvm opc = Some f" "implements c f" by (auto simp: jvm_def)
  with c(2) assms(2) show ?thesis by (auto simp: implements_def)
qed

text \<open>C23: A template does what its instruction does: run from any state of the stack cache in which
there is a template, on a machine that holds the operand stack, the variables and the memory of the
virtual machine, it ends in its declared state with the results of the instruction, sets the flags
the conditional jump behind it tests, leaves for the address or raises the exception of the
instruction, or faults in an access through \<open>NULL\<close>.\<close>
theorem template_implements:
  assumes "tmpl opc st = Some (is, nxt)" "matches st js m"
  shows "\<exists>f. jvm opc = Some f \<and> (\<forall>ks r. f ks js = Some r \<longrightarrow> good nxt r (run ks is m))"
  using assms by (rule tmpl_right)

definition sample_mach :: mach where
  "sample_mach = \<lparr>eax = 0, edx = 5, ecx = 0, edi = 0, zf = False, sf = False, cf = False, ovf = False, stk = [7, 9],
     dead = (\<lambda>_. 0), vars = (\<lambda>_. 0), memory = (\<lambda>_. 0)\<rparr>"

theorem template_implements_witness:
  "good 3 (JNext \<lparr>jstack = [2, 9], jvars = (\<lambda>_. 0), jmem = (\<lambda>_. 0), jacc = None\<rparr>)
     (run [] [Pop ECX, Alu SUB (Reg EDX) (Reg ECX)] sample_mach)"
proof -
  let ?js = "\<lparr>jstack = [5, 7, 9], jvars = (\<lambda>_. 0), jmem = (\<lambda>_. 0), jacc = None\<rparr>"
  have "tmpl opc_isub 1 = Some ([Pop ECX, Alu SUB (Reg EDX) (Reg ECX)], 3)"
    by (simp add: tmpl_def templates_def CODE_ARITH_INT_def)
  moreover have "matches 1 ?js sample_mach" by (simp add: matches_def stack_of_def sample_mach_def)
  ultimately obtain f where "jvm opc_isub = Some f" and
    *: "f [] ?js = Some r \<Longrightarrow> good 3 r (run [] [Pop ECX, Alu SUB (Reg EDX) (Reg ECX)] sample_mach)" for r
    using template_implements by blast
  from this(1) have "f = int2 (-)" by (simp add: jvm_def instructions_def)
  then show ?thesis by (intro *) (simp add: stack_op_def)
qed

text \<open>The templates of two inlined methods are wrong in one state each: \<open>Math.abs\<close> on an \<open>int\<close> or a
\<open>float\<close> on the native stack leaves its operand there, below the result; \<open>Math.abs\<close> on a \<open>double\<close>
whose high word is in \<open>%ecx\<close> clears a bit of the low word and keeps the sign.\<close>
theorem inlined_abs_wrong:
  "\<not> implements abs_int_code (int1 (\<lambda>a. if sint a < 0 then - a else a)) \<and>
   \<not> implements abs_float_code (int1 (\<lambda>a. a AND 0x7fffffff)) \<and>
   \<not> implements abs_double_code (pops (\<lambda>s. case s of l # h # s \<Rightarrow> Some (l # (h AND 0x7fffffff) # s) | _ \<Rightarrow> None)) \<and>
   (case abs_int_code ! 0 of (st, is, nxt) \<Rightarrow> \<exists>m'. run ks is (m\<lparr>stk := a # s\<rparr>) = End m' \<and>
      stack_of nxt m' = (if sint a < 0 then - a else a) # stack_of st (m\<lparr>stk := a # s\<rparr>)) \<and>
   (case abs_double_code ! 4 of (st, is, nxt) \<Rightarrow> \<exists>m'. run ks is m = End m' \<and>
      stack_of nxt m' = (edx m AND 0x7fffffff) # ecx m # stk m)"
proof (intro conjI)
  let ?m = "sample_mach\<lparr>ecx := 0x80000000\<rparr>"
  let ?js = "\<lambda>st. \<lparr>jstack = stack_of st ?m, jvars = (\<lambda>_. 0), jmem = (\<lambda>_. 0), jacc = None\<rparr>"
  have ms: "matches st (?js st) ?m" for st by (simp add: matches_def sample_mach_def)
  show "\<not> implements abs_int_code (int1 (\<lambda>a. if sint a < 0 then - a else a))"
  proof
    assume i: "implements abs_int_code (int1 (\<lambda>a. if sint a < 0 then - a else a))"
    have "(0, Mov (Stack 0) (Reg EDX) # ABS_INT EDX, 1) \<in> set abs_int_code" by (simp add: abs_int_code_def)
    moreover have "(int1 (\<lambda>a. if sint a < 0 then - a else a)) [] (?js 0) = Some (JNext ((?js 0)\<lparr>jstack := [7, 9]\<rparr>))"
      by (simp add: stack_op_def sample_mach_def stack_of_def)
    ultimately have "good 1 (JNext ((?js 0)\<lparr>jstack := [7, 9]\<rparr>)) (run [] (Mov (Stack 0) (Reg EDX) # ABS_INT EDX) ?m)"
      using implementsD [OF i _ ms] by blast
    then show False by (simp add: ABS_INT_def sample_mach_def matches_def stack_of_def)
  qed
  show "\<not> implements abs_float_code (int1 (\<lambda>a. a AND 0x7fffffff))"
  proof
    assume i: "implements abs_float_code (int1 (\<lambda>a. a AND 0x7fffffff))"
    have "(0, [Mov (Stack 0) (Reg EDX), Alu ANDL (Imm 0x7fffffff) (Reg EDX)], 1) \<in> set abs_float_code" by (simp add: abs_float_code_def Let_def)
    moreover have "(int1 (\<lambda>a. a AND 0x7fffffff)) [] (?js 0) = Some (JNext ((?js 0)\<lparr>jstack := [7, 9]\<rparr>))"
      by (simp add: stack_op_def sample_mach_def stack_of_def)
    ultimately have "good 1 (JNext ((?js 0)\<lparr>jstack := [7, 9]\<rparr>)) (run [] ([Mov (Stack 0) (Reg EDX), Alu ANDL (Imm 0x7fffffff) (Reg EDX)]) ?m)"
      using implementsD [OF i _ ms] by blast
    then show False by (simp add: sample_mach_def matches_def stack_of_def)
  qed
  show "\<not> implements abs_double_code (pops (\<lambda>s. case s of l # h # s \<Rightarrow> Some (l # (h AND 0x7fffffff) # s) | _ \<Rightarrow> None))"
  proof
    assume i: "implements abs_double_code (pops (\<lambda>s. case s of l # h # s \<Rightarrow> Some (l # (h AND 0x7fffffff) # s) | _ \<Rightarrow> None))"
    have "(4, [Alu ANDL (Imm 0x7fffffff) (Reg EDX)], 4) \<in> set abs_double_code" by (simp add: abs_double_code_def Let_def)
    moreover have "(pops (\<lambda>s. case s of l # h # s \<Rightarrow> Some (l # (h AND 0x7fffffff) # s) | _ \<Rightarrow> None)) [] (?js 4) = Some (JNext ((?js 4)\<lparr>jstack := [5, 0, 7, 9]\<rparr>))"
      by (simp add: stack_op_def sample_mach_def stack_of_def)
    ultimately have "good 4 (JNext ((?js 4)\<lparr>jstack := [5, 0, 7, 9]\<rparr>)) (run [] ([Alu ANDL (Imm 0x7fffffff) (Reg EDX)]) ?m)"
      using implementsD [OF i _ ms] by blast
    then show False by (simp add: sample_mach_def matches_def stack_of_def)
  qed
  show "case abs_int_code ! 0 of (st, is, nxt) \<Rightarrow> \<exists>m'. run ks is (m\<lparr>stk := a # s\<rparr>) = End m' \<and>
      stack_of nxt m' = (if sint a < 0 then - a else a) # stack_of st (m\<lparr>stk := a # s\<rparr>)"
    by (simp add: abs_int_code_def ABS_INT_def stack_of_def)
  show "case abs_double_code ! 4 of (st, is, nxt) \<Rightarrow> \<exists>m'. run ks is m = End m' \<and>
      stack_of nxt m' = (edx m AND 0x7fffffff) # ecx m # stk m"
    by (simp add: abs_double_code_def stack_of_def Let_def)
qed

end
