(* ===== verification/BlockRun.thy ===== *)
theory BlockRun
  imports Instructions States WriteCode
begin

text \<open>
  The native code of a stretch of entries of the program counter table: their templates one behind the
  other, each in the state \<^verbatim>\<open>updateStates\<close> has recorded for it, with the conditional jumps of
  \<^verbatim>\<open>writeCode\<close> behind the templates that set the flags for them.
\<close>

definition cond_of :: "u8 \<Rightarrow> cond option" where
  \<comment> \<open>the condition of the jump \<open>0f\<close> \<open>b\<close>\<close>
  "cond_of b = map_of [(0x84, JE), (0x85, JNE), (0x8c, JL), (0x8d, JGE), (0x8f, JG), (0x8e, JLE)] b"

record piece =
  tp_opc :: nat
  tp_st :: nat
  tp_ks :: "u32 list"   \<comment> \<open>what is written over \<open>SLOT_CONST\<close>\<close>

fun run_code :: "piece list \<Rightarrow> mach \<Rightarrow> nat \<times> outcome" where
  \<comment> \<open>with the number of pieces that are left where it ends\<close>
  "run_code [] m = (0, End m)"
| "run_code (p # ps) m =
     (case tmpl (tp_opc p) (tp_st p) of
        None \<Rightarrow> (length ps, Fault Stuck m [])
      | Some (is, _) \<Rightarrow>
          (case run (tp_ks p) is m of
             End m \<Rightarrow>
               (case cond_of (fst (jcc_codes (tp_opc p))) of
                  None \<Rightarrow> run_code ps m
                | Some c \<Rightarrow> if holds c m then (length ps, End m) else run_code ps m)
           | out \<Rightarrow> (length ps, out)))"

fun jvm_run :: "(nat \<times> u32 list) list \<Rightarrow> jst \<Rightarrow> (nat \<times> jres) option" where
  "jvm_run [] js = Some (0, JNext js)"
| "jvm_run ((opc, ks) # is) js =
     (case jvm opc of
        None \<Rightarrow> None
      | Some f \<Rightarrow>
          (case f ks js of
             None \<Rightarrow> None
           | Some (JNext js) \<Rightarrow> jvm_run is js
           | Some (JIf c b js) \<Rightarrow> if b then Some (length is, JIf c b js) else jvm_run is js
           | Some r \<Rightarrow> Some (length is, r)))"

definition jif_op :: "jop \<Rightarrow> cond option \<Rightarrow> bool" where
  \<comment> \<open>the condition the instruction jumps on, if it does\<close>
  "jif_op f c \<longleftrightarrow> (\<forall>ks js r. f ks js = Some r \<longrightarrow>
     (case r of JIf c' _ _ \<Rightarrow> c = Some c' | _ \<Rightarrow> c = None))"

lemma stack_op_jif: "jif_op (stack_op f) None"
  by (auto simp: jif_op_def stack_op_def)

lemmas op_defs = jif_op_def keep_op_def need_def goto_need_def load_op_def load2_op_def store_op_def store2_op_def inc_op_def
  check_op_def aload_op_def aload2_op_def take_op_def astore_op_def astore2_op_def arraylength_op_def getstatic_op_def
  getstatic2_op_def putstatic_op_def putstatic2_op_def getfield_op_def getfield2_op_def putfield_op_def putfield2_op_def
  throwing_def mapped_def Let_def

lemma ops_jif:
  "jif_op keep_op None" "jif_op (need n) None" "jif_op (goto_need n) None" "jif_op load_op None" "jif_op load2_op None"
  "jif_op (store_op k) None" "jif_op (store2_op k) None" "jif_op inc_op None" "jif_op check_op None"
  "jif_op (aload_op s g) None" "jif_op aload2_op None" "jif_op take_op None" "jif_op (astore_op s p) None"
  "jif_op astore2_op None" "jif_op arraylength_op None" "jif_op getstatic_op None" "jif_op getstatic2_op None"
  "jif_op putstatic_op None" "jif_op putstatic2_op None" "jif_op getfield_op None" "jif_op getfield2_op None"
  "jif_op putfield_op None" "jif_op putfield2_op None"
  by (auto simp: op_defs split: list.splits option.splits if_splits)

lemma if_jif: "jif_op (if_op c p) (Some c)" "jif_op (icmp_op c q) (Some c)"
  by (auto simp: jif_op_def if_op_def icmp_op_def split: list.splits)

lemma instructions_jif: "list_all (\<lambda>(opc, f). jif_op f (cond_of (fst (jcc_codes opc)))) instructions"
  unfolding instructions_def list.pred_inject prod.case
  by (simp add: jcc_codes_def cond_of_def stack_op_jif ops_jif if_jif)

lemma jvm_jif: "jvm opc = Some f \<Longrightarrow> jif_op f (cond_of (fst (jcc_codes opc)))"
  using instructions_jif by (auto simp: jvm_def list_all_iff dest: map_of_SomeD)

definition piece_of :: "piece \<Rightarrow> nat \<times> u32 list" where
  "piece_of p = (tp_opc p, tp_ks p)"

fun linked :: "piece list \<Rightarrow> nat \<Rightarrow> bool" where
  \<comment> \<open>each piece ends in the state the next one starts in, the last one in the given state\<close>
  "linked [] st \<longleftrightarrow> True"
| "linked (p # ps) st \<longleftrightarrow>
     (\<exists>is. tmpl (tp_opc p) (tp_st p) = Some (is, case ps of [] \<Rightarrow> st | q # _ \<Rightarrow> tp_st q)) \<and> linked ps st"

definition start_of :: "piece list \<Rightarrow> nat \<Rightarrow> nat" where
  "start_of ps st = (case ps of [] \<Rightarrow> st | p # _ \<Rightarrow> tp_st p)"

lemma linked_run:
  assumes "linked ps st" "matches (start_of ps st) js m" "jvm_run (map piece_of ps) js = Some (k, r)"
  shows "k \<le> length ps \<and> fst (run_code ps m) = k \<and> good (start_of (drop (length ps - k) ps) st) r (snd (run_code ps m))"
  using assms
proof (induction ps arbitrary: js m)
  case Nil
  then show ?case by (auto simp: start_of_def)
next
  case (Cons p ps)
  from Cons.prems(1) obtain "is" where t: "tmpl (tp_opc p) (tp_st p) = Some (is, start_of ps st)" and l: "linked ps st"
    by (auto simp: start_of_def)
  from Cons.prems(2) have m: "matches (tp_st p) js m" by (simp add: start_of_def)
  from tmpl_right [OF t m] obtain f where f: "jvm (tp_opc p) = Some f"
    and g: "f (tp_ks p) js = Some r' \<Longrightarrow> good (start_of ps st) r' (run (tp_ks p) is m)" for r' by auto
  have jif: "jif_op f (cond_of (fst (jcc_codes (tp_opc p))))" using f by (rule jvm_jif)
  from Cons.prems(3) f obtain r' where r': "f (tp_ks p) js = Some r'"
    by (auto simp: piece_of_def split: option.splits)
  note g = g [OF r']
  have c: "case r' of JIf c' _ _ \<Rightarrow> cond_of (fst (jcc_codes (tp_opc p))) = Some c' | _ \<Rightarrow> cond_of (fst (jcc_codes (tp_opc p))) = None"
    using jif r' unfolding jif_op_def by blast
  show ?case
  proof (cases r')
    case (JNext js')
    with g obtain m' where m': "run (tp_ks p) is m = End m'" "matches (start_of ps st) js' m'"
      by (cases "run (tp_ks p) is m") auto
    from Cons.IH [OF l m'(2)] Cons.prems(3) show ?thesis
      using f r' t m' c JNext by (simp add: piece_of_def Suc_diff_le)
  next
    case (JIf c' b js')
    with g obtain m' where m': "run (tp_ks p) is m = End m'" "matches (start_of ps st) js' m'" "holds c' m' = b"
      by (cases "run (tp_ks p) is m") auto
    show ?thesis
    proof (cases b)
      case True
      then show ?thesis using Cons.prems(3) f r' t m' c JIf by (auto simp: piece_of_def)
    next
      case False
      with Cons.IH [OF l m'(2)] Cons.prems(3) show ?thesis
        using f r' t m' c JIf by (simp add: piece_of_def Suc_diff_le)
    qed
  next
    case (JJump a js')
    with g obtain m' where "run (tp_ks p) is m = Jumps a m'" "matches (start_of ps st) js' m'"
      by (cases "run (tp_ks p) is m") auto
    then show ?thesis using Cons.prems(3) f r' t JJump by (auto simp: piece_of_def)
  next
    case (JThrow e)
    with g obtain m' where "run (tp_ks p) is m = Raise e m'"
      by (cases "run (tp_ks p) is m") auto
    then show ?thesis using Cons.prems(3) f r' t JThrow by (auto simp: piece_of_def)
  next
    case JNull
    with g obtain m' is' where "run (tp_ks p) is m = Fault Segv m' is'"
      by (cases "run (tp_ks p) is m") (auto elim: good.elims)
    then show ?thesis using Cons.prems(3) f r' t JNull by (auto simp: piece_of_def)
  qed
qed

subsection \<open>Along the states the compiler computes\<close>

definition knows_templates :: "env \<Rightarrow> bool" where
  \<comment> \<open>the last states the compiler has found in the code of the templates\<close>
  "knows_templates E \<longleftrightarrow> (\<forall>opc st is nxt. tmpl opc st = Some (is, nxt) \<longrightarrow>
     ct_last_state E opc st = nxt \<or> ct_last_state E opc st = STSTA \<and> nxt = st)"

definition pieces :: "CompilerContext \<Rightarrow> (nat \<Rightarrow> u32 list) \<Rightarrow> nat \<Rightarrow> nat \<Rightarrow> piece list" where
  \<comment> \<open>the entries from \<open>i\<close> to \<open>j\<close>; \<open>ks\<close> gives the constants of an entry\<close>
  "pieces cc ks i j =
     map (\<lambda>k. \<lparr>tp_opc = opcode (live cc ! k), tp_st = pcentryState (live cc ! k), tp_ks = ks k\<rparr>) [i..<j]"

definition straight :: "CompilerContext \<Rightarrow> nat \<Rightarrow> nat \<Rightarrow> bool" where
  \<comment> \<open>control gets from one entry to the next, up to entry \<open>j\<close>\<close>
  "straight cc i j \<longleftrightarrow> i \<le> j \<and> j < pctablelen cc \<and>
     (\<forall>k \<in> set [i..<j]. opcode (live cc ! k) \<notin> transfers \<union> calls \<union> {opc_return, opc_epilogue}) \<and>
     opcode (live cc ! j) \<notin> {opc_return, opc_epilogue}"

lemma pieces_Cons: "i < j \<Longrightarrow> pieces cc ks i j =
    \<lparr>tp_opc = opcode (live cc ! i), tp_st = pcentryState (live cc ! i), tp_ks = ks i\<rparr> # pieces cc ks (Suc i) j"
  by (simp add: pieces_def upt_conv_Cons)

lemma start_pieces: "i \<le> j \<Longrightarrow> start_of (pieces cc ks i j) (pcentryState (live cc ! j)) = pcentryState (live cc ! i)"
  by (cases "i < j") (auto simp: start_of_def pieces_Cons, simp add: pieces_def)

lemma linked_pieces:
  assumes "i \<le> j" "\<And>k. i \<le> k \<Longrightarrow> k < j \<Longrightarrow> \<exists>is. tmpl (opcode (live cc ! k)) (pcentryState (live cc ! k)) =
      Some (is, pcentryState (live cc ! Suc k))"
  shows "linked (pieces cc ks i j) (pcentryState (live cc ! j))"
  using assms
proof (induction "j - i" arbitrary: i)
  case 0
  then show ?case by (simp add: pieces_def)
next
  case (Suc d)
  then have i: "i < j" and l: "linked (pieces cc ks (Suc i) j) (pcentryState (live cc ! j))" by auto
  from start_pieces [of "Suc i" j cc ks] i
  have "(case pieces cc ks (Suc i) j of [] \<Rightarrow> pcentryState (live cc ! j) | q # _ \<Rightarrow> tp_st q) = pcentryState (live cc ! Suc i)"
    by (simp add: start_of_def)
  with l i Suc.prems(2) [of i] show ?case by (simp add: pieces_Cons)
qed

lemma drop_pieces: "i \<le> j \<Longrightarrow> k \<le> j - i \<Longrightarrow> drop (length (pieces cc ks i j) - k) (pieces cc ks i j) = pieces cc ks (j - k) j"
  by (simp add: pieces_def drop_map)

lemma pieces_run:
  assumes "i \<le> j" "\<And>k. i \<le> k \<Longrightarrow> k < j \<Longrightarrow> \<exists>is. tmpl (opcode (live cc ! k)) (pcentryState (live cc ! k)) =
      Some (is, pcentryState (live cc ! Suc k))"
    and "matches (pcentryState (live cc ! i)) js m"
    and "jvm_run (map (\<lambda>k. (opcode (live cc ! k), ks k)) [i..<j]) js = Some (k, r)"
  shows "fst (run_code (pieces cc ks i j) m) = k \<and>
    good (pcentryState (live cc ! (j - k))) r (snd (run_code (pieces cc ks i j) m))"
proof -
  have map: "map piece_of (pieces cc ks i j) = map (\<lambda>k. (opcode (live cc ! k), ks k)) [i..<j]"
    by (simp add: pieces_def piece_of_def)
  have len: "length (pieces cc ks i j) = j - i" by (simp add: pieces_def)
  from linked_run [OF linked_pieces [OF assms(1,2), of ks], of js m k r] assms(3,4)
  have r: "k \<le> j - i" "fst (run_code (pieces cc ks i j) m) = k"
    "good (start_of (drop (length (pieces cc ks i j) - k) (pieces cc ks i j)) (pcentryState (live cc ! j))) r
       (snd (run_code (pieces cc ks i j) m))"
    by (simp_all add: start_pieces [OF assms(1)] map len)
  with start_pieces [of "j - k" j cc ks] drop_pieces [OF assms(1) r(1), of cc ks] show ?thesis by simp
qed

lemma entry_same: "opcode (pcentrySetState st e) = opcode e"
  by (simp add: pcentrySetState_def)

text \<open>C24: The native code of a method runs its instructions: with the states \<^verbatim>\<open>updateStates\<close>
records in the table, the templates of a stretch of entries control runs through, one behind
the other with their conditional jumps, compute what the instructions compute, on the operand stack, the
variables and the memory, and stop at the same entry with the same jump, exception or fault; the
stack cache is then in the state recorded for the entry control goes on to.\<close>
theorem native_code_runs:
  assumes "cc_ok cc" "callees_known v (cc_mb cc) (live cc)"
    and "\<forall>k \<le> pctablelen cc. nesting v (cc_mb cc) (live cc) k \<noteq> []"
    and "\<forall>opc st. ct_last_state E opc st \<le> STSTA" "knows_templates E"
  shows "\<exists>cc'. updateStates E (v, cc) = Inr (v, cc') \<and>
    (\<forall>i j ks js m k r. straight cc i j \<longrightarrow>
       (\<forall>n \<in> set [i..<j]. tmpl (opcode (live cc' ! n)) (pcentryState (live cc' ! n)) \<noteq> None) \<longrightarrow>
       matches (pcentryState (live cc' ! i)) js m \<longrightarrow>
       jvm_run (map (\<lambda>n. (opcode (live cc ! n), ks n)) [i..<j]) js = Some (k, r) \<longrightarrow>
       fst (run_code (pieces cc' ks i j) m) = k \<and>
       good (pcentryState (live cc' ! (j - k))) r (snd (run_code (pieces cc' ks i j) m)))"
proof -
  from updateStates_live [OF assms(1-3), of E] obtain cc' where
    u: "updateStates E (v, cc) = Inr (v, cc')" "live cc' = map (stated E v (cc_mb cc) (live cc)) [0..<pctablelen cc]"
    by blast
  note st = stated_state [OF assms(4), of v "cc_mb cc" "live cc"]
  have opc: "opcode (live cc' ! k) = opcode (live cc ! k)" if "k < pctablelen cc" for k
    using that by (simp add: u(2) stated_def entry_same)
  have nxt: "\<exists>is. tmpl (opcode (live cc' ! k)) (pcentryState (live cc' ! k)) = Some (is, pcentryState (live cc' ! Suc k))"
    if s: "straight cc i j" "i \<le> k" "k < j" "tmpl (opcode (live cc' ! k)) (pcentryState (live cc' ! k)) \<noteq> None" for i j k
  proof -
    from s(1-3) have k: "Suc k < pctablelen cc" "opcode (live cc ! k) \<notin> transfers \<union> calls \<union> {opc_return, opc_epilogue}"
      "opcode (live cc ! Suc k) \<notin> {opc_return, opc_epilogue}"
      by (cases "Suc k < j"; simp add: straight_def; metis Suc_lessI)+
    from s(4) obtain "is" n where t: "tmpl (opcode (live cc' ! k)) (pcentryState (live cc' ! k)) = Some (is, n)" by auto
    with assms(5) k(1) opc [of k] have "ct_last_state E (opcode (live cc ! k)) (pcentryState (live cc' ! k)) = n \<or>
        ct_last_state E (opcode (live cc ! k)) (pcentryState (live cc' ! k)) = STSTA \<and> n = pcentryState (live cc' ! k)"
      unfolding knows_templates_def by fastforce
    moreover have "n \<noteq> STSTA" using t tmpl_state by fastforce
    ultimately have "pcentryState (live cc' ! Suc k) = n"
      using k by (auto simp: u(2) st current_state_def state_left_def)
    with t show ?thesis by auto
  qed
  have "fst (run_code (pieces cc' ks i j) m) = k \<and>
       good (pcentryState (live cc' ! (j - k))) r (snd (run_code (pieces cc' ks i j) m))"
    if a: "straight cc i j" "\<forall>n \<in> set [i..<j]. tmpl (opcode (live cc' ! n)) (pcentryState (live cc' ! n)) \<noteq> None"
      "matches (pcentryState (live cc' ! i)) js m"
      "jvm_run (map (\<lambda>n. (opcode (live cc ! n), ks n)) [i..<j]) js = Some (k, r)" for i j ks js m k r
  proof (rule pieces_run)
    show "i \<le> j" using a(1) by (simp add: straight_def)
    have "map (\<lambda>n. (opcode (live cc' ! n), ks n)) [i..<j] = map (\<lambda>n. (opcode (live cc ! n), ks n)) [i..<j]"
      using a(1) by (intro map_cong) (auto simp: straight_def opc)
    from subst [OF this [symmetric], of "\<lambda>l. jvm_run l js = Some (k, r)", OF a(4)] show "jvm_run (map (\<lambda>n. (opcode (live cc' ! n), ks n)) [i..<j]) js = Some (k, r)" .
  qed (use a nxt in auto)
  with u(1) show ?thesis by blast
qed

definition sum_cc :: CompilerContext where
  \<comment> \<open>the table of \<open>iconst_2; iconst_3; iadd; nop\<close>; for the witness\<close>
  "sum_cc = pctableAdd (pctableAdd (pctableAdd (pctableAdd fresh_cc opc_iconst_2 (-1) 0) opc_iconst_3 (-1) 1) opc_iadd (-1) 2)
     opc_nop (-1) 3"

definition tmpl_env :: env where
  \<comment> \<open>the last states of the templates\<close>
  "tmpl_env = sample_env\<lparr>ct_last_state := (\<lambda>opc st. case tmpl opc st of None \<Rightarrow> STSTA | Some (_, nxt) \<Rightarrow> nxt)\<rparr>"

lemma tmpl_env_knows: "\<forall>opc st. ct_last_state tmpl_env opc st \<le> STSTA" "knows_templates tmpl_env"
  using tmpl_state by (auto simp: tmpl_env_def knows_templates_def split: option.splits) fastforce

lemma sum_cc_facts:
  "cc_ok sum_cc" "map opcode (live sum_cc) = [opc_iconst_2, opc_iconst_3, opc_iadd, opc_nop]" "pctablelen sum_cc = 4"
proof -
  show ok: "cc_ok sum_cc" by (simp add: sum_cc_def fresh_cc_ok wf_intros)
  have "views sum_cc = [new_view 5 (-1) 0 0 (-1), new_view 6 (-1) 1 0 (-1), new_view 96 (-1) 2 0 (-1), new_view 0 (-1) 3 0 (-1)]"
    by (simp add: sum_cc_def pctableAdd_views wf_intros fresh_cc_ok fresh_cc_live)
  then show l: "map opcode (live sum_cc) = [opc_iconst_2, opc_iconst_3, opc_iadd, opc_nop]"
    by (auto simp: pcview_def new_view_def map_eq_Cons_conv)
  from arg_cong [OF l, of length] length_live [OF ok] show "pctablelen sum_cc = 4" by simp
qed

theorem native_code_runs_witness:
  "\<exists>cc' m'. updateStates tmpl_env (sample_vm, sum_cc) = Inr (sample_vm, cc') \<and>
     run_code (pieces cc' (\<lambda>_. []) 0 3) (sample_mach\<lparr>edx := 0\<rparr>) = (0, End m') \<and> stack_of 1 m' = [5, 7, 9]"
proof -
  let ?es = "live sum_cc" and ?mb = "cc_mb sum_cc"
  have ops: "opcode (?es ! 0) = opc_iconst_2" "opcode (?es ! 1) = opc_iconst_3" "opcode (?es ! 2) = opc_iadd"
    "opcode (?es ! 3) = opc_nop"
    using sum_cc_facts(2) by (auto simp: map_eq_Cons_conv)
  have all: "opcode (?es ! i) \<in> {0, 5, 6, 96}" if "i < 4" for i
  proof -
    from that have "i = 0 \<or> i = 1 \<or> i = 2 \<or> i = 3" by arith
    then show ?thesis using ops by auto
  qed
  have len: "length ?es = 4" using sum_cc_facts by simp
  have nest: "nesting sample_vm ?mb ?es k = [?mb]" if "k \<le> 4" for k
    using that
  proof (induction k)
    case (Suc k)
    with all [of k] show ?case by (auto simp: nesting_Suc len nest_step_def)
  qed (simp add: nesting_def)
  have ck: "callees_known sample_vm ?mb ?es"
    using all by (fastforce simp: callees_known_def len calls_def)
  from updateStates_live [OF sum_cc_facts(1) ck, of tmpl_env] nest obtain cc' where
    u: "updateStates tmpl_env (sample_vm, sum_cc) = Inr (sample_vm, cc')"
      "live cc' = map (stated tmpl_env sample_vm ?mb ?es) [0..<4]"
    by (auto simp: sum_cc_facts(3))
  have t: "tmpl opc_iconst_2 0 = Some ([Mov (Imm 2) (Reg EDX)], 1)" "tmpl opc_iconst_3 1 = Some ([Mov (Imm 3) (Reg ECX)], 2)"
    "tmpl opc_iadd 2 = Some ([Alu ADD (Reg ECX) (Reg EDX)], 1)"
    by (simp_all add: tmpl_def templates_def CODE_ICONST_N_def CODE_ARITH_INT_def)
  have ct: "ct_last_state tmpl_env opc st = (case tmpl opc st of None \<Rightarrow> STSTA | Some (_, nxt) \<Rightarrow> nxt)" for opc st
    by (simp add: tmpl_env_def)
  note ls = state_left_def ops transfers_def calls_def ct t
  have s1: "state_in tmpl_env sample_vm ?mb ?es 1 = 1"
    using state_in.simps(2) [of tmpl_env sample_vm ?mb ?es 0] by (simp add: ls)
  have s2: "state_in tmpl_env sample_vm ?mb ?es 2 = 2"
    using state_in.simps(2) [of tmpl_env sample_vm ?mb ?es 1] by (simp add: ls s1 del: One_nat_def state_in.simps)
  have s3: "state_in tmpl_env sample_vm ?mb ?es 3 = 1"
    using state_in.simps(2) [of tmpl_env sample_vm ?mb ?es 2] by (simp add: ls s2 del: One_nat_def state_in.simps)
  note s = state_in.simps(1) s1 s2 s3
  have upto: "[0..<3] = [0, 1, 2]" by (simp add: upt_rec)
  note st = stated_state [OF tmpl_env_knows(1), of sample_vm ?mb ?es]
  have e: "live cc' ! i = stated tmpl_env sample_vm ?mb ?es i" if "i < 4" for i using that by (simp add: u(2))
  let ?js = "\<lparr>jstack = [7, 9], jvars = (\<lambda>_. 0), jmem = (\<lambda>_. 0), jacc = None\<rparr>"
  have "straight sum_cc 0 3"
    by (simp add: straight_def sum_cc_facts(3) transfers_def calls_def upto ops del: One_nat_def)
  moreover have "\<forall>n \<in> set [0..<3]. tmpl (opcode (live cc' ! n)) (pcentryState (live cc' ! n)) \<noteq> None"
    by (simp add: upto e st s ops t current_state_def del: One_nat_def state_in.simps) (simp add: stated_def entry_same ops t del: One_nat_def)
  moreover have "matches (pcentryState (live cc' ! 0)) ?js (sample_mach\<lparr>edx := 0\<rparr>)"
    by (simp add: e st ops current_state_def matches_def stack_of_def sample_mach_def)
  moreover have "jvm_run (map (\<lambda>n. (opcode (?es ! n), [])) [0..<3]) ?js = Some (0, JNext (?js\<lparr>jstack := [5, 7, 9]\<rparr>))"
    by (simp add: upto ops jvm_def instructions_def stack_op_def del: One_nat_def)
  moreover have "pcentryState (live cc' ! 3) = 1" by (simp add: e st s ops current_state_def del: state_in.simps)
  ultimately have g: "fst (run_code (pieces cc' (\<lambda>_. []) 0 3) (sample_mach\<lparr>edx := 0\<rparr>)) = 0 \<and>
      good 1 (JNext (?js\<lparr>jstack := [5, 7, 9]\<rparr>)) (snd (run_code (pieces cc' (\<lambda>_. []) 0 3) (sample_mach\<lparr>edx := 0\<rparr>)))"
    using native_code_runs [OF sum_cc_facts(1) ck _ tmpl_env_knows] nest u(1) sum_cc_facts(3) by fastforce
  then obtain m' where "run_code (pieces cc' (\<lambda>_. []) 0 3) (sample_mach\<lparr>edx := 0\<rparr>) = (0, End m')" "stack_of 1 m' = [5, 7, 9]"
    by (cases "run_code (pieces cc' (\<lambda>_. []) 0 3) (sample_mach\<lparr>edx := 0\<rparr>)"; cases "snd (run_code (pieces cc' (\<lambda>_. []) 0 3) (sample_mach\<lparr>edx := 0\<rparr>))")
      (auto simp: matches_def)
  with u(1) show ?thesis by blast
qed

end
