(* ===== verification/Signal.thy ===== *)
theory Signal
  imports Instructions Search Optimize
begin

text \<open>
  The signal handler, \<^verbatim>\<open>signalHandler\<close> of \<^verbatim>\<open>signal.c\<close> (Linux, JDK 1.2): signals of native code
  become Java exceptions, and the traps patched into native code run the initialiser of a class once.
  The handler works on the registers saved in the signal context, on the memory of the process
  (stack, native code and trampolines) and on the pending exception of the thread. The method is the one of
  the current frame; messages are left out.
\<close>

datatype signal = SIGSEGV | SIGFPE | SIGTRAP | Other_signal

record sigctx =
  r_eax :: u32
  r_ecx :: u32
  r_edx :: u32
  r_ebx :: u32
  r_esi :: u32
  r_ebp :: u32
  r_esp :: u32
  r_eip :: u32

record process =
  ctx :: sigctx
  mem :: "u32 \<Rightarrow> u8"
  thrown :: "string option"   \<comment> \<open>the class of the pending exception\<close>

record thread =
  current_method :: ptr       \<comment> \<open>\<open>ee->current_frame->current_method\<close>\<close>
  ee_addr :: u32
  trampoline_at :: u32        \<comment> \<open>\<open>codeinfo->trampoline\<close>\<close>
  once_InitClass :: u32

datatype handled =
    Passed process      \<comment> \<open>the result is \<open>FALSE\<close>\<close>
  | Resumed process     \<comment> \<open>\<open>TRUE\<close>: execution goes on with the signal context\<close>
  | Exited              \<comment> \<open>\<open>signal_handler_error\<close>: the process ends\<close>

definition STACKOVERFLOW_MARGIN :: u32 where "STACKOVERFLOW_MARGIN = 200"

definition out_of_code :: "vm \<Rightarrow> u32 \<Rightarrow> bool" where
  "out_of_code v eip \<longleftrightarrow> uint eip < compiledcode_min v \<or> compiledcode_max v < uint eip"

definition native_off :: "vm \<Rightarrow> ptr \<Rightarrow> u32 \<Rightarrow> u32" where
  "native_off v mb eip = eip - of_int (CompiledCode (methods v mb))"

definition entry_at :: "CodeInfo \<Rightarrow> u32 \<Rightarrow> throwentry option" where
  "entry_at info off = map_option (te_cell info) (throwtableGet info off)"

definition opcode_at :: "vm \<Rightarrow> ptr \<Rightarrow> throwentry \<Rightarrow> nat" where
  "opcode_at v mb e = unat (mb_code (methods v mb) (uint (te_byteoff e)))"

definition divisions :: "nat set" where
  "divisions = {opc_idiv, opc_irem, opc_ldiv, opc_lrem}"

fun ip_search :: "vm \<Rightarrow> ptr \<Rightarrow> signal \<Rightarrow> (u32 \<Rightarrow> u8) \<Rightarrow> nat \<Rightarrow> u32 \<Rightarrow> (throwentry \<times> u32) option" where
  \<comment> \<open>the frame that returns to an entry; \<open>continue\<close> skips the step to the next frame\<close>
  "ip_search v mb sig m 0 ebp = None"
| "ip_search v mb sig m (Suc n) ebp =
     (let info = infos v (CompiledCodeInfo (methods v mb));
          off = native_off v mb (word_at m (ebp + 4))
      in case (if off \<le> code_size info then entry_at info off else None) of
           Some e \<Rightarrow> if sig = SIGFPE \<and> opcode_at v mb e \<notin> divisions then ip_search v mb sig m n ebp else Some (e, ebp)
         | None \<Rightarrow> ip_search v mb sig m n (word_at m ebp))"

definition IP_SEARCH_COUNT :: nat where "IP_SEARCH_COUNT = 3"

definition find_entry :: "vm \<Rightarrow> ptr \<Rightarrow> signal \<Rightarrow> process \<Rightarrow> (throwentry \<times> process) option" where
  \<comment> \<open>the entry of the throw table; if the signal is from a function the code has called, the context goes back to the call\<close>
  "find_entry v mb sig s =
     (case entry_at (infos v (CompiledCodeInfo (methods v mb))) (native_off v mb (r_eip (ctx s))) of
        Some e \<Rightarrow> Some (e, s)
      | None \<Rightarrow>
          map_option (\<lambda>(e, ebp). (e, s\<lparr>ctx := (ctx s)\<lparr>r_esp := ebp + 8, r_eip := word_at (mem s) (ebp + 4),
                                       r_ebp := word_at (mem s) ebp\<rparr>\<rparr>))
            (ip_search v mb sig (mem s) IP_SEARCH_COUNT (r_ebp (ctx s))))"

subsection \<open>The signals\<close>

definition throw :: "string \<Rightarrow> process \<Rightarrow> process" where
  \<comment> \<open>\<open>SignalError\<close>\<close>
  "throw c s = s\<lparr>thrown := Some c\<rparr>"

definition stack_probe :: "process \<Rightarrow> bool" where
  \<comment> \<open>\<open>movl -STACKOVERFLOW_MARGIN(%ebp),%ecx\<close>\<close>
  "stack_probe s \<longleftrightarrow> (let pc = r_eip (ctx s) in
     mem s pc = 0x8b \<and> mem s (pc + 1) = 0x8d \<and> word_at (mem s) (pc + 2) = - STACKOVERFLOW_MARGIN)"

definition segv :: "process \<Rightarrow> process" where
  "segv s =
     (if thrown s \<noteq> None then s
      else if stack_probe s then throw ''java/lang/StackOverflowError'' s
      else throw ''java/lang/NullPointerException'' s)"

definition fpe :: "nat \<Rightarrow> process \<Rightarrow> (process \<times> u32) option" where
  \<comment> \<open>with \<open>jump_target\<close>; \<open>None\<close> if the process ends\<close>
  "fpe opc s =
     (let c = ctx s in
      if opc = opc_idiv \<or> opc = opc_irem then
        (if r_ecx c = 0 then Some (throw ''java/lang/ArithmeticException'' s, 0)
         else if r_eax c = 0x80000000 \<and> r_ecx c = - 1 then
           Some (s\<lparr>ctx := c\<lparr>r_eax := 0x80000000, r_edx := 0\<rparr>\<rparr>, r_eip c + 2)
         else None)
      else if opc = opc_ldiv \<or> opc = opc_lrem then
        (let sp = r_esp c; word = (\<lambda>i. word_at (mem s) (sp + 4 * i));
             s = s\<lparr>ctx := c\<lparr>r_ebp := word 4, r_ebx := word 5, r_esi := word 6, r_esp := sp + 28\<rparr>\<rparr>
         in Some (if word 2 OR word 3 = 0 then throw ''java/lang/ArithmeticException'' s else s, 0))
      else None)"

definition class_traps :: "nat set" where
  "class_traps = {opc_getstatic, opc_getstatic2, opc_putstatic, opc_putstatic2, opc_inlined_enter, opc_invokestatic,
     opc_invokeignored_static, opc_new}"

definition exc_handler :: "vm \<Rightarrow> ptr \<Rightarrow> u32" where
  "exc_handler v mb = of_int (CompiledCode (methods v mb)) +
     exc_handler_nativeoff (infos v (CompiledCodeInfo (methods v mb)))"

definition set_trampoline :: "thread \<Rightarrow> vm \<Rightarrow> ptr \<Rightarrow> throwentry \<Rightarrow> process \<Rightarrow> process" where
  \<comment> \<open>the arguments of \<open>once_InitClass\<close>, the patched byte, and the addresses to go on at\<close>
  "set_trampoline th v mb e s =
     (let t = trampoline_at th; pc = r_eip (ctx s) - 1;
          m = store_word (t + 13) (of_int (te_cb e)) (mem s);
          m = store_word (t + 18) (ee_addr th) m;
          m = m(pc := te_patched_code e);
          m = store_word (t + 3) pc m;
          m = store_word (t + 37) (exc_handler v mb - (t + 41)) m;
          m = store_word (t + 23) (once_InitClass th - (t + 27)) m
      in s\<lparr>mem := m, ctx := (ctx s)\<lparr>r_eip := t\<rparr>\<rparr>)"

definition unpatch :: "throwentry \<Rightarrow> process \<Rightarrow> process" where
  "unpatch e s = (let pc = r_eip (ctx s) - 1 in
     s\<lparr>ctx := (ctx s)\<lparr>r_eip := pc\<rparr>, mem := (mem s)(pc := te_patched_code e)\<rparr>)"

definition to_handler :: "vm \<Rightarrow> ptr \<Rightarrow> throwentry \<Rightarrow> u32 \<Rightarrow> process \<Rightarrow> handled" where
  \<comment> \<open>set \<open>bytepcoff\<close> in the frame and jump\<close>
  "to_handler v mb e jump_target s =
     Resumed (s\<lparr>mem := store_word (r_ebp (ctx s) - 4) (ucast (te_byteoff e)) (mem s),
                ctx := (ctx s)\<lparr>r_eip := if jump_target \<noteq> 0 then jump_target else exc_handler v mb\<rparr>\<rparr>)"

definition manage :: "thread \<Rightarrow> vm \<Rightarrow> ptr \<Rightarrow> signal \<Rightarrow> throwentry \<Rightarrow> nat \<Rightarrow> process \<Rightarrow> handled" where
  "manage th v mb sig e opc s =
     (case sig of
        SIGSEGV \<Rightarrow> to_handler v mb e 0 (segv s)
      | SIGFPE \<Rightarrow> (case fpe opc s of None \<Rightarrow> Exited | Some (s, jt) \<Rightarrow> to_handler v mb e jt s)
      | SIGTRAP \<Rightarrow>
          (let opc = unat (te_opcode e) in
           if opc \<in> class_traps then Resumed (set_trampoline th v mb e s)
           else if opc = opc_invokeinterface then
             (let s = unpatch e s in if r_eax (ctx s) \<noteq> 0 then Resumed s else to_handler v mb e 0 s)
           else Passed s)
      | Other_signal \<Rightarrow> Passed s)"

definition signalHandler :: "thread \<Rightarrow> vm \<Rightarrow> signal \<Rightarrow> process \<Rightarrow> handled" where
  "signalHandler th v sig s =
     (let mb = current_method th in
      if sig = Other_signal then Passed s
      else if sig \<noteq> SIGFPE \<and> out_of_code v (r_eip (ctx s)) then Passed s
      else if mb = NULL then Passed s
      else if CompiledCode (methods v mb) = NULL then Passed s
      else case find_entry v mb sig s of
             None \<Rightarrow> Exited
           | Some (e, s) \<Rightarrow> manage th v mb sig e (opcode_at v mb e) s)"

subsection \<open>Division\<close>

definition jdiv :: "nat \<Rightarrow> u32 \<Rightarrow> u32 \<Rightarrow> u32" where
  \<comment> \<open>\<open>idiv\<close> and \<open>irem\<close> of the virtual machine, for a divisor other than \<open>0\<close>\<close>
  "jdiv opc a b = of_int (if opc = opc_idiv then sint a sdiv sint b else sint a smod sint b)"

definition div_reg :: "nat \<Rightarrow> reg" where
  "div_reg opc = (if opc = opc_idiv then EAX else EDX)"

lemma sdiv_cases:
  fixes x y :: int
  assumes "y \<noteq> 0" "\<bar>x\<bar> \<le> n" "x < n" "0 < n"
  shows "- n \<le> x sdiv y" "n \<le> x sdiv y \<longleftrightarrow> x = - n \<and> y = - 1"
proof -
  let ?q = "\<bar>x\<bar> div \<bar>y\<bar>"
  have q: "0 \<le> ?q" "?q \<le> \<bar>x\<bar>" using assms(1) zdiv_mono2 [of "\<bar>x\<bar>" 1 "\<bar>y\<bar>"] by (simp_all add: pos_imp_zdiv_nonneg_iff)
  have le: "?q \<le> n" using q assms(2) by linarith
  have eq: "?q = \<bar>x\<bar> \<longleftrightarrow> x = 0 \<or> \<bar>y\<bar> = 1"
  proof
    assume e: "?q = \<bar>x\<bar>"
    show "x = 0 \<or> \<bar>y\<bar> = 1"
    proof (rule ccontr)
      assume "\<not> ?thesis"
      then have "0 < \<bar>x\<bar>" "1 < \<bar>y\<bar>" using assms(1) by linarith+
      from int_div_less_self [OF this] e show False by simp
    qed
  qed auto
  have s: "x sdiv y = sgn x * sgn y * ?q" by (simp add: signed_divide_int_def sgn_mult abs_mult mult.assoc)
  have v: "x sdiv y = ?q \<and> (0 < x \<longleftrightarrow> 0 < y) \<or> x sdiv y = - ?q"
    using assms(1) unfolding s by (cases "x = 0"; cases "0 < x"; cases "0 < y") simp_all
  from v q(1) le show "- n \<le> x sdiv y" by linarith
  show "n \<le> x sdiv y \<longleftrightarrow> x = - n \<and> y = - 1"
  proof
    assume n: "n \<le> x sdiv y"
    with v q(1) le assms(4) have w: "?q = n" "0 < x \<longleftrightarrow> 0 < y" by linarith+
    with q(2) assms(2) have "\<bar>x\<bar> = n" by linarith
    with assms(3,4) have x: "x = - n" by linarith
    with eq w(1) \<open>\<bar>x\<bar> = n\<close> assms(4) have "\<bar>y\<bar> = 1" by auto
    with w(2) x assms(1,4) show "x = - n \<and> y = - 1" by linarith
  next
    assume "x = - n \<and> y = - 1"
    with assms(4) show "n \<le> x sdiv y" by (simp add: s)
  qed
qed

lemma sdiv_bounds:
  fixes a b :: u32
  assumes "b \<noteq> 0"
  shows "- 2147483648 \<le> sint a sdiv sint b"
    and "2147483648 \<le> sint a sdiv sint b \<longleftrightarrow> a = 0x80000000 \<and> b = - 1"
proof -
  have y: "sint b \<noteq> 0" using assms by (simp add: signed_eq_0_iff)
  have x: "\<bar>sint a\<bar> \<le> 2147483648" "sint a < 2147483648" using sint_range [of a] by auto
  have m: "sint a = - 2147483648 \<longleftrightarrow> a = 0x80000000"
    using signed_word_eqI [of a "0x80000000"] by auto
  have b: "sint b = - 1 \<longleftrightarrow> b = - 1" using signed_word_eqI [of b "- 1"] by auto
  from sdiv_cases [OF y x] m b show "- 2147483648 \<le> sint a sdiv sint b"
    "2147483648 \<le> sint a sdiv sint b \<longleftrightarrow> a = 0x80000000 \<and> b = - 1" by simp_all
qed

lemma sint_sign_extended: "sint (dbl (signed_drop_bit 31 a) a) = sint a"
  using sint_range [of a] by (simp add: signed_scast_eq signed_take_bit_int_eq_self flip: dbl_sign)

definition bad_division :: "u32 \<Rightarrow> u32 \<Rightarrow> bool" where
  \<comment> \<open>the quotient is undefined or does not fit\<close>
  "bad_division a b \<longleftrightarrow> b = 0 \<or> a = 0x80000000 \<and> b = - 1"

lemma idiv_exec:
  assumes "edx m = signed_drop_bit 31 (eax m)"
  shows "idiv b m = (if bad_division (eax m) b then Inl Fpe
     else Inr (m\<lparr>eax := jdiv opc_idiv (eax m) b, edx := jdiv opc_irem (eax m) b\<rparr>))"
  using sdiv_bounds [of b "eax m"] assms by (auto simp: idiv_def sint_sign_extended bad_division_def jdiv_def Let_def)

abbreviation divide_tail :: "nat \<Rightarrow> insn list" where
  "divide_tail opc \<equiv> [Idiv ECX, Mov (Reg (div_reg opc)) (Reg ECX)]"

lemma division_run:
  assumes "(st, is, nxt) \<in> set (CODE_ARITH_INT_TEST (div_reg opc))" "opc = opc_idiv \<or> opc = opc_irem"
    and "stack_of st m = b # a # s"
  shows "nxt = 3 \<and> (\<exists>m'. vars m' = vars m \<and> memory m' = memory m \<and> stk m' = s \<and>
    (if bad_division a b then run ks is m = Fault Fpe m' (divide_tail opc) \<and> eax m' = a \<and> ecx m' = b
     else run ks is m = End m' \<and> stack_of 3 m' = jdiv opc a b # s))"
  using assms
  by (cases "bad_division a b")
    (auto simp: CODE_ARITH_INT_TEST_def Let_def stack_of_def numeral_2_eq_2 idiv_exec div_reg_def)

subsection \<open>Division and the signal\<close>

definition at_fault :: "u32 \<Rightarrow> mach \<Rightarrow> process \<Rightarrow> bool" where
  \<comment> \<open>the signal context of a fault of the machine at an address\<close>
  "at_fault pc m s \<longleftrightarrow> r_eip (ctx s) = pc \<and> r_eax (ctx s) = eax m \<and> r_ecx (ctx s) = ecx m \<and> r_edx (ctx s) = edx m"

definition in_method :: "thread \<Rightarrow> vm \<Rightarrow> u32 \<Rightarrow> throwentry \<Rightarrow> bool" where
  \<comment> \<open>the address belongs to an entry of the throw table of the current method\<close>
  "in_method th v pc e \<longleftrightarrow> (let mb = current_method th in
     mb \<noteq> NULL \<and> CompiledCode (methods v mb) \<noteq> NULL \<and>
     entry_at (infos v (CompiledCodeInfo (methods v mb))) (native_off v mb pc) = Some e)"

lemma handler_in_method:
  assumes "in_method th v (r_eip (ctx s)) e"
  shows "signalHandler th v SIGFPE s = manage th v (current_method th) SIGFPE e (opcode_at v (current_method th) e) s"
  using assms by (simp add: signalHandler_def in_method_def find_entry_def Let_def)

lemma overflow_division: "jdiv opc_idiv 0x80000000 (- 1) = 0x80000000" "jdiv opc_irem 0x80000000 (- 1) = 0"
  by (simp_all add: jdiv_def signed_divide_int_def signed_modulo_int_def)

text \<open>C26: Integer division without a test: the template of \<open>idiv\<close> or \<open>irem\<close> gives the result of the
virtual machine in every state of the stack cache, or faults in \<open>idivl\<close>; then the signal handler
either throws an \<open>ArithmeticException\<close>, when the divisor is zero, or sets the registers so that the
rest of the template leaves the result the quotient wraps around to.\<close>
theorem division_by_signal:
  assumes "(st, is, nxt) \<in> set (CODE_ARITH_INT_TEST (div_reg opc))" "opc = opc_idiv \<or> opc = opc_irem"
    and "stack_of st m = b # a # s"
  shows "(\<exists>m'. run ks is m = End m' \<and> b \<noteq> 0 \<and> stack_of nxt m' = jdiv opc a b # s \<and> vars m' = vars m \<and> memory m' = memory m) \<or>
    (\<exists>m'. run ks is m = Fault Fpe m' (divide_tail opc) \<and>
       (\<forall>th v pc e q. at_fault pc m' q \<longrightarrow> in_method th v pc e \<longrightarrow> opcode_at v (current_method th) e = opc \<longrightarrow> pc + 2 \<noteq> 0 \<longrightarrow>
          (\<exists>q'. signalHandler th v SIGFPE q = Resumed q' \<and>
             (if b = 0 then thrown q' = Some ''java/lang/ArithmeticException'' \<and> r_eip (ctx q') = exc_handler v (current_method th) \<and>
                mem q' = store_word (r_ebp (ctx q) - 4) (ucast (te_byteoff e)) (mem q)
              else thrown q' = thrown q \<and> r_eip (ctx q') = pc + 2 \<and>
                (\<exists>m''. run ks (tl (divide_tail opc)) (m'\<lparr>eax := r_eax (ctx q'), ecx := r_ecx (ctx q'), edx := r_edx (ctx q')\<rparr>) = End m'' \<and>
                   stack_of nxt m'' = jdiv opc a b # s \<and> vars m'' = vars m \<and> memory m'' = memory m)))))"
proof -
  from division_run [OF assms] obtain m' where n: "nxt = 3" and
    m': "vars m' = vars m" "memory m' = memory m" "stk m' = s"
      "if bad_division a b then run ks is m = Fault Fpe m' (divide_tail opc) \<and> eax m' = a \<and> ecx m' = b
       else run ks is m = End m' \<and> stack_of 3 m' = jdiv opc a b # s" by auto
  show ?thesis
  proof (cases "bad_division a b")
    case False
    with m' n show ?thesis by (intro disjI1 exI [of _ m']) (auto simp: bad_division_def)
  next
    case True
    have "\<exists>q'. signalHandler th v SIGFPE q = Resumed q' \<and>
        (if b = 0 then thrown q' = Some ''java/lang/ArithmeticException'' \<and> r_eip (ctx q') = exc_handler v (current_method th) \<and>
           mem q' = store_word (r_ebp (ctx q) - 4) (ucast (te_byteoff e)) (mem q)
         else thrown q' = thrown q \<and> r_eip (ctx q') = pc + 2 \<and>
           (\<exists>m''. run ks (tl (divide_tail opc)) (m'\<lparr>eax := r_eax (ctx q'), ecx := r_ecx (ctx q'), edx := r_edx (ctx q')\<rparr>) = End m'' \<and>
              stack_of nxt m'' = jdiv opc a b # s \<and> vars m'' = vars m \<and> memory m'' = memory m))"
      if q: "at_fault pc m' q" "in_method th v pc e" "opcode_at v (current_method th) e = opc" "pc + 2 \<noteq> 0" for th v pc e q
    proof -
      have h: "signalHandler th v SIGFPE q = manage th v (current_method th) SIGFPE e opc q"
        using handler_in_method [of th v q e] q by (simp add: at_fault_def)
      show ?thesis
      proof (cases "b = 0")
        case True
        with h q m' assms(2) \<open>bad_division a b\<close> show ?thesis
          by (auto simp: manage_def fpe_def at_fault_def to_handler_def throw_def)
      next
        case False
        with \<open>bad_division a b\<close> have ab: "a = 0x80000000" "b = - 1" by (simp_all add: bad_division_def)
        with h q m' assms(2) n \<open>bad_division a b\<close> show ?thesis
          by (auto simp: manage_def fpe_def at_fault_def to_handler_def div_reg_def stack_of_def overflow_division)
      qed
    qed
    with True m' show ?thesis by (intro disjI2 exI [of _ m']) simp
  qed
qed

definition div_vm :: vm where
  \<comment> \<open>every method is compiled to address 4096 and consists of \<open>idiv\<close>; for witnesses\<close>
  "div_vm = sample_vm\<lparr>methods := (\<lambda>_. (methods sample_vm 7)\<lparr>CompiledCode := 4096, CompiledCodeInfo := 50, mb_code := (\<lambda>_. 108)\<rparr>),
     infos := (\<lambda>_. sample_info)\<rparr>"

definition sample_thread :: thread where
  "sample_thread = \<lparr>current_method = 7, ee_addr = 64, trampoline_at = 8192, once_InitClass = 12288\<rparr>"

lemma sample_entry_at:
  assumes "te_start e = 7" "te_len e = 6"
  shows "entry_at (sample_info\<lparr>throwtable := [new_te 4 3 0, e, new_te 0 0 0]\<rparr>) 9 = Some e"
proof -
  let ?i = "sample_info\<lparr>throwtable := [new_te 4 3 0, e, new_te 0 0 0]\<rparr>"
  have two: "(\<forall>j < (2::nat). P j) \<longleftrightarrow> P 0 \<and> P 1" for P by (auto simp: less_2_cases_iff)
  have "te_ordered ?i"
    by (simp add: te_ordered_def sample_info_def te_live_def two) (simp add: te_end_def new_te_def assms)
  then have "throwtableGet ?i 9 = Some 1"
    by (rule throwtableGet_finds [rotated]) (simp_all add: sample_info_def te_ok_def te_live_def te_covers_def assms)
  then show ?thesis by (simp add: entry_at_def te_cell_def)
qed

lemma div_vm_entry: "in_method sample_thread div_vm 4105 (new_te 7 6 2)"
  using sample_entry_at [of "new_te 7 6 2"] by (simp add: in_method_def div_vm_def sample_thread_def native_off_def sample_info_def new_te_def)

theorem division_by_signal_witness:
  "\<exists>m' q'. run [] ([Pop ECX, Pop EAX, Mov (Reg EAX) (Reg EDX), Shift SAR 31 EDX] @ divide_tail opc_idiv)
       (sample_mach\<lparr>stk := [0, 7]\<rparr>) = Fault Fpe m' (divide_tail opc_idiv) \<and>
     signalHandler sample_thread div_vm SIGFPE
       \<lparr>ctx = \<lparr>r_eax = eax m', r_ecx = ecx m', r_edx = edx m', r_ebx = 0, r_esi = 0, r_ebp = 0, r_esp = 0, r_eip = 4105\<rparr>,
        mem = (\<lambda>_. 0), thrown = None\<rparr> = Resumed q' \<and> thrown q' = Some ''java/lang/ArithmeticException''"
proof -
  let ?is = "[Pop ECX, Pop EAX, Mov (Reg EAX) (Reg EDX), Shift SAR 31 EDX] @ divide_tail opc_idiv"
  let ?m = "sample_mach\<lparr>stk := [0, 7]\<rparr>"
  have "(0, ?is, 3) \<in> set (CODE_ARITH_INT_TEST (div_reg opc_idiv))" by (simp add: CODE_ARITH_INT_TEST_def Let_def div_reg_def)
  moreover have "stack_of 0 ?m = [0, 7]" by (simp add: stack_of_def)
  ultimately obtain m' where m': "run [] ?is ?m = Fault Fpe m' (divide_tail opc_idiv)" and
    h: "\<And>th v pc e q. at_fault pc m' q \<Longrightarrow> in_method th v pc e \<Longrightarrow> opcode_at v (current_method th) e = opc_idiv \<Longrightarrow> pc + 2 \<noteq> 0 \<Longrightarrow>
      \<exists>q'. signalHandler th v SIGFPE q = Resumed q' \<and> thrown q' = Some ''java/lang/ArithmeticException''"
    using division_by_signal [of 0 ?is 3 opc_idiv ?m 0 7 "[]" "[]"] by (simp del: run_to.simps append.simps) blast
  have "opcode_at div_vm (current_method sample_thread) (new_te 7 6 2) = opc_idiv" by (simp add: opcode_at_def div_vm_def)
  with m' h [OF _ div_vm_entry, of "\<lparr>ctx = \<lparr>r_eax = eax m', r_ecx = ecx m', r_edx = edx m', r_ebx = 0, r_esi = 0, r_ebp = 0,
      r_esp = 0, r_eip = 4105\<rparr>, mem = (\<lambda>_. 0), thrown = None\<rparr>"]
  show ?thesis by (fastforce simp: at_fault_def)
qed

subsection \<open>Division in an inlined method\<close>

lemma set_keys_live:
  assumes "cc_ok cc" "\<forall>i \<in> set is. i < pctablelen cc" "distinct is"
  shows "cc_ok (set_keys is k cc) \<and> pctablelen (set_keys is k cc) = pctablelen cc \<and>
    (\<forall>j < pctablelen cc. j \<notin> set is \<longrightarrow> live (set_keys is k cc) ! j = live cc ! j)"
  using assms
proof (induction "is" arbitrary: k cc)
  case (Cons i "is")
  let ?cc = "pc_upd cc i (increasing_byteoff_update (\<lambda>_. key_of k (pc_cell cc i)))"
  have "cc_ok ?cc" "pctablelen ?cc = pctablelen cc" using Cons.prems by (simp_all add: wf_intros table_simps)
  with Cons.IH [of ?cc "key_step (pc_cell cc i) k"] Cons.prems show ?case
    by (auto simp: Let_def pc_upd_live)
qed simp

fun keys_from :: "pcentry list \<Rightarrow> keyer \<Rightarrow> int list" where
  \<comment> \<open>the keys the entries get\<close>
  "keys_from [] k = []"
| "keys_from (e # es) k = key_of k e # keys_from es (key_step e k)"

lemma set_keys_from:
  assumes "cc_ok cc" "n \<le> pctablelen cc"
  shows "map increasing_byteoff (drop n (live (set_keys [n..<pctablelen cc] k cc))) = keys_from (drop n (live cc)) k"
  using assms
proof (induction "pctablelen cc - n" arbitrary: n k cc)
  case 0
  then show ?case by simp
next
  case (Suc d)
  then have n: "n < pctablelen cc" by simp
  have pc: "pc_cell cc n = live cc ! n" using Suc.prems n by (simp add: pc_cell_live)
  let ?cc = "pc_upd cc n (increasing_byteoff_update (\<lambda>_. key_of k (live cc ! n)))"
  have ok: "cc_ok ?cc" "pctablelen ?cc = pctablelen cc" using Suc.prems by (simp_all add: wf_intros table_simps)
  let ?r = "set_keys [Suc n..<pctablelen cc] (key_step (live cc ! n) k) ?cc"
  from set_keys_live [OF ok(1), of "[Suc n..<pctablelen cc]" "key_step (live cc ! n) k"] ok(2) n
  have r: "cc_ok ?r" "pctablelen ?r = pctablelen cc" "live ?r ! n = live ?cc ! n" by auto
  have "drop n (live ?r) = live ?r ! n # drop (Suc n) (live ?r)"
    by (rule Cons_nth_drop_Suc [symmetric]) (use n r in simp)
  moreover have "map increasing_byteoff (drop (Suc n) (live ?r)) = keys_from (drop (Suc n) (live ?cc)) (key_step (live cc ! n) k)"
    using Suc.hyps(1) [of ?cc "Suc n"] Suc.hyps(2) ok n by simp
  moreover have "drop (Suc n) (live ?cc) = drop (Suc n) (live cc)" using Suc.prems n by (simp add: pc_upd_live)
  moreover have "drop n (live cc) = live cc ! n # drop (Suc n) (live cc)"
    by (rule Cons_nth_drop_Suc [symmetric]) (use n Suc.prems in simp)
  ultimately show ?case using n Suc.prems by (simp add: upt_conv_Cons pc r(3) pc_upd_live Let_def)
qed

definition plain :: "pcentry list \<Rightarrow> bool" where
  \<comment> \<open>no inlined method starts or ends\<close>
  "plain es \<longleftrightarrow> (\<forall>e \<in> set es. opcode e \<notin> {opc_inlined_enter, opc_inlined_exit})"

lemma keys_from_append: "keys_from (xs @ ys) k = keys_from xs k @ keys_from ys (fold key_step xs k)"
  by (induction xs arbitrary: k) simp_all

lemma keys_plain: "plain es \<Longrightarrow> fold key_step es k = k \<and> keys_from es k = map (key_of k) es"
  by (induction es) (auto simp: plain_def key_step_def)

lemma inlined_keys:
  assumes "cc_ok cc" "live cc = pre @ e # body @ rest" "plain pre" "plain body" "opcode e = opc_inlined_enter"
    and "0 \<le> byteoff e" "j < length body"
  shows "increasing_byteoff (live (set_keys [0..<pctablelen cc] \<lparr>ky_locked = -1, ky_nest = 0\<rparr> cc) ! (length pre + 1 + j)) = byteoff e"
proof -
  let ?k = "\<lparr>ky_locked = -1, ky_nest = 0\<rparr>" and ?i = "length pre + 1 + j"
  let ?r = "set_keys [0..<pctablelen cc] ?k cc"
  have i: "?i < pctablelen cc" using assms(1,2,7) length_live [OF assms(1)] by simp
  have m: "map increasing_byteoff (live ?r) = keys_from (live cc) ?k"
    using set_keys_from [OF assms(1), of 0 ?k] by simp
  have "length (live ?r) = pctablelen cc"
    using set_keys_live [OF assms(1), of "[0..<pctablelen cc]" ?k] by auto
  with i have "increasing_byteoff (live ?r ! ?i) = keys_from (live cc) ?k ! ?i" by (simp flip: m)
  also have "\<dots> = byteoff e"
    using keys_plain [OF assms(3), of ?k] keys_plain [OF assms(4), of "key_step e ?k"] assms(5-7)
    by (simp add: assms(2) keys_from_append nth_append) (simp add: key_step_def key_of_def)
  finally show ?thesis .
qed

text \<open>C28: A division by zero in an inlined method ends the process: the key pass of
\<^verbatim>\<open>methodInlining\<close> gives the entries of an inlined body the offset of the invocation, which
\<^verbatim>\<open>writeCode\<close> puts into the throw table; the signal handler takes the opcode at that offset, an
invocation, and not a division.\<close>
theorem inlined_division_fatal:
  assumes "cc_ok cc" "live cc = pre @ e # body @ rest" "plain pre" "plain body" "opcode e = opc_inlined_enter"
    and "0 \<le> byteoff e" "byteoff e < 2 ^ 16" "j < length body"
    and "te_byteoff t = word_of_int (increasing_byteoff
       (live (set_keys [0..<pctablelen cc] \<lparr>ky_locked = -1, ky_nest = 0\<rparr> cc) ! (length pre + 1 + j)))"
    and "unat (mb_code (methods v (current_method th)) (byteoff e)) \<in> {opc_invokespecial, opc_invokestatic, opc_invokestatic_quick}"
    and "in_method th v (r_eip (ctx q)) t"
  shows "signalHandler th v SIGFPE q = Exited"
proof -
  have "te_byteoff t = word_of_int (byteoff e)" using assms(9) inlined_keys [OF assms(1-6,8)] by simp
  moreover have "uint (word_of_int (byteoff e) :: u16) = byteoff e"
    using assms(6,7) by (simp add: uint_word_of_int_eq take_bit_int_eq_self)
  ultimately have "opcode_at v (current_method th) t \<in> {opc_invokespecial, opc_invokestatic, opc_invokestatic_quick}"
    using assms(10) by (simp add: opcode_at_def)
  then have "fpe (opcode_at v (current_method th) t) q = None" by (auto simp: fpe_def Let_def)
  then show ?thesis using handler_in_method [OF assms(11)] by (simp add: manage_def)
qed

definition inlined_cc :: CompilerContext where
  \<comment> \<open>the table of an inlined method that divides; for the witness\<close>
  "inlined_cc = pctableAdd (pctableAdd (pctableAdd fresh_cc opc_inlined_enter 5 2) opc_idiv (-1) 1) opc_inlined_exit 5 2"

theorem inlined_division_fatal_witness:
  "signalHandler sample_thread (div_vm\<lparr>methods := (\<lambda>_. (methods div_vm 7)\<lparr>mb_code := (\<lambda>_. 184)\<rparr>)\<rparr>) SIGFPE
     \<lparr>ctx = \<lparr>r_eax = 7, r_ecx = 0, r_edx = 0, r_ebx = 0, r_esi = 0, r_ebp = 0, r_esp = 0, r_eip = 4105\<rparr>,
      mem = (\<lambda>_. 0), thrown = None\<rparr> = Exited"
proof -
  have ok: "cc_ok inlined_cc" by (simp add: inlined_cc_def fresh_cc_ok wf_intros)
  have "views inlined_cc = [new_view 315 5 2 0 (-1), new_view 108 (-1) 1 0 (-1), new_view 316 5 2 0 (-1)]"
    by (simp add: inlined_cc_def pctableAdd_views wf_intros fresh_cc_ok fresh_cc_live)
  then obtain e d x where l: "live inlined_cc = [] @ e # [d] @ [x]" and
    vs: "pcview e = new_view 315 5 2 0 (-1)" "pcview d = new_view 108 (-1) 1 0 (-1)"
    by (auto simp: map_eq_Cons_conv)
  from vs have e: "opcode e = opc_inlined_enter" "byteoff e = 2" "opcode d = opc_idiv"
    by (simp_all add: pcview_def new_view_def)
  have k: "increasing_byteoff (live (set_keys [0..<pctablelen inlined_cc] \<lparr>ky_locked = -1, ky_nest = 0\<rparr> inlined_cc) ! (length ([] :: pcentry list) + 1 + 0)) = 2"
    using inlined_keys [OF ok l, of 0] e by (simp add: plain_def)
  have t: "in_method sample_thread (div_vm\<lparr>methods := (\<lambda>_. (methods div_vm 7)\<lparr>mb_code := (\<lambda>_. 184)\<rparr>)\<rparr>) 4105 (new_te 7 6 2)"
    using div_vm_entry by (simp add: in_method_def div_vm_def sample_thread_def native_off_def)
  show ?thesis
    by (rule inlined_division_fatal [OF ok l, of 0 "new_te 7 6 2"])
      (use e k t in \<open>simp_all add: plain_def sample_thread_def new_te_def\<close>)
qed

subsection \<open>The trampoline\<close>

record cpu =
  p_eax :: u32
  p_ecx :: u32
  p_edx :: u32
  p_zf :: bool
  p_eip :: u32
  p_stk :: "u32 list"
  p_mem :: "u32 \<Rightarrow> u8"

definition drop_stk :: "cpu \<Rightarrow> nat \<Rightarrow> cpu option" where
  "drop_stk s n = (if n \<le> length (p_stk s) then Some (s\<lparr>p_stk := drop n (p_stk s), p_eip := p_eip s + 3\<rparr>) else None)"

definition pop_to :: "(u32 \<Rightarrow> cpu \<Rightarrow> cpu) \<Rightarrow> cpu \<Rightarrow> cpu option" where
  "pop_to f s = (case p_stk s of [] \<Rightarrow> None | a # st \<Rightarrow> Some (f a (s\<lparr>p_stk := st, p_eip := p_eip s + 1\<rparr>)))"

definition tstep :: "u32 \<Rightarrow> (cpu \<Rightarrow> cpu) \<Rightarrow> cpu \<Rightarrow> cpu option" where
  \<comment> \<open>the instructions of a trampoline; \<open>callee\<close> is what a call of the function at \<open>fn\<close> does, up to its return\<close>
  "tstep fn callee s =
     (let p = p_eip s; b = p_mem s p; imm = word_at (p_mem s) (p + 1) in
      if b = 0x52 then Some (s\<lparr>p_stk := p_edx s # p_stk s, p_eip := p + 1\<rparr>)
      else if b = 0x51 then Some (s\<lparr>p_stk := p_ecx s # p_stk s, p_eip := p + 1\<rparr>)
      else if b = 0x68 then Some (s\<lparr>p_stk := imm # p_stk s, p_eip := p + 5\<rparr>)
      else if b = 0xe8 then (if p + 5 + imm = fn then Some (callee (s\<lparr>p_eip := p + 5\<rparr>)) else None)
      else if b = 0x83 \<and> p_mem s (p + 1) = 0xc4 then drop_stk s (unat (p_mem s (p + 2)) div 4)
      else if b = 0x85 \<and> p_mem s (p + 1) = 0xc0 then Some (s\<lparr>p_zf := p_eax s = 0, p_eip := p + 2\<rparr>)
      else if b = 0x58 then pop_to (\<lambda>a s. s\<lparr>p_eax := a\<rparr>) s
      else if b = 0x59 then pop_to (\<lambda>a s. s\<lparr>p_ecx := a\<rparr>) s
      else if b = 0x5a then pop_to (\<lambda>a s. s\<lparr>p_edx := a\<rparr>) s
      else if b = 0x0f \<and> p_mem s (p + 1) = 0x85 then
        Some (s\<lparr>p_eip := if p_zf s then p + 6 else p + 6 + word_at (p_mem s) (p + 2)\<rparr>)
      else if b = 0xff \<and> p_mem s (p + 1) = 0xe0 then Some (s\<lparr>p_eip := p_eax s\<rparr>)
      else None)"

fun tsteps :: "u32 \<Rightarrow> (cpu \<Rightarrow> cpu) \<Rightarrow> nat \<Rightarrow> cpu \<Rightarrow> cpu option" where
  "tsteps fn callee 0 s = Some s"
| "tsteps fn callee (Suc n) s = (case tstep fn callee s of None \<Rightarrow> None | Some s \<Rightarrow> tsteps fn callee n s)"

lemma word_at_store: "word_at (store_word a v m) a = v"
  using le32_join [of v] by (simp add: word_at_def store_word_def le32_def get32_def Let_def)

definition tramp_bytes :: "u32 \<Rightarrow> (u32 \<Rightarrow> u8) \<Rightarrow> bool" where
  \<comment> \<open>the opcodes \<open>prepareCompiledCodeInfo\<close> writes are in place\<close>
  "tramp_bytes t m \<longleftrightarrow> (\<exists>fresh. \<forall>i \<in> {0, 1, 2, 7, 12, 17, 22, 27, 28, 29, 30, 31, 32, 33, 34, 35, 36, 41, 42}.
     m (t + of_nat i) = new_trampoline fresh ! i)"

lemma new_trampoline_code:
  "map (\<lambda>i. new_trampoline fresh ! i) [0, 1, 2, 7, 12, 17, 22, 27, 28, 29, 30, 31, 32, 33, 34, 35, 36, 41, 42] =
   [0x52, 0x51, 0x68, 0x68, 0x68, 0x68, 0xe8, 0x83, 0xc4, 0x0c, 0x85, 0xc0, 0x58, 0x59, 0x5a, 0x0f, 0x85, 0xff, 0xe0]"
  by (simp add: new_trampoline_def overwrite_def upt_rec Let_def)

lemma tramp_bytes_code:
  "tramp_bytes t m \<longleftrightarrow> m t = 0x52 \<and> m (t + 1) = 0x51 \<and> m (t + 2) = 0x68 \<and> m (t + 7) = 0x68 \<and> m (t + 12) = 0x68 \<and>
     m (t + 17) = 0x68 \<and> m (t + 22) = 0xe8 \<and> m (t + 27) = 0x83 \<and> m (t + 28) = 0xc4 \<and> m (t + 29) = 0x0c \<and> m (t + 30) = 0x85 \<and>
     m (t + 31) = 0xc0 \<and> m (t + 32) = 0x58 \<and> m (t + 33) = 0x59 \<and> m (t + 34) = 0x5a \<and> m (t + 35) = 0x0f \<and> m (t + 36) = 0x85 \<and>
     m (t + 41) = 0xff \<and> m (t + 42) = 0xe0"
  using new_trampoline_code by (simp add: tramp_bytes_def)

lemma off_tramp: "43 \<le> pc - t \<Longrightarrow> k < 43 \<Longrightarrow> pc \<noteq> t + k \<and> t + k \<noteq> pc" for pc t k :: u32
  by auto

lemma off_tramp0: "43 \<le> pc - t \<Longrightarrow> pc \<noteq> t \<and> t \<noteq> pc" for pc t :: u32
  by auto

definition tramp_set :: "thread \<Rightarrow> u32 \<Rightarrow> throwentry \<Rightarrow> u32 \<Rightarrow> (u32 \<Rightarrow> u8) \<Rightarrow> bool" where
  \<comment> \<open>a trampoline for the trap at \<open>pc\<close>\<close>
  "tramp_set th h e pc m \<longleftrightarrow> (let t = trampoline_at th in
     tramp_bytes t m \<and> word_at m (t + 3) = pc \<and> word_at m (t + 13) = of_int (te_cb e) \<and> word_at m (t + 18) = ee_addr th \<and>
     word_at m (t + 23) = once_InitClass th - (t + 27) \<and> word_at m (t + 37) = h - (t + 41))"

lemma set_trampoline_set:
  assumes "tramp_bytes (trampoline_at th) (mem q)" "43 \<le> r_eip (ctx q) - 1 - trampoline_at th"
  shows "tramp_set th (exc_handler v mb) e (r_eip (ctx q) - 1) (mem (set_trampoline th v mb e q))"
    "mem (set_trampoline th v mb e q) (r_eip (ctx q) - 1) = te_patched_code e"
proof -
  let ?t = "trampoline_at th" and ?m = "mem (set_trampoline th v mb e q)"
  note pc = off_tramp [OF assms(2)] off_tramp0 [OF assms(2)]
  have b: "tramp_bytes ?t ?m"
    using assms(1) pc unfolding tramp_bytes_code by (simp add: set_trampoline_def store_word_def Let_def add.assoc)
  show "?m (r_eip (ctx q) - 1) = te_patched_code e"
    using pc by (simp add: set_trampoline_def store_word_def Let_def add.assoc)
  note m = set_trampoline_def store_word_def word_at_def le32_def get32_def Let_def add.assoc le32_join
  have "word_at ?m (?t + 3) = r_eip (ctx q) - 1" using pc by (simp add: m)
  moreover have "word_at ?m (?t + 13) = of_int (te_cb e)" using pc by (simp add: m)
  moreover have "word_at ?m (?t + 18) = ee_addr th" using pc by (simp add: m)
  moreover have "word_at ?m (?t + 23) = once_InitClass th - (?t + 27)" using pc by (simp add: m)
  moreover have "word_at ?m (?t + 37) = exc_handler v mb - (?t + 41)" using pc by (simp add: m)
  ultimately show "tramp_set th (exc_handler v mb) e (r_eip (ctx q) - 1) ?m" using b by (simp add: tramp_set_def)
qed

lemma tsteps_numeral [simp]:
  "tsteps fn callee (numeral k) s = (case tstep fn callee s of None \<Rightarrow> None | Some s \<Rightarrow> tsteps fn callee (pred_numeral k) s)"
  by (simp add: numeral_eq_Suc)

lemma tramp_call:
  assumes "tramp_set th h e pc (p_mem s)" "p_eip s = trampoline_at th"
  shows "\<exists>x. tsteps (once_InitClass th) callee 7 s = Some (callee (s\<lparr>p_stk := [ee_addr th, of_int (te_cb e), x, pc, p_ecx s, p_edx s] @ p_stk s,
     p_eip := trampoline_at th + 27\<rparr>))"
proof
  show "tsteps (once_InitClass th) callee 7 s = Some (callee (s\<lparr>p_stk := [ee_addr th, of_int (te_cb e), word_at (p_mem s) (trampoline_at th + 8), pc, p_ecx s, p_edx s] @ p_stk s,
     p_eip := trampoline_at th + 27\<rparr>))"
    using assms by (simp add: tramp_set_def tramp_bytes_code Let_def tstep_def add.assoc)
qed

lemma tramp_return:
  assumes "tramp_bytes (trampoline_at th) (p_mem s)" "word_at (p_mem s) (trampoline_at th + 37) = h - (trampoline_at th + 41)"
    and "p_eip s = trampoline_at th + 27" "p_stk s = [a, b, x, pc, c, d] @ st"
  shows "\<exists>n. tsteps fn callee n s = Some (s\<lparr>p_eax := pc, p_ecx := c, p_edx := d, p_stk := st, p_zf := p_eax s = 0,
     p_eip := if p_eax s = 0 then pc else h\<rparr>)"
proof
  note ts = tramp_bytes_code Let_def tstep_def add.assoc drop_stk_def pop_to_def
  show "tsteps fn callee (if p_eax s = 0 then 7 else 6) s = Some (s\<lparr>p_eax := pc, p_ecx := c, p_edx := d, p_stk := st, p_zf := p_eax s = 0,
     p_eip := if p_eax s = 0 then pc else h\<rparr>)"
  proof (cases "p_eax s = 0")
    case True
    with assms show ?thesis by (simp add: ts)
  next
    case False
    with assms show ?thesis by (simp add: ts)
  qed
qed

lemma tsteps_add:
  "tsteps fn callee (m + n) s = (case tsteps fn callee m s of None \<Rightarrow> None | Some s \<Rightarrow> tsteps fn callee n s)"
  by (induction m arbitrary: s) (auto split: option.splits)

definition leaves_trampoline :: "thread \<Rightarrow> (cpu \<Rightarrow> cpu) \<Rightarrow> bool" where
  \<comment> \<open>the function returns, and what is behind the call in the trampoline stays\<close>
  "leaves_trampoline th callee \<longleftrightarrow>
     (\<forall>s. p_stk (callee s) = p_stk s \<and> p_eip (callee s) = p_eip s \<and>
        (let t = trampoline_at th in
         (tramp_bytes t (p_mem s) \<longrightarrow> tramp_bytes t (p_mem (callee s))) \<and>
         word_at (p_mem (callee s)) (t + 37) = word_at (p_mem s) (t + 37)))"

lemma set_trampoline_far:
  assumes "43 \<le> x - trampoline_at th" "x \<noteq> r_eip (ctx q) - 1"
  shows "mem (set_trampoline th v mb e q) x = mem q x"
  using assms(2) off_tramp [OF assms(1)] off_tramp0 [OF assms(1)]
  by (simp add: set_trampoline_def store_word_def Let_def add.assoc)

text \<open>C27: A trap in front of an instruction that needs a class initialised: the handler puts the
instruction back and goes on in the trampoline, which calls \<^verbatim>\<open>once_InitClass\<close> with the thread and
the class, restores the registers of the stack cache and the stack, and goes on at the instruction when the initialiser
has succeeded and at the exception handler when it has not. Nothing else is written, so the exception handler
finds the \<^verbatim>\<open>bytepcoff\<close> of an earlier instruction in the frame.\<close>
theorem trap_initialises_class:
  assumes "in_method th v (r_eip (ctx q)) e" "\<not> out_of_code v (r_eip (ctx q))" "unat (te_opcode e) \<in> class_traps"
    and "tramp_bytes (trampoline_at th) (mem q)" "43 \<le> r_eip (ctx q) - 1 - trampoline_at th"
    and "leaves_trampoline th callee"
  shows "\<exists>q'. signalHandler th v SIGTRAP q = Resumed q' \<and>
    ctx q' = (ctx q)\<lparr>r_eip := trampoline_at th\<rparr> \<and> thrown q' = thrown q \<and> mem q' (r_eip (ctx q) - 1) = te_patched_code e \<and>
    (\<forall>x. 43 \<le> x - trampoline_at th \<longrightarrow> x \<noteq> r_eip (ctx q) - 1 \<longrightarrow> mem q' x = mem q x) \<and>
    (\<forall>s. p_mem s = mem q' \<longrightarrow> p_eip s = trampoline_at th \<longrightarrow>
       (\<exists>x n. let s1 = callee (s\<lparr>p_stk := [ee_addr th, of_int (te_cb e), x, r_eip (ctx q) - 1, p_ecx s, p_edx s] @ p_stk s,
                p_eip := trampoline_at th + 27\<rparr>) in
          tsteps (once_InitClass th) callee n s =
            Some (s1\<lparr>p_eax := r_eip (ctx q) - 1, p_ecx := p_ecx s, p_edx := p_edx s, p_stk := p_stk s, p_zf := p_eax s1 = 0,
                    p_eip := if p_eax s1 = 0 then r_eip (ctx q) - 1 else exc_handler v (current_method th)\<rparr>)))"
proof -
  let ?q = "set_trampoline th v (current_method th) e q" and ?t = "trampoline_at th" and ?pc = "r_eip (ctx q) - 1"
  let ?h = "exc_handler v (current_method th)"
  have h: "signalHandler th v SIGTRAP q = Resumed ?q"
    using assms(1-3) by (simp add: signalHandler_def in_method_def find_entry_def manage_def Let_def)
  note set = set_trampoline_set [OF assms(4,5), of v "current_method th" e]
  have "\<exists>x n. let s1 = callee (s\<lparr>p_stk := [ee_addr th, of_int (te_cb e), x, ?pc, p_ecx s, p_edx s] @ p_stk s, p_eip := ?t + 27\<rparr>) in
      tsteps (once_InitClass th) callee n s = Some (s1\<lparr>p_eax := ?pc, p_ecx := p_ecx s, p_edx := p_edx s, p_stk := p_stk s,
        p_zf := p_eax s1 = 0, p_eip := if p_eax s1 = 0 then ?pc else ?h\<rparr>)"
    if s: "p_mem s = mem ?q" "p_eip s = ?t" for s
  proof -
    have ts: "tramp_set th ?h e ?pc (p_mem s)" using set(1) s by simp
    from tramp_call [OF ts s(2)] obtain x where x: "tsteps (once_InitClass th) callee 7 s = Some (callee (s\<lparr>p_stk := [ee_addr th, of_int (te_cb e), x, ?pc, p_ecx s, p_edx s] @ p_stk s,
       p_eip := ?t + 27\<rparr>))" by blast
    let ?s1 = "callee (s\<lparr>p_stk := [ee_addr th, of_int (te_cb e), x, ?pc, p_ecx s, p_edx s] @ p_stk s, p_eip := ?t + 27\<rparr>)"
    have "tramp_bytes ?t (p_mem ?s1)" "word_at (p_mem ?s1) (?t + 37) = ?h - (?t + 41)" "p_eip ?s1 = ?t + 27"
      "p_stk ?s1 = [ee_addr th, of_int (te_cb e), x, ?pc, p_ecx s, p_edx s] @ p_stk s"
      using assms(6) ts by (simp_all add: leaves_trampoline_def tramp_set_def Let_def)
    from tramp_return [OF this] obtain n where "tsteps (once_InitClass th) callee n ?s1 = Some (?s1\<lparr>p_eax := ?pc, p_ecx := p_ecx s,
        p_edx := p_edx s, p_stk := p_stk s, p_zf := p_eax ?s1 = 0, p_eip := if p_eax ?s1 = 0 then ?pc else ?h\<rparr>)" by blast
    then show ?thesis by (intro exI [of _ x] exI [of _ "7 + n"]) (simp add: tsteps_add x Let_def del: tsteps_numeral)
  qed
  with h set(2) set_trampoline_far [of _ th q v "current_method th" e] show ?thesis
    by (intro exI [of _ ?q]) (simp add: set_trampoline_def Let_def)
qed

definition trap_vm :: vm where
  \<comment> \<open>an instruction \<open>new\<close> at offset 7 of the code; for the witness\<close>
  "trap_vm = div_vm\<lparr>compiledcode_max := 8000,
     infos := (\<lambda>_. sample_info\<lparr>throwtable := [new_te 4 3 0, (new_te 7 6 2)\<lparr>te_opcode := 187, te_cb := 3\<rparr>, new_te 0 0 0]\<rparr>)\<rparr>"

theorem trap_initialises_class_witness:
  "\<exists>q' n s. signalHandler sample_thread trap_vm SIGTRAP
       \<lparr>ctx = \<lparr>r_eax = 1, r_ecx = 2, r_edx = 3, r_ebx = 0, r_esi = 0, r_ebp = 0, r_esp = 0, r_eip = 4105\<rparr>,
        mem = (\<lambda>a. new_trampoline (\<lambda>_. 0) ! unat (a - 8192)), thrown = None\<rparr> = Resumed q' \<and>
     tsteps 12288 (\<lambda>s. s\<lparr>p_eax := 0\<rparr>) n
       \<lparr>p_eax = 1, p_ecx = 2, p_edx = 3, p_zf = False, p_eip = r_eip (ctx q'), p_stk = [9], p_mem = mem q'\<rparr> = Some s \<and>
     p_eip s = 4104 \<and> p_stk s = [9] \<and> p_edx s = 3"
proof -
  let ?e = "(new_te 7 6 2)\<lparr>te_opcode := 187, te_cb := 3\<rparr>"
  let ?q = "\<lparr>ctx = \<lparr>r_eax = 1, r_ecx = 2, r_edx = 3, r_ebx = 0, r_esi = 0, r_ebp = 0, r_esp = 0, r_eip = 4105\<rparr>,
        mem = (\<lambda>a. new_trampoline (\<lambda>_. 0) ! unat (a - 8192)), thrown = None\<rparr>"
  have "in_method sample_thread trap_vm (r_eip (ctx ?q)) ?e"
    using sample_entry_at [of ?e] by (simp add: in_method_def trap_vm_def div_vm_def sample_thread_def native_off_def new_te_def)
  moreover have "\<not> out_of_code trap_vm (r_eip (ctx ?q))"
    by (simp add: out_of_code_def trap_vm_def div_vm_def sample_vm_def)
  moreover have "unat (te_opcode ?e) \<in> class_traps" by (simp add: class_traps_def)
  moreover have "tramp_bytes (trampoline_at sample_thread) (mem ?q)"
    by (auto simp: tramp_bytes_def sample_thread_def)
  moreover have "43 \<le> r_eip (ctx ?q) - 1 - trampoline_at sample_thread" by (simp add: sample_thread_def)
  moreover have "leaves_trampoline sample_thread (\<lambda>s. s\<lparr>p_eax := 0\<rparr>)" by (simp add: leaves_trampoline_def)
  ultimately obtain q' where q': "signalHandler sample_thread trap_vm SIGTRAP ?q = Resumed q'" "r_eip (ctx q') = 8192" and
    r: "\<And>s. p_mem s = mem q' \<Longrightarrow> p_eip s = 8192 \<Longrightarrow> \<exists>n s'. tsteps 12288 (\<lambda>s. s\<lparr>p_eax := 0\<rparr>) n s = Some s' \<and> p_eip s' = 4104 \<and>
       p_stk s' = p_stk s \<and> p_edx s' = p_edx s"
    using trap_initialises_class [of sample_thread trap_vm ?q ?e "\<lambda>s. s\<lparr>p_eax := 0\<rparr>"]
    by (fastforce simp: sample_thread_def Let_def)
  from r [of "\<lparr>p_eax = 1, p_ecx = 2, p_edx = 3, p_zf = False, p_eip = 8192, p_stk = [9], p_mem = mem q'\<rparr>"] q'
  show ?thesis by auto
qed

end
