(* ===== verification/Fpu.thy ===== *)
theory Fpu
  imports Instructions MakePC
begin

text \<open>
  The templates of \<^verbatim>\<open>code.c\<close> for \<open>float\<close> and \<open>double\<close>. They run on the machine of \<open>Machine\<close> together with the
  floating point unit: its stack of eight registers, its control word, and the condition codes of the
  last comparison. Loads, comparisons and the conversion to integers are exact and modelled on the bits
  of the IEEE formats; what rounds (arithmetic and stores) is a parameter, as is \<^verbatim>\<open>fmod\<close> of the C library.
  A NaN is a NaN, its payload is not kept, as in Java.
\<close>

subsection \<open>Floating point values\<close>

datatype fval =
    NaN
  | Infinite bool           \<comment> \<open>whether it is negative\<close>
  | Finite bool nat int     \<comment> \<open>sign, mantissa, exponent\<close>

definition ieee :: "nat \<Rightarrow> nat \<Rightarrow> nat \<Rightarrow> fval" where
  \<comment> \<open>the number of bits of the fraction and of the exponent, and the bits\<close>
  "ieee f e n =
     (let frac = n mod 2 ^ f; ex = n div 2 ^ f mod 2 ^ e; s = odd (n div 2 ^ (f + e)); bias = 2 ^ (e - 1) - 1 in
      if ex = 2 ^ e - 1 then (if frac = 0 then Infinite s else NaN)
      else if ex = 0 then Finite s frac (1 - bias - int f)
      else Finite s (2 ^ f + frac) (int ex - bias - int f))"

definition float32 :: "u32 \<Rightarrow> fval" where
  "float32 w = ieee 23 8 (unat w)"

definition float64 :: "u64 \<Rightarrow> fval" where
  "float64 w = ieee 52 11 (unat w)"

definition float80 :: "u8 list \<Rightarrow> fval" where
  \<comment> \<open>with the integer bit explicit\<close>
  "float80 b =
     (let m = (\<Sum>i<8. unat (b ! i) * 256 ^ i); n = unat (b ! 8) + 256 * unat (b ! 9); ex = n mod 2 ^ 15; s = odd (n div 2 ^ 15) in
      if ex = 2 ^ 15 - 1 then (if m = 2 ^ 63 then Infinite s else NaN) else Finite s m (int (max 1 ex) - 16383 - 63))"

definition of_integer :: "int \<Rightarrow> fval" where
  "of_integer i = Finite (i < 0) (nat \<bar>i\<bar>) 0"

definition with_sign :: "bool \<Rightarrow> nat \<Rightarrow> int" where
  "with_sign s m = (if s then - int m else int m)"

datatype forder = Less | Same | Greater | Unordered

definition order_of :: "int \<Rightarrow> int \<Rightarrow> forder" where
  "order_of a b = (if a < b then Less else if a = b then Same else Greater)"

fun fcompare :: "fval \<Rightarrow> fval \<Rightarrow> forder" where
  "fcompare NaN _ = Unordered"
| "fcompare _ NaN = Unordered"
| "fcompare (Infinite s) (Infinite t) = order_of (with_sign s 1) (with_sign t 1)"
| "fcompare (Infinite s) (Finite _ _ _) = order_of (with_sign s 1) 0"
| "fcompare (Finite _ _ _) (Infinite t) = order_of 0 (with_sign t 1)"
| "fcompare (Finite s m e) (Finite t n f) =
     (let g = min e f in order_of (with_sign s m * 2 ^ nat (e - g)) (with_sign t n * 2 ^ nat (f - g)))"

definition round_down :: "nat \<Rightarrow> bool \<Rightarrow> nat \<Rightarrow> nat \<Rightarrow> nat" where
  \<comment> \<open>the magnitude of \<open>m / 2^k\<close> as an integer, in the rounding mode of the control word:
      0 to nearest, 1 down, 2 up, 3 towards zero\<close>
  "round_down rc s m k =
     (let q = m div 2 ^ k; r = m mod 2 ^ k in
      if r = 0 \<or> rc = 3 then q
      else if rc = 0 then (if 2 * r < 2 ^ k \<or> (2 * r = 2 ^ k \<and> even q) then q else q + 1)
      else if rc = 1 then (if s then q + 1 else q)
      else (if s then q else q + 1))"

definition fist :: "nat \<Rightarrow> nat \<Rightarrow> fval \<Rightarrow> int" where
  \<comment> \<open>the integer of \<open>b\<close> bits that is stored; the \<^emph>\<open>integer indefinite\<close> when there is none\<close>
  "fist rc b v =
     (case v of
        Finite s m e \<Rightarrow>
          (let i = with_sign s (if 0 \<le> e then m * 2 ^ nat e else round_down rc s m (nat (- e)))
           in if - (2 ^ (b - 1)) \<le> i \<and> i < 2 ^ (b - 1) then i else - (2 ^ (b - 1)))
      | _ \<Rightarrow> - (2 ^ (b - 1)))"

subsection \<open>The floating point unit\<close>

datatype farith = FADD | FSUB | FMUL | FDIV

record fpu =
  narrow32 :: "u16 \<Rightarrow> fval \<Rightarrow> u32"   \<comment> \<open>\<^verbatim>\<open>fstps\<close> under a control word\<close>
  narrow64 :: "u16 \<Rightarrow> fval \<Rightarrow> u64"
  farith :: "farith \<Rightarrow> u16 \<Rightarrow> fval \<Rightarrow> fval \<Rightarrow> fval"
  fmod :: "u64 \<Rightarrow> u64 \<Rightarrow> fval"        \<comment> \<open>the function of the C library; its result is in \<open>%st\<close>\<close>
  scratch :: "mach \<Rightarrow> mach"           \<comment> \<open>what a call leaves in \<open>%eax\<close>, \<open>%edx\<close>, \<open>%ecx\<close>, the flags and below the stack\<close>

record fmach =
  core :: mach
  fregs :: "fval list"   \<comment> \<open>\<open>%st\<close> first\<close>
  fcw :: u16
  c0 :: bool
  c2 :: bool
  c3 :: bool
  pf :: bool

datatype finsn =
    I insn
  | Fld32 operand | Fld64 operand | Fild32 operand | Fild64 operand | Fldt "u8 list"
  | Fstp32 operand | Fstp64 operand | Fistp32 operand | Fistp64 operand
  | Fop32 farith operand | Fop64 farith operand | Fmulp
  | Ftst | Fcomp32 operand | Fcomp64 operand
  | Fstcw                 \<comment> \<open>to \<^verbatim>\<open>(%esp)\<close>\<close>
  | Fldcw bool            \<comment> \<open>from \<^verbatim>\<open>(%esp)\<close>, or from \<^verbatim>\<open>2(%esp)\<close>\<close>
  | LoadAX                \<comment> \<open>\<^verbatim>\<open>movw (%esp),%ax\<close>\<close>
  | StoreAX               \<comment> \<open>\<^verbatim>\<open>movw %ax,2(%esp)\<close>\<close>
  | OrAX u16
  | Fnstsw | Sahf
  | Jp bool nat           \<comment> \<open>\<^verbatim>\<open>jp\<close> or \<^verbatim>\<open>jnp\<close>\<close>
  | CallFmod

definition call :: "fpu \<Rightarrow> fmach \<Rightarrow> fmach" where
  \<comment> \<open>a C function keeps \<open>%edi\<close>, \<open>%esi\<close>, the stack and, as far as it is told nothing else, the memory\<close>
  "call F m = (let x = scratch F (core m) in
     m\<lparr>core := (core m)\<lparr>eax := eax x, edx := edx x, ecx := ecx x, zf := zf x, sf := sf x, cf := cf x, ovf := ovf x, dead := dead x\<rparr>\<rparr>)"

definition fpu_push :: "fval \<Rightarrow> fmach \<Rightarrow> fmach" where
  \<comment> \<open>a load to a full stack overwrites the lowest register and gives a NaN, the exception being masked\<close>
  "fpu_push v m = m\<lparr>fregs := (if length (fregs m) < 8 then v # fregs m else NaN # butlast (fregs m))\<rparr>"

definition on_core :: "fmach \<Rightarrow> problem + mach \<Rightarrow> problem + fmach" where
  "on_core m r = bindE r (\<lambda>c. Inr (m\<lparr>core := c\<rparr>))"

definition fpu_read32 :: "u32 list \<Rightarrow> operand \<Rightarrow> fmach \<Rightarrow> problem + u32" where
  "fpu_read32 ks op m = read_op ks op (core m)"

fun high_word :: "u32 list \<Rightarrow> operand \<Rightarrow> mach \<Rightarrow> problem + u32" where
  "high_word ks (Stack n) m = read_op ks (Stack (n + 1)) m"
| "high_word ks (At n r) m = read_op ks (At (n + 4) r) m"
| "high_word ks (Var n) m = (if n < length ks then Inr (vars m (ks ! n + 4)) else Inl Stuck)"
| "high_word ks (Idx b s i) m = (let a = idx_addr b s i m + 4 in checked a (word_at (memory m) a))"
| "high_word ks op m = Inl Stuck"

definition fpu_read64 :: "u32 list \<Rightarrow> operand \<Rightarrow> fmach \<Rightarrow> problem + u64" where
  "fpu_read64 ks op m = bindE (read_op ks op (core m)) (\<lambda>l. bindE (high_word ks op (core m)) (\<lambda>h. Inr (dbl h l)))"

fun put_high :: "u32 list \<Rightarrow> operand \<Rightarrow> u32 \<Rightarrow> mach \<Rightarrow> problem + mach" where
  "put_high ks (Stack n) v m = write_op ks (Stack (n + 1)) v m"
| "put_high ks (At n r) v m = write_op ks (At (n + 4) r) v m"
| "put_high ks (Var n) v m = (if n < length ks then Inr (m\<lparr>vars := (vars m)(ks ! n + 4 := v)\<rparr>) else Inl Stuck)"
| "put_high ks op v m = Inl Stuck"

definition write64 :: "u32 list \<Rightarrow> operand \<Rightarrow> u64 \<Rightarrow> mach \<Rightarrow> problem + mach" where
  "write64 ks op v m = bindE (write_op ks op (lo32 v) m) (\<lambda>m. put_high ks op (hi32 v) m)"

definition fpu_pop :: "fmach \<Rightarrow> problem + (fval \<times> fmach)" where
  "fpu_pop m = (case fregs m of [] \<Rightarrow> Inl Stuck | v # s \<Rightarrow> Inr (v, m\<lparr>fregs := s\<rparr>))"

definition set_codes :: "forder \<Rightarrow> fmach \<Rightarrow> fmach" where
  "set_codes r m = m\<lparr>c0 := r \<in> {Less, Unordered}, c2 := r = Unordered, c3 := r \<in> {Same, Unordered}\<rparr>"

definition rounding :: "fmach \<Rightarrow> nat" where
  "rounding m = unat (drop_bit 10 (fcw m) AND 3)"

definition top_half :: "bool \<Rightarrow> u32 \<Rightarrow> u16" where
  "top_half up w = (if up then ucast (drop_bit 16 w) else ucast w)"

definition halves :: "u16 \<Rightarrow> u16 \<Rightarrow> u32" where
  \<comment> \<open>high and low\<close>
  "halves h l = push_bit 16 (ucast h) OR ucast l"

fun fexec :: "fpu \<Rightarrow> u32 list \<Rightarrow> finsn \<Rightarrow> fmach \<Rightarrow> problem + fmach" where
  "fexec F ks (I i) m = on_core m (execute ks i (core m))"
| "fexec F ks (Fld32 op) m = bindE (fpu_read32 ks op m) (\<lambda>w. Inr (fpu_push (float32 w) m))"
| "fexec F ks (Fld64 op) m = bindE (fpu_read64 ks op m) (\<lambda>w. Inr (fpu_push (float64 w) m))"
| "fexec F ks (Fild32 op) m = bindE (fpu_read32 ks op m) (\<lambda>w. Inr (fpu_push (of_integer (sint w)) m))"
| "fexec F ks (Fild64 op) m = bindE (fpu_read64 ks op m) (\<lambda>w. Inr (fpu_push (of_integer (sint w)) m))"
| "fexec F ks (Fldt b) m = Inr (fpu_push (float80 b) m)"
| "fexec F ks (Fstp32 op) m = bindE (fpu_pop m) (\<lambda>(v, m). on_core m (write_op ks op (narrow32 F (fcw m) v) (core m)))"
| "fexec F ks (Fstp64 op) m = bindE (fpu_pop m) (\<lambda>(v, m). on_core m (write64 ks op (narrow64 F (fcw m) v) (core m)))"
| "fexec F ks (Fistp32 op) m = bindE (fpu_pop m) (\<lambda>(v, m). on_core m (write_op ks op (of_int (fist (rounding m) 32 v)) (core m)))"
| "fexec F ks (Fistp64 op) m = bindE (fpu_pop m) (\<lambda>(v, m). on_core m (write64 ks op (of_int (fist (rounding m) 64 v)) (core m)))"
| "fexec F ks (Fop32 f op) m = bindE (fpu_read32 ks op m) (\<lambda>w. bindE (fpu_pop m) (\<lambda>(v, m). Inr (fpu_push (farith F f (fcw m) v (float32 w)) m)))"
| "fexec F ks (Fop64 f op) m = bindE (fpu_read64 ks op m) (\<lambda>w. bindE (fpu_pop m) (\<lambda>(v, m). Inr (fpu_push (farith F f (fcw m) v (float64 w)) m)))"
| "fexec F ks Fmulp m = bindE (fpu_pop m) (\<lambda>(v, m). bindE (fpu_pop m) (\<lambda>(w, m). Inr (fpu_push (farith F FMUL (fcw m) w v) m)))"
| "fexec F ks Ftst m = (case fregs m of [] \<Rightarrow> Inl Stuck | v # _ \<Rightarrow> Inr (set_codes (fcompare v (Finite False 0 0)) m))"
| "fexec F ks (Fcomp32 op) m = bindE (fpu_read32 ks op m) (\<lambda>w. bindE (fpu_pop m) (\<lambda>(v, m). Inr (set_codes (fcompare v (float32 w)) m)))"
| "fexec F ks (Fcomp64 op) m = bindE (fpu_read64 ks op m) (\<lambda>w. bindE (fpu_pop m) (\<lambda>(v, m). Inr (set_codes (fcompare v (float64 w)) m)))"
| "fexec F ks Fstcw m = (case stk (core m) of [] \<Rightarrow> Inl Stuck
     | w # s \<Rightarrow> Inr (m\<lparr>core := (core m)\<lparr>stk := halves (top_half True w) (fcw m) # s\<rparr>\<rparr>))"
| "fexec F ks (Fldcw up) m = (case stk (core m) of [] \<Rightarrow> Inl Stuck | w # s \<Rightarrow> Inr (m\<lparr>fcw := top_half up w\<rparr>))"
| "fexec F ks LoadAX m = (case stk (core m) of [] \<Rightarrow> Inl Stuck
     | w # s \<Rightarrow> Inr (m\<lparr>core := (core m)\<lparr>eax := halves (top_half True (eax (core m))) (top_half False w)\<rparr>\<rparr>))"
| "fexec F ks StoreAX m = (case stk (core m) of [] \<Rightarrow> Inl Stuck
     | w # s \<Rightarrow> Inr (m\<lparr>core := (core m)\<lparr>stk := halves (top_half False (eax (core m))) (top_half False w) # s\<rparr>\<rparr>))"
| "fexec F ks (OrAX v) m = Inr (m\<lparr>core := (core m)\<lparr>eax := eax (core m) OR ucast v\<rparr>\<rparr>)"
| "fexec F ks Fnstsw m =
     \<comment> \<open>the codes are bits 8, 10 and 14; the others are not looked at\<close>
     Inr (m\<lparr>core := (core m)\<lparr>eax := halves (top_half True (eax (core m)))
       (push_bit 8 (of_bool (c0 m)) OR push_bit 10 (of_bool (c2 m)) OR push_bit 14 (of_bool (c3 m)))\<rparr>\<rparr>)"
| "fexec F ks Sahf m =
     (let a = eax (core m) in Inr (m\<lparr>core := (core m)\<lparr>cf := bit a 8, zf := bit a 14, sf := bit a 15\<rparr>, pf := bit a 10\<rparr>))"
| "fexec F ks (Jp b l) m = Inr m"
| "fexec F ks CallFmod m =
     (case stk (core m) of l1 # h1 # l2 # h2 # _ \<Rightarrow> Inr (fpu_push (fmod F (dbl h1 l1) (dbl h2 l2)) (call F m)) | _ \<Rightarrow> Inl Stuck)"

datatype foutcome =
    FEnd fmach
  | FFault problem fmach
  | FRaise nat fmach

fun frun_to :: "fpu \<Rightarrow> u32 list \<Rightarrow> nat option \<Rightarrow> finsn list \<Rightarrow> fmach \<Rightarrow> foutcome" where
  \<comment> \<open>as \<open>run_to\<close>\<close>
  "frun_to F ks None [] m = FEnd m"
| "frun_to F ks (Some l) [] m = FFault Stuck m"
| "frun_to F ks (Some l) (i # is) m = frun_to F ks (if i = I (Label l) then None else Some l) is m"
| "frun_to F ks None (i # is) m =
     (case i of
        I (Jcc c l) \<Rightarrow> frun_to F ks (if holds c (core m) then Some l else None) is m
      | I (Jmp l) \<Rightarrow> frun_to F ks (Some l) is m
      | I (JmpReg r) \<Rightarrow> FFault Stuck m
      | I (SignalError e) \<Rightarrow> FRaise e m
      | Jp b l \<Rightarrow> frun_to F ks (if pf m = b then Some l else None) is m
      | _ \<Rightarrow> (case fexec F ks i m of Inl p \<Rightarrow> FFault p m | Inr m \<Rightarrow> frun_to F ks None is m))"

abbreviation frun :: "fpu \<Rightarrow> u32 list \<Rightarrow> finsn list \<Rightarrow> fmach \<Rightarrow> foutcome" where
  "frun F ks \<equiv> frun_to F ks None"

subsection \<open>The templates\<close>

type_synonym fcode = "(nat \<times> finsn list \<times> nat) list"

definition flushed :: "(nat \<Rightarrow> finsn list) \<Rightarrow> nat \<Rightarrow> fcode" where
  \<comment> \<open>the five templates of a macro that pushes the registers first\<close>
  "flushed f nxt = map (\<lambda>(st, is, _). (st, map I is @ f st, nxt)) flush_cache_code"

definition any_fstate :: "finsn list \<Rightarrow> fcode" where
  "any_fstate is = map (\<lambda>st. (st, is, st)) [0, 1, 2, 3, 4]"

definition lift_code :: "code \<Rightarrow> fcode" where
  "lift_code = map (\<lambda>(st, is, nxt). (st, map I is, nxt))"

definition CODE_FARITH :: "(farith \<Rightarrow> operand \<Rightarrow> finsn) \<Rightarrow> nat \<Rightarrow> nat \<Rightarrow> farith \<Rightarrow> fcode" where
  \<comment> \<open>\<open>fadd\<close>, \<open>fmul\<close>, \<open>dadd\<close>, \<open>dmul\<close> for values of \<open>n\<close> words; the second value has not been put on the stack in state \<open>st\<close>\<close>
  "CODE_FARITH fop n st f = [(0, [I (AddSP n), fop f (Stack 0)], 0), (st, [fop f (Stack 0)], 0)]"

definition CODE_FARITH_SUB :: "(farith \<Rightarrow> operand \<Rightarrow> finsn) \<Rightarrow> nat \<Rightarrow> farith \<Rightarrow> fcode" where
  \<comment> \<open>\<open>fsub\<close>, \<open>fdiv\<close>, \<open>dsub\<close>, \<open>ddiv\<close>\<close>
  "CODE_FARITH_SUB fop n f = [(0, [fop f (Stack 0), I (AddSP n)], 0)]"

definition single_scale_pos :: "u8 list" where "single_scale_pos = [0, 0, 0, 0, 0, 0, 0, 0x80, 0x7f, 0x7f]"
definition single_scale_neg :: "u8 list" where "single_scale_neg = [0, 0, 0, 0, 0, 0, 0, 0x80, 0x7f, 0x00]"
definition double_scale_pos :: "u8 list" where "double_scale_pos = [0, 0, 0, 0, 0, 0, 0, 0x80, 0xff, 0x7b]"
definition double_scale_neg :: "u8 list" where "double_scale_neg = [0, 0, 0, 0, 0, 0, 0, 0x80, 0xff, 0x03]"

definition SCALE :: "u8 list \<Rightarrow> fcode" where
  "SCALE b = any_fstate [Fldt b, Fmulp]"

definition frem_code :: fcode where
  "frem_code =
     [(0, [Fld32 (Stack 0), Fld32 (Stack 1), I (SubSP 4), Fstp64 (Stack 0), Fstp64 (Stack 2), CallFmod, I (AddSP 4), I (AddSP 1)], 0)]"

definition DREM_ST24 :: "reg \<Rightarrow> reg \<Rightarrow> finsn list" where
  "DREM_ST24 r s =
     [I (Pop EAX), I (Pop EDI), I (Push s), I (Push r), I (Push EDI), I (Push EAX), CallFmod, I (AddSP 4), I (SubSP 2)]"

definition drem_code :: fcode where
  "drem_code = [(2, DREM_ST24 ECX EDX, 0), (4, DREM_ST24 EDX ECX, 0)]"

definition i2f_code :: fcode where "i2f_code = [(0, [Fild32 (Stack 0)], 0)]"
definition i2d_code :: fcode where "i2d_code = [(0, [Fild32 (Stack 0), I (SubSP 1)], 0)]"
definition l2f_code :: fcode where "l2f_code = [(0, [Fild64 (Stack 0), I (AddSP 1)], 0)]"
definition l2d_code :: fcode where "l2d_code = [(0, [Fild64 (Stack 0)], 0)]"
definition f2d_code :: fcode where "f2d_code = [(0, [I (SubSP 1)], 0), (1, [I (SubSP 2)], 0)]"
definition d2f_code :: fcode where "d2f_code = [(0, [I (AddSP 1)], 0), (2, [I (SubSP 1)], 0)]"

definition REAL2INT_ST0 :: "finsn \<Rightarrow> insn list \<Rightarrow> finsn \<Rightarrow> finsn list" where
  \<comment> \<open>the load, the adjustment of the stack pointer and the store\<close>
  "REAL2INT_ST0 fld adj fistp =
     [fld] @ map I adj @ [Fstcw, Ftst, LoadAX, OrAX 0xc00, StoreAX, Fldcw True, fistp, Fldcw False, I (AddSP 1)]"

definition REAL2INT_CHECK_INT :: "finsn list" where
  "REAL2INT_CHECK_INT =
     [I (Pop EDX), I (Cmp (Imm 0x80000000) (Reg EDX)), I (Jcc JNE 2), Fnstsw, Sahf, Jp True 1,
      I (Alu ADC (Imm (- 1)) (Reg EDX)), I (Jmp 2), I (Label 1), I (Alu XORL (Reg EDX) (Reg EDX)), I (Label 2)]"

definition REAL2INT_CHECK_LONG :: "finsn list" where
  "REAL2INT_CHECK_LONG =
     [I (Pop ECX), I (Pop EDX), I (Mov (Reg EDX) (Reg EAX)), I (Alu XORL (Imm 0x80000000) (Reg EAX)), I (Alu ORL (Reg ECX) (Reg EAX)),
      I (Jcc JNE 2), Fnstsw, Sahf, Jp True 1, I (Alu ADC (Imm (- 1)) (Reg ECX)), I (Alu ADC (Imm (- 1)) (Reg EDX)), I (Jmp 2),
      I (Label 1), I (Alu XORL (Reg EDX) (Reg EDX)), I (Alu XORL (Reg ECX) (Reg ECX)), I (Label 2)]"

definition f2i_code :: fcode where
  "f2i_code = flushed (\<lambda>_. REAL2INT_ST0 (Fld32 (Stack 0)) [SubSP 1] (Fistp32 (Stack 1)) @ REAL2INT_CHECK_INT) 1"

definition f2l_code :: fcode where
  "f2l_code = flushed (\<lambda>_. REAL2INT_ST0 (Fld32 (Stack 0)) [SubSP 2] (Fistp64 (Stack 1)) @ REAL2INT_CHECK_LONG) 2"

definition d2i_code :: fcode where
  "d2i_code = flushed (\<lambda>_. REAL2INT_ST0 (Fld64 (Stack 0)) [] (Fistp32 (Stack 1)) @ REAL2INT_CHECK_INT) 1"

definition d2l_code :: fcode where
  "d2l_code = flushed (\<lambda>_. REAL2INT_ST0 (Fld64 (Stack 0)) [SubSP 1] (Fistp64 (Stack 1)) @ REAL2INT_CHECK_LONG) 2"

definition FCMP_COMPARE_ST0 :: "finsn list" where
  "FCMP_COMPARE_ST0 = [Fld32 (Stack 1), Fcomp32 (Stack 0), I (AddSP 2)]"

definition DCMP_COMPARE_ST0 :: "finsn list" where
  "DCMP_COMPARE_ST0 = [Fld64 (Stack 2), Fcomp64 (Stack 0), I (AddSP 4)]"

definition FLOAT_CMP_ST0 :: "bool \<Rightarrow> finsn list" where
  \<comment> \<open>the argument tells \<open>cmpg\<close> from \<open>cmpl\<close>\<close>
  "FLOAT_CMP_ST0 g =
     [Fnstsw, Sahf] @
     (if g then [Jp False 3, I (Mov (Imm 1) (Reg EDX)), I (Jmp 2)] else [Jp True 1]) @
     [I (Label 3), I (Jcc JB 1), I (Mov (Imm 0) (Reg EDX)), I (Setnz EDX), I (Jmp 2), I (Label 1), I (Mov (Imm (- 1)) (Reg EDX)), I (Label 2)]"

definition CODE_FLOAT_CMP :: "finsn list \<Rightarrow> bool \<Rightarrow> fcode" where
  "CODE_FLOAT_CMP compare g = flushed (\<lambda>_. compare @ FLOAT_CMP_ST0 g) 1"

definition fload_fld_code :: fcode where "fload_fld_code = [(0, [I (SubSP 1), Fld32 (Var 0)], 0)]"
definition dload_dld_code :: fcode where "dload_dld_code = [(0, [I (SubSP 2), Fld64 (Var 0)], 0)]"

definition faload_fld_code :: fcode where
  \<comment> \<open>the value is in the register that state 1 has in \<open>%edx\<close> only on paper\<close>
  "faload_fld_code =
     [(2, [I (UNHAND EDX EAX), Fld32 (Idx EAX 4 ECX)], 1), (4, [I (UNHAND ECX EAX), Fld32 (Idx EAX 4 EDX)], 1)]"

definition daload_dld_code :: fcode where
  "daload_dld_code =
     [(2, [I (UNHAND EDX EAX), Fld64 (Idx EAX 8 ECX)], 2), (4, [I (UNHAND ECX EAX), Fld64 (Idx EAX 8 EDX)], 2)]"

definition fst_fstore_code :: fcode where "fst_fstore_code = [(0, [I (AddSP 1), Fstp32 (Var 0)], 0)]"
definition dst_dstore_code :: fcode where "dst_dstore_code = [(0, [I (AddSP 2), Fstp64 (Var 0)], 0)]"

definition fst_fastore_code :: fcode where
  "fst_fastore_code =
     [(0, map I ([Pop EAX, Pop ECX, Pop EDX] @ ARRAY_CHECK EDX ECX @ [UNHAND EDX EDI]) @ [Fstp32 (Idx EDI 4 ECX)], 0)]"

definition dst_dastore_code :: fcode where
  "dst_dastore_code =
     [(0, map I ([Mov (Stack 2) (Reg EAX), Mov (Stack 3) (Reg EDI)] @ ARRAY_CHECK EDI EAX @
          [Mov (Stack 3) (Reg EDI), UNHAND EDI EDI, Lea EDI 8 EAX EDI]) @ [Fstp64 (At 0 EDI), I (AddSP 4)], 0)]"

definition ftemplates :: "(nat \<times> fcode) list" where
  "ftemplates =
    [(opc_fld4, any_fstate [Fld32 (Stack 1)]), (opc_fld, any_fstate [Fld32 (Stack 0)]), (opc_fst, any_fstate [Fstp32 (Stack 0)]),
     (opc_dld8, any_fstate [Fld64 (Stack 2)]), (opc_dld, any_fstate [Fld64 (Stack 0)]), (opc_dst, any_fstate [Fstp64 (Stack 0)]),
     (opc_fadd, CODE_FARITH Fop32 1 1 FADD), (opc_fmul, CODE_FARITH Fop32 1 1 FMUL),
     (opc_fsub, CODE_FARITH_SUB Fop32 1 FSUB), (opc_fdiv, CODE_FARITH_SUB Fop32 1 FDIV),
     (opc_dadd, CODE_FARITH Fop64 2 2 FADD), (opc_dmul, CODE_FARITH Fop64 2 2 FMUL),
     (opc_dsub, CODE_FARITH_SUB Fop64 2 FSUB), (opc_ddiv, CODE_FARITH_SUB Fop64 2 FDIV),
     (opc_strict_fprep, any_fstate []), (opc_strict_fscdown, SCALE single_scale_neg), (opc_strict_fscup, SCALE single_scale_pos),
     (opc_strict_fsettle, any_fstate []), (opc_strict_dprep, any_fstate []), (opc_strict_dscdown, SCALE double_scale_neg),
     (opc_strict_dscup, SCALE double_scale_pos), (opc_strict_dsettle, any_fstate []),
     (opc_frem, frem_code), (opc_drem, drem_code), (opc_i2f, i2f_code), (opc_i2d, i2d_code), (opc_l2f, l2f_code), (opc_l2d, l2d_code),
     (opc_f2d, f2d_code), (opc_d2f, d2f_code), (opc_f2i, f2i_code), (opc_f2l, f2l_code), (opc_d2i, d2i_code), (opc_d2l, d2l_code),
     (opc_fcmpl, CODE_FLOAT_CMP FCMP_COMPARE_ST0 False), (opc_fcmpg, CODE_FLOAT_CMP FCMP_COMPARE_ST0 True),
     (opc_dcmpl, CODE_FLOAT_CMP DCMP_COMPARE_ST0 False), (opc_dcmpg, CODE_FLOAT_CMP DCMP_COMPARE_ST0 True),
     (opc_fload_fld, fload_fld_code), (opc_dload_dld, dload_dld_code), (opc_faload_fld, faload_fld_code),
     (opc_daload_dld, daload_dld_code), (opc_fst_fstore, fst_fstore_code), (opc_dst_dstore, dst_dstore_code),
     (opc_fst_fastore, fst_fastore_code), (opc_dst_dastore, dst_dastore_code),
     (opc_flush_cache, lift_code flush_cache_code), (opc_fill_cache, lift_code fill_cache_code)]"


definition ftmpl :: "nat \<Rightarrow> nat \<Rightarrow> (finsn list \<times> nat) option" where
  "ftmpl c st = (case map_of ftemplates c of Some code \<Rightarrow> map_of code st | None \<Rightarrow> map_option (\<lambda>(is, nxt). (map I is, nxt)) (tmpl c st))"

fun fpieces :: "fpu \<Rightarrow> (nat \<times> u32 list) list \<Rightarrow> nat \<Rightarrow> fmach \<Rightarrow> nat \<times> foutcome" where
  \<comment> \<open>the templates of internal instructions with their constants, from a state of the stack cache\<close>
  "fpieces F [] st m = (st, FEnd m)"
| "fpieces F ((c, ks) # ps) st m =
     (case ftmpl c st of
        None \<Rightarrow> (st, FFault Stuck m)
      | Some (is, nxt) \<Rightarrow> (case frun F ks is m of FEnd m \<Rightarrow> fpieces F ps nxt m | r \<Rightarrow> (st, r)))"

subsection \<open>What they have to do\<close>

definition truncated :: "fval \<Rightarrow> int" where
  \<comment> \<open>a finite value towards zero\<close>
  "truncated v = (case v of Finite s m e \<Rightarrow> with_sign s (if 0 \<le> e then m * 2 ^ nat e else m div 2 ^ nat (- e)) | _ \<Rightarrow> 0)"

definition to_integer :: "nat \<Rightarrow> fval \<Rightarrow> int" where
  \<comment> \<open>the narrowing conversion of Java to an integer of \<open>b\<close> bits\<close>
  "to_integer b v =
     (case v of NaN \<Rightarrow> 0 | Infinite s \<Rightarrow> (if s then - (2 ^ (b - 1)) else 2 ^ (b - 1) - 1)
      | _ \<Rightarrow> max (- (2 ^ (b - 1))) (min (2 ^ (b - 1) - 1) (truncated v)))"

definition fcmp :: "bool \<Rightarrow> fval \<Rightarrow> fval \<Rightarrow> u32" where
  "fcmp g a b = (case fcompare a b of Less \<Rightarrow> - 1 | Same \<Rightarrow> 0 | Greater \<Rightarrow> 1 | Unordered \<Rightarrow> (if g then 1 else - 1))"

definition two :: "u64 \<Rightarrow> u32 list \<Rightarrow> u32 list" where
  "two x s = lo32 x # hi32 x # s"

definition of_float :: "(fval \<Rightarrow> u32 list \<Rightarrow> u32 list) \<Rightarrow> u32 list \<Rightarrow> u32 list option" where
  "of_float f s = (case s of a # s \<Rightarrow> Some (f (float32 a) s) | _ \<Rightarrow> None)"

definition of_double :: "(fval \<Rightarrow> u32 list \<Rightarrow> u32 list) \<Rightarrow> u32 list \<Rightarrow> u32 list option" where
  "of_double f s = (case s of l # h # s \<Rightarrow> Some (f (float64 (dbl h l)) s) | _ \<Rightarrow> None)"

definition of_floats :: "(fval \<Rightarrow> fval \<Rightarrow> u32) \<Rightarrow> u32 list \<Rightarrow> u32 list option" where
  "of_floats f s = (case s of b # a # s \<Rightarrow> Some (f (float32 a) (float32 b) # s) | _ \<Rightarrow> None)"

definition of_doubles :: "(fval \<Rightarrow> fval \<Rightarrow> u32 list \<Rightarrow> u32 list) \<Rightarrow> u32 list \<Rightarrow> u32 list option" where
  "of_doubles f s = (case s of lb # hb # la # ha # s \<Rightarrow> Some (f (float64 (dbl ha la)) (float64 (dbl hb lb)) s) | _ \<Rightarrow> None)"

definition exact_op :: "nat \<Rightarrow> u32 list \<Rightarrow> u32 list option" where
  \<comment> \<open>the instructions that do not round\<close>
  "exact_op c =
     (if c = opc_f2i then of_float (\<lambda>v s. of_int (to_integer 32 v) # s)
      else if c = opc_f2l then of_float (\<lambda>v. two (of_int (to_integer 64 v)))
      else if c = opc_d2i then of_double (\<lambda>v s. of_int (to_integer 32 v) # s)
      else if c = opc_d2l then of_double (\<lambda>v. two (of_int (to_integer 64 v)))
      else if c = opc_fcmpl then of_floats (fcmp False)
      else if c = opc_fcmpg then of_floats (fcmp True)
      else if c = opc_dcmpl then of_doubles (\<lambda>a b s. fcmp False a b # s)
      else if c = opc_dcmpg then of_doubles (\<lambda>a b s. fcmp True a b # s)
      else (\<lambda>_. None))"

lemma round_towards_zero: "round_down 3 s m k = m div 2 ^ k"
  by (simp add: round_down_def)

lemma signed_bounds: "(0 :: int) < 2 ^ k" by simp

lemma fist_finite: "fist 3 b (Finite s m e) =
    (let i = truncated (Finite s m e) in if - (2 ^ (b - 1)) \<le> i \<and> i < 2 ^ (b - 1) then i else - (2 ^ (b - 1)))"
  unfolding fist_def truncated_def round_towards_zero Let_def fval.case by simp

lemma compare_zero:
  "fcompare (Finite s m e) (Finite False 0 0) = order_of (with_sign s m) 0"
  by (simp add: Let_def with_sign_def order_of_def mult_less_0_iff zero_less_mult_iff)

lemma div_gt: "0 < m div k \<Longrightarrow> 0 < (m :: nat)"
  by (cases m) auto

lemma truncated_sign:
  assumes "truncated (Finite s m e) \<noteq> 0"
  shows "(truncated (Finite s m e) < 0) = (with_sign s m < 0)" "with_sign s m \<noteq> 0"
  using assms by (auto simp: truncated_def with_sign_def split: if_splits dest: div_gt)

lemma fist_saturates:
  assumes "0 < b"
  shows "fist 3 b v \<noteq> - (2 ^ (b - 1)) \<Longrightarrow> to_integer b v = fist 3 b v"
    and "fist 3 b v = - (2 ^ (b - 1)) \<Longrightarrow> to_integer b v =
      (case fcompare v (Finite False 0 0) of Unordered \<Rightarrow> 0 | Less \<Rightarrow> - (2 ^ (b - 1)) | _ \<Rightarrow> 2 ^ (b - 1) - 1)"
proof -
  have p: "(0 :: int) < 2 ^ (b - 1)" by simp
  show "fist 3 b v \<noteq> - (2 ^ (b - 1)) \<Longrightarrow> to_integer b v = fist 3 b v"
  proof (cases v)
    case (Finite s m e)
    then show "fist 3 b v \<noteq> - (2 ^ (b - 1)) \<Longrightarrow> to_integer b v = fist 3 b v"
      by (simp add: fist_finite to_integer_def Let_def split: if_splits)
  qed (simp_all add: fist_def)
  assume *: "fist 3 b v = - (2 ^ (b - 1))"
  show "to_integer b v = (case fcompare v (Finite False 0 0) of Unordered \<Rightarrow> 0 | Less \<Rightarrow> - (2 ^ (b - 1)) | _ \<Rightarrow> 2 ^ (b - 1) - 1)"
  proof (cases v)
    case (Finite s m e)
    let ?i = "truncated (Finite s m e)"
    have "?i \<le> - (2 ^ (b - 1)) \<or> 2 ^ (b - 1) \<le> ?i" using * Finite p by (auto simp: fist_finite Let_def split: if_splits)
    then consider "?i \<le> - (2 ^ (b - 1))" | "2 ^ (b - 1) \<le> ?i" by blast
    then show ?thesis
    proof cases
      case 1
      with p have "?i < 0" by linarith
      with truncated_sign [of s m e] have "order_of (with_sign s m) 0 = Less" by (simp add: order_of_def)
      with 1 p Finite show ?thesis by (simp add: to_integer_def compare_zero del: fcompare.simps)
    next
      case 2
      with p have "0 < ?i" by linarith
      with truncated_sign [of s m e] have "order_of (with_sign s m) 0 = Greater" by (auto simp: order_of_def)
      with 2 p Finite show ?thesis by (simp add: to_integer_def compare_zero del: fcompare.simps)
    qed
  qed (simp_all add: to_integer_def order_of_def with_sign_def)
qed


subsection \<open>Conversions and comparisons\<close>

lemma top_half_halves [simp]: "top_half False (halves h l) = l" "top_half True (halves h l) = h"
  by (rule bit_word_eqI; auto simp: top_half_def halves_def bit_simps dest: bit_imp_le_length)+

lemma halves_or [simp]: "halves h l OR 0xc00 = halves h (l OR 0xc00)"
proof -
  have m: "(0xc00 :: u32) = push_bit 10 (mask 2)" "(0xc00 :: u16) = push_bit 10 (mask 2)"
    by (simp_all add: mask_eq_exp_minus_1 push_bit_eq_mult)
  show ?thesis unfolding m by (rule bit_word_eqI) (auto simp: halves_def bit_simps)
qed

lemma rounding_chopped [simp]: "unat (drop_bit 10 (w OR 0xc00) AND 3) = 3" for w :: u16
proof -
  have m: "(3 :: u16) = mask 2" "(0xc00 :: u16) = push_bit 10 (mask 2)" by (simp_all add: mask_eq_exp_minus_1 push_bit_eq_mult)
  have "drop_bit 10 (w OR 0xc00) AND 3 = (3 :: u16)"
    unfolding m by (rule bit_word_eqI) (auto simp: bit_simps)
  then show ?thesis by simp
qed

lemma codes_bits [simp]:
  "bit (halves h (push_bit 8 (of_bool a) OR push_bit 10 (of_bool b) OR push_bit 14 (of_bool c))) 8 = a"
  "bit (halves h (push_bit 8 (of_bool a) OR push_bit 10 (of_bool b) OR push_bit 14 (of_bool c))) 10 = b"
  "bit (halves h (push_bit 8 (of_bool a) OR push_bit 10 (of_bool b) OR push_bit 14 (of_bool c))) 14 = c"
  by (auto simp: halves_def bit_simps)

lemmas frun_simps = on_core_def fpu_read32_def fpu_read64_def write64_def fpu_pop_def set_codes_def rounding_def Let_def push_def

lemma fist_range: "- (2 ^ (b - 1)) \<le> fist rc b v" "fist rc b v < 2 ^ (b - 1)"
proof -
  have "(0 :: int) < 2 ^ (b - 1)" by simp
  then have "- (2 ^ (b - 1)) < (2 ^ (b - 1) :: int)" by linarith
  then show "- (2 ^ (b - 1)) \<le> fist rc b v" "fist rc b v < 2 ^ (b - 1)"
    by (auto simp: fist_def Let_def split: fval.split)
qed

lemma sint_in_range:
  "- (2 ^ (LENGTH('a) - 1)) \<le> k \<Longrightarrow> k < 2 ^ (LENGTH('a) - 1) \<Longrightarrow> sint (of_int k :: 'a::len word) = k"
  by (simp add: sint_sbintrunc' signed_take_bit_int_eq_self)

lemma fist_word32: "(of_int (fist rc 32 v) = (0x80000000 :: u32)) \<longleftrightarrow> fist rc 32 v = - 2147483648"
proof -
  have "(of_int (fist rc 32 v) = (0x80000000 :: u32)) \<longleftrightarrow> sint (of_int (fist rc 32 v) :: u32) = sint (0x80000000 :: u32)"
    by (metis signed_word_eqI)
  also have "sint (of_int (fist rc 32 v) :: u32) = fist rc 32 v"
    using fist_range(1) [of 32 rc v] fist_range(2) [of rc 32 v] by (intro sint_in_range) simp_all
  finally show ?thesis by simp
qed

lemma fist_word64: "(of_int (fist rc 64 v) = (0x8000000000000000 :: u64)) \<longleftrightarrow> fist rc 64 v = - 9223372036854775808"
proof -
  have "(of_int (fist rc 64 v) = (0x8000000000000000 :: u64)) \<longleftrightarrow> sint (of_int (fist rc 64 v) :: u64) = sint (0x8000000000000000 :: u64)"
    by (metis signed_word_eqI)
  also have "sint (of_int (fist rc 64 v) :: u64) = fist rc 64 v"
    using fist_range(1) [of 64 rc v] fist_range(2) [of rc 64 v] by (intro sint_in_range) simp_all
  finally show ?thesis by simp
qed

lemma int_checked:
  assumes "w = (of_int (fist 3 32 v) :: u32)"
  shows "w \<noteq> 0x80000000 \<Longrightarrow> of_int (to_integer 32 v) = w"
    and "w = 0x80000000 \<Longrightarrow> of_int (to_integer 32 v) =
      (case fcompare v (Finite False 0 0) of Unordered \<Rightarrow> 0 | Less \<Rightarrow> 0x80000000 | _ \<Rightarrow> (0x7fffffff :: u32))"
  using fist_saturates [of 32 v] unfolding assms fist_word32 by (simp_all split: forder.split)

lemma xor_zero: "a XOR b = 0 \<longleftrightarrow> a = b" for a b :: u32
  by (metis xor.assoc xor_self_eq xor.right_neutral xor.left_neutral)

lemma indefinite_words: "(hi32 x XOR 0x80000000) OR lo32 x = 0 \<longleftrightarrow> x = 0x8000000000000000"
proof -
  have "(hi32 x XOR 0x80000000) OR lo32 x = 0 \<longleftrightarrow> hi32 x = 0x80000000 \<and> lo32 x = 0"
    by (auto simp: or_eq_0_iff xor_zero)
  also have "\<dots> \<longleftrightarrow> x = dbl 0x80000000 0" by (metis dbl_hi32_lo32 hi32_dbl lo32_dbl)
  also have "dbl 0x80000000 0 = 0x8000000000000000" by (simp add: dbl_def word_cat_eq push_bit_eq_mult)
  finally show ?thesis .
qed

lemma long_checked:
  "of_int (fist 3 64 v) \<noteq> (0x8000000000000000 :: u64) \<Longrightarrow> of_int (to_integer 64 v) = (of_int (fist 3 64 v) :: u64)"
  "of_int (fist 3 64 v) = (0x8000000000000000 :: u64) \<Longrightarrow> of_int (to_integer 64 v) =
      (case fcompare v (Finite False 0 0) of Unordered \<Rightarrow> 0 | Less \<Rightarrow> 0x8000000000000000 | _ \<Rightarrow> (0x7fffffffffffffff :: u64))"
  using fist_saturates [of 64 v] unfolding fist_word64 by (simp_all split: forder.split)

lemma unat_minus1 [simp]: "unat (- 1 :: u32) = 4294967295"
  by (simp add: unsigned_minus_1_eq_mask mask_eq_exp_minus_1)

definition converted :: "fmach \<Rightarrow> u32 list \<Rightarrow> u32 list \<Rightarrow> (mach \<Rightarrow> u32 list) \<Rightarrow> fmach \<Rightarrow> bool" where
  \<comment> \<open>the machine afterwards has these words in its registers and these on its stack, and the rest as before\<close>
  "converted m ws s regs m' \<longleftrightarrow> fregs m' = fregs m \<and> fcw m' = fcw m \<and> regs (core m') = ws \<and> stk (core m') = s \<and>
     vars (core m') = vars (core m) \<and> memory (core m') = memory (core m)"

lemmas convert_simps = REAL2INT_ST0_def REAL2INT_CHECK_INT_def REAL2INT_CHECK_LONG_def frun_simps fpu_push_def carry_def converted_def

lemma words_numeral [simp]:
  "regain (numeral k) m = regain (pred_numeral k) (push (dead m 0) m)"
  "drop_words (numeral k) m = bindE (drop_word m) (drop_words (pred_numeral k))"
  by (simp_all add: numeral_eq_Suc)

lemma f2i_run:
  assumes "stk (core m) = a # s" "length (fregs m) < 8"
  shows "\<exists>m'. frun F ks (REAL2INT_ST0 (Fld32 (Stack 0)) [SubSP 1] (Fistp32 (Stack 1)) @ REAL2INT_CHECK_INT) m = FEnd m' \<and>
    converted m [of_int (to_integer 32 (float32 a))] s (\<lambda>c. [edx c]) m'"
  using assms by (simp add: convert_simps int_checked(1) int_checked(2) split: forder.split)

lemma d2i_run:
  assumes "stk (core m) = l # h # s" "length (fregs m) < 8"
  shows "\<exists>m'. frun F ks (REAL2INT_ST0 (Fld64 (Stack 0)) [] (Fistp32 (Stack 1)) @ REAL2INT_CHECK_INT) m = FEnd m' \<and>
    converted m [of_int (to_integer 32 (float64 (dbl h l)))] s (\<lambda>c. [edx c]) m'"
  using assms by (simp add: convert_simps int_checked(1) int_checked(2) split: forder.split)

lemma long_words [simp]: "lo32 0x7fffffffffffffff = 0xffffffff" "hi32 0x7fffffffffffffff = 0x7fffffff"
    "lo32 0x8000000000000000 = 0" "lo32 0 = 0" "hi32 0 = 0" "hi32 0x8000000000000000 = 0x80000000"
  by (simp_all add: lo32_def hi32_def)

lemma f2l_run:
  assumes "stk (core m) = a # s" "length (fregs m) < 8"
  shows "\<exists>m'. frun F ks (REAL2INT_ST0 (Fld32 (Stack 0)) [SubSP 2] (Fistp64 (Stack 1)) @ REAL2INT_CHECK_LONG) m = FEnd m' \<and>
    converted m [lo32 (of_int (to_integer 64 (float32 a))), hi32 (of_int (to_integer 64 (float32 a)))] s (\<lambda>c. [ecx c, edx c]) m'"
proof (cases "of_int (fist 3 64 (float32 a)) = (0x8000000000000000 :: u64)")
  case True
  then show ?thesis using assms by (simp add: convert_simps long_checked(2) split: forder.split)
next
  case False
  then show ?thesis using assms by (simp add: convert_simps long_checked(1) indefinite_words)
qed

lemma d2l_run:
  assumes "stk (core m) = l # h # s" "length (fregs m) < 8"
  shows "\<exists>m'. frun F ks (REAL2INT_ST0 (Fld64 (Stack 0)) [SubSP 1] (Fistp64 (Stack 1)) @ REAL2INT_CHECK_LONG) m = FEnd m' \<and>
    converted m [lo32 (of_int (to_integer 64 (float64 (dbl h l)))), hi32 (of_int (to_integer 64 (float64 (dbl h l))))] s (\<lambda>c. [ecx c, edx c]) m'"
proof (cases "of_int (fist 3 64 (float64 (dbl h l))) = (0x8000000000000000 :: u64)")
  case True
  then show ?thesis using assms by (simp add: convert_simps long_checked(2) split: forder.split)
next
  case False
  then show ?thesis using assms by (simp add: convert_simps long_checked(1) indefinite_words)
qed


lemma fcmp_run:
  assumes "stk (core m) = b # a # s" "length (fregs m) < 8"
  shows "\<exists>m'. frun F ks (FCMP_COMPARE_ST0 @ FLOAT_CMP_ST0 g) m = FEnd m' \<and> converted m [fcmp g (float32 a) (float32 b)] s (\<lambda>c. [edx c]) m'"
  using assms by (cases g; simp add: FCMP_COMPARE_ST0_def FLOAT_CMP_ST0_def frun_simps fpu_push_def converted_def fcmp_def split: forder.split)

lemma dcmp_run:
  assumes "stk (core m) = lb # hb # la # ha # s" "length (fregs m) < 8"
  shows "\<exists>m'. frun F ks (DCMP_COMPARE_ST0 @ FLOAT_CMP_ST0 g) m = FEnd m' \<and>
    converted m [fcmp g (float64 (dbl ha la)) (float64 (dbl hb lb))] s (\<lambda>c. [edx c]) m'"
  using assms by (cases g; simp add: DCMP_COMPARE_ST0_def FLOAT_CMP_ST0_def frun_simps fpu_push_def converted_def fcmp_def split: forder.split)

lemma flush_run:
  assumes "(st, is, nxt) \<in> set flush_cache_code"
  shows "nxt = 0 \<and> (\<exists>c. frun F ks (map I is @ js) m = frun F ks js (m\<lparr>core := c\<rparr>) \<and> stk c = stack_of st (core m) \<and>
    vars c = vars (core m) \<and> memory c = memory (core m))"
proof (cases "st = 0")
  case True
  with assms show ?thesis by (auto simp: flush_cache_code_def stack_of_def intro!: exI [of _ "core m"])
qed (use assms in \<open>auto simp: flush_cache_code_def frun_simps stack_of_def\<close>)

lemma flushed_run:
  assumes "(st, is, nxt) \<in> set (flushed (\<lambda>_. js) to)" "length (fregs m) < 8"
    and js: "\<And>m. stk (core m) = s \<Longrightarrow> length (fregs m) < 8 \<Longrightarrow> \<exists>m'. frun F ks js m = FEnd m' \<and> converted m ws s' regs m'"
    and s: "stack_of st (core m) = s"
  shows "nxt = to \<and> (\<exists>m'. frun F ks is m = FEnd m' \<and> converted m ws s' regs m')"
proof -
  from assms(1) obtain js' where "(st, js', 0) \<in> set flush_cache_code" and i: "is = map I js' @ js" "nxt = to"
    using flush_run by (fastforce simp: flushed_def)
  with flush_run [of st js' 0 F ks js m] obtain c where "frun F ks is m = frun F ks js (m\<lparr>core := c\<rparr>)" "stk c = s"
    "vars c = vars (core m)" "memory c = memory (core m)" using s by auto
  with js [of "m\<lparr>core := c\<rparr>"] i(2) assms(2) show ?thesis by (auto simp: converted_def)
qed

lemma exact_templates:
  "ftmpl opc_f2i st = map_of f2i_code st" "ftmpl opc_f2l st = map_of f2l_code st"
  "ftmpl opc_d2i st = map_of d2i_code st" "ftmpl opc_d2l st = map_of d2l_code st"
  "ftmpl opc_fcmpl st = map_of (CODE_FLOAT_CMP FCMP_COMPARE_ST0 False) st" "ftmpl opc_fcmpg st = map_of (CODE_FLOAT_CMP FCMP_COMPARE_ST0 True) st"
  "ftmpl opc_dcmpl st = map_of (CODE_FLOAT_CMP DCMP_COMPARE_ST0 False) st" "ftmpl opc_dcmpg st = map_of (CODE_FLOAT_CMP DCMP_COMPARE_ST0 True) st"
  by (simp_all add: ftmpl_def ftemplates_def)

lemma exact_cases:
  assumes "exact_op c s = Some r"
  obtains (f2i) a t where "c = opc_f2i" "s = a # t" "r = of_int (to_integer 32 (float32 a)) # t"
  | (f2l) a t where "c = opc_f2l" "s = a # t" "r = two (of_int (to_integer 64 (float32 a))) t"
  | (d2i) l h t where "c = opc_d2i" "s = l # h # t" "r = of_int (to_integer 32 (float64 (dbl h l))) # t"
  | (d2l) l h t where "c = opc_d2l" "s = l # h # t" "r = two (of_int (to_integer 64 (float64 (dbl h l)))) t"
  | (fcmpl) a b t where "c = opc_fcmpl" "s = b # a # t" "r = fcmp False (float32 a) (float32 b) # t"
  | (fcmpg) a b t where "c = opc_fcmpg" "s = b # a # t" "r = fcmp True (float32 a) (float32 b) # t"
  | (dcmpl) lb hb la ha t where "c = opc_dcmpl" "s = lb # hb # la # ha # t" "r = fcmp False (float64 (dbl ha la)) (float64 (dbl hb lb)) # t"
  | (dcmpg) lb hb la ha t where "c = opc_dcmpg" "s = lb # hb # la # ha # t" "r = fcmp True (float64 (dbl ha la)) (float64 (dbl hb lb)) # t"
  using assms by (auto simp: exact_op_def of_float_def of_double_def of_floats_def of_doubles_def split: if_splits list.splits)

text \<open>C37: Conversions of floating point numbers to integers and comparisons follow Java from every state of the
stack cache: a value is cut towards zero, one out of the range of the integer gives the nearest end of the range, a NaN
gives 0; comparisons give -1, 0 or 1, and for a NaN what the variant of the instruction prescribes. The
rounding mode, the registers of the floating point unit, the variables and the memory are as before.\<close>
theorem float_conversions:
  assumes "ftmpl c st = Some (is, nxt)" "exact_op c (stack_of st (core m)) = Some s" "length (fregs m) < 8"
  shows "\<exists>m'. frun F ks is m = FEnd m' \<and> stack_of nxt (core m') = s \<and> vars (core m') = vars (core m) \<and>
    memory (core m') = memory (core m) \<and> fregs m' = fregs m \<and> fcw m' = fcw m"
  using assms(2)
proof (cases rule: exact_cases)
  case (f2i a t)
  with assms have "(st, is, nxt) \<in> set (f2i_code)" by (auto simp: exact_templates dest: map_of_SomeD)
  from this [unfolded f2i_code_def]
  have "nxt = 1 \<and> (\<exists>m'. frun F ks is m = FEnd m' \<and> converted m [of_int (to_integer 32 (float32 a))] t (\<lambda>c. [edx c]) m')"
    by (rule flushed_run [OF _ assms(3) f2i_run f2i(2)])
  with f2i show ?thesis by (auto simp: converted_def stack_of_def two_def)
next
  case (f2l a t)
  with assms have "(st, is, nxt) \<in> set (f2l_code)" by (auto simp: exact_templates dest: map_of_SomeD)
  from this [unfolded f2l_code_def]
  have "nxt = 2 \<and> (\<exists>m'. frun F ks is m = FEnd m' \<and> converted m [lo32 (of_int (to_integer 64 (float32 a))), hi32 (of_int (to_integer 64 (float32 a)))] t (\<lambda>c. [ecx c, edx c]) m')"
    by (rule flushed_run [OF _ assms(3) f2l_run f2l(2)])
  with f2l show ?thesis by (auto simp: converted_def stack_of_def two_def)
next
  case (d2i l h t)
  with assms have "(st, is, nxt) \<in> set (d2i_code)" by (auto simp: exact_templates dest: map_of_SomeD)
  from this [unfolded d2i_code_def]
  have "nxt = 1 \<and> (\<exists>m'. frun F ks is m = FEnd m' \<and> converted m [of_int (to_integer 32 (float64 (dbl h l)))] t (\<lambda>c. [edx c]) m')"
    by (rule flushed_run [OF _ assms(3) d2i_run d2i(2)])
  with d2i show ?thesis by (auto simp: converted_def stack_of_def two_def)
next
  case (d2l l h t)
  with assms have "(st, is, nxt) \<in> set (d2l_code)" by (auto simp: exact_templates dest: map_of_SomeD)
  from this [unfolded d2l_code_def]
  have "nxt = 2 \<and> (\<exists>m'. frun F ks is m = FEnd m' \<and> converted m [lo32 (of_int (to_integer 64 (float64 (dbl h l)))), hi32 (of_int (to_integer 64 (float64 (dbl h l))))] t (\<lambda>c. [ecx c, edx c]) m')"
    by (rule flushed_run [OF _ assms(3) d2l_run d2l(2)])
  with d2l show ?thesis by (auto simp: converted_def stack_of_def two_def)
next
  case (fcmpl a b t)
  with assms have "(st, is, nxt) \<in> set (CODE_FLOAT_CMP FCMP_COMPARE_ST0 False)" by (auto simp: exact_templates dest: map_of_SomeD)
  from this [unfolded CODE_FLOAT_CMP_def]
  have "nxt = 1 \<and> (\<exists>m'. frun F ks is m = FEnd m' \<and> converted m [fcmp False (float32 a) (float32 b)] t (\<lambda>c. [edx c]) m')"
    by (rule flushed_run [OF _ assms(3) fcmp_run fcmpl(2)])
  with fcmpl show ?thesis by (auto simp: converted_def stack_of_def two_def)
next
  case (fcmpg a b t)
  with assms have "(st, is, nxt) \<in> set (CODE_FLOAT_CMP FCMP_COMPARE_ST0 True)" by (auto simp: exact_templates dest: map_of_SomeD)
  from this [unfolded CODE_FLOAT_CMP_def]
  have "nxt = 1 \<and> (\<exists>m'. frun F ks is m = FEnd m' \<and> converted m [fcmp True (float32 a) (float32 b)] t (\<lambda>c. [edx c]) m')"
    by (rule flushed_run [OF _ assms(3) fcmp_run fcmpg(2)])
  with fcmpg show ?thesis by (auto simp: converted_def stack_of_def two_def)
next
  case (dcmpl lb hb la ha t)
  with assms have "(st, is, nxt) \<in> set (CODE_FLOAT_CMP DCMP_COMPARE_ST0 False)" by (auto simp: exact_templates dest: map_of_SomeD)
  from this [unfolded CODE_FLOAT_CMP_def]
  have "nxt = 1 \<and> (\<exists>m'. frun F ks is m = FEnd m' \<and> converted m [fcmp False (float64 (dbl ha la)) (float64 (dbl hb lb))] t (\<lambda>c. [edx c]) m')"
    by (rule flushed_run [OF _ assms(3) dcmp_run dcmpl(2)])
  with dcmpl show ?thesis by (auto simp: converted_def stack_of_def two_def)
next
  case (dcmpg lb hb la ha t)
  with assms have "(st, is, nxt) \<in> set (CODE_FLOAT_CMP DCMP_COMPARE_ST0 True)" by (auto simp: exact_templates dest: map_of_SomeD)
  from this [unfolded CODE_FLOAT_CMP_def]
  have "nxt = 1 \<and> (\<exists>m'. frun F ks is m = FEnd m' \<and> converted m [fcmp True (float64 (dbl ha la)) (float64 (dbl hb lb))] t (\<lambda>c. [edx c]) m')"
    by (rule flushed_run [OF _ assms(3) dcmp_run dcmpg(2)])
  with dcmpg show ?thesis by (auto simp: converted_def stack_of_def two_def)
qed

subsection \<open>Arithmetic\<close>

definition scaled :: "fpu \<Rightarrow> u16 \<Rightarrow> bool \<Rightarrow> u8 list \<Rightarrow> fval \<Rightarrow> fval" where
  \<comment> \<open>in a method with \<open>strictfp\<close> an operand is scaled down and the result up again\<close>
  "scaled F cw strict b v = (if strict then farith F FMUL cw v (float80 b) else v)"

definition float_op :: "fpu \<Rightarrow> u16 \<Rightarrow> bool \<Rightarrow> nat \<Rightarrow> u32 list \<Rightarrow> u32 list option" where
  "float_op F cw strict c =
     (let sd = scaled F cw strict single_scale_neg; su = scaled F cw strict single_scale_pos;
          dd = scaled F cw strict double_scale_neg; du = scaled F cw strict double_scale_pos;
          f32 = narrow32 F cw; f64 = narrow64 F cw
      in if c = opc_fadd then of_floats (\<lambda>a b. f32 (farith F FADD cw a b))
         else if c = opc_fsub then of_floats (\<lambda>a b. f32 (farith F FSUB cw a b))
         else if c = opc_fmul then of_floats (\<lambda>a b. f32 (su (farith F FMUL cw a (sd b))))
         else if c = opc_fdiv then of_floats (\<lambda>a b. f32 (su (farith F FDIV cw (sd a) b)))
         else if c = opc_frem then of_floats (\<lambda>a b. f32 (fmod F (f64 a) (f64 b)))
         else if c = opc_dadd then of_doubles (\<lambda>a b. two (f64 (farith F FADD cw a b)))
         else if c = opc_dsub then of_doubles (\<lambda>a b. two (f64 (farith F FSUB cw a b)))
         else if c = opc_dmul then of_doubles (\<lambda>a b. two (f64 (du (farith F FMUL cw a (dd b)))))
         else if c = opc_ddiv then of_doubles (\<lambda>a b. two (f64 (du (farith F FDIV cw (dd a) b))))
         else if c = opc_drem then (\<lambda>s. case s of lb # hb # la # ha # s \<Rightarrow> Some (two (f64 (fmod F (dbl ha la) (dbl hb lb))) s) | _ \<Rightarrow> None)
         else if c = opc_i2f then (\<lambda>s. case s of i # s \<Rightarrow> Some (f32 (of_integer (sint i)) # s) | _ \<Rightarrow> None)
         else if c = opc_i2d then (\<lambda>s. case s of i # s \<Rightarrow> Some (two (f64 (of_integer (sint i))) s) | _ \<Rightarrow> None)
         else if c = opc_l2f then (\<lambda>s. case s of l # h # s \<Rightarrow> Some (f32 (of_integer (sint (dbl h l))) # s) | _ \<Rightarrow> None)
         else if c = opc_l2d then (\<lambda>s. case s of l # h # s \<Rightarrow> Some (two (f64 (of_integer (sint (dbl h l)))) s) | _ \<Rightarrow> None)
         else if c = opc_f2d then of_float (\<lambda>v. two (f64 v))
         else if c = opc_d2f then of_double (\<lambda>v s. f32 v # s)
         else (\<lambda>_. None))"

definition commutative :: "fpu \<Rightarrow> bool" where
  "commutative F \<longleftrightarrow> (\<forall>cw a b. farith F FADD cw a b = farith F FADD cw b a \<and> farith F FMUL cw a b = farith F FMUL cw b a)"

abbreviation plain_pieces :: "nat list \<Rightarrow> (nat \<times> u32 list) list" where
  "plain_pieces \<equiv> map (\<lambda>c. (c, []))"

lemma ftmpl_at [simp]:
  "ftmpl opc_fld4 st = map_of (any_fstate [Fld32 (Stack 1)]) st" "ftmpl opc_fld st = map_of (any_fstate [Fld32 (Stack 0)]) st"
  "ftmpl opc_fst st = map_of (any_fstate [Fstp32 (Stack 0)]) st" "ftmpl opc_dld8 st = map_of (any_fstate [Fld64 (Stack 2)]) st"
  "ftmpl opc_dld st = map_of (any_fstate [Fld64 (Stack 0)]) st" "ftmpl opc_dst st = map_of (any_fstate [Fstp64 (Stack 0)]) st"
  "ftmpl opc_fadd st = map_of (CODE_FARITH Fop32 1 1 FADD) st" "ftmpl opc_fmul st = map_of (CODE_FARITH Fop32 1 1 FMUL) st"
  "ftmpl opc_fsub st = map_of (CODE_FARITH_SUB Fop32 1 FSUB) st" "ftmpl opc_fdiv st = map_of (CODE_FARITH_SUB Fop32 1 FDIV) st"
  "ftmpl opc_dadd st = map_of (CODE_FARITH Fop64 2 2 FADD) st" "ftmpl opc_dmul st = map_of (CODE_FARITH Fop64 2 2 FMUL) st"
  "ftmpl opc_dsub st = map_of (CODE_FARITH_SUB Fop64 2 FSUB) st" "ftmpl opc_ddiv st = map_of (CODE_FARITH_SUB Fop64 2 FDIV) st"
  "ftmpl opc_strict_fprep st = map_of (any_fstate []) st" "ftmpl opc_strict_fscdown st = map_of (SCALE single_scale_neg) st"
  "ftmpl opc_strict_fscup st = map_of (SCALE single_scale_pos) st" "ftmpl opc_strict_fsettle st = map_of (any_fstate []) st"
  "ftmpl opc_strict_dprep st = map_of (any_fstate []) st" "ftmpl opc_strict_dscdown st = map_of (SCALE double_scale_neg) st"
  "ftmpl opc_strict_dscup st = map_of (SCALE double_scale_pos) st" "ftmpl opc_strict_dsettle st = map_of (any_fstate []) st"
  "ftmpl opc_frem st = map_of frem_code st" "ftmpl opc_drem st = map_of drem_code st"
  "ftmpl opc_i2f st = map_of i2f_code st" "ftmpl opc_i2d st = map_of i2d_code st" "ftmpl opc_l2f st = map_of l2f_code st"
  "ftmpl opc_l2d st = map_of l2d_code st" "ftmpl opc_f2d st = map_of f2d_code st" "ftmpl opc_d2f st = map_of d2f_code st"
  "ftmpl opc_fload_fld st = map_of fload_fld_code st" "ftmpl opc_dload_dld st = map_of dload_dld_code st"
  "ftmpl opc_faload_fld st = map_of faload_fld_code st" "ftmpl opc_daload_dld st = map_of daload_dld_code st"
  "ftmpl opc_fst_fstore st = map_of fst_fstore_code st" "ftmpl opc_dst_dstore st = map_of dst_dstore_code st"
  "ftmpl opc_fst_fastore st = map_of fst_fastore_code st" "ftmpl opc_dst_dastore st = map_of dst_dastore_code st"
  "ftmpl opc_flush_cache st = map_of (lift_code flush_cache_code) st" "ftmpl opc_fill_cache st = map_of (lift_code fill_cache_code) st"
  by (simp_all add: ftmpl_def ftemplates_def)

lemma five_cases: "(st :: nat) < 5 \<Longrightarrow> st \<in> {0, 1, 2, 3, 4}"
  by auto

lemma flush_piece:
  assumes "st < 5"
  obtains c where "fpieces F ((opc_flush_cache, ks) # ps) st m = fpieces F ps 0 (m\<lparr>core := c\<rparr>)" "stk c = stack_of st (core m)"
    "vars c = vars (core m)" "memory c = memory (core m)"
proof -
  from five_cases [OF assms] obtain "is" where i: "map_of flush_cache_code st = Some (is, 0)" "(st, is, 0) \<in> set flush_cache_code"
    by (auto simp: flush_cache_code_def)
  have "ftmpl opc_flush_cache st = Some (map I is, 0)" using five_cases [OF assms] i(1) by (auto simp: lift_code_def flush_cache_code_def)
  with flush_run [OF i(2), of F ks "[]" m] show ?thesis by (auto intro: that)
qed

lemmas any_fstate_simps = any_fstate_def SCALE_def CODE_FARITH_def CODE_FARITH_SUB_def i2f_code_def i2d_code_def l2f_code_def l2d_code_def
  f2d_code_def d2f_code_def frem_code_def

lemma arith_cases:
  assumes "float_op F cw strict c s = Some r" "c \<noteq> opc_drem"
  shows "c \<in> {opc_fadd, opc_fsub, opc_fmul, opc_fdiv, opc_frem, opc_dadd, opc_dsub, opc_dmul, opc_ddiv, opc_i2f, opc_i2d, opc_l2f,
    opc_l2d, opc_f2d, opc_d2f}"
  using assms by (auto simp: float_op_def Let_def split: if_splits)

definition ended :: "fmach \<Rightarrow> u32 list \<Rightarrow> nat \<times> foutcome \<Rightarrow> bool" where
  \<comment> \<open>back in state 0 with this stack, and the rest as before\<close>
  "ended m s r \<longleftrightarrow> (\<exists>m'. r = (0, FEnd m') \<and> stk (core m') = s \<and> vars (core m') = vars (core m) \<and> memory (core m') = memory (core m) \<and>
     fregs m' = fregs m \<and> fcw m' = fcw m)"

lemmas piece_simps = any_fstate_simps frun_simps fpu_push_def ended_def

lemma run_float_commuting:
  assumes "stk (core m) = b # a # t" "length (fregs m) \<le> 6" "commutative F"
  shows "ended m (narrow32 F (fcw m) (farith F FADD (fcw m) (float32 a) (float32 b)) # t) (fpieces F (plain_pieces [opc_fld, opc_fadd, opc_fst]) 0 m)"
    "ended m (narrow32 F (fcw m) (farith F FMUL (fcw m) (float32 a) (float32 b)) # t) (fpieces F (plain_pieces [opc_fld, opc_fmul, opc_fst]) 0 m)"
  using assms by (simp_all add: piece_simps commutative_def)

lemma run_float_ordered:
  assumes "stk (core m) = b # a # t" "length (fregs m) \<le> 6"
  shows "ended m (narrow32 F (fcw m) (farith F FSUB (fcw m) (float32 a) (float32 b)) # t) (fpieces F (plain_pieces [opc_fld4, opc_fsub, opc_fst]) 0 m)"
    "ended m (narrow32 F (fcw m) (farith F FDIV (fcw m) (float32 a) (float32 b)) # t) (fpieces F (plain_pieces [opc_fld4, opc_fdiv, opc_fst]) 0 m)"
  using assms by (simp_all add: piece_simps)

lemma run_float_strict:
  assumes "stk (core m) = b # a # t" "length (fregs m) \<le> 6" "commutative F"
  shows "ended m (narrow32 F (fcw m) (scaled F (fcw m) True single_scale_pos (farith F FMUL (fcw m) (float32 a)
       (scaled F (fcw m) True single_scale_neg (float32 b)))) # t)
     (fpieces F (plain_pieces [opc_strict_fprep, opc_fld, opc_strict_fscdown, opc_fmul, opc_strict_fscup, opc_fst, opc_strict_fsettle]) 0 m)"
    "ended m (narrow32 F (fcw m) (scaled F (fcw m) True single_scale_pos (farith F FDIV (fcw m)
       (scaled F (fcw m) True single_scale_neg (float32 a)) (float32 b))) # t)
     (fpieces F (plain_pieces [opc_strict_fprep, opc_fld4, opc_strict_fscdown, opc_fdiv, opc_strict_fscup, opc_fst, opc_strict_fsettle]) 0 m)"
  using assms by (simp_all add: piece_simps commutative_def scaled_def)

lemma run_double_commuting:
  assumes "stk (core m) = lb # hb # la # ha # t" "length (fregs m) \<le> 6" "commutative F"
  shows "ended m (two (narrow64 F (fcw m) (farith F FADD (fcw m) (float64 (dbl ha la)) (float64 (dbl hb lb)))) t)
      (fpieces F (plain_pieces [opc_dld, opc_dadd, opc_dst]) 0 m)"
    "ended m (two (narrow64 F (fcw m) (farith F FMUL (fcw m) (float64 (dbl ha la)) (float64 (dbl hb lb)))) t)
      (fpieces F (plain_pieces [opc_dld, opc_dmul, opc_dst]) 0 m)"
  using assms by (simp_all add: piece_simps commutative_def two_def)

lemma run_double_ordered:
  assumes "stk (core m) = lb # hb # la # ha # t" "length (fregs m) \<le> 6"
  shows "ended m (two (narrow64 F (fcw m) (farith F FSUB (fcw m) (float64 (dbl ha la)) (float64 (dbl hb lb)))) t)
      (fpieces F (plain_pieces [opc_dld8, opc_dsub, opc_dst]) 0 m)"
    "ended m (two (narrow64 F (fcw m) (farith F FDIV (fcw m) (float64 (dbl ha la)) (float64 (dbl hb lb)))) t)
      (fpieces F (plain_pieces [opc_dld8, opc_ddiv, opc_dst]) 0 m)"
  using assms by (simp_all add: piece_simps two_def)

lemma run_double_strict:
  assumes "stk (core m) = lb # hb # la # ha # t" "length (fregs m) \<le> 6" "commutative F"
  shows "ended m (two (narrow64 F (fcw m) (scaled F (fcw m) True double_scale_pos (farith F FMUL (fcw m) (float64 (dbl ha la))
       (scaled F (fcw m) True double_scale_neg (float64 (dbl hb lb)))))) t)
     (fpieces F (plain_pieces [opc_strict_dprep, opc_dld, opc_strict_dscdown, opc_dmul, opc_strict_dscup, opc_dst, opc_strict_dsettle]) 0 m)"
    "ended m (two (narrow64 F (fcw m) (scaled F (fcw m) True double_scale_pos (farith F FDIV (fcw m)
       (scaled F (fcw m) True double_scale_neg (float64 (dbl ha la))) (float64 (dbl hb lb))))) t)
     (fpieces F (plain_pieces [opc_strict_dprep, opc_dld8, opc_strict_dscdown, opc_ddiv, opc_strict_dscup, opc_dst, opc_strict_dsettle]) 0 m)"
  using assms by (simp_all add: piece_simps commutative_def scaled_def two_def)

lemma run_conversion:
  assumes "length (fregs m) \<le> 6"
  shows "stk (core m) = a # t \<Longrightarrow> ended m (narrow32 F (fcw m) (of_integer (sint a)) # t) (fpieces F (plain_pieces [opc_i2f, opc_fst]) 0 m)"
    "stk (core m) = a # t \<Longrightarrow> ended m (two (narrow64 F (fcw m) (of_integer (sint a))) t) (fpieces F (plain_pieces [opc_i2d, opc_dst]) 0 m)"
    "stk (core m) = a # t \<Longrightarrow> ended m (two (narrow64 F (fcw m) (float32 a)) t) (fpieces F (plain_pieces [opc_fld, opc_f2d, opc_dst]) 0 m)"
    "stk (core m) = l # h # t \<Longrightarrow> ended m (narrow32 F (fcw m) (of_integer (sint (dbl h l))) # t) (fpieces F (plain_pieces [opc_l2f, opc_fst]) 0 m)"
    "stk (core m) = l # h # t \<Longrightarrow> ended m (two (narrow64 F (fcw m) (of_integer (sint (dbl h l)))) t) (fpieces F (plain_pieces [opc_l2d, opc_dst]) 0 m)"
    "stk (core m) = l # h # t \<Longrightarrow> ended m (narrow32 F (fcw m) (float64 (dbl h l)) # t) (fpieces F (plain_pieces [opc_dld, opc_d2f, opc_fst]) 0 m)"
  using assms by (simp_all add: piece_simps two_def)

lemma run_frem:
  assumes "stk (core m) = b # a # t" "length (fregs m) \<le> 6"
  shows "ended m (narrow32 F (fcw m) (fmod F (narrow64 F (fcw m) (float32 a)) (narrow64 F (fcw m) (float32 b))) # t)
    (fpieces F (plain_pieces [opc_frem, opc_fst]) 0 m)"
  using assms by (simp add: piece_simps call_def)

lemma run_drem:
  assumes "stack_of st (core m) = lb # hb # la # ha # t" "length (fregs m) \<le> 6" "st = 2 \<or> st = 4"
  shows "ended m (two (narrow64 F (fcw m) (fmod F (dbl ha la) (dbl hb lb))) t) (fpieces F (plain_pieces [opc_drem, opc_dst]) st m)"
  using assms by (auto simp: piece_simps call_def drem_code_def DREM_ST24_def stack_of_def two_def)

lemma fill_piece:
  assumes "st < 5" "stack_of st (core m) = a # b # t"
  obtains c nxt where "fpieces F ((opc_fill_cache, ks) # ps) st m = fpieces F ps nxt (m\<lparr>core := c\<rparr>)" "nxt = 2 \<or> nxt = 4"
    "stack_of nxt c = stack_of st (core m)" "vars c = vars (core m)" "memory c = memory (core m)"
proof (cases "st = 2 \<or> st = 4")
  case True
  then have "ftmpl opc_fill_cache st = Some ([], st)" by (elim disjE; hypsubst; simp add: lift_code_def fill_cache_code_def)
  with True show ?thesis by (intro that [of st "core m"]) simp_all
next
  case False
  with assms(2) five_cases [OF assms(1)] show ?thesis
    by (auto intro: that simp: lift_code_def fill_cache_code_def stack_of_def frun_simps)
qed

lemma ended_core: "ended (m\<lparr>core := c\<rparr>) s r \<Longrightarrow> vars c = vars (core m) \<Longrightarrow> memory c = memory (core m) \<Longrightarrow> ended m s r"
  by (auto simp: ended_def)

lemma flush_ended:
  assumes "st < 5" "\<And>c. stk c = stack_of st (core m) \<Longrightarrow> ended (m\<lparr>core := c\<rparr>) s (fpieces F ps 0 (m\<lparr>core := c\<rparr>))"
  shows "ended m s (fpieces F ((opc_flush_cache, ks) # ps) st m)"
proof -
  from flush_piece [OF assms(1), of F ks ps m] obtain c where c: "fpieces F ((opc_flush_cache, ks) # ps) st m = fpieces F ps 0 (m\<lparr>core := c\<rparr>)"
    "stk c = stack_of st (core m)" "vars c = vars (core m)" "memory c = memory (core m)" .
  from ended_core [OF assms(2) [OF c(2)] c(3,4)] show ?thesis unfolding c(1) .
qed

lemma fill_ended:
  assumes "st < 5" "stack_of st (core m) = a # b # t"
    and "\<And>c nxt. stack_of nxt c = stack_of st (core m) \<Longrightarrow> nxt = 2 \<or> nxt = 4 \<Longrightarrow> ended (m\<lparr>core := c\<rparr>) s (fpieces F ps nxt (m\<lparr>core := c\<rparr>))"
  shows "ended m s (fpieces F ((opc_fill_cache, ks) # ps) st m)"
proof -
  from fill_piece [OF assms(1,2), of F ks ps] obtain c nxt where
    c: "fpieces F ((opc_fill_cache, ks) # ps) st m = fpieces F ps nxt (m\<lparr>core := c\<rparr>)"
    "nxt = 2 \<or> nxt = 4" "stack_of nxt c = stack_of st (core m)" "vars c = vars (core m)" "memory c = memory (core m)" .
  from ended_core [OF assms(3) [OF c(3,2)] c(4,5)] show ?thesis unfolding c(1) .
qed

lemma decomposed:
  "decompose strict opc_fadd = Some ([opc_flush_cache, opc_fld], [opc_fst])"
  "decompose strict opc_fsub = Some ([opc_flush_cache, opc_fld4], [opc_fst])"
  "decompose False opc_fmul = Some ([opc_flush_cache, opc_fld], [opc_fst])"
  "decompose False opc_fdiv = Some ([opc_flush_cache, opc_fld4], [opc_fst])"
  "decompose True opc_fmul = Some ([opc_flush_cache, opc_strict_fprep, opc_fld, opc_strict_fscdown], [opc_strict_fscup, opc_fst, opc_strict_fsettle])"
  "decompose True opc_fdiv = Some ([opc_flush_cache, opc_strict_fprep, opc_fld4, opc_strict_fscdown], [opc_strict_fscup, opc_fst, opc_strict_fsettle])"
  "decompose strict opc_dadd = Some ([opc_flush_cache, opc_dld], [opc_dst])"
  "decompose strict opc_dsub = Some ([opc_flush_cache, opc_dld8], [opc_dst])"
  "decompose False opc_dmul = Some ([opc_flush_cache, opc_dld], [opc_dst])"
  "decompose False opc_ddiv = Some ([opc_flush_cache, opc_dld8], [opc_dst])"
  "decompose True opc_dmul = Some ([opc_flush_cache, opc_strict_dprep, opc_dld, opc_strict_dscdown], [opc_strict_dscup, opc_dst, opc_strict_dsettle])"
  "decompose True opc_ddiv = Some ([opc_flush_cache, opc_strict_dprep, opc_dld8, opc_strict_dscdown], [opc_strict_dscup, opc_dst, opc_strict_dsettle])"
  "decompose strict opc_frem = Some ([opc_flush_cache], [opc_fst])" "decompose strict opc_drem = Some ([opc_fill_cache], [opc_dst])"
  "decompose strict opc_i2f = Some ([opc_flush_cache], [opc_fst])" "decompose strict opc_l2f = Some ([opc_flush_cache], [opc_fst])"
  "decompose strict opc_i2d = Some ([opc_flush_cache], [opc_dst])" "decompose strict opc_l2d = Some ([opc_flush_cache], [opc_dst])"
  "decompose strict opc_f2d = Some ([opc_flush_cache, opc_fld], [opc_dst])" "decompose strict opc_d2f = Some ([opc_flush_cache, opc_dld], [opc_fst])"
  by (simp_all add: decompose_def)

lemma float_op_at:
  "float_op F cw strict opc_fadd = of_floats (\<lambda>a b. narrow32 F cw (farith F FADD cw a b))"
  "float_op F cw strict opc_fsub = of_floats (\<lambda>a b. narrow32 F cw (farith F FSUB cw a b))"
  "float_op F cw strict opc_fmul = of_floats (\<lambda>a b. narrow32 F cw (scaled F cw strict single_scale_pos (farith F FMUL cw a (scaled F cw strict single_scale_neg b))))"
  "float_op F cw strict opc_fdiv = of_floats (\<lambda>a b. narrow32 F cw (scaled F cw strict single_scale_pos (farith F FDIV cw (scaled F cw strict single_scale_neg a) b)))"
  "float_op F cw strict opc_frem = of_floats (\<lambda>a b. narrow32 F cw (fmod F (narrow64 F cw a) (narrow64 F cw b)))"
  "float_op F cw strict opc_dadd = of_doubles (\<lambda>a b. two (narrow64 F cw (farith F FADD cw a b)))"
  "float_op F cw strict opc_dsub = of_doubles (\<lambda>a b. two (narrow64 F cw (farith F FSUB cw a b)))"
  "float_op F cw strict opc_dmul = of_doubles (\<lambda>a b. two (narrow64 F cw (scaled F cw strict double_scale_pos (farith F FMUL cw a (scaled F cw strict double_scale_neg b)))))"
  "float_op F cw strict opc_ddiv = of_doubles (\<lambda>a b. two (narrow64 F cw (scaled F cw strict double_scale_pos (farith F FDIV cw (scaled F cw strict double_scale_neg a) b))))"
  "float_op F cw strict opc_i2f = (\<lambda>s. case s of i # s \<Rightarrow> Some (narrow32 F cw (of_integer (sint i)) # s) | _ \<Rightarrow> None)"
  "float_op F cw strict opc_i2d = (\<lambda>s. case s of i # s \<Rightarrow> Some (two (narrow64 F cw (of_integer (sint i))) s) | _ \<Rightarrow> None)"
  "float_op F cw strict opc_l2f = (\<lambda>s. case s of l # h # s \<Rightarrow> Some (narrow32 F cw (of_integer (sint (dbl h l))) # s) | _ \<Rightarrow> None)"
  "float_op F cw strict opc_l2d = (\<lambda>s. case s of l # h # s \<Rightarrow> Some (two (narrow64 F cw (of_integer (sint (dbl h l)))) s) | _ \<Rightarrow> None)"
  "float_op F cw strict opc_f2d = of_float (\<lambda>v. two (narrow64 F cw v))"
  "float_op F cw strict opc_d2f = of_double (\<lambda>v s. narrow32 F cw v # s)"
  by (simp_all add: float_op_def Let_def)

lemma unscaled: "scaled F cw False b v = v"
  by (simp add: scaled_def)

lemma of_Some:
  "of_floats f s = Some r \<longleftrightarrow> (\<exists>a b t. s = b # a # t \<and> r = f (float32 a) (float32 b) # t)"
  "of_doubles g s = Some r \<longleftrightarrow> (\<exists>lb hb la ha t. s = lb # hb # la # ha # t \<and> r = g (float64 (dbl ha la)) (float64 (dbl hb lb)) t)"
  "of_float k s = Some r \<longleftrightarrow> (\<exists>a t. s = a # t \<and> r = k (float32 a) t)"
  "of_double k s = Some r \<longleftrightarrow> (\<exists>l h t. s = l # h # t \<and> r = k (float64 (dbl h l)) t)"
  "(case s of i # s \<Rightarrow> Some (f1 i s) | _ \<Rightarrow> None) = Some r \<longleftrightarrow> (\<exists>a t. s = a # t \<and> r = f1 a t)"
  "(case s of l # h # s \<Rightarrow> Some (f2 l h s) | _ \<Rightarrow> None) = Some r \<longleftrightarrow> (\<exists>l h t. s = l # h # t \<and> r = f2 l h t)"
  by (auto simp: of_floats_def of_doubles_def of_float_def of_double_def split: list.splits)

lemmas float_runs = run_float_commuting run_float_ordered run_float_strict run_double_commuting run_double_ordered run_double_strict run_conversion
  run_frem

lemma sequence_ended:
  assumes "commutative F" "length (fregs m) \<le> 6"
  shows
    "float_op F (fcw m) strict opc_fadd (stk (core m)) = Some s \<Longrightarrow> ended m s (fpieces F (plain_pieces [opc_fld, opc_fadd, opc_fst]) 0 m)"
    "float_op F (fcw m) strict opc_fsub (stk (core m)) = Some s \<Longrightarrow> ended m s (fpieces F (plain_pieces [opc_fld4, opc_fsub, opc_fst]) 0 m)"
    "float_op F (fcw m) False opc_fmul (stk (core m)) = Some s \<Longrightarrow> ended m s (fpieces F (plain_pieces [opc_fld, opc_fmul, opc_fst]) 0 m)"
    "float_op F (fcw m) False opc_fdiv (stk (core m)) = Some s \<Longrightarrow> ended m s (fpieces F (plain_pieces [opc_fld4, opc_fdiv, opc_fst]) 0 m)"
    "float_op F (fcw m) True opc_fmul (stk (core m)) = Some s \<Longrightarrow> ended m s (fpieces F (plain_pieces [opc_strict_fprep, opc_fld, opc_strict_fscdown, opc_fmul, opc_strict_fscup, opc_fst, opc_strict_fsettle]) 0 m)"
    "float_op F (fcw m) True opc_fdiv (stk (core m)) = Some s \<Longrightarrow> ended m s (fpieces F (plain_pieces [opc_strict_fprep, opc_fld4, opc_strict_fscdown, opc_fdiv, opc_strict_fscup, opc_fst, opc_strict_fsettle]) 0 m)"
    "float_op F (fcw m) strict opc_frem (stk (core m)) = Some s \<Longrightarrow> ended m s (fpieces F (plain_pieces [opc_frem, opc_fst]) 0 m)"
    "float_op F (fcw m) strict opc_dadd (stk (core m)) = Some s \<Longrightarrow> ended m s (fpieces F (plain_pieces [opc_dld, opc_dadd, opc_dst]) 0 m)"
    "float_op F (fcw m) strict opc_dsub (stk (core m)) = Some s \<Longrightarrow> ended m s (fpieces F (plain_pieces [opc_dld8, opc_dsub, opc_dst]) 0 m)"
    "float_op F (fcw m) False opc_dmul (stk (core m)) = Some s \<Longrightarrow> ended m s (fpieces F (plain_pieces [opc_dld, opc_dmul, opc_dst]) 0 m)"
    "float_op F (fcw m) False opc_ddiv (stk (core m)) = Some s \<Longrightarrow> ended m s (fpieces F (plain_pieces [opc_dld8, opc_ddiv, opc_dst]) 0 m)"
    "float_op F (fcw m) True opc_dmul (stk (core m)) = Some s \<Longrightarrow> ended m s (fpieces F (plain_pieces [opc_strict_dprep, opc_dld, opc_strict_dscdown, opc_dmul, opc_strict_dscup, opc_dst, opc_strict_dsettle]) 0 m)"
    "float_op F (fcw m) True opc_ddiv (stk (core m)) = Some s \<Longrightarrow> ended m s (fpieces F (plain_pieces [opc_strict_dprep, opc_dld8, opc_strict_dscdown, opc_ddiv, opc_strict_dscup, opc_dst, opc_strict_dsettle]) 0 m)"
    "float_op F (fcw m) strict opc_i2f (stk (core m)) = Some s \<Longrightarrow> ended m s (fpieces F (plain_pieces [opc_i2f, opc_fst]) 0 m)"
    "float_op F (fcw m) strict opc_i2d (stk (core m)) = Some s \<Longrightarrow> ended m s (fpieces F (plain_pieces [opc_i2d, opc_dst]) 0 m)"
    "float_op F (fcw m) strict opc_f2d (stk (core m)) = Some s \<Longrightarrow> ended m s (fpieces F (plain_pieces [opc_fld, opc_f2d, opc_dst]) 0 m)"
    "float_op F (fcw m) strict opc_l2f (stk (core m)) = Some s \<Longrightarrow> ended m s (fpieces F (plain_pieces [opc_l2f, opc_fst]) 0 m)"
    "float_op F (fcw m) strict opc_l2d (stk (core m)) = Some s \<Longrightarrow> ended m s (fpieces F (plain_pieces [opc_l2d, opc_dst]) 0 m)"
    "float_op F (fcw m) strict opc_d2f (stk (core m)) = Some s \<Longrightarrow> ended m s (fpieces F (plain_pieces [opc_dld, opc_d2f, opc_fst]) 0 m)"
  by (simp only: float_op_at of_Some unscaled, elim exE conjE, hypsubst, rule float_runs, (assumption | rule assms)+)+

lemma unflushed:
  assumes "decompose strict c = Some (pre, post)" "float_op F (fcw m) strict c (stk (core m)) = Some s" "commutative F"
    "length (fregs m) \<le> 6" "c \<noteq> opc_drem"
  shows "ended m s (fpieces F (plain_pieces (tl pre @ c # post)) 0 m)"
  using arith_cases [OF assms(2,5)] assms(1,2)
  apply (elim insertE emptyE)
  apply (hypsubst, cases strict, (simp only: decomposed option.inject prod.inject, elim conjE, hypsubst, simp only: list.sel append.simps,
      rule sequence_ended [OF assms(3,4)], assumption)+)+
  done

lemma float_sequence:
  assumes "decompose strict c = Some (pre, post)" "float_op F (fcw m) strict c (stack_of st (core m)) = Some s" "commutative F"
    "length (fregs m) \<le> 6" "st < 5"
  shows "ended m s (fpieces F (plain_pieces (pre @ c # post)) st m)"
proof (cases "c = opc_drem")
  case True
  with assms(2) obtain lb hb la ha t where s: "stack_of st (core m) = lb # hb # la # ha # t"
    "s = two (narrow64 F (fcw m) (fmod F (dbl ha la) (dbl hb lb))) t"
    by (auto simp: float_op_def Let_def split: list.splits)
  from True assms(1) have "plain_pieces (pre @ c # post) = (opc_fill_cache, []) # plain_pieces [opc_drem, opc_dst]" by (auto simp: decomposed)
  moreover have "ended m s (fpieces F ((opc_fill_cache, []) # plain_pieces [opc_drem, opc_dst]) st m)"
  proof (rule fill_ended [OF assms(5) s(1)])
    fix c :: mach and nxt assume "stack_of nxt c = stack_of st (core m)" "nxt = 2 \<or> nxt = 4"
    with s assms(4) run_drem [of nxt "m\<lparr>core := c\<rparr>" lb hb la ha t F] show
      "ended (m\<lparr>core := c\<rparr>) s (fpieces F (plain_pieces [opc_drem, opc_dst]) nxt (m\<lparr>core := c\<rparr>))" by simp
  qed
  ultimately show ?thesis by (simp only:)
next
  case False
  have pre: "pre = opc_flush_cache # tl pre"
    using arith_cases [OF assms(2) False] assms(1)
    apply (elim insertE emptyE)
    apply (hypsubst, cases strict, (simp only: decomposed option.inject prod.inject, elim conjE, hypsubst, simp only: list.sel)+)+
    done
  have "ended m s (fpieces F ((opc_flush_cache, []) # plain_pieces (tl pre @ c # post)) st m)"
  proof (rule flush_ended [OF assms(5)])
    fix c' :: mach assume "stk c' = stack_of st (core m)"
    with assms show "ended (m\<lparr>core := c'\<rparr>) s (fpieces F (plain_pieces (tl pre @ c # post)) 0 (m\<lparr>core := c'\<rparr>))"
      by (intro unflushed [OF assms(1) _ assms(3) _ False]) simp_all
  qed
  then show ?thesis by (subst pre) (simp del: fpieces.simps)
qed

text \<open>C38: Floating point arithmetic: the internal instructions that the compiler emits for an operation on \<open>float\<close> or
\<open>double\<close>, or for a conversion to one, compute the operation on the operands in their order and leave the rounded result in
their place, from every state of the stack cache; under \<open>strictfp\<close> the first factor or the dividend is scaled down and the
result up again. The stack of the floating point unit is as before. Addition and multiplication take
their operands in the other order, so the unit has to be commutative.\<close>
theorem float_arithmetic:
  assumes "decompose strict c = Some (pre, post)" "float_op F (fcw m) strict c (stack_of st (core m)) = Some s" "commutative F"
    "length (fregs m) \<le> 6" "st < 5"
  shows "\<exists>m'. fpieces F (plain_pieces (pre @ c # post)) st m = (0, FEnd m') \<and> stk (core m') = s \<and> vars (core m') = vars (core m) \<and>
    memory (core m') = memory (core m) \<and> fregs m' = fregs m \<and> fcw m' = fcw m"
  using float_sequence [OF assms] unfolding ended_def .

subsection \<open>Combined instructions\<close>

lemma map_of_lift: "map_of (lift_code c) st = map_option (\<lambda>(is, nxt). (map I is, nxt)) (map_of c st)"
  by (induction c) (auto simp: lift_code_def)

lemma ftmpl_plain:
  "ftmpl opc_iload st = map_of (lift_code iload_code) st" "ftmpl opc_lload st = map_of (lift_code lload_code) st"
  "ftmpl opc_istore st = map_of (lift_code (CODE_ISTORE 0 0 1 0 3)) st" "ftmpl opc_lstore st = map_of (lift_code (CODE_LSTORE 0 0)) st"
  "ftmpl opc_lastore st = map_of (lift_code lastore_code) st"
  by (simp_all add: ftmpl_def ftemplates_def tmpl_def templates_def map_of_lift)

text \<open>C39: A value stored to an array by the combined instruction stays on the stack of the floating point unit when the
index is out of bounds: the exception is raised before the value is popped. The instructions it replaces pop
the value first. When eight such exceptions have been caught, the next load gives a NaN.\<close>
theorem fused_store_keeps_register:
  assumes "stk (core m) = l # h # i # a # t" "fregs m = v # fs" "\<not> unmapped a" "\<not> unmapped (a + 4)"
    "array_length (memory (core m)) a \<le> i"
  shows "(\<exists>m'. fpieces F [(opc_dst_dastore, [])] 0 m = (0, FRaise EXCID_ArrayIndexOutOfBoundsException m') \<and> fregs m' = v # fs \<and>
      (length fs = 7 \<longrightarrow> hd (fregs (fpu_push w m')) = NaN)) \<and>
    (\<exists>st m'. fpieces F (plain_pieces [opc_dst, opc_fill_cache, opc_lastore]) 0 m = (st, FRaise EXCID_ArrayIndexOutOfBoundsException m') \<and>
      fregs m' = fs)"
  using assms by (simp add: dst_dastore_code_def ARRAY_CHECK_def OBJ_LENGTH_def UNHAND_def lastore_code_def CODE_LASTORE_def lift_code_def
    fill_cache_code_def ftmpl_plain any_fstate_def frun_simps checked_def array_length_def fpu_push_def word_le_nat_alt)

definition same_end :: "nat \<times> foutcome \<Rightarrow> nat \<times> foutcome \<Rightarrow> bool" where
  \<comment> \<open>the same state of the virtual machine and of the floating point unit\<close>
  "same_end r r' \<longleftrightarrow> (\<exists>st m st' m'. r = (st, FEnd m) \<and> r' = (st', FEnd m') \<and> stack_of st (core m) = stack_of st' (core m') \<and>
     vars (core m) = vars (core m') \<and> memory (core m) = memory (core m') \<and> fregs m = fregs m' \<and> fcw m = fcw m')"

definition fused_store :: "u32 \<Rightarrow> ((nat \<times> u32 list) list \<times> (nat \<times> u32 list) list) list" where
  \<comment> \<open>the instructions that the peephole optimisation combines, and what it puts in their place\<close>
  "fused_store k =
     [([(opc_fst, []), (opc_istore, [k])], [(opc_fst_fstore, [k])]),
      ([(opc_dst, []), (opc_fill_cache, []), (opc_lstore, [k, k + 4])], [(opc_dst_dstore, [k])])]"

definition fused_load :: "u32 \<Rightarrow> ((nat \<times> u32 list) list \<times> (nat \<times> u32 list) list) list" where
  \<comment> \<open>with the operations that may follow\<close>
  "fused_load k =
     concat (map (\<lambda>ps. [((opc_iload, [k]) # (opc_flush_cache, []) # (opc_fld, []) # ps, (opc_flush_cache, []) # (opc_fload_fld, [k]) # ps)])
       (map plain_pieces [[opc_fadd, opc_fst], [opc_fmul, opc_fst], [opc_f2d, opc_dst]])) @
     concat (map (\<lambda>ps. [((opc_lload, [k, k + 4]) # (opc_flush_cache, []) # (opc_dld, []) # ps, (opc_flush_cache, []) # (opc_dload_dld, [k]) # ps)])
       (map plain_pieces [[opc_dadd, opc_dst], [opc_dmul, opc_dst], [opc_d2f, opc_fst]]))"

lemma fused_stores_same:
  assumes "(plain, fused) \<in> set (fused_store k)" "stk (core m) = a # b # s" "fregs m = v # fs"
  shows "same_end (fpieces F plain 0 m) (fpieces F fused 0 m)"
  using assms by (auto simp: fused_store_def same_end_def ftmpl_plain lift_code_def CODE_ISTORE_def CODE_LSTORE_def fill_cache_code_def stack_of_def
    fst_fstore_code_def dst_dstore_code_def any_fstate_def frun_simps)

lemma fused_loads_same:
  assumes "(plain, fused) \<in> set (fused_load k)" "stack_of st (core m) = a # b # s" "length (fregs m) \<le> 6" "st < 5"
  shows "same_end (fpieces F plain st m) (fpieces F fused st m)"
  using five_cases [OF assms(4)] assms(1-3)
  apply (elim insertE emptyE)
  apply (auto simp: fused_load_def same_end_def ftmpl_plain lift_code_def iload_code_def lload_code_def flush_cache_code_def stack_of_def
    fload_fld_code_def dload_dld_code_def any_fstate_simps frun_simps fpu_push_def)
  done


subsection \<open>A concrete unit\<close>

fun bits :: "nat \<Rightarrow> nat \<Rightarrow> nat" where
  "bits 0 n = 0" | "bits (Suc k) n = (if n = 0 then 0 else Suc (bits k (n div 2)))"

lemma bits_numeral [simp]: "bits (numeral k) n = (if n = 0 then 0 else Suc (bits (pred_numeral k) (n div 2)))"
  by (simp add: numeral_eq_Suc)

definition cut32 :: "fval \<Rightarrow> u32" where
  \<comment> \<open>a normalised number of single precision, cut\<close>
  "cut32 v = (case v of
      Finite s m e \<Rightarrow> (if m = 0 then 0 else
        let n = bits 64 m; f = (if n < 24 then m * 2 ^ (24 - n) else m div 2 ^ (n - 24)) in
        of_int ((if s then 2 ^ 31 else 0) + (e + int n - 24 + 150) * 2 ^ 23 + int (f - 2 ^ 23)))
    | Infinite s \<Rightarrow> (if s then 0xff800000 else 0x7f800000) | NaN \<Rightarrow> 0x7fc00000)"

fun exact_arith :: "farith \<Rightarrow> u16 \<Rightarrow> fval \<Rightarrow> fval \<Rightarrow> fval" where
  "exact_arith FADD cw (Finite s m e) (Finite t n f) =
     (let g = min e f; i = with_sign s m * 2 ^ nat (e - g) + with_sign t n * 2 ^ nat (f - g) in Finite (i < 0) (nat \<bar>i\<bar>) g)"
| "exact_arith FMUL cw (Finite s m e) (Finite t n f) = Finite (s \<noteq> t) (m * n) (e + f)"
| "exact_arith op cw a b = NaN"

definition exact_fpu :: fpu where
  \<comment> \<open>for witnesses: it adds and multiplies without rounding\<close>
  "exact_fpu = \<lparr>narrow32 = (\<lambda>_. cut32), narrow64 = (\<lambda>_ _. 0), farith = exact_arith, fmod = (\<lambda>_ _. NaN), scratch = id\<rparr>"

definition sample_fmach :: "u32 list \<Rightarrow> fmach" where
  "sample_fmach s = \<lparr>core = sample_mach\<lparr>stk := s\<rparr>, fregs = [], fcw = 0x37f, c0 = False, c2 = False, c3 = False, pf = False\<rparr>"

lemma exact_commutative: "commutative exact_fpu"
proof -
  have "exact_arith FADD cw a b = exact_arith FADD cw b a" "exact_arith FMUL cw a b = exact_arith FMUL cw b a" for cw a b
    by (cases a; cases b; auto simp: Let_def min.commute ac_simps)+
  then show ?thesis by (simp add: commutative_def exact_fpu_def)
qed

theorem float_conversions_witness:
  "\<exists>m'. frun exact_fpu [] (fst (the (ftmpl opc_f2i 3))) (sample_fmach [7]\<lparr>core := sample_mach\<lparr>ecx := 0x4f800000\<rparr>\<rparr>) = FEnd m' \<and>
    stack_of 1 (core m') = [0x7fffffff, 7, 9]"
proof -
  let ?m = "sample_fmach [7]\<lparr>core := sample_mach\<lparr>ecx := 0x4f800000\<rparr>\<rparr>"
  obtain "is" where i: "ftmpl opc_f2i 3 = Some (is, 1)" by (simp add: exact_templates f2i_code_def flushed_def flush_cache_code_def)
  have "exact_op opc_f2i (stack_of 3 (core ?m)) = Some [0x7fffffff, 7, 9]"
    by (simp add: exact_op_def stack_of_def sample_fmach_def sample_mach_def of_float_def float32_def ieee_def Let_def to_integer_def truncated_def
      with_sign_def)
  moreover have "length (fregs ?m) < 8" by (simp add: sample_fmach_def)
  ultimately have "\<exists>m'. frun exact_fpu [] is ?m = FEnd m' \<and> stack_of 1 (core m') = [0x7fffffff, 7, 9] \<and> vars (core m') = vars (core ?m) \<and>
      memory (core m') = memory (core ?m) \<and> fregs m' = fregs ?m \<and> fcw m' = fcw ?m" by (rule float_conversions [OF i])
  with i show ?thesis by auto
qed

theorem float_arithmetic_witness:
  "\<exists>m'. fpieces exact_fpu (plain_pieces [opc_flush_cache, opc_fld, opc_fadd, opc_fst]) 0 (sample_fmach [0x3f800000, 0x40000000, 5]) = (0, FEnd m') \<and>
    stk (core m') = [0x40400000, 5]"
proof -
  let ?m = "sample_fmach [0x3f800000, 0x40000000, 5]"
  have f: "float_op exact_fpu (fcw ?m) False opc_fadd (stack_of 0 (core ?m)) = Some [0x40400000, 5]"
    by (simp add: float_op_def Let_def of_floats_def stack_of_def sample_fmach_def float32_def ieee_def exact_fpu_def with_sign_def cut32_def)
  have "length (fregs ?m) \<le> 6" by (simp add: sample_fmach_def)
  from float_arithmetic [OF decomposed(1) f exact_commutative this] show ?thesis by auto
qed

theorem fused_store_keeps_register_witness:
  "\<exists>m'. fpieces exact_fpu [(opc_dst_dastore, [])] 0 (sample_fmach [0, 0, 3, 0x5000]\<lparr>fregs := [NaN]\<rparr>) =
     (0, FRaise EXCID_ArrayIndexOutOfBoundsException m') \<and> fregs m' = [NaN]"
proof -
  let ?m = "sample_fmach [0, 0, 3, 0x5000]\<lparr>fregs := [NaN]\<rparr>"
  have "stk (core ?m) = [0, 0, 3, 0x5000]" "fregs ?m = [NaN]" "\<not> unmapped 0x5000" "\<not> unmapped (0x5000 + 4)"
    "array_length (memory (core ?m)) 0x5000 \<le> 3"
    by (simp_all add: sample_fmach_def sample_mach_def unmapped_def array_length_def word_at_def get32_def)
  from fused_store_keeps_register [OF this] show ?thesis by auto
qed


end
