(* ===== verification/Invoker.thy ===== *)
theory Invoker
  imports CompileMethod
begin

text \<open>
  How methods are invoked across the border between native code and the virtual machine:
  \<open>compileAndInvokeMethod\<close> and \<open>invokeJITCompiledMethod\<close> of \<^verbatim>\<open>invoker.c\<close>, and \<open>invocationHelper\<close> of
  \<^verbatim>\<open>runtime.c\<close>, through which native code invokes everything that is not compiled. Arguments lie on
  the native stack towards lower addresses and on the stack of the virtual machine towards higher ones;
  the functions copy them from one to the other, and the result back through the registers \<open>edx\<close> and \<open>ecx\<close>.

  Both stacks are in one memory of 32-bit words; a pointer to a \<open>stack_item\<close> is the address of its byte
  divided by four. The frames of the virtual machine are a map from their addresses. What is not under
  \<^verbatim>\<open>src/\<close>, the virtual machine and the native code of methods, is the record \<open>world\<close>.
\<close>

subsection \<open>State\<close>

record frame =
  fr_prev :: ptr
  fr_vars :: int
  fr_optop :: int
  fr_method :: ptr
  fr_pc :: ptr \<comment> \<open>\<open>returnpc\<close> and \<open>lastpc\<close>\<close>
  fr_constant_pool :: ptr
  fr_refs_freelist :: ptr \<comment> \<open>the three words of a frame with JNI references\<close>
  fr_refs_in_use :: nat
  fr_refs_capacity :: nat

record jvm =
  vm_of :: vm
  stack_word :: "int \<Rightarrow> u32"
  frames :: "ptr \<Rightarrow> frame"
  current_frame :: ptr \<comment> \<open>\<open>ee->current_frame\<close>\<close>
  native_code :: "ptr \<Rightarrow> ptr" \<comment> \<open>the member \<open>code\<close> of the \<open>CodeInfo\<close> at an address\<close>
  compiler_enabled :: bool
  opt_systhreshold :: int
  opt_userthreshold :: int

record native_result =
  n_eax :: u32
  n_edx :: u32
  n_single :: u32 \<comment> \<open>what \<open>fstps\<close> stores of the floating point result\<close>
  n_double :: "u32 \<times> u32" \<comment> \<open>what \<open>fstpl\<close> stores, the low word first\<close>

record world =
  env_of :: env
  sysThreadCheckStack :: "jvm \<Rightarrow> bool"
  SignalError :: "string \<Rightarrow> jvm \<Rightarrow> jvm"
  expand_javastack :: "jvm \<Rightarrow> ptr \<Rightarrow> int \<Rightarrow> nat \<Rightarrow> nat \<Rightarrow> nat \<Rightarrow> (jvm \<times> ptr \<times> int) option"
    \<comment> \<open>\<open>EXPAND_JAVASTACK\<close>: frame, \<open>optop\<close>, \<open>args_size\<close>, \<open>nlocals\<close>, capacity; \<open>None\<close>: it leaves the function\<close>
  expand_for_native :: "jvm \<Rightarrow> ptr \<Rightarrow> (jvm \<times> ptr) option"
  ostack_of :: "ptr \<Rightarrow> int" \<comment> \<open>\<open>frame->ostack\<close>\<close>
  jni_ref_info_size :: int
  jni_default_capacity :: nat
  alloca :: "jvm \<Rightarrow> nat \<Rightarrow> int"
  local_obj :: int \<comment> \<open>the address of the argument \<open>obj\<close> of \<open>invocationHelper\<close>\<close>
  jni_env :: u32 \<comment> \<open>\<open>EE2JNIEnv(ee)\<close>\<close>
  call_vm_invoker :: "ptr \<Rightarrow> u32 \<Rightarrow> ptr \<Rightarrow> nat \<Rightarrow> jvm \<Rightarrow> bool \<times> jvm" \<comment> \<open>an invoker of the virtual machine\<close>
  ExecuteJava :: "ptr \<Rightarrow> jvm \<Rightarrow> bool \<times> jvm" \<comment> \<open>the interpreter on the code of a method\<close>
  executejava_in_asm :: bool
  run_compiled :: "u32 \<Rightarrow> ptr \<Rightarrow> nat \<Rightarrow> int \<Rightarrow> jvm \<Rightarrow> u32 \<times> u32 \<times> jvm"
    \<comment> \<open>\<open>mb->CompiledCode\<close> on the base of the variables; \<open>edx\<close> and \<open>ecx\<close>\<close>
  run_native :: "ptr \<Rightarrow> u32 list \<Rightarrow> jvm \<Rightarrow> native_result \<times> jvm" \<comment> \<open>a native method on the words pushed\<close>
  native_entry :: "ptr \<Rightarrow> ptr" \<comment> \<open>\<open>method->code\<close> of a native method\<close>
  monitorEnter2 :: "u32 \<Rightarrow> jvm \<Rightarrow> jvm"
  monitorExit2 :: "u32 \<Rightarrow> jvm \<Rightarrow> jvm"
  mangle_class :: "string \<Rightarrow> int \<Rightarrow> string" \<comment> \<open>\<open>mangleUTFString\<close> into a buffer of that size\<close>
  mangle_field :: "string \<Rightarrow> int \<Rightarrow> string"
  symbolInSystemClassLoader :: "string \<Rightarrow> ptr"

abbreviation upd_vm :: "(vm \<Rightarrow> vm) \<Rightarrow> jvm \<Rightarrow> jvm" where
  "upd_vm f s \<equiv> s\<lparr>vm_of := f (vm_of s)\<rparr>"

abbreviation upd_frame :: "ptr \<Rightarrow> (frame \<Rightarrow> frame) \<Rightarrow> jvm \<Rightarrow> jvm" where
  "upd_frame p f s \<equiv> s\<lparr>frames := (frames s)(p := f (frames s p))\<rparr>"

abbreviation info_of :: "ptr \<Rightarrow> jvm \<Rightarrow> CodeInfo" where
  "info_of mb s \<equiv> infos (vm_of s) (CompiledCodeInfo (methods (vm_of s) mb))"

definition byte_addr :: "int \<Rightarrow> u32" where
  "byte_addr p = word_of_int (4 * p)"

definition deref :: "jvm \<Rightarrow> u32 \<Rightarrow> u32" where
  \<comment> \<open>the word at an aligned address\<close>
  "deref s a = stack_word s (uint a div 4)"

subsection \<open>Frames\<close>

definition new_frame :: "world \<Rightarrow> ptr \<Rightarrow> ptr \<Rightarrow> int \<Rightarrow> ptr \<Rightarrow> jvm \<Rightarrow> jvm" where
  \<comment> \<open>\<open>CREATE_JAVAFRAME_1\<close>\<close>
  "new_frame W mb old optop new s =
     upd_frame new (\<lambda>f. f\<lparr>fr_prev := old, fr_vars := optop, fr_optop := ostack_of W new, fr_method := mb,
         fr_pc := code_addr (env_of W) mb\<rparr>) s\<lparr>current_frame := new\<rparr>"

definition create_javaframe :: "world \<Rightarrow> ptr \<Rightarrow> ptr \<Rightarrow> nat \<Rightarrow> nat \<Rightarrow> nat \<Rightarrow> jvm \<Rightarrow> (ptr \<times> jvm) option" where
  "create_javaframe W mb old n nl cap s =
     (let optop = fr_optop (frames s old) in
      map_option (\<lambda>(s, new, optop). (new, new_frame W mb old optop new s))
        (expand_javastack W s (optop + int nl) optop n nl cap))"

definition create_javaframe_for_native :: "world \<Rightarrow> ptr \<Rightarrow> ptr \<Rightarrow> nat \<Rightarrow> jvm \<Rightarrow> (ptr \<times> jvm) option" where
  "create_javaframe_for_native W mb old n s =
     (let optop = fr_optop (frames s old) in
      map_option (\<lambda>(s, new). (new,
          upd_frame new (\<lambda>f. f\<lparr>fr_optop := fr_optop f + jni_ref_info_size W, fr_refs_freelist := NULL,
              fr_refs_in_use := 0, fr_refs_capacity := jni_default_capacity W\<rparr>)
            (new_frame W mb old optop new s)))
        (expand_for_native W s (optop + int n)))"

subsection \<open>Copying arguments\<close>

fun restack2native :: "int list \<Rightarrow> int \<Rightarrow> int \<Rightarrow> (int \<Rightarrow> u32) \<Rightarrow> int \<Rightarrow> u32" where
  \<comment> \<open>\<open>while (*argsizes)\<close>\<close>
  "restack2native [] vars args m = m"
| "restack2native (sz # szs) vars args m =
     (if sz = 0 then m
      else if sz = 1 then restack2native szs (vars - 1) (args + 1) (m(vars := m args))
      else (let m = m(vars - 1 := m args); m = m(vars := m (args + 1))
            in restack2native szs (vars - 2) (args + 2) m))"

fun restack2jvm :: "int list \<Rightarrow> int \<Rightarrow> int \<Rightarrow> (int \<Rightarrow> u32) \<Rightarrow> int \<Rightarrow> u32" where
  "restack2jvm [] sp optop m = m"
| "restack2jvm (sz # szs) sp optop m =
     (if sz = 0 then m
      else if sz = 1 then restack2jvm szs (sp - 1) (optop + 1) (m(optop := m sp))
      else (let m = m(optop := m (sp - 1)); m = m(optop + 1 := m sp)
            in restack2jvm szs (sp - 2) (optop + 2) m))"

subsection \<open>\<open>invokeJITCompiledMethod\<close>\<close>

definition count_invocation :: "ptr \<Rightarrow> jvm \<Rightarrow> jvm" where
  "count_invocation mb s =
     upd_vm (info_upd (CompiledCodeInfo (methods (vm_of s) mb)) (invocation_count_update (\<lambda>n. n + 1))) s"

definition no_exception :: "jvm \<Rightarrow> bool" where
  "no_exception s \<longleftrightarrow> exc_class (vm_of s) = NULL"

definition store_result :: "ptr \<Rightarrow> ptr \<Rightarrow> u32 \<Rightarrow> u32 \<Rightarrow> jvm \<Rightarrow> jvm" where
  \<comment> \<open>the registers go on the operand stack of the caller's frame\<close>
  "store_result mb old edx ecx s =
     (let optop = fr_optop (frames s old);
          s = s\<lparr>stack_word := (stack_word s)(optop := edx, optop + 1 := ecx), current_frame := old\<rparr>
      in upd_frame old (fr_optop_update (\<lambda>p. p + ret_size (info_of mb s))) s)"

definition invokeJITCompiledMethod :: "world \<Rightarrow> u32 \<Rightarrow> ptr \<Rightarrow> nat \<Rightarrow> jvm \<Rightarrow> bool \<times> jvm" where
  "invokeJITCompiledMethod W obj mb n s =
     (if \<not> sysThreadCheckStack W s then (False, SignalError W ''java/lang/StackOverflowError'' s)
      else
        (let s = count_invocation mb s; old = current_frame s; m = methods (vm_of s) mb in
         case create_javaframe W mb old n (nlocals m) (maxstack m) s of
           None \<Rightarrow> (False, s)
         | Some (new, s) \<Rightarrow>
             (let s = upd_frame new (fr_constant_pool_update (\<lambda>_. NULL)) s;
                  var_base = alloca W s (nlocals m * 4) + int (nlocals m) - 1;
                  s = s\<lparr>stack_word := restack2native (argsizes (info_of mb s)) var_base (fr_vars (frames s new)) (stack_word s)\<rparr>;
                  (edx, ecx, s) = run_compiled W obj mb n var_base s;
                  s = store_result mb old edx ecx s
              in (no_exception s, s))))"

subsection \<open>The interpreter\<close>

definition move_result :: "world \<Rightarrow> int \<Rightarrow> int \<Rightarrow> jvm \<Rightarrow> jvm" where
  \<comment> \<open>needed with the interpreter in assembly language: the result goes to the frame of the caller\<close>
  "move_result W retsize old_optop s =
     (if \<not> executejava_in_asm W \<or> retsize = 0 then s
      else
        (let cur = current_frame s; optop = fr_optop (frames s cur); m = stack_word s in
         if retsize = 1 then
           upd_frame cur (fr_optop_update (\<lambda>_. optop + 1)) s\<lparr>stack_word := m(optop := m (old_optop - 1))\<rparr>
         else
           (let m = m(optop := m (old_optop - 2)); m = m(optop + 1 := m (old_optop - 1))
            in upd_frame cur (fr_optop_update (\<lambda>_. optop + 2)) s\<lparr>stack_word := m\<rparr>)))"

definition run_interpreter :: "world \<Rightarrow> ptr \<Rightarrow> int \<Rightarrow> jvm \<Rightarrow> bool \<times> jvm" where
  \<comment> \<open>run the bytecode in the frame the invoker has made, and remove the frame\<close>
  "run_interpreter W mb retsize s =
     (let (ok, s) = ExecuteJava W mb s;
          cur = frames s (current_frame s);
          s = s\<lparr>current_frame := fr_prev cur\<rparr>
      in if \<not> ok then (False, s) else (True, move_result W retsize (fr_optop cur) s))"

subsection \<open>\<open>compileAndInvokeMethod\<close>\<close>

definition starts_with :: "string \<Rightarrow> string \<Rightarrow> bool" where
  \<comment> \<open>\<open>!strncmp(prefix, s, strlen(prefix))\<close>\<close>
  "starts_with pre s \<longleftrightarrow> take (length pre) s = pre"

definition isSystemMethod :: "vm \<Rightarrow> ptr \<Rightarrow> bool" where
  "isSystemMethod v mb =
     (let cname = cb_name (classes v (mb_clazz (methods v mb))) in
      \<not> (\<not> starts_with ''java/'' cname \<and> \<not> starts_with ''sun/'' cname \<and> \<not> starts_with ''javax/'' cname \<and>
         \<not> starts_with ''com/sun/'' cname \<and> \<not> starts_with ''org/omg/'' cname))"

definition too_early :: "ptr \<Rightarrow> jvm \<Rightarrow> bool" where
  \<comment> \<open>lazy compilation\<close>
  "too_early mb s \<longleftrightarrow>
     (let v = vm_of s; count = invocation_count (info_of mb s) in
      \<not> acc (mb_access (methods v mb)) ACC_STRICT \<and>
      (if isSystemMethod v mb then count < opt_systhreshold s else count < opt_userthreshold s))"

definition call_normal_method :: "world \<Rightarrow> u32 \<Rightarrow> ptr \<Rightarrow> nat \<Rightarrow> u16 \<Rightarrow> jvm \<Rightarrow> bool \<times> jvm" where
  \<comment> \<open>the label \<open>candi_call_normal_method\<close>\<close>
  "call_normal_method W obj mb n access s =
     (let (ok, s) = call_vm_invoker W (access2invoker (env_of W) access) obj mb n s in
      if \<not> ok then (False, s)
      else if acc access ACC_ABSTRACT \<or> acc access ACC_NATIVE then (ok, s)
      else run_interpreter W mb (ret_size (info_of mb s)) s)"

definition call_invoker :: "world \<Rightarrow> u32 \<Rightarrow> ptr \<Rightarrow> nat \<Rightarrow> jvm \<Rightarrow> bool \<times> jvm" where
  \<comment> \<open>the label \<open>compilation_done\<close>: \<open>mb->invoker\<close>\<close>
  "call_invoker W obj mb n s =
     (if invoker (methods (vm_of s) mb) = sym_invokeJITCompiledMethod (env_of W)
      then invokeJITCompiledMethod W obj mb n s
      else call_vm_invoker W (invoker (methods (vm_of s) mb)) obj mb n s)"

definition compile_now :: "nat \<Rightarrow> nat \<Rightarrow> world \<Rightarrow> ptr \<Rightarrow> nat \<Rightarrow> u16 \<Rightarrow> jvm \<Rightarrow> fatal + bool \<times> jvm" where
  \<comment> \<open>while the method is compiled it is interpreted, and its arguments are protected on the stack of the caller\<close>
  "compile_now k fuel W mb n access s =
     (let s = upd_vm (set_invoker mb (access2invoker (env_of W) access)) s;
          fp = current_frame s;
          s = upd_frame fp (fr_optop_update (\<lambda>p. p + int n)) s
      in bindE (compileMethod k fuel (env_of W) mb STAGE_DONE (vm_of s)) (\<lambda>(failed, v).
         (let s = upd_frame fp (fr_optop_update (\<lambda>p. p - int n)) s\<lparr>vm_of := v\<rparr> in
          Inr (failed, if failed then upd_vm (set_invoker mb (access2invoker (env_of W) access)) s else s))))"

definition compileAndInvokeMethod :: "nat \<Rightarrow> nat \<Rightarrow> world \<Rightarrow> u32 \<Rightarrow> ptr \<Rightarrow> nat \<Rightarrow> jvm \<Rightarrow> fatal + bool \<times> jvm" where
  "compileAndInvokeMethod k fuel W obj mb n s =
     (if \<not> sysThreadCheckStack W s then Inr (False, SignalError W ''java/lang/StackOverflowError'' s)
      else
        (let access = mb_access (methods (vm_of s) mb);
             s = count_invocation mb s;
             ivk = invoker (methods (vm_of s) mb)
         in if ivk = sym_invokeJITCompiledMethod (env_of W) then Inr (call_invoker W obj mb n s)
            else if ivk \<noteq> sym_compileAndInvokeMethod (env_of W) \<or> \<not> compiler_enabled s
            then Inr (call_normal_method W obj mb n access s)
            else if too_early mb s then Inr (call_normal_method W obj mb n access s)
            else bindE (compile_now k fuel W mb n access s) (\<lambda>(failed, s).
                   Inr (if failed then call_normal_method W obj mb n access s else call_invoker W obj mb n s))))"

subsection \<open>Native methods\<close>

fun native_args :: "bool \<Rightarrow> (int \<Rightarrow> u32) \<Rightarrow> nat list \<Rightarrow> int \<Rightarrow> (u32 list \<times> nat list) option" where
  \<comment> \<open>the loops \<open>jniarg_loop\<close>, where a reference is passed by its address, and \<open>nmiarg_loop\<close>: the words
      pushed, and what follows in \<open>terse_sig\<close>\<close>
  "native_args jni m [] esi = None"
| "native_args jni m (t # ts) esi =
     (if t = 0 \<or> t = TERSE_SIG_VOID \<or> t = TERSE_SIG_ENDFUNC then Some ([], ts)
      else if TERSE_SIG_ENDFUNC < t then None \<comment> \<open>behind the end of the table\<close>
      else if t = TERSE_SIG_LONG \<or> t = TERSE_SIG_DOUBLE then
        map_option (\<lambda>(ws, r). (m (esi - 1) # m esi # ws, r)) (native_args jni m ts (esi - 2))
      else
        (let w = (if jni \<and> t = TERSE_SIG_OBJECT \<and> m esi \<noteq> 0 then byte_addr esi else m esi)
         in map_option (\<lambda>(ws, r). (w # ws, r)) (native_args jni m ts (esi - 1))))"

definition store_native :: "bool \<Rightarrow> nat \<Rightarrow> int \<Rightarrow> native_result \<Rightarrow> jvm \<Rightarrow> (int \<times> jvm) option" where
  \<comment> \<open>\<open>jniret_table\<close> and \<open>nmiret_table\<close>: the new \<open>optop\<close>\<close>
  "store_native jni t optop r s =
     (let put = (\<lambda>w. s\<lparr>stack_word := (stack_word s)(optop := w)\<rparr>);
          put2 = (\<lambda>lo hi. s\<lparr>stack_word := (stack_word s)(optop := lo, optop + 1 := hi)\<rparr>)
      in if t = 0 \<or> t = TERSE_SIG_ENDFUNC then Some (uint (n_eax r) div 4, s)
         else if t = TERSE_SIG_OBJECT then
           Some (optop + 1, put (if jni \<and> n_eax r \<noteq> 0 then deref s (n_eax r) else n_eax r))
         else if t = TERSE_SIG_LONG then Some (optop + 2, put2 (n_eax r) (n_edx r))
         else if t = TERSE_SIG_DOUBLE then Some (optop + 2, put2 (fst (n_double r)) (snd (n_double r)))
         else if t = TERSE_SIG_FLOAT then Some (optop + 1, put (n_single r))
         else if t = TERSE_SIG_VOID then Some (optop, s)
         else if t < TERSE_SIG_ENDFUNC then Some (optop + 1, put (n_eax r))
         else None)"

subsection \<open>\<open>invocationHelper\<close>\<close>

type_synonym helped = "(u32 \<times> u32) option \<times> jvm"
  \<comment> \<open>\<open>edx\<close> and \<open>ecx\<close>, unless the function returns without setting them\<close>

definition invhelper_finish :: "int \<Rightarrow> jvm \<Rightarrow> helped" where
  "invhelper_finish retsize s =
     (let fp = current_frame s; s = upd_frame fp (fr_optop_update (\<lambda>p. p - retsize)) s;
          optop = fr_optop (frames s fp)
      in (Some (stack_word s optop, stack_word s (optop + 1)), s))"

definition native_done :: "ptr \<Rightarrow> int \<Rightarrow> int \<Rightarrow> jvm \<Rightarrow> helped" where
  \<comment> \<open>the result is on the stack only if no exception has occurred\<close>
  "native_done old optop retsize s =
     (if no_exception s then invhelper_finish retsize (upd_frame old (fr_optop_update (\<lambda>_. optop)) s) else (None, s))"

abbreviation is_static :: "ptr \<Rightarrow> jvm \<Rightarrow> bool" where
  "is_static mb s \<equiv> acc (mb_access (methods (vm_of s) mb)) ACC_STATIC"

abbreviation is_sync :: "ptr \<Rightarrow> jvm \<Rightarrow> bool" where
  "is_sync mb s \<equiv> acc (mb_access (methods (vm_of s) mb)) ACC_SYNCHRONIZED"

definition jni_words :: "world \<Rightarrow> bool \<Rightarrow> nat list \<Rightarrow> int \<Rightarrow> jvm \<Rightarrow> (u32 list \<times> nat list) option" where
  \<comment> \<open>the environment, the address of the class or of the receiver, and the arguments\<close>
  "jni_words W static sig var_base s =
     (let self = (if static then byte_addr (local_obj W) else byte_addr var_base);
          esi = (if static then var_base else var_base - 1)
      in map_option (\<lambda>(ws, r). (jni_env W # self # ws, r)) (native_args True (stack_word s) sig esi))"

definition nmi_words :: "u32 \<Rightarrow> bool \<Rightarrow> nat list \<Rightarrow> int \<Rightarrow> jvm \<Rightarrow> (u32 list \<times> nat list) option" where
  "nmi_words obj static sig var_base s =
     (let self = (if static then 0 else obj);
          esi = (if static then var_base else var_base - 1)
      in map_option (\<lambda>(ws, r). (self # ws, r)) (native_args False (stack_word s) sig esi))"

definition is_jni :: "world \<Rightarrow> ptr \<Rightarrow> bool" where
  "is_jni W ivk \<longleftrightarrow> (let E = env_of W in
     ivk = sym_invokeJNINativeMethod E \<or> ivk = sym_invokeJNISynchronizedNativeMethod E \<or>
     (sym_invokeJNI_min E \<le> ivk \<and> ivk \<le> sym_invokeJNI_max E))"

definition is_nmi :: "world \<Rightarrow> ptr \<Rightarrow> bool" where
  "is_nmi W ivk \<longleftrightarrow> ivk = sym_invokeNativeMethod (env_of W) \<or> ivk = sym_invokeSynchronizedNativeMethod (env_of W)"

definition invoke_jni :: "world \<Rightarrow> u32 \<Rightarrow> ptr \<Rightarrow> nat \<Rightarrow> int \<Rightarrow> int \<Rightarrow> jvm \<Rightarrow> helped option" where
  \<comment> \<open>\<open>None\<close>: a jump through a table with an index behind its end\<close>
  "invoke_jni W obj mb n var_base retsize s =
     (let old = current_frame s; optop = fr_optop (frames s old);
          static = is_static mb s; lock = is_sync mb s; sig = terse_sig (info_of mb s) in
      case create_javaframe_for_native W mb old n s of
        None \<Rightarrow> Some (None, s)
      | Some (new, s) \<Rightarrow>
          (let s = (if lock then monitorEnter2 W obj s else s) in
           case jni_words W static sig var_base s of
             Some (ws, t # _) \<Rightarrow>
               (let (r, s) = run_native W (native_entry W mb) ws s in
                map_option (\<lambda>(optop, s). (let s = s\<lparr>current_frame := old\<rparr> in
                    native_done old optop retsize (if lock then monitorExit2 W obj s else s)))
                  (store_native True t optop r s))
           | _ \<Rightarrow> None))"

definition nmi_name :: "world \<Rightarrow> ptr \<Rightarrow> jvm \<Rightarrow> string" where
  "nmi_name W mb s =
     (let m = methods (vm_of s) mb;
          c = mangle_class W (cb_name (classes (vm_of s) (mb_clazz m))) 300;
          limit = 300 - int (length c);
          c = (if 1 < limit then c @ ''_'' else c)
      in c @ mangle_field W (mb_name m) (300 - int (length c)))"

definition nmi_code :: "world \<Rightarrow> ptr \<Rightarrow> jvm \<Rightarrow> ptr \<times> jvm" where
  \<comment> \<open>the address of the function, looked up at the first call\<close>
  "nmi_code W mb s =
     (let info = CompiledCodeInfo (methods (vm_of s) mb) in
      if native_code s info \<noteq> NULL then (native_code s info, s)
      else (let code = symbolInSystemClassLoader W (nmi_name W mb s) in
            (code, if code = NULL then s else s\<lparr>native_code := (native_code s)(info := code)\<rparr>)))"

definition invoke_nmi :: "world \<Rightarrow> u32 \<Rightarrow> ptr \<Rightarrow> ptr \<Rightarrow> int \<Rightarrow> int \<Rightarrow> jvm \<Rightarrow> helped option" where
  "invoke_nmi W obj mb code var_base retsize s =
     (let old = current_frame s; optop = fr_optop (frames s old);
          static = is_static mb s; lock = is_sync mb s; sig = terse_sig (info_of mb s);
          s = (if lock then monitorEnter2 W obj s else s) in
      case nmi_words obj static sig var_base s of
        Some (ws, t # _) \<Rightarrow>
          (let (r, s) = run_native W code ws s in
           map_option (\<lambda>(optop, s). native_done old optop retsize (if lock then monitorExit2 W obj s else s))
             (store_native False t optop r s))
      | _ \<Rightarrow> None)"

definition CALL_INVOKER :: "nat \<Rightarrow> nat \<Rightarrow> world \<Rightarrow> ptr \<Rightarrow> u32 \<Rightarrow> ptr \<Rightarrow> nat \<Rightarrow> jvm \<Rightarrow> fatal + bool \<times> jvm" where
  "CALL_INVOKER k fuel W ivk obj mb n s =
     (if ivk = sym_invokeJITCompiledMethod (env_of W) then Inr (invokeJITCompiledMethod W obj mb n s)
      else if ivk = sym_compileAndInvokeMethod (env_of W) then compileAndInvokeMethod k fuel W obj mb n s
      else Inr (call_vm_invoker W ivk obj mb n s))"

definition invoke_via_invoker :: "nat \<Rightarrow> nat \<Rightarrow> world \<Rightarrow> u32 \<Rightarrow> ptr \<Rightarrow> nat \<Rightarrow> int \<Rightarrow> int \<Rightarrow> jvm \<Rightarrow> fatal + helped" where
  "invoke_via_invoker k fuel W obj mb n var_base retsize s =
     (let ivk = invoker (methods (vm_of s) mb);
          s = s\<lparr>stack_word := restack2jvm (argsizes (info_of mb s)) var_base (fr_optop (frames s (current_frame s))) (stack_word s)\<rparr>
      in bindE (CALL_INVOKER k fuel W ivk obj mb n s) (\<lambda>(ok, s).
         if \<not> ok then Inr (None, s)
         else if ivk = sym_invokeJavaMethod (env_of W) \<or> ivk = sym_invokeSynchronizedJavaMethod (env_of W) then
           (let (ok, s) = run_interpreter W mb retsize s in Inr (if ok then invhelper_finish retsize s else (None, s)))
         else Inr (invhelper_finish retsize s)))"

definition invocationHelper :: "nat \<Rightarrow> nat \<Rightarrow> world \<Rightarrow> u32 \<Rightarrow> ptr \<Rightarrow> nat \<Rightarrow> int \<Rightarrow> jvm \<Rightarrow> (fatal + helped) option" where
  "invocationHelper k fuel W obj mb n var_base s =
     (let ivk = invoker (methods (vm_of s) mb); retsize = ret_size (info_of mb s) in
      if is_jni W ivk then map_option Inr (invoke_jni W obj mb n var_base retsize s)
      else if is_nmi W ivk then
        (let (code, s) = nmi_code W mb s in
         if code = NULL then Some (invoke_via_invoker k fuel W obj mb n var_base retsize s)
         else map_option Inr (invoke_nmi W obj mb code var_base retsize s))
      else Some (invoke_via_invoker k fuel W obj mb n var_base retsize s))"

subsection \<open>The order of the words on the two stacks\<close>

fun slots :: "int list \<Rightarrow> nat list" where
  \<comment> \<open>for every word on the stack of the virtual machine its distance from the top on the native stack\<close>
  "slots [] = []"
| "slots (sz # szs) =
     (if sz = 0 then [] else if sz = 1 then 0 # map Suc (slots szs) else 1 # 0 # map (\<lambda>k. Suc (Suc k)) (slots szs))"

definition apart :: "int \<Rightarrow> int \<Rightarrow> nat \<Rightarrow> bool" where
  \<comment> \<open>\<open>n\<close> words downwards from \<open>sp\<close> and \<open>n\<close> words upwards from \<open>p\<close>\<close>
  "apart sp p n \<longleftrightarrow> sp < p \<or> p + int n \<le> sp - int n + 1"

lemma sizes_cases [case_names zero one two]:
  fixes sz :: int
  obtains "sz = 0" | "sz = 1" | "sz \<noteq> 0" "sz \<noteq> 1"
  by blast

lemma nat_cases2 [case_names zero one more]:
  obtains "i = 0" | "i = Suc 0" | k where "i = Suc (Suc k)"
  by (metis not0_implies_Suc)

lemma slots_range: "set (slots szs) = {0..<length (slots szs)}"
proof (induction szs)
  case (Cons sz szs)
  have "Suc ` {0..<n} = {Suc 0..<Suc n}" "(\<lambda>k. Suc (Suc k)) ` {0..<n} = {Suc (Suc 0)..<Suc (Suc n)}" for n :: nat
    by (simp_all only: image_Suc_atLeastLessThan image_image [symmetric])
  with Cons show ?case by auto
qed simp

lemma slots_less: "i < length (slots szs) \<Longrightarrow> slots szs ! i < length (slots szs)"
  using slots_range [of szs] nth_mem by fastforce

lemma slots_swap: "i < length (slots szs) \<Longrightarrow> slots szs ! (slots szs ! i) = i"
proof (induction szs arbitrary: i)
  case (Cons sz szs)
  show ?case
  proof (cases sz rule: sizes_cases)
    case one
    with Cons show ?thesis by (cases i) (auto simp: slots_less)
  next
    case two
    then show ?thesis using Cons by (cases i rule: nat_cases2) (auto simp: slots_less)
  qed (use Cons in simp)
qed simp

lemma restack2jvm_other:
  "\<not> (optop \<le> a \<and> a < optop + int (length (slots szs))) \<Longrightarrow> restack2jvm szs sp optop m a = m a"
proof (induction szs arbitrary: sp optop m)
  case (Cons sz szs)
  show ?case by (cases sz rule: sizes_cases) (use Cons in \<open>auto simp: Let_def\<close>)
qed simp

lemma restack2native_other:
  "\<not> (vars - int (length (slots szs)) < a \<and> a \<le> vars) \<Longrightarrow> restack2native szs vars args m a = m a"
proof (induction szs arbitrary: vars args m)
  case (Cons sz szs)
  show ?case by (cases sz rule: sizes_cases) (use Cons in \<open>auto simp: Let_def\<close>)
qed simp

lemma restack2jvm_word:
  assumes "apart sp optop (length (slots szs))" "i < length (slots szs)"
  shows "restack2jvm szs sp optop m (optop + int i) = m (sp - int (slots szs ! i))"
  using assms
proof (induction szs arbitrary: sp optop m i)
  case (Cons sz szs)
  show ?case
  proof (cases sz rule: sizes_cases)
    case one
    show ?thesis
    proof (cases i)
      case 0
      with one show ?thesis by (simp add: restack2jvm_other)
    next
      case (Suc k)
      from Cons.prems one Suc have "apart (sp - 1) (optop + 1) (length (slots szs))" "k < length (slots szs)"
        by (auto simp: apart_def)
      from Cons.IH [OF this, of "m(optop := m sp)"] Cons.prems one Suc slots_less [OF this(2)]
      show ?thesis by (auto simp: apart_def fun_upd_def algebra_simps)
    qed
  next
    case two
    show ?thesis
    proof (cases i rule: nat_cases2)
      case (more k)
      from Cons.prems two more have "apart (sp - 2) (optop + 2) (length (slots szs))" "k < length (slots szs)"
        by (auto simp: apart_def)
      from Cons.IH [OF this, of "m(optop := m (sp - 1), optop + 1 := m sp)"] Cons.prems two more slots_less [OF this(2)]
      show ?thesis by (auto simp: apart_def Let_def fun_upd_def algebra_simps)
    qed (use Cons.prems two in \<open>auto simp: restack2jvm_other Let_def apart_def\<close>)
  qed (use Cons.prems in simp)
qed simp

lemma restack2native_word:
  assumes "apart vars args (length (slots szs))" "i < length (slots szs)"
  shows "restack2native szs vars args m (vars - int i) = m (args + int (slots szs ! i))"
  using assms
proof (induction szs arbitrary: vars args m i)
  case (Cons sz szs)
  show ?case
  proof (cases sz rule: sizes_cases)
    case one
    show ?thesis
    proof (cases i)
      case 0
      with one show ?thesis by (simp add: restack2native_other)
    next
      case (Suc k)
      from Cons.prems one Suc have "apart (vars - 1) (args + 1) (length (slots szs))" "k < length (slots szs)"
        by (auto simp: apart_def)
      from Cons.IH [OF this, of "m(vars := m args)"] Cons.prems one Suc slots_less [OF this(2)]
      show ?thesis by (auto simp: apart_def fun_upd_def algebra_simps)
    qed
  next
    case two
    show ?thesis
    proof (cases i rule: nat_cases2)
      case (more k)
      from Cons.prems two more have "apart (vars - 2) (args + 2) (length (slots szs))" "k < length (slots szs)"
        by (auto simp: apart_def)
      from Cons.IH [OF this, of "m(vars - 1 := m args, vars := m (args + 1))"] Cons.prems two more slots_less [OF this(2)]
      show ?thesis by (auto simp: apart_def Let_def fun_upd_def algebra_simps)
    qed (use Cons.prems two in \<open>auto simp: restack2native_other Let_def apart_def\<close>)
  qed (use Cons.prems in simp)
qed simp

lemma restack_inverse:
  assumes "apart sp optop (length (slots szs))" "apart vars optop (length (slots szs))" "i < length (slots szs)"
  shows "restack2native szs vars optop (restack2jvm szs sp optop m) (vars - int i) = m (sp - int i)"
  using restack2native_word [OF assms(2,3)] restack2jvm_word [OF assms(1) slots_less [OF assms(3)]]
  by (simp add: slots_swap assms(3))

subsection \<open>Calls of compiled methods\<close>

definition stack_room :: "world \<Rightarrow> bool" where
  \<comment> \<open>neither stack overflows, and no new piece of stack is needed\<close>
  "stack_room W \<longleftrightarrow> (\<forall>s. sysThreadCheckStack W s) \<and> (\<forall>s p optop n nl cap. expand_javastack W s p optop n nl cap = Some (s, p, optop))"

definition callee_base :: "world \<Rightarrow> int \<Rightarrow> ptr \<Rightarrow> jvm \<Rightarrow> int" where
  \<comment> \<open>the base of the variables, if the block on the native stack starts at \<open>B\<close>\<close>
  "callee_base W B mb s = B + int (nlocals (methods (vm_of s) mb)) - 1"

definition entry_state :: "world \<Rightarrow> int \<Rightarrow> ptr \<Rightarrow> jvm \<Rightarrow> jvm" where
  \<comment> \<open>the state in which the native code starts\<close>
  "entry_state W B mb s =
     (let old = current_frame s; optop = fr_optop (frames s old); new = optop + int (nlocals (methods (vm_of s) mb));
          t = upd_frame new (fr_constant_pool_update (\<lambda>_. NULL)) (new_frame W mb old optop new (count_invocation mb s))
      in t\<lparr>stack_word := restack2native (argsizes (info_of mb s)) (callee_base W B mb s) optop (stack_word s)\<rparr>)"

lemma count_invocation_simps [simp]:
  "stack_word (count_invocation mb s) = stack_word s" "frames (count_invocation mb s) = frames s"
  "current_frame (count_invocation mb s) = current_frame s"
  "methods (vm_of (count_invocation mb s)) = methods (vm_of s)"
  "classes (vm_of (count_invocation mb s)) = classes (vm_of s)"
  "argsizes (infos (vm_of (count_invocation mb s)) p) = argsizes (infos (vm_of s) p)"
  "ret_size (infos (vm_of (count_invocation mb s)) p) = ret_size (infos (vm_of s) p)"
  "info_cc (infos (vm_of (count_invocation mb s)) p) = info_cc (infos (vm_of s) p)"
  "exc_class (vm_of (count_invocation mb s)) = exc_class (vm_of s)"
  "next_addr (vm_of (count_invocation mb s)) = next_addr (vm_of s)"
  "compiler_enabled (count_invocation mb s) = compiler_enabled s"
  "opt_systhreshold (count_invocation mb s) = opt_systhreshold s"
  "opt_userthreshold (count_invocation mb s) = opt_userthreshold s"
  by (simp_all add: count_invocation_def)

lemma new_frame_simps [simp]:
  "vm_of (new_frame W mb old optop new s) = vm_of s" "stack_word (new_frame W mb old optop new s) = stack_word s"
  "fr_vars (frames (new_frame W mb old optop new s) new) = optop"
  "p \<noteq> new \<Longrightarrow> frames (new_frame W mb old optop new s) p = frames s p"
  by (simp_all add: new_frame_def)

lemma invoke_compiled:
  assumes "stack_room W" "\<And>t k. alloca W t k = B"
  shows "invokeJITCompiledMethod W obj mb n s =
    (let (edx, ecx, t) = run_compiled W obj mb n (callee_base W B mb s) (entry_state W B mb s);
         t = store_result mb (current_frame s) edx ecx t
     in (no_exception t, t))"
  using assms
  by (simp add: invokeJITCompiledMethod_def create_javaframe_def stack_room_def entry_state_def callee_base_def Let_def)

lemma store_result_simps [simp]:
  "current_frame (store_result mb old edx ecx s) = old"
  "vm_of (store_result mb old edx ecx s) = vm_of s"
  "fr_optop (frames (store_result mb old edx ecx s) old) = fr_optop (frames s old) + ret_size (info_of mb s)"
  "stack_word (store_result mb old edx ecx s) (fr_optop (frames s old)) = edx"
  "stack_word (store_result mb old edx ecx s) (fr_optop (frames s old) + 1) = ecx"
  "no_exception (store_result mb old edx ecx s) = no_exception s"
  by (simp_all add: store_result_def no_exception_def Let_def)

lemma finish_stored:
  "invhelper_finish (ret_size (info_of mb t)) (store_result mb old edx ecx t) =
     (Some (edx, ecx), upd_frame old (fr_optop_update (\<lambda>p. p - ret_size (info_of mb t))) (store_result mb old edx ecx t))"
  by (simp add: invhelper_finish_def Let_def)

definition arg_words :: "ptr \<Rightarrow> jvm \<Rightarrow> nat" where
  "arg_words mb s = length (slots (argsizes (info_of mb s)))"

lemma entry_variables:
  assumes "apart sp (fr_optop (frames s (current_frame s))) (arg_words mb s)"
    "apart (callee_base W B mb s) (fr_optop (frames s (current_frame s))) (arg_words mb s)" "i < arg_words mb s"
  shows "stack_word (entry_state W B mb (s\<lparr>stack_word := restack2jvm (argsizes (info_of mb s)) sp
           (fr_optop (frames s (current_frame s))) (stack_word s)\<rparr>)) (callee_base W B mb s - int i) = stack_word s (sp - int i)"
  using restack_inverse [OF assms [unfolded arg_words_def]] by (simp add: entry_state_def callee_base_def Let_def)

definition invokers_differ :: "world \<Rightarrow> bool" where
  "invokers_differ W \<longleftrightarrow> (let E = env_of W; j = sym_invokeJITCompiledMethod E in
     \<not> is_jni W j \<and> \<not> is_nmi W j \<and> j \<noteq> sym_invokeJavaMethod E \<and> j \<noteq> sym_invokeSynchronizedJavaMethod E)"

lemma helper_on_compiled:
  assumes "invoker (methods (vm_of s) mb) = sym_invokeJITCompiledMethod (env_of W)" "invokers_differ W"
  shows "invocationHelper k fuel W obj mb n var_base s =
    (let s1 = s\<lparr>stack_word := restack2jvm (argsizes (info_of mb s)) var_base (fr_optop (frames s (current_frame s))) (stack_word s)\<rparr>;
         (ok, t) = invokeJITCompiledMethod W obj mb n s1
     in Some (Inr (if ok then invhelper_finish (ret_size (info_of mb s)) t else (None, t))))"
  using assms by (simp add: invocationHelper_def invoke_via_invoker_def CALL_INVOKER_def invokers_differ_def Let_def split: prod.split)

text \<open>C29: Native code that invokes a compiled method through \<open>invocationHelper\<close> does not notice the detour over
the stack of the virtual machine. The method finds in its variables the words the caller has pushed, however its
one-word and two-word arguments are mixed, the registers come back as it has left them, and the frame of the
caller is current again with its stack as it was. If the method leaves an exception the registers are not set,
and the stack of the frame stays raised by the size of the result.\<close>
theorem compiled_method_called:
  assumes callee: "invoker (methods (vm_of s) mb) = sym_invokeJITCompiledMethod (env_of W)"
    and W: "invokers_differ W" "stack_room W" "\<And>t j. alloca W t j = B"
    and apart: "apart var_base (fr_optop (frames s (current_frame s))) (arg_words mb s)"
      "apart (callee_base W B mb s) (fr_optop (frames s (current_frame s))) (arg_words mb s)"
    and frame: "fr_optop (frames s (current_frame s)) + int (nlocals (methods (vm_of s) mb)) \<noteq> current_frame s"
    and body: "\<And>t. \<exists>edx ecx u. run_compiled W obj mb n (callee_base W B mb s) t = (edx, ecx, u) \<and>
      fr_optop (frames u (current_frame s)) = fr_optop (frames t (current_frame s)) \<and>
      ret_size (info_of mb u) = ret_size (info_of mb t)"
  shows "\<exists>t edx ecx u r u'.
    run_compiled W obj mb n (callee_base W B mb s) t = (edx, ecx, u) \<and>
    (\<forall>i < arg_words mb s. stack_word t (callee_base W B mb s - int i) = stack_word s (var_base - int i)) \<and>
    no_exception t = no_exception s \<and>
    invocationHelper k fuel W obj mb n var_base s = Some (Inr (r, u')) \<and>
    r = (if no_exception u then Some (edx, ecx) else None) \<and> current_frame u' = current_frame s \<and>
    fr_optop (frames u' (current_frame s)) =
      fr_optop (frames s (current_frame s)) + (if no_exception u then 0 else ret_size (info_of mb s))"
proof -
  let ?old = "current_frame s"
  let ?s1 = "s\<lparr>stack_word := restack2jvm (argsizes (info_of mb s)) var_base (fr_optop (frames s ?old)) (stack_word s)\<rparr>"
  let ?t = "entry_state W B mb ?s1"
  obtain edx ecx u where run: "run_compiled W obj mb n (callee_base W B mb s) ?t = (edx, ecx, u)"
    and u: "fr_optop (frames u ?old) = fr_optop (frames ?t ?old)" "ret_size (info_of mb u) = ret_size (info_of mb ?t)"
    using body by blast
  have t: "fr_optop (frames ?t ?old) = fr_optop (frames s ?old)" "ret_size (info_of mb ?t) = ret_size (info_of mb s)"
    using frame by (simp_all add: entry_state_def Let_def new_frame_def count_invocation_def)
  let ?r = "store_result mb ?old edx ecx u"
  have call: "invokeJITCompiledMethod W obj mb n ?s1 = (no_exception u, ?r)"
    using run by (simp add: invoke_compiled [OF W(2,3)] callee_base_def)
  have "invocationHelper k fuel W obj mb n var_base s =
      Some (Inr (if no_exception u then invhelper_finish (ret_size (info_of mb u)) ?r else (None, ?r)))"
    using u(2) t(2) by (simp add: helper_on_compiled [OF callee W(1)] call Let_def)
  also have "\<dots> = Some (Inr (if no_exception u then Some (edx, ecx) else None,
      if no_exception u then upd_frame ?old (fr_optop_update (\<lambda>p. p - ret_size (info_of mb u))) ?r else ?r))"
    by (simp add: finish_stored)
  finally have result: "invocationHelper k fuel W obj mb n var_base s = Some (Inr (if no_exception u then Some (edx, ecx) else None,
      if no_exception u then upd_frame ?old (fr_optop_update (\<lambda>p. p - ret_size (info_of mb u))) ?r else ?r))"
    (is "_ = Some (Inr (?regs, ?u'))") .
  have "current_frame ?u' = ?old" "fr_optop (frames ?u' ?old) = fr_optop (frames s ?old) + (if no_exception u then 0 else ret_size (info_of mb s))"
    using u t by simp_all
  moreover have "no_exception ?t = no_exception s" by (simp add: entry_state_def no_exception_def Let_def)
  ultimately show ?thesis using run entry_variables [OF apart] result by blast
qed

subsection \<open>Calls of JNI methods\<close>

primrec is_reference :: "jtype \<Rightarrow> bool" where
  "is_reference TBoolean = False" | "is_reference TByte = False" | "is_reference TShort = False"
| "is_reference TChar = False" | "is_reference TInt = False" | "is_reference TFloat = False"
| "is_reference TDouble = False" | "is_reference TLong = False"
| "is_reference (TClass c) = True" | "is_reference (TArray t) = True"

fun jni_parameters :: "(int \<Rightarrow> u32) \<Rightarrow> int \<Rightarrow> jtype list \<Rightarrow> u32 list" where
  \<comment> \<open>what the calling convention of JNI wants for arguments on the native stack from \<open>sp\<close> downwards: references by
      their address, \<open>NULL\<close> as \<open>0\<close>, two-word values with the low word first\<close>
  "jni_parameters m sp [] = []"
| "jni_parameters m sp (t # ts) =
     (if is_reference t then [if m sp = 0 then 0 else byte_addr sp]
      else if words t = 2 then [m (sp - 1), m sp] else [m sp]) @ jni_parameters m (sp - words t) ts"

fun jni_value :: "jtype option \<Rightarrow> native_result \<Rightarrow> jvm \<Rightarrow> u32 list" where
  \<comment> \<open>the words of the result; a reference is passed by its address\<close>
  "jni_value None r s = []"
| "jni_value (Some TLong) r s = [n_eax r, n_edx r]"
| "jni_value (Some TDouble) r s = [fst (n_double r), snd (n_double r)]"
| "jni_value (Some TFloat) r s = [n_single r]"
| "jni_value (Some t) r s = [if is_reference t \<and> n_eax r \<noteq> 0 then deref s (n_eax r) else n_eax r]"

lemma args_words_nonneg: "0 \<le> sum_list (map words args)"
proof -
  have "0 \<le> words t" for t by (cases t) simp_all
  then show ?thesis by (induction args) (simp_all add: add_nonneg_nonneg)
qed

lemma native_args_parameters:
  "native_args True m (map terse args @ TERSE_SIG_ENDFUNC # rs) sp = Some (jni_parameters m sp args, rs)"
proof (induction args arbitrary: sp)
  case (Cons t ts)
  then show ?case by (cases t) simp_all
qed simp

lemma parameters_length: "length (jni_parameters m sp args) = nat (sum_list (map words args))"
proof (induction args arbitrary: sp)
  case (Cons t ts)
  with args_words_nonneg [of ts] show ?case by (cases t) (simp_all add: nat_add_distrib)
qed simp

lemma store_jni_value:
  obtains u where "store_native True (ret_terse ret) optop r s = Some (optop + ret_words ret, u)"
    "frames u = frames s" "vm_of u = vm_of s"
    "map (\<lambda>i. stack_word u (optop + i)) (if ret_words ret = 2 then [0, 1] else if ret_words ret = 1 then [0] else []) = jni_value ret r s"
proof -
  have "\<exists>u. store_native True (ret_terse ret) optop r s = Some (optop + ret_words ret, u) \<and>
    frames u = frames s \<and> vm_of u = vm_of s \<and>
    map (\<lambda>i. stack_word u (optop + i)) (if ret_words ret = 2 then [0, 1] else if ret_words ret = 1 then [0] else []) = jni_value ret r s"
  proof (cases ret)
    case None
    then show ?thesis by (simp add: ret_terse_def ret_words_def store_native_def)
  next
    case (Some t)
    then show ?thesis by (cases t) (simp_all add: ret_terse_def ret_words_def store_native_def)
  qed
  then show thesis using that by blast
qed

lemma ret_words_cases: "ret_words ret = 0 \<or> ret_words ret = 1 \<or> ret_words ret = 2"
proof (cases ret)
  case (Some t)
  then show ?thesis by (cases t) (simp_all add: ret_words_def)
qed (simp add: ret_words_def)

definition quiet_monitors :: "world \<Rightarrow> bool" where
  \<comment> \<open>one thread: a monitor is always free\<close>
  "quiet_monitors W \<longleftrightarrow> (\<forall>o' t. monitorEnter2 W o' t = t \<and> monitorExit2 W o' t = t)"

definition jni_call_words :: "world \<Rightarrow> ptr \<Rightarrow> jtype list \<Rightarrow> int \<Rightarrow> jvm \<Rightarrow> u32 list" where
  "jni_call_words W mb args sp s = jni_env W #
     (if is_static mb s then byte_addr (local_obj W) # jni_parameters (stack_word s) sp args
      else byte_addr sp # jni_parameters (stack_word s) (sp - 1) args)"

text \<open>C31: A JNI method that native code invokes gets what its signature and the calling convention prescribe: the
environment, the address of the class or the receiver, and its arguments in order, as many words as
the caller removes from the stack again. Its result is in the registers afterwards, a reference
instead of the address of one, and the stack of the frame is as it was; if the method has thrown an exception, the registers
are not set.\<close>
theorem jni_method_called:
  assumes callee: "is_jni W (invoker (methods (vm_of s) mb))"
    and sg: "mb_signature (methods (vm_of s) mb) = method_desc args ret" "\<forall>t \<in> set args \<union> set_option ret. wf_jtype t"
      "parse_signature (methods (vm_of s) mb) = Inr sg" "terse_sig (info_of mb s) = ss_terse sg"
      "ret_size (info_of mb s) = last (ss_sizes sg)"
    and W: "quiet_monitors W" "\<And>t p. expand_for_native W t p = Some (t, p)"
    and body: "\<And>t. run_native W (native_entry W mb) (jni_call_words W mb args var_base s) t = (r t, u t)"
  shows "\<exists>t u' regs. no_exception t = no_exception s \<and> 4 * length (jni_call_words W mb args var_base s) =
      nat (sum_list (receiver (methods (vm_of s) mb) @ map words args) + 1 + (if is_static mb s then 1 else 0)) * 4 \<and>
    invocationHelper k fuel W obj mb n var_base s = Some (Inr (regs, u')) \<and> current_frame u' = current_frame s \<and>
    (if no_exception (u t) then fr_optop (frames u' (current_frame s)) = fr_optop (frames s (current_frame s)) \<and>
       (\<exists>edx ecx. regs = Some (edx, ecx) \<and> take (nat (ret_words ret)) [edx, ecx] = jni_value ret (r t) ((u t)\<lparr>current_frame := current_frame s\<rparr>))
     else regs = None)"
proof -
  let ?old = "current_frame s"
  let ?optop = "fr_optop (frames s ?old)"
  let ?ws = "jni_call_words W mb args var_base s"
  have sig: "terse_sig (info_of mb s) = map terse args @ [TERSE_SIG_ENDFUNC, ret_terse ret]" "ret_size (info_of mb s) = ret_words ret"
    using parse_signature_spec [OF sg(1,2)] sg(3-5) by (auto split: if_splits)
  have words: "jni_words W (is_static mb s) (terse_sig (info_of mb s)) var_base t = Some (?ws, [ret_terse ret])"
    if "stack_word t = stack_word s" for t
    using that native_args_parameters [of "stack_word s" args "[ret_terse ret]"] by (simp add: jni_words_def jni_call_words_def sig(1))
  obtain new t where frame: "create_javaframe_for_native W mb ?old n s = Some (new, t)" "stack_word t = stack_word s" "no_exception t = no_exception s"
    by (simp add: create_javaframe_for_native_def no_exception_def W(2) Let_def)
  let ?u = "(u t)\<lparr>current_frame := ?old\<rparr>"
  obtain v where v: "store_native True (ret_terse ret) ?optop (r t) (u t) = Some (?optop + ret_words ret, v)"
    "frames v = frames (u t)" "vm_of v = vm_of (u t)"
    "map (\<lambda>i. stack_word v (?optop + i)) (if ret_words ret = 2 then [0, 1] else if ret_words ret = 1 then [0] else []) = jni_value ret (r t) (u t)"
    by (rule store_jni_value)
  have same_value: "jni_value ret (r t) ?u = jni_value ret (r t) (u t)" by (cases "(ret, r t, u t)" rule: jni_value.cases) (simp_all add: deref_def)
  have exc: "no_exception (v\<lparr>current_frame := ?old\<rparr>) = no_exception (u t)" using v(3) by (simp add: no_exception_def)
  have "4 * length ?ws = nat (sum_list (receiver (methods (vm_of s) mb) @ map words args) + 1 + (if is_static mb s then 1 else 0)) * 4"
    using args_words_nonneg [of args] by (simp add: jni_call_words_def parameters_length receiver_def nat_add_distrib)
  moreover have "invocationHelper k fuel W obj mb n var_base s =
      Some (Inr (native_done ?old (?optop + ret_words ret) (ret_words ret) (v\<lparr>current_frame := ?old\<rparr>)))"
    using W(1) by (simp add: invocationHelper_def callee invoke_jni_def frame words body v(1) sig(2) quiet_monitors_def Let_def del: map_option_eq_Some)
  moreover have "native_done ?old (?optop + ret_words ret) (ret_words ret) (v\<lparr>current_frame := ?old\<rparr>) =
      (if no_exception (u t) then (Some (stack_word v ?optop, stack_word v (?optop + 1)),
          upd_frame ?old (fr_optop_update (\<lambda>_. ?optop)) (v\<lparr>current_frame := ?old\<rparr>)) else (None, v\<lparr>current_frame := ?old\<rparr>))"
    by (simp add: native_done_def exc invhelper_finish_def Let_def comp_def)
  moreover have "take (nat (ret_words ret)) [stack_word v ?optop, stack_word v (?optop + 1)] = jni_value ret (r t) ?u"
    using ret_words_cases [of ret] unfolding same_value v(4) [symmetric] by auto
  moreover note frame(3)
  ultimately show ?thesis by (rule_tac x = t in exI) (cases "no_exception (u t)"; simp)
qed

subsection \<open>Lazy compilation\<close>

definition threshold :: "ptr \<Rightarrow> jvm \<Rightarrow> int" where
  "threshold mb s = (if isSystemMethod (vm_of s) mb then opt_systhreshold s else opt_userthreshold s)"

definition waiting :: "world \<Rightarrow> ptr \<Rightarrow> int \<Rightarrow> jvm \<Rightarrow> bool" where
  \<comment> \<open>the method is to be compiled and has been invoked \<open>c\<close> times\<close>
  "waiting W mb c s \<longleftrightarrow> (let v = vm_of s; m = methods v mb in
     invoker m = sym_compileAndInvokeMethod (env_of W) \<and> invocation_count (info_of mb s) = c \<and> compiler_enabled s \<and>
     \<not> acc (mb_access m) ACC_STRICT \<and> \<not> acc (mb_access m) ACC_ABSTRACT \<and> \<not> acc (mb_access m) ACC_NATIVE \<and>
     mb_has_code m \<and> mb_clazz m \<noteq> NULL \<and> 0 < next_addr v \<and> ctx_of v mb = NULL)"

definition settled :: "world \<Rightarrow> ptr \<Rightarrow> jvm \<Rightarrow> bool" where
  \<comment> \<open>the method is compiled, or it is interpreted for good\<close>
  "settled W mb s \<longleftrightarrow> (let m = methods (vm_of s) mb in
     if acc (mb_access m) ACC_MACHINE_COMPILED then invoker m = sym_invokeJITCompiledMethod (env_of W)
     else \<exists>a. invoker m = access2invoker (env_of W) a)"

definition view :: "ptr \<Rightarrow> jvm \<Rightarrow> methodblock \<times> CodeInfo \<times> bool \<times> bool \<times> int \<times> int \<times> ptr \<times> bool" where
  \<comment> \<open>the method, what is known about it and the settings of the compiler\<close>
  "view mb s = (methods (vm_of s) mb, info_of mb s, isSystemMethod (vm_of s) mb, compiler_enabled s,
     opt_systhreshold s, opt_userthreshold s, ctx_of (vm_of s) mb, 0 < next_addr (vm_of s))"

definition keeps :: "ptr \<Rightarrow> (jvm \<Rightarrow> jvm) \<Rightarrow> bool" where
  "keeps mb f \<longleftrightarrow> (\<forall>s. view mb (f s) = view mb s)"

definition quiet_execution :: "world \<Rightarrow> ptr \<Rightarrow> bool" where
  \<comment> \<open>executing the method does not invoke it again, nor switch the compiler off\<close>
  "quiet_execution W mb \<longleftrightarrow> (\<forall>ivk obj n. keeps mb (\<lambda>s. snd (call_vm_invoker W ivk obj mb n s))) \<and>
     keeps mb (\<lambda>s. snd (ExecuteJava W mb s)) \<and>
     (\<forall>obj n base. keeps mb (\<lambda>s. snd (snd (run_compiled W obj mb n base s)))) \<and>
     (\<forall>s p o' n nl cap t. expand_javastack W s p o' n nl cap = Some t \<longrightarrow> vm_of (fst t) = vm_of s)"

fun invoke_times :: "nat \<Rightarrow> (jvm \<Rightarrow> fatal + bool \<times> jvm) \<Rightarrow> jvm \<Rightarrow> fatal + jvm" where
  "invoke_times 0 call s = Inr s"
| "invoke_times (Suc j) call s = bindE (call s) (\<lambda>(ok, s). invoke_times j call s)"

lemma viewD:
  assumes "view mb t = view mb s"
  shows "methods (vm_of t) mb = methods (vm_of s) mb" "threshold mb t = threshold mb s"
    "waiting W mb c t = waiting W mb c s" "settled W mb t = settled W mb s"
  using assms by (auto simp: view_def threshold_def waiting_def settled_def Let_def)

lemma view_eq: "vm_of t = vm_of s \<Longrightarrow> compiler_enabled t = compiler_enabled s \<Longrightarrow> opt_systhreshold t = opt_systhreshold s \<Longrightarrow>
    opt_userthreshold t = opt_userthreshold s \<Longrightarrow> view mb t = view mb s"
  by (simp add: view_def)

lemma view_move_result [simp]: "view mb (move_result W r p s) = view mb s"
  by (rule view_eq) (simp_all add: move_result_def Let_def)

lemma keeps_interpreter: "keeps mb (\<lambda>s. snd (ExecuteJava W mb s)) \<Longrightarrow> view mb (snd (run_interpreter W mb r s)) = view mb s"
proof -
  assume k: "keeps mb (\<lambda>s. snd (ExecuteJava W mb s))"
  obtain ok t where t: "ExecuteJava W mb s = (ok, t)" by force
  have "view mb (t\<lparr>current_frame := p\<rparr>) = view mb t" for p by (rule view_eq) simp_all
  moreover have "view mb t = view mb s" using k t unfolding keeps_def by (metis snd_conv)
  ultimately show ?thesis by (simp add: run_interpreter_def t Let_def)
qed

lemma keeps_normal:
  assumes "quiet_execution W mb"
  shows "view mb (snd (call_normal_method W j mb n a s)) = view mb s"
proof -
  obtain ok t where t: "call_vm_invoker W (access2invoker (env_of W) a) j mb n s = (ok, t)" by force
  have "view mb t = view mb s" using assms t unfolding quiet_execution_def keeps_def by (metis snd_conv)
  moreover have "view mb (snd (run_interpreter W mb r t)) = view mb t" for r
    using assms keeps_interpreter unfolding quiet_execution_def by blast
  ultimately show ?thesis by (simp add: call_normal_method_def t)
qed

lemma count_waiting: "waiting W mb c s \<Longrightarrow> waiting W mb (c + 1) (count_invocation mb s)"
  by (auto simp: waiting_def count_invocation_def ctx_of_def Let_def)

lemma count_threshold [simp]: "threshold mb (count_invocation mb s) = threshold mb s"
  by (simp add: threshold_def isSystemMethod_def)

lemma waiting_early: "waiting W mb c s \<Longrightarrow> too_early mb s \<longleftrightarrow> c < threshold mb s"
  by (simp add: waiting_def too_early_def threshold_def Let_def)

lemma early_call:
  assumes "quiet_execution W mb" "\<And>t. sysThreadCheckStack W t" "sym_invokeJITCompiledMethod (env_of W) \<noteq> sym_compileAndInvokeMethod (env_of W)"
    "waiting W mb c s" "c + 1 < threshold mb s"
  shows "\<exists>ok t. compileAndInvokeMethod k fuel W j mb n s = Inr (ok, t) \<and> waiting W mb (c + 1) t \<and>
    threshold mb t = threshold mb s \<and> methods (vm_of t) mb = methods (vm_of s) mb"
proof -
  let ?s = "count_invocation mb s" and ?a = "mb_access (methods (vm_of s) mb)"
  note w = count_waiting [OF assms(4)]
  have "too_early mb ?s" using waiting_early [OF w] assms(5) by simp
  moreover have "invoker (methods (vm_of ?s) mb) = sym_compileAndInvokeMethod (env_of W)" "compiler_enabled ?s"
    using w by (simp_all add: waiting_def Let_def)
  ultimately have "compileAndInvokeMethod k fuel W j mb n s = Inr (call_normal_method W j mb n ?a ?s)"
    using assms(2,3) by (simp add: compileAndInvokeMethod_def Let_def)
  with viewD [OF keeps_normal [OF assms(1)]] w show ?thesis
    by (cases "call_normal_method W j mb n ?a ?s") (metis count_threshold count_invocation_simps(4) snd_conv)
qed

lemma compiled_call_method:
  assumes "quiet_execution W mb" "sysThreadCheckStack W s"
  shows "settled W mb (snd (invokeJITCompiledMethod W j mb n s)) \<longleftrightarrow> settled W mb s"
proof -
  let ?s = "count_invocation mb s"
  have expand: "vm_of u = vm_of t" if "expand_javastack W t p o' l nl cap = Some (u, q)" for t p o' l nl cap u q
    using assms(1) that unfolding quiet_execution_def by (metis fst_conv)
  have "methods (vm_of (snd (invokeJITCompiledMethod W j mb n s))) mb = methods (vm_of s) mb"
  proof (cases "create_javaframe W mb (current_frame s) n (nlocals (methods (vm_of s) mb)) (maxstack (methods (vm_of s) mb)) ?s")
    case None
    with assms(2) show ?thesis by (simp add: invokeJITCompiledMethod_def Let_def)
  next
    case (Some z)
    then obtain new t q where e: "expand_javastack W ?s (fr_optop (frames s (current_frame s)) + int (nlocals (methods (vm_of s) mb)))
        (fr_optop (frames s (current_frame s))) n (nlocals (methods (vm_of s) mb)) (maxstack (methods (vm_of s) mb)) = Some (t, new, q)"
      and z': "z = (new, new_frame W mb (current_frame s) q new t)"
      by (auto simp: create_javaframe_def Let_def)
    define t' where "t' = new_frame W mb (current_frame s) q new t"
    have z: "z = (new, t')" and vm: "vm_of t' = vm_of ?s" using z' expand [OF e] by (simp_all add: t'_def)
    let ?t = "upd_frame new (fr_constant_pool_update (\<lambda>_. NULL)) t'"
    let ?base = "alloca W ?t (nlocals (methods (vm_of s) mb) * 4) + int (nlocals (methods (vm_of s) mb)) - 1"
    let ?u = "?t\<lparr>stack_word := restack2native (argsizes (info_of mb ?t)) ?base (fr_vars (frames ?t new)) (stack_word ?t)\<rparr>"
    obtain edx ecx v where v: "run_compiled W j mb n ?base ?u = (edx, ecx, v)" by (metis prod_cases3)
    have k: "view mb (snd (snd (run_compiled W j mb n base u))) = view mb u" for base u
      using assms(1) unfolding quiet_execution_def keeps_def by blast
    have "methods (vm_of v) mb = methods (vm_of ?u) mb" using viewD(1) [OF k [of ?base ?u]] unfolding v by simp
    also have "\<dots> = methods (vm_of s) mb" using vm by simp
    finally have "methods (vm_of v) mb = methods (vm_of s) mb" .
    moreover have "invokeJITCompiledMethod W j mb n s =
        (no_exception (store_result mb (current_frame s) edx ecx v), store_result mb (current_frame s) edx ecx v)"
      using assms(2) Some v by (simp add: invokeJITCompiledMethod_def z vm Let_def)
    ultimately show ?thesis by simp
  qed
  then show ?thesis by (simp add: settled_def)
qed

definition invokers_distinct :: "world \<Rightarrow> bool" where
  "invokers_distinct W \<longleftrightarrow> (let E = env_of W in sym_invokeJITCompiledMethod E \<noteq> sym_compileAndInvokeMethod E \<and>
     (\<forall>a. access2invoker E a \<noteq> sym_invokeJITCompiledMethod E))"

lemma due_call:
  assumes "quiet_execution W mb" "\<And>t. sysThreadCheckStack W t" "invokers_distinct W"
    "waiting W mb c s" "threshold mb s \<le> c + 1" "compileAndInvokeMethod k fuel W j mb n s = Inr (ok, t)"
  shows "settled W mb t"
proof -
  let ?E = "env_of W" and ?s = "count_invocation mb s" and ?a = "mb_access (methods (vm_of s) mb)"
  let ?s1 = "upd_vm (set_invoker mb (access2invoker ?E ?a)) ?s"
  note w = count_waiting [OF assms(4)]
  have "\<not> too_early mb ?s" using waiting_early [OF w] assms(5) by simp
  moreover have inv: "invoker (methods (vm_of ?s) mb) = sym_compileAndInvokeMethod ?E" "compiler_enabled ?s"
    using w by (simp_all add: waiting_def Let_def)
  ultimately have "bindE (compile_now k fuel W mb n ?a ?s) (\<lambda>(failed, s).
      Inr (if failed then call_normal_method W j mb n ?a s else call_invoker W j mb n s)) = Inr (ok, t)"
    using assms(2,3,6) by (simp add: compileAndInvokeMethod_def invokers_distinct_def Let_def)
  then obtain failed u where u: "compile_now k fuel W mb n ?a ?s = Inr (failed, u)"
    "(if failed then call_normal_method W j mb n ?a u else call_invoker W j mb n u) = (ok, t)"
    unfolding bindE_Inr by auto
  then obtain v where v: "compileMethod k fuel ?E mb STAGE_DONE (vm_of ?s1) = Inr (failed, v)"
    "vm_of u = (if failed then set_invoker mb (access2invoker ?E ?a) v else v)"
    by (auto simp: compile_now_def bindE_Inr Let_def split: if_splits)
  then obtain k' where k: "k = Suc k'" by (cases k) simp_all
  have s1: "compilable ?E (methods (vm_of ?s1) mb)" "mb_clazz (methods (vm_of ?s1) mb) \<noteq> NULL" "0 < next_addr (vm_of ?s1)"
    "ctx_of (vm_of ?s1) mb = NULL"
    using w assms(3) by (auto simp: compilable_def waiting_def invokers_distinct_def set_invoker_def ctx_of_def Let_def)
  have out: "if failed then \<not> acc (mb_access (methods v mb)) ACC_MACHINE_COMPILED
      else acc (mb_access (methods v mb)) ACC_MACHINE_COMPILED \<and> invoker (methods v mb) = sym_invokeJITCompiledMethod ?E"
    using held_done [OF v(1) [unfolded k compileMethod.simps] s1(1-3)] s1(4) by simp
  then have "settled W mb u" using v(2) by (auto simp: settled_def set_invoker_def Let_def)
  then show ?thesis
    using u(2) out v(2) viewD(4) [OF keeps_normal [OF assms(1)], of W j n ?a u] compiled_call_method [OF assms(1,2), of j n u]
    by (cases failed) (auto simp: call_invoker_def)
qed

lemma early_calls:
  assumes "quiet_execution W mb" "\<And>t. sysThreadCheckStack W t" "invokers_distinct W"
    "waiting W mb c s" "c + int i < threshold mb s"
  shows "\<exists>t. invoke_times i (compileAndInvokeMethod k fuel W j mb n) s = Inr t \<and> waiting W mb (c + int i) t \<and>
    threshold mb t = threshold mb s \<and> methods (vm_of t) mb = methods (vm_of s) mb"
  using assms(4,5)
proof (induction i arbitrary: c s)
  case (Suc i)
  have "sym_invokeJITCompiledMethod (env_of W) \<noteq> sym_compileAndInvokeMethod (env_of W)"
    using assms(3) by (simp add: invokers_distinct_def Let_def)
  from early_call [OF assms(1,2) this Suc.prems(1)] Suc.prems(2) obtain ok u
    where u: "compileAndInvokeMethod k fuel W j mb n s = Inr (ok, u)" "waiting W mb (c + 1) u"
      "threshold mb u = threshold mb s" "methods (vm_of u) mb = methods (vm_of s) mb" by force
  from Suc.IH [OF u(2)] Suc.prems(2) u show ?case by (simp add: algebra_simps)
qed simp

lemma invoke_times_snoc: "invoke_times (Suc i) f s = bindE (invoke_times i f s) (\<lambda>t. bindE (f t) (\<lambda>(ok, u). Inr u))"
proof (induction i arbitrary: s)
  case (Suc i)
  show ?case
  proof (cases "f s")
    case (Inr p)
    with Suc [of "snd p"] show ?thesis by (cases p) simp
  qed simp
qed (simp add: bindE_def split: sum.split prod.split)


subsection \<open>Witnesses\<close>

definition call_env :: env where
  \<comment> \<open>invokers at addresses of their own; for witnesses\<close>
  "call_env = sample_env\<lparr>sym_compileAndInvokeMethod := 900, sym_invokeJITCompiledMethod := 1000, sym_invokeJavaMethod := 904,
     sym_invokeSynchronizedJavaMethod := 903, sym_invokeAbstractMethod := 901, sym_invokeNativeMethod := 905,
     sym_invokeSynchronizedNativeMethod := 906, sym_invokeJNINativeMethod := 907, sym_invokeJNISynchronizedNativeMethod := 908,
     sym_invokeLazyNativeMethod := 902, sym_invokeJNI_min := 920, sym_invokeJNI_max := 930\<rparr>"

definition call_world :: world where
  \<comment> \<open>compiled code returns its first two words, a native method its first two arguments\<close>
  "call_world = \<lparr>env_of = call_env, sysThreadCheckStack = (\<lambda>_. True), SignalError = (\<lambda>_ s. s),
     expand_javastack = (\<lambda>s p q _ _ _. Some (s, p, q)), expand_for_native = (\<lambda>s p. Some (s, p)), ostack_of = (\<lambda>p. p + 10),
     jni_ref_info_size = 3, jni_default_capacity = 16, alloca = (\<lambda>_ _. 100), local_obj = 50, jni_env = 77,
     call_vm_invoker = (\<lambda>_ _ _ _ s. (True, s)), ExecuteJava = (\<lambda>_ s. (True, s)), executejava_in_asm = False,
     run_compiled = (\<lambda>_ _ _ b s. (stack_word s b, stack_word s (b - 1), s)),
     run_native = (\<lambda>_ ws s. (\<lparr>n_eax = ws ! 2, n_edx = ws ! 3, n_single = 0, n_double = (0, 0)\<rparr>, s)),
     native_entry = (\<lambda>_. 4000), monitorEnter2 = (\<lambda>_ s. s), monitorExit2 = (\<lambda>_ s. s), mangle_class = (\<lambda>c _. c),
     mangle_field = (\<lambda>c _. c), symbolInSystemClassLoader = (\<lambda>_. NULL)\<rparr>"

definition call_state :: "ptr \<Rightarrow> jvm" where
  \<comment> \<open>the word at address \<open>a\<close> is \<open>a\<close>; every method is \<open>static int f(long)\<close> with the given invoker\<close>
  "call_state ivk = \<lparr>vm_of = sample_vm\<lparr>methods := (\<lambda>m. (methods sample_vm m)\<lparr>invoker := ivk, CompiledCodeInfo := 50\<rparr>),
       classes := (\<lambda>_. undefined\<lparr>cb_name := ''C''\<rparr>),
       infos := (\<lambda>_. zero_info\<lparr>ret_size := 1, argsizes := [2, 0, 1], terse_sig := [2, 11, 8]\<rparr>)\<rparr>,
     stack_word = word_of_int, frames = (\<lambda>_. \<lparr>fr_prev = 0, fr_vars = 0, fr_optop = 1000, fr_method = 0, fr_pc = 0,
       fr_constant_pool = 0, fr_refs_freelist = 0, fr_refs_in_use = 0, fr_refs_capacity = 0\<rparr>),
     current_frame = 500, native_code = (\<lambda>_. NULL), compiler_enabled = True, opt_systhreshold = 10, opt_userthreshold = 3\<rparr>"

lemmas call_defs = call_world_def call_env_def call_state_def sample_vm_def zero_info_def

lemma call_words: "arg_words 7 (call_state ivk) = 2" "callee_base call_world 100 7 (call_state ivk) = 101"
  by (simp_all add: arg_words_def callee_base_def call_defs)

lemma call_invokers: "invokers_differ call_world" "invokers_distinct call_world" "is_jni call_world 907"
  by (auto simp: invokers_differ_def invokers_distinct_def is_jni_def is_nmi_def access2invoker_def call_defs Let_def)

theorem compiled_method_called_witness:
  "\<exists>u. invocationHelper 0 0 call_world 0 7 2 200 (call_state 1000) = Some (Inr (Some (200, 199), u)) \<and>
     current_frame u = 500 \<and> fr_optop (frames u 500) = 1000"
proof -
  have room: "stack_room call_world" "\<And>t j. alloca call_world t j = 100" by (simp_all add: stack_room_def call_world_def)
  have callee: "invoker (methods (vm_of (call_state 1000)) 7) = sym_invokeJITCompiledMethod (env_of call_world)" by (simp add: call_defs)
  have run: "run_compiled call_world 0 7 2 b t = (stack_word t b, stack_word t (b - 1), t)" for b t by (simp add: call_world_def)
  have s: "fr_optop (frames (call_state 1000) p) = 1000" "current_frame (call_state 1000) = 500"
    "ret_size (info_of 7 (call_state 1000)) = 1" "nlocals (methods (vm_of (call_state 1000)) 7) = 2"
    "stack_word (call_state 1000) a = word_of_int a" "exc_class (vm_of (call_state 1000)) = NULL" for a p by (simp_all add: call_defs)
  have frame: "fr_optop (frames (call_state 1000) (current_frame (call_state 1000))) + int (nlocals (methods (vm_of (call_state 1000)) 7)) \<noteq>
      current_frame (call_state 1000)" by (simp add: s)
  have body: "\<exists>edx ecx u. run_compiled call_world 0 7 2 (callee_base call_world 100 7 (call_state 1000)) t = (edx, ecx, u) \<and>
      fr_optop (frames u (current_frame (call_state 1000))) = fr_optop (frames t (current_frame (call_state 1000))) \<and>
      ret_size (info_of 7 u) = ret_size (info_of 7 t)" for t by (simp add: run)
  have "no_exception (call_state 1000)" by (simp add: no_exception_def s)
  moreover obtain t edx ecx u r v where "run_compiled call_world 0 7 2 (callee_base call_world 100 7 (call_state 1000)) t = (edx, ecx, u)"
    and args: "\<forall>i < arg_words 7 (call_state 1000). stack_word t (callee_base call_world 100 7 (call_state 1000) - int i) =
        stack_word (call_state 1000) (200 - int i)"
    and "no_exception t = no_exception (call_state 1000)"
      "invocationHelper 0 0 call_world 0 7 2 200 (call_state 1000) = Some (Inr (r, v))"
      "r = (if no_exception u then Some (edx, ecx) else None)" "current_frame v = current_frame (call_state 1000)"
      "fr_optop (frames v (current_frame (call_state 1000))) =
        fr_optop (frames (call_state 1000) (current_frame (call_state 1000))) + (if no_exception u then 0 else ret_size (info_of 7 (call_state 1000)))"
    using compiled_method_called [OF callee call_invokers(1) room _ _ frame body, of 200 0 0]
    unfolding s(1) call_words(2) by (simp only: call_words apart_def) fastforce
  moreover have "stack_word t 101 = 200" "stack_word t 100 = 199"
    using args [rule_format, of 0] args [rule_format, of 1] by (simp_all add: call_words s)
  ultimately show ?thesis by (simp add: run call_words s)
qed

theorem jni_method_called_witness:
  "\<exists>u ecx. invocationHelper 0 0 call_world 0 7 2 200 (call_state 907) = Some (Inr (Some (199, ecx), u)) \<and>
     current_frame u = 500 \<and> fr_optop (frames u 500) = 1000"
proof -
  let ?s = "call_state 907" and ?m = "methods (vm_of (call_state 907)) 7"
  have m: "mb_signature ?m = method_desc [TLong] (Some TInt)" "is_static 7 ?s" "invoker ?m = 907"
    by (simp_all add: call_defs method_desc_def ret_desc_def acc_def)
  then have sg: "parse_signature ?m = Inr \<lparr>ss_sizes = [2, 0, 1], ss_terse = [2, 11, 8], ss_ret_sig = ''I''\<rparr>"
    using parse_signature_spec [of ?m "[TLong]" "Some TInt"] by (simp add: receiver_def ret_words_def ret_terse_def ret_desc_def)
  have words: "jni_call_words call_world 7 [TLong] 200 ?s = [77, byte_addr 50, 199, 200]"
    using m(2) by (simp add: jni_call_words_def) (simp add: call_defs)
  have s: "fr_optop (frames ?s p) = 1000" "current_frame ?s = 500" "no_exception ?s" for p by (simp_all add: no_exception_def) (simp_all add: call_defs)
  have jni: "is_jni call_world (invoker ?m)" by (simp only: m(3) call_invokers(3))
  have info: "terse_sig (info_of 7 ?s) = [2, 11, 8]" "ret_size (info_of 7 ?s) = 1" by (simp_all add: call_defs)
  have world: "quiet_monitors call_world" "expand_for_native call_world t p = Some (t, p)" for t p
    by (simp_all add: quiet_monitors_def call_world_def)
  let ?r = "\<lparr>n_eax = 199, n_edx = 200, n_single = 0, n_double = (0, 0)\<rparr>"
  have body: "run_native call_world (native_entry call_world 7) (jni_call_words call_world 7 [TLong] 200 ?s) t = (?r, t)" for t
    by (simp add: words) (simp add: call_world_def)
  show ?thesis
    using jni_method_called [OF jni m(1) _ sg _ _ world body, of 0 0 0 2] by (auto simp: info s ret_words_def)
qed


end
