(* ===== verification/Interface.thy ===== *)
theory Interface
  imports Invoker
begin

text \<open>
  Run-time functions of native code (\<^verbatim>\<open>runtime.c\<close>): the search for the method that an
  \<open>invokeinterface\<close> invokes, with the cache in the code of the call site (\<^verbatim>\<open>code.c\<close>); the allocation of arrays of
  arrays; the initialisation of a class; and the search for the method of a program counter.

  The interface tables of classes and their method tables are structures of the virtual machine; the
  record \<open>dispatch\<close> reads them.
\<close>

subsection \<open>\<open>getInterfaceMethod\<close>\<close>

record itable_entry =
  ie_class :: ptr \<comment> \<open>\<open>classdescriptor\<close>\<close>
  ie_offsets :: "nat \<Rightarrow> nat"

record dispatch =
  class_of :: "u32 \<Rightarrow> ptr" \<comment> \<open>\<open>obj_methodtable(obj)->classdescriptor\<close>\<close>
  itable :: "ptr \<Rightarrow> itable_entry list" \<comment> \<open>the \<open>icount\<close> entries of \<open>cbIntfMethodTable(cb)\<close>\<close>
  behind_itable :: "ptr \<Rightarrow> nat \<Rightarrow> itable_entry" \<comment> \<open>the memory behind the last entry, read as entries\<close>
  mt_slot :: "ptr \<Rightarrow> nat \<Rightarrow> ptr" \<comment> \<open>a method in the method table of a class\<close>

record call_site =
  guess :: u8 \<comment> \<open>\<open>*guessptr\<close>, a byte of the bytecode\<close>
  cached_class :: ptr \<comment> \<open>the operands in the code of the call site\<close>
  cached_method :: ptr

definition entry_of :: "dispatch \<Rightarrow> ptr \<Rightarrow> nat \<Rightarrow> itable_entry" where
  \<comment> \<open>\<open>imtable->itable[i]\<close>\<close>
  "entry_of D cb i = (if i < length (itable D cb) then itable D cb ! i else behind_itable D cb i)"

fun find_interface :: "itable_entry list \<Rightarrow> ptr \<Rightarrow> nat \<Rightarrow> nat option" where
  \<comment> \<open>\<open>for (guess = imtable->icount - 1; ; guess--)\<close>; the number counts the entries not looked at\<close>
  "find_interface tab intf 0 = None"
| "find_interface tab intf (Suc i) = (if ie_class (tab ! i) = intf then Some i else find_interface tab intf i)"

definition getintf_done :: "dispatch \<Rightarrow> ptr \<Rightarrow> nat \<Rightarrow> nat \<Rightarrow> call_site \<Rightarrow> ptr \<times> call_site" where
  \<comment> \<open>the label \<open>getintf_done\<close>: patch the operands\<close>
  "getintf_done D cb slot g st =
     (let m = mt_slot D cb (ie_offsets (entry_of D cb g) slot)
      in (m, st\<lparr>cached_class := cb, cached_method := m\<rparr>))"

definition getInterfaceMethod :: "dispatch \<Rightarrow> methodblock \<Rightarrow> u32 \<Rightarrow> call_site \<Rightarrow> (ptr \<times> call_site) option" where
  \<comment> \<open>\<open>None\<close>: the class does not implement the interface, and an error is thrown\<close>
  "getInterfaceMethod D im obj st =
     (let intf = mb_clazz im; slot = unat (mb_offset im); cb = class_of D obj; g = unat (guess st) in
      if ie_class (entry_of D cb g) = intf then Some (getintf_done D cb slot g st)
      else (case find_interface (itable D cb) intf (length (itable D cb)) of
              None \<Rightarrow> None
            | Some g \<Rightarrow> Some (getintf_done D cb slot g (st\<lparr>guess := of_nat g\<rparr>))))"

definition invokeinterface_code :: "dispatch \<Rightarrow> methodblock \<Rightarrow> u32 \<Rightarrow> call_site \<Rightarrow> (ptr \<times> call_site) option" where
  \<comment> \<open>the template: the method of the cache if the class is the cached one\<close>
  "invokeinterface_code D im obj st =
     (if class_of D obj = cached_class st then Some (cached_method st, st) else getInterfaceMethod D im obj st)"

subsection \<open>Arrays of arrays\<close>

fun dimensions :: "nat \<Rightarrow> int \<Rightarrow> int \<Rightarrow> (int \<Rightarrow> u32) \<Rightarrow> (int \<Rightarrow> u32) option" where
  \<comment> \<open>the loop: the number counts the dimensions left; \<open>None\<close>: one is negative\<close>
  "dimensions 0 stackpointer optop m = Some m"
| "dimensions (Suc n) stackpointer optop m =
     (let sz = m stackpointer in
      if sint sz < 0 then None else dimensions n (stackpointer - 1) (optop + 1) (m(optop := sz)))"

definition multianewarray :: "(nat \<Rightarrow> ptr \<Rightarrow> int \<Rightarrow> jvm \<Rightarrow> u32 \<times> jvm) \<Rightarrow> nat \<Rightarrow> ptr \<Rightarrow> int \<Rightarrow> jvm \<Rightarrow> u32 \<times> jvm" where
  \<comment> \<open>the first argument is \<open>MultiArrayAlloc\<close> of the virtual machine\<close>
  "multianewarray alloc dim arrayclazz stackpointer s =
     (let optop = fr_optop (frames s (current_frame s)) in
      case dimensions dim (stackpointer + (int dim - 1)) optop (stack_word s) of
        None \<Rightarrow> (- 1, s)
      | Some m \<Rightarrow> alloc dim arrayclazz optop (s\<lparr>stack_word := m\<rparr>))"

subsection \<open>Initialisation of a class\<close>

definition once_init_class :: "(ptr \<Rightarrow> vm \<Rightarrow> vm) \<Rightarrow> ptr \<Rightarrow> vm \<Rightarrow> bool \<times> vm" where
  \<comment> \<open>the first argument is \<open>InitClass\<close>; the result tells whether an exception is pending\<close>
  "once_init_class InitClass cb v =
     (let v = (if cb_initialized (classes v cb) then v else InitClass cb v) in (exc_class v \<noteq> NULL, v))"

subsection \<open>The method of a program counter\<close>

definition pc_in_method :: "(ptr \<Rightarrow> ptr \<Rightarrow> bool) \<Rightarrow> env \<Rightarrow> vm \<Rightarrow> ptr \<Rightarrow> ptr \<Rightarrow> bool" where
  \<comment> \<open>the conditions in the loop. The \<open>else\<close> that is meant for interpreted methods belongs to the inner \<open>if\<close>.
      The first argument is \<open>PCinCompiledCode\<close>\<close>
  "pc_in_method in_code E v pc mb =
     (let m = methods v mb; code = code_addr E mb in
      if acc (mb_access m) ACC_NATIVE then code = pc
      else if acc (mb_access m) ACC_MACHINE_COMPILED then
        (if in_code pc mb then True else code \<le> pc \<and> pc < code + mb_code_length m)
      else False)"

definition methodByPC :: "(ptr \<Rightarrow> ptr \<Rightarrow> bool) \<Rightarrow> env \<Rightarrow> (ptr \<Rightarrow> ptr list) \<Rightarrow> ptr list \<Rightarrow> vm \<Rightarrow> ptr \<Rightarrow> ptr" where
  \<comment> \<open>the loaded classes from the last to the first, and the methods of each; \<open>NULL\<close> if none has the address\<close>
  "methodByPC in_code E cbMethods binclasses v pc =
     (case List.find (pc_in_method in_code E v pc) (concat (map cbMethods (rev binclasses))) of
        None \<Rightarrow> NULL | Some mb \<Rightarrow> mb)"

subsection \<open>Dispatch\<close>

definition implementation :: "dispatch \<Rightarrow> methodblock \<Rightarrow> ptr \<Rightarrow> ptr option" where
  \<comment> \<open>the method with which a class implements a method of an interface\<close>
  "implementation D im cb =
     map_option (\<lambda>e. mt_slot D cb (ie_offsets e (unat (mb_offset im))))
       (List.find (\<lambda>e. ie_class e = mb_clazz im) (itable D cb))"

definition one_entry_each :: "dispatch \<Rightarrow> bool" where
  "one_entry_each D \<longleftrightarrow> (\<forall>cb. distinct (map ie_class (itable D cb)))"

definition nothing_behind :: "dispatch \<Rightarrow> ptr \<Rightarrow> bool" where
  \<comment> \<open>behind the interface tables there is no word that is the address of the interface\<close>
  "nothing_behind D intf \<longleftrightarrow> (\<forall>cb i. length (itable D cb) \<le> i \<longrightarrow> ie_class (behind_itable D cb i) \<noteq> intf)"

definition cache_right :: "dispatch \<Rightarrow> methodblock \<Rightarrow> call_site \<Rightarrow> bool" where
  \<comment> \<open>\<open>NULL\<close>, with which the call site starts, is the address of no class\<close>
  "cache_right D im st \<longleftrightarrow> cached_class st = NULL \<or> implementation D im (cached_class st) = Some (cached_method st)"

lemma find_interface_Some:
  "find_interface tab intf n = Some i \<Longrightarrow> i < n \<and> ie_class (tab ! i) = intf"
  by (induction n) (auto split: if_splits)

lemma find_interface_None:
  "find_interface tab intf n = None \<Longrightarrow> i < n \<Longrightarrow> ie_class (tab ! i) \<noteq> intf"
  by (induction n) (auto split: if_splits simp: less_Suc_eq)

lemma implementation_entry:
  assumes "one_entry_each D" "i < length (itable D cb)" "ie_class (itable D cb ! i) = mb_clazz im"
  shows "implementation D im cb = Some (mt_slot D cb (ie_offsets (itable D cb ! i) (unat (mb_offset im))))"
proof -
  have "List.find (\<lambda>e. ie_class e = mb_clazz im) (itable D cb) = Some (itable D cb ! i)"
    unfolding find_Some_iff
  proof (intro exI [of _ i] conjI allI impI)
    fix j assume "j < i"
    then have "ie_class (itable D cb ! j) \<noteq> ie_class (itable D cb ! i)"
      using assms(1,2) by (simp add: one_entry_each_def distinct_conv_nth)
    with assms(3) show "ie_class (itable D cb ! j) \<noteq> mb_clazz im" by simp
  qed (use assms in simp_all)
  then show ?thesis by (simp add: implementation_def)
qed

lemma implementation_None:
  "implementation D im cb = None \<longleftrightarrow> (\<forall>i < length (itable D cb). ie_class (itable D cb ! i) \<noteq> mb_clazz im)"
  by (auto simp: implementation_def find_None_iff in_set_conv_nth)

lemma getInterfaceMethod_right:
  assumes "one_entry_each D" "nothing_behind D (mb_clazz im)"
  shows "case getInterfaceMethod D im obj st of
      None \<Rightarrow> implementation D im (class_of D obj) = None
    | Some (m, st') \<Rightarrow> implementation D im (class_of D obj) = Some m \<and> cache_right D im st'"
proof -
  let ?cb = "class_of D obj" and ?g = "unat (guess st)"
  have right: "implementation D im ?cb = Some (fst (getintf_done D ?cb (unat (mb_offset im)) g st')) \<and>
      cache_right D im (snd (getintf_done D ?cb (unat (mb_offset im)) g st'))"
    if "ie_class (entry_of D ?cb g) = mb_clazz im" for g st'
  proof -
    have "g < length (itable D ?cb)" using that assms(2) by (auto simp: entry_of_def nothing_behind_def not_less split: if_splits)
    with that implementation_entry [OF assms(1), of g ?cb im] show ?thesis
      by (simp add: entry_of_def getintf_done_def cache_right_def Let_def)
  qed
  show ?thesis
  proof (cases "ie_class (entry_of D ?cb ?g) = mb_clazz im")
    case True
    with right [OF this, of st] show ?thesis by (auto simp: getInterfaceMethod_def Let_def split: prod.split)
  next
    case False
    show ?thesis
    proof (cases "find_interface (itable D ?cb) (mb_clazz im) (length (itable D ?cb))")
      case None
      with False find_interface_None [OF None] show ?thesis by (simp add: getInterfaceMethod_def implementation_None Let_def)
    next
      case (Some g)
      with find_interface_Some [OF Some] have "ie_class (entry_of D ?cb g) = mb_clazz im" by (simp add: entry_of_def)
      from right [OF this, of "st\<lparr>guess := of_nat g\<rparr>"] False Some show ?thesis
        by (auto simp: getInterfaceMethod_def Let_def split: prod.split)
    qed
  qed
qed

fun run_site :: "dispatch \<Rightarrow> methodblock \<Rightarrow> u32 list \<Rightarrow> call_site \<Rightarrow> ptr option list" where
  \<comment> \<open>the methods invoked for a sequence of receivers\<close>
  "run_site D im [] st = []"
| "run_site D im (ob # obs) st =
     (case invokeinterface_code D im ob st of
        None \<Rightarrow> None # run_site D im obs st
      | Some (m, st') \<Rightarrow> Some m # run_site D im obs st')"

lemma guess_behind_table:
  assumes "length (itable D (class_of D ob)) \<le> unat (guess st)"
    and "ie_class (behind_itable D (class_of D ob) (unat (guess st))) = mb_clazz im" "class_of D ob \<noteq> cached_class st"
  shows "map_option fst (invokeinterface_code D im ob st) = Some (mt_slot D (class_of D ob)
    (ie_offsets (behind_itable D (class_of D ob) (unat (guess st))) (unat (mb_offset im))))"
  using assms by (simp add: invokeinterface_code_def getInterfaceMethod_def entry_of_def getintf_done_def Let_def)


subsection \<open>Two threads at a call site\<close>

text \<open>
  The code of the call site reads the cached class and the cached method one after the other, and
  \<open>getInterfaceMethod\<close> writes them one after the other. \<open>getInterfaceMethod\<close> holds \<open>CODE_LOCK\<close> while it writes;
  the code does not take it to read.
\<close>

datatype at_site =
    Checking            \<comment> \<open>in front of \<open>cmpl %eax,%edi\<close>\<close>
  | Hit                 \<comment> \<open>in front of \<open>movl $cached,%eax\<close>\<close>
  | Found ptr           \<comment> \<open>\<open>getInterfaceMethod\<close> in front of \<open>CODE_LOCK\<close>\<close>
  | Patching ptr        \<comment> \<open>the class is written, the method is not; the lock is held\<close>
  | Invoking ptr

inductive site_step :: "dispatch \<Rightarrow> methodblock \<Rightarrow> (nat \<Rightarrow> u32) \<Rightarrow> call_site \<times> at_site list \<Rightarrow> call_site \<times> at_site list \<Rightarrow> bool"
  for D im recv where
  hit: "i < length ts \<Longrightarrow> ts ! i = Checking \<Longrightarrow> class_of D (recv i) = cached_class st \<Longrightarrow>
    site_step D im recv (st, ts) (st, ts[i := Hit])"
| miss: "i < length ts \<Longrightarrow> ts ! i = Checking \<Longrightarrow> class_of D (recv i) \<noteq> cached_class st \<Longrightarrow>
    getInterfaceMethod D im (recv i) st = Some (m, st') \<Longrightarrow>
    site_step D im recv (st, ts) (st\<lparr>guess := guess st'\<rparr>, ts[i := Found m])"
| key: "i < length ts \<Longrightarrow> ts ! i = Found m \<Longrightarrow> \<forall>m'. Patching m' \<notin> set ts \<Longrightarrow>
    site_step D im recv (st, ts) (st\<lparr>cached_class := class_of D (recv i)\<rparr>, ts[i := Patching m])"
| patch_method: "i < length ts \<Longrightarrow> ts ! i = Patching m \<Longrightarrow>
    site_step D im recv (st, ts) (st\<lparr>cached_method := m\<rparr>, ts[i := Invoking m])"
| load: "i < length ts \<Longrightarrow> ts ! i = Hit \<Longrightarrow>
    site_step D im recv (st, ts) (st, ts[i := Invoking (cached_method st)])"

text \<open>C33: With two threads the lock around the patches does not save the cache. Whenever a call site has a class in its cache and
two threads come to it with receivers of another one, the second may find the class of its receiver
written already and the method of the old class still in place, and invoke a method that the class of its
receiver does not have.\<close>
theorem interface_cache_race:
  assumes "one_entry_each D" "nothing_behind D (mb_clazz im)" "cache_right D im st"
    and "class_of D (recv 0) = cb" "class_of D (recv 1) = cb" "cb \<noteq> cached_class st" "implementation D im cb \<noteq> None"
  shows "\<exists>st' m. (site_step D im recv)\<^sup>*\<^sup>* (st, [Checking, Checking]) (st', [Invoking m, Invoking (cached_method st)]) \<and>
    implementation D im cb = Some m"
proof -
  from getInterfaceMethod_right [OF assms(1,2), of "recv 0" st] assms(4,7) obtain m u
    where m: "getInterfaceMethod D im (recv 0) st = Some (m, u)" "implementation D im cb = Some m"
    by (auto split: option.splits)
  let ?s1 = "st\<lparr>guess := guess u\<rparr>"
  let ?s2 = "?s1\<lparr>cached_class := cb\<rparr>"
  let ?R = "site_step D im recv"
  have "?R\<^sup>*\<^sup>* (st, [Checking, Checking]) (?s1, [Found m, Checking])" using miss [of 0 "[Checking, Checking]" D recv st im m u] assms m by (simp add: r_into_rtranclp)
  also have "?R\<^sup>*\<^sup>* (?s1, [Found m, Checking]) (?s2, [Patching m, Checking])" using key [of 0 "[Found m, Checking]" m D im recv ?s1] assms by (simp add: r_into_rtranclp)
  also have "?R\<^sup>*\<^sup>* (?s2, [Patching m, Checking]) (?s2, [Patching m, Hit])" using hit [of 1 "[Patching m, Checking]" D recv ?s2 im] assms by (simp add: r_into_rtranclp)
  also have "?R\<^sup>*\<^sup>* (?s2, [Patching m, Hit]) (?s2, [Patching m, Invoking (cached_method st)])" using load [of 1 "[Patching m, Hit]" D im recv ?s2] by (simp add: r_into_rtranclp)
  also have "?R\<^sup>*\<^sup>* (?s2, [Patching m, Invoking (cached_method st)]) (?s2\<lparr>cached_method := m\<rparr>, [Invoking m, Invoking (cached_method st)])"
    using patch_method [of 0 "[Patching m, Invoking (cached_method st)]" m D im recv ?s2] by (simp add: r_into_rtranclp)
  finally show ?thesis using m(2) by blast
qed

subsection \<open>Sizes of arrays and owners of addresses\<close>

lemma dimensions_words:
  assumes "apart sp optop n"
  shows "(dimensions n sp optop m = None \<longleftrightarrow> (\<exists>i < n. sint (m (sp - int i)) < 0)) \<and>
    (\<forall>m'. dimensions n sp optop m = Some m' \<longrightarrow> (\<forall>i < n. m' (optop + int i) = m (sp - int i)) \<and>
       (\<forall>a. \<not> (optop \<le> a \<and> a < optop + int n) \<longrightarrow> m' a = m a))"
  using assms
proof (induction n arbitrary: sp optop m)
  case (Suc n)
  let ?m = "m(optop := m sp)"
  have ap: "apart (sp - 1) (optop + 1) n" using Suc.prems by (auto simp: apart_def)
  have eq: "?m (sp - 1 - int i) = m (sp - int (Suc i))" if "i < n" for i
    using Suc.prems that by (auto simp: apart_def algebra_simps)
  note IH = Suc.IH [OF ap, of ?m]
  show ?case
  proof (cases "sint (m sp) < 0")
    case True
    then show ?thesis by (auto simp: Let_def intro: exI [of _ 0])
  next
    case False
    have none: "(\<exists>i < Suc n. sint (m (sp - int i)) < 0) \<longleftrightarrow> (\<exists>i < n. sint (?m (sp - 1 - int i)) < 0)"
    proof
      assume "\<exists>i < Suc n. sint (m (sp - int i)) < 0"
      then obtain i where i: "i < Suc n" "sint (m (sp - int i)) < 0" by blast
      with False obtain j where "i = Suc j" by (cases i) auto
      with i eq [of j] show "\<exists>i < n. sint (?m (sp - 1 - int i)) < 0" by (auto intro: exI [of _ j])
    qed (use eq in \<open>metis Suc_mono\<close>)
    have words: "(\<forall>i < Suc n. m' (optop + int i) = m (sp - int i)) \<and> (\<forall>a. \<not> (optop \<le> a \<and> a < optop + int (Suc n)) \<longrightarrow> m' a = m a)"
      if "dimensions n (sp - 1) (optop + 1) ?m = Some m'" for m'
    proof -
      have step: "\<forall>i < n. m' (optop + 1 + int i) = ?m (sp - 1 - int i)"
        "\<forall>a. \<not> (optop + 1 \<le> a \<and> a < optop + 1 + int n) \<longrightarrow> m' a = ?m a" using IH that by blast+
      have "m' (optop + int i) = m (sp - int i)" if "i < Suc n" for i
      proof (cases i)
        case 0
        with step(2) show ?thesis by simp
      next
        case (Suc j)
        with step(1) eq [of j] that show ?thesis by (simp add: algebra_simps)
      qed
      moreover have "m' a = m a" if "\<not> (optop \<le> a \<and> a < optop + int (Suc n))" for a
        using step(2) [rule_format, of a] that by auto
      ultimately show ?thesis by blast
    qed
    have same: "dimensions (Suc n) sp optop m = dimensions n (sp - 1) (optop + 1) ?m" using False by simp
    show ?thesis unfolding same none using IH words by blast
  qed
qed simp

text \<open>The code of \<open>multianewarray\<close> hands the sizes to the allocator in the order in which they were pushed, that of the
dimensions, with nothing else in memory changed; if any of them is negative, nothing is allocated and the result is
\<open>-1\<close>.\<close>
theorem multianewarray_sizes:
  assumes "apart (stackpointer + (int dim - 1)) (fr_optop (frames s (current_frame s))) dim"
  shows "if \<exists>i < dim. sint (stack_word s (stackpointer + int i)) < 0 then multianewarray alloc dim cb stackpointer s = (- 1, s)
    else \<exists>m. multianewarray alloc dim cb stackpointer s = alloc dim cb (fr_optop (frames s (current_frame s))) (s\<lparr>stack_word := m\<rparr>) \<and>
      (\<forall>i < dim. m (fr_optop (frames s (current_frame s)) + int i) = stack_word s (stackpointer + int (dim - 1 - i))) \<and>
      (\<forall>a. \<not> (fr_optop (frames s (current_frame s)) \<le> a \<and> a < fr_optop (frames s (current_frame s)) + int dim) \<longrightarrow>
        m a = stack_word s a)"
proof -
  let ?sp = "stackpointer + (int dim - 1)" and ?o = "fr_optop (frames s (current_frame s))"
  note d = dimensions_words [OF assms, of "stack_word s"]
  have pos: "?sp - int i = stackpointer + int (dim - 1 - i)" if "i < dim" for i using that by simp
  have neg: "(\<exists>i < dim. sint (stack_word s (?sp - int i)) < 0) \<longleftrightarrow> (\<exists>i < dim. sint (stack_word s (stackpointer + int i)) < 0)"
  proof
    assume "\<exists>i < dim. sint (stack_word s (?sp - int i)) < 0"
    then obtain i where "i < dim" "sint (stack_word s (?sp - int i)) < 0" by blast
    then have "i < dim" "sint (stack_word s (stackpointer + int (dim - 1 - i))) < 0" using pos [of i] by metis+
    then show "\<exists>i < dim. sint (stack_word s (stackpointer + int i)) < 0" by (intro exI [of _ "dim - 1 - i"]) simp
  next
    assume "\<exists>i < dim. sint (stack_word s (stackpointer + int i)) < 0"
    then obtain i where i: "i < dim" "sint (stack_word s (stackpointer + int i)) < 0" by blast
    then have "?sp - int (dim - 1 - i) = stackpointer + int i" by simp
    with i show "\<exists>i < dim. sint (stack_word s (?sp - int i)) < 0" by (intro exI [of _ "dim - 1 - i"]) simp
  qed
  show ?thesis
  proof (cases "dimensions dim ?sp ?o (stack_word s)")
    case None
    with d neg show ?thesis by (simp add: multianewarray_def)
  next
    case (Some m)
    with d neg pos show ?thesis by (auto simp: multianewarray_def)
  qed
qed

lemma methodByPC_found:
  assumes "methodByPC in_code E cbMethods binclasses v pc = mb" "mb \<noteq> NULL"
  shows "pc_in_method in_code E v pc mb" "mb \<in> set (concat (map cbMethods binclasses))"
  using assms by (auto simp: methodByPC_def find_Some_iff in_set_conv_nth split: option.splits dest: nth_mem)

text \<open>The search for the method of an address never finds an interpreted method: what it returns is a native method or
a compiled one, although the address is that of an instruction in the bytecode of a method which is not compiled.\<close>
theorem methodByPC_overlooks_interpreted:
  assumes "methodByPC in_code E cbMethods binclasses v pc = mb" "mb \<noteq> NULL"
  shows "acc (mb_access (methods v mb)) ACC_NATIVE \<or> acc (mb_access (methods v mb)) ACC_MACHINE_COMPILED"
  using methodByPC_found(1) [OF assms] by (auto simp: pc_in_method_def Let_def split: if_splits)

subsection \<open>Witnesses\<close>

definition two_classes :: dispatch where
  \<comment> \<open>every class implements the interfaces 100 and 200; an object is of the class with its number; for witnesses\<close>
  "two_classes = \<lparr>class_of = uint, itable = (\<lambda>_. [\<lparr>ie_class = 100, ie_offsets = (\<lambda>_. 5)\<rparr>, \<lparr>ie_class = 200, ie_offsets = (\<lambda>n. n)\<rparr>]),
     behind_itable = (\<lambda>_ _. \<lparr>ie_class = NULL, ie_offsets = (\<lambda>_. 0)\<rparr>), mt_slot = (\<lambda>cb n. 1000 * cb + int n)\<rparr>"

definition imethod :: methodblock where
  "imethod = (methods sample_vm 7)\<lparr>mb_clazz := 200, mb_offset := 3\<rparr>"

lemma two_classes: "one_entry_each two_classes" "nothing_behind two_classes (mb_clazz imethod)"
  "class_of two_classes ob = uint ob" "implementation two_classes imethod cb = Some (1000 * cb + 3)"
  by (simp_all add: one_entry_each_def nothing_behind_def implementation_def two_classes_def imethod_def)


theorem interface_cache_race_witness:
  "\<exists>st. (site_step two_classes imethod (\<lambda>_. 8))\<^sup>*\<^sup>* (\<lparr>guess = 1, cached_class = 7, cached_method = 7003\<rparr>, [Checking, Checking])
     (st, [Invoking 8003, Invoking 7003])"
proof -
  let ?st = "\<lparr>guess = 1, cached_class = 7, cached_method = 7003\<rparr>"
  have "cache_right two_classes imethod ?st" by (simp add: cache_right_def two_classes)
  from interface_cache_race [OF two_classes(1,2) this, of "\<lambda>_. 8" 8] show ?thesis by (simp add: two_classes)
qed

theorem multianewarray_sizes_witness:
  "multianewarray (\<lambda>dim cb p s. (stack_word s (p + 1), s)) 3 9 200 (call_state 0) =
     (201, (call_state 0)\<lparr>stack_word := (stack_word (call_state 0))(1000 := 202, 1001 := 201, 1002 := 200)\<rparr>)"
proof -
  let ?s = "call_state 0" and ?alloc = "\<lambda>dim cb p s. (stack_word s (p + 1), s)"
  have s: "fr_optop (frames ?s p) = 1000" "stack_word ?s a = word_of_int a" for p a by (simp_all add: call_state_def)
  have less: "\<not> (\<exists>i < (3 :: nat). sint (word_of_int (200 + int i) :: u32) < 0)"
  proof safe
    fix i :: nat
    assume i: "i < 3" "sint (word_of_int (200 + int i) :: u32) < 0"
    from i(1) consider "i = 0" | "i = 1" | "i = 2" by linarith
    then show False using i(2) by cases simp_all
  qed
  have ap: "apart (200 + (int 3 - 1)) (fr_optop (frames ?s (current_frame ?s))) 3" by (simp add: apart_def s)
  have pos: "\<not> (\<exists>i < 3. sint (stack_word ?s (200 + int i)) < 0)" using less unfolding s .
  from multianewarray_sizes [OF ap, of ?alloc 9, unfolded if_not_P [OF pos]] obtain m where
    "multianewarray ?alloc 3 9 200 ?s = ?alloc 3 9 1000 (?s\<lparr>stack_word := m\<rparr>)"
    "\<forall>i < 3. m (1000 + int i) = stack_word ?s (200 + int (2 - i))"
    "\<forall>a. \<not> (1000 \<le> a \<and> a < 1003) \<longrightarrow> m a = stack_word ?s a"
    by (auto simp: s)
  moreover have "m = (stack_word ?s)(1000 := 202, 1001 := 201, 1002 := 200)"
  proof (rule ext)
    fix a :: int
    consider "a = 1000" | "a = 1001" | "a = 1002" | "\<not> (1000 \<le> a \<and> a < 1003)" by linarith
    then show "m a = ((stack_word ?s)(1000 := 202, 1001 := 201, 1002 := 200)) a"
      using calculation(2) [rule_format, of 0] calculation(2) [rule_format, of 1] calculation(2) [rule_format, of 2] calculation(3)
      by cases (auto simp: s)
  qed
  ultimately show ?thesis by simp
qed

theorem methodByPC_overlooks_interpreted_witness:
  "methodByPC (\<lambda>pc mb. False) (sample_env\<lparr>code_addr := (\<lambda>mb. 1000 * mb)\<rparr>) (\<lambda>cb. [7, 8]) [3]
     (sample_vm\<lparr>methods := (\<lambda>m. (methods sample_vm 7)\<lparr>mb_access := (if m = 8 then push_bit ACC_MACHINE_COMPILED 1 else 0),
        mb_code_length := 2000\<rparr>)\<rparr>) 8500 = 8 \<and>
   acc (push_bit ACC_MACHINE_COMPILED 1) ACC_MACHINE_COMPILED"
proof -
  let ?v = "sample_vm\<lparr>methods := (\<lambda>m. (methods sample_vm 7)\<lparr>mb_access := (if m = 8 then push_bit ACC_MACHINE_COMPILED 1 else 0),
        mb_code_length := 2000\<rparr>)\<rparr>"
  let ?E = "sample_env\<lparr>code_addr := (\<lambda>mb. 1000 * mb)\<rparr>"
  have "methodByPC (\<lambda>pc mb. False) ?E (\<lambda>cb. [7, 8]) [3] ?v 8500 = 8"
    by (simp add: methodByPC_def pc_in_method_def acc_def bit_push_bit_iff Let_def)
  from methodByPC_overlooks_interpreted [OF this] this show ?thesis by (simp add: acc_def bit_push_bit_iff)
qed

end
