(* ===== verification/Startup.thy ===== *)
theory Startup
  imports Invoker
begin

text \<open>
  The compiler as the virtual machine sees it (\<^verbatim>\<open>compiler.c\<close>): its start, with the options of the environment variable
  \<^verbatim>\<open>JAVA_COMPILER_OPT\<close> and the set-up of the classes already loaded, and the functions it puts into the link vector: for classes that are
  loaded, compiled or freed, for switching the compiler on and off, and for walking the frames of native code.
\<close>

subsection \<open>Options\<close>

definition bool_opt_entry :: "(string \<times> opt_bit) list" where
  "bool_opt_entry = [(''quiet'', OPT_QUIET), (''igndisable'', OPT_IGNDISABLE), (''outcode'', OPT_OUTCODE),
     (''codesize'', OPT_CODESIZE), (''cmplatload'', OPT_CMPLATLOAD), (''cmplclinit'', OPT_CMPLCLINIT),
     (''ignstrictfp'', OPT_IGNSTRICTFP), (''frcstrictfp'', OPT_FRCSTRICTFP), (''fpsingle'', OPT_FPSINGLE),
     (''fpextended'', OPT_FPEXTENDED), (''sched_fifo'', OPT_SCHED_FIFO), (''sched_rr'', OPT_SCHED_RR),
     (''codedb'', OPT_CODEDB), (''ignlock'', OPT_IGNLOCK)]"

fun tokens_from :: "char set \<Rightarrow> string \<Rightarrow> string \<Rightarrow> string list" where
  \<comment> \<open>repeated \<open>strtok\<close>; the second argument is the token being read, reversed\<close>
  "tokens_from ds t [] = (if t = [] then [] else [rev t])"
| "tokens_from ds t (c # cs) =
     (if c \<in> ds then (if t = [] then tokens_from ds [] cs else rev t # tokens_from ds [] cs)
      else tokens_from ds (c # t) cs)"

definition strtok_all :: "char set \<Rightarrow> string \<Rightarrow> string list" where
  "strtok_all ds s = tokens_from ds [] s"

definition is_digit :: "char \<Rightarrow> bool" where
  "is_digit c \<longleftrightarrow> of_char CHR ''0'' \<le> (of_char c :: nat) \<and> (of_char c :: nat) \<le> of_char CHR ''9''"

fun digits :: "int \<Rightarrow> string \<Rightarrow> int" where
  "digits n [] = n"
| "digits n (c # cs) = (if is_digit c then digits (10 * n + int (of_char c - of_char CHR ''0'')) cs else n)"

definition clamp32 :: "int \<Rightarrow> int" where
  "clamp32 n = max (- 2147483648) (min 2147483647 n)"

definition is_space :: "char \<Rightarrow> bool" where
  "is_space c \<longleftrightarrow> c \<in> {CHR '' '', CHR 0x09, CHR 0x0A, CHR 0x0B, CHR 0x0C, CHR 0x0D}"

definition atoi :: "string \<Rightarrow> int" where
  \<comment> \<open>as \<open>strtol\<close> does it, on a 32-bit \<open>long\<close>\<close>
  "atoi s =
     (case dropWhile is_space s of
        [] \<Rightarrow> 0
      | c # cs \<Rightarrow>
          clamp32 (if c = CHR ''-'' then - digits 0 cs else if c = CHR ''+'' then digits 0 cs else digits 0 (c # cs)))"

definition opt_value :: "string \<Rightarrow> string \<Rightarrow> int option" where
  \<comment> \<open>\<open>!strncmp(opt, name, len)\<close> and the number behind it\<close>
  "opt_value name opt = (if starts_with name opt then Some (atoi (drop (length name) opt)) else None)"

definition set_bool_opt :: "string \<Rightarrow> vm \<Rightarrow> vm" where
  \<comment> \<open>the first entry with the name\<close>
  "set_bool_opt opt v = (case map_of bool_opt_entry opt of None \<Rightarrow> v | Some b \<Rightarrow> OPT_SET b v)"

definition process_option :: "string \<Rightarrow> jvm \<Rightarrow> jvm" where
  "process_option opt s =
     (let s = upd_vm (set_bool_opt opt) s;
          s = (case opt_value ''systhreshold='' opt of None \<Rightarrow> s | Some n \<Rightarrow> s\<lparr>opt_systhreshold := n\<rparr>)
      in case opt_value ''userthreshold='' opt of Some n \<Rightarrow> s\<lparr>opt_userthreshold := n\<rparr>
         | None \<Rightarrow>
       (case opt_value ''inlinemaxlen='' opt of Some n \<Rightarrow> upd_vm (opt_inlining_maxlen_update (\<lambda>_. n)) s
         | None \<Rightarrow>
       (case opt_value ''inlinedepth='' opt of Some n \<Rightarrow> upd_vm (opt_inlining_depth_update (\<lambda>_. n)) s
         | None \<Rightarrow> s)))"

definition get_options :: "string option \<Rightarrow> jvm \<Rightarrow> jvm" where
  \<comment> \<open>the value of \<^verbatim>\<open>JAVA_COMPILER_OPT\<close>, if it is set\<close>
  "get_options opts s =
     (case opts of None \<Rightarrow> s | Some o' \<Rightarrow> fold process_option (strtok_all {CHR '','', CHR '' ''} o') s)"

subsection \<open>Scheduler and floating point unit\<close>

datatype policy = SCHED_FIFO | SCHED_RR | SCHED_OTHER

definition scheduler :: "vm \<Rightarrow> policy option" where
  \<comment> \<open>the policy the process asks for\<close>
  "scheduler v =
     (if OPT_SETQ OPT_SCHED_FIFO v \<or> OPT_SETQ OPT_SCHED_RR v then
        Some (if OPT_SETQ OPT_SCHED_FIFO v then SCHED_FIFO
              else if OPT_SETQ OPT_SCHED_FIFO v then SCHED_RR
              else SCHED_OTHER)
      else None)"

definition rounding_precision :: "vm \<Rightarrow> u16 \<Rightarrow> u16" where
  \<comment> \<open>the control word of the floating point unit\<close>
  "rounding_precision v cw =
     (let cw = cw AND NOT 0x0300 in
      if OPT_SETQ OPT_FPEXTENDED v then cw OR 0x0300
      else if \<not> OPT_SETQ OPT_FPSINGLE v then cw OR 0x0200
      else cw)"

definition examine_precision :: "u16 \<Rightarrow> vm \<Rightarrow> vm" where
  "examine_precision cw v = v\<lparr>is_fpupc_double := (cw AND 0x0300 = 0x0200)\<rparr>"

definition custom_invokers :: "(nat list \<Rightarrow> ptr) \<Rightarrow> nat list list \<Rightarrow> ptr \<times> ptr" where
  \<comment> \<open>\<open>sym_invokeJNI_min\<close> and \<open>sym_invokeJNI_max\<close>\<close>
  "custom_invokers getCustomInvoker names =
     fold (\<lambda>p (lo, hi). let sym = getCustomInvoker p in
             if sym \<noteq> NULL then (if sym < lo then sym else lo, if hi < sym then sym else hi) else (lo, hi))
       names (2 ^ 32 - 1, 0)"

definition custom_invoker_names :: "nat list list" where
  "custom_invoker_names = [[1, 8, 8, 11, 8], [1, 1, 11, 1], [11, 1], [1, 8, 8, 11, 10], [11, 2], [1, 8, 1, 8, 8, 11, 10],
     [1, 11, 1], [3, 11, 3], [11, 10], [8, 8, 8, 8, 11, 10], [1, 11, 10], [8, 11, 10], [11, 8], [11, 4]]"

subsection \<open>Classes\<close>

record loaded = \<comment> \<open>the classes of the virtual machine\<close>
  cbMethods :: "ptr \<Rightarrow> ptr list"
  binclasses :: "ptr list"
  FindClass :: "string \<Rightarrow> vm \<Rightarrow> ptr \<times> vm"

fun for_each :: "('a \<Rightarrow> vm \<Rightarrow> fatal + vm) \<Rightarrow> 'a list \<Rightarrow> vm \<Rightarrow> fatal + vm" where
  "for_each f [] v = Inr v"
| "for_each f (x # xs) v = bindE (f x v) (for_each f xs)"

definition init_method :: "env \<Rightarrow> bool \<Rightarrow> ptr \<Rightarrow> vm \<Rightarrow> fatal + vm" where
  \<comment> \<open>the body of the loop of \<open>initializeClassForJIT\<close>\<close>
  "init_method E initInvoker mb v =
     (let access = mb_access (methods v mb) in
      if acc access ACC_ABSTRACT then Inr v
      else bindE (prepareCompiledCodeInfo E mb v) (\<lambda>(info, v).
        if info = NULL then Inl ExitFailure
        else if acc access ACC_NATIVE \<or> \<not> initInvoker then Inr v
        else if (OPT_SETQ OPT_CMPLCLINIT v \<or> mb_name (methods v mb) \<noteq> ''<clinit>'') \<and> CompiledCode (methods v mb) = NULL
        then Inr (set_invoker mb (sym_compileAndInvokeMethod E) v)
        else Inr v))"

definition initializeClassForJIT :: "env \<Rightarrow> loaded \<Rightarrow> bool \<Rightarrow> ptr \<Rightarrow> vm \<Rightarrow> fatal + vm" where
  \<comment> \<open>\<open>linkNative\<close> is used only with MetaVM\<close>
  "initializeClassForJIT E L initInvoker cb = for_each (init_method E initInvoker) (cbMethods L cb)"

definition compile_class_method :: "nat \<Rightarrow> nat \<Rightarrow> env \<Rightarrow> ptr \<Rightarrow> vm \<Rightarrow> fatal + vm" where
  "compile_class_method k fuel E mb v =
     (let access = mb_access (methods v mb) in
      if acc access ACC_ABSTRACT then Inr v
      else bindE (if CompiledCodeInfo (methods v mb) = NULL then bindE (prepareCompiledCodeInfo E mb v) (\<lambda>(i, v). Inr v) else Inr v) (\<lambda>v.
        if acc access ACC_NATIVE \<or> mb_name (methods v mb) = ''<clinit>'' then Inr v
        else bindE (compileMethod k fuel E mb STAGE_DONE v) (\<lambda>(failed, v). Inr v)))"

definition compileClass :: "nat \<Rightarrow> nat \<Rightarrow> env \<Rightarrow> loaded \<Rightarrow> bool \<Rightarrow> ptr \<Rightarrow> vm \<Rightarrow> fatal + vm" where
  \<comment> \<open>the result is always \<open>TRUE\<close>; the fifth argument is \<open>compiler_enabled\<close>\<close>
  "compileClass k fuel E L enabled cb v =
     (if \<not> enabled then Inr v else for_each (compile_class_method k fuel E) (cbMethods L cb) v)"

definition initializeClassHook :: "nat \<Rightarrow> nat \<Rightarrow> env \<Rightarrow> loaded \<Rightarrow> bool \<Rightarrow> ptr \<Rightarrow> vm \<Rightarrow> fatal + vm" where
  "initializeClassHook k fuel E L enabled cb v =
     bindE (initializeClassForJIT E L True cb v) (\<lambda>v.
       if OPT_SETQ OPT_CMPLATLOAD v then compileClass k fuel E L enabled cb v else Inr v)"

definition init_loaded_classes :: "nat \<Rightarrow> nat \<Rightarrow> env \<Rightarrow> loaded \<Rightarrow> bool \<Rightarrow> vm \<Rightarrow> fatal + vm" where
  \<comment> \<open>in \<open>java_lang_Compiler_start\<close>\<close>
  "init_loaded_classes k fuel E L enabled v =
     (if OPT_SETQ OPT_DONTCMPLVMCLZ v then Inr v
      else bindE (for_each (initializeClassForJIT E L True) (binclasses L) v) (\<lambda>v.
        let all = OPT_SETQ OPT_CMPLATLOAD v in
        for_each (\<lambda>cb v. if all \<or> starts_with ''java/lang/ref/'' (cb_name (classes v cb))
                         then compileClass k fuel E L enabled cb v else Inr v) (binclasses L) v))"

definition freeClass :: "loaded \<Rightarrow> ptr \<Rightarrow> vm \<Rightarrow> vm" where
  "freeClass L cb v = fold freeMethod (cbMethods L cb) v"

fun split_names :: "string \<Rightarrow> string list" where
  \<comment> \<open>the names between the commas\<close>
  "split_names [] = [[]]"
| "split_names (c # cs) =
     (if c = CHR '','' then [] # split_names cs
      else (case split_names cs of [] \<Rightarrow> [[c]] | n # ns \<Rightarrow> (c # n) # ns))"

definition compileClasses :: "nat \<Rightarrow> nat \<Rightarrow> env \<Rightarrow> loaded \<Rightarrow> bool \<Rightarrow> string option \<Rightarrow> vm \<Rightarrow> fatal + bool \<times> vm" where
  \<comment> \<open>the argument is \<open>allocCString(nameStr)\<close>\<close>
  "compileClasses k fuel E L enabled names v =
     (case names of
        None \<Rightarrow> Inr (False, v)
      | Some ns \<Rightarrow>
          bindE (for_each (\<lambda>name v. let (cb, v) = FindClass L name v in
              if cb \<noteq> NULL then compileClass k fuel E L enabled cb v else Inr v) (split_names ns) v)
            (\<lambda>v. Inr (True, v)))"

definition compilerEnable :: "jvm \<Rightarrow> jvm" where
  "compilerEnable s = s\<lparr>compiler_enabled := True\<rparr>"

definition compilerDisable :: "jvm \<Rightarrow> jvm" where
  "compilerDisable s = s\<lparr>compiler_enabled := False\<rparr>"

subsection \<open>Addresses and frames\<close>

definition pcInCompiledCode :: "u32 \<Rightarrow> u32 \<Rightarrow> u32 \<Rightarrow> bool" where
  \<comment> \<open>of an address, \<open>mb->code\<close> and \<open>mb->code_length\<close>\<close>
  "pcInCompiledCode pc code len = (let off = pc - code in off < len)"

definition compiledCodePC :: "env \<Rightarrow> ptr \<Rightarrow> ptr" where
  "compiledCodePC E mb = code_addr E mb"

definition frameID :: "frame \<Rightarrow> int" where
  "frameID f = fr_vars f"

definition zero_frame :: frame where
  "zero_frame = \<lparr>fr_prev = NULL, fr_vars = 0, fr_optop = 0, fr_method = NULL, fr_pc = NULL, fr_constant_pool = NULL,
     fr_refs_freelist = NULL, fr_refs_in_use = 0, fr_refs_capacity = 0\<rparr>"

definition framePrev :: "env \<Rightarrow> u32 set \<Rightarrow> jvm \<Rightarrow> frame \<Rightarrow> bool \<Rightarrow> ptr + frame" where
  \<comment> \<open>a frame of the virtual machine, or what is in \<open>frame_buf\<close>. The set has the addresses \<open>invokeJIT_compiled_done\<close> and
      \<open>candi_compiled_done\<close>; the last argument tells that the frame is not the buffer\<close>
  "framePrev E ends s f first =
     (let mb = fr_method f; code = code_addr E mb; lastpc = fr_pc f in
      if code \<le> lastpc \<and> lastpc < code + mb_code_length (methods (vm_of s) mb) then Inl (fr_prev f)
      else
        (let base = fr_vars f;
             buf = (if first then zero_frame\<lparr>fr_prev := fr_prev f\<rparr> else f)
         in if stack_word s (base + 1) \<in> ends then Inl (fr_prev f)
            else (let base = uint (stack_word s base) div 4
                  in Inr (buf\<lparr>fr_vars := base, fr_method := uint (stack_word s (base + 3))\<rparr>))))"

subsection \<open>The start of the compiler\<close>

record dbm_library = \<comment> \<open>which steps of opening the database of code succeed\<close>
  dl_opened :: bool
  has_open :: bool
  has_close :: bool
  has_store :: bool
  has_fetch :: bool
  has_sync :: bool
  page_opened :: bool
  db_opened :: bool

definition symbols_missing :: "dbm_library \<Rightarrow> bool" where
  \<comment> \<open>the negation covers four of the five symbols only\<close>
  "symbols_missing d \<longleftrightarrow> \<not> (has_open d \<and> has_close d \<and> has_store d \<and> has_fetch d) \<and> has_sync d"

definition open_codedb :: "dbm_library \<Rightarrow> fatal + unit" where
  \<comment> \<open>a failure disables the option in words and ends the process\<close>
  "open_codedb d =
     (if \<not> dl_opened d then Inl ExitFailure
      else if symbols_missing d then Inl ExitFailure
      else if \<not> page_opened d then Inl ExitFailure
      else if \<not> has_open d then Inl NullDeref
      else if \<not> db_opened d then Inl ExitFailure
      else Inr ())"

record host = \<comment> \<open>what the start finds\<close>
  getenv_opt :: "string option" \<comment> \<open>\<^verbatim>\<open>JAVA_COMPILER_OPT\<close>\<close>
  fpu_cw :: u16
  sched_setscheduler :: "policy \<Rightarrow> bool"
  getCustomInvoker :: "nat list \<Rightarrow> ptr"
  dbm :: dbm_library

definition compiler_start :: "nat \<Rightarrow> nat \<Rightarrow> env \<Rightarrow> loaded \<Rightarrow> host \<Rightarrow> jvm \<Rightarrow> fatal + env \<times> u16 \<times> jvm" where
  \<comment> \<open>\<open>java_lang_Compiler_start\<close>, with the control word it leaves in the floating point unit\<close>
  "compiler_start k fuel E L H s =
     (let s = get_options (getenv_opt H) s in
      if (case scheduler (vm_of s) of None \<Rightarrow> False | Some p \<Rightarrow> \<not> sched_setscheduler H p) then Inl ExitFailure
      else
        (let cw = rounding_precision (vm_of s) (fpu_cw H);
             (lo, hi) = custom_invokers (getCustomInvoker H) custom_invoker_names;
             E = E\<lparr>sym_invokeJNI_min := lo, sym_invokeJNI_max := hi\<rparr>
         in bindE (init_loaded_classes k fuel E L (compiler_enabled s) (vm_of s)) (\<lambda>v.
            bindE (if OPT_SETQ OPT_CODEDB v then open_codedb (dbm H) else Inr ()) (\<lambda>_.
              Inr (E, cw, s\<lparr>vm_of := examine_precision cw v\<rparr>)))))"

subsection \<open>What the options do\<close>

lemma OPT_SETQ_bit: "OPT_SETQ n v \<longleftrightarrow> bit (options v) (opt_num n)"
proof -
  have "opt_num n < 32" by (cases n) simp_all
  then show ?thesis unfolding OPT_SETQ_def by (subst bit_eq_iff) (auto simp: bit_and_iff bit_exp_iff possible_bit_word)
qed

lemma opt_num_inj: "opt_num a = opt_num b \<longleftrightarrow> a = b"
  by (cases a; cases b) simp_all

lemma OPT_SETQ_SET [simp]: "OPT_SETQ a (OPT_SET b v) \<longleftrightarrow> a = b \<or> OPT_SETQ a v"
proof -
  have "opt_num a < 32" by (cases a) simp_all
  then show ?thesis
    by (auto simp: OPT_SETQ_bit OPT_SET_def bit_or_iff bit_exp_iff possible_bit_word opt_num_inj)
qed

lemma bool_opt_names: "map_of bool_opt_entry opt = Some b \<longleftrightarrow> (opt, b) \<in> set bool_opt_entry"
  by (rule map_of_eq_Some_iff) (simp add: bool_opt_entry_def)

lemma OPT_SETQ_fields [simp]:
  "OPT_SETQ b (opt_inlining_maxlen_update f v) = OPT_SETQ b v" "OPT_SETQ b (opt_inlining_depth_update f v) = OPT_SETQ b v"
  by (simp_all add: OPT_SETQ_def)

lemma set_bool_opt_fields [simp]:
  "OPT_SETQ b (set_bool_opt opt v) \<longleftrightarrow> OPT_SETQ b v \<or> (opt, b) \<in> set bool_opt_entry"
  "opt_inlining_maxlen (set_bool_opt opt v) = opt_inlining_maxlen v" "opt_inlining_depth (set_bool_opt opt v) = opt_inlining_depth v"
  unfolding bool_opt_names [symmetric] by (auto simp: set_bool_opt_def split: option.split) (simp_all add: OPT_SET_def)

lemma starts_with_nth: "starts_with pre s \<Longrightarrow> i < length pre \<Longrightarrow> s ! i = pre ! i"
  unfolding starts_with_def by (metis nth_take)

lemma option_kinds:
  "starts_with ''userthreshold='' opt \<Longrightarrow> \<not> starts_with ''inlinemaxlen='' opt \<and> \<not> starts_with ''inlinedepth='' opt"
  "starts_with ''inlinemaxlen='' opt \<Longrightarrow> \<not> starts_with ''inlinedepth='' opt"
  using starts_with_nth [of "''userthreshold=''" opt 0] starts_with_nth [of "''inlinemaxlen=''" opt 0]
    starts_with_nth [of "''inlinedepth=''" opt 0] starts_with_nth [of "''inlinemaxlen=''" opt 6] starts_with_nth [of "''inlinedepth=''" opt 6]
  by auto

lemma process_option_fields:
  "OPT_SETQ b (vm_of (process_option opt s)) \<longleftrightarrow> OPT_SETQ b (vm_of s) \<or> (opt, b) \<in> set bool_opt_entry"
  "opt_systhreshold (process_option opt s) = (case opt_value ''systhreshold='' opt of None \<Rightarrow> opt_systhreshold s | Some n \<Rightarrow> n)"
  "opt_userthreshold (process_option opt s) = (case opt_value ''userthreshold='' opt of None \<Rightarrow> opt_userthreshold s | Some n \<Rightarrow> n)"
  "opt_inlining_maxlen (vm_of (process_option opt s)) =
     (case opt_value ''inlinemaxlen='' opt of None \<Rightarrow> opt_inlining_maxlen (vm_of s) | Some n \<Rightarrow> n)"
  "opt_inlining_depth (vm_of (process_option opt s)) =
     (case opt_value ''inlinedepth='' opt of None \<Rightarrow> opt_inlining_depth (vm_of s) | Some n \<Rightarrow> n)"
  using option_kinds [of opt] by (auto simp: process_option_def opt_value_def Let_def)

definition last_value :: "string \<Rightarrow> string list \<Rightarrow> int \<Rightarrow> int" where
  \<comment> \<open>the number in the last option with the name, or the default\<close>
  "last_value name toks d = last (d # List.map_filter (opt_value name) toks)"

lemma last_value_fold:
  assumes "\<And>opt s. fld (process_option opt s) = (case opt_value name opt of None \<Rightarrow> fld s | Some n \<Rightarrow> n)"
  shows "fld (fold process_option toks s) = last_value name toks (fld s)"
  by (induction toks arbitrary: s) (simp_all add: assms last_value_def map_filter_simps split: option.split)

text \<open>C36: The options in \<^verbatim>\<open>JAVA_COMPILER_OPT\<close> do what their names say: an option bit is set afterwards exactly if it was set or its
name is one of the words between the commas and blanks, and each numeric setting is the number in the last
word that gives it. No word sets the bit for leaving the classes of the virtual machine alone.\<close>
theorem options_parsed:
  fixes str :: string
  defines "toks \<equiv> strtok_all {CHR '','', CHR '' ''} str"
  shows "(\<forall>b. OPT_SETQ b (vm_of (get_options (Some str) s)) \<longleftrightarrow>
      OPT_SETQ b (vm_of s) \<or> (\<exists>name \<in> set toks. (name, b) \<in> set bool_opt_entry)) \<and>
    opt_systhreshold (get_options (Some str) s) = last_value ''systhreshold='' toks (opt_systhreshold s) \<and>
    opt_userthreshold (get_options (Some str) s) = last_value ''userthreshold='' toks (opt_userthreshold s) \<and>
    opt_inlining_maxlen (vm_of (get_options (Some str) s)) = last_value ''inlinemaxlen='' toks (opt_inlining_maxlen (vm_of s)) \<and>
    opt_inlining_depth (vm_of (get_options (Some str) s)) = last_value ''inlinedepth='' toks (opt_inlining_depth (vm_of s)) \<and>
    (\<forall>name. (name, OPT_DONTCMPLVMCLZ) \<notin> set bool_opt_entry)"
proof -
  have bits: "OPT_SETQ b (vm_of (fold process_option toks s)) \<longleftrightarrow> OPT_SETQ b (vm_of s) \<or> (\<exists>name \<in> set toks. (name, b) \<in> set bool_opt_entry)" for b
    by (induction toks arbitrary: s) (auto simp: process_option_fields)
  have "opt_systhreshold (fold process_option toks s) = last_value ''systhreshold='' toks (opt_systhreshold s)"
    "opt_userthreshold (fold process_option toks s) = last_value ''userthreshold='' toks (opt_userthreshold s)"
    "opt_inlining_maxlen (vm_of (fold process_option toks s)) = last_value ''inlinemaxlen='' toks (opt_inlining_maxlen (vm_of s))"
    "opt_inlining_depth (vm_of (fold process_option toks s)) = last_value ''inlinedepth='' toks (opt_inlining_depth (vm_of s))"
    by (rule last_value_fold, rule process_option_fields)+
  moreover have "(name, OPT_DONTCMPLVMCLZ) \<notin> set bool_opt_entry" for name by (simp add: bool_opt_entry_def)
  ultimately show ?thesis
    unfolding get_options_def option.case toks_def [symmetric] using bits by blast
qed

lemma tokens_from_words: "concat (tokens_from ds t s) = rev t @ filter (\<lambda>c. c \<notin> ds) s"
  by (induction ds t s rule: tokens_from.induct) auto

lemma strtok_all_words: "concat (strtok_all ds s) = filter (\<lambda>c. c \<notin> ds) s"
  by (simp add: strtok_all_def tokens_from_words)

text \<open>The option \<open>sched_rr\<close> never selects the policy \<open>SCHED_RR\<close>: alone it asks for the default policy.\<close>
theorem sched_rr_ignored:
  "scheduler v \<noteq> Some SCHED_RR \<and>
   (OPT_SETQ OPT_SCHED_RR v \<longrightarrow> \<not> OPT_SETQ OPT_SCHED_FIFO v \<longrightarrow> scheduler v = Some SCHED_OTHER)"
  by (simp add: scheduler_def)

text \<open>A library without the function that writes the data to disk passes the test although the other four symbols are missing too.\<close>

lemma missing_symbols_accepted:
  "\<not> has_sync d \<Longrightarrow> \<not> has_open d \<Longrightarrow> dl_opened d \<Longrightarrow> page_opened d \<Longrightarrow> open_codedb d = Inl NullDeref"
  by (simp add: open_codedb_def symbols_missing_def)

subsection \<open>Set-up of a class\<close>

definition to_compile :: "vm \<Rightarrow> ptr \<Rightarrow> bool" where
  \<comment> \<open>the methods that are compiled at their first invocations\<close>
  "to_compile v mb \<longleftrightarrow> (let m = methods v mb in
     \<not> acc (mb_access m) ACC_ABSTRACT \<and> \<not> acc (mb_access m) ACC_NATIVE \<and>
     (OPT_SETQ OPT_CMPLCLINIT v \<or> mb_name m \<noteq> ''<clinit>'') \<and> CompiledCode m = NULL)"

definition set_up_method :: "env \<Rightarrow> bool \<Rightarrow> bool \<Rightarrow> methodblock \<Rightarrow> methodblock \<Rightarrow> bool" where
  \<comment> \<open>a method before and after: whether it is set up, and whether it is to be compiled\<close>
  "set_up_method E member due x y \<longleftrightarrow>
     y = x\<lparr>CompiledCodeInfo := CompiledCodeInfo y, invoker := invoker y\<rparr> \<and>
     (CompiledCodeInfo x \<noteq> NULL \<or> \<not> member \<or> acc (mb_access x) ACC_ABSTRACT \<longrightarrow> CompiledCodeInfo y = CompiledCodeInfo x) \<and>
     (member \<and> \<not> acc (mb_access x) ACC_ABSTRACT \<longrightarrow> CompiledCodeInfo y \<noteq> NULL) \<and>
     invoker y = (if member \<and> due then sym_compileAndInvokeMethod E else invoker x)"

definition set_up :: "env \<Rightarrow> bool \<Rightarrow> ptr set \<Rightarrow> vm \<Rightarrow> vm \<Rightarrow> bool" where
  "set_up E initInvoker ms v v' \<longleftrightarrow> options v' = options v \<and> contexts v' = contexts v \<and>
     (\<forall>m. set_up_method E (m \<in> ms) (initInvoker \<and> to_compile v m) (methods v m) (methods v' m))"

lemma init_method_effect:
  assumes "init_method E initInvoker mb v = Inr v'" "ctx_inv_for P v ps" "mb_clazz (methods v mb) \<noteq> NULL"
  shows "set_up E initInvoker {mb} v v' \<and> ctx_inv_for P v' ps"
proof (cases "acc (mb_access (methods v mb)) ACC_ABSTRACT")
  case True
  with assms(1,2) show ?thesis by (auto simp: init_method_def set_up_def set_up_method_def to_compile_def Let_def)
next
  case False
  with assms(1) obtain info u where p: "prepareCompiledCodeInfo E mb v = Inr (info, u)"
    "(if info = NULL then Inl ExitFailure
      else if acc (mb_access (methods v mb)) ACC_NATIVE \<or> \<not> initInvoker then Inr u
      else if (OPT_SETQ OPT_CMPLCLINIT u \<or> mb_name (methods u mb) \<noteq> ''<clinit>'') \<and> CompiledCode (methods u mb) = NULL
      then Inr (set_invoker mb (sym_compileAndInvokeMethod E) u) else Inr u) = Inr v'"
    unfolding init_method_def Let_def if_not_P [OF False] bindE_Inr by fastforce
  then have u: "prepareCompiledCodeInfo E mb v = Inr (info, u)" "info \<noteq> NULL"
    "v' = (if initInvoker \<and> \<not> acc (mb_access (methods v mb)) ACC_NATIVE \<and>
        (OPT_SETQ OPT_CMPLCLINIT u \<or> mb_name (methods u mb) \<noteq> ''<clinit>'') \<and> CompiledCode (methods u mb) = NULL
      then set_invoker mb (sym_compileAndInvokeMethod E) u else u)"
    by (auto split: if_splits)
  show ?thesis
  proof (cases "CompiledCodeInfo (methods v mb) = NULL")
    case True
    from prepare_effect [OF u(1) assms(3) True] obtain nf where
      e: "u = v\<lparr>next_addr := next_addr v + 1, infos := (infos v)(info := nf), methods := (methods v)(mb := (methods v mb)\<lparr>CompiledCodeInfo := info\<rparr>)\<rparr>"
      by metis
    have "ctx_inv_for P u ps" by (rule prepare_inv(1) [OF assms(2) u(1) assms(3) True])
    then have "ctx_inv_for P v' ps" using u(3) frame_inv [OF _ frame_invoker] by metis
    with False True u(2,3) show ?thesis
      by (auto simp: e set_up_def set_up_method_def to_compile_def set_invoker_def OPT_SETQ_def Let_def)
  next
    case known: False
    with u(1) assms(3) have e: "u = v" by (simp add: prepareCompiledCodeInfo_def Let_def)
    then have "ctx_inv_for P v' ps" using assms(2) u(3) frame_inv [OF _ frame_invoker] by metis
    with False known u(3) show ?thesis
      by (auto simp: e set_up_def set_up_method_def to_compile_def set_invoker_def OPT_SETQ_def Let_def)
  qed
qed

lemma set_up_method_rest:
  assumes "set_up_method E member due x y"
  shows "mb_clazz y = mb_clazz x" "mb_access y = mb_access x" "mb_name y = mb_name x" "CompiledCode y = CompiledCode x"
proof -
  have m: "y = x\<lparr>CompiledCodeInfo := CompiledCodeInfo y, invoker := invoker y\<rparr>" using assms unfolding set_up_method_def by blast
  show "mb_clazz y = mb_clazz x" "mb_access y = mb_access x" "mb_name y = mb_name x" "CompiledCode y = CompiledCode x"
    by (subst m, simp)+
qed

lemma set_up_method_trans:
  assumes "set_up_method E m1 due x y" "set_up_method E m2 due y z"
  shows "set_up_method E (m1 \<or> m2) due x z"
proof -
  have "y = x\<lparr>CompiledCodeInfo := CompiledCodeInfo y, invoker := invoker y\<rparr>"
    "z = y\<lparr>CompiledCodeInfo := CompiledCodeInfo z, invoker := invoker z\<rparr>" using assms unfolding set_up_method_def by blast+
  then have "z = x\<lparr>CompiledCodeInfo := CompiledCodeInfo z, invoker := invoker z\<rparr>" by (cases x; cases y; cases z) simp
  moreover note assms [unfolded set_up_method_def]
  ultimately show ?thesis unfolding set_up_method_def set_up_method_rest(2) [OF assms(1)] by auto
qed

lemma set_up_rest:
  assumes "set_up E b ms v u"
  shows "to_compile u m = to_compile v m" "mb_clazz (methods u m) = mb_clazz (methods v m)"
proof -
  have "set_up_method E (m \<in> ms) (b \<and> to_compile v m) (methods v m) (methods u m)" "options u = options v"
    using assms unfolding set_up_def by blast+
  with set_up_method_rest [OF this(1)]
  show "to_compile u m = to_compile v m" "mb_clazz (methods u m) = mb_clazz (methods v m)"
    by (simp_all add: to_compile_def OPT_SETQ_def Let_def)
qed

lemma set_up_insert:
  assumes "set_up E b {mb} v u" "set_up E b ms u w"
  shows "set_up E b (insert mb ms) v w"
proof -
  have "set_up_method E (m \<in> insert mb ms) (b \<and> to_compile v m) (methods v m) (methods w m)" for m
    using set_up_method_trans [of E "m \<in> {mb}" "b \<and> to_compile v m" "methods v m" "methods u m" "m \<in> ms" "methods w m"] assms set_up_rest(1) [OF assms(1)]
    by (simp add: set_up_def)
  then show ?thesis using assms by (simp add: set_up_def)
qed

text \<open>C35: Setting up a class prepares each of its methods and touches nothing else: every method that is not abstract gets its
compiled code information, once, every Java method that is not compiled yet is to be compiled at its first invocations, except a class
initialiser unless the option says so, and native and abstract methods keep their invokers. The
discipline of the compiler contexts is kept.\<close>
theorem class_initialised:
  assumes "initializeClassForJIT E L b cb v = Inr v'" "ctx_inv v ps" "\<forall>m \<in> set (cbMethods L cb). mb_clazz (methods v m) \<noteq> NULL"
  shows "set_up E b (set (cbMethods L cb)) v v' \<and> ctx_inv v' ps"
  using assms unfolding initializeClassForJIT_def
proof (induction "cbMethods L cb" arbitrary: v L)
  case Nil
  then have "v' = v" by simp
  with Nil show ?case by (simp add: set_up_def set_up_method_def Nil(1) [symmetric])
next
  case (Cons m ms)
  define L' where "L' = L\<lparr>cbMethods := (\<lambda>_. ms)\<rparr>"
  have L: "cbMethods L cb = m # ms" "cbMethods L' cb = ms" using Cons(2) by (simp_all add: L'_def)
  from Cons.prems(1) obtain u where u: "init_method E b m v = Inr u" "for_each (init_method E b) ms u = Inr v'"
    by (auto simp: L bindE_Inr)
  have s: "set_up E b {m} v u" "ctx_inv u ps" using init_method_effect [OF u(1) Cons.prems(2)] Cons.prems(3) by (simp_all add: L)
  have "set_up E b (set ms) u v' \<and> ctx_inv v' ps"
    using Cons.hyps(1) [of L' u] u(2) s(2) Cons.prems(3) set_up_rest(2) [OF s(1)] by (simp add: L)
  with set_up_insert [OF s(1)] show ?case by (simp add: L)
qed

subsection \<open>Walking native frames\<close>

fun backtrace :: "env \<Rightarrow> u32 set \<Rightarrow> jvm \<Rightarrow> nat \<Rightarrow> frame \<Rightarrow> bool \<Rightarrow> ptr list \<times> ptr option" where
  \<comment> \<open>how the virtual machine walks: the methods of the frames in the buffer, and the next frame of its own\<close>
  "backtrace E ends s 0 f first = ([], None)"
| "backtrace E ends s (Suc n) f first =
     (case framePrev E ends s f first of
        Inl p \<Rightarrow> ([], Some p)
      | Inr g \<Rightarrow> (let (ms, p) = backtrace E ends s n g False in (fr_method g # ms, p)))"

fun native_chain :: "u32 set \<Rightarrow> jvm \<Rightarrow> int \<Rightarrow> (int \<times> ptr) list \<Rightarrow> bool" where
  \<comment> \<open>native frames from the base pointer \<open>b\<close> on: the saved base pointers, and the methods of the callers\<close>
  "native_chain ends s b [] \<longleftrightarrow> stack_word s (b + 1) \<in> ends"
| "native_chain ends s b ((c, m) # fs) \<longleftrightarrow>
     stack_word s (b + 1) \<notin> ends \<and> uint (stack_word s b) = 4 * c \<and> uint (stack_word s (c + 3)) = m \<and> native_chain ends s c fs"

definition runs_bytecode :: "env \<Rightarrow> jvm \<Rightarrow> frame \<Rightarrow> bool" where
  \<comment> \<open>\<open>lastpc\<close> is in the bytecode of the method of the frame\<close>
  "runs_bytecode E s f \<longleftrightarrow> (let code = code_addr E (fr_method f) in
     code \<le> fr_pc f \<and> fr_pc f < code + mb_code_length (methods (vm_of s) (fr_method f)))"

lemma backtrace_buffer:
  assumes "native_chain ends s (fr_vars f) fs" "length fs < n" "\<And>m. 0 < code_addr E m" "fr_pc f = NULL"
  shows "backtrace E ends s n f False = (map snd fs, Some (fr_prev f))"
  using assms(1,2,4)
proof (induction fs arbitrary: f n)
  case Nil
  with assms(3) show ?case by (cases n) (simp_all add: framePrev_def Let_def not_le)
next
  case (Cons cm fs)
  obtain c m where cm: "cm = (c, m)" by force
  from Cons.prems(2) obtain k where k: "n = Suc k" "length fs < k" by (cases n) auto
  let ?g = "f\<lparr>fr_vars := c, fr_method := m\<rparr>"
  have "framePrev E ends s f False = Inr ?g"
    using Cons.prems(1,3) assms(3) [of "fr_method f"] by (simp add: cm framePrev_def Let_def not_le)
  with Cons.IH [of ?g k] Cons.prems k show ?case by (simp add: cm)
qed


lemma pcInCompiledCode_range:
  "unat code + unat len \<le> 2 ^ 32 \<Longrightarrow> pcInCompiledCode pc code len \<longleftrightarrow> code \<le> pc \<and> unat pc < unat code + unat len"
  unfolding pcInCompiledCode_def Let_def by (simp add: word_less_nat_alt word_le_nat_alt unat_sub_if') linarith

lemma split_names_join:
  assumes "\<forall>n \<in> set (a # ns). CHR '','' \<notin> set n"
  shows "split_names (a @ concat (map (\<lambda>n. CHR '','' # n) ns)) = a # ns"
  using assms
proof (induction ns arbitrary: a)
  case Nil
  then show ?case by (induction a) auto
next
  case (Cons n ns)
  from Cons.prems Cons.IH [of n] show ?case by (induction a) auto
qed

lemma freeClass_clears:
  "methods (freeClass L cb v) m = (if m \<in> set (cbMethods L cb) then (methods v m)\<lparr>CompiledCodeInfo := NULL, CompiledCode := NULL\<rparr> else methods v m)"
proof -
  have "methods (fold freeMethod ms v) m =
      (if m \<in> set ms then (methods v m)\<lparr>CompiledCodeInfo := NULL, CompiledCode := NULL\<rparr> else methods v m)" for ms
    by (induction ms arbitrary: v) (auto simp: freeMethod_def)
  then show ?thesis by (simp add: freeClass_def)
qed

subsection \<open>Witnesses\<close>

theorem options_parsed_witness:
  "OPT_SETQ OPT_CODEDB (vm_of (get_options (Some ''quiet, codedb,userthreshold=12,userthreshold=7'') (call_state 0))) \<and>
   \<not> OPT_SETQ OPT_IGNLOCK (vm_of (get_options (Some ''quiet, codedb,userthreshold=12,userthreshold=7'') (call_state 0))) \<and>
   opt_userthreshold (get_options (Some ''quiet, codedb,userthreshold=12,userthreshold=7'') (call_state 0)) = 7"
proof -
  let ?str = "''quiet, codedb,userthreshold=12,userthreshold=7''"
  have toks: "strtok_all {CHR '','', CHR '' ''} ?str = [''quiet'', ''codedb'', ''userthreshold=12'', ''userthreshold=7'']"
    by (simp add: strtok_all_def)
  have "last_value ''userthreshold='' [''quiet'', ''codedb'', ''userthreshold=12'', ''userthreshold=7''] 3 = 7"
    by (simp add: last_value_def map_filter_simps opt_value_def starts_with_def atoi_def is_space_def is_digit_def clamp32_def)
  moreover have "opt_userthreshold (call_state 0) = 3" "\<not> OPT_SETQ OPT_IGNLOCK (vm_of (call_state 0))"
    by (simp_all add: call_state_def sample_vm_def OPT_SETQ_def)
  ultimately show ?thesis using options_parsed [of ?str "call_state 0"] unfolding toks by (simp add: bool_opt_entry_def)
qed

definition one_class :: loaded where
  \<comment> \<open>class 3 with method 7; for witnesses\<close>
  "one_class = \<lparr>cbMethods = (\<lambda>_. [7]), binclasses = [3], FindClass = (\<lambda>_ v. (3, v))\<rparr>"

theorem class_initialised_witness:
  "\<exists>v'. initializeClassForJIT call_env one_class True 3 sample_vm = Inr v' \<and> invoker (methods v' 7) = 900 \<and>
     CompiledCodeInfo (methods v' 7) \<noteq> NULL \<and> ctx_inv v' []"
proof -
  let ?m = "methods sample_vm 7"
  have "mb_signature ?m = method_desc [TLong] (Some TInt)" by (simp add: sample_vm_def method_desc_def ret_desc_def)
  then have "parse_signature ?m = Inr \<lparr>ss_sizes = [2, 0, 1], ss_terse = [2, 11, 8], ss_ret_sig = ''I''\<rparr>"
    using parse_signature_spec [of ?m "[TLong]" "Some TInt"]
    by (simp add: receiver_def ret_words_def ret_terse_def ret_desc_def sample_vm_def acc_def)
  then have "\<exists>v'. initializeClassForJIT call_env one_class True 3 sample_vm = Inr v'"
    by (simp add: initializeClassForJIT_def one_class_def init_method_def prepareCompiledCodeInfo_def fill_info_def Let_def)
      (simp add: sample_vm_def acc_def)
  then obtain v' where v: "initializeClassForJIT call_env one_class True 3 sample_vm = Inr v'" ..
  have c: "\<forall>m \<in> set (cbMethods one_class 3). mb_clazz (methods sample_vm m) \<noteq> NULL" by (simp add: sample_vm_def)
  have due: "to_compile sample_vm 7" "\<not> acc (mb_access ?m) ACC_ABSTRACT" by (simp_all add: to_compile_def sample_vm_def acc_def Let_def)
  from class_initialised [OF v sample_vm_inv c] have "set_up call_env True {7} sample_vm v'" "ctx_inv v' []"
    by (simp_all add: one_class_def)
  then show ?thesis using v due unfolding set_up_def set_up_method_def by (auto simp: call_env_def)
qed


end
